(* ===== verification/Prelude.thy ===== *)
theory Prelude
  imports Main "HOL-Library.Word" "HOL-Library.Monad_Syntax"
begin

text \<open>
  Shared ground of the development: the C integer types the sources use, the error codes of
  \<^verbatim>\<open>rtdef.h\<close>, the reading of a C call that does not return, and the generic lemmas on lists,
  options and words the component theories rely on.

  Conventions.
  \<^item> Unsigned C integers are words of their width (\<open>u8\<close>, \<open>u16\<close>, \<open>u32\<close>); error codes and the
    signed waiting times are \<open>int\<close>.
  \<^item> A C function that updates global state is a function from the state to an \<open>option\<close>: \<open>None\<close>
    is a call that does not return. \<^verbatim>\<open>RT_ASSERT\<close> is active in this configuration
    (\<^verbatim>\<open>RT_DEBUG\<close> is defined in \<^verbatim>\<open>rtconfig.h\<close>) and its handler spins forever
    (\<^verbatim>\<open>while (dummy == 0);\<close> in \<^verbatim>\<open>kservice.c\<close>), so a failed assertion is \<open>None\<close> as well.
\<close>

unbundle bit_operations_syntax

named_theorems rt_defs \<open>definitions of the kernel's record updates and list operations\<close>
named_theorems rt_frame \<open>what an operation leaves unchanged\<close>

type_synonym u8 = "8 word"
type_synonym u16 = "16 word"
type_synonym u32 = "32 word"
type_synonym rt_err_t = int
type_synonym rt_tick_t = u32

section \<open>Constants of rtdef.h\<close>

abbreviation (input) RT_EOK :: rt_err_t where "RT_EOK \<equiv> 0"
abbreviation (input) RT_ERROR :: rt_err_t where "RT_ERROR \<equiv> 1"
abbreviation (input) RT_ETIMEOUT :: rt_err_t where "RT_ETIMEOUT \<equiv> 2"
abbreviation (input) RT_EFULL :: rt_err_t where "RT_EFULL \<equiv> 3"
abbreviation (input) RT_EEMPTY :: rt_err_t where "RT_EEMPTY \<equiv> 4"
abbreviation (input) RT_ENOMEM :: rt_err_t where "RT_ENOMEM \<equiv> 5"
abbreviation (input) RT_ENOSYS :: rt_err_t where "RT_ENOSYS \<equiv> 6"
abbreviation (input) RT_EBUSY :: rt_err_t where "RT_EBUSY \<equiv> 7"
abbreviation (input) RT_EIO :: rt_err_t where "RT_EIO \<equiv> 8"
abbreviation (input) RT_EINTR :: rt_err_t where "RT_EINTR \<equiv> 9"
abbreviation (input) RT_EINVAL :: rt_err_t where "RT_EINVAL \<equiv> 10"

abbreviation (input) RT_UINT8_MAX :: u8 where "RT_UINT8_MAX \<equiv> 0xff"
abbreviation (input) RT_UINT16_MAX :: u16 where "RT_UINT16_MAX \<equiv> 0xffff"
abbreviation (input) RT_TICK_MAX :: u32 where "RT_TICK_MAX \<equiv> 0xffffffff"
abbreviation (input) RT_THREAD_PRIORITY_MAX :: nat where "RT_THREAD_PRIORITY_MAX \<equiv> 32"
abbreviation (input) RT_TICK_PER_SECOND :: u32 where "RT_TICK_PER_SECOND \<equiv> 1000"
abbreviation (input) RT_ALIGN_SIZE :: u32 where "RT_ALIGN_SIZE \<equiv> 4"
abbreviation (input) RT_WAITING_FOREVER :: int where "RT_WAITING_FOREVER \<equiv> - 1"

definition RT_ALIGN :: "u32 \<Rightarrow> u32 \<Rightarrow> u32" where
  "RT_ALIGN sz align = (sz + align - 1) AND NOT (align - 1)"

definition RT_ALIGN_DOWN :: "u32 \<Rightarrow> u32 \<Rightarrow> u32" where
  "RT_ALIGN_DOWN sz align = sz AND NOT (align - 1)"

section \<open>Calls that may not return\<close>

definition rt_assert :: "bool \<Rightarrow> unit option" where
  "rt_assert b = (if b then Some () else None)"

lemma rt_assert_eq_Some [simp]: "rt_assert b = Some u \<longleftrightarrow> b"
  by (simp add: rt_assert_def)

lemma rt_assert_True [simp]: "rt_assert True = Some ()"
  by (simp add: rt_assert_def)

lemma rt_assert_False [simp]: "rt_assert False = None"
  by (simp add: rt_assert_def)

lemma rt_assert_bind [simp]: "Option.bind (rt_assert b) f = (if b then f () else None)"
  by (simp add: rt_assert_def)

lemma bind_Some_elim:
  assumes "Option.bind x f = Some y"
  obtains z where "x = Some z" and "f z = Some y"
  using assms by (cases x) auto

lemma if_Some_eq [simp]: "(if b then Some x else None) = Some y \<longleftrightarrow> b \<and> x = y"
  by simp

section \<open>Lists\<close>

lemma removeAll_idem_notin [simp]: "x \<notin> set xs \<Longrightarrow> removeAll x xs = xs"
  by (induction xs) auto

lemma distinct_removeAll_mid:
  "distinct (as @ x # bs) \<Longrightarrow> removeAll x (as @ x # bs) = as @ bs"
  by auto

lemma distinct_snoc [simp]: "distinct (xs @ [x]) \<longleftrightarrow> distinct xs \<and> x \<notin> set xs"
  by auto

text \<open>
  The position scan of \<^verbatim>\<open>rt_ipc_list_suspend\<close> and of the timer lists: insert before the first
  element that satisfies the predicate, at the end when there is none.
\<close>

fun insert_before_first :: "('a \<Rightarrow> bool) \<Rightarrow> 'a \<Rightarrow> 'a list \<Rightarrow> 'a list" where
  "insert_before_first p x [] = [x]"
| "insert_before_first p x (y # ys) = (if p y then x # y # ys else y # insert_before_first p x ys)"

lemma set_insert_before_first [simp]: "set (insert_before_first p x xs) = insert x (set xs)"
  by (induction xs) auto

lemma distinct_insert_before_first [simp]:
  "distinct (insert_before_first p x xs) \<longleftrightarrow> distinct xs \<and> x \<notin> set xs"
  by (induction xs) auto

lemma length_insert_before_first [simp]:
  "length (insert_before_first p x xs) = Suc (length xs)"
  by (induction xs) auto

lemma insert_before_first_split:
  "insert_before_first p x xs = takeWhile (\<lambda>y. \<not> p y) xs @ x # dropWhile (\<lambda>y. \<not> p y) xs"
  by (induction xs) auto

lemma insert_before_first_not_Nil [simp]: "insert_before_first p x xs \<noteq> []"
  by (cases xs) auto

lemma sorted_insert_before_first:
  fixes f :: "'a \<Rightarrow> 'b :: linorder"
  assumes "sorted_wrt (\<lambda>a b. f a \<le> f b) xs"
    and "\<And>y. y \<in> set xs \<Longrightarrow> p y \<longleftrightarrow> f x < f y"
  shows "sorted_wrt (\<lambda>a b. f a \<le> f b) (insert_before_first p x xs)"
  using assms by (induction xs) (auto intro: order_trans less_imp_le)

section \<open>Words\<close>

lemma push_bit_one_nth:
  "bit (push_bit p (1 :: 'a :: len word)) n \<longleftrightarrow> n = p \<and> p < LENGTH('a)"
  by (simp add: bit_exp_iff) auto

lemma word_eq_zero_iff_bits:
  "(w :: 'a :: len word) = 0 \<longleftrightarrow> (\<forall>n < LENGTH('a). \<not> bit w n)"
  by (auto simp: bit_eq_iff dest: bit_imp_le_length)

lemma stat_mask_merge [simp]:
  "((k :: u8) OR (x AND - 8)) AND 7 = k AND 7"
proof -
  have "((k :: u8) OR (x AND NOT 7)) AND 7 = k AND 7"
    by (rule bit_eqI) (auto simp: bit_simps)
  then show ?thesis by simp
qed

lemma unat_less_256 [simp]: "unat (x :: u8) < 256"
  using unsigned_less [of x] by simp

lemma unat_u32_less: "unat (x :: u32) < 2 ^ 32"
  using unsigned_less [of x] by simp

lemma unat_less_65536: "unat (x :: u16) < 65536"
  using unsigned_less [of x] by simp

lemma unat_u16_inject: "unat (x :: u16) = unat y \<longleftrightarrow> x = y"
  by (auto intro: unsigned_word_eqI)

lemma unat_suc_bounded:
  fixes n m :: u16
  assumes "n < m"
  shows "unat (n + 1) = Suc (unat n)"
proof -
  have "unat n < unat m" "unat m < 65536" using assms unat_less_65536 by (simp_all add: word_less_nat_alt)
  then show ?thesis by (simp add: unat_word_ariths)
qed

text \<open>Rounding down to a multiple of a power of two.\<close>

lemma and_not_mask_unat:
  fixes a :: "'a::len word"
  shows "unat (a AND NOT (mask k)) = unat a - unat a mod 2 ^ k"
proof -
  have "a AND NOT (mask k) = push_bit k (drop_bit k a)" by (rule bit_eqI) (auto simp: bit_simps)
  also have "\<dots> = a - take_bit k a" using bits_ident [of k a] by (metis add_diff_cancel_right')
  finally have e: "a AND NOT (mask k) = a - take_bit k a" .
  have t: "unat (take_bit k a) = unat a mod 2 ^ k" by (simp only: unsigned_take_bit_eq) (simp add: take_bit_eq_mod)
  then have "take_bit k a \<le> a" by (simp add: word_le_nat_alt)
  then show ?thesis by (simp add: e unat_sub t)
qed

end
