(* ===== verification/RtList.thy ===== *)
theory RtList
  imports Prelude
begin

text \<open>
  The intrusive doubly linked list of \<^verbatim>\<open>rt-thread/include/rtservice.h\<close>. A node is an address and
  the store holds its \<^verbatim>\<open>next\<close> and \<^verbatim>\<open>prev\<close> pointers, so that the C assignments are modelled one
  by one, in order, aliasing included.

  \<open>dlls h q\<close> says that the store \<open>h\<close> represents a family \<open>q\<close> of lists: \<open>q l = Some xs\<close> when the
  node \<open>l\<close> is the head of the circular list with the entries \<open>xs\<close>; a node that is in no list and
  points to itself is a head with no entries. The locale \<open>node_lists\<close> is the contract the kernel
  relies on, and its interpretation shows that the C functions keep it. The kernel theories use
  the abstract lists; the deferrable server, which breaks the contract, uses the store.
\<close>

section \<open>The operations of rtservice.h\<close>

record 'a list_heap =
  lnext :: "'a \<Rightarrow> 'a"
  lprev :: "'a \<Rightarrow> 'a"

definition rt_list_init :: "'a \<Rightarrow> 'a list_heap \<Rightarrow> 'a list_heap" where
  "rt_list_init l h = (let h1 = h\<lparr>lprev := (lprev h)(l := l)\<rparr> in h1\<lparr>lnext := (lnext h1)(l := l)\<rparr>)"

definition rt_list_insert_after :: "'a \<Rightarrow> 'a \<Rightarrow> 'a list_heap \<Rightarrow> 'a list_heap" where
  "rt_list_insert_after l n h =
     (let h1 = h\<lparr>lprev := (lprev h)(lnext h l := n)\<rparr>;
          h2 = h1\<lparr>lnext := (lnext h1)(n := lnext h1 l)\<rparr>;
          h3 = h2\<lparr>lnext := (lnext h2)(l := n)\<rparr>
      in h3\<lparr>lprev := (lprev h3)(n := l)\<rparr>)"

definition rt_list_insert_before :: "'a \<Rightarrow> 'a \<Rightarrow> 'a list_heap \<Rightarrow> 'a list_heap" where
  "rt_list_insert_before l n h =
     (let h1 = h\<lparr>lnext := (lnext h)(lprev h l := n)\<rparr>;
          h2 = h1\<lparr>lprev := (lprev h1)(n := lprev h1 l)\<rparr>;
          h3 = h2\<lparr>lprev := (lprev h2)(l := n)\<rparr>
      in h3\<lparr>lnext := (lnext h3)(n := l)\<rparr>)"

definition rt_list_remove :: "'a \<Rightarrow> 'a list_heap \<Rightarrow> 'a list_heap" where
  "rt_list_remove n h =
     (let h1 = h\<lparr>lprev := (lprev h)(lnext h n := lprev h n)\<rparr>;
          h2 = h1\<lparr>lnext := (lnext h1)(lprev h1 n := lnext h1 n)\<rparr>;
          h3 = h2\<lparr>lprev := (lprev h2)(n := n)\<rparr>
      in h3\<lparr>lnext := (lnext h3)(n := n)\<rparr>)"

definition rt_list_isempty :: "'a \<Rightarrow> 'a list_heap \<Rightarrow> bool" where
  "rt_list_isempty l h \<longleftrightarrow> lnext h l = l"

text \<open>The \<^verbatim>\<open>while\<close> loop of \<^verbatim>\<open>rt_list_len\<close>; on a corrupted list it may not end.\<close>

partial_function (option) rt_list_len_loop :: "'a list_heap \<Rightarrow> 'a \<Rightarrow> 'a \<Rightarrow> u32 \<Rightarrow> u32 option" where
  "rt_list_len_loop h l p n =
     (if lnext h p \<noteq> l then rt_list_len_loop h l (lnext h p) (n + 1) else Some n)"

definition rt_list_len :: "'a \<Rightarrow> 'a list_heap \<Rightarrow> u32 option" where
  "rt_list_len l h = rt_list_len_loop h l l 0"

section \<open>Chains of nodes in the store\<close>

fun seg :: "'a list_heap \<Rightarrow> 'a \<Rightarrow> 'a list \<Rightarrow> 'a \<Rightarrow> bool" where
  "seg h a [] b \<longleftrightarrow> lnext h a = b \<and> lprev h b = a"
| "seg h a (x # xs) b \<longleftrightarrow> lnext h a = x \<and> lprev h x = a \<and> seg h x xs b"

lemma seg_append [simp]:
  "seg h a (xs @ y # ys) b \<longleftrightarrow> seg h a xs y \<and> seg h y ys b"
  by (induction xs arbitrary: a) auto

lemma seg_ends:
  assumes "seg h a xs b"
  shows "lnext h a = hd (xs @ [b])" and "lprev h b = last (a # xs)"
  using assms by (induction xs arbitrary: a) auto

lemma seg_cong:
  assumes "\<forall>u\<in>set (a # xs). lnext h' u = lnext h u"
    and "\<forall>v\<in>set (xs @ [b]). lprev h' v = lprev h v"
  shows "seg h' a xs b \<longleftrightarrow> seg h a xs b"
  using assms by (induction xs arbitrary: a) auto

definition dlls :: "'a list_heap \<Rightarrow> ('a \<Rightarrow> 'a list option) \<Rightarrow> bool" where
  "dlls h q \<longleftrightarrow>
     (\<forall>l xs. q l = Some xs \<longrightarrow> seg h l xs l \<and> distinct (l # xs)) \<and>
     (\<forall>l xs k ys. q l = Some xs \<longrightarrow> q k = Some ys \<longrightarrow> l \<noteq> k \<longrightarrow> set (l # xs) \<inter> set (k # ys) = {})"

lemma dllsD:
  assumes "dlls h q" and "q l = Some xs"
  shows "seg h l xs l" and "distinct (l # xs)"
  using assms by (auto simp: dlls_def)

lemma dlls_disjoint:
  assumes "dlls h q" and "q l = Some xs" and "q k = Some ys" and "l \<noteq> k"
  shows "set (l # xs) \<inter> set (k # ys) = {}"
  using assms unfolding dlls_def by blast

text \<open>
  The one argument behind every operation: a new store that agrees with the old one outside the
  nodes of the lists that change represents the new family, once the changed lists are chains.
\<close>

lemma dlls_change:
  assumes q: "dlls h q"
    and new: "\<And>l xs. q' l = Some xs \<Longrightarrow> q' l \<noteq> q l \<Longrightarrow> seg h' l xs l \<and> distinct (l # xs)"
    and same: "\<And>l xs. q' l = Some xs \<Longrightarrow> q' l = q l \<Longrightarrow>
       (\<forall>u\<in>set (l # xs). lnext h' u = lnext h u \<and> lprev h' u = lprev h u)"
    and disj: "\<And>l xs k ys. q' l = Some xs \<Longrightarrow> q' k = Some ys \<Longrightarrow> l \<noteq> k \<Longrightarrow>
       set (l # xs) \<inter> set (k # ys) = {}"
  shows "dlls h' q'"
proof -
  have "seg h' l xs l \<and> distinct (l # xs)" if l: "q' l = Some xs" for l xs
  proof (cases "q' l = q l")
    case True
    have "seg h' l xs l \<longleftrightarrow> seg h l xs l"
      using same [OF l True] by (intro seg_cong) auto
    with dllsD [OF q] True l show ?thesis by simp
  next
    case False
    with new l show ?thesis by blast
  qed
  then show ?thesis using disj unfolding dlls_def by blast
qed

section \<open>Each operation on the represented lists\<close>

lemma rt_list_init_dlls:
  assumes "dlls h q" and "\<And>l xs. q l = Some xs \<Longrightarrow> n \<notin> set (l # xs)"
  shows "dlls (rt_list_init n h) (q(n \<mapsto> []))"
proof (rule dlls_change [OF assms(1)])
  fix l xs k ys
  assume "(q(n \<mapsto> [])) l = Some xs" "(q(n \<mapsto> [])) k = Some ys" "l \<noteq> k"
  then show "set (l # xs) \<inter> set (k # ys) = {}"
    using assms(2) dlls_disjoint [OF assms(1)]
    by (cases "l = n"; cases "k = n") (force split: if_splits)+
next
  fix l xs
  assume l: "(q(n \<mapsto> [])) l = Some xs" "(q(n \<mapsto> [])) l = q l"
  then have "n \<notin> set (l # xs)" using assms(2) [of l xs] by metis
  then show "\<forall>u\<in>set (l # xs). lnext (rt_list_init n h) u = lnext h u \<and>
      lprev (rt_list_init n h) u = lprev h u"
    by (auto simp: rt_list_init_def Let_def)
qed (auto simp: rt_list_init_def Let_def split: if_splits)

lemma ends_in_set:
  "hd (bs @ [l]) \<in> set (l # as @ bs)" "last (l # as) \<in> set (l # as @ bs)"
  by (cases bs; auto)+

lemma seg_insert:
  assumes s: "seg h l (as @ bs) l" and d: "distinct (l # as @ bs)" and n: "n \<notin> set (l # as @ bs)"
    and hn: "lnext h' = (lnext h)(last (l # as) := n, n := hd (bs @ [l]))"
    and hp: "lprev h' = (lprev h)(n := last (l # as), hd (bs @ [l]) := n)"
  shows "seg h' l (as @ n # bs) l"
proof -
  have a: "seg h' l as n"
  proof (cases as rule: rev_cases)
    case Nil
    then show ?thesis using n hn hp by (cases bs) auto
  next
    case (snoc cs c)
    have "seg h l cs c" using s unfolding snoc by simp
    then have "seg h' l cs c"
      using d n hn hp unfolding snoc by (subst seg_cong [of _ _ h' h]) (cases bs; auto)+
    then show ?thesis using d n hn hp unfolding snoc by (cases bs) auto
  qed
  have b: "seg h' n bs l"
  proof (cases bs)
    case Nil
    then show ?thesis using n hn hp by simp
  next
    case (Cons c cs)
    have "seg h c cs l" using s unfolding Cons by simp
    then have "seg h' c cs l"
      using d n hn hp unfolding Cons
      by (subst seg_cong [of _ _ h' h]) (cases as rule: rev_cases; auto)+
    then show ?thesis using d n hn hp unfolding Cons by auto
  qed
  from a b show ?thesis by simp
qed

lemma seg_remove:
  assumes s: "seg h l (as @ n # bs) l" and d: "distinct (l # as @ n # bs)"
    and hn: "lnext h' = (lnext h)(last (l # as) := hd (bs @ [l]), n := n)"
    and hp: "lprev h' = (lprev h)(hd (bs @ [l]) := last (l # as), n := n)"
  shows "seg h' l (as @ bs) l"
proof (cases bs)
  case Nil
  show ?thesis
  proof (cases as rule: rev_cases)
    case (snoc cs c)
    have "seg h' l cs c \<longleftrightarrow> seg h l cs c"
      using d hn hp unfolding snoc Nil by (intro seg_cong) auto
    with s d hn hp show ?thesis unfolding snoc Nil by auto
  qed (use d hn hp Nil in auto)
next
  case (Cons b cs)
  have "seg h' b cs l \<longleftrightarrow> seg h b cs l"
    using d hn hp unfolding Cons by (intro seg_cong) (cases as rule: rev_cases; auto)+
  with s have b: "seg h' b cs l" unfolding Cons by simp
  have "seg h' l as b"
  proof (cases as rule: rev_cases)
    case (snoc ds e)
    have "seg h' l ds e \<longleftrightarrow> seg h l ds e"
      using d hn hp unfolding snoc Cons by (intro seg_cong) auto
    with s d hn hp show ?thesis unfolding snoc Cons by auto
  qed (use d hn hp Cons in auto)
  with b show ?thesis unfolding Cons by simp
qed

lemma dlls_insert:
  assumes q: "dlls h q" and l: "q l = Some (as @ bs)" and n: "q n = Some []" "n \<noteq> l"
    and hn: "lnext h' = (lnext h)(last (l # as) := n, n := hd (bs @ [l]))"
    and hp: "lprev h' = (lprev h)(n := last (l # as), hd (bs @ [l]) := n)"
  shows "dlls h' (q(l \<mapsto> as @ n # bs, n := None))"
proof -
  note sl = dllsD [OF q l]
  have nn: "n \<notin> set (l # as @ bs)" using dlls_disjoint [OF q l n(1)] n(2) by auto
  note inl = ends_in_set [where bs = bs and l = l and as = as]
  have other: "set (k # xs) \<inter> set (l # as @ n # bs) = {}"
    if "q k = Some xs" "k \<noteq> l" "k \<noteq> n" for k xs
    using dlls_disjoint [OF q that(1) l that(2)] dlls_disjoint [OF q that(1) n(1) that(3)] by auto
  show ?thesis
  proof (rule dlls_change [OF q])
    fix k xs assume k: "(q(l \<mapsto> as @ n # bs, n := None)) k = Some xs"
      "(q(l \<mapsto> as @ n # bs, n := None)) k \<noteq> q k"
    then have "k = l" "xs = as @ n # bs" using n by (auto split: if_splits)
    then show "seg h' k xs k \<and> distinct (k # xs)"
      using seg_insert [OF sl nn hn hp] sl(2) nn by auto
  next
    fix k xs assume k: "(q(l \<mapsto> as @ n # bs, n := None)) k = Some xs"
      "(q(l \<mapsto> as @ n # bs, n := None)) k = q k"
    then have "set (k # xs) \<inter> set (l # as @ n # bs) = {}"
      using l by (intro other) (auto split: if_splits)
    then show "\<forall>u\<in>set (k # xs). lnext h' u = lnext h u \<and> lprev h' u = lprev h u"
      using inl unfolding hn hp by (auto simp: disjoint_iff fun_upd_apply)
  next
    fix k xs m ys
    assume "(q(l \<mapsto> as @ n # bs, n := None)) k = Some xs"
      "(q(l \<mapsto> as @ n # bs, n := None)) m = Some ys" "k \<noteq> m"
    then show "set (k # xs) \<inter> set (m # ys) = {}"
      using dlls_disjoint [OF q, of k xs m ys] other [of k xs] other [of m ys]
      by (cases "k = l"; cases "m = l") (auto split: if_splits)
  qed
qed

lemma dlls_remove:
  assumes q: "dlls h q" and l: "q l = Some (as @ n # bs)"
    and hn: "lnext h' = (lnext h)(last (l # as) := hd (bs @ [l]), n := n)"
    and hp: "lprev h' = (lprev h)(hd (bs @ [l]) := last (l # as), n := n)"
  shows "dlls h' (q(l \<mapsto> as @ bs, n \<mapsto> []))"
proof -
  note sl = dllsD [OF q l]
  note inl = ends_in_set [where bs = bs and l = l and as = as]
  have other: "set (k # xs) \<inter> set (l # as @ n # bs) = {}" if "q k = Some xs" "k \<noteq> l" for k xs
    using dlls_disjoint [OF q that(1) l that(2)] by auto
  have qn: "q n = None"
  proof (rule ccontr)
    assume "q n \<noteq> None"
    then obtain xs where "q n = Some xs" by auto
    with other [of n xs] sl(2) show False by auto
  qed
  show ?thesis
  proof (rule dlls_change [OF q])
    fix k xs assume k: "(q(l \<mapsto> as @ bs, n \<mapsto> [])) k = Some xs"
      "(q(l \<mapsto> as @ bs, n \<mapsto> [])) k \<noteq> q k"
    then consider "k = n" "xs = []" | "k = l" "xs = as @ bs" "k \<noteq> n"
      by (auto split: if_splits)
    then show "seg h' k xs k \<and> distinct (k # xs)"
      using seg_remove [OF sl hn hp] sl(2) by cases (auto simp: hn hp)
  next
    fix k xs assume k: "(q(l \<mapsto> as @ bs, n \<mapsto> [])) k = Some xs"
      "(q(l \<mapsto> as @ bs, n \<mapsto> [])) k = q k"
    then have "set (k # xs) \<inter> set (l # as @ n # bs) = {}"
      using l qn by (intro other) (auto split: if_splits)
    then show "\<forall>u\<in>set (k # xs). lnext h' u = lnext h u \<and> lprev h' u = lprev h u"
      using inl unfolding hn hp by (auto simp: disjoint_iff fun_upd_apply)
  next
    fix k xs m ys
    assume "(q(l \<mapsto> as @ bs, n \<mapsto> [])) k = Some xs"
      "(q(l \<mapsto> as @ bs, n \<mapsto> [])) m = Some ys" "k \<noteq> m"
    then show "set (k # xs) \<inter> set (m # ys) = {}"
      using dlls_disjoint [OF q, of k xs m ys] other [of k xs] other [of m ys] sl(2)
      by (cases "k = l"; cases "m = l"; cases "k = n"; cases "m = n") (auto split: if_splits)
  qed
qed

text \<open>The links next to a position of a represented list.\<close>

lemma dlls_links:
  assumes q: "dlls h q" and l: "q l = Some (as @ bs)"
  shows "lnext h (last (l # as)) = hd (bs @ [l])" and "lprev h (hd (bs @ [l])) = last (l # as)"
proof -
  note s = dllsD(1) [OF q l]
  show "lnext h (last (l # as)) = hd (bs @ [l])"
  proof (cases as rule: rev_cases)
    case (snoc cs c)
    with s have "seg h c bs l" by simp
    then show ?thesis unfolding snoc by (simp add: seg_ends(1))
  qed (use seg_ends(1) [OF s] in simp)
  show "lprev h (hd (bs @ [l])) = last (l # as)"
  proof (cases bs)
    case (Cons c cs)
    with s have "seg h l as c" by simp
    then show ?thesis unfolding Cons by (simp add: seg_ends(2))
  qed (use seg_ends(2) [OF s] in simp)
qed

lemma rt_list_insert_before_dlls:
  assumes q: "dlls h q" and l: "q l = Some (as @ bs)" and n: "q n = Some []" "n \<noteq> l"
  shows "dlls (rt_list_insert_before (hd (bs @ [l])) n h) (q(l \<mapsto> as @ n # bs, n := None))"
proof -
  have "n \<notin> set (l # as @ bs)" using dlls_disjoint [OF q l n(1)] n(2) by auto
  then have ne: "n \<noteq> hd (bs @ [l])" "n \<noteq> last (l # as)"
    using ends_in_set [where bs = bs and l = l and as = as] by (auto simp del: last.simps)
  show ?thesis
    using ne dlls_links(2) [OF q l]
    by (intro dlls_insert [OF q l n]) (auto simp: rt_list_insert_before_def Let_def)
qed

lemma rt_list_insert_after_dlls:
  assumes q: "dlls h q" and l: "q l = Some (as @ bs)" and n: "q n = Some []" "n \<noteq> l"
  shows "dlls (rt_list_insert_after (last (l # as)) n h) (q(l \<mapsto> as @ n # bs, n := None))"
proof -
  have "n \<notin> set (l # as @ bs)" using dlls_disjoint [OF q l n(1)] n(2) by auto
  then have ne: "n \<noteq> hd (bs @ [l])" "n \<noteq> last (l # as)"
    using ends_in_set [where bs = bs and l = l and as = as] by (auto simp del: last.simps)
  show ?thesis
    using ne dlls_links(1) [OF q l]
    by (intro dlls_insert [OF q l n]) (auto simp: rt_list_insert_after_def Let_def)
qed

lemma rt_list_remove_dlls:
  assumes q: "dlls h q" and l: "q l = Some (as @ n # bs)"
  shows "dlls (rt_list_remove n h) (q(l \<mapsto> as @ bs, n \<mapsto> []))"
proof -
  have "lnext h n = hd (bs @ [l])" "lprev h n = last (l # as)"
    using dlls_links(1) [OF q, of l "as @ [n]" bs] dlls_links(2) [OF q, of l as "n # bs"] l by auto
  moreover have "n \<noteq> hd (bs @ [l])" "n \<noteq> last (l # as)"
    using dllsD(2) [OF q l] ends_in_set [where bs = bs and l = l and as = as]
    by (auto simp del: last.simps)
  ultimately show ?thesis
    by (intro dlls_remove [OF q l]) (auto simp: rt_list_remove_def Let_def)
qed

lemma rt_list_remove_unlinked:
  assumes q: "dlls h q" and n: "q n = Some []"
  shows "dlls (rt_list_remove n h) q"
proof -
  have "lnext h n = n" "lprev h n = n" using dllsD(1) [OF q n] by auto
  then have "rt_list_remove n h = h" by (simp add: rt_list_remove_def Let_def fun_upd_idem)
  with q show ?thesis by simp
qed

lemma rt_list_isempty_dlls:
  assumes "dlls h q" and "q l = Some xs"
  shows "rt_list_isempty l h \<longleftrightarrow> xs = []"
  using dllsD [OF assms] by (cases xs) (auto simp: rt_list_isempty_def)

lemma rt_list_first_dlls:
  assumes "dlls h q" and "q l = Some (x # xs)"
  shows "lnext h l = x"
  using dllsD [OF assms] by simp

lemma rt_list_len_loop_seg:
  assumes "seg h p xs l" and "l \<notin> set xs"
  shows "rt_list_len_loop h l p n = Some (n + of_nat (length xs))"
  using assms
proof (induction xs arbitrary: p n)
  case Nil
  then show ?case by (subst rt_list_len_loop.simps) simp
next
  case (Cons x xs)
  then show ?case by (subst rt_list_len_loop.simps) (auto simp: algebra_simps)
qed

section \<open>The contract of the lists, and what follows from it\<close>

text \<open>
  \<open>rep h q\<close>: the store represents the family \<open>q\<close>. A node is \<^emph>\<open>unlinked\<close> when it is the head of an
  empty list of its own; only an unlinked node may be inserted.
\<close>

locale node_lists =
  fixes rep :: "'h \<Rightarrow> ('a \<Rightarrow> 'a list option) \<Rightarrow> bool"
    and init :: "'a \<Rightarrow> 'h \<Rightarrow> 'h"
    and insert_after :: "'a \<Rightarrow> 'a \<Rightarrow> 'h \<Rightarrow> 'h"
    and insert_before :: "'a \<Rightarrow> 'a \<Rightarrow> 'h \<Rightarrow> 'h"
    and remove :: "'a \<Rightarrow> 'h \<Rightarrow> 'h"
    and is_empty :: "'a \<Rightarrow> 'h \<Rightarrow> bool"
    and first :: "'a \<Rightarrow> 'h \<Rightarrow> 'a"
  assumes rep_init: "rep h q \<Longrightarrow> (\<And>l xs. q l = Some xs \<Longrightarrow> n \<notin> set (l # xs)) \<Longrightarrow>
      rep (init n h) (q(n \<mapsto> []))"
    and rep_insert_after: "rep h q \<Longrightarrow> q l = Some (as @ bs) \<Longrightarrow> q n = Some [] \<Longrightarrow> n \<noteq> l \<Longrightarrow>
      rep (insert_after (last (l # as)) n h) (q(l \<mapsto> as @ n # bs, n := None))"
    and rep_insert_before: "rep h q \<Longrightarrow> q l = Some (as @ bs) \<Longrightarrow> q n = Some [] \<Longrightarrow> n \<noteq> l \<Longrightarrow>
      rep (insert_before (hd (bs @ [l])) n h) (q(l \<mapsto> as @ n # bs, n := None))"
    and rep_remove: "rep h q \<Longrightarrow> q l = Some (as @ n # bs) \<Longrightarrow>
      rep (remove n h) (q(l \<mapsto> as @ bs, n \<mapsto> []))"
    and rep_remove_unlinked: "rep h q \<Longrightarrow> q n = Some [] \<Longrightarrow> rep (remove n h) q"
    and rep_is_empty: "rep h q \<Longrightarrow> q l = Some xs \<Longrightarrow> is_empty l h \<longleftrightarrow> xs = []"
    and rep_first: "rep h q \<Longrightarrow> q l = Some (x # xs) \<Longrightarrow> first l h = x"
    and rep_distinct: "rep h q \<Longrightarrow> q l = Some xs \<Longrightarrow> distinct (l # xs)"
begin

text \<open>Appending at the tail and inserting at the head, the two uses with the list head itself.\<close>

lemma rep_append:
  "rep h q \<Longrightarrow> q l = Some xs \<Longrightarrow> q n = Some [] \<Longrightarrow> n \<noteq> l \<Longrightarrow>
   rep (insert_before l n h) (q(l \<mapsto> xs @ [n], n := None))"
  using rep_insert_before [of h q l xs "[]" n] by simp

lemma rep_push:
  "rep h q \<Longrightarrow> q l = Some xs \<Longrightarrow> q n = Some [] \<Longrightarrow> n \<noteq> l \<Longrightarrow>
   rep (insert_after l n h) (q(l \<mapsto> n # xs, n := None))"
  using rep_insert_after [of h q l "[]" xs n] by simp

text \<open>Removing a node takes it out of the one list it is in and leaves it unlinked.\<close>

lemma rep_removeAll:
  assumes "rep h q" and "q l = Some xs" and "n \<in> set xs"
  shows "rep (remove n h) (q(l \<mapsto> removeAll n xs, n \<mapsto> []))"
proof -
  obtain as bs where xs: "xs = as @ n # bs" using assms(3) by (auto simp: in_set_conv_decomp)
  then have "removeAll n xs = as @ bs" using rep_distinct [OF assms(1,2)] by auto
  with rep_remove [OF assms(1)] assms(2) xs show ?thesis by simp
qed

text \<open>A FIFO round: what is appended to an empty queue comes out first and leaves it empty.\<close>

lemma rep_fifo_round:
  assumes "rep h q" and "q l = Some []" and "q n = Some []" and "n \<noteq> l"
  shows "first l (insert_before l n h) = n \<and> is_empty l (remove n (insert_before l n h))"
proof -
  let ?q = "q(l \<mapsto> [n], n := None)"
  have r: "rep (insert_before l n h) ?q" using rep_append [OF assms] by simp
  have "rep (remove n (insert_before l n h)) (?q(l \<mapsto> [], n \<mapsto> []))"
    using rep_removeAll [OF r, of l "[n]" n] assms(4) by simp
  then show ?thesis
    using rep_first [OF r, of l n "[]"] rep_is_empty [where l = l and xs = "[]"] assms(4) by auto
qed

end

interpretation rtl: node_lists dlls rt_list_init rt_list_insert_after rt_list_insert_before
  rt_list_remove rt_list_isempty "\<lambda>l h. lnext h l"
  by unfold_locales
    (fact rt_list_init_dlls rt_list_insert_after_dlls rt_list_insert_before_dlls
      rt_list_remove_dlls rt_list_remove_unlinked rt_list_isempty_dlls rt_list_first_dlls
      dllsD(2))+

section \<open>The properties of the list operations\<close>

text \<open>Inserting an unlinked node before the head of a list appends it at the tail of exactly
  that list: every other list of the store, and the order of the entries, is unchanged.\<close>

theorem rt_list_insert_before_appends:
  assumes "dlls h q" and "q l = Some xs" and "q n = Some []" and "n \<noteq> l"
  shows "dlls (rt_list_insert_before l n h) (q(l \<mapsto> xs @ [n], n := None))"
  using assms by (rule rtl.rep_append)

definition example_heap :: "nat list_heap" where
  "example_heap = \<lparr>lnext = id(0 := 1, 1 := 0), lprev = id(0 := 1, 1 := 0)\<rparr>"

lemma example_heap_dlls: "dlls example_heap [0 \<mapsto> [1], 2 \<mapsto> []]"
  by (auto simp: dlls_def example_heap_def split: if_splits)

theorem rt_list_insert_before_appends_witness:
  "dlls (rt_list_insert_before 0 2 example_heap) ([0 \<mapsto> [1], 2 \<mapsto> []](0 \<mapsto> [1] @ [2], 2 := None))"
  by (rule rt_list_insert_before_appends [OF example_heap_dlls]) simp_all

text \<open>\<^verbatim>\<open>rt_list_remove\<close> takes a linked node out of the one list it is in, whichever that is,
  keeps the order of the rest, touches no other list and leaves the node unlinked, so that it can
  be inserted again.\<close>

theorem rt_list_remove_unlinks:
  assumes "dlls h q" and "q l = Some xs" and "n \<in> set xs"
  shows "dlls (rt_list_remove n h) (q(l \<mapsto> removeAll n xs, n \<mapsto> []))"
  using assms by (rule rtl.rep_removeAll)

theorem rt_list_remove_unlinks_witness:
  "dlls (rt_list_remove 1 example_heap) ([0 \<mapsto> [1], 2 \<mapsto> []](0 \<mapsto> removeAll 1 [1], 1 \<mapsto> []))"
  by (rule rt_list_remove_unlinks [OF example_heap_dlls]) simp_all

text \<open>The loop of \<^verbatim>\<open>rt_list_len\<close> ends on every represented list and returns its length, as an
  unsigned 32-bit number.\<close>

theorem rt_list_len_returns_length:
  assumes "dlls h q" and "q l = Some xs"
  shows "rt_list_len l h = Some (of_nat (length xs))"
  using dllsD [OF assms] by (simp add: rt_list_len_def rt_list_len_loop_seg)

theorem rt_list_len_returns_length_witness:
  "rt_list_len 0 example_heap = Some (of_nat (length [1 :: nat]))"
  by (rule rt_list_len_returns_length [OF example_heap_dlls]) simp

end
