(* ===== verification/Kernel.thy ===== *)
theory Kernel
  imports Prelude
begin

text \<open>
  The data of the RT-Thread kernel (\<^verbatim>\<open>rt-thread/include/rtdef.h\<close>) and its global state, in the
  configuration of \<^verbatim>\<open>rtconfig.h\<close>: one CPU (no \<^verbatim>\<open>RT_USING_SMP\<close>), 32 priorities, no signals, no
  modules, no processes, a timer list of one level (\<^verbatim>\<open>RT_TIMER_SKIP_LIST_LEVEL\<close> is 1).

  Control blocks are records in finite maps from identifiers, which stand for their addresses.
  The intrusive lists a thread's \<^verbatim>\<open>tlist\<close> node or a timer's \<^verbatim>\<open>row\<close> node can be linked into are the
  lists \<open>queues\<close> and \<open>timer_queues\<close>; that the C list operations act on such a family of disjoint
  lists exactly as \<open>list_insert_before\<close>, \<open>list_insert_after\<close> and \<open>list_remove\<close> below is what theory
  \<open>RtList\<close> proves. A section of code between disabling and enabling interrupts, and a call made
  from one, is one atomic step; hooks (\<^verbatim>\<open>RT_OBJECT_HOOK_CALL\<close>) are null, no code of this
  repository that is built sets one, and log output is not part of the state.
\<close>

section \<open>Kernel objects: rtdef.h\<close>

type_synonym tid = nat

abbreviation (input) RT_Object_Class_Thread :: u8 where "RT_Object_Class_Thread \<equiv> 0x01"
abbreviation (input) RT_Object_Class_Semaphore :: u8 where "RT_Object_Class_Semaphore \<equiv> 0x02"
abbreviation (input) RT_Object_Class_Mutex :: u8 where "RT_Object_Class_Mutex \<equiv> 0x03"
abbreviation (input) RT_Object_Class_Event :: u8 where "RT_Object_Class_Event \<equiv> 0x04"
abbreviation (input) RT_Object_Class_MailBox :: u8 where "RT_Object_Class_MailBox \<equiv> 0x05"
abbreviation (input) RT_Object_Class_MessageQueue :: u8 where "RT_Object_Class_MessageQueue \<equiv> 0x06"
abbreviation (input) RT_Object_Class_MemHeap :: u8 where "RT_Object_Class_MemHeap \<equiv> 0x07"
abbreviation (input) RT_Object_Class_MemPool :: u8 where "RT_Object_Class_MemPool \<equiv> 0x08"
abbreviation (input) RT_Object_Class_Device :: u8 where "RT_Object_Class_Device \<equiv> 0x09"
abbreviation (input) RT_Object_Class_Timer :: u8 where "RT_Object_Class_Timer \<equiv> 0x0a"
abbreviation (input) RT_Object_Class_Static :: u8 where "RT_Object_Class_Static \<equiv> 0x80"

abbreviation (input) RT_THREAD_INIT :: u8 where "RT_THREAD_INIT \<equiv> 0x00"
abbreviation (input) RT_THREAD_READY :: u8 where "RT_THREAD_READY \<equiv> 0x01"
abbreviation (input) RT_THREAD_SUSPEND :: u8 where "RT_THREAD_SUSPEND \<equiv> 0x02"
abbreviation (input) RT_THREAD_RUNNING :: u8 where "RT_THREAD_RUNNING \<equiv> 0x03"
abbreviation (input) RT_THREAD_CLOSE :: u8 where "RT_THREAD_CLOSE \<equiv> 0x04"
abbreviation (input) RT_THREAD_STAT_MASK :: u8 where "RT_THREAD_STAT_MASK \<equiv> 0x07"
abbreviation (input) RT_THREAD_STAT_YIELD :: u8 where "RT_THREAD_STAT_YIELD \<equiv> 0x08"
abbreviation (input) RT_THREAD_STAT_YIELD_MASK :: u8 where "RT_THREAD_STAT_YIELD_MASK \<equiv> RT_THREAD_STAT_YIELD"

abbreviation (input) RT_TIMER_FLAG_DEACTIVATED :: u8 where "RT_TIMER_FLAG_DEACTIVATED \<equiv> 0x0"
abbreviation (input) RT_TIMER_FLAG_ACTIVATED :: u8 where "RT_TIMER_FLAG_ACTIVATED \<equiv> 0x1"
abbreviation (input) RT_TIMER_FLAG_ONE_SHOT :: u8 where "RT_TIMER_FLAG_ONE_SHOT \<equiv> 0x0"
abbreviation (input) RT_TIMER_FLAG_PERIODIC :: u8 where "RT_TIMER_FLAG_PERIODIC \<equiv> 0x2"
abbreviation (input) RT_TIMER_FLAG_SOFT_TIMER :: u8 where "RT_TIMER_FLAG_SOFT_TIMER \<equiv> 0x4"

abbreviation (input) RT_SOFT_TIMER_IDLE :: u8 where "RT_SOFT_TIMER_IDLE \<equiv> 1"
abbreviation (input) RT_SOFT_TIMER_BUSY :: u8 where "RT_SOFT_TIMER_BUSY \<equiv> 0"

abbreviation (input) RT_IPC_FLAG_FIFO :: u8 where "RT_IPC_FLAG_FIFO \<equiv> 0x00"
abbreviation (input) RT_IPC_FLAG_PRIO :: u8 where "RT_IPC_FLAG_PRIO \<equiv> 0x01"
abbreviation (input) RT_IPC_CMD_RESET :: nat where "RT_IPC_CMD_RESET \<equiv> 0x01"

abbreviation (input) RT_EVENT_FLAG_AND :: u8 where "RT_EVENT_FLAG_AND \<equiv> 0x01"
abbreviation (input) RT_EVENT_FLAG_OR :: u8 where "RT_EVENT_FLAG_OR \<equiv> 0x02"
abbreviation (input) RT_EVENT_FLAG_CLEAR :: u8 where "RT_EVENT_FLAG_CLEAR \<equiv> 0x04"

text \<open>Every thread has a built-in timer, its \<^verbatim>\<open>thread_timer\<close>; the others are objects of their own.\<close>

datatype timer_id = ThreadTimer tid | Timer nat

text \<open>Function pointers held by timers: \<^verbatim>\<open>rt_thread_timeout\<close>, or a function outside the kernel.\<close>

datatype timeout_fn = Fn_rt_thread_timeout | Fn_other nat

record rt_timer =
  tm_type :: u8
  tm_flag :: u8
  timeout_func :: timeout_fn
  tm_parameter :: nat
  tm_init_tick :: u32
  timeout_tick :: u32

text \<open>\<open>stack_guard\<close> is the byte at \<^verbatim>\<open>stack_addr\<close>, which \<^verbatim>\<open>_rt_scheduler_stack_check\<close> reads.\<close>

record rt_thread =
  th_type :: u8
  sp :: u32
  th_entry :: nat
  th_parameter :: nat
  stack_addr :: u32
  stack_size :: u32
  stack_guard :: u8
  th_error :: rt_err_t
  stat :: u8
  current_priority :: u8
  init_priority :: u8
  number_mask :: u32
  event_set :: u32
  event_info :: u8
  init_tick :: u32
  remaining_tick :: u32

record rt_semaphore =
  sem_type :: u8
  sem_flag :: u8
  sem_value :: u16

record rt_mutex =
  mutex_type :: u8
  mutex_flag :: u8
  mutex_value :: u16
  original_priority :: u8
  hold :: u8
  owner :: "tid option"

record rt_event =
  event_type :: u8
  event_flag :: u8
  ev_set :: u32

record rt_mailbox =
  mb_type :: u8
  mb_flag :: u8
  mb_pool :: "u32 list"
  mb_size :: u16
  mb_entry :: u16
  in_offset :: u16
  out_offset :: u16

text \<open>
  A message queue's pool is an array of nodes, each a \<^verbatim>\<open>next\<close> pointer (\<^verbatim>\<open>struct rt_mq_message\<close>) and
  the bytes behind it; a node is named by its index in the pool, \<^verbatim>\<open>RT_NULL\<close> is \<open>None\<close>.
\<close>

record rt_messagequeue =
  mq_type :: u8
  mq_flag :: u8
  mq_next :: "nat \<Rightarrow> nat option"
  mq_data :: "nat \<Rightarrow> u8 list"
  msg_size :: u16
  max_msgs :: u16
  mq_entry :: u16
  msg_queue_head :: "nat option"
  msg_queue_tail :: "nat option"
  msg_queue_free :: "nat option"

text \<open>
  A memory pool. The first word of each block is the link to the next free block while the block is
  free and the address of the pool while it is allocated; the words are \<open>pool_mem\<close> of the kernel
  state, at the address of the block. \<^verbatim>\<open>RT_NULL\<close> is the address 0.
\<close>

record rt_mempool =
  mp_type :: u8
  start_address :: u32
  mp_size :: u32
  mp_block_size :: u32
  block_list :: u32
  block_total_count :: u32
  block_free_count :: u32

datatype pool_word = FreeLink u32 | Owner nat

text \<open>A device; the functions of its driver are parameters of theory \<open>Device\<close>. The callbacks are function pointers.\<close>

record rt_device =
  dev_type :: u8
  dev_class :: u8
  dev_flag :: u16
  open_flag :: u16
  ref_count :: u8
  rx_indicate :: "nat option"
  tx_complete :: "nat option"

text \<open>A completion; its list is a queue.\<close>

record rt_completion =
  comp_flag :: u32

section \<open>The kernel's global state\<close>

text \<open>The kernel objects that are in the object lists of \<^verbatim>\<open>object.c\<close>.\<close>

datatype objref = ThreadObj tid | TimerObj timer_id | SemObj nat | MutexObj nat | EventObj nat
  | MbObj nat | MqObj nat | MpObj nat | DevObj nat

text \<open>The heads of the lists a thread's \<^verbatim>\<open>tlist\<close> node can be in.\<close>

datatype qid =
    ReadyQ nat \<comment> \<open>\<^verbatim>\<open>rt_thread_priority_table[p]\<close>\<close>
  | DefunctQ \<comment> \<open>\<^verbatim>\<open>rt_thread_defunct\<close>\<close>
  | SemQ nat | MutexQ nat | EventQ nat \<comment> \<open>\<^verbatim>\<open>suspend_thread\<close> of an IPC object\<close>
  | MbRecvQ nat | MbSendQ nat | MqRecvQ nat | MqSendQ nat
  | MpQ nat \<comment> \<open>\<^verbatim>\<open>suspend_thread\<close> of a memory pool\<close>
  | CompletionQ nat \<comment> \<open>\<^verbatim>\<open>suspended_list\<close> of a completion\<close>

text \<open>
  The heads of the lists a timer's node can be in: the two global lists, and the local list of a
  running \<^verbatim>\<open>rt_timer_check\<close> or \<^verbatim>\<open>rt_soft_timer_check\<close> that holds the timer being called.
\<close>

datatype tqid = HardTimers | SoftTimers | HardPending | SoftPending

record kernel =
  threads :: "tid \<Rightarrow> rt_thread option"
  timers :: "timer_id \<Rightarrow> rt_timer option"
  sems :: "nat \<Rightarrow> rt_semaphore option"
  mutexes :: "nat \<Rightarrow> rt_mutex option"
  events :: "nat \<Rightarrow> rt_event option"
  mailboxes :: "nat \<Rightarrow> rt_mailbox option"
  msgqueues :: "nat \<Rightarrow> rt_messagequeue option"
  mempools :: "nat \<Rightarrow> rt_mempool option"
  devices :: "nat \<Rightarrow> rt_device option"
  completions :: "nat \<Rightarrow> rt_completion option"
  pool_mem :: "u32 \<Rightarrow> pool_word option"
  object_list :: "u8 \<Rightarrow> objref list" \<comment> \<open>\<^verbatim>\<open>rt_object_container[..].object_list\<close>, by class\<close>
  obj_name :: "objref \<Rightarrow> string"
  queues :: "qid \<Rightarrow> tid list"
  timer_queues :: "tqid \<Rightarrow> timer_id list"
  rt_thread_ready_priority_group :: u32
  rt_scheduler_lock_nest :: u16 \<comment> \<open>\<^verbatim>\<open>rt_int16_t\<close>, read with \<open>sint\<close>\<close>
  rt_current_thread :: "tid option"
  rt_current_priority :: u8
  rt_interrupt_nest :: u8
  rt_tick :: rt_tick_t
  soft_timer_status :: u8
  timer_thread :: tid
  random_nr :: u32

section \<open>Access to the state\<close>

definition upd_thread :: "tid \<Rightarrow> (rt_thread \<Rightarrow> rt_thread) \<Rightarrow> kernel \<Rightarrow> kernel" where
  [rt_defs]: "upd_thread t f s = s\<lparr>threads := (threads s)(t := map_option f (threads s t))\<rparr>"

definition upd_timer :: "timer_id \<Rightarrow> (rt_timer \<Rightarrow> rt_timer) \<Rightarrow> kernel \<Rightarrow> kernel" where
  [rt_defs]: "upd_timer m f s = s\<lparr>timers := (timers s)(m := map_option f (timers s m))\<rparr>"

definition list_insert_before :: "qid \<Rightarrow> tid \<Rightarrow> kernel \<Rightarrow> kernel" where
  [rt_defs]: "list_insert_before q t s = s\<lparr>queues := (queues s)(q := queues s q @ [t])\<rparr>"

definition list_insert_after :: "qid \<Rightarrow> tid \<Rightarrow> kernel \<Rightarrow> kernel" where
  [rt_defs]: "list_insert_after q t s = s\<lparr>queues := (queues s)(q := t # queues s q)\<rparr>"

text \<open>\<^verbatim>\<open>rt_list_remove(&thread->tlist)\<close>: out of whichever list the node is in.\<close>

definition list_remove :: "tid \<Rightarrow> kernel \<Rightarrow> kernel" where
  [rt_defs]: "list_remove t s = s\<lparr>queues := (\<lambda>q. removeAll t (queues s q))\<rparr>"

text \<open>\<^verbatim>\<open>rt_object_get_type\<close>: the type without the static flag.\<close>

definition rt_object_get_type :: "u8 \<Rightarrow> u8" where
  "rt_object_get_type ty = ty AND NOT RT_Object_Class_Static"

definition rt_object_is_systemobject :: "u8 \<Rightarrow> bool" where
  "rt_object_is_systemobject ty \<longleftrightarrow> ty AND RT_Object_Class_Static \<noteq> 0"

text \<open>\<^verbatim>\<open>RT_DEBUG_NOT_IN_INTERRUPT\<close> and \<^verbatim>\<open>RT_DEBUG_IN_THREAD_CONTEXT\<close> of \<^verbatim>\<open>rtdebug.h\<close>.\<close>

definition RT_DEBUG_NOT_IN_INTERRUPT :: "kernel \<Rightarrow> unit option" where
  "RT_DEBUG_NOT_IN_INTERRUPT s = rt_assert (rt_interrupt_nest s = 0)"

definition RT_DEBUG_IN_THREAD_CONTEXT :: "kernel \<Rightarrow> unit option" where
  "RT_DEBUG_IN_THREAD_CONTEXT s =
     do { rt_assert (rt_current_thread s \<noteq> None); RT_DEBUG_NOT_IN_INTERRUPT s }"

definition rt_thread_self :: "kernel \<Rightarrow> tid option" where
  "rt_thread_self s = rt_current_thread s"

definition rt_tick_get :: "kernel \<Rightarrow> rt_tick_t" where
  "rt_tick_get s = rt_tick s"

lemmas rt_context_defs = RT_DEBUG_NOT_IN_INTERRUPT_def RT_DEBUG_IN_THREAD_CONTEXT_def
  rt_thread_self_def rt_tick_get_def

text \<open>The state of a thread: its \<^verbatim>\<open>stat\<close> field under the mask.\<close>

abbreviation tstate :: "rt_thread \<Rightarrow> u8" where
  "tstate th \<equiv> stat th AND RT_THREAD_STAT_MASK"

definition set_state :: "u8 \<Rightarrow> rt_thread \<Rightarrow> rt_thread" where
  "set_state k th = th\<lparr>stat := k OR (stat th AND NOT RT_THREAD_STAT_MASK)\<rparr>"

lemma set_state_simps [simp]:
  "th_type (set_state k th) = th_type th" "sp (set_state k th) = sp th"
  "stack_addr (set_state k th) = stack_addr th" "stack_size (set_state k th) = stack_size th"
  "stack_guard (set_state k th) = stack_guard th" "th_error (set_state k th) = th_error th"
  "current_priority (set_state k th) = current_priority th"
  "init_priority (set_state k th) = init_priority th"
  "number_mask (set_state k th) = number_mask th" "event_set (set_state k th) = event_set th"
  "event_info (set_state k th) = event_info th" "init_tick (set_state k th) = init_tick th"
  "remaining_tick (set_state k th) = remaining_tick th"
  "th_entry (set_state k th) = th_entry th" "th_parameter (set_state k th) = th_parameter th"
  by (simp_all add: set_state_def)

lemma tstate_set_state [simp]: "tstate (set_state k th) = k AND 7"
  by (simp add: set_state_def)

end
