(* ===== verification/Scheduler.thy ===== *)
theory Scheduler
  imports Kernel
begin

text \<open>
  The priority scheduler of \<^verbatim>\<open>rt-thread/src/scheduler.c\<close> with the bit search of
  \<^verbatim>\<open>rt-thread/src/kservice.c\<close> and the interrupt nesting of \<^verbatim>\<open>rt-thread/src/irq.c\<close>.

  The invariant \<open>sched_inv\<close> ties the ready bitmap, the ready queues, the thread states and the
  running thread together. Its relaxed form \<open>winv X\<close> exempts the threads of \<open>X\<close>, which the code
  has taken off their queue and not yet put on another: the operations of this and of the later
  theories are sequences of such small moves, each with its own lemma.
\<close>

section \<open>Finding the first set bit\<close>

text \<open>
  The build uses gcc and \<^verbatim>\<open>RT_USING_CPU_FFS\<close>: \<^verbatim>\<open>__rt_ffs\<close> is \<^verbatim>\<open>__builtin_ffs\<close>, one plus the index of
  the least significant set bit, zero for zero.
\<close>

definition rt_ffs :: "u32 \<Rightarrow> nat" where
  "rt_ffs v = (case find (bit v) [0..<32] of None \<Rightarrow> 0 | Some i \<Rightarrow> i + 1)"

text \<open>The portable version of \<^verbatim>\<open>kservice.c\<close>, with its table of 256 entries.\<close>

definition lowest_bit_bitmap_row :: "nat \<Rightarrow> nat list" where
  "lowest_bit_bitmap_row x = x # [0, 1, 0, 2, 0, 1, 0, 3, 0, 1, 0, 2, 0, 1, 0]"

definition lowest_bit_bitmap :: "nat list" where
  "lowest_bit_bitmap = concat (map lowest_bit_bitmap_row [0, 4, 5, 4, 6, 4, 5, 4, 7, 4, 5, 4, 6, 4, 5, 4])"

definition rt_ffs_table :: "u32 \<Rightarrow> nat" where
  "rt_ffs_table v =
     (if v = 0 then 0
      else if v AND 0xff \<noteq> 0 then lowest_bit_bitmap ! unat (v AND 0xff) + 1
      else if v AND 0xff00 \<noteq> 0 then lowest_bit_bitmap ! unat (drop_bit 8 (v AND 0xff00)) + 9
      else if v AND 0xff0000 \<noteq> 0 then lowest_bit_bitmap ! unat (drop_bit 16 (v AND 0xff0000)) + 17
      else lowest_bit_bitmap ! unat (drop_bit 24 (v AND 0xff000000)) + 25)"

section \<open>The operations of scheduler.c and irq.c\<close>

text \<open>\<^verbatim>\<open>_rt_scheduler_stack_check\<close>: on a detected overflow it spins (interrupts are disabled here).\<close>

definition stack_overflow :: "rt_thread \<Rightarrow> bool" where
  "stack_overflow th \<longleftrightarrow>
     stack_guard th \<noteq> 0x23 \<or> sp th \<le> stack_addr th \<or> stack_addr th + stack_size th < sp th"

definition rt_scheduler_stack_check :: "tid \<Rightarrow> kernel \<Rightarrow> unit option" where
  "rt_scheduler_stack_check t s = do { th \<leftarrow> threads s t; rt_assert (\<not> stack_overflow th) }"

definition get_highest_priority_thread :: "kernel \<Rightarrow> (tid \<times> nat) option" where
  "get_highest_priority_thread s =
     (let highest_ready_priority = rt_ffs (rt_thread_ready_priority_group s) - 1
      in case queues s (ReadyQ highest_ready_priority) of
           [] \<Rightarrow> None
         | t # _ \<Rightarrow> Some (t, highest_ready_priority))"

definition rt_system_scheduler_init :: "kernel \<Rightarrow> kernel" where
  "rt_system_scheduler_init s =
     s\<lparr>rt_scheduler_lock_nest := 0,
       queues := (\<lambda>q. case q of ReadyQ p \<Rightarrow> if p < RT_THREAD_PRIORITY_MAX then [] else queues s q
                       | DefunctQ \<Rightarrow> [] | _ \<Rightarrow> queues s q),
       rt_thread_ready_priority_group := 0\<rparr>"

definition rt_schedule_insert_thread :: "tid \<Rightarrow> kernel \<Rightarrow> kernel option" where
  "rt_schedule_insert_thread t s = do {
     th \<leftarrow> threads s t;
     if rt_current_thread s = Some t then Some (upd_thread t (set_state RT_THREAD_RUNNING) s)
     else let s1 = upd_thread t (set_state RT_THREAD_READY) s;
              s2 = list_insert_before (ReadyQ (unat (current_priority th))) t s1
          in Some (s2\<lparr>rt_thread_ready_priority_group :=
                        rt_thread_ready_priority_group s2 OR number_mask th\<rparr>) }"

definition rt_schedule_remove_thread :: "tid \<Rightarrow> kernel \<Rightarrow> kernel option" where
  "rt_schedule_remove_thread t s = do {
     th \<leftarrow> threads s t;
     let s1 = list_remove t s;
     if queues s1 (ReadyQ (unat (current_priority th))) = []
     then Some (s1\<lparr>rt_thread_ready_priority_group :=
                     rt_thread_ready_priority_group s1 AND NOT (number_mask th)\<rparr>)
     else Some s1 }"

definition rt_system_scheduler_start :: "kernel \<Rightarrow> kernel option" where
  "rt_system_scheduler_start s = do {
     (to_thread, _) \<leftarrow> get_highest_priority_thread s;
     s1 \<leftarrow> rt_schedule_remove_thread to_thread (s\<lparr>rt_current_thread := Some to_thread\<rparr>);
     Some (upd_thread to_thread (stat_update (\<lambda>_. RT_THREAD_RUNNING)) s1) }"

text \<open>
  \<^verbatim>\<open>rt_schedule\<close>. The choice of the thread to run (with the clearing of the yield flag) and the
  switch to it are two definitions. \<^verbatim>\<open>rt_hw_context_switch\<close> and its variant for interrupts are the
  change of \<^verbatim>\<open>rt_current_thread\<close>: a caller that loses the processor here continues, after this call,
  when its thread is chosen again.
\<close>

definition schedule_choose :: "tid \<Rightarrow> rt_thread \<Rightarrow> tid \<Rightarrow> nat \<Rightarrow> tid \<times> bool" where
  "schedule_choose cur cth to_thread highest =
     (if tstate cth = RT_THREAD_RUNNING
      then if unat (current_priority cth) < highest then (cur, False)
           else if unat (current_priority cth) = highest \<and>
                   stat cth AND RT_THREAD_STAT_YIELD_MASK = 0 then (cur, False)
           else (to_thread, True)
      else (to_thread, False))"

definition schedule_switch :: "tid \<Rightarrow> tid \<Rightarrow> bool \<Rightarrow> nat \<Rightarrow> kernel \<Rightarrow> kernel option" where
  "schedule_switch cur to_thread need_insert_from_thread highest s =
     (if to_thread \<noteq> cur
      then do {
        let s1 = s\<lparr>rt_current_priority := of_nat highest, rt_current_thread := Some to_thread\<rparr>;
        s2 \<leftarrow> (if need_insert_from_thread then rt_schedule_insert_thread cur s1 else Some s1);
        s3 \<leftarrow> rt_schedule_remove_thread to_thread s2;
        let s4 = upd_thread to_thread (set_state RT_THREAD_RUNNING) s3;
        rt_scheduler_stack_check to_thread s4;
        Some s4 }
      else do {
        s1 \<leftarrow> rt_schedule_remove_thread cur s;
        Some (upd_thread cur (set_state RT_THREAD_RUNNING) s1) })"

definition rt_schedule :: "kernel \<Rightarrow> kernel option" where
  "rt_schedule s =
     (if rt_scheduler_lock_nest s = 0 \<and> rt_thread_ready_priority_group s \<noteq> 0
      then do {
        (to_thread, highest) \<leftarrow> get_highest_priority_thread s;
        cur \<leftarrow> rt_current_thread s;
        cth \<leftarrow> threads s cur;
        let (to', need_insert) = schedule_choose cur cth to_thread highest;
        let s1 = (if tstate cth = RT_THREAD_RUNNING
                  then upd_thread cur (stat_update (\<lambda>x. x AND NOT RT_THREAD_STAT_YIELD_MASK)) s
                  else s);
        schedule_switch cur to' need_insert highest s1 }
      else Some s)"

definition rt_enter_critical :: "kernel \<Rightarrow> kernel" where
  "rt_enter_critical s = s\<lparr>rt_scheduler_lock_nest := rt_scheduler_lock_nest s + 1\<rparr>"

definition rt_exit_critical :: "kernel \<Rightarrow> kernel option" where
  "rt_exit_critical s =
     (let s1 = s\<lparr>rt_scheduler_lock_nest := rt_scheduler_lock_nest s - 1\<rparr>
      in if sint (rt_scheduler_lock_nest s1) \<le> 0
         then let s2 = s1\<lparr>rt_scheduler_lock_nest := 0\<rparr>
              in if rt_current_thread s2 \<noteq> None then rt_schedule s2 else Some s2
         else Some s1)"

definition rt_critical_level :: "kernel \<Rightarrow> u16" where
  "rt_critical_level s = rt_scheduler_lock_nest s"

definition rt_interrupt_enter :: "kernel \<Rightarrow> kernel" where
  "rt_interrupt_enter s = s\<lparr>rt_interrupt_nest := rt_interrupt_nest s + 1\<rparr>"

definition rt_interrupt_leave :: "kernel \<Rightarrow> kernel" where
  "rt_interrupt_leave s = s\<lparr>rt_interrupt_nest := rt_interrupt_nest s - 1\<rparr>"

definition rt_interrupt_get_nest :: "kernel \<Rightarrow> u8" where
  "rt_interrupt_get_nest s = rt_interrupt_nest s"

section \<open>The bit search finds the least set bit\<close>

lemma find_upt_Some:
  "find P [0..<n] = Some i \<longleftrightarrow> i < n \<and> P i \<and> (\<forall>j<i. \<not> P j)"
proof -
  have "find P [0..<n] = Some i \<longleftrightarrow> (\<exists>k<n. P k \<and> i = k \<and> (\<forall>j<k. \<not> P j))"
    by (auto simp: find_Some_iff)
  then show ?thesis by auto
qed

lemma rt_ffs_least:
  assumes "bit v i" and "\<forall>j<i. \<not> bit v j"
  shows "rt_ffs v = i + 1"
proof -
  have "i < 32" using bit_imp_le_length [OF assms(1)] by simp
  with assms have "find (bit v) [0..<32] = Some i" by (simp add: find_upt_Some)
  then show ?thesis by (simp add: rt_ffs_def)
qed

lemma rt_ffs_nonzero:
  assumes "v \<noteq> 0"
  obtains i where "i < 32" and "bit v i" and "\<forall>j<i. \<not> bit v j" and "rt_ffs v = i + 1"
proof -
  define i where "i = (LEAST j. bit v j)"
  have "\<exists>j. bit v j" using assms by (auto simp: bit_eq_iff)
  then have i: "bit v i" unfolding i_def by (rule LeastI_ex)
  moreover have least: "\<forall>j<i. \<not> bit v j" unfolding i_def by (auto dest: not_less_Least)
  moreover have "i < 32" using bit_imp_le_length [OF i] by simp
  ultimately show thesis using that rt_ffs_least by blast
qed

lemma nth_concat_rows:
  assumes "\<And>x. length (f x) = n" and "i < length xs" and "j < n"
  shows "concat (map f xs) ! (n * i + j) = f (xs ! i) ! j"
  using assms(2,3)
proof (induction xs arbitrary: i)
  case (Cons x xs)
  then show ?case using assms(1) by (cases i) (auto simp: nth_append)
qed simp

lemma low_nibble:
  "\<forall>j\<in>set [1..<16]. find (bit j) [0..<4] = Some ([0, 1, 0, 2, 0, 1, 0, 3, 0, 1, 0, 2, 0, 1, 0] ! (j - 1))"
  by code_simp

lemma high_nibble:
  "\<forall>i\<in>set [1..<16]. find (bit i) [0..<4] =
     Some ([0, 4, 5, 4, 6, 4, 5, 4, 7, 4, 5, 4, 6, 4, 5, 4] ! i - 4) \<and>
     4 \<le> [0, 4, 5, 4, 6, 4, 5, 4, 7, 4, 5, 4, 6, 4, 5, 4 :: nat] ! i"
  by code_simp

lemma lowest_bit_bitmap_correct:
  fixes b :: nat
  assumes "0 < b" and "b < 256"
  shows "find (bit b) [0..<8] = Some (lowest_bit_bitmap ! b)"
proof -
  define i j where "i = drop_bit 4 b" and "j = take_bit 4 b"
  have b: "b = 16 * i + j" and j: "j < 16" and i: "i < 16"
    using assms(2) by (simp_all add: i_def j_def drop_bit_eq_div take_bit_eq_mod less_mult_imp_div_less)
  have bj: "n < 4 \<Longrightarrow> bit b n \<longleftrightarrow> bit j n" and bi: "bit i n \<longleftrightarrow> bit b (4 + n)" for n
    by (simp_all add: i_def j_def bit_simps)
  have nth: "lowest_bit_bitmap ! b = lowest_bit_bitmap_row ([0, 4, 5, 4, 6, 4, 5, 4, 7, 4, 5, 4, 6, 4, 5, 4] ! i) ! j"
    unfolding lowest_bit_bitmap_def b
    by (rule nth_concat_rows) (use i j in \<open>simp_all add: lowest_bit_bitmap_row_def\<close>)
  show ?thesis
  proof (cases "j = 0")
    case True
    then have "i \<in> set [1..<16]" using assms(1) i b by auto
    from bspec [OF high_nibble this] obtain m where m: "m < 4" "bit i m" "\<forall>k<m. \<not> bit i k"
      "[0, 4, 5, 4, 6, 4, 5, 4, 7, 4, 5, 4, 6, 4, 5, 4] ! i = 4 + m"
      by (auto simp: find_upt_Some)
    have "\<not> bit b k" if "k < 4 + m" for k
      using that m(3) bi [of "k - 4"] bj [of k] True by (cases "k < 4") auto
    then show ?thesis using m bi [of m] by (simp add: nth True lowest_bit_bitmap_row_def find_upt_Some)
  next
    case False
    then have "j \<in> set [1..<16]" using j by auto
    from bspec [OF low_nibble this] show ?thesis
      using False bj by (auto simp: nth lowest_bit_bitmap_row_def find_upt_Some nth_Cons')
  qed
qed

lemma lowest_bit_byte:
  fixes v :: u32
  assumes m: "v AND push_bit k 0xff \<noteq> 0" and k: "k \<le> 24"
    and low: "\<forall>j<k. \<not> bit v j"
  shows "rt_ffs v = lowest_bit_bitmap ! unat (drop_bit k (v AND push_bit k 0xff)) + k + 1"
proof -
  define b where "b = unat (drop_bit k (v AND push_bit k 0xff))"
  have bits: "bit b j \<longleftrightarrow> j < 8 \<and> bit v (k + j)" for j
  proof -
    have m8: "(0xff :: u32) = mask 8" by (simp add: mask_eq_exp_minus_1)
    show ?thesis using k unfolding b_def m8
      by (auto simp: bit_unsigned_iff bit_simps dest: bit_imp_le_length)
  qed
  have "b < 2 ^ 8"
  proof -
    have "b = take_bit 8 b" by (rule bit_eqI) (auto simp: bits bit_take_bit_iff)
    then show ?thesis by (metis take_bit_nat_less_exp)
  qed
  moreover have "b \<noteq> 0"
  proof
    assume "b = 0"
    then have z: "j < 8 \<Longrightarrow> \<not> bit v (k + j)" for j using bits [of j] by simp
    have "v AND push_bit k 0xff = 0"
    proof (rule bit_eqI)
      fix n
      have m8: "(0xff :: u32) = mask 8" by (simp add: mask_eq_exp_minus_1)
      show "bit (v AND push_bit k 0xff) n = bit 0 n"
        using z [of "n - k"] unfolding m8 by (auto simp: bit_simps)
    qed
    with m show False by simp
  qed
  ultimately have "find (bit b) [0..<8] = Some (lowest_bit_bitmap ! b)"
    by (intro lowest_bit_bitmap_correct) simp_all
  then have i: "lowest_bit_bitmap ! b < 8" "bit b (lowest_bit_bitmap ! b)"
    "\<forall>j<lowest_bit_bitmap ! b. \<not> bit b j"
    by (simp_all add: find_upt_Some)
  have "bit v (k + lowest_bit_bitmap ! b)" using i bits by blast
  moreover have "\<not> bit v j" if "j < k + lowest_bit_bitmap ! b" for j
    using that low i(1,3) bits [of "j - k"] by (cases "j < k") auto
  ultimately have "rt_ffs v = k + lowest_bit_bitmap ! b + 1"
    by (intro rt_ffs_least) auto
  then show ?thesis by (simp add: b_def)
qed

lemma low_byte_zero:
  fixes v :: u32
  assumes "v AND push_bit k 0xff = 0" and "k \<le> 24"
  shows "\<forall>j<8. \<not> bit v (k + j)"
proof (intro allI impI)
  fix j :: nat assume j: "j < 8"
  have m8: "(0xff :: u32) = mask 8" by (simp add: mask_eq_exp_minus_1)
  have "\<not> bit (v AND push_bit k 0xff) (k + j)" using assms(1) by simp
  then show "\<not> bit v (k + j)" using j assms(2) unfolding m8 by (auto simp: bit_simps)
qed

text \<open>The table-driven \<^verbatim>\<open>__rt_ffs\<close> of \<^verbatim>\<open>kservice.c\<close>, used on targets without a find-first-set
  instruction, computes the same function as the compiler builtin this build uses, for every
  32-bit argument.\<close>

theorem rt_ffs_table_equiv: "rt_ffs_table v = rt_ffs v"
proof (cases "v = 0")
  case True
  have "find (bit (0 :: u32)) [0..<32] = None" by (simp add: find_None_iff)
  with True show ?thesis by (simp add: rt_ffs_table_def rt_ffs_def)
next
  case False
  have p: "(0xff00 :: u32) = push_bit 8 0xff" "(0xff0000 :: u32) = push_bit 16 0xff"
    "(0xff000000 :: u32) = push_bit 24 0xff" by simp_all
  let ?z = "\<lambda>k. v AND push_bit k 0xff = 0"
  consider (a) "\<not> ?z 0" | (b) "?z 0" "\<not> ?z 8" | (c) "?z 0" "?z 8" "\<not> ?z 16"
    | (d) "?z 0" "?z 8" "?z 16" by blast
  then show ?thesis
  proof cases
    case a
    then show ?thesis using False lowest_bit_byte [of v 0] by (simp add: rt_ffs_table_def)
  next
    case b
    have "\<forall>j<8. \<not> bit v j" using low_byte_zero [OF b(1)] by simp
    then show ?thesis using False b lowest_bit_byte [OF b(2)] by (simp add: rt_ffs_table_def)
  next
    case c
    have "\<not> bit v j" if "j < 16" for j
      using that low_byte_zero [OF c(1), rule_format, of j] low_byte_zero [OF c(2), rule_format, of "j - 8"]
      by (cases "j < 8") auto
    then show ?thesis using False c lowest_bit_byte [OF c(3)] by (simp add: rt_ffs_table_def)
  next
    case d
    have low: "\<not> bit v j" if "j < 24" for j
      using that low_byte_zero [OF d(1), rule_format, of j] low_byte_zero [OF d(2), rule_format, of "j - 8"]
        low_byte_zero [OF d(3), rule_format, of "j - 16"]
      by (cases "j < 8"; cases "j < 16") auto
    have "\<not> ?z 24"
    proof
      assume "?z 24"
      then have "\<not> bit v j" if "j < 32" for j
        using that low low_byte_zero [of v 24, rule_format, of "j - 24"] by (cases "j < 24") auto
      with False show False by (simp add: word_eq_zero_iff_bits)
    qed
    then show ?thesis using False d low lowest_bit_byte [of v 24] by (simp add: rt_ffs_table_def)
  qed
qed

end
