(* ===== verification/SchedInv.thy ===== *)
theory SchedInv
  imports Scheduler
begin

text \<open>
  The invariant of the scheduler's data and the theorems on \<^verbatim>\<open>rt_schedule\<close>.

  \<open>sched_inv\<close> ties the ready bitmap, the ready queues, the thread states and the running thread
  together. Its relaxed form \<open>winv X\<close> exempts the threads of \<open>X\<close>, which the code is moving between
  queues: the operations of the kernel are sequences of small moves, each with its lemma here.
\<close>

section \<open>The invariant\<close>

definition prio_ok :: "rt_thread \<Rightarrow> bool" where
  "prio_ok th \<longleftrightarrow> unat (current_priority th) < RT_THREAD_PRIORITY_MAX \<and>
     number_mask th = push_bit (unat (current_priority th)) 1"

definition thread_ok :: "rt_thread \<Rightarrow> bool" where
  "thread_ok th \<longleftrightarrow> prio_ok th \<and> \<not> stack_overflow th"

definition nowhere :: "kernel \<Rightarrow> tid \<Rightarrow> bool" where
  "nowhere s t \<longleftrightarrow> (\<forall>q. t \<notin> set (queues s q))"

text \<open>What the state field of a thread says about the queues and the running thread.\<close>

definition tcons :: "kernel \<Rightarrow> tid \<Rightarrow> bool" where
  "tcons s t \<longleftrightarrow> (case threads s t of
     None \<Rightarrow> nowhere s t \<and> rt_current_thread s \<noteq> Some t
   | Some th \<Rightarrow>
       (tstate th = RT_THREAD_INIT \<and> nowhere s t \<and> rt_current_thread s \<noteq> Some t)
     \<or> (tstate th = RT_THREAD_READY \<and> t \<in> set (queues s (ReadyQ (unat (current_priority th))))
          \<and> rt_current_thread s \<noteq> Some t \<and> thread_ok th)
     \<or> (tstate th = RT_THREAD_SUSPEND \<and> (\<forall>p. t \<notin> set (queues s (ReadyQ p)))
          \<and> t \<notin> set (queues s DefunctQ) \<and> thread_ok th)
     \<or> (tstate th = RT_THREAD_RUNNING \<and> nowhere s t \<and> rt_current_thread s = Some t \<and> thread_ok th)
     \<or> (tstate th = RT_THREAD_CLOSE \<and> (\<forall>q. q \<noteq> DefunctQ \<longrightarrow> t \<notin> set (queues s q))))"

definition queue_ok :: "kernel \<Rightarrow> bool" where
  "queue_ok s \<longleftrightarrow> (\<forall>q. distinct (queues s q)) \<and>
     (\<forall>t q q'. t \<in> set (queues s q) \<and> t \<in> set (queues s q') \<longrightarrow> q = q') \<and>
     (\<forall>p. bit (rt_thread_ready_priority_group s) p \<longleftrightarrow> queues s (ReadyQ p) \<noteq> [])"

definition winv :: "tid set \<Rightarrow> kernel \<Rightarrow> bool" where
  "winv X s \<longleftrightarrow> queue_ok s \<and> (\<forall>t. t \<notin> X \<longrightarrow> tcons s t)"

abbreviation sched_inv :: "kernel \<Rightarrow> bool" where
  "sched_inv s \<equiv> winv {} s"

lemma winv_queue_ok: "winv X s \<Longrightarrow> queue_ok s"
  by (simp add: winv_def)

lemma winv_mono: "winv X s \<Longrightarrow> X \<subseteq> Y \<Longrightarrow> winv Y s"
  by (auto simp: winv_def)

lemma winv_tcons: "winv X s \<Longrightarrow> t \<notin> X \<Longrightarrow> tcons s t"
  by (simp add: winv_def)

lemma tcons_cong:
  assumes "threads s' t = threads s t" and "rt_current_thread s' = Some t \<longleftrightarrow> rt_current_thread s = Some t"
    and "\<And>q. t \<in> set (queues s' q) \<longleftrightarrow> t \<in> set (queues s q)"
  shows "tcons s' t = tcons s t"
  unfolding tcons_def nowhere_def using assms by (auto split: option.split)

lemma queue_ok_cong:
  assumes "queues s' = queues s" and "rt_thread_ready_priority_group s' = rt_thread_ready_priority_group s"
  shows "queue_ok s' = queue_ok s"
  by (simp add: queue_ok_def assms)

text \<open>The scheduler's part of the state: what the invariant reads.\<close>

definition same_sched :: "kernel \<Rightarrow> kernel \<Rightarrow> bool" where
  "same_sched s s' \<longleftrightarrow> threads s' = threads s \<and> queues s' = queues s \<and>
     rt_current_thread s' = rt_current_thread s \<and>
     rt_thread_ready_priority_group s' = rt_thread_ready_priority_group s"

lemma winv_same_sched: "same_sched s s' \<Longrightarrow> winv X s' = winv X s"
  unfolding winv_def same_sched_def using queue_ok_cong [of s' s] tcons_cong [of s' _ s] by simp

section \<open>Consequences\<close>

lemma tcons_ready_mem:
  assumes "tcons s t" and "t \<in> set (queues s (ReadyQ p))" and q: "queue_ok s"
  obtains th where "threads s t = Some th" "tstate th = RT_THREAD_READY"
    "unat (current_priority th) = p" "thread_ok th" "rt_current_thread s \<noteq> Some t"
proof -
  obtain th where th: "threads s t = Some th"
    using assms by (cases "threads s t") (auto simp: tcons_def nowhere_def)
  with assms(1,2) have *: "tstate th = RT_THREAD_READY" "rt_current_thread s \<noteq> Some t" "thread_ok th"
    "t \<in> set (queues s (ReadyQ (unat (current_priority th))))"
    by (auto simp: tcons_def nowhere_def)
  then have "ReadyQ (unat (current_priority th)) = ReadyQ p"
    using q assms(2) unfolding queue_ok_def by blast
  with * th show thesis using that by auto
qed

lemma tcons_running:
  assumes "tcons s t" and "threads s t = Some th" and "tstate th = RT_THREAD_RUNNING"
  shows "nowhere s t" and "rt_current_thread s = Some t" and "thread_ok th"
  using assms by (auto simp: tcons_def)

lemma tcons_current:
  assumes "tcons s t" and "rt_current_thread s = Some t"
  obtains th where "threads s t = Some th"
    "tstate th = RT_THREAD_RUNNING \<or> tstate th = RT_THREAD_SUSPEND \<or> tstate th = RT_THREAD_CLOSE"
    "tstate th \<noteq> RT_THREAD_CLOSE \<Longrightarrow> thread_ok th"
    "\<And>p. t \<notin> set (queues s (ReadyQ p))"
proof (cases "threads s t")
  case None
  with assms show thesis by (simp add: tcons_def)
next
  case (Some th)
  then show thesis using that [OF Some] assms by (auto simp: tcons_def nowhere_def)
qed

lemma get_highest_SomeD:
  assumes inv: "queue_ok s" and g: "rt_thread_ready_priority_group s \<noteq> 0"
  obtains t ts p where "get_highest_priority_thread s = Some (t, p)" "queues s (ReadyQ p) = t # ts"
    "\<And>p'. p' < p \<Longrightarrow> queues s (ReadyQ p') = []" "p < 32"
proof -
  from rt_ffs_nonzero [OF g] obtain i where i: "i < 32" "bit (rt_thread_ready_priority_group s) i"
    "\<forall>j<i. \<not> bit (rt_thread_ready_priority_group s) j" "rt_ffs (rt_thread_ready_priority_group s) = i + 1"
    by blast
  moreover from i(2) inv have "queues s (ReadyQ i) \<noteq> []" by (simp add: queue_ok_def)
  then obtain t ts where "queues s (ReadyQ i) = t # ts" by (auto simp: neq_Nil_conv)
  moreover have "\<And>p'. p' < i \<Longrightarrow> queues s (ReadyQ p') = []" using i(3) inv by (auto simp: queue_ok_def)
  ultimately show thesis using that by (simp add: get_highest_priority_thread_def)
qed

section \<open>The small moves\<close>

lemma winv_upd_thread:
  assumes "winv X s" and "t \<in> X"
  shows "winv X (upd_thread t f s)"
proof -
  have "tcons (upd_thread t f s) t' = tcons s t'" if "t' \<notin> X" for t'
    using that assms(2) by (intro tcons_cong) (auto simp: upd_thread_def)
  moreover have "queue_ok (upd_thread t f s) = queue_ok s"
    by (rule queue_ok_cong) (simp_all add: upd_thread_def)
  ultimately show ?thesis using assms(1) by (simp add: winv_def)
qed

lemma winv_set_current:
  assumes "winv X s" and "\<And>t. rt_current_thread s = Some t \<Longrightarrow> t \<in> X" and "c \<in> X"
  shows "winv X (s\<lparr>rt_current_thread := Some c\<rparr>)"
proof -
  have "tcons (s\<lparr>rt_current_thread := Some c\<rparr>) t' = tcons s t'" if "t' \<notin> X" for t'
    using that assms(2,3) by (intro tcons_cong) auto
  moreover have "queue_ok (s\<lparr>rt_current_thread := Some c\<rparr>) = queue_ok s"
    by (rule queue_ok_cong) simp_all
  ultimately show ?thesis using assms(1) by (simp add: winv_def)
qed

lemma winv_leave: "winv X s \<Longrightarrow> tcons s t \<Longrightarrow> winv (X - {t}) s"
  by (auto simp: winv_def)

lemma winv_settle:
  assumes "\<And>t'. t' \<noteq> t \<Longrightarrow> tcons s' t' = tcons s t'" and "tcons s' t" and "queue_ok s'" and "winv X s"
  shows "winv (X - {t}) s'"
proof -
  have "tcons s' u" if "u \<notin> X - {t}" for u
    using that assms(1) [of u] assms(2,4) by (cases "u = t") (auto simp: winv_def)
  with assms(3) show ?thesis by (simp add: winv_def)
qed

lemma bit_mask_clear:
  "number_mask th = push_bit k (1 :: u32) \<Longrightarrow>
     bit (g AND NOT (number_mask th)) p \<longleftrightarrow> bit g p \<and> p \<noteq> k"
  by (auto simp: bit_simps push_bit_one_nth dest: bit_imp_le_length)

text \<open>A thread is on no ready queue but that of its own priority.\<close>

definition homed :: "kernel \<Rightarrow> tid \<Rightarrow> rt_thread \<Rightarrow> bool" where
  "homed s t th \<longleftrightarrow> (\<forall>p. t \<in> set (queues s (ReadyQ p)) \<longrightarrow> p = unat (current_priority th))"

lemma tcons_homed:
  assumes "winv X s" and "t \<notin> X" and "threads s t = Some th"
  shows "homed s t th"
  unfolding homed_def
  using tcons_ready_mem [OF winv_tcons [OF assms(1,2)] _ winv_queue_ok [OF assms(1)]] assms(3)
  by (metis option.inject)

lemma nowhere_homed: "nowhere s t \<Longrightarrow> homed s t th"
  by (simp add: nowhere_def homed_def)

lemma remove_Some:
  assumes inv: "winv X s" and th: "threads s t = Some th" and pr: "prio_ok th" and h: "homed s t th"
  obtains g where
    "rt_schedule_remove_thread t s =
       Some (s\<lparr>queues := (\<lambda>q. removeAll t (queues s q)), rt_thread_ready_priority_group := g\<rparr>)"
    "winv (insert t X) (s\<lparr>queues := (\<lambda>q. removeAll t (queues s q)), rt_thread_ready_priority_group := g\<rparr>)"
proof -
  define k where "k = unat (current_priority th)"
  have k: "number_mask th = push_bit k 1" "k < 32" using pr by (simp_all add: prio_ok_def k_def)
  define g where "g = (if removeAll t (queues s (ReadyQ k)) = []
     then rt_thread_ready_priority_group s AND NOT (number_mask th)
     else rt_thread_ready_priority_group s)"
  let ?s = "s\<lparr>queues := (\<lambda>q. removeAll t (queues s q)), rt_thread_ready_priority_group := g\<rparr>"
  have 1: "rt_schedule_remove_thread t s = Some ?s"
    using th by (simp add: rt_schedule_remove_thread_def list_remove_def g_def k_def)
  have q: "queue_ok s" using inv by (rule winv_queue_ok)
  have "bit g p \<longleftrightarrow> removeAll t (queues s (ReadyQ p)) \<noteq> []" for p
  proof (cases "p = k")
    case True
    then show ?thesis using q bit_mask_clear [OF k(1)] by (auto simp: g_def queue_ok_def)
  next
    case False
    then have "t \<notin> set (queues s (ReadyQ p))" using h by (auto simp: homed_def k_def)
    with False q show ?thesis by (simp add: g_def queue_ok_def bit_mask_clear [OF k(1)])
  qed
  then have "queue_ok ?s" using q by (auto simp: queue_ok_def distinct_removeAll)
  moreover have "tcons ?s t' = tcons s t'" if "t' \<noteq> t" for t'
    using that by (intro tcons_cong) auto
  ultimately have "winv (insert t X) ?s" using inv by (simp add: winv_def)
  with 1 show thesis by (rule that)
qed

lemma insert_Some:
  assumes inv: "winv X s" and th: "threads s t = Some th" and ok: "thread_ok th" and no: "nowhere s t"
  obtains s' where "rt_schedule_insert_thread t s = Some s'" "winv (X - {t}) s'"
    "threads s' = (threads s)(t \<mapsto> set_state (if rt_current_thread s = Some t
        then RT_THREAD_RUNNING else RT_THREAD_READY) th)"
    "queues s' = (if rt_current_thread s = Some t then queues s
       else (queues s)(ReadyQ (unat (current_priority th)) :=
          queues s (ReadyQ (unat (current_priority th))) @ [t]))"
    "s' = s\<lparr>threads := threads s', queues := queues s',
       rt_thread_ready_priority_group := rt_thread_ready_priority_group s'\<rparr>"
proof (cases "rt_current_thread s = Some t")
  case True
  let ?s = "s\<lparr>threads := (threads s)(t \<mapsto> set_state RT_THREAD_RUNNING th)\<rparr>"
  have 1: "rt_schedule_insert_thread t s = Some ?s"
    using True th by (simp add: rt_schedule_insert_thread_def upd_thread_def)
  have "tcons ?s t' = tcons s t'" if "t' \<noteq> t" for t' using that by (intro tcons_cong) auto
  moreover have "tcons ?s t" using True no ok
    by (simp add: tcons_def nowhere_def thread_ok_def prio_ok_def stack_overflow_def)
  moreover have "queue_ok ?s" using winv_queue_ok [OF inv] queue_ok_cong [of ?s s] by simp
  ultimately have "winv (X - {t}) ?s" using inv by (rule winv_settle)
  with 1 show thesis by (rule that) (simp_all add: True)
next
  case False
  define k where "k = unat (current_priority th)"
  have k: "number_mask th = push_bit k 1" "k < 32"
    using ok by (simp_all add: thread_ok_def prio_ok_def k_def)
  let ?s = "s\<lparr>threads := (threads s)(t \<mapsto> set_state RT_THREAD_READY th),
    queues := (queues s)(ReadyQ k := queues s (ReadyQ k) @ [t]),
    rt_thread_ready_priority_group := rt_thread_ready_priority_group s OR number_mask th\<rparr>"
  have 1: "rt_schedule_insert_thread t s = Some ?s"
    using False th by (simp add: rt_schedule_insert_thread_def upd_thread_def list_insert_before_def k_def)
  have "tcons ?s t' = tcons s t'" if "t' \<noteq> t" for t' using that by (intro tcons_cong) auto
  moreover have "tcons ?s t" using False no ok
    by (simp add: tcons_def nowhere_def thread_ok_def prio_ok_def stack_overflow_def k_def)
  moreover have "queue_ok ?s" using winv_queue_ok [OF inv] no k
    by (auto simp: queue_ok_def nowhere_def bit_or_iff bit_exp_iff)
  ultimately have "winv (X - {t}) ?s" using inv by (rule winv_settle)
  with 1 show thesis by (rule that) (simp_all add: False k_def)
qed


section \<open>rt_schedule\<close>

text \<open>
  One theorem gives all that a call of \<^verbatim>\<open>rt_schedule\<close> does: it returns, the invariant holds
  afterwards and the thread that runs is \<open>sched_next\<close>.
\<close>

definition sched_next :: "kernel \<Rightarrow> tid option" where
  "sched_next s =
     (if rt_scheduler_lock_nest s \<noteq> 0 \<or> rt_thread_ready_priority_group s = 0 then rt_current_thread s
      else case (get_highest_priority_thread s, rt_current_thread s) of
        (Some (t, p), Some cur) \<Rightarrow>
          (case threads s cur of
             Some cth \<Rightarrow> Some (if tstate cth = RT_THREAD_RUNNING \<and>
                   (unat (current_priority cth) < p \<or>
                    unat (current_priority cth) = p \<and> stat cth AND RT_THREAD_STAT_YIELD_MASK = 0)
                 then cur else t)
           | None \<Rightarrow> None)
      | _ \<Rightarrow> None)"

lemma clear_yield_tstate [simp]: "(x AND NOT 8) AND 7 = (x AND 7 :: u8)"
proof -
  have "(x AND NOT 8) AND 7 = x AND (7 AND NOT 8)" by (simp add: ac_simps)
  also have "(7 :: u8) AND NOT 8 = 7" by simp
  finally show ?thesis .
qed


lemma clear_yield_tstate' [simp]: "(x AND - 9) AND 7 = (x AND 7 :: u8)"
  using clear_yield_tstate [of x] by simp

lemma thread_ok_cong:
  assumes "current_priority th' = current_priority th" "number_mask th' = number_mask th"
    "stack_guard th' = stack_guard th" "sp th' = sp th" "stack_addr th' = stack_addr th"
    "stack_size th' = stack_size th"
  shows "thread_ok th' = thread_ok th"
  by (simp add: thread_ok_def prio_ok_def stack_overflow_def assms)

lemma thread_ok_set_state [simp]: "thread_ok (set_state k th) = thread_ok th"
  by (rule thread_ok_cong) simp_all

lemma thread_ok_stat [simp]: "thread_ok (stat_update f th) = thread_ok th"
  by (rule thread_ok_cong) simp_all

lemma thread_ok_prio: "thread_ok th \<Longrightarrow> prio_ok th"
  by (simp add: thread_ok_def)

lemma stay_Some:
  assumes inv: "sched_inv s" and cur: "rt_current_thread s = Some c" and c: "threads s c = Some cth"
    and run: "tstate cth = RT_THREAD_RUNNING"
  obtains s' where "schedule_switch c c b h s = Some s'" "sched_inv s'"
    "threads s' = (threads s)(c \<mapsto> set_state RT_THREAD_RUNNING cth)" "queues s' = queues s"
    "rt_current_thread s' = Some c"
proof -
  note r = tcons_running [OF winv_tcons [OF inv] c run, simplified]
  obtain g where g: "rt_schedule_remove_thread c s =
       Some (s\<lparr>queues := (\<lambda>q. removeAll c (queues s q)), rt_thread_ready_priority_group := g\<rparr>)"
    "winv {c} (s\<lparr>queues := (\<lambda>q. removeAll c (queues s q)), rt_thread_ready_priority_group := g\<rparr>)"
    by (rule remove_Some [OF inv c thread_ok_prio [OF r(3)] nowhere_homed [OF r(1)]])
  let ?s1 = "s\<lparr>queues := (\<lambda>q. removeAll c (queues s q)), rt_thread_ready_priority_group := g\<rparr>"
  have q: "(\<lambda>q. removeAll c (queues s q)) = queues s" using r(1) by (simp add: nowhere_def)
  let ?s2 = "upd_thread c (set_state RT_THREAD_RUNNING) ?s1"
  have "tcons ?s2 c" using r c cur by (auto simp: tcons_def upd_thread_def nowhere_def)
  then have "winv ({c} - {c}) ?s2" by (intro winv_leave winv_upd_thread [OF g(2)]) simp_all
  with g(1) show thesis using c cur q
    by (intro that [of ?s2]) (simp_all add: schedule_switch_def upd_thread_def)
qed

lemma switch_from:
  assumes inv: "sched_inv s" and ne: "t \<noteq> c" and cur: "rt_current_thread s = Some c"
    and c: "threads s c = Some cth" and b: "b \<longleftrightarrow> tstate cth = RT_THREAD_RUNNING"
  obtains s2 where
    "(if b then rt_schedule_insert_thread c (s\<lparr>rt_current_priority := h, rt_current_thread := Some t\<rparr>)
      else Some (s\<lparr>rt_current_priority := h, rt_current_thread := Some t\<rparr>)) = Some s2"
    "winv {t} s2" "rt_current_thread s2 = Some t"
    "threads s2 = (threads s)(c \<mapsto> (if b then set_state RT_THREAD_READY cth else cth))"
    "queues s2 = (if b then (queues s)(ReadyQ (unat (current_priority cth)) :=
        queues s (ReadyQ (unat (current_priority cth))) @ [c]) else queues s)"
proof -
  let ?s0 = "s\<lparr>rt_current_priority := h\<rparr>"
  let ?s1 = "s\<lparr>rt_current_priority := h, rt_current_thread := Some t\<rparr>"
  have "winv {c, t} ?s0" using inv by (subst winv_same_sched [of s]) (auto simp: same_sched_def elim: winv_mono)
  from winv_set_current [OF this, of t] have w1: "winv {c, t} ?s1" using cur by simp
  show thesis
  proof (cases b)
    case True
    note r = tcons_running [OF winv_tcons [OF inv] c, simplified, OF b [THEN iffD1, OF True]]
    have "nowhere ?s1 c" using r(1) by (simp add: nowhere_def)
    with w1 c r(3) obtain s2 where s2: "rt_schedule_insert_thread c ?s1 = Some s2" "winv ({c, t} - {c}) s2"
      "threads s2 = (threads ?s1)(c \<mapsto> set_state (if rt_current_thread ?s1 = Some c
        then RT_THREAD_RUNNING else RT_THREAD_READY) cth)"
      "queues s2 = (if rt_current_thread ?s1 = Some c then queues ?s1
       else (queues ?s1)(ReadyQ (unat (current_priority cth)) :=
          queues ?s1 (ReadyQ (unat (current_priority cth))) @ [c]))"
      "s2 = ?s1\<lparr>threads := threads s2, queues := queues s2,
         rt_thread_ready_priority_group := rt_thread_ready_priority_group s2\<rparr>"
      using insert_Some [of "{c, t}" ?s1 c cth] by auto
    have "rt_current_thread s2 = Some t" by (subst s2(5)) simp
    moreover have "{c, t} - {c} = {t}" using ne by auto
    ultimately show thesis using s2(1-4) True ne by (intro that [of s2]) simp_all
  next
    case False
    obtain "tstate cth = RT_THREAD_SUSPEND \<or> tstate cth = RT_THREAD_CLOSE"
      using tcons_current [OF winv_tcons [OF inv] cur] c b False by auto
    then have "tcons ?s1 c" using winv_tcons [OF inv, of c] c by (auto simp: tcons_def)
    then have "winv ({c, t} - {c}) ?s1" by (rule winv_leave [OF w1])
    moreover have "{c, t} - {c} = {t}" using ne by auto
    ultimately show thesis using False c by (intro that [of ?s1]) (simp_all add: fun_upd_idem)
  qed
qed

lemma switch_Some:
  assumes inv: "sched_inv s" and ne: "t \<noteq> c" and cur: "rt_current_thread s = Some c"
    and c: "threads s c = Some cth" and b: "b \<longleftrightarrow> tstate cth = RT_THREAD_RUNNING"
    and to: "threads s t = Some th" "thread_ok th"
  obtains s' where "schedule_switch c t b h s = Some s'" "sched_inv s'" "rt_current_thread s' = Some t"
    "threads s' = (threads s)(c \<mapsto> (if b then set_state RT_THREAD_READY cth else cth),
        t \<mapsto> set_state RT_THREAD_RUNNING th)"
    "queues s' = (\<lambda>q. removeAll t (if b \<and> q = ReadyQ (unat (current_priority cth))
        then queues s q @ [c] else queues s q))"
proof -
  obtain s2 where s2:
    "(if b then rt_schedule_insert_thread c (s\<lparr>rt_current_priority := of_nat h, rt_current_thread := Some t\<rparr>)
      else Some (s\<lparr>rt_current_priority := of_nat h, rt_current_thread := Some t\<rparr>)) = Some s2"
    "winv {t} s2" "rt_current_thread s2 = Some t"
    "threads s2 = (threads s)(c \<mapsto> (if b then set_state RT_THREAD_READY cth else cth))"
    "queues s2 = (if b then (queues s)(ReadyQ (unat (current_priority cth)) :=
        queues s (ReadyQ (unat (current_priority cth))) @ [c]) else queues s)"
    by (rule switch_from [OF inv ne cur c b])
  have t2: "threads s2 t = Some th" using s2(4) ne to(1) by simp
  have "homed s2 t th" using tcons_homed [OF inv _ to(1)] ne by (auto simp: homed_def s2(5))
  then obtain g where g: "rt_schedule_remove_thread t s2 =
       Some (s2\<lparr>queues := (\<lambda>q. removeAll t (queues s2 q)), rt_thread_ready_priority_group := g\<rparr>)"
    "winv {t} (s2\<lparr>queues := (\<lambda>q. removeAll t (queues s2 q)), rt_thread_ready_priority_group := g\<rparr>)"
    using remove_Some [OF s2(2) t2 thread_ok_prio [OF to(2)]] by auto
  let ?s3 = "s2\<lparr>queues := (\<lambda>q. removeAll t (queues s2 q)), rt_thread_ready_priority_group := g\<rparr>"
  let ?s4 = "upd_thread t (set_state RT_THREAD_RUNNING) ?s3"
  have "tcons ?s4 t" using t2 s2(3) to(2) by (auto simp: tcons_def upd_thread_def nowhere_def)
  then have w: "winv ({t} - {t}) ?s4" by (intro winv_leave winv_upd_thread [OF g(2)]) simp_all
  have "rt_scheduler_stack_check t ?s4 = Some ()"
    using t2 to(2) by (simp add: rt_scheduler_stack_check_def upd_thread_def thread_ok_def stack_overflow_def)
  then have "schedule_switch c t b h s = Some ?s4"
    using s2(1) g(1) ne by (simp add: schedule_switch_def Let_def)
  moreover have "rt_current_thread ?s4 = Some t" using s2(3) by (simp add: upd_thread_def)
  moreover have "threads ?s4 = (threads s)(c \<mapsto> (if b then set_state RT_THREAD_READY cth else cth),
        t \<mapsto> set_state RT_THREAD_RUNNING th)"
    unfolding upd_thread_def using t2 by (simp add: s2(4))
  moreover have "queues ?s4 = (\<lambda>q. removeAll t (if b \<and> q = ReadyQ (unat (current_priority cth))
        then queues s q @ [c] else queues s q))"
    unfolding upd_thread_def using s2(5) by (auto simp: fun_eq_iff)
  ultimately show thesis using w that by auto
qed

lemma winv_upd_inert:
  assumes inv: "winv X s"
    and "\<And>th. threads s t = Some th \<Longrightarrow>
      tstate (f th) = tstate th \<and> thread_ok (f th) = thread_ok th \<and> current_priority (f th) = current_priority th"
  shows "winv X (upd_thread t f s)"
proof -
  have "tcons (upd_thread t f s) t' = tcons s t'" for t'
  proof (cases "t' = t")
    case True
    then show ?thesis using assms(2)
      by (cases "threads s t") (simp_all add: tcons_def upd_thread_def nowhere_def)
  qed (intro tcons_cong, simp_all add: upd_thread_def)
  moreover have "queue_ok (upd_thread t f s) = queue_ok s"
    by (rule queue_ok_cong) (simp_all add: upd_thread_def)
  ultimately show ?thesis using inv by (simp add: winv_def)
qed

lemma rt_schedule_stuck:
  "rt_scheduler_lock_nest s \<noteq> 0 \<or> rt_thread_ready_priority_group s = 0 \<Longrightarrow> rt_schedule s = Some s"
  by (auto simp: rt_schedule_def)

definition clear_yield :: "tid \<Rightarrow> kernel \<Rightarrow> kernel" where
  "clear_yield c s = upd_thread c (stat_update (\<lambda>x. x AND NOT RT_THREAD_STAT_YIELD_MASK)) s"

lemma sched_inv_clear_yield: "winv X s \<Longrightarrow> winv X (clear_yield c s)"
  unfolding clear_yield_def by (rule winv_upd_inert) simp_all

text \<open>
  The two outcomes of a call with the scheduler unlocked and some thread ready: the running thread
  stays, or the head of the first non-empty ready queue takes over, and a thread that was still
  running goes to the end of the ready queue of its priority.
\<close>

abbreviation keeps_cpu :: "rt_thread \<Rightarrow> nat \<Rightarrow> bool" where
  "keeps_cpu cth p \<equiv> unat (current_priority cth) < p \<or>
     unat (current_priority cth) = p \<and> stat cth AND RT_THREAD_STAT_YIELD_MASK = 0"

abbreviation unyield :: "rt_thread \<Rightarrow> rt_thread" where
  "unyield \<equiv> stat_update (\<lambda>x. x AND NOT RT_THREAD_STAT_YIELD_MASK)"

lemma rt_schedule_cases:
  assumes inv: "sched_inv s" and cur: "rt_current_thread s = Some c"
    and run: "rt_scheduler_lock_nest s = 0" "rt_thread_ready_priority_group s \<noteq> 0"
    and hi: "get_highest_priority_thread s = Some (t, p)" "queues s (ReadyQ p) = t # ts"
    and c: "threads s c = Some cth"
  obtains (stay) s' where "rt_schedule s = Some s'" "sched_inv s'" "rt_current_thread s' = Some c"
      "tstate cth = RT_THREAD_RUNNING" "keeps_cpu cth p" "queues s' = queues s"
      "threads s' = (threads s)(c \<mapsto> set_state RT_THREAD_RUNNING (unyield cth))"
    | (switch) s' th where "rt_schedule s = Some s'" "sched_inv s'" "rt_current_thread s' = Some t"
      "tstate cth \<noteq> RT_THREAD_RUNNING \<or> \<not> keeps_cpu cth p" "t \<noteq> c"
      "threads s t = Some th" "unat (current_priority th) = p"
      "threads s' = (threads s)
        (c \<mapsto> (if tstate cth = RT_THREAD_RUNNING then set_state RT_THREAD_READY (unyield cth) else cth),
         t \<mapsto> set_state RT_THREAD_RUNNING th)"
      "queues s' = (\<lambda>q. removeAll t (if tstate cth = RT_THREAD_RUNNING \<and>
            q = ReadyQ (unat (current_priority cth)) then queues s q @ [c] else queues s q))"
proof -
  obtain th where th: "threads s t = Some th" "thread_ok th" "t \<noteq> c" "unat (current_priority th) = p"
    using tcons_ready_mem [OF winv_tcons [OF inv] _ winv_queue_ok [OF inv], of t p] hi(2) cur by auto
  note sched = rt_schedule_def run hi(1) cur c schedule_choose_def
  show thesis
  proof (cases "tstate cth = RT_THREAD_RUNNING")
    case nrun: False
    obtain s' where *: "schedule_switch c t False p s = Some s'" "sched_inv s'" "rt_current_thread s' = Some t"
      "threads s' = (threads s)(c \<mapsto> (if False then set_state RT_THREAD_READY cth else cth),
        t \<mapsto> set_state RT_THREAD_RUNNING th)"
      "queues s' = (\<lambda>q. removeAll t (if False \<and> q = ReadyQ (unat (current_priority cth))
        then queues s q @ [c] else queues s q))"
      by (rule switch_Some [OF inv th(3) cur c _ th(1,2), of False p]) (use nrun in auto)
    have "rt_schedule s = Some s'" using nrun *(1) by (simp add: sched)
    then show thesis using *(2-) nrun th by (intro switch) simp_all
  next
    case r: True
    have inv1: "sched_inv (clear_yield c s)" using inv by (rule sched_inv_clear_yield)
    have cur1: "rt_current_thread (clear_yield c s) = Some c"
      and q1: "queues (clear_yield c s) = queues s"
      and th1: "threads (clear_yield c s) = (threads s)(c \<mapsto> unyield cth)"
      and r1: "tstate (unyield cth) = RT_THREAD_RUNNING"
      using cur c r by (simp_all add: clear_yield_def upd_thread_def)
    have c1: "threads (clear_yield c s) c = Some (unyield cth)"
      and t1: "threads (clear_yield c s) t = Some th" using th1 th by simp_all
    show thesis
    proof (cases "keeps_cpu cth p")
      case True
      obtain s' where *: "schedule_switch c c False p (clear_yield c s) = Some s'" "sched_inv s'"
        "rt_current_thread s' = Some c"
        "threads s' = (threads (clear_yield c s))(c \<mapsto> set_state RT_THREAD_RUNNING (unyield cth))"
        "queues s' = queues (clear_yield c s)"
        using stay_Some [OF inv1 cur1 c1 r1] by metis
      have "rt_schedule s = Some s'" using r True *(1) by (auto simp: sched clear_yield_def)
      then show thesis using *(2-) r True by (intro stay) (simp_all add: q1 th1)
    next
      case False
      obtain s' where *: "schedule_switch c t True p (clear_yield c s) = Some s'" "sched_inv s'"
        "rt_current_thread s' = Some t"
        "threads s' = (threads (clear_yield c s))
          (c \<mapsto> (if True then set_state RT_THREAD_READY (unyield cth) else unyield cth),
           t \<mapsto> set_state RT_THREAD_RUNNING th)"
        "queues s' = (\<lambda>q. removeAll t (if True \<and> q = ReadyQ (unat (current_priority (unyield cth)))
          then queues (clear_yield c s) q @ [c] else queues (clear_yield c s) q))"
        by (rule switch_Some [OF inv1 th(3) cur1 c1 _ t1 th(2), of True p]) (use r1 in auto)
      have "rt_schedule s = Some s'" using r False *(1) by (auto simp: sched clear_yield_def)
      then show thesis using *(2-) r False th by (intro switch [of s' th]) (simp_all add: q1 th1 cong: if_cong)
    qed
  qed
qed

lemma sched_inv_current:
  assumes "sched_inv s" and "rt_current_thread s = Some c"
  obtains cth where "threads s c = Some cth"
    "tstate cth = RT_THREAD_RUNNING \<or> tstate cth = RT_THREAD_SUSPEND \<or> tstate cth = RT_THREAD_CLOSE"
  using tcons_current [OF winv_tcons [OF assms(1)] assms(2)] by auto

lemma rt_schedule_total:
  assumes "sched_inv s" and "rt_current_thread s \<noteq> None"
  obtains s' where "rt_schedule s = Some s'" "sched_inv s'" "rt_current_thread s' \<noteq> None"
    "dom (threads s') = dom (threads s)"
proof (cases "rt_scheduler_lock_nest s \<noteq> 0 \<or> rt_thread_ready_priority_group s = 0")
  case True
  then show thesis using assms that rt_schedule_stuck by blast
next
  case False
  then have run: "rt_scheduler_lock_nest s = 0" "rt_thread_ready_priority_group s \<noteq> 0" by auto
  obtain c where cur: "rt_current_thread s = Some c" using assms(2) by auto
  obtain cth where c: "threads s c = Some cth" using sched_inv_current [OF assms(1) cur] by auto
  obtain t p ts where hi: "get_highest_priority_thread s = Some (t, p)" "queues s (ReadyQ p) = t # ts"
    using get_highest_SomeD [OF winv_queue_ok [OF assms(1)] run(2)] by metis
  show thesis
  proof (cases rule: rt_schedule_cases [OF assms(1) cur run hi c])
    case (1 s')
    then show thesis using c by (intro that [of s']) auto
  next
    case (2 s' th)
    then show thesis using c by (intro that [of s']) auto
  qed
qed

lemma rt_schedule_current_None: "rt_schedule s = Some s' \<Longrightarrow> rt_current_thread s = None \<Longrightarrow> s' = s"
  by (auto simp: rt_schedule_def Let_def split: if_splits bind_splits)

text \<open>C5. \<^verbatim>\<open>rt_schedule\<close> returns from every state of the scheduler (no assertion, stack check or null
  pointer stops it), the invariant that ties the ready bitmap, the ready queues, the thread states
  and the running thread together holds afterwards, and no thread is created or removed.\<close>

theorem rt_schedule_keeps_invariant:
  assumes "sched_inv s" and "rt_current_thread s \<noteq> None"
  shows "\<exists>s'. rt_schedule s = Some s' \<and> sched_inv s' \<and> rt_current_thread s' \<noteq> None \<and>
           dom (threads s') = dom (threads s)"
  using rt_schedule_total [OF assms] by metis

lemma ready_priority_ge:
  assumes inv: "sched_inv s" and hi: "get_highest_priority_thread s = Some (t, p)"
    and g: "rt_thread_ready_priority_group s \<noteq> 0"
    and u: "threads s u = Some uth" "tstate uth = RT_THREAD_READY"
  shows "p \<le> unat (current_priority uth)"
proof -
  have "u \<in> set (queues s (ReadyQ (unat (current_priority uth))))"
    using winv_tcons [OF inv, of u] u by (auto simp: tcons_def)
  moreover obtain p' t' where "get_highest_priority_thread s = Some (t', p')"
    "\<And>p''. p'' < p' \<Longrightarrow> queues s (ReadyQ p'') = []"
    using get_highest_SomeD [OF winv_queue_ok [OF inv] g] by metis
  ultimately show ?thesis using hi by (metis empty_iff empty_set leI option.inject prod.inject)
qed

text \<open>C1. With the scheduler unlocked and some thread ready, the thread that runs after
  \<^verbatim>\<open>rt_schedule\<close> has the highest priority (the least number) of all threads that can run: every
  ready thread has a number at least as large.\<close>

theorem rt_schedule_runs_highest:
  assumes "sched_inv s" and "rt_current_thread s = Some c" and "rt_scheduler_lock_nest s = 0"
    and "rt_thread_ready_priority_group s \<noteq> 0"
  shows "\<exists>s' r rth. rt_schedule s = Some s' \<and> rt_current_thread s' = Some r \<and> threads s' r = Some rth \<and>
           tstate rth = RT_THREAD_RUNNING \<and>
           (\<forall>t th. threads s' t = Some th \<and> tstate th = RT_THREAD_READY \<longrightarrow>
              unat (current_priority rth) \<le> unat (current_priority th))"
proof -
  obtain cth where c: "threads s c = Some cth" using sched_inv_current [OF assms(1,2)] by auto
  obtain t p ts where hi: "get_highest_priority_thread s = Some (t, p)" "queues s (ReadyQ p) = t # ts"
    using get_highest_SomeD [OF winv_queue_ok [OF assms(1)] assms(4)] by metis
  note ge = ready_priority_ge [OF assms(1) hi(1) assms(4)]
  show ?thesis
  proof (cases rule: rt_schedule_cases [OF assms hi c])
    case (1 s')
    have "unat (current_priority cth) \<le> unat (current_priority uth)"
      if "threads s' u = Some uth" "tstate uth = RT_THREAD_READY" for u uth
      using that 1(5,7) ge [of u uth] by (cases "u = c") auto
    then have "\<forall>u uth. threads s' u = Some uth \<and> tstate uth = RT_THREAD_READY \<longrightarrow>
        unat (current_priority cth) \<le> unat (current_priority uth)" by blast
    moreover have "threads s' c = Some (set_state RT_THREAD_RUNNING (unyield cth))" by (simp add: 1(7))
    ultimately show ?thesis using 1(1,3)
      by (intro exI [of _ s'] exI [of _ c] exI [of _ "set_state RT_THREAD_RUNNING (unyield cth)"]) simp
  next
    case (2 s' th)
    have "p \<le> unat (current_priority uth)"
      if "threads s' u = Some uth" "tstate uth = RT_THREAD_READY" for u uth
      using that 2(4,5,8) ge [of u uth] c by (cases "u = c"; cases "u = t") (auto split: if_splits)
    then have "\<forall>u uth. threads s' u = Some uth \<and> tstate uth = RT_THREAD_READY \<longrightarrow>
        unat (current_priority th) \<le> unat (current_priority uth)"
      using 2(7) by blast
    moreover have "threads s' t = Some (set_state RT_THREAD_RUNNING th)" by (simp add: 2(8))
    ultimately show ?thesis using 2(1,3)
      by (intro exI [of _ s'] exI [of _ t] exI [of _ "set_state RT_THREAD_RUNNING th"]) simp
  qed
qed

text \<open>Round robin: a running thread that has its yield flag set (by \<^verbatim>\<open>rt_thread_yield\<close> or by the
  tick when its time slice is over) and meets ready threads of its own priority, none being of a higher
  one, hands over to the first of them and queues up as the last, so with \<open>n\<close> threads in the queue
  it runs again after all \<open>n\<close> of them had the processor.\<close>

theorem rt_schedule_round_robin:
  assumes "sched_inv s" and "rt_current_thread s = Some c" and "rt_scheduler_lock_nest s = 0"
    and "threads s c = Some cth" and "tstate cth = RT_THREAD_RUNNING"
    and "stat cth AND RT_THREAD_STAT_YIELD_MASK \<noteq> 0"
    and "queues s (ReadyQ (unat (current_priority cth))) = t # ts"
    and "\<forall>p < unat (current_priority cth). queues s (ReadyQ p) = []"
  shows "\<exists>s'. rt_schedule s = Some s' \<and> rt_current_thread s' = Some t \<and>
           queues s' (ReadyQ (unat (current_priority cth))) = ts @ [c] \<and>
           (\<forall>q. q \<noteq> ReadyQ (unat (current_priority cth)) \<longrightarrow> queues s' q = queues s q)"
proof -
  let ?p = "unat (current_priority cth)"
  have q: "queue_ok s" using assms(1) by (rule winv_queue_ok)
  then have g: "rt_thread_ready_priority_group s \<noteq> 0"
    using assms(7) by (metis bit_0_eq bot_apply bot_bool_def list.distinct(1) queue_ok_def)
  obtain t' p' ts' where hi: "get_highest_priority_thread s = Some (t', p')" "queues s (ReadyQ p') = t' # ts'"
    "\<And>p''. p'' < p' \<Longrightarrow> queues s (ReadyQ p'') = []"
    using get_highest_SomeD [OF q g] by metis
  have p': "p' = ?p" using hi(2,3) assms(7,8) by (metis linorder_neqE_nat list.distinct(1))
  then have t': "t' = t" "ts' = ts" using hi(2) assms(7) by simp_all
  have other: "t \<notin> set (queues s q')" if "q' \<noteq> ReadyQ ?p" for q'
    using q that assms(7) unfolding queue_ok_def by (metis list.set_intros(1))
  have ts: "t \<notin> set ts" using q assms(7) unfolding queue_ok_def by (metis distinct.simps(2))
  show ?thesis
  proof (cases rule: rt_schedule_cases [OF assms(1-3) g hi(1,2) assms(4)])
    case (1 s')
    then show ?thesis using assms(6) p' by simp
  next
    case (2 s' th)
    then show ?thesis using assms(5,7) t' ts other by (intro exI [of _ s']) auto
  qed
qed


section \<open>A small system\<close>

text \<open>
  The idle thread 0 of priority 31 and thread 2 of priority 10 are ready, thread 1 of priority 10
  runs (its yield flag is a parameter), thread 3 of priority 5 waits for semaphore 0 and thread 4
  was initialised and not started.
\<close>

definition demo_thread :: "u8 \<Rightarrow> nat \<Rightarrow> rt_thread" where
  "demo_thread st p = \<lparr>th_type = 0x81, sp = 0x20000100, th_entry = 0, th_parameter = 0,
     stack_addr = 0x20000000, stack_size = 0x200, stack_guard = 0x23, th_error = 0, stat = st,
     current_priority = of_nat p, init_priority = of_nat p, number_mask = push_bit p 1,
     event_set = 0, event_info = 0, init_tick = 20, remaining_tick = 20\<rparr>"

definition demo_timer :: "nat \<Rightarrow> rt_timer" where
  "demo_timer t = \<lparr>tm_type = 0x8a, tm_flag = 0, timeout_func = Fn_rt_thread_timeout,
     tm_parameter = t, tm_init_tick = 0, timeout_tick = 0\<rparr>"

definition demo_kernel :: "u8 \<Rightarrow> kernel" where
  "demo_kernel y = \<lparr>
     threads = [0 \<mapsto> demo_thread RT_THREAD_READY 31, 1 \<mapsto> demo_thread (RT_THREAD_RUNNING OR y) 10,
       2 \<mapsto> demo_thread RT_THREAD_READY 10, 3 \<mapsto> demo_thread RT_THREAD_SUSPEND 5,
       4 \<mapsto> demo_thread RT_THREAD_INIT 7],
     timers = (\<lambda>m. case m of ThreadTimer t \<Rightarrow> if t < 5 then Some (demo_timer t) else None | Timer _ \<Rightarrow> None),
     sems = [0 \<mapsto> \<lparr>sem_type = 0x82, sem_flag = 0, sem_value = 0\<rparr>],
     mutexes = Map.empty, events = Map.empty, mailboxes = Map.empty, msgqueues = Map.empty,
     mempools = Map.empty, devices = Map.empty, completions = Map.empty, pool_mem = Map.empty, object_list = (\<lambda>_. []), obj_name = (\<lambda>_. []),
     queues = (\<lambda>_. [])(ReadyQ 10 := [2], ReadyQ 31 := [0], SemQ 0 := [3]),
     timer_queues = (\<lambda>_. []),
     rt_thread_ready_priority_group = 0x80000400,
     rt_scheduler_lock_nest = 0, rt_current_thread = Some 1, rt_current_priority = 10,
     rt_interrupt_nest = 0, rt_tick = 0, soft_timer_status = 1, timer_thread = 5, random_nr = 0\<rparr>"

lemma demo_thread_ok: "p < 32 \<Longrightarrow> thread_ok (demo_thread st p)"
  by (simp add: thread_ok_def prio_ok_def stack_overflow_def demo_thread_def unat_of_nat)

lemma demo_fields [simp]:
  "rt_current_thread (demo_kernel y) = Some 1" "rt_scheduler_lock_nest (demo_kernel y) = 0"
  "rt_thread_ready_priority_group (demo_kernel y) = 0x80000400"
  "rt_interrupt_nest (demo_kernel y) = 0" "stat (demo_thread st p) = st"
  "current_priority (demo_thread st p) = of_nat p"
  "queues (demo_kernel y) = (\<lambda>_. [])(ReadyQ 10 := [2], ReadyQ 31 := [0], SemQ 0 := [3])"
  "threads (demo_kernel y) = [0 \<mapsto> demo_thread RT_THREAD_READY 31,
     1 \<mapsto> demo_thread (RT_THREAD_RUNNING OR y) 10, 2 \<mapsto> demo_thread RT_THREAD_READY 10,
     3 \<mapsto> demo_thread RT_THREAD_SUSPEND 5, 4 \<mapsto> demo_thread RT_THREAD_INIT 7]"
  by (simp_all add: demo_kernel_def demo_thread_def)

lemma bit_two_masks:
  "a < 32 \<Longrightarrow> b < 32 \<Longrightarrow> bit (push_bit a (1 :: u32) OR push_bit b 1) p \<longleftrightarrow> p = a \<or> p = b"
  by (auto simp: bit_or_iff bit_exp_iff)

lemma demo_queue_ok: "queue_ok (demo_kernel y)"
proof -
  have "bit (0x80000400 :: u32) p \<longleftrightarrow> p = 10 \<or> p = 31" for p
    using bit_two_masks [of 10 31 p] by simp
  then show ?thesis unfolding queue_ok_def demo_fields by (simp split: if_split) fastforce
qed

lemma demo_inv: "y = 0 \<or> y = RT_THREAD_STAT_YIELD \<Longrightarrow> sched_inv (demo_kernel y)"
proof -
  assume y: "y = 0 \<or> y = RT_THREAD_STAT_YIELD"
  have "tcons (demo_kernel y) t" for t
  proof -
    consider "t = 0" | "t = 1" | "t = 2" | "t = 3" | "t = 4" | "4 < t" by linarith
    then show ?thesis using y by cases (auto simp: tcons_def nowhere_def demo_thread_ok)
  qed
  then show ?thesis by (simp add: winv_def demo_queue_ok)
qed

theorem rt_schedule_keeps_invariant_witness:
  "\<exists>s'. rt_schedule (demo_kernel 8) = Some s' \<and> sched_inv s' \<and> rt_current_thread s' \<noteq> None \<and>
     dom (threads s') = dom (threads (demo_kernel 8))"
  using rt_schedule_keeps_invariant [of "demo_kernel 8"] demo_inv by simp

theorem rt_schedule_runs_highest_witness:
  "\<exists>s' r rth. rt_schedule (demo_kernel 0) = Some s' \<and> rt_current_thread s' = Some r \<and>
     threads s' r = Some rth \<and> tstate rth = RT_THREAD_RUNNING \<and>
     (\<forall>t th. threads s' t = Some th \<and> tstate th = RT_THREAD_READY \<longrightarrow>
        unat (current_priority rth) \<le> unat (current_priority th))"
  by (rule rt_schedule_runs_highest [of "demo_kernel 0" 1]) (use demo_inv in simp_all)

theorem rt_schedule_round_robin_witness:
  "\<exists>s'. rt_schedule (demo_kernel 8) = Some s' \<and> rt_current_thread s' = Some 2 \<and>
     queues s' (ReadyQ 10) = [1] \<and> queues s' (ReadyQ 31) = [0]"
proof -
  have "sched_inv (demo_kernel 8)" using demo_inv by simp
  note rr = rt_schedule_round_robin [OF this, of 1 "demo_thread (RT_THREAD_RUNNING OR 8) 10" 2 "[]"]
  from rr show ?thesis by auto
qed

end
