(* ===== verification/Object.thy ===== *)
theory Object
  imports SchedInv
begin

text \<open>
  The object container of \<^verbatim>\<open>rt-thread/src/object.c\<close>: one list of objects per class, to which
  \<^verbatim>\<open>rt_object_init\<close> and \<^verbatim>\<open>rt_object_allocate\<close> add and from which \<^verbatim>\<open>rt_object_detach\<close> and
  \<^verbatim>\<open>rt_object_delete\<close> remove. The type byte is a field of the object's control block. The memory
  allocator's answer is an argument of the functions that allocate.
\<close>

section \<open>Operations\<close>

text \<open>
  \<^verbatim>\<open>rt_strncpy\<close> and \<^verbatim>\<open>rt_strncmp\<close> of \<^verbatim>\<open>kservice.c\<close>. A C string is the list of its characters without the
  terminator, which is read past the end of the list; the first argument is the count.
\<close>

fun rt_strncpy :: "nat \<Rightarrow> string \<Rightarrow> string" where
  "rt_strncpy 0 src = []"
| "rt_strncpy (Suc n) [] = CHR 0x00 # replicate n (CHR 0x00)"
| "rt_strncpy (Suc n) (c # src) =
     (if c = CHR 0x00 then CHR 0x00 # replicate n (CHR 0x00) else c # rt_strncpy n src)"

definition char_at :: "string \<Rightarrow> char" where
  "char_at cs = (case cs of [] \<Rightarrow> CHR 0x00 | c # _ \<Rightarrow> c)"

fun rt_strncmp :: "nat \<Rightarrow> string \<Rightarrow> string \<Rightarrow> int" where
  "rt_strncmp 0 cs ct = 0"
| "rt_strncmp (Suc n) cs ct =
     (let res = signed_take_bit 7 (of_char (char_at cs) - of_char (char_at ct)) in
      if res \<noteq> 0 \<or> char_at cs = CHR 0x00 then res else rt_strncmp n (tl cs) (tl ct))"

text \<open>\<^verbatim>\<open>rt_object_get_information\<close>: whether this configuration has a container entry for the class.\<close>

definition rt_object_get_information :: "u8 \<Rightarrow> bool" where
  "rt_object_get_information ty \<longleftrightarrow>
     ty \<in> set [RT_Object_Class_Thread, RT_Object_Class_Semaphore, RT_Object_Class_Mutex,
         RT_Object_Class_Event, RT_Object_Class_MailBox, RT_Object_Class_MessageQueue,
         RT_Object_Class_MemPool, RT_Object_Class_Device, RT_Object_Class_Timer]"

definition set_object_type :: "objref \<Rightarrow> u8 \<Rightarrow> kernel \<Rightarrow> kernel" where
  [rt_defs]: "set_object_type obj ty s = (case obj of
       ThreadObj t \<Rightarrow> upd_thread t (th_type_update (\<lambda>_. ty)) s
     | TimerObj m \<Rightarrow> upd_timer m (tm_type_update (\<lambda>_. ty)) s
     | SemObj i \<Rightarrow> s\<lparr>sems := (sems s)(i := map_option (sem_type_update (\<lambda>_. ty)) (sems s i))\<rparr>
     | MutexObj i \<Rightarrow> s\<lparr>mutexes := (mutexes s)(i := map_option (mutex_type_update (\<lambda>_. ty)) (mutexes s i))\<rparr>
     | EventObj i \<Rightarrow> s\<lparr>events := (events s)(i := map_option (event_type_update (\<lambda>_. ty)) (events s i))\<rparr>
     | MbObj i \<Rightarrow> s\<lparr>mailboxes := (mailboxes s)(i := map_option (mb_type_update (\<lambda>_. ty)) (mailboxes s i))\<rparr>
     | MqObj i \<Rightarrow> s\<lparr>msgqueues := (msgqueues s)(i := map_option (mq_type_update (\<lambda>_. ty)) (msgqueues s i))\<rparr>
     | MpObj i \<Rightarrow> s\<lparr>mempools := (mempools s)(i := map_option (mp_type_update (\<lambda>_. ty)) (mempools s i))\<rparr>
     | DevObj i \<Rightarrow> s\<lparr>devices := (devices s)(i := map_option (dev_type_update (\<lambda>_. ty)) (devices s i))\<rparr>)"

definition object_type :: "objref \<Rightarrow> kernel \<Rightarrow> u8 option" where
  "object_type obj s = (case obj of
       ThreadObj t \<Rightarrow> map_option th_type (threads s t)
     | TimerObj m \<Rightarrow> map_option tm_type (timers s m)
     | SemObj i \<Rightarrow> map_option sem_type (sems s i)
     | MutexObj i \<Rightarrow> map_option mutex_type (mutexes s i)
     | EventObj i \<Rightarrow> map_option event_type (events s i)
     | MbObj i \<Rightarrow> map_option mb_type (mailboxes s i)
     | MqObj i \<Rightarrow> map_option mq_type (msgqueues s i)
     | MpObj i \<Rightarrow> map_option mp_type (mempools s i)
     | DevObj i \<Rightarrow> map_option dev_type (devices s i))"

definition object_list_insert_after :: "u8 \<Rightarrow> objref \<Rightarrow> kernel \<Rightarrow> kernel" where
  [rt_defs]: "object_list_insert_after c obj s =
     s\<lparr>object_list := (object_list s)(c := obj # object_list s c)\<rparr>"

definition object_list_remove :: "objref \<Rightarrow> kernel \<Rightarrow> kernel" where
  [rt_defs]: "object_list_remove obj s = s\<lparr>object_list := (\<lambda>c. removeAll obj (object_list s c))\<rparr>"

definition rt_object_get_length :: "u8 \<Rightarrow> kernel \<Rightarrow> nat" where
  "rt_object_get_length ty s =
     (if rt_object_get_information ty then length (object_list s ty) else 0)"

text \<open>The pointers copied to the caller's array; its length is the returned index.\<close>

definition rt_object_get_pointers :: "u8 \<Rightarrow> int \<Rightarrow> kernel \<Rightarrow> objref list" where
  "rt_object_get_pointers ty maxlen s =
     (if maxlen \<le> 0 then [] else if \<not> rt_object_get_information ty then []
      else take (nat maxlen) (object_list s ty))"

definition rt_object_init :: "objref \<Rightarrow> u8 \<Rightarrow> string \<Rightarrow> kernel \<Rightarrow> kernel option" where
  "rt_object_init obj ty name s = do {
     rt_assert (rt_object_get_information ty);
     let s1 = rt_enter_critical s;
     rt_assert (obj \<notin> set (object_list s1 ty));
     s2 \<leftarrow> rt_exit_critical s1;
     let s3 = set_object_type obj (ty OR RT_Object_Class_Static) s2;
     let s4 = s3\<lparr>obj_name := (obj_name s3)(obj := rt_strncpy 8 name)\<rparr>;
     Some (object_list_insert_after ty obj s4) }"

definition rt_object_detach :: "objref \<Rightarrow> kernel \<Rightarrow> kernel" where
  "rt_object_detach obj s = object_list_remove obj (set_object_type obj 0 s)"

text \<open>\<open>mem\<close> is what \<^verbatim>\<open>RT_KERNEL_MALLOC\<close> returned; the control block is cleared by the caller's model.\<close>

definition rt_object_allocate :: "objref option \<Rightarrow> u8 \<Rightarrow> string \<Rightarrow> kernel \<Rightarrow> (kernel \<times> objref option) option" where
  "rt_object_allocate mem ty name s = do {
     RT_DEBUG_NOT_IN_INTERRUPT s;
     rt_assert (rt_object_get_information ty);
     case mem of None \<Rightarrow> Some (s, None)
     | Some obj \<Rightarrow> do {
         let s1 = set_object_type obj ty s;
         let s2 = s1\<lparr>obj_name := (obj_name s1)(obj := rt_strncpy 8 name)\<rparr>;
         Some (object_list_insert_after ty obj s2, Some obj) } }"

definition free_object :: "objref \<Rightarrow> kernel \<Rightarrow> kernel" where
  [rt_defs]: "free_object obj s = (case obj of
       ThreadObj t \<Rightarrow> s\<lparr>threads := (threads s)(t := None)\<rparr>
     | TimerObj m \<Rightarrow> s\<lparr>timers := (timers s)(m := None)\<rparr>
     | SemObj i \<Rightarrow> s\<lparr>sems := (sems s)(i := None)\<rparr>
     | MutexObj i \<Rightarrow> s\<lparr>mutexes := (mutexes s)(i := None)\<rparr>
     | EventObj i \<Rightarrow> s\<lparr>events := (events s)(i := None)\<rparr>
     | MbObj i \<Rightarrow> s\<lparr>mailboxes := (mailboxes s)(i := None)\<rparr>
     | MqObj i \<Rightarrow> s\<lparr>msgqueues := (msgqueues s)(i := None)\<rparr>
     | MpObj i \<Rightarrow> s\<lparr>mempools := (mempools s)(i := None)\<rparr>
     | DevObj i \<Rightarrow> s\<lparr>devices := (devices s)(i := None)\<rparr>)"

definition rt_object_delete :: "objref \<Rightarrow> kernel \<Rightarrow> kernel option" where
  "rt_object_delete obj s = do {
     ty \<leftarrow> object_type obj s;
     rt_assert (ty AND RT_Object_Class_Static = 0);
     Some (free_object obj (object_list_remove obj (set_object_type obj 0 s))) }"

definition rt_object_find :: "string \<Rightarrow> u8 \<Rightarrow> kernel \<Rightarrow> (kernel \<times> objref option) option" where
  "rt_object_find name ty s =
     (if \<not> rt_object_get_information ty then Some (s, None)
      else do {
        RT_DEBUG_NOT_IN_INTERRUPT s;
        let s1 = rt_enter_critical s;
        let r = find (\<lambda>obj. rt_strncmp 8 (obj_name s1 obj) name = 0) (object_list s1 ty);
        s2 \<leftarrow> rt_exit_critical s1;
        Some (s2, r) })"


section \<open>What the scheduler leaves unchanged\<close>

definition sched_frame :: "kernel \<Rightarrow> kernel \<Rightarrow> bool" where
  "sched_frame s s' \<longleftrightarrow> sems s' = sems s \<and> mutexes s' = mutexes s \<and> events s' = events s \<and>
     mailboxes s' = mailboxes s \<and> msgqueues s' = msgqueues s \<and> mempools s' = mempools s \<and> devices s' = devices s \<and> completions s' = completions s \<and>
     pool_mem s' = pool_mem s \<and> object_list s' = object_list s \<and> obj_name s' = obj_name s \<and>
     rt_scheduler_lock_nest s' = rt_scheduler_lock_nest s \<and> rt_interrupt_nest s' = rt_interrupt_nest s \<and>
     rt_tick s' = rt_tick s \<and> soft_timer_status s' = soft_timer_status s \<and>
     timer_thread s' = timer_thread s"

abbreviation timers_frame :: "kernel \<Rightarrow> kernel \<Rightarrow> bool" where
  "timers_frame s s' \<equiv> timers s' = timers s \<and> timer_queues s' = timer_queues s"

lemma sched_frame_refl [simp]: "sched_frame s s"
  by (simp add: sched_frame_def)

lemma sched_frame_trans: "sched_frame s s' \<Longrightarrow> sched_frame s' s'' \<Longrightarrow> sched_frame s s''"
  by (simp add: sched_frame_def)

lemma remove_frame:
  "rt_schedule_remove_thread t s = Some s' \<Longrightarrow> sched_frame s s' \<and> timers_frame s s'"
  by (auto simp: rt_schedule_remove_thread_def list_remove_def sched_frame_def Let_def
      split: bind_splits if_splits)

lemma insert_frame:
  "rt_schedule_insert_thread t s = Some s' \<Longrightarrow> sched_frame s s' \<and> timers_frame s s'"
  by (auto simp: rt_schedule_insert_thread_def list_insert_before_def upd_thread_def sched_frame_def Let_def
      split: bind_splits if_splits)

lemma upd_thread_frame: "sched_frame s (upd_thread t f s) \<and> timers_frame s (upd_thread t f s)"
  by (simp_all add: upd_thread_def sched_frame_def)

lemma switch_frame:
  assumes "schedule_switch c t b h s = Some s'"
  shows "sched_frame s s' \<and> timers_frame s s'"
proof (cases "t = c")
  case True
  then show ?thesis using assms remove_frame [of c s]
    by (auto simp: schedule_switch_def upd_thread_def sched_frame_def split: bind_splits)
next
  case False
  let ?s1 = "s\<lparr>rt_current_priority := of_nat h, rt_current_thread := Some t\<rparr>"
  have 1: "sched_frame s ?s1 \<and> timers_frame s ?s1" by (simp add: sched_frame_def)
  obtain s2 s3 where 2: "(if b then rt_schedule_insert_thread c ?s1 else Some ?s1) = Some s2"
    and 3: "rt_schedule_remove_thread t s2 = Some s3" and 4: "s' = upd_thread t (set_state 3) s3"
    using assms False by (auto simp: schedule_switch_def Let_def split: bind_splits)
  have "sched_frame ?s1 s2 \<and> timers_frame ?s1 s2" using 2 insert_frame [of c ?s1 s2] by (cases b) auto
  then show ?thesis using 1 remove_frame [OF 3] upd_thread_frame [of s3 t "set_state 3"] 4
    by (auto intro: sched_frame_trans)
qed

lemma rt_schedule_frame:
  assumes "rt_schedule s = Some s'"
  shows "sched_frame s s' \<and> timers_frame s s'"
proof -
  have "sched_frame s1 s' \<and> timers_frame s1 s'" if "schedule_switch c t b h s1 = Some s'" for c t b h s1
    using switch_frame [OF that] .
  then show ?thesis using assms unfolding rt_schedule_def
    by (auto simp: upd_thread_def sched_frame_def Let_def split: bind_splits if_splits prod.splits)
qed

text \<open>
  \<^verbatim>\<open>rt_schedule\<close> changes nothing of a thread but its state, between ready and running, and its
  yield flag.
\<close>

definition same_thread :: "rt_thread \<Rightarrow> rt_thread \<Rightarrow> bool" where
  "same_thread th th' \<longleftrightarrow> (\<exists>x. th' = th\<lparr>stat := x\<rparr>) \<and>
    (tstate th' = tstate th \<or> tstate th \<in> {RT_THREAD_READY, RT_THREAD_RUNNING} \<and>
        tstate th' \<in> {RT_THREAD_READY, RT_THREAD_RUNNING})"

lemma same_thread_refl [simp]: "same_thread th th"
proof -
  have "th = th\<lparr>stat := stat th\<rparr>" by simp
  then show ?thesis unfolding same_thread_def by blast
qed

lemma same_threadI:
  "th' = th\<lparr>stat := x\<rparr> \<Longrightarrow> tstate th \<in> {RT_THREAD_READY, RT_THREAD_RUNNING} \<Longrightarrow>
     tstate th' \<in> {RT_THREAD_READY, RT_THREAD_RUNNING} \<Longrightarrow> same_thread th th'"
  unfolding same_thread_def by blast

lemma rt_schedule_same_threads:
  assumes inv: "sched_inv s" and r: "rt_schedule s = Some s'" and th: "threads s t = Some th"
  obtains th' where "threads s' t = Some th'" "same_thread th th'"
proof (cases "rt_scheduler_lock_nest s \<noteq> 0 \<or> rt_thread_ready_priority_group s = 0")
  case True
  then have "s' = s" using r rt_schedule_stuck by simp
  then show thesis using that th by simp
next
  case False
  then have run: "rt_scheduler_lock_nest s = 0" "rt_thread_ready_priority_group s \<noteq> 0" by auto
  obtain h p ts where hi: "get_highest_priority_thread s = Some (h, p)" "queues s (ReadyQ p) = h # ts"
    using get_highest_SomeD [OF winv_queue_ok [OF inv] run(2)] by metis
  obtain c where cur: "rt_current_thread s = Some c"
    using r run hi by (cases "rt_current_thread s") (auto simp: rt_schedule_def)
  obtain cth where c: "threads s c = Some cth" using sched_inv_current [OF inv cur] by auto
  obtain hth where h: "threads s h = Some hth" "tstate hth = RT_THREAD_READY"
    using tcons_ready_mem [OF winv_tcons [OF inv] _ winv_queue_ok [OF inv], of h p] hi(2) by auto
  show thesis
  proof (cases rule: rt_schedule_cases [OF inv cur run hi c])
    case (1 s1)
    have "same_thread cth (set_state 3 (unyield cth))"
      using 1(4) by (intro same_threadI) (simp_all add: set_state_def)
    with 1 r th c show thesis by (intro that [of "if t = c then set_state 3 (unyield cth) else th"]) auto
  next
    case (2 s1 hth')
    have "same_thread cth (set_state 1 (unyield cth))" if "tstate cth = 3"
      using that by (intro same_threadI) (simp_all add: set_state_def)
    moreover have "same_thread hth (set_state 3 hth)"
      using h(2) by (intro same_threadI) (simp_all add: set_state_def)
    ultimately show thesis using 2 r th c h
      by (intro that [of "if t = h then set_state 3 hth else if t = c \<and> tstate cth = 3
            then set_state 1 (unyield cth) else th"]) auto
  qed
qed

lemma same_threadD:
  assumes "same_thread th th'"
  shows "th_type th' = th_type th" "current_priority th' = current_priority th"
    "init_priority th' = init_priority th" "number_mask th' = number_mask th"
    "th_error th' = th_error th" "event_set th' = event_set th" "event_info th' = event_info th"
    "tstate th = RT_THREAD_SUSPEND \<longleftrightarrow> tstate th' = RT_THREAD_SUSPEND"
    "tstate th = RT_THREAD_CLOSE \<longleftrightarrow> tstate th' = RT_THREAD_CLOSE"
    "tstate th = RT_THREAD_INIT \<longleftrightarrow> tstate th' = RT_THREAD_INIT"
  using assms by (auto simp: same_thread_def)

end
