(* ===== verification/TimerBase.thy ===== *)
theory TimerBase
  imports Object
begin

text \<open>
  The part of \<^verbatim>\<open>rt-thread/src/timer.c\<close> that \<^verbatim>\<open>thread.c\<close> builds on: initialising, stopping,
  detaching and controlling timers. Starting and running timers follow in theory \<open>TimerRun\<close>.
\<close>

abbreviation (input) RT_TIMER_CTRL_SET_TIME :: nat where "RT_TIMER_CTRL_SET_TIME \<equiv> 0x0"
abbreviation (input) RT_TIMER_CTRL_GET_TIME :: nat where "RT_TIMER_CTRL_GET_TIME \<equiv> 0x1"
abbreviation (input) RT_TIMER_CTRL_SET_ONESHOT :: nat where "RT_TIMER_CTRL_SET_ONESHOT \<equiv> 0x2"
abbreviation (input) RT_TIMER_CTRL_SET_PERIODIC :: nat where "RT_TIMER_CTRL_SET_PERIODIC \<equiv> 0x3"
abbreviation (input) RT_TIMER_CTRL_GET_STATE :: nat where "RT_TIMER_CTRL_GET_STATE \<equiv> 0x4"

section \<open>Operations\<close>

definition timer_remove :: "timer_id \<Rightarrow> kernel \<Rightarrow> kernel" where
  [rt_defs]: "timer_remove m s = s\<lparr>timer_queues := (\<lambda>q. removeAll m (timer_queues s q))\<rparr>"

text \<open>\<^verbatim>\<open>timer->parent.flag &= ~RT_TIMER_FLAG_ACTIVATED\<close>\<close>

definition deactivate :: "rt_timer \<Rightarrow> rt_timer" where
  "deactivate tm = tm\<lparr>tm_flag := tm_flag tm AND NOT RT_TIMER_FLAG_ACTIVATED\<rparr>"

text \<open>
  \<^verbatim>\<open>_rt_timer_init\<close>. Its \<^verbatim>\<open>rt_list_init(&(timer->row[i]))\<close> makes the node a list of its own; the
  object check before it excludes a timer that is still in a list.
\<close>

definition timer_init :: "timer_id \<Rightarrow> timeout_fn \<Rightarrow> nat \<Rightarrow> u32 \<Rightarrow> u8 \<Rightarrow> kernel \<Rightarrow> kernel" where
  "timer_init m timeout parameter time flag s =
     timer_remove m (upd_timer m (\<lambda>tm. deactivate (tm\<lparr>tm_flag := flag\<rparr>)
       \<lparr>timeout_func := timeout, tm_parameter := parameter, timeout_tick := 0, tm_init_tick := time\<rparr>) s)"

text \<open>A control block that was never used reads as zeroes (static storage, or cleared by the allocator).\<close>

definition zero_timer :: rt_timer where
  "zero_timer = \<lparr>tm_type = 0, tm_flag = 0, timeout_func = Fn_other 0, tm_parameter = 0,
     tm_init_tick = 0, timeout_tick = 0\<rparr>"

definition touch_timer :: "timer_id \<Rightarrow> kernel \<Rightarrow> kernel" where
  "touch_timer m s = (case timers s m of None \<Rightarrow> s\<lparr>timers := (timers s)(m \<mapsto> zero_timer)\<rparr> | Some _ \<Rightarrow> s)"

definition rt_timer_init :: "timer_id \<Rightarrow> string \<Rightarrow> timeout_fn \<Rightarrow> nat \<Rightarrow> u32 \<Rightarrow> u8 \<Rightarrow> kernel \<Rightarrow> kernel option" where
  "rt_timer_init m name timeout parameter time flag s = do {
     s1 \<leftarrow> rt_object_init (TimerObj m) RT_Object_Class_Timer name (touch_timer m s);
     Some (timer_init m timeout parameter time flag s1) }"

definition rt_timer_detach :: "timer_id \<Rightarrow> kernel \<Rightarrow> (kernel \<times> rt_err_t) option" where
  "rt_timer_detach m s = do {
     tm \<leftarrow> timers s m;
     rt_assert (rt_object_get_type (tm_type tm) = RT_Object_Class_Timer);
     rt_assert (rt_object_is_systemobject (tm_type tm));
     Some (rt_object_detach (TimerObj m) (upd_timer m deactivate (timer_remove m s)), RT_EOK) }"

definition rt_timer_create :: "timer_id option \<Rightarrow> string \<Rightarrow> timeout_fn \<Rightarrow> nat \<Rightarrow> u32 \<Rightarrow> u8 \<Rightarrow> kernel
     \<Rightarrow> (kernel \<times> timer_id option) option" where
  "rt_timer_create mem name timeout parameter time flag s = do {
     let s0 = (case mem of None \<Rightarrow> s | Some m \<Rightarrow> s\<lparr>timers := (timers s)(m \<mapsto> zero_timer)\<rparr>);
     (s1, r) \<leftarrow> rt_object_allocate (map_option TimerObj mem) RT_Object_Class_Timer name s0;
     case mem of None \<Rightarrow> Some (s1, None)
     | Some m \<Rightarrow> Some (timer_init m timeout parameter time flag s1, Some m) }"

definition rt_timer_delete :: "timer_id \<Rightarrow> kernel \<Rightarrow> (kernel \<times> rt_err_t) option" where
  "rt_timer_delete m s = do {
     tm \<leftarrow> timers s m;
     rt_assert (rt_object_get_type (tm_type tm) = RT_Object_Class_Timer);
     rt_assert (\<not> rt_object_is_systemobject (tm_type tm));
     s1 \<leftarrow> rt_object_delete (TimerObj m) (upd_timer m deactivate (timer_remove m s));
     Some (s1, RT_EOK) }"

definition rt_timer_stop :: "timer_id \<Rightarrow> kernel \<Rightarrow> (kernel \<times> rt_err_t) option" where
  "rt_timer_stop m s = do {
     tm \<leftarrow> timers s m;
     rt_assert (rt_object_get_type (tm_type tm) = RT_Object_Class_Timer);
     if tm_flag tm AND RT_TIMER_FLAG_ACTIVATED = 0 then Some (s, - RT_ERROR)
     else Some (upd_timer m deactivate (timer_remove m s), RT_EOK) }"

text \<open>The last component of the result is \<^verbatim>\<open>*arg\<close> afterwards.\<close>

definition rt_timer_control :: "timer_id \<Rightarrow> nat \<Rightarrow> u32 \<Rightarrow> kernel \<Rightarrow> (kernel \<times> rt_err_t \<times> u32) option" where
  "rt_timer_control m cmd arg s = do {
     tm \<leftarrow> timers s m;
     rt_assert (rt_object_get_type (tm_type tm) = RT_Object_Class_Timer);
     Some (if cmd = RT_TIMER_CTRL_GET_TIME then (s, RT_EOK, tm_init_tick tm)
       else if cmd = RT_TIMER_CTRL_SET_TIME
         then (upd_timer m (tm_init_tick_update (\<lambda>_. arg)) s, RT_EOK, arg)
       else if cmd = RT_TIMER_CTRL_SET_ONESHOT
         then (upd_timer m (tm_flag_update (\<lambda>f. f AND NOT RT_TIMER_FLAG_PERIODIC)) s, RT_EOK, arg)
       else if cmd = RT_TIMER_CTRL_SET_PERIODIC
         then (upd_timer m (tm_flag_update (\<lambda>f. f OR RT_TIMER_FLAG_PERIODIC)) s, RT_EOK, arg)
       else if cmd = RT_TIMER_CTRL_GET_STATE
         then (s, RT_EOK, if tm_flag tm AND RT_TIMER_FLAG_ACTIVATED \<noteq> 0 then 1 else 0)
       else (s, RT_EOK, arg)) }"

definition rt_timer_list_next_timeout :: "tqid \<Rightarrow> kernel \<Rightarrow> u32 option" where
  "rt_timer_list_next_timeout q s = (case timer_queues s q of
       [] \<Rightarrow> Some RT_TICK_MAX
     | m # _ \<Rightarrow> map_option timeout_tick (timers s m))"

definition rt_timer_next_timeout_tick :: "kernel \<Rightarrow> u32 option" where
  "rt_timer_next_timeout_tick s = rt_timer_list_next_timeout HardTimers s"

definition rt_system_timer_init :: "kernel \<Rightarrow> kernel" where
  "rt_system_timer_init s = s\<lparr>timer_queues := (timer_queues s)(HardTimers := [])\<rparr>"

section \<open>Thread suspension: thread.c\<close>

definition rt_thread_suspend :: "tid \<Rightarrow> kernel \<Rightarrow> (kernel \<times> rt_err_t) option" where
  "rt_thread_suspend t s = do {
     th \<leftarrow> threads s t;
     rt_assert (rt_object_get_type (th_type th) = RT_Object_Class_Thread);
     if tstate th \<noteq> RT_THREAD_READY \<and> tstate th \<noteq> RT_THREAD_RUNNING then Some (s, - RT_ERROR)
     else do {
       rt_assert (tstate th = RT_THREAD_RUNNING \<longrightarrow> rt_thread_self s = Some t);
       s1 \<leftarrow> rt_schedule_remove_thread t s;
       let s2 = upd_thread t (set_state RT_THREAD_SUSPEND) s1;
       (s3, _) \<leftarrow> rt_timer_stop (ThreadTimer t) s2;
       Some (s3, RT_EOK) } }"

definition rt_thread_resume :: "tid \<Rightarrow> kernel \<Rightarrow> (kernel \<times> rt_err_t) option" where
  "rt_thread_resume t s = do {
     th \<leftarrow> threads s t;
     rt_assert (rt_object_get_type (th_type th) = RT_Object_Class_Thread);
     if tstate th \<noteq> RT_THREAD_SUSPEND then Some (s, - RT_ERROR)
     else do {
       let s1 = list_remove t s;
       (s2, _) \<leftarrow> rt_timer_stop (ThreadTimer t) s1;
       s3 \<leftarrow> rt_schedule_insert_thread t s2;
       Some (s3, RT_EOK) } }"

definition rt_thread_timeout :: "tid \<Rightarrow> kernel \<Rightarrow> kernel option" where
  "rt_thread_timeout t s = do {
     th \<leftarrow> threads s t;
     rt_assert (tstate th = RT_THREAD_SUSPEND);
     rt_assert (rt_object_get_type (th_type th) = RT_Object_Class_Thread);
     let s1 = upd_thread t (th_error_update (\<lambda>_. - RT_ETIMEOUT)) s;
     let s2 = list_remove t s1;
     s3 \<leftarrow> rt_schedule_insert_thread t s2;
     rt_schedule s3 }"


section \<open>The invariant of the timers\<close>

text \<open>
  The built-in timer of a thread: a one-shot hard timer that calls \<^verbatim>\<open>rt_thread_timeout\<close> for that
  thread, and that runs only while the thread is suspended (\<^verbatim>\<open>rt_thread_timeout\<close> asserts it).
\<close>

definition thread_timer_ok :: "tid \<Rightarrow> rt_timer \<Rightarrow> bool" where
  "thread_timer_ok t tm \<longleftrightarrow> rt_object_get_type (tm_type tm) = RT_Object_Class_Timer \<and>
     timeout_func tm = Fn_rt_thread_timeout \<and> tm_parameter tm = t \<and>
     tm_flag tm AND (RT_TIMER_FLAG_PERIODIC OR RT_TIMER_FLAG_SOFT_TIMER) = 0"

definition active :: "rt_timer \<Rightarrow> bool" where
  "active tm \<longleftrightarrow> tm_flag tm AND RT_TIMER_FLAG_ACTIVATED \<noteq> 0"

definition tt_cons :: "kernel \<Rightarrow> tid \<Rightarrow> bool" where
  "tt_cons s t \<longleftrightarrow> (case threads s t of
     None \<Rightarrow> \<forall>q. ThreadTimer t \<notin> set (timer_queues s q)
   | Some th \<Rightarrow>
       if tstate th = RT_THREAD_CLOSE then \<forall>q. ThreadTimer t \<notin> set (timer_queues s q)
       else rt_object_get_type (th_type th) = RT_Object_Class_Thread \<and>
         (\<exists>tm. timers s (ThreadTimer t) = Some tm \<and> thread_timer_ok t tm \<and>
           (active tm \<longrightarrow> tstate th = RT_THREAD_SUSPEND \<and> ThreadTimer t \<in> set (timer_queues s HardTimers))))"

definition timer_lists_ok :: "kernel \<Rightarrow> bool" where
  "timer_lists_ok s \<longleftrightarrow> (\<forall>q. distinct (timer_queues s q)) \<and>
     (\<forall>m q q'. m \<in> set (timer_queues s q) \<and> m \<in> set (timer_queues s q') \<longrightarrow> q = q') \<and>
     (\<forall>m q. m \<in> set (timer_queues s q) \<longrightarrow> (\<exists>tm. timers s m = Some tm \<and>
        rt_object_get_type (tm_type tm) = RT_Object_Class_Timer \<and>
        (q = HardTimers \<longrightarrow> active tm \<and> tm_flag tm AND RT_TIMER_FLAG_SOFT_TIMER = 0) \<and>
        (q = SoftTimers \<longrightarrow> active tm \<and> tm_flag tm AND RT_TIMER_FLAG_SOFT_TIMER \<noteq> 0)))"

definition timer_inv :: "kernel \<Rightarrow> bool" where
  "timer_inv s \<longleftrightarrow> timer_lists_ok s \<and> (\<forall>t. tt_cons s t)"

definition kernel_inv :: "kernel \<Rightarrow> bool" where
  "kernel_inv s \<longleftrightarrow> sched_inv s \<and> timer_inv s"

lemma and_clear_other:
  fixes x :: "'a :: len word"
  assumes "k AND m = 0"
  shows "(x AND NOT m) AND k = x AND k"
proof (rule bit_eqI)
  fix n
  have "\<not> (bit k n \<and> bit m n)" using assms by (metis bit_and_iff bit_0_eq bot_apply bot_bool_def)
  then show "bit ((x AND NOT m) AND k) n = bit (x AND k) n"
    by (auto simp: bit_and_iff bit_not_iff dest: bit_imp_le_length)
qed

lemma and_clear_same: "(x AND NOT m) AND m = (0 :: 'a :: len word)"
  by (rule bit_eqI) (auto simp: bit_and_iff bit_not_iff)

lemma flag_clear_simps [simp]:
  "(x AND - 2) AND 1 = (0 :: u8)" "(x AND - 2) AND 6 = (x AND 6 :: u8)"
  "(x AND - 2) AND 4 = (x AND 4 :: u8)" "(x AND - 2) AND 2 = (x AND 2 :: u8)"
  using and_clear_same [of x 1] and_clear_other [of 6 1 x] and_clear_other [of 4 1 x]
    and_clear_other [of 2 1 x] by simp_all

lemma flag_deactivate [simp]:
  "\<not> active (deactivate tm)" "thread_timer_ok t (deactivate tm) = thread_timer_ok t tm"
  "tm_type (deactivate tm) = tm_type tm" "timeout_func (deactivate tm) = timeout_func tm"
  "tm_parameter (deactivate tm) = tm_parameter tm" "tm_init_tick (deactivate tm) = tm_init_tick tm"
  "timeout_tick (deactivate tm) = timeout_tick tm"
  "tm_flag (deactivate tm) AND 4 = tm_flag tm AND 4" "tm_flag (deactivate tm) AND 2 = tm_flag tm AND 2"
  by (simp_all add: deactivate_def active_def thread_timer_ok_def)


lemma deactivate_inactive: "\<not> active tm \<Longrightarrow> deactivate tm = tm"
proof -
  assume "\<not> active tm"
  then have "tm_flag tm AND 1 = 0" by (simp add: active_def)
  then have "tm_flag tm AND NOT 1 = tm_flag tm"
    by (metis and.right_neutral bit.conj_disj_distrib bit.disj_cancel_right or.left_neutral)
  then show ?thesis by (simp add: deactivate_def)
qed

section \<open>Stopping a timer\<close>

lemma tt_cons_cong:
  assumes "threads s' t = threads s t" and "timers s' (ThreadTimer t) = timers s (ThreadTimer t)"
    and "\<And>q. ThreadTimer t \<in> set (timer_queues s' q) \<longleftrightarrow> ThreadTimer t \<in> set (timer_queues s q)"
  shows "tt_cons s' t = tt_cons s t"
  unfolding tt_cons_def using assms by (auto split: option.split)

definition stop_queues :: "timer_id \<Rightarrow> rt_timer \<Rightarrow> kernel \<Rightarrow> tqid \<Rightarrow> timer_id list" where
  "stop_queues m tm s = (\<lambda>q. if active tm then removeAll m (timer_queues s q) else timer_queues s q)"

lemma rt_timer_stop_spec:
  assumes "timers s m = Some tm" and "rt_object_get_type (tm_type tm) = RT_Object_Class_Timer"
  shows "rt_timer_stop m s = Some (s\<lparr>timers := (timers s)(m \<mapsto> deactivate tm),
           timer_queues := stop_queues m tm s\<rparr>, if active tm then RT_EOK else - RT_ERROR)"
proof (cases "active tm")
  case True
  then show ?thesis using assms
    by (simp add: rt_timer_stop_def stop_queues_def active_def upd_timer_def timer_remove_def)
next
  case False
  then have "(timers s)(m \<mapsto> deactivate tm) = timers s" using assms(1) by (auto simp: deactivate_inactive)
  with False show ?thesis using assms
    by (simp add: rt_timer_stop_def stop_queues_def active_def upd_timer_def timer_remove_def)
qed

lemma timer_lists_stop:
  assumes ok: "timer_lists_ok s" and tm: "timers s m = Some tm"
    and s': "timers s' = (timers s)(m \<mapsto> deactivate tm)" "timer_queues s' = stop_queues m tm s"
  shows "timer_lists_ok s'"
proof (cases "active tm")
  case True
  then show ?thesis using ok unfolding timer_lists_ok_def s' stop_queues_def
    by (auto simp: distinct_removeAll)
next
  case False
  then have "timers s' = timers s" "timer_queues s' = timer_queues s"
    using tm by (auto simp: s' stop_queues_def deactivate_inactive)
  with ok show ?thesis unfolding timer_lists_ok_def by simp
qed

section \<open>Suspending and resuming a thread\<close>

lemma kernel_invD:
  assumes "kernel_inv s"
  shows "sched_inv s" "timer_lists_ok s" "tt_cons s t"
  using assms by (auto simp: kernel_inv_def timer_inv_def)

lemma kernel_inv_live:
  assumes "kernel_inv s" and "threads s t = Some th" and "tstate th \<noteq> RT_THREAD_CLOSE"
  obtains tm where "timers s (ThreadTimer t) = Some tm" "thread_timer_ok t tm"
    "rt_object_get_type (th_type th) = RT_Object_Class_Thread"
    "active tm \<longrightarrow> tstate th = RT_THREAD_SUSPEND \<and> ThreadTimer t \<in> set (timer_queues s HardTimers)"
  using kernel_invD(3) [OF assms(1), of t] assms(2,3) by (auto simp: tt_cons_def)

lemma tt_cons_other:
  assumes "tt_cons s t'" and "t' \<noteq> t" and "threads s' t' = threads s t'"
    and "timers s' = (timers s)(ThreadTimer t \<mapsto> x)"
    and "\<And>m q. m \<noteq> ThreadTimer t \<Longrightarrow> m \<in> set (timer_queues s' q) \<longleftrightarrow> m \<in> set (timer_queues s q)"
  shows "tt_cons s' t'"
  using assms(1) by (subst tt_cons_cong [of s' t' s]) (use assms(2-) in auto)

lemma rt_thread_suspend_error:
  assumes "kernel_inv s" and "threads s t = Some th" and "tstate th = RT_THREAD_INIT \<or> tstate th = RT_THREAD_SUSPEND"
  shows "rt_thread_suspend t s = Some (s, - RT_ERROR)"
  using kernel_inv_live [OF assms(1,2)] assms(2,3) by (auto simp: rt_thread_suspend_def)

lemma rt_thread_suspend_spec:
  assumes inv: "kernel_inv s" and th: "threads s t = Some th"
    and st: "tstate th = RT_THREAD_READY \<or> tstate th = RT_THREAD_RUNNING"
  obtains s' where "rt_thread_suspend t s = Some (s', RT_EOK)" "kernel_inv s'"
    "threads s' = (threads s)(t \<mapsto> set_state RT_THREAD_SUSPEND th)"
    "queues s' = (\<lambda>q. removeAll t (queues s q))" "rt_current_thread s' = rt_current_thread s"
    "sched_frame s s'" "timers_frame s s'"
proof -
  note si = kernel_invD(1) [OF inv]
  obtain tm where tm: "timers s (ThreadTimer t) = Some tm" "thread_timer_ok t tm" "\<not> active tm"
    and ty: "rt_object_get_type (th_type th) = RT_Object_Class_Thread"
    by (rule kernel_inv_live [OF inv th]) (use st in auto)
  have ok: "thread_ok th" and cur: "tstate th = RT_THREAD_RUNNING \<Longrightarrow> rt_current_thread s = Some t"
    using winv_tcons [OF si, of t] th st by (auto simp: tcons_def)
  obtain g where g: "rt_schedule_remove_thread t s =
       Some (s\<lparr>queues := (\<lambda>q. removeAll t (queues s q)), rt_thread_ready_priority_group := g\<rparr>)"
    "winv {t} (s\<lparr>queues := (\<lambda>q. removeAll t (queues s q)), rt_thread_ready_priority_group := g\<rparr>)"
    using remove_Some [OF si th thread_ok_prio [OF ok] tcons_homed [OF si _ th]] by auto
  let ?s1 = "s\<lparr>queues := (\<lambda>q. removeAll t (queues s q)), rt_thread_ready_priority_group := g\<rparr>"
  let ?s2 = "upd_thread t (set_state RT_THREAD_SUSPEND) ?s1"
  have "tcons ?s2 t" using th ok by (auto simp: tcons_def upd_thread_def)
  then have w: "winv ({t} - {t}) ?s2" by (intro winv_leave winv_upd_thread [OF g(2)]) simp_all
  have "tt_cons ?s2 t'" for t'
  proof (cases "t' = t")
    case True
    then show ?thesis using th tm ty by (simp add: tt_cons_def upd_thread_def)
  next
    case False
    then show ?thesis using kernel_invD(3) [OF inv, of t']
      by (subst tt_cons_cong [of _ t' s]) (simp_all add: upd_thread_def)
  qed
  moreover have "timer_lists_ok ?s2" using kernel_invD(2) [OF inv]
    by (simp add: timer_lists_ok_def upd_thread_def)
  ultimately have "kernel_inv ?s2" using w by (simp add: kernel_inv_def timer_inv_def)
  moreover have "rt_thread_suspend t s = Some (?s2, RT_EOK)"
    using th ty st cur g(1) tm rt_timer_stop_def
    by (auto simp: rt_thread_suspend_def rt_thread_self_def upd_thread_def thread_timer_ok_def active_def)
  ultimately show thesis using th by (intro that [of ?s2]) (simp_all add: upd_thread_def sched_frame_def)
qed


lemma list_remove_simps [simp]:
  "threads (list_remove t s) = threads s" "timers (list_remove t s) = timers s"
  "timer_queues (list_remove t s) = timer_queues s"
  "rt_current_thread (list_remove t s) = rt_current_thread s"
  "queues (list_remove t s) q = removeAll t (queues s q)"
  by (simp_all add: list_remove_def)

lemma winv_list_remove:
  assumes "winv X s" and "\<And>p. t \<notin> set (queues s (ReadyQ p))"
  shows "winv (insert t X) (list_remove t s)"
proof -
  have q: "removeAll t (queues s (ReadyQ p)) = queues s (ReadyQ p)" for p using assms(2) by simp
  have "queue_ok (list_remove t s)" using winv_queue_ok [OF assms(1)]
    by (auto simp: queue_ok_def list_remove_def q distinct_removeAll)
  moreover have "tcons (list_remove t s) t' = tcons s t'" if "t' \<noteq> t" for t'
    using that by (intro tcons_cong) (auto simp: list_remove_def)
  ultimately show ?thesis using assms(1) by (simp add: winv_def)
qed

text \<open>The ready queues after a thread was made ready; the running thread is on none.\<close>

definition ready_queues :: "tid \<Rightarrow> rt_thread \<Rightarrow> kernel \<Rightarrow> qid \<Rightarrow> tid list" where
  "ready_queues t th s q =
     (if rt_current_thread s \<noteq> Some t \<and> q = ReadyQ (unat (current_priority th))
      then removeAll t (queues s q) @ [t] else removeAll t (queues s q))"

abbreviation woken :: "kernel \<Rightarrow> tid \<Rightarrow> rt_thread \<Rightarrow> rt_thread" where
  "woken s t th \<equiv> set_state (if rt_current_thread s = Some t then RT_THREAD_RUNNING else RT_THREAD_READY) th"

text \<open>
  The common end of \<^verbatim>\<open>rt_thread_resume\<close> and \<^verbatim>\<open>rt_thread_timeout\<close>: \<open>s0\<close> is the state with the timer
  stopped, in which the thread leaves its wait queue and becomes ready.
\<close>

lemma make_ready:
  assumes inv: "sched_inv s" and th: "threads s t = Some th" and st: "tstate th = RT_THREAD_SUSPEND"
  obtains s' where "rt_schedule_insert_thread t (list_remove t s) = Some s'" "sched_inv s'"
    "threads s' = (threads s)(t \<mapsto> woken s t th)" "queues s' = ready_queues t th s"
    "rt_current_thread s' = rt_current_thread s" "sched_frame s s'" "timers_frame s s'"
proof -
  have ok: "thread_ok th" and nq: "\<And>p. t \<notin> set (queues s (ReadyQ p))"
    using winv_tcons [OF inv, of t] th st by (auto simp: tcons_def)
  let ?s1 = "list_remove t s"
  have 1: "winv {t} ?s1" using winv_list_remove [OF inv nq] .
  have "threads ?s1 t = Some th" "nowhere ?s1 t" using th by (auto simp: list_remove_def nowhere_def)
  with 1 ok obtain s' where s': "rt_schedule_insert_thread t ?s1 = Some s'" "winv ({t} - {t}) s'"
    "threads s' = (threads ?s1)(t \<mapsto> set_state (if rt_current_thread ?s1 = Some t
        then RT_THREAD_RUNNING else RT_THREAD_READY) th)"
    "queues s' = (if rt_current_thread ?s1 = Some t then queues ?s1
       else (queues ?s1)(ReadyQ (unat (current_priority th)) :=
          queues ?s1 (ReadyQ (unat (current_priority th))) @ [t]))"
    "s' = ?s1\<lparr>threads := threads s', queues := queues s',
       rt_thread_ready_priority_group := rt_thread_ready_priority_group s'\<rparr>"
    using insert_Some [of "{t}" ?s1 t th] by metis
  have f: "sched_frame s ?s1" "timers_frame s ?s1" by (simp_all add: list_remove_def sched_frame_def)
  have "rt_current_thread s' = rt_current_thread s" by (subst s'(5)) (simp add: list_remove_def)
  then show thesis using s'(1-4) insert_frame [OF s'(1)] f
    by (intro that [of s']) (auto simp: list_remove_def ready_queues_def fun_eq_iff intro: sched_frame_trans)
qed

lemma rt_thread_resume_error:
  assumes "kernel_inv s" and "threads s t = Some th" and "tstate th \<noteq> RT_THREAD_SUSPEND" "tstate th \<noteq> RT_THREAD_CLOSE"
  shows "rt_thread_resume t s = Some (s, - RT_ERROR)"
  by (rule kernel_inv_live [OF assms(1,2,4)]) (use assms in \<open>auto simp: rt_thread_resume_def\<close>)

lemma rt_thread_resume_spec:
  assumes inv: "kernel_inv s" and th: "threads s t = Some th" and st: "tstate th = RT_THREAD_SUSPEND"
  obtains s' tm where "rt_thread_resume t s = Some (s', RT_EOK)" "kernel_inv s'"
    "threads s' = (threads s)(t \<mapsto> woken s t th)" "queues s' = ready_queues t th s"
    "rt_current_thread s' = rt_current_thread s" "sched_frame s s'"
    "timers s (ThreadTimer t) = Some tm" "timers s' = (timers s)(ThreadTimer t \<mapsto> deactivate tm)"
    "timer_queues s' = stop_queues (ThreadTimer t) tm s"
proof -
  obtain tm where tm: "timers s (ThreadTimer t) = Some tm" "thread_timer_ok t tm"
    and ty: "rt_object_get_type (th_type th) = RT_Object_Class_Thread"
    by (rule kernel_inv_live [OF inv th]) (use st in auto)
  let ?T = "(timers s)(ThreadTimer t \<mapsto> deactivate tm)" and ?Q = "stop_queues (ThreadTimer t) tm s"
  let ?s1 = "s\<lparr>timers := ?T, timer_queues := ?Q\<rparr>"
  have "same_sched s ?s1" by (simp add: same_sched_def)
  then have w: "sched_inv ?s1" using winv_same_sched kernel_invD(1) [OF inv] by blast
  have t1: "threads ?s1 t = Some th" using th by simp
  obtain s' where s': "rt_schedule_insert_thread t (list_remove t ?s1) = Some s'" "sched_inv s'"
    "threads s' = (threads ?s1)(t \<mapsto> woken ?s1 t th)" "queues s' = ready_queues t th ?s1"
    "rt_current_thread s' = rt_current_thread ?s1" "sched_frame ?s1 s'" "timers_frame ?s1 s'"
    by (rule make_ready [OF w t1 st])
  have comm: "list_remove t ?s1 = (list_remove t s)\<lparr>timers := ?T, timer_queues := ?Q\<rparr>"
    by (simp add: list_remove_def)
  have "stop_queues (ThreadTimer t) tm (list_remove t s) = ?Q" by (simp add: stop_queues_def cong: if_cong)
  with rt_timer_stop_spec [of "list_remove t s" "ThreadTimer t" tm] tm
  have "rt_timer_stop (ThreadTimer t) (list_remove t s) =
      Some (list_remove t ?s1, if active tm then RT_EOK else - RT_ERROR)"
    unfolding comm by (simp add: thread_timer_ok_def)
  then have "rt_thread_resume t s = Some (s', RT_EOK)"
    using th ty st s'(1) by (simp add: rt_thread_resume_def)
  moreover have "tt_cons s' t'" for t'
  proof (cases "t' = t")
    case True
    then show ?thesis using s'(3,7) ty tm by (simp add: tt_cons_def)
  next
    case False
    show ?thesis
      by (rule tt_cons_other [OF kernel_invD(3) [OF inv] False]) (simp_all add: s'(3,7) stop_queues_def False)
  qed
  moreover have "timer_lists_ok s'"
    by (rule timer_lists_stop [OF kernel_invD(2) [OF inv] tm(1)]) (use s'(7) in simp_all)
  moreover have "ready_queues t th ?s1 = ready_queues t th s" by (simp add: ready_queues_def fun_eq_iff)
  moreover have "sched_frame s s'" using s'(6) by (simp add: sched_frame_def)
  ultimately show thesis using s'(2-5,7) tm(1)
    by (intro that [of s' tm]) (simp_all add: kernel_inv_def timer_inv_def)
qed


section \<open>Scheduling keeps the kernel invariant\<close>

lemma tt_cons_same_thread:
  assumes "timers_frame s s'" and "tt_cons s t" and "threads s' t = None \<longleftrightarrow> threads s t = None"
    and "\<And>th. threads s t = Some th \<Longrightarrow> \<exists>th'. threads s' t = Some th' \<and> same_thread th th'"
  shows "tt_cons s' t"
proof (cases "threads s t")
  case None
  then show ?thesis using assms by (simp add: tt_cons_def)
next
  case (Some th)
  then obtain th' where "threads s' t = Some th'" "same_thread th th'" using assms(4) by blast
  then show ?thesis using assms(1,2) Some same_threadD [of th th']
    by (auto simp: tt_cons_def split: if_splits)
qed

lemma timer_lists_ok_frame: "timers_frame s s' \<Longrightarrow> timer_lists_ok s' = timer_lists_ok s"
  by (simp add: timer_lists_ok_def)

lemma rt_schedule_kernel:
  assumes inv: "kernel_inv s" and cur: "rt_current_thread s \<noteq> None"
  obtains s' where "rt_schedule s = Some s'" "kernel_inv s'" "rt_current_thread s' \<noteq> None"
    "sched_frame s s'" "timers_frame s s'"
    "\<And>t th. threads s t = Some th \<Longrightarrow> \<exists>th'. threads s' t = Some th' \<and> same_thread th th'"
    "dom (threads s') = dom (threads s)"
proof -
  obtain s' where s': "rt_schedule s = Some s'" "sched_inv s'" "rt_current_thread s' \<noteq> None"
    "dom (threads s') = dom (threads s)"
    using rt_schedule_total [OF kernel_invD(1) [OF inv] cur] .
  have same: "\<exists>th'. threads s' t = Some th' \<and> same_thread th th'" if "threads s t = Some th" for t th
    using rt_schedule_same_threads [OF kernel_invD(1) [OF inv] s'(1) that] by metis
  have f: "sched_frame s s'" "timers_frame s s'" using rt_schedule_frame [OF s'(1)] by simp_all
  have "tt_cons s' t" for t
    by (rule tt_cons_same_thread [OF f(2) kernel_invD(3) [OF inv] _ same]) (use s'(4) in auto)
  then have "kernel_inv s'" using s'(2) timer_lists_ok_frame [OF f(2)] kernel_invD(2) [OF inv]
    by (simp add: kernel_inv_def timer_inv_def)
  with s' f same show thesis using that by blast
qed

lemma kernel_inv_upd_inert:
  assumes inv: "kernel_inv s"
    and f: "\<And>th. threads s t = Some th \<Longrightarrow> tstate (f th) = tstate th \<and> thread_ok (f th) = thread_ok th \<and>
      current_priority (f th) = current_priority th \<and> th_type (f th) = th_type th"
  shows "kernel_inv (upd_thread t f s)"
proof -
  have "sched_inv (upd_thread t f s)" using winv_upd_inert [OF kernel_invD(1) [OF inv]] f by blast
  moreover have "tt_cons (upd_thread t f s) t'" for t'
    using kernel_invD(3) [OF inv, of t'] f
    by (cases "t' = t"; cases "threads s t'") (auto simp: tt_cons_def upd_thread_def)
  moreover have "timer_lists_ok (upd_thread t f s)"
    using kernel_invD(2) [OF inv] by (simp add: timer_lists_ok_def upd_thread_def)
  ultimately show ?thesis by (simp add: kernel_inv_def timer_inv_def)
qed

lemma thread_ok_other_fields [simp]:
  "thread_ok (th_error_update e th) = thread_ok th" "thread_ok (remaining_tick_update r th) = thread_ok th"
  "thread_ok (event_set_update v th) = thread_ok th" "thread_ok (event_info_update w th) = thread_ok th"
  by (rule thread_ok_cong; simp)+

text \<open>\<^verbatim>\<open>rt_thread_timeout\<close>, called with the thread's timer already deactivated.\<close>

lemma rt_thread_timeout_spec:
  assumes inv: "kernel_inv s" and th: "threads s t = Some th" and st: "tstate th = RT_THREAD_SUSPEND"
    and tm: "timers s (ThreadTimer t) = Some tm" "\<not> active tm" and cur: "rt_current_thread s \<noteq> None"
  obtains s' th' where "rt_thread_timeout t s = Some s'" "kernel_inv s'" "sched_frame s s'" "timers_frame s s'"
    "rt_current_thread s' \<noteq> None" "threads s' t = Some th'" "th_error th' = - RT_ETIMEOUT"
    "tstate th' \<in> {RT_THREAD_READY, RT_THREAD_RUNNING}"
    "\<And>u uth. u \<noteq> t \<Longrightarrow> threads s u = Some uth \<Longrightarrow> \<exists>uth'. threads s' u = Some uth' \<and> same_thread uth uth'"
proof -
  let ?th = "th\<lparr>th_error := - RT_ETIMEOUT\<rparr>"
  let ?s1 = "upd_thread t (th_error_update (\<lambda>_. - RT_ETIMEOUT)) s"
  have inv1: "kernel_inv ?s1" by (rule kernel_inv_upd_inert [OF inv]) simp
  have t1: "threads ?s1 t = Some ?th" "tstate ?th = RT_THREAD_SUSPEND" "rt_current_thread ?s1 = rt_current_thread s"
    using th st by (simp_all add: upd_thread_def)
  obtain s2 where s2: "rt_schedule_insert_thread t (list_remove t ?s1) = Some s2" "sched_inv s2"
    "threads s2 = (threads ?s1)(t \<mapsto> woken ?s1 t ?th)" "queues s2 = ready_queues t ?th ?s1"
    "rt_current_thread s2 = rt_current_thread ?s1" "sched_frame ?s1 s2" "timers_frame ?s1 s2"
    by (rule make_ready [OF kernel_invD(1) [OF inv1] t1(1,2)])
  obtain ty: "rt_object_get_type (th_type th) = RT_Object_Class_Thread" and ok: "thread_timer_ok t tm"
    by (rule kernel_inv_live [OF inv th]) (use st tm in auto)
  have "tt_cons s2 t'" for t'
  proof (cases "t' = t")
    case True
    then show ?thesis using s2(3,7) tm ty ok by (simp add: tt_cons_def upd_thread_def)
  next
    case False
    show ?thesis using kernel_invD(3) [OF inv1, of t']
      by (subst tt_cons_cong [of s2 t' ?s1]) (use False s2(3,7) in simp_all)
  qed
  then have inv2: "kernel_inv s2" using s2(2) timer_lists_ok_frame [OF s2(7)] kernel_invD(2) [OF inv1]
    by (simp add: kernel_inv_def timer_inv_def)
  have cur2: "rt_current_thread s2 \<noteq> None" using s2(5) t1(3) cur by simp
  obtain s' where s': "rt_schedule s2 = Some s'" "kernel_inv s'" "rt_current_thread s' \<noteq> None"
    "sched_frame s2 s'" "timers_frame s2 s'"
    "\<And>t th. threads s2 t = Some th \<Longrightarrow> \<exists>th'. threads s' t = Some th' \<and> same_thread th th'"
    by (rule rt_schedule_kernel [OF inv2 cur2]) blast
  have "threads s2 t = Some (woken ?s1 t ?th)" using s2(3) by simp
  then obtain th' where th': "threads s' t = Some th'" "same_thread (woken ?s1 t ?th) th'" using s'(6) by blast
  have "rt_thread_timeout t s = Some s'"
    using th st ty s2(1) s'(1) by (simp add: rt_thread_timeout_def)
  moreover have "sched_frame s s'" using s2(6) s'(4) upd_thread_frame by (blast intro: sched_frame_trans)
  moreover have "timers_frame s s'" using s2(7) s'(5) by (simp add: upd_thread_def)
  moreover have "th_error th' = - RT_ETIMEOUT" using same_threadD(5) [OF th'(2)] by simp
  moreover have "tstate th' \<in> {RT_THREAD_READY, RT_THREAD_RUNNING}"
    using th'(2) by (auto simp: same_thread_def split: if_splits)
  moreover have "\<exists>uth'. threads s' u = Some uth' \<and> same_thread uth uth'" if "u \<noteq> t" "threads s u = Some uth" for u uth
    using that s'(6) [of u uth] s2(3) by (simp add: upd_thread_def)
  ultimately show thesis using s'(2,3) th'(1) by (intro that [of s' th'])
qed

end
