(* ===== verification/TimerRun.thy ===== *)
theory TimerRun
  imports TimerBase
begin

text \<open>
  Starting timers and running the due ones (\<^verbatim>\<open>rt-thread/src/timer.c\<close>) and the system tick
  (\<^verbatim>\<open>rt-thread/src/clock.c\<close>).

  A timer's function is \<^verbatim>\<open>rt_thread_timeout\<close> or a function of the application; the latter is the
  parameter \<open>call\<close> (function, argument, state). The loops of \<^verbatim>\<open>rt_timer_check\<close> and
  \<^verbatim>\<open>rt_soft_timer_check\<close> end only when no timer is due, which a periodic timer of period 0 or a
  function that restarts its timer can prevent for ever: they are partial functions.
\<close>

section \<open>rt_timer_start\<close>

text \<open>\<^verbatim>\<open>RT_TICK_MAX / 2\<close>\<close>

abbreviation (input) half_tick :: u32 where "half_tick \<equiv> 0x7fffffff"

text \<open>
  The scan of \<^verbatim>\<open>rt_timer_start\<close> for the place of a timer that ends at \<open>tick\<close> stops before timer
  \<open>m'\<close> when \<open>m'\<close> ends later, in the circular order of ticks.
\<close>

definition ends_later :: "kernel \<Rightarrow> u32 \<Rightarrow> timer_id \<Rightarrow> bool" where
  "ends_later s tick m' = (case timers s m' of
       None \<Rightarrow> False
     | Some t \<Rightarrow> timeout_tick t - tick \<noteq> 0 \<and> timeout_tick t - tick < half_tick)"

definition timer_list_of :: "rt_timer \<Rightarrow> tqid" where
  "timer_list_of tm = (if tm_flag tm AND RT_TIMER_FLAG_SOFT_TIMER \<noteq> 0 then SoftTimers else HardTimers)"

text \<open>The part of \<^verbatim>\<open>rt_timer_start\<close> that runs with interrupts disabled.\<close>

definition timer_enqueue :: "timer_id \<Rightarrow> rt_timer \<Rightarrow> kernel \<Rightarrow> kernel" where
  "timer_enqueue m tm s =
     (let s1 = upd_timer m deactivate (timer_remove m s);
          tick = rt_tick_get s1 + tm_init_tick tm;
          s2 = upd_timer m (timeout_tick_update (\<lambda>_. tick)) s1;
          q = timer_list_of tm;
          s3 = s2\<lparr>random_nr := random_nr s2 + 1,
                  timer_queues := (timer_queues s2)(q :=
                    insert_before_first (ends_later s2 tick) m (timer_queues s2 q))\<rparr>
      in upd_timer m (tm_flag_update (\<lambda>f. f OR RT_TIMER_FLAG_ACTIVATED)) s3)"

definition rt_timer_start :: "timer_id \<Rightarrow> kernel \<Rightarrow> (kernel \<times> rt_err_t) option" where
  "rt_timer_start m s = do {
     tm \<leftarrow> timers s m;
     rt_assert (rt_object_get_type (tm_type tm) = RT_Object_Class_Timer);
     rt_assert (tm_init_tick tm < half_tick);
     let s1 = timer_enqueue m tm s;
     if tm_flag tm AND RT_TIMER_FLAG_SOFT_TIMER \<noteq> 0
     then do {
       tth \<leftarrow> threads s1 (timer_thread s1);
       if soft_timer_status s1 = RT_SOFT_TIMER_IDLE \<and> tstate tth = RT_THREAD_SUSPEND
       then do {
         (s2, _) \<leftarrow> rt_thread_resume (timer_thread s1) s1;
         s3 \<leftarrow> rt_schedule s2;
         Some (s3, RT_EOK) }
       else Some (s1, RT_EOK) }
     else Some (s1, RT_EOK) }"

section \<open>Running due timers\<close>

definition call_timeout :: "(nat \<Rightarrow> nat \<Rightarrow> kernel \<Rightarrow> kernel option) \<Rightarrow> timeout_fn \<Rightarrow> nat \<Rightarrow> kernel \<Rightarrow> kernel option" where
  "call_timeout call f parameter s = (case f of
       Fn_rt_thread_timeout \<Rightarrow> rt_thread_timeout parameter s
     | Fn_other n \<Rightarrow> call n parameter s)"

text \<open>
  The first half of an iteration: the timer leaves its list, a one-shot timer is deactivated, and the
  timer is put on the local list \<^verbatim>\<open>list\<close> of the check (\<open>pq\<close>).
\<close>

definition timer_expire :: "tqid \<Rightarrow> timer_id \<Rightarrow> rt_timer \<Rightarrow> kernel \<Rightarrow> kernel" where
  "timer_expire pq m tm s =
     (let s1 = timer_remove m s;
          s2 = (if tm_flag tm AND RT_TIMER_FLAG_PERIODIC = 0 then upd_timer m deactivate s1 else s1)
      in s2\<lparr>timer_queues := (timer_queues s2)(pq := m # timer_queues s2 pq)\<rparr>)"

text \<open>The second half, when the timer is still on the local list: a periodic timer starts again.\<close>

definition timer_rearm :: "timer_id \<Rightarrow> kernel \<Rightarrow> kernel option" where
  "timer_rearm m s = do {
     let s1 = timer_remove m s;
     tm \<leftarrow> timers s1 m;
     if tm_flag tm AND RT_TIMER_FLAG_PERIODIC \<noteq> 0 \<and> tm_flag tm AND RT_TIMER_FLAG_ACTIVATED \<noteq> 0
     then do {
       (s2, _) \<leftarrow> rt_timer_start m (upd_timer m deactivate s1);
       Some s2 }
     else Some s1 }"



partial_function (option) soft_timer_check_loop ::
  "(nat \<Rightarrow> nat \<Rightarrow> kernel \<Rightarrow> kernel option) \<Rightarrow> kernel \<Rightarrow> kernel option" where
  "soft_timer_check_loop call s =
     (case timer_queues s SoftTimers of
        [] \<Rightarrow> Some s
      | m # _ \<Rightarrow> do {
          tm \<leftarrow> timers s m;
          if rt_tick_get s - timeout_tick tm < half_tick
          then do {
            let s1 = timer_expire SoftPending m tm s;
            s2 \<leftarrow> call_timeout call (timeout_func tm) (tm_parameter tm)
                   (s1\<lparr>soft_timer_status := RT_SOFT_TIMER_BUSY\<rparr>);
            let s3 = s2\<lparr>soft_timer_status := RT_SOFT_TIMER_IDLE\<rparr>;
            if timer_queues s3 SoftPending = [] then soft_timer_check_loop call s3
            else do {
              s4 \<leftarrow> timer_rearm m s3;
              soft_timer_check_loop call s4 } }
          else Some s })"

definition rt_soft_timer_check :: "(nat \<Rightarrow> nat \<Rightarrow> kernel \<Rightarrow> kernel option) \<Rightarrow> kernel \<Rightarrow> kernel option" where
  "rt_soft_timer_check call s =
     soft_timer_check_loop call (s\<lparr>timer_queues := (timer_queues s)(SoftPending := [])\<rparr>)"

section \<open>The system tick: clock.c\<close>

definition rt_tick_set :: "u32 \<Rightarrow> kernel \<Rightarrow> kernel" where
  "rt_tick_set tick s = s\<lparr>rt_tick := tick\<rparr>"


text \<open>
  \<^verbatim>\<open>ms\<close> is an \<^verbatim>\<open>rt_int32_t\<close>, whose value the argument is; the products are computed in 32 bits.
\<close>

definition rt_tick_from_millisecond :: "int \<Rightarrow> u32" where
  "rt_tick_from_millisecond ms =
     (if ms < 0 then word_of_int RT_WAITING_FOREVER
      else RT_TICK_PER_SECOND * word_of_int (ms div 1000) +
           (RT_TICK_PER_SECOND * word_of_int (ms mod 1000) + 999) div 1000)"

definition rt_tick_get_millisecond :: "kernel \<Rightarrow> u32" where
  "rt_tick_get_millisecond s = rt_tick_get s * (1000 div RT_TICK_PER_SECOND)"


section \<open>The place of a started timer\<close>

text \<open>In the circular order of ticks, seen from the current tick, \<open>ends_later\<close> is the order of the delays.\<close>

lemma later_iff:
  fixes a b :: u32
  assumes "a < half_tick" and "b < half_tick"
  shows "a - b \<noteq> 0 \<and> a - b < half_tick \<longleftrightarrow> b < a"
proof (cases "b \<le> a")
  case True
  then have "unat (a - b) = unat a - unat b" by (simp add: unat_sub)
  moreover have "unat a < unat half_tick" using assms(1) by (simp add: word_less_nat_alt)
  ultimately have "a - b < half_tick" by (simp add: word_less_nat_alt)
  then show ?thesis using True by (auto simp: order_less_le)
next
  case False
  then have "unat (a - b) = 2 ^ 32 - (unat b - unat a)"
    by (simp add: unat_sub_if' word_le_nat_alt)
  moreover have "unat b < unat half_tick" using assms(2) by (simp add: word_less_nat_alt)
  ultimately have "\<not> a - b < half_tick" by (simp add: word_less_nat_alt)
  then show ?thesis using False by auto
qed

definition delay :: "kernel \<Rightarrow> timer_id \<Rightarrow> u32" where
  "delay s m = (case timers s m of None \<Rightarrow> 0 | Some tm \<Rightarrow> timeout_tick tm - rt_tick s)"

definition armed :: "u32 \<Rightarrow> rt_timer \<Rightarrow> rt_timer" where
  "armed now tm = tm_flag_update (\<lambda>f. f OR RT_TIMER_FLAG_ACTIVATED)
     ((deactivate tm)\<lparr>timeout_tick := now + tm_init_tick tm\<rparr>)"

lemma flag_set_simps [simp]:
  "(x OR 1) AND 6 = (x AND 6 :: u8)" "(x OR 1) AND 4 = (x AND 4 :: u8)" "(x OR 1) AND 2 = (x AND 2 :: u8)"
  "(x OR 1) AND 1 = (1 :: u8)"
proof -
  have "(x OR m) AND k = x AND k" if "m AND k = 0" for k m :: u8
    using that by (simp add: bit.conj_disj_distrib2)
  from this [of 1 6] this [of 1 4] this [of 1 2]
  show "(x OR 1) AND 6 = x AND 6" "(x OR 1) AND 4 = x AND 4" "(x OR 1) AND 2 = x AND 2" by simp_all
  show "(x OR 1) AND 1 = 1" by (simp add: bit.conj_disj_distrib2 or.commute bit_eq_iff bit_simps)
qed

lemma armed_simps [simp]:
  "active (armed now tm)" "thread_timer_ok t (armed now tm) = thread_timer_ok t tm"
  "timeout_tick (armed now tm) = now + tm_init_tick tm" "tm_type (armed now tm) = tm_type tm"
  "tm_flag (armed now tm) AND 4 = tm_flag tm AND 4" "tm_flag (armed now tm) AND 2 = tm_flag tm AND 2"
  "timeout_func (armed now tm) = timeout_func tm" "tm_parameter (armed now tm) = tm_parameter tm"
  by (simp_all add: armed_def active_def thread_timer_ok_def deactivate_def)

definition start_queues :: "timer_id \<Rightarrow> rt_timer \<Rightarrow> kernel \<Rightarrow> tqid \<Rightarrow> timer_id list" where
  "start_queues m tm s = (\<lambda>q. removeAll m (timer_queues s q))(timer_list_of tm :=
     insert_before_first (ends_later s (rt_tick s + tm_init_tick tm)) m
       (removeAll m (timer_queues s (timer_list_of tm))))"

lemma insert_before_first_cong:
  "(\<And>y. y \<in> set ys \<Longrightarrow> p y = p' y) \<Longrightarrow> insert_before_first p x ys = insert_before_first p' x ys"
  by (induction ys) auto

lemma timer_enqueue_eq:
  assumes "timers s m = Some tm"
  shows "timer_enqueue m tm s = s\<lparr>timers := (timers s)(m \<mapsto> armed (rt_tick s) tm),
     timer_queues := start_queues m tm s, random_nr := random_nr s + 1\<rparr>"
proof -
  let ?tick = "rt_tick s + tm_init_tick tm" and ?xs = "removeAll m (timer_queues s (timer_list_of tm))"
  let ?s2 = "upd_timer m (timeout_tick_update (\<lambda>_. ?tick)) (upd_timer m deactivate (timer_remove m s))"
  have "insert_before_first (ends_later ?s2 ?tick) m ?xs = insert_before_first (ends_later s ?tick) m ?xs"
    by (rule insert_before_first_cong) (simp add: ends_later_def upd_timer_def timer_remove_def)
  then show ?thesis using assms
    by (intro kernel.equality) (simp_all add: timer_enqueue_def Let_def upd_timer_def timer_remove_def
        rt_tick_get_def armed_def start_queues_def)
qed

lemma rt_timer_start_hard:
  assumes "timers s m = Some tm" and "rt_object_get_type (tm_type tm) = RT_Object_Class_Timer"
    and "tm_flag tm AND RT_TIMER_FLAG_SOFT_TIMER = 0" and "tm_init_tick tm < half_tick"
  shows "rt_timer_start m s = Some (s\<lparr>timers := (timers s)(m \<mapsto> armed (rt_tick s) tm),
     timer_queues := start_queues m tm s, random_nr := random_nr s + 1\<rparr>, RT_EOK)"
  using assms timer_enqueue_eq [OF assms(1)] by (simp add: rt_timer_start_def)

text \<open>C33. A started hard timer is put behind every timer of the list that ends before it or at the same
  tick and before every timer that ends later, also across a wrap-around of the 32-bit tick counter:
  when all delays seen from the current tick are below half the counter's range and in ascending
  order, they are again after the start, the new timer's delay being its period.\<close>

theorem rt_timer_start_keeps_order:
  assumes "timers s m = Some tm" and "rt_object_get_type (tm_type tm) = RT_Object_Class_Timer"
    and "tm_flag tm AND RT_TIMER_FLAG_SOFT_TIMER = 0" and "tm_init_tick tm < half_tick"
    and "\<forall>m'\<in>set (timer_queues s HardTimers). timers s m' \<noteq> None \<and> delay s m' < half_tick"
    and "sorted_wrt (\<lambda>a b. delay s a \<le> delay s b) (timer_queues s HardTimers)"
  shows "\<exists>s' before after. rt_timer_start m s = Some (s', RT_EOK) \<and>
     timer_queues s' HardTimers = before @ m # after \<and>
     before @ after = removeAll m (timer_queues s HardTimers) \<and>
     delay s' m = tm_init_tick tm \<and>
     (\<forall>m'\<in>set before. delay s' m' \<le> tm_init_tick tm) \<and> (\<forall>m'\<in>set after. tm_init_tick tm < delay s' m') \<and>
     sorted_wrt (\<lambda>a b. delay s' a \<le> delay s' b) (timer_queues s' HardTimers)"
proof -
  let ?s = "s\<lparr>timers := (timers s)(m \<mapsto> armed (rt_tick s) tm), timer_queues := start_queues m tm s,
    random_nr := random_nr s + 1\<rparr>"
  let ?xs = "removeAll m (timer_queues s HardTimers)" and ?i = "tm_init_tick tm"
  have dm: "delay ?s m = ?i" by (simp add: delay_def)
  have d: "delay ?s m' = delay s m'" if "m' \<in> set ?xs" for m' using that by (simp add: delay_def split: option.split)
  have p: "ends_later s (rt_tick s + ?i) m' \<longleftrightarrow> ?i < delay s m'" if "m' \<in> set ?xs" for m'
  proof -
    from that assms(5) obtain t where t: "timers s m' = Some t" "timeout_tick t - rt_tick s < half_tick"
      by (auto simp: delay_def)
    have e: "timeout_tick t - (rt_tick s + ?i) = (timeout_tick t - rt_tick s) - ?i" by (simp add: diff_diff_eq)
    have "delay s m' = timeout_tick t - rt_tick s" by (simp add: delay_def t(1))
    then show ?thesis unfolding ends_later_def t(1) option.case e using later_iff [OF t(2) assms(4)] by simp
  qed
  have q: "timer_queues ?s HardTimers = insert_before_first (\<lambda>m'. ?i < delay s m') m ?xs"
    using assms(3) insert_before_first_cong [OF p, where x = m and ys = "removeAll m (timer_queues s HardTimers)"]
    by (simp add: start_queues_def timer_list_of_def)
  have sx: "sorted_wrt (\<lambda>a b. delay s a \<le> delay s b) ?xs" using assms(6)
    by (simp add: removeAll_filter_not_eq sorted_wrt_filter)
  have sd: "?i < delay s y" if "y \<in> set (dropWhile (\<lambda>m'. \<not> ?i < delay s m') ?xs)" for y
  proof (cases "dropWhile (\<lambda>m'. \<not> ?i < delay s m') ?xs")
    case Nil
    then show ?thesis using that by (simp only: Nil list.set(1) empty_iff)
  next
    case (Cons z zs)
    then have "?i < delay s z" by (metis hd_dropWhile list.distinct(1) list.sel(1))
    moreover have "sorted_wrt (\<lambda>a b. delay s a \<le> delay s b) (z # zs)"
      using sx Cons by (metis sorted_wrt_append takeWhile_dropWhile_id)
    ultimately show ?thesis using that Cons by (auto intro: less_le_trans)
  qed
  have st: "delay s y \<le> ?i" if "y \<in> set (takeWhile (\<lambda>m'. \<not> ?i < delay s m') ?xs)" for y
    using set_takeWhileD [OF that] by (simp add: not_less)
  let ?b = "takeWhile (\<lambda>m'. \<not> ?i < delay s m') ?xs" and ?a = "dropWhile (\<lambda>m'. \<not> ?i < delay s m') ?xs"
  have inx: "set ?b \<subseteq> set ?xs" "set ?a \<subseteq> set ?xs" by (auto dest: set_takeWhileD set_dropWhileD)
  have qq: "timer_queues ?s HardTimers = ?b @ m # ?a" using q by (simp add: insert_before_first_split)
  have le: "delay ?s y \<le> ?i" if "y \<in> set ?b" for y using st [OF that] d [OF subsetD [OF inx(1) that]] by simp
  have gt: "?i < delay ?s y" if "y \<in> set ?a" for y using sd [OF that] d [OF subsetD [OF inx(2) that]] by simp
  have "sorted_wrt (\<lambda>a b. delay ?s a \<le> delay ?s b) ?xs"
    using sorted_wrt_mono_rel [OF _ sx, of "\<lambda>a b. delay ?s a \<le> delay ?s b"] d by simp
  then have "sorted_wrt (\<lambda>a b. delay ?s a \<le> delay ?s b) (?b @ ?a)" by simp
  then have "sorted_wrt (\<lambda>a b. delay ?s a \<le> delay ?s b) (?b @ m # ?a)"
    unfolding sorted_wrt_append using le gt dm by (auto intro: less_imp_le)
  then show ?thesis unfolding qq [symmetric]
    using rt_timer_start_hard [OF assms(1-4)] qq dm le gt
    by (intro exI [of _ ?s] exI [of _ ?b] exI [of _ ?a]) auto
qed


definition demo_sleeper :: kernel where
  "demo_sleeper = (demo_kernel 0)\<lparr>rt_tick := 0xfffffff0,
     timers := (timers (demo_kernel 0))(ThreadTimer 3 \<mapsto> (demo_timer 3)\<lparr>tm_init_tick := 40\<rparr>,
       Timer 0 \<mapsto> (demo_timer 0)\<lparr>tm_flag := 1, timeout_tick := 4\<rparr>),
     timer_queues := (\<lambda>_. [])(HardTimers := [Timer 0])\<rparr>"

theorem rt_timer_start_keeps_order_witness:
  "\<exists>s' before after. rt_timer_start (ThreadTimer 3) demo_sleeper = Some (s', RT_EOK) \<and>
     timer_queues s' HardTimers = before @ ThreadTimer 3 # after \<and>
     before @ after = [Timer 0] \<and> delay s' (ThreadTimer 3) = 40"
proof -
  have t: "timers demo_sleeper (ThreadTimer 3) = Some ((demo_timer 3)\<lparr>tm_init_tick := 40\<rparr>)"
    "timer_queues demo_sleeper HardTimers = [Timer 0]" "delay demo_sleeper (Timer 0) = 20"
    by (simp_all add: demo_sleeper_def delay_def)
  have "timers demo_sleeper (Timer 0) \<noteq> None" by (simp add: demo_sleeper_def)
  with t rt_timer_start_keeps_order [OF t(1)] show ?thesis
    by (fastforce simp: demo_timer_def rt_object_get_type_def)
qed

section \<open>Starting a thread's own timer\<close>

lemma timer_lists_start:
  assumes ok: "timer_lists_ok s" and tm: "timers s m = Some tm"
    and ty: "rt_object_get_type (tm_type tm) = RT_Object_Class_Timer"
    and s': "timers s' = (timers s)(m \<mapsto> armed x tm)" "timer_queues s' = start_queues m tm s"
  shows "timer_lists_ok s'"
proof -
  let ?L = "timer_list_of tm"
  have q: "set (timer_queues s' q) = (if q = ?L then insert m (set (timer_queues s q) - {m})
      else set (timer_queues s q) - {m})" for q
    by (simp add: s' start_queues_def)
  have "distinct (timer_queues s' q)" for q
    using ok by (simp add: s' start_queues_def timer_lists_ok_def distinct_removeAll)
  moreover have "q = q'" if "x \<in> set (timer_queues s' q)" "x \<in> set (timer_queues s' q')" for x q q'
    using that ok unfolding q timer_lists_ok_def by (auto split: if_splits)
  moreover have "\<exists>tm. timers s' x = Some tm \<and> rt_object_get_type (tm_type tm) = RT_Object_Class_Timer \<and>
        (q = HardTimers \<longrightarrow> active tm \<and> tm_flag tm AND RT_TIMER_FLAG_SOFT_TIMER = 0) \<and>
        (q = SoftTimers \<longrightarrow> active tm \<and> tm_flag tm AND RT_TIMER_FLAG_SOFT_TIMER \<noteq> 0)"
    if "x \<in> set (timer_queues s' q)" for x q
  proof (cases "x = m")
    case True
    then have "q = ?L" using that unfolding q by (auto split: if_splits)
    then show ?thesis using True ty by (auto simp: s' timer_list_of_def split: if_splits)
  next
    case False
    then have "x \<in> set (timer_queues s q)" using that unfolding q by (auto split: if_splits)
    then show ?thesis using False ok by (simp add: s' timer_lists_ok_def)
  qed
  ultimately show ?thesis unfolding timer_lists_ok_def by blast
qed

lemma thread_timer_start:
  assumes inv: "kernel_inv s" and th: "threads s t = Some th" and st: "tstate th = RT_THREAD_SUSPEND"
    and tm: "timers s (ThreadTimer t) = Some tm" and i: "tm_init_tick tm < half_tick"
  obtains s' where "rt_timer_start (ThreadTimer t) s = Some (s', RT_EOK)" "kernel_inv s'" "sched_frame s s'"
    "same_sched s s'" "timers s' = (timers s)(ThreadTimer t \<mapsto> armed (rt_tick s) tm)"
    "timer_queues s' = start_queues (ThreadTimer t) tm s"
    "ThreadTimer t \<in> set (timer_queues s' HardTimers)"
proof -
  let ?s = "s\<lparr>timers := (timers s)(ThreadTimer t \<mapsto> armed (rt_tick s) tm),
     timer_queues := start_queues (ThreadTimer t) tm s, random_nr := random_nr s + 1\<rparr>"
  obtain ok: "thread_timer_ok t tm" and ty: "rt_object_get_type (th_type th) = RT_Object_Class_Thread"
    by (rule kernel_inv_live [OF inv th]) (use st tm in auto)
  have soft: "tm_flag tm AND RT_TIMER_FLAG_SOFT_TIMER = 0"
  proof -
    have "(tm_flag tm AND 6) AND 4 = 0" using ok by (simp add: thread_timer_ok_def)
    then show ?thesis by (simp add: and.assoc)
  qed
  have tty: "rt_object_get_type (tm_type tm) = RT_Object_Class_Timer" using ok by (simp add: thread_timer_ok_def)
  note start = rt_timer_start_hard [OF tm tty soft i]
  have ss: "same_sched s ?s" by (simp add: same_sched_def)
  have hq: "ThreadTimer t \<in> set (timer_queues ?s HardTimers)"
    using soft by (simp add: start_queues_def timer_list_of_def)
  have "tt_cons ?s t'" for t'
  proof (cases "t' = t")
    case True
    then show ?thesis using th st ty ok hq by (simp add: tt_cons_def)
  next
    case False
    show ?thesis
      by (rule tt_cons_other [OF kernel_invD(3) [OF inv] False]) (auto simp: start_queues_def)
  qed
  moreover have "timer_lists_ok ?s" by (rule timer_lists_start [OF kernel_invD(2) [OF inv] tm tty]) simp_all
  ultimately have "kernel_inv ?s"
    using winv_same_sched [OF ss] kernel_invD(1) [OF inv] by (simp add: kernel_inv_def timer_inv_def)
  with start ss hq show thesis by (intro that [of ?s]) (simp_all add: sched_frame_def)
qed


section \<open>The tick wakes the threads whose time has come\<close>














lemma demo_timers [simp]:
  "timers (demo_kernel y) (ThreadTimer t) = (if t < 5 then Some (demo_timer t) else None)"
  "timer_queues (demo_kernel y) = (\<lambda>_. [])"
  by (simp_all add: demo_kernel_def)

lemma demo_type [simp]: "rt_object_get_type (th_type (demo_thread st p)) = RT_Object_Class_Thread"
  by (simp add: demo_thread_def rt_object_get_type_def)

lemma demo_tt_cons:
  assumes "y = 0 \<or> y = RT_THREAD_STAT_YIELD"
  shows "tt_cons (demo_kernel y) t"
proof -
  have ok: "thread_timer_ok t (demo_timer t)" "\<not> active (demo_timer t)" for t
    by (simp_all add: demo_timer_def thread_timer_ok_def active_def rt_object_get_type_def)
  consider "t = 0" | "t = 1" | "t = 2" | "t = 3" | "t = 4" | "4 < t" by linarith
  then show ?thesis using assms ok by cases (auto simp: tt_cons_def)
qed

lemma demo_kernel_inv: "y = 0 \<or> y = RT_THREAD_STAT_YIELD \<Longrightarrow> kernel_inv (demo_kernel y)"
  by (simp add: kernel_inv_def timer_inv_def demo_inv demo_tt_cons timer_lists_ok_def)



text \<open>Milliseconds to ticks: a delay that fits an \<^verbatim>\<open>rt_int32_t\<close> converts without overflow to the least
  number of ticks that is not shorter (at 1000 ticks per second, the number itself), and every negative
  argument to \<^verbatim>\<open>RT_WAITING_FOREVER\<close>.\<close>

theorem rt_tick_from_millisecond_exact:
  assumes "ms < 2 ^ 31"
  shows "uint (rt_tick_from_millisecond ms) = (if ms < 0 then 2 ^ 32 - 1 else ms)"
proof (cases "ms < 0")
  case True
  then show ?thesis by (simp add: rt_tick_from_millisecond_def unsigned_minus_1_eq_mask mask_eq_exp_minus_1)
next
  case False
  have "(1000 :: int) * (ms mod 1000) + 999 < 2 ^ 32" using pos_mod_bound [of 1000 ms] by simp
  then have "uint (1000 * word_of_int (ms mod 1000) + 999 :: u32) = 1000 * (ms mod 1000) + 999"
    using False by (simp add: uint_word_ariths uint_word_of_int take_bit_eq_mod)
  then have "uint ((1000 * word_of_int (ms mod 1000) + 999) div 1000 :: u32) = ms mod 1000"
    by (simp add: uint_div)
  then have "(1000 * word_of_int (ms mod 1000) + 999) div 1000 = (word_of_int (ms mod 1000) :: u32)"
    by (metis word_of_int_uint)
  then have "rt_tick_from_millisecond ms = 1000 * word_of_int (ms div 1000) + word_of_int (ms mod 1000)"
    using False by (simp add: rt_tick_from_millisecond_def)
  also have "\<dots> = word_of_int (1000 * (ms div 1000) + ms mod 1000)" by (simp only: of_int_add of_int_mult of_int_numeral)
  also have "\<dots> = word_of_int ms" by simp
  finally show ?thesis using False assms by (simp add: uint_word_of_int take_bit_eq_mod)
qed

theorem rt_tick_from_millisecond_exact_witness: "uint (rt_tick_from_millisecond 1500) = 1500"
  using rt_tick_from_millisecond_exact [of 1500] by simp

end
