(* ===== verification/ThreadOps.thy ===== *)
theory ThreadOps
  imports TimerRun
begin

text \<open>
  The thread management of \<^verbatim>\<open>rt-thread/src/thread.c\<close> and the idle thread of \<^verbatim>\<open>rt-thread/src/idle.c\<close>.

  A function that gives up the processor in its middle is two definitions: the first up to and with
  the call of \<^verbatim>\<open>rt_schedule\<close>, the second (suffix \<open>_return\<close>) for the rest, which runs when the
  calling thread is scheduled again. No code of this program sets a thread's \<^verbatim>\<open>cleanup\<close> function.
\<close>

abbreviation (input) RT_THREAD_CTRL_STARTUP :: nat where "RT_THREAD_CTRL_STARTUP \<equiv> 0x00"
abbreviation (input) RT_THREAD_CTRL_CLOSE :: nat where "RT_THREAD_CTRL_CLOSE \<equiv> 0x01"
abbreviation (input) RT_THREAD_CTRL_CHANGE_PRIORITY :: nat where "RT_THREAD_CTRL_CHANGE_PRIORITY \<equiv> 0x02"

section \<open>Initialising and starting threads\<close>

text \<open>
  \<^verbatim>\<open>rt_hw_stack_init\<close> of \<^verbatim>\<open>libcpu/arm/cortex-m7/cpuport.c\<close>: the initial stack pointer, below which the
  frame of 17 words (with \<^verbatim>\<open>USE_FPU\<close>) is written.
\<close>

definition rt_hw_stack_init :: "u32 \<Rightarrow> u32" where
  "rt_hw_stack_init addr = RT_ALIGN_DOWN (addr + 4) 8 - 68"

definition zero_thread :: rt_thread where
  "zero_thread = \<lparr>th_type = 0, sp = 0, th_entry = 0, th_parameter = 0, stack_addr = 0, stack_size = 0,
     stack_guard = 0, th_error = 0, stat = 0, current_priority = 0, init_priority = 0, number_mask = 0,
     event_set = 0, event_info = 0, init_tick = 0, remaining_tick = 0\<rparr>"

definition touch_thread :: "tid \<Rightarrow> kernel \<Rightarrow> kernel" where
  "touch_thread t s = (case threads s t of None \<Rightarrow> s\<lparr>threads := (threads s)(t \<mapsto> zero_thread)\<rparr> | Some _ \<Rightarrow> s)"

definition thread_init :: "tid \<Rightarrow> string \<Rightarrow> nat \<Rightarrow> nat \<Rightarrow> u32 \<Rightarrow> u32 \<Rightarrow> u8 \<Rightarrow> u32 \<Rightarrow> kernel \<Rightarrow> (kernel \<times> rt_err_t) option" where
  "thread_init t name entry parameter stack_start stk_size priority tick s = do {
     let s1 = list_remove t s;
     rt_assert (unat priority < RT_THREAD_PRIORITY_MAX);
     let s2 = upd_thread t (\<lambda>th. th\<lparr>th_entry := entry, th_parameter := parameter,
         stack_addr := stack_start, stack_size := stk_size,
         stack_guard := (if stk_size = 0 then stack_guard th else 0x23),
         sp := rt_hw_stack_init (stack_start + stk_size - 4),
         init_priority := priority, current_priority := priority, number_mask := 0,
         init_tick := tick, remaining_tick := tick, th_error := RT_EOK, stat := RT_THREAD_INIT\<rparr>) s1;
     s3 \<leftarrow> rt_timer_init (ThreadTimer t) name Fn_rt_thread_timeout t 0 RT_TIMER_FLAG_ONE_SHOT s2;
     Some (s3, RT_EOK) }"

definition rt_thread_init :: "tid \<Rightarrow> string \<Rightarrow> nat \<Rightarrow> nat \<Rightarrow> u32 \<Rightarrow> u32 \<Rightarrow> u8 \<Rightarrow> u32 \<Rightarrow> kernel \<Rightarrow> (kernel \<times> rt_err_t) option" where
  "rt_thread_init t name entry parameter stack_start stk_size priority tick s = do {
     rt_assert (stack_start \<noteq> 0);
     s1 \<leftarrow> rt_object_init (ThreadObj t) RT_Object_Class_Thread name (touch_thread t s);
     thread_init t name entry parameter stack_start stk_size priority tick s1 }"

definition rt_thread_startup :: "tid \<Rightarrow> kernel \<Rightarrow> (kernel \<times> rt_err_t) option" where
  "rt_thread_startup t s = do {
     th \<leftarrow> threads s t;
     rt_assert (tstate th = RT_THREAD_INIT);
     rt_assert (rt_object_get_type (th_type th) = RT_Object_Class_Thread);
     let s1 = upd_thread t (\<lambda>th. th\<lparr>current_priority := init_priority th,
         number_mask := push_bit (unat (init_priority th)) 1, stat := RT_THREAD_SUSPEND\<rparr>) s;
     (s2, _) \<leftarrow> rt_thread_resume t s1;
     if rt_thread_self s2 \<noteq> None
     then do { s3 \<leftarrow> rt_schedule s2; Some (s3, RT_EOK) }
     else Some (s2, RT_EOK) }"

section \<open>Closing threads\<close>

definition rt_thread_exit :: "kernel \<Rightarrow> kernel option" where
  "rt_thread_exit s = do {
     t \<leftarrow> rt_thread_self s;
     s1 \<leftarrow> rt_schedule_remove_thread t s;
     let s2 = upd_thread t (stat_update (\<lambda>_. RT_THREAD_CLOSE)) s1;
     (s3, _) \<leftarrow> rt_timer_detach (ThreadTimer t) s2;
     th \<leftarrow> threads s3 t;
     let s4 = (if rt_object_is_systemobject (th_type th) then rt_object_detach (ThreadObj t) s3
               else list_insert_after DefunctQ t s3);
     rt_schedule s4 }"

definition rt_thread_detach :: "tid \<Rightarrow> kernel \<Rightarrow> (kernel \<times> rt_err_t) option" where
  "rt_thread_detach t s = do {
     th \<leftarrow> threads s t;
     rt_assert (rt_object_get_type (th_type th) = RT_Object_Class_Thread);
     rt_assert (rt_object_is_systemobject (th_type th));
     if tstate th = RT_THREAD_CLOSE then Some (s, RT_EOK)
     else do {
       s1 \<leftarrow> (if tstate th \<noteq> RT_THREAD_INIT then rt_schedule_remove_thread t s else Some s);
       (s2, _) \<leftarrow> rt_timer_detach (ThreadTimer t) s1;
       let s3 = upd_thread t (stat_update (\<lambda>_. RT_THREAD_CLOSE)) s2;
       Some (if rt_object_is_systemobject (th_type th) then rt_object_detach (ThreadObj t) s3
             else list_insert_after DefunctQ t s3, RT_EOK) } }"

text \<open>\<open>mem\<close> and \<open>stack\<close> are the answers of the allocator for the control block and the stack.\<close>

definition rt_thread_create :: "tid option \<Rightarrow> u32 option \<Rightarrow> string \<Rightarrow> nat \<Rightarrow> nat \<Rightarrow> u32 \<Rightarrow> u8 \<Rightarrow> u32 \<Rightarrow> kernel
     \<Rightarrow> (kernel \<times> tid option) option" where
  "rt_thread_create mem stack name entry parameter stk_size priority tick s = do {
     let s0 = (case mem of None \<Rightarrow> s | Some t \<Rightarrow> s\<lparr>threads := (threads s)(t \<mapsto> zero_thread)\<rparr>);
     (s1, _) \<leftarrow> rt_object_allocate (map_option ThreadObj mem) RT_Object_Class_Thread name s0;
     case mem of None \<Rightarrow> Some (s1, None)
     | Some t \<Rightarrow> (case stack of
         None \<Rightarrow> do { s2 \<leftarrow> rt_object_delete (ThreadObj t) s1; Some (s2, None) }
       | Some stack_start \<Rightarrow> do {
           (s2, _) \<leftarrow> thread_init t name entry parameter stack_start stk_size priority tick s1;
           Some (s2, Some t) }) }"

definition rt_thread_delete :: "tid \<Rightarrow> kernel \<Rightarrow> (kernel \<times> rt_err_t) option" where
  "rt_thread_delete t s = do {
     th \<leftarrow> threads s t;
     rt_assert (rt_object_get_type (th_type th) = RT_Object_Class_Thread);
     rt_assert (\<not> rt_object_is_systemobject (th_type th));
     if tstate th = RT_THREAD_CLOSE then Some (s, RT_EOK)
     else do {
       s1 \<leftarrow> (if tstate th \<noteq> RT_THREAD_INIT then rt_schedule_remove_thread t s else Some s);
       (s2, _) \<leftarrow> rt_timer_detach (ThreadTimer t) s1;
       let s3 = upd_thread t (stat_update (\<lambda>_. RT_THREAD_CLOSE)) s2;
       Some (list_insert_after DefunctQ t s3, RT_EOK) } }"

section \<open>Yielding, sleeping and changing the priority\<close>

definition rt_thread_yield :: "kernel \<Rightarrow> (kernel \<times> rt_err_t) option" where
  "rt_thread_yield s = do {
     t \<leftarrow> rt_thread_self s;
     let s1 = upd_thread t (\<lambda>th. th\<lparr>remaining_tick := init_tick th, stat := stat th OR RT_THREAD_STAT_YIELD\<rparr>) s;
     s2 \<leftarrow> rt_schedule s1;
     Some (s2, RT_EOK) }"

text \<open>The start of the thread's timer, as in all waiting functions.\<close>

definition start_thread_timer :: "tid \<Rightarrow> u32 \<Rightarrow> kernel \<Rightarrow> kernel option" where
  "start_thread_timer t tick s = do {
     (s1, _) \<leftarrow> rt_timer_control (ThreadTimer t) RT_TIMER_CTRL_SET_TIME tick s;
     (s2, _) \<leftarrow> rt_timer_start (ThreadTimer t) s1;
     Some s2 }"

definition rt_thread_sleep :: "u32 \<Rightarrow> kernel \<Rightarrow> kernel option" where
  "rt_thread_sleep tick s = do {
     t \<leftarrow> rt_thread_self s;
     th \<leftarrow> threads s t;
     rt_assert (rt_object_get_type (th_type th) = RT_Object_Class_Thread);
     (s1, _) \<leftarrow> rt_thread_suspend t s;
     s2 \<leftarrow> start_thread_timer t tick s1;
     rt_schedule s2 }"

definition rt_thread_sleep_return :: "tid \<Rightarrow> kernel \<Rightarrow> (kernel \<times> rt_err_t) option" where
  "rt_thread_sleep_return t s = do {
     th \<leftarrow> threads s t;
     Some (if th_error th = - RT_ETIMEOUT then upd_thread t (th_error_update (\<lambda>_. RT_EOK)) s else s, RT_EOK) }"

definition rt_thread_delay :: "u32 \<Rightarrow> kernel \<Rightarrow> kernel option" where
  "rt_thread_delay tick s = rt_thread_sleep tick s"

definition rt_thread_mdelay :: "int \<Rightarrow> kernel \<Rightarrow> kernel option" where
  "rt_thread_mdelay ms s = rt_thread_sleep (rt_tick_from_millisecond ms) s"

text \<open>The result tells whether the thread waits; \<^verbatim>\<open>*tick\<close> is set by \<open>rt_thread_delay_until_return\<close>.\<close>

definition rt_thread_delay_until :: "u32 \<Rightarrow> u32 \<Rightarrow> kernel \<Rightarrow> (kernel \<times> bool) option" where
  "rt_thread_delay_until tick inc_tick s = do {
     t \<leftarrow> rt_thread_self s;
     th \<leftarrow> threads s t;
     rt_assert (rt_object_get_type (th_type th) = RT_Object_Class_Thread);
     if rt_tick_get s - tick < inc_tick
     then do {
       (s1, _) \<leftarrow> rt_thread_suspend t s;
       s2 \<leftarrow> start_thread_timer t (tick + inc_tick - rt_tick_get s) s1;
       s3 \<leftarrow> rt_schedule s2;
       Some (s3, True) }
     else Some (s, False) }"

definition rt_thread_delay_until_return :: "tid \<Rightarrow> bool \<Rightarrow> kernel \<Rightarrow> (kernel \<times> u32 \<times> rt_err_t) option" where
  "rt_thread_delay_until_return t waited s = do {
     (s1, _) \<leftarrow> (if waited then rt_thread_sleep_return t s else Some (s, RT_EOK));
     Some (s1, rt_tick_get s1, RT_EOK) }"

definition set_priority :: "u8 \<Rightarrow> rt_thread \<Rightarrow> rt_thread" where
  "set_priority p th = th\<lparr>current_priority := p, number_mask := push_bit (unat p) 1\<rparr>"

definition change_priority :: "tid \<Rightarrow> u8 \<Rightarrow> kernel \<Rightarrow> kernel option" where
  "change_priority t p s = do {
     th \<leftarrow> threads s t;
     if tstate th = RT_THREAD_READY
     then do {
       s1 \<leftarrow> rt_schedule_remove_thread t s;
       rt_schedule_insert_thread t (upd_thread t (set_priority p) s1) }
     else Some (upd_thread t (set_priority p) s) }"

definition rt_thread_control :: "tid \<Rightarrow> nat \<Rightarrow> u8 \<Rightarrow> kernel \<Rightarrow> (kernel \<times> rt_err_t) option" where
  "rt_thread_control t cmd arg s = do {
     th \<leftarrow> threads s t;
     rt_assert (rt_object_get_type (th_type th) = RT_Object_Class_Thread);
     if cmd = RT_THREAD_CTRL_CHANGE_PRIORITY
     then do { s1 \<leftarrow> change_priority t arg s; Some (s1, RT_EOK) }
     else if cmd = RT_THREAD_CTRL_STARTUP then rt_thread_startup t s
     else if cmd = RT_THREAD_CTRL_CLOSE
     then (if rt_object_is_systemobject (th_type th) then rt_thread_detach t s else rt_thread_delete t s)
     else Some (s, RT_EOK) }"

definition rt_thread_find :: "string \<Rightarrow> kernel \<Rightarrow> (kernel \<times> objref option) option" where
  "rt_thread_find name s = rt_object_find name RT_Object_Class_Thread s"

section \<open>The idle thread: idle.c\<close>

text \<open>The hook list has \<^verbatim>\<open>RT_IDLE_HOOK_LIST_SIZE\<close> = 4 entries; \<^verbatim>\<open>RT_NULL\<close> is \<open>None\<close>.\<close>

fun replace_first :: "'a \<Rightarrow> 'a \<Rightarrow> 'a list \<Rightarrow> 'a list option" where
  "replace_first x y [] = None"
| "replace_first x y (z # zs) = (if z = x then Some (y # zs) else map_option ((#) z) (replace_first x y zs))"

definition rt_thread_idle_sethook :: "nat option \<Rightarrow> nat option list \<Rightarrow> nat option list \<times> rt_err_t" where
  "rt_thread_idle_sethook hook hooks = (case replace_first None hook hooks of
       None \<Rightarrow> (hooks, - RT_EFULL) | Some hooks' \<Rightarrow> (hooks', RT_EOK))"

definition rt_thread_idle_delhook :: "nat option \<Rightarrow> nat option list \<Rightarrow> nat option list \<times> rt_err_t" where
  "rt_thread_idle_delhook hook hooks = (case replace_first hook None hooks of
       None \<Rightarrow> (hooks, - RT_ENOSYS) | Some hooks' \<Rightarrow> (hooks', RT_EOK))"

partial_function (option) idle_excute_loop :: "kernel \<Rightarrow> kernel option" where
  "idle_excute_loop s = (case queues s DefunctQ of
       [] \<Rightarrow> Some s
     | t # _ \<Rightarrow> do {
         s1 \<leftarrow> rt_object_delete (ThreadObj t) (list_remove t s);
         idle_excute_loop s1 })"

definition rt_thread_idle_excute :: "kernel \<Rightarrow> kernel option" where
  "rt_thread_idle_excute s = do { RT_DEBUG_NOT_IN_INTERRUPT s; idle_excute_loop s }"

definition rt_thread_idle_init :: "tid \<Rightarrow> u32 \<Rightarrow> u32 \<Rightarrow> kernel \<Rightarrow> kernel option" where
  "rt_thread_idle_init idle stack stk_size s = do {
     (s1, _) \<leftarrow> rt_thread_init idle ''tidle0'' 0 0 stack stk_size (of_nat (RT_THREAD_PRIORITY_MAX - 1)) 32 s;
     (s2, _) \<leftarrow> rt_thread_startup idle s1;
     Some s2 }"


section \<open>Waiting with a timeout\<close>

lemma kernel_inv_upd_timer_period:
  assumes inv: "kernel_inv s" and tm: "timers s m = Some tm"
  shows "kernel_inv (upd_timer m (tm_init_tick_update (\<lambda>_. x)) s)"
proof -
  let ?s = "upd_timer m (tm_init_tick_update (\<lambda>_. x)) s"
  have "same_sched s ?s" by (simp add: same_sched_def upd_timer_def)
  then have "sched_inv ?s" using winv_same_sched kernel_invD(1) [OF inv] by blast
  moreover have "timer_lists_ok ?s" using kernel_invD(2) [OF inv] tm
    unfolding timer_lists_ok_def upd_timer_def by (simp add: active_def) (metis option.inject)
  moreover have "tt_cons ?s t" for t
    using kernel_invD(3) [OF inv, of t] unfolding tt_cons_def upd_timer_def
    by (auto simp: active_def thread_timer_ok_def split: option.splits)
  ultimately show ?thesis by (simp add: kernel_inv_def timer_inv_def)
qed

lemma start_thread_timer_spec:
  assumes inv: "kernel_inv s" and th: "threads s t = Some th" and st: "tstate th = RT_THREAD_SUSPEND"
    and tick: "tick < half_tick"
  obtains s' tm where "start_thread_timer t tick s = Some s'" "kernel_inv s'" "sched_frame s s'" "same_sched s s'"
    "timers s' (ThreadTimer t) = Some tm" "active tm" "timeout_tick tm = rt_tick s + tick"
    "ThreadTimer t \<in> set (timer_queues s' HardTimers)"
proof -
  obtain tm where tm: "timers s (ThreadTimer t) = Some tm" "thread_timer_ok t tm"
    by (rule kernel_inv_live [OF inv th]) (use st in auto)
  let ?s1 = "upd_timer (ThreadTimer t) (tm_init_tick_update (\<lambda>_. tick)) s"
  let ?tm = "tm\<lparr>tm_init_tick := tick\<rparr>"
  have inv1: "kernel_inv ?s1" by (rule kernel_inv_upd_timer_period [OF inv tm(1)])
  have t1: "threads ?s1 t = Some th" "timers ?s1 (ThreadTimer t) = Some ?tm" "tm_init_tick ?tm < half_tick"
    "sched_frame s ?s1" "same_sched s ?s1" "rt_tick ?s1 = rt_tick s"
    using th tm tick by (simp_all add: upd_timer_def sched_frame_def same_sched_def)
  obtain s' where s': "rt_timer_start (ThreadTimer t) ?s1 = Some (s', RT_EOK)" "kernel_inv s'" "sched_frame ?s1 s'"
    "same_sched ?s1 s'" "timers s' = (timers ?s1)(ThreadTimer t \<mapsto> armed (rt_tick ?s1) ?tm)"
    "timer_queues s' = start_queues (ThreadTimer t) ?tm ?s1"
    "ThreadTimer t \<in> set (timer_queues s' HardTimers)"
    by (rule thread_timer_start [OF inv1 t1(1) st t1(2,3)])
  have "rt_timer_control (ThreadTimer t) RT_TIMER_CTRL_SET_TIME tick s = Some (?s1, RT_EOK, tick)"
    using tm by (simp add: rt_timer_control_def thread_timer_ok_def)
  then have "start_thread_timer t tick s = Some s'" using s'(1) by (simp add: start_thread_timer_def)
  moreover have "same_sched s s'" using s'(4) t1(5) by (simp add: same_sched_def)
  moreover have "timers s' (ThreadTimer t) = Some (armed (rt_tick ?s1) ?tm)" using s'(5) by simp
  ultimately show thesis
    using that [OF _ s'(2) sched_frame_trans [OF t1(4) s'(3)] _ _ _ _ s'(7)] t1(6) by simp
qed

text \<open>Every state in which some thread is ready and the scheduler is unlocked lets the caller be preempted.\<close>

lemma rt_schedule_leaves_suspended:
  assumes inv: "kernel_inv s" and cur: "rt_current_thread s = Some c" and c: "threads s c = Some cth"
    and st: "tstate cth = RT_THREAD_SUSPEND" and lock: "rt_scheduler_lock_nest s = 0"
    and g: "rt_thread_ready_priority_group s \<noteq> 0"
  obtains s' where "rt_schedule s = Some s'" "kernel_inv s'" "rt_current_thread s' \<noteq> Some c"
    "rt_current_thread s' \<noteq> None" "sched_frame s s'" "timers_frame s s'" "threads s' c = Some cth"
    "\<And>u uth. threads s u = Some uth \<Longrightarrow> \<exists>uth'. threads s' u = Some uth' \<and> same_thread uth uth'"
proof -
  have si: "sched_inv s" by (rule kernel_invD(1) [OF inv])
  obtain t p ts where hi: "get_highest_priority_thread s = Some (t, p)" "queues s (ReadyQ p) = t # ts"
    using get_highest_SomeD [OF winv_queue_ok [OF si] g] by metis
  have cur': "rt_current_thread s \<noteq> None" using cur by simp
  obtain s' where s': "rt_schedule s = Some s'" "kernel_inv s'" "rt_current_thread s' \<noteq> None"
    "sched_frame s s'" "timers_frame s s'"
    "\<And>t th. threads s t = Some th \<Longrightarrow> \<exists>th'. threads s' t = Some th' \<and> same_thread th th'"
    by (rule rt_schedule_kernel [OF inv cur']) blast
  have "rt_current_thread s' \<noteq> Some c \<and> threads s' c = Some cth"
  proof (cases rule: rt_schedule_cases [OF si cur lock g hi c])
    case (1 s1)
    then show ?thesis using st by simp
  next
    case (2 s1 th)
    then show ?thesis using s'(1) st c by simp
  qed
  with s' show thesis using that by blast
qed

text \<open>\<^verbatim>\<open>rt_thread_sleep\<close> (and \<^verbatim>\<open>rt_thread_delay\<close>): the calling thread is suspended, its timer runs and ends
  exactly \<open>tick\<close> ticks later (modulo \<open>2^32\<close>), another thread has the processor, and the kernel invariant
  holds, for every delay below half the range of the tick counter.\<close>

theorem rt_thread_sleep_arms_timer:
  assumes "kernel_inv s" and "rt_current_thread s = Some c" and "threads s c = Some cth"
    and "tstate cth = RT_THREAD_RUNNING" and "tick < half_tick" and "rt_scheduler_lock_nest s = 0"
    and "rt_thread_ready_priority_group s \<noteq> 0"
  shows "\<exists>s' th tm. rt_thread_sleep tick s = Some s' \<and> kernel_inv s' \<and> rt_current_thread s' \<noteq> Some c \<and>
     threads s' c = Some th \<and> tstate th = RT_THREAD_SUSPEND \<and>
     timers s' (ThreadTimer c) = Some tm \<and> active tm \<and> timeout_tick tm = rt_tick s + tick \<and>
     ThreadTimer c \<in> set (timer_queues s' HardTimers)"
proof -
  let ?cth = "set_state RT_THREAD_SUSPEND cth"
  obtain s1 where s1: "rt_thread_suspend c s = Some (s1, RT_EOK)" "kernel_inv s1"
    "threads s1 = (threads s)(c \<mapsto> ?cth)" "queues s1 = (\<lambda>q. removeAll c (queues s q))"
    "rt_current_thread s1 = rt_current_thread s" "sched_frame s s1" "timers_frame s s1"
    by (rule rt_thread_suspend_spec [OF assms(1,3)]) (use assms(4) in auto)
  have c1: "threads s1 c = Some ?cth" "tstate ?cth = RT_THREAD_SUSPEND" using s1(3) by simp_all
  obtain s2 tm where s2: "start_thread_timer c tick s1 = Some s2" "kernel_inv s2" "sched_frame s1 s2" "same_sched s1 s2"
    "timers s2 (ThreadTimer c) = Some tm" "active tm" "timeout_tick tm = rt_tick s1 + tick"
    "ThreadTimer c \<in> set (timer_queues s2 HardTimers)"
    by (rule start_thread_timer_spec [OF s1(2) c1 assms(5)])
  have si: "sched_inv s" by (rule kernel_invD(1) [OF assms(1)])
  have nq: "nowhere s c" using tcons_running [OF winv_tcons [OF si] assms(3,4)] by simp
  have q2: "queues s2 = queues s" using s2(4) s1(4) nq by (simp add: same_sched_def nowhere_def fun_eq_iff)
  have g2: "rt_thread_ready_priority_group s2 \<noteq> 0"
    using assms(7) winv_queue_ok [OF si] winv_queue_ok [OF kernel_invD(1) [OF s2(2)]] q2
    by (auto simp: queue_ok_def bit_eq_iff)
  have lock: "rt_scheduler_lock_nest s2 = 0" using assms(6) s1(6) s2(3) by (simp add: sched_frame_def)
  have c2: "rt_current_thread s2 = Some c" "threads s2 c = Some ?cth"
    using s2(4) s1(5) assms(2) c1 by (simp_all add: same_sched_def)
  obtain s3 where s3: "rt_schedule s2 = Some s3" "kernel_inv s3" "rt_current_thread s3 \<noteq> Some c"
    "timers_frame s2 s3" "threads s3 c = Some ?cth"
    by (rule rt_schedule_leaves_suspended [OF s2(2) c2 c1(2) lock g2]) blast
  have "rt_object_get_type (th_type cth) = RT_Object_Class_Thread"
    by (rule kernel_inv_live [OF assms(1,3)]) (use assms(4) in auto)
  then have "rt_thread_sleep tick s = Some s3"
    using assms(2,3) s1(1) s2(1) s3(1) by (simp add: rt_thread_sleep_def rt_thread_self_def)
  moreover have "rt_tick s1 = rt_tick s" using s1(6) by (simp add: sched_frame_def)
  ultimately show ?thesis using s3 s2(5-8) c1(2) by auto
qed

theorem rt_thread_sleep_arms_timer_witness:
  "\<exists>s' th tm. rt_thread_sleep 100 (demo_kernel 0) = Some s' \<and> kernel_inv s' \<and> rt_current_thread s' \<noteq> Some 1 \<and>
     threads s' 1 = Some th \<and> tstate th = RT_THREAD_SUSPEND \<and>
     timers s' (ThreadTimer 1) = Some tm \<and> active tm \<and> timeout_tick tm = rt_tick (demo_kernel 0) + 100 \<and>
     ThreadTimer 1 \<in> set (timer_queues s' HardTimers)"
  by (rule rt_thread_sleep_arms_timer [of _ _ "demo_thread 3 10"]) (simp_all add: demo_kernel_inv)


section \<open>Starting a thread and changing its priority\<close>

text \<open>What \<^verbatim>\<open>rt_thread_init\<close> leaves: a priority in range and a stack that passes the overflow check.\<close>

definition startable :: "rt_thread \<Rightarrow> bool" where
  "startable th \<longleftrightarrow> tstate th = RT_THREAD_INIT \<and> unat (init_priority th) < RT_THREAD_PRIORITY_MAX \<and>
     \<not> stack_overflow th"

lemma kernel_inv_settle:
  assumes inv: "kernel_inv s" and th: "threads s t = Some th" and st: "tstate th \<noteq> RT_THREAD_CLOSE"
    and f: "thread_ok (f th)" "tstate (f th) = RT_THREAD_SUSPEND" "th_type (f th) = th_type th"
    and nq: "\<And>p. t \<notin> set (queues s (ReadyQ p))" "t \<notin> set (queues s DefunctQ)"
    and act: "\<And>tm. timers s (ThreadTimer t) = Some tm \<Longrightarrow> tstate th \<noteq> RT_THREAD_SUSPEND \<Longrightarrow> \<not> active tm"
  shows "kernel_inv (upd_thread t f s)"
proof -
  let ?s = "upd_thread t f s"
  have "tcons ?s t" using th f nq by (auto simp: tcons_def upd_thread_def)
  then have "winv ({t} - {t}) ?s"
    by (intro winv_leave winv_upd_thread winv_mono [OF kernel_invD(1) [OF inv]]) auto
  moreover have "tt_cons ?s t'" for t'
  proof (cases "t' = t")
    case True
    show ?thesis by (rule kernel_inv_live [OF inv th st]) (use True th f in \<open>auto simp: tt_cons_def upd_thread_def\<close>)
  next
    case False
    show ?thesis using kernel_invD(3) [OF inv, of t']
      by (subst tt_cons_cong [of ?s t' s]) (use False in \<open>simp_all add: upd_thread_def\<close>)
  qed
  ultimately show ?thesis using kernel_invD(2) [OF inv]
    by (simp add: kernel_inv_def timer_inv_def timer_lists_ok_def upd_thread_def)
qed

text \<open>Starting an initialised thread puts it under the scheduler: \<^verbatim>\<open>rt_thread_startup\<close> returns
  \<^verbatim>\<open>RT_EOK\<close>, the thread is ready or already running at its initial priority, and the kernel invariant
  holds. A thread in any other state does not pass its assertion.\<close>

theorem rt_thread_startup_makes_ready:
  assumes "kernel_inv s" and "threads s t = Some th" and "startable th" and "rt_current_thread s \<noteq> None"
  shows "\<exists>s' th'. rt_thread_startup t s = Some (s', RT_EOK) \<and> kernel_inv s' \<and> threads s' t = Some th' \<and>
     tstate th' \<in> {RT_THREAD_READY, RT_THREAD_RUNNING} \<and> current_priority th' = init_priority th"
proof -
  let ?f = "\<lambda>th. th\<lparr>current_priority := init_priority th, number_mask := push_bit (unat (init_priority th)) 1,
    stat := RT_THREAD_SUSPEND\<rparr>"
  let ?s1 = "upd_thread t ?f s"
  have st: "tstate th = RT_THREAD_INIT" using assms(3) by (simp add: startable_def)
  have tc: "nowhere s t" "rt_current_thread s \<noteq> Some t"
    using winv_tcons [OF kernel_invD(1) [OF assms(1)], of t] assms(2) st by (auto simp: tcons_def)
  obtain tm where tm: "timers s (ThreadTimer t) = Some tm" "\<not> active tm"
    and ty: "rt_object_get_type (th_type th) = RT_Object_Class_Thread"
    by (rule kernel_inv_live [OF assms(1,2)]) (use st in auto)
  have ok: "thread_ok (?f th)" using assms(3)
    by (simp add: startable_def thread_ok_def prio_ok_def stack_overflow_def)
  have inv1: "kernel_inv ?s1"
    by (rule kernel_inv_settle [OF assms(1,2)]) (use st ok tc tm in \<open>auto simp: nowhere_def\<close>)
  have t1: "threads ?s1 t = Some (?f th)" "tstate (?f th) = RT_THREAD_SUSPEND"
    using assms(2) by (simp_all add: upd_thread_def)
  obtain s2 where s2: "rt_thread_resume t ?s1 = Some (s2, RT_EOK)" "kernel_inv s2"
    "threads s2 = (threads ?s1)(t \<mapsto> woken ?s1 t (?f th))" "rt_current_thread s2 = rt_current_thread ?s1"
    by (rule rt_thread_resume_spec [OF inv1 t1])
  have cur2: "rt_current_thread s2 \<noteq> None" using s2(4) assms(4) by (simp add: upd_thread_def)
  obtain s3 where s3: "rt_schedule s2 = Some s3" "kernel_inv s3"
    "\<And>u uth. threads s2 u = Some uth \<Longrightarrow> \<exists>uth'. threads s3 u = Some uth' \<and> same_thread uth uth'"
    by (rule rt_schedule_kernel [OF s2(2) cur2]) blast
  obtain th' where th': "threads s3 t = Some th'" "same_thread (woken ?s1 t (?f th)) th'"
    using s3(3) [of t] s2(3) by auto
  have "rt_thread_startup t s = Some (s3, RT_EOK)"
    using assms(2) st ty s2(1) s3(1) cur2 by (simp add: rt_thread_startup_def rt_thread_self_def)
  moreover have "tstate th' \<in> {RT_THREAD_READY, RT_THREAD_RUNNING}"
    using th'(2) by (auto simp: same_thread_def split: if_splits)
  moreover have "current_priority th' = init_priority th" using same_threadD(2) [OF th'(2)] by simp
  ultimately show ?thesis using s3(2) th'(1) by blast
qed

theorem rt_thread_startup_makes_ready_witness:
  "\<exists>s' th'. rt_thread_startup 4 (demo_kernel 0) = Some (s', RT_EOK) \<and> kernel_inv s' \<and> threads s' 4 = Some th' \<and>
     tstate th' \<in> {RT_THREAD_READY, RT_THREAD_RUNNING} \<and> current_priority th' = 7"
proof -
  have "startable (demo_thread 0 7)"
    using demo_thread_ok [of 7 0] by (simp add: startable_def thread_ok_def demo_thread_def)
  then show ?thesis using rt_thread_startup_makes_ready [of "demo_kernel 0" 4 "demo_thread 0 7"]
    by (simp add: demo_kernel_inv) (simp add: demo_thread_def)
qed

lemma kernel_inv_transfer:
  assumes inv: "kernel_inv s" and si: "sched_inv s'" and f: "timers_frame s s'"
    and th: "threads s t = Some th" "threads s' = (threads s)(t \<mapsto> th')"
    and same: "th_type th' = th_type th" "tstate th' = tstate th"
  shows "kernel_inv s'"
proof -
  have "tt_cons s' t'" for t'
  proof (cases "t' = t")
    case True
    then show ?thesis using kernel_invD(3) [OF inv, of t] f th same by (simp add: tt_cons_def)
  next
    case False
    show ?thesis using kernel_invD(3) [OF inv, of t']
      by (subst tt_cons_cong [of s' t' s]) (use False f th in simp_all)
  qed
  moreover have "timer_lists_ok s'" using kernel_invD(2) [OF inv] f by (simp add: timer_lists_ok_def)
  ultimately show ?thesis using si by (simp add: kernel_inv_def timer_inv_def)
qed

lemma set_priority_simps [simp]:
  "stat (set_priority p th) = stat th" "th_type (set_priority p th) = th_type th"
  "current_priority (set_priority p th) = p" "init_priority (set_priority p th) = init_priority th"
  "th_error (set_priority p th) = th_error th"
  by (simp_all add: set_priority_def)

lemma thread_ok_set_priority:
  "thread_ok th \<Longrightarrow> unat p < RT_THREAD_PRIORITY_MAX \<Longrightarrow> thread_ok (set_priority p th)"
  by (simp add: thread_ok_def prio_ok_def stack_overflow_def set_priority_def)

lemma change_priority_ready:
  assumes inv: "kernel_inv s" and th: "threads s t = Some th" and p: "unat p < RT_THREAD_PRIORITY_MAX"
    and st: "tstate th = RT_THREAD_READY"
  obtains s' where "change_priority t p s = Some s'" "kernel_inv s'"
    "sched_frame s s'" "timers_frame s s'" "rt_current_thread s' = rt_current_thread s"
    "threads s' = (threads s)(t \<mapsto> set_state RT_THREAD_READY (set_priority p th))"
    "queues s' = (\<lambda>q. removeAll t (queues s q))
       (ReadyQ (unat p) := removeAll t (queues s (ReadyQ (unat p))) @ [t])"
proof -
  have si: "sched_inv s" by (rule kernel_invD(1) [OF inv])
  have ok: "thread_ok th" and nc: "rt_current_thread s \<noteq> Some t"
    using winv_tcons [OF si, of t] th st by (auto simp: tcons_def)
  obtain g where g: "rt_schedule_remove_thread t s =
       Some (s\<lparr>queues := (\<lambda>q. removeAll t (queues s q)), rt_thread_ready_priority_group := g\<rparr>)"
    "winv {t} (s\<lparr>queues := (\<lambda>q. removeAll t (queues s q)), rt_thread_ready_priority_group := g\<rparr>)"
    using remove_Some [OF si th thread_ok_prio [OF ok] tcons_homed [OF si _ th]] by auto
  let ?s1 = "s\<lparr>queues := (\<lambda>q. removeAll t (queues s q)), rt_thread_ready_priority_group := g\<rparr>"
  let ?s2 = "upd_thread t (set_priority p) ?s1"
  have w2: "winv {t} ?s2" by (rule winv_upd_thread [OF g(2)]) simp
  have t2: "threads ?s2 t = Some (set_priority p th)" "nowhere ?s2 t" "rt_current_thread ?s2 = rt_current_thread s"
    using th by (simp_all add: upd_thread_def nowhere_def)
  obtain s' where s': "rt_schedule_insert_thread t ?s2 = Some s'" "winv ({t} - {t}) s'"
    "threads s' = (threads ?s2)(t \<mapsto> set_state (if rt_current_thread ?s2 = Some t
        then RT_THREAD_RUNNING else RT_THREAD_READY) (set_priority p th))"
    "queues s' = (if rt_current_thread ?s2 = Some t then queues ?s2
       else (queues ?s2)(ReadyQ (unat (current_priority (set_priority p th))) :=
          queues ?s2 (ReadyQ (unat (current_priority (set_priority p th)))) @ [t]))"
    "s' = ?s2\<lparr>threads := threads s', queues := queues s',
       rt_thread_ready_priority_group := rt_thread_ready_priority_group s'\<rparr>"
    by (rule insert_Some [OF w2 t2(1) thread_ok_set_priority [OF ok p] t2(2)])
  have c': "rt_current_thread s' = rt_current_thread s" by (subst s'(5)) (simp add: t2(3))
  have th': "threads s' = (threads s)(t \<mapsto> set_state RT_THREAD_READY (set_priority p th))"
    unfolding s'(3) using nc by (simp add: upd_thread_def)
  have q': "queues s' = (\<lambda>q. removeAll t (queues s q))
       (ReadyQ (unat p) := removeAll t (queues s (ReadyQ (unat p))) @ [t])"
    using s'(4) nc t2(3) by (simp add: upd_thread_def)
  have f: "sched_frame s s'" "timers_frame s s'"
    using insert_frame [OF s'(1)] by (simp_all add: sched_frame_def upd_thread_def)
  have "kernel_inv s'" by (rule kernel_inv_transfer [OF inv _ f(2) th th']) (use s'(2) st in simp_all)
  moreover have "change_priority t p s = Some s'" using th st g(1) s'(1) by (simp add: change_priority_def)
  ultimately show thesis using that f c' th' q' by blast
qed

lemma change_priority_other:
  assumes inv: "kernel_inv s" and th: "threads s t = Some th" and p: "unat p < RT_THREAD_PRIORITY_MAX"
    and st: "tstate th \<noteq> RT_THREAD_READY"
  shows "change_priority t p s = Some (upd_thread t (set_priority p) s)"
    "kernel_inv (upd_thread t (set_priority p) s)"
proof -
  let ?s = "upd_thread t (set_priority p) s"
  have tc: "tcons ?s t" using winv_tcons [OF kernel_invD(1) [OF inv], of t] th st thread_ok_set_priority [OF _ p]
    by (auto simp: tcons_def upd_thread_def nowhere_def)
  have "winv ({t} - {t}) ?s"
    by (intro winv_leave winv_upd_thread winv_mono [OF kernel_invD(1) [OF inv]] tc) auto
  then have w: "sched_inv ?s" by simp
  show "kernel_inv ?s"
    by (rule kernel_inv_transfer [OF inv w _ th, of "set_priority p th"]) (use th in \<open>simp_all add: upd_thread_def\<close>)
  show "change_priority t p s = Some ?s" using th st by (simp add: change_priority_def)
qed

text \<open>\<^verbatim>\<open>rt_thread_control\<close> with \<^verbatim>\<open>RT_THREAD_CTRL_CHANGE_PRIORITY\<close> gives the thread the new priority and
  keeps the kernel invariant, whatever state the thread is in: a ready thread is moved to the end of the
  queue of the new priority with the ready bitmap following, any other keeps its place.\<close>

theorem rt_thread_control_changes_priority:
  assumes "kernel_inv s" and "threads s t = Some th" and "tstate th \<noteq> RT_THREAD_CLOSE"
    and "unat p < RT_THREAD_PRIORITY_MAX"
  shows "\<exists>s' th'. rt_thread_control t RT_THREAD_CTRL_CHANGE_PRIORITY p s = Some (s', RT_EOK) \<and> kernel_inv s' \<and>
     threads s' t = Some th' \<and> current_priority th' = p \<and> tstate th' = tstate th \<and>
     (tstate th = RT_THREAD_READY \<longrightarrow> (\<exists>ts. queues s' (ReadyQ (unat p)) = ts @ [t]) \<and>
        bit (rt_thread_ready_priority_group s') (unat p)) \<and>
     (tstate th \<noteq> RT_THREAD_READY \<longrightarrow> queues s' = queues s)"
proof -
  have ty: "rt_object_get_type (th_type th) = RT_Object_Class_Thread" by (rule kernel_inv_live [OF assms(1-3)])
  show ?thesis
  proof (cases "tstate th = RT_THREAD_READY")
    case True
    obtain s' where s': "change_priority t p s = Some s'" "kernel_inv s'"
      "threads s' = (threads s)(t \<mapsto> set_state RT_THREAD_READY (set_priority p th))"
      "queues s' = (\<lambda>q. removeAll t (queues s q))
         (ReadyQ (unat p) := removeAll t (queues s (ReadyQ (unat p))) @ [t])"
      by (rule change_priority_ready [OF assms(1,2,4) True])
    have "bit (rt_thread_ready_priority_group s') (unat p)"
      using winv_queue_ok [OF kernel_invD(1) [OF s'(2)]] s'(4) by (simp add: queue_ok_def)
    then show ?thesis using s' assms(2) ty True by (auto simp: rt_thread_control_def)
  next
    case False
    then show ?thesis using change_priority_other [OF assms(1,2,4) False] assms(2) ty
      by (simp add: rt_thread_control_def) (simp add: upd_thread_def)
  qed
qed

theorem rt_thread_control_changes_priority_witness:
  "\<exists>s' th'. rt_thread_control 2 RT_THREAD_CTRL_CHANGE_PRIORITY 3 (demo_kernel 0) = Some (s', RT_EOK) \<and> kernel_inv s' \<and>
     threads s' 2 = Some th' \<and> current_priority th' = 3 \<and> (\<exists>ts. queues s' (ReadyQ 3) = ts @ [2])"
  using rt_thread_control_changes_priority [of "demo_kernel 0" 2 "demo_thread 1 10" 3]
  by (auto simp: demo_kernel_inv)


section \<open>The idle thread frees the closed threads\<close>

lemma rt_object_delete_thread:
  assumes "threads s t = Some th" and "th_type th AND RT_Object_Class_Static = 0"
  shows "rt_object_delete (ThreadObj t) (list_remove t s) = Some (s\<lparr>threads := (threads s)(t := None),
    queues := (\<lambda>q. removeAll t (queues s q)),
    object_list := (\<lambda>c. removeAll (ThreadObj t) (object_list s c))\<rparr>)"
  using assms by (simp add: rt_object_delete_def object_type_def set_object_type_def free_object_def
      object_list_remove_def upd_thread_def list_remove_def)

lemma idle_excute_loop_reaps:
  assumes "queues s DefunctQ = ts" and "distinct ts"
    and "\<And>t. t \<in> set ts \<Longrightarrow> \<exists>th. threads s t = Some th \<and> th_type th AND RT_Object_Class_Static = 0"
  shows "\<exists>s'. idle_excute_loop s = Some s' \<and> queues s' DefunctQ = [] \<and>
     threads s' = (\<lambda>t. if t \<in> set ts then None else threads s t) \<and>
     object_list s' = (\<lambda>c. filter (\<lambda>obj. obj \<notin> ThreadObj ` set ts) (object_list s c))"
  using assms
proof (induction ts arbitrary: s)
  case Nil
  then have "idle_excute_loop s = Some s" by (subst idle_excute_loop.simps) simp
  then show ?case using Nil by simp
next
  case (Cons t ts)
  obtain th where th: "threads s t = Some th" "th_type th AND RT_Object_Class_Static = 0" using Cons.prems(3) by auto
  let ?s = "s\<lparr>threads := (threads s)(t := None), queues := (\<lambda>q. removeAll t (queues s q)),
    object_list := (\<lambda>c. removeAll (ThreadObj t) (object_list s c))\<rparr>"
  have loop: "idle_excute_loop s = idle_excute_loop ?s"
    using Cons.prems(1) rt_object_delete_thread [OF th] by (subst idle_excute_loop.simps) simp
  have q: "queues ?s DefunctQ = ts" using Cons.prems(1,2) by simp
  have ty: "\<exists>th. threads ?s u = Some th \<and> th_type th AND RT_Object_Class_Static = 0" if "u \<in> set ts" for u
    using Cons.prems(2,3) that by auto
  obtain s' where s': "idle_excute_loop ?s = Some s'" "queues s' DefunctQ = []"
     "threads s' = (\<lambda>u. if u \<in> set ts then None else threads ?s u)"
     "object_list s' = (\<lambda>c. filter (\<lambda>obj. obj \<notin> ThreadObj ` set ts) (object_list ?s c))"
    using Cons.IH [OF q _ ty] Cons.prems(2) by auto
  have "object_list s' = (\<lambda>c. filter (\<lambda>obj. obj \<notin> ThreadObj ` set (t # ts)) (object_list s c))"
    unfolding s'(4) by (auto simp: removeAll_filter_not_eq fun_eq_iff intro: filter_cong)
  then show ?case using loop s'(1-3) by (intro exI [of _ s']) auto
qed

text \<open>One call of \<^verbatim>\<open>rt_thread_idle_excute\<close> ends and frees every thread on the defunct list: the list is
  empty afterwards, exactly the threads that were on it are gone, and none of them is left in the object
  container.\<close>

theorem rt_thread_idle_excute_reaps:
  assumes "rt_interrupt_nest s = 0" and "distinct (queues s DefunctQ)"
    and "\<forall>t\<in>set (queues s DefunctQ). \<exists>th. threads s t = Some th \<and> th_type th AND RT_Object_Class_Static = 0"
  shows "\<exists>s'. rt_thread_idle_excute s = Some s' \<and> queues s' DefunctQ = [] \<and>
     threads s' = (\<lambda>t. if t \<in> set (queues s DefunctQ) then None else threads s t) \<and>
     object_list s' = (\<lambda>c. filter (\<lambda>obj. obj \<notin> ThreadObj ` set (queues s DefunctQ)) (object_list s c))"
  using idle_excute_loop_reaps [OF refl assms(2)] assms(1,3)
  by (simp add: rt_thread_idle_excute_def RT_DEBUG_NOT_IN_INTERRUPT_def)

theorem rt_thread_idle_excute_reaps_witness:
  "\<exists>s'. rt_thread_idle_excute ((demo_kernel 0)\<lparr>queues := (\<lambda>_. [])(DefunctQ := [9]),
       threads := [9 \<mapsto> (demo_thread 4 3)\<lparr>th_type := 1\<rparr>]\<rparr>) = Some s' \<and>
     queues s' DefunctQ = [] \<and> threads s' 9 = None"
proof -
  let ?s = "(demo_kernel 0)\<lparr>queues := (\<lambda>_. [])(DefunctQ := [9]), threads := [9 \<mapsto> (demo_thread 4 3)\<lparr>th_type := 1\<rparr>]\<rparr>"
  have "\<exists>s'. rt_thread_idle_excute ?s = Some s' \<and> queues s' DefunctQ = [] \<and>
     threads s' = (\<lambda>t. if t \<in> set (queues ?s DefunctQ) then None else threads ?s t) \<and>
     object_list s' = (\<lambda>c. filter (\<lambda>obj. obj \<notin> ThreadObj ` set (queues ?s DefunctQ)) (object_list ?s c))"
    by (rule rt_thread_idle_excute_reaps) simp_all
  then show ?thesis by auto
qed

section \<open>A fresh thread passes the stack check\<close>

lemma align_down_unat: "unat (RT_ALIGN_DOWN a 8) = unat a - unat a mod 8"
  using and_not_mask_unat [of a 3] by (simp add: RT_ALIGN_DOWN_def mask_eq_exp_minus_1)

text \<open>\<^verbatim>\<open>rt_schedule\<close> does not touch a thread that is neither queued nor running.\<close>

lemma remove_threads: "rt_schedule_remove_thread t s = Some s' \<Longrightarrow> threads s' = threads s"
  by (auto simp: rt_schedule_remove_thread_def list_remove_def Let_def split: bind_splits if_splits)

lemma insert_threads: "rt_schedule_insert_thread c s = Some s' \<Longrightarrow> t \<noteq> c \<Longrightarrow> threads s' t = threads s t"
  by (auto simp: rt_schedule_insert_thread_def list_insert_before_def upd_thread_def Let_def
      split: bind_splits if_splits)

lemma switch_untouched:
  assumes "schedule_switch c h b p s = Some s'" and "t \<noteq> c" and "t \<noteq> h"
  shows "threads s' t = threads s t"
proof (cases "h = c")
  case True
  then show ?thesis using assms remove_threads
    by (auto simp: schedule_switch_def upd_thread_def split: bind_splits)
next
  case False
  let ?s1 = "s\<lparr>rt_current_priority := of_nat p, rt_current_thread := Some h\<rparr>"
  obtain s2 s3 where 2: "(if b then rt_schedule_insert_thread c ?s1 else Some ?s1) = Some s2"
    and 3: "rt_schedule_remove_thread h s2 = Some s3" and 4: "s' = upd_thread h (set_state 3) s3"
    using assms(1) False by (auto simp: schedule_switch_def Let_def split: bind_splits)
  have "threads s2 t = threads s t" using 2 insert_threads [of c ?s1 s2 t] assms(2) by (cases b) auto
  then show ?thesis using remove_threads [OF 3] 4 assms(3) by (simp add: upd_thread_def)
qed

lemma rt_schedule_untouched:
  assumes "rt_schedule s = Some s'" and "nowhere s t" and "rt_current_thread s \<noteq> Some t"
  shows "threads s' t = threads s t"
proof (cases "rt_scheduler_lock_nest s = 0 \<and> rt_thread_ready_priority_group s \<noteq> 0")
  case True
  then obtain h p c cth where hi: "get_highest_priority_thread s = Some (h, p)" and c: "rt_current_thread s = Some c"
    "threads s c = Some cth"
    using assms(1) by (auto simp: rt_schedule_def split: bind_splits)
  have "h \<noteq> t" using hi assms(2)
    by (auto simp: get_highest_priority_thread_def nowhere_def Let_def split: list.splits)
      (metis list.set_intros(1))
  define s1 where "s1 = (if tstate cth = RT_THREAD_RUNNING
      then upd_thread c (stat_update (\<lambda>x. x AND NOT RT_THREAD_STAT_YIELD_MASK)) s else s)"
  obtain h' b where ch: "schedule_choose c cth h p = (h', b)" by (cases "schedule_choose c cth h p")
  have sw: "schedule_switch c h' b p s1 = Some s'"
    using assms(1) True hi c ch by (simp add: rt_schedule_def s1_def)
  have "h' \<noteq> t" using ch \<open>h \<noteq> t\<close> c assms(3) by (auto simp: schedule_choose_def split: if_splits)
  then show ?thesis using switch_untouched [OF sw, of t] c assms(3) by (simp add: s1_def upd_thread_def)
qed (use assms in \<open>auto simp: rt_schedule_def\<close>)

lemma critical_section:
  "rt_exit_critical (rt_enter_critical s) =
     (if sint (rt_scheduler_lock_nest s) \<le> 0
      then if rt_current_thread s \<noteq> None then rt_schedule (s\<lparr>rt_scheduler_lock_nest := 0\<rparr>)
           else Some (s\<lparr>rt_scheduler_lock_nest := 0\<rparr>)
      else Some s)"
  by (simp add: rt_exit_critical_def rt_enter_critical_def Let_def)

lemma rt_timer_init_untouched:
  assumes "rt_timer_init m name f x time flag s = Some s'" and "nowhere s t" and "rt_current_thread s \<noteq> Some t"
  shows "threads s' t = threads s t"
proof -
  let ?s0 = "touch_timer m s"
  have e: "threads ?s0 = threads s" "queues ?s0 = queues s" "rt_current_thread ?s0 = rt_current_thread s"
    by (simp_all add: touch_timer_def split: option.split)
  obtain s1 where s1: "rt_object_init (TimerObj m) RT_Object_Class_Timer name ?s0 = Some s1"
    "s' = timer_init m f x time flag s1" using assms(1) by (auto simp: rt_timer_init_def elim: bind_Some_elim)
  obtain s2 where s2: "rt_exit_critical (rt_enter_critical ?s0) = Some s2"
    "threads s1 = threads s2"
    using s1(1) by (auto simp: rt_object_init_def set_object_type_def upd_timer_def object_list_insert_after_def Let_def
        split: if_splits elim!: bind_Some_elim)
  have "threads s2 t = threads ?s0 t"
    using s2(1) rt_schedule_untouched [of "?s0\<lparr>rt_scheduler_lock_nest := 0\<rparr>" s2 t] assms(2,3) e
    by (auto simp: critical_section nowhere_def split: if_splits)
  then show ?thesis using s1(2) s2(2) e by (simp add: timer_init_def timer_remove_def upd_timer_def)
qed

text \<open>A thread initialised on a stack of at least 84 bytes that does not wrap around the address space
  passes the scheduler's stack overflow check and is startable: the initial frame of 68 bytes lies inside
  the stack whatever its alignment, and priorities of 32 and more do not pass the assertion.\<close>

theorem thread_init_startable:
  assumes "threads s t \<noteq> None" and "84 \<le> stk" and "unat base + unat stk < 2 ^ 32"
    and "thread_init t name entry parameter base stk priority tick s = Some (s', r)"
    and "rt_current_thread s \<noteq> Some t"
  shows "unat priority < RT_THREAD_PRIORITY_MAX \<and> (\<exists>th. threads s' t = Some th \<and> startable th)"
proof -
  have p: "unat priority < 32" using assms(4) by (auto simp: thread_init_def split: if_splits)
  let ?th = "\<lambda>th. th\<lparr>th_entry := entry, th_parameter := parameter, stack_addr := base, stack_size := stk,
         stack_guard := (if stk = 0 then stack_guard th else 0x23), sp := rt_hw_stack_init (base + stk - 4),
         init_priority := priority, current_priority := priority, number_mask := 0,
         init_tick := tick, remaining_tick := tick, th_error := RT_EOK, stat := RT_THREAD_INIT\<rparr>"
  have "\<not> stack_overflow (?th th)" for th
  proof -
    have n: "84 \<le> unat stk" using assms(2) by (simp add: word_le_nat_alt)
    have top: "unat (base + stk) = unat base + unat stk" using assms(3) by (simp add: unat_plus_if')
    let ?a = "RT_ALIGN_DOWN (base + stk) 8"
    have a: "unat ?a = unat base + unat stk - (unat base + unat stk) mod 8" by (simp add: align_down_unat top)
    have m8: "(unat base + unat stk) mod 8 < 8" by simp
    have "68 \<le> ?a" using a n m8 by (simp add: word_le_nat_alt)
    then have sp: "unat (?a - 68) = unat ?a - 68" by (simp add: unat_sub)
    have "stk \<noteq> 0" using n by auto
    moreover have "base < ?a - 68" using sp a n m8 by (simp add: word_less_nat_alt)
    moreover have "?a - 68 \<le> base + stk" using sp a top by (simp add: word_le_nat_alt)
    moreover have "rt_hw_stack_init (base + stk - 4) = ?a - 68" by (simp add: rt_hw_stack_init_def)
    ultimately show ?thesis by (simp add: stack_overflow_def not_le not_less)
  qed
  then have ok: "startable (?th th)" for th using p by (simp add: startable_def)
  let ?s2 = "upd_thread t ?th (list_remove t s)"
  obtain th where th: "threads s t = Some th" using assms(1) by auto
  obtain s3 where s3: "rt_timer_init (ThreadTimer t) name Fn_rt_thread_timeout t 0 RT_TIMER_FLAG_ONE_SHOT ?s2 = Some s3"
    "s' = s3" using assms(4) p by (auto simp: thread_init_def elim: bind_Some_elim)
  have "nowhere ?s2 t" "rt_current_thread ?s2 \<noteq> Some t" using assms(5) by (simp_all add: nowhere_def upd_thread_def)
  then have "threads s3 t = threads ?s2 t" by (rule rt_timer_init_untouched [OF s3(1)])
  then show ?thesis using ok p th s3(2) by (simp add: upd_thread_def)
qed


theorem thread_init_startable_witness:
  "\<exists>s' r th. thread_init 4 ''t'' 0 0 0x20001000 512 7 10 ((demo_kernel 0)\<lparr>rt_scheduler_lock_nest := 1\<rparr>) = Some (s', r) \<and>
     threads s' 4 = Some th \<and> startable th"
proof -
  let ?s = "(demo_kernel 0)\<lparr>rt_scheduler_lock_nest := 1\<rparr>"
  have "object_list (demo_kernel 0) = (\<lambda>_. [])" by (simp add: demo_kernel_def)
  then obtain s' r where s': "thread_init 4 ''t'' 0 0 0x20001000 512 7 10 ?s = Some (s', r)"
    by (simp add: thread_init_def rt_timer_init_def touch_timer_def rt_object_init_def Let_def
        rt_object_get_information_def critical_section upd_thread_def list_remove_def rt_enter_critical_def
        rt_exit_critical_def split: option.splits)
  then show ?thesis using thread_init_startable [OF _ _ _ s'] by auto
qed

end
