(* ===== verification/Ipc.thy ===== *)
theory Ipc
  imports ThreadOps
begin

text \<open>
  The wait lists all IPC objects of \<^verbatim>\<open>rt-thread/src/ipc.c\<close> are built on: \<^verbatim>\<open>rt_ipc_list_suspend\<close>,
  \<^verbatim>\<open>rt_ipc_list_resume\<close> and \<^verbatim>\<open>rt_ipc_list_resume_all\<close>.

  A call that can block yields \<open>Done r\<close> when it returned \<open>r\<close>, and \<open>Waiting\<close> when the calling thread
  was suspended and the scheduler called; what the call does after that is a definition of its own
  (suffix \<open>_return\<close>), run when the thread is scheduled again.
\<close>

datatype 'a call = Done 'a | Waiting

definition is_waitq :: "qid \<Rightarrow> bool" where
  "is_waitq q \<longleftrightarrow> (case q of ReadyQ _ \<Rightarrow> False | DefunctQ \<Rightarrow> False | _ \<Rightarrow> True)"

section \<open>Operations\<close>

text \<open>The test of the position scan for \<^verbatim>\<open>RT_IPC_FLAG_PRIO\<close>.\<close>

definition lower_prio :: "kernel \<Rightarrow> u8 \<Rightarrow> tid \<Rightarrow> bool" where
  "lower_prio s p u = (case threads s u of None \<Rightarrow> False | Some th \<Rightarrow> p < current_priority th)"

definition rt_ipc_list_suspend :: "qid \<Rightarrow> tid \<Rightarrow> u8 \<Rightarrow> kernel \<Rightarrow> (kernel \<times> rt_err_t) option" where
  "rt_ipc_list_suspend q t flag s = do {
     (s1, _) \<leftarrow> rt_thread_suspend t s;
     th \<leftarrow> threads s1 t;
     Some (if flag = RT_IPC_FLAG_FIFO then list_insert_before q t s1
           else if flag = RT_IPC_FLAG_PRIO
           then s1\<lparr>queues := (queues s1)(q :=
                  insert_before_first (lower_prio s1 (current_priority th)) t (queues s1 q))\<rparr>
           else s1, RT_EOK) }"

text \<open>\<^verbatim>\<open>rt_ipc_list_resume\<close> takes the first thread of the list, which its callers know to be non-empty.\<close>

definition rt_ipc_list_resume :: "qid \<Rightarrow> kernel \<Rightarrow> (kernel \<times> rt_err_t) option" where
  "rt_ipc_list_resume q s = (case queues s q of
       [] \<Rightarrow> None
     | t # _ \<Rightarrow> do { (s1, _) \<leftarrow> rt_thread_resume t s; Some (s1, RT_EOK) })"

partial_function (option) rt_ipc_list_resume_all :: "qid \<Rightarrow> kernel \<Rightarrow> kernel option" where
  "rt_ipc_list_resume_all q s = (case queues s q of
       [] \<Rightarrow> Some s
     | t # _ \<Rightarrow> do {
         (s1, _) \<leftarrow> rt_thread_resume t (upd_thread t (th_error_update (\<lambda>_. - RT_ERROR)) s);
         rt_ipc_list_resume_all q s1 })"

text \<open>
  The steps every waiting function has in common: suspend the thread on the list, and start its timer
  when there is a waiting time.
\<close>

definition ipc_wait :: "qid \<Rightarrow> tid \<Rightarrow> u8 \<Rightarrow> int \<Rightarrow> kernel \<Rightarrow> kernel option" where
  "ipc_wait q t flag time s = do {
     (s1, _) \<leftarrow> rt_ipc_list_suspend q t flag s;
     if 0 < time then start_thread_timer t (word_of_int time) s1 else Some s1 }"

text \<open>
  The end of a call that made something available: when threads wait, the first is resumed and the
  scheduler called.
\<close>

definition wake_first :: "qid \<Rightarrow> kernel \<Rightarrow> kernel option" where
  "wake_first q s = (if queues s q \<noteq> []
     then do { (s1, _) \<leftarrow> rt_ipc_list_resume q s; rt_schedule s1 }
     else Some s)"

text \<open>
  The waiting time left when a call waits again: \<^verbatim>\<open>tick_delta = rt_tick_get() - tick_delta; timeout -= tick_delta;\<close>
  in 32-bit arithmetic, and \<^verbatim>\<open>0\<close> instead of a negative result. A negative waiting time is forever.
\<close>

definition remaining_time :: "int \<Rightarrow> u32 \<Rightarrow> u32 \<Rightarrow> int" where
  "remaining_time timeout start now = (if 0 < timeout
     then let left = sint (word_of_int timeout - (now - start) :: u32) in if left < 0 then 0 else left
     else timeout)"

text \<open>\<^verbatim>\<open>rt_set_errno\<close>; the variable \<^verbatim>\<open>__rt_errno\<close> of calls outside of threads is not part of the state.\<close>

definition rt_set_errno :: "rt_err_t \<Rightarrow> kernel \<Rightarrow> kernel" where
  "rt_set_errno err s = (if rt_interrupt_nest s \<noteq> 0 then s
     else case rt_thread_self s of None \<Rightarrow> s | Some t \<Rightarrow> upd_thread t (th_error_update (\<lambda>_. err)) s)"

section \<open>Waiting\<close>

text \<open>The list after the thread was put on it.\<close>

definition enqueue_waiter :: "kernel \<Rightarrow> u8 \<Rightarrow> tid \<Rightarrow> rt_thread \<Rightarrow> tid list \<Rightarrow> tid list" where
  "enqueue_waiter s flag t th ts =
     (if flag = RT_IPC_FLAG_FIFO then ts @ [t]
      else insert_before_first (lower_prio s (current_priority th)) t ts)"

lemma set_enqueue_waiter [simp]: "set (enqueue_waiter s flag t th ts) = insert t (set ts)"
  by (auto simp: enqueue_waiter_def)

lemma distinct_enqueue_waiter [simp]:
  "distinct (enqueue_waiter s flag t th ts) \<longleftrightarrow> distinct ts \<and> t \<notin> set ts"
  by (auto simp: enqueue_waiter_def)

lemma enqueue_waiter_not_Nil [simp]: "enqueue_waiter s flag t th ts \<noteq> []"
  by (simp add: enqueue_waiter_def)

lemma kernel_inv_same_timers:
  assumes inv: "kernel_inv s" and si: "sched_inv s'" and f: "timers_frame s s'" "threads s' = threads s"
  shows "kernel_inv s'"
proof -
  have "tt_cons s' t" for t using kernel_invD(3) [OF inv, of t]
    by (subst tt_cons_cong [of s' t s]) (use f in simp_all)
  moreover have "timer_lists_ok s'" using kernel_invD(2) [OF inv] f by (simp add: timer_lists_ok_def)
  ultimately show ?thesis using si by (simp add: kernel_inv_def timer_inv_def)
qed

lemma kernel_inv_join_waitq:
  assumes inv: "kernel_inv s" and th: "threads s t = Some th" and st: "tstate th = RT_THREAD_SUSPEND"
    and no: "nowhere s t" and q: "is_waitq q" and xs: "set xs = insert t (set (queues s q))" "distinct xs"
  shows "kernel_inv (s\<lparr>queues := (queues s)(q := xs)\<rparr>)"
proof -
  let ?s = "s\<lparr>queues := (queues s)(q := xs)\<rparr>"
  have si: "sched_inv s" by (rule kernel_invD(1) [OF inv])
  have r: "q \<noteq> ReadyQ p" "q \<noteq> DefunctQ" for p using q by (auto simp: is_waitq_def)
  have "queue_ok ?s" using winv_queue_ok [OF si] no xs r(1)
    by (auto simp: queue_ok_def nowhere_def)
  moreover have "tcons ?s t" using winv_tcons [OF si, of t] th st r no
    by (auto simp: tcons_def nowhere_def)
  moreover have "tcons ?s t' = tcons s t'" if "t' \<noteq> t" for t'
    using that xs by (intro tcons_cong) auto
  ultimately have "winv ({t} - {t}) ?s" by (intro winv_settle [of t ?s s] winv_mono [OF si]) auto
  then show ?thesis by (intro kernel_inv_same_timers [OF inv]) simp_all
qed

lemma ipc_list_suspend_spec:
  assumes inv: "kernel_inv s" and cur: "rt_current_thread s = Some c" and c: "threads s c = Some cth"
    and st: "tstate cth = RT_THREAD_RUNNING" and q: "is_waitq q" and fl: "flag = 0 \<or> flag = 1"
  obtains s' where "rt_ipc_list_suspend q c flag s = Some (s', RT_EOK)" "kernel_inv s'"
    "threads s' = (threads s)(c \<mapsto> set_state RT_THREAD_SUSPEND cth)"
    "queues s' = (queues s)(q := enqueue_waiter s flag c cth (queues s q))"
    "rt_current_thread s' = Some c" "sched_frame s s'" "timers_frame s s'"
proof -
  let ?cth = "set_state RT_THREAD_SUSPEND cth"
  obtain s1 where s1: "rt_thread_suspend c s = Some (s1, RT_EOK)" "kernel_inv s1"
    "threads s1 = (threads s)(c \<mapsto> ?cth)" "queues s1 = (\<lambda>q. removeAll c (queues s q))"
    "rt_current_thread s1 = rt_current_thread s" "sched_frame s s1" "timers_frame s s1"
    by (rule rt_thread_suspend_spec [OF inv c]) (use st in auto)
  have no: "nowhere s c" using tcons_running [OF winv_tcons [OF kernel_invD(1) [OF inv]] c st] by simp
  then have q1: "queues s1 = queues s" using s1(4) by (auto simp: nowhere_def)
  have lp: "insert_before_first (lower_prio s1 (current_priority cth)) c (queues s q) =
      insert_before_first (lower_prio s (current_priority cth)) c (queues s q)"
    using no by (intro insert_before_first_cong) (auto simp: lower_prio_def s1(3) nowhere_def)
  define s' where "s' = s1\<lparr>queues := (queues s1)(q := enqueue_waiter s flag c cth (queues s q))\<rparr>"
  have r: "rt_ipc_list_suspend q c flag s = Some (s', RT_EOK)"
    using s1(1,3) fl lp q1
    by (auto simp: rt_ipc_list_suspend_def s'_def list_insert_before_def enqueue_waiter_def)
  have c1: "threads s1 c = Some ?cth" "tstate ?cth = RT_THREAD_SUSPEND" "nowhere s1 c"
    using s1(3) no q1 by (simp_all add: nowhere_def)
  have "kernel_inv s'" unfolding s'_def
    by (rule kernel_inv_join_waitq [OF s1(2) c1 q])
      (use q1 no winv_queue_ok [OF kernel_invD(1) [OF inv]] in \<open>auto simp: nowhere_def queue_ok_def\<close>)
  moreover have "sched_frame s s'" "timers_frame s s'" using s1(6,7) by (simp_all add: s'_def sched_frame_def)
  ultimately show thesis using r s1(3,5) cur q1 by (intro that [of s']) (simp_all add: s'_def)
qed

lemma ipc_wait_spec:
  assumes inv: "kernel_inv s" and cur: "rt_current_thread s = Some c" and c: "threads s c = Some cth"
    and st: "tstate cth = RT_THREAD_RUNNING" and q: "is_waitq q" and fl: "flag = 0 \<or> flag = 1"
    and time: "time < 0x7fffffff"
  obtains s' where "ipc_wait q c flag time s = Some s'" "kernel_inv s'"
    "threads s' = (threads s)(c \<mapsto> set_state RT_THREAD_SUSPEND cth)"
    "queues s' = (queues s)(q := enqueue_waiter s flag c cth (queues s q))"
    "rt_current_thread s' = Some c" "sched_frame s s'"
    "0 < time \<longrightarrow> (\<exists>tm. timers s' (ThreadTimer c) = Some tm \<and> active tm \<and>
        timeout_tick tm = rt_tick s + word_of_int time)"
proof -
  let ?cth = "set_state RT_THREAD_SUSPEND cth"
  obtain s1 where s1: "rt_ipc_list_suspend q c flag s = Some (s1, RT_EOK)" "kernel_inv s1"
    "threads s1 = (threads s)(c \<mapsto> ?cth)"
    "queues s1 = (queues s)(q := enqueue_waiter s flag c cth (queues s q))"
    "rt_current_thread s1 = Some c" "sched_frame s s1" "timers_frame s s1"
    by (rule ipc_list_suspend_spec [OF inv cur c st q fl])
  show thesis
  proof (cases "0 < time")
    case True
    have t: "(word_of_int time :: u32) < half_tick"
      using True time by (simp add: word_less_alt uint_word_of_int take_bit_eq_mod)
    have c1: "threads s1 c = Some ?cth" "tstate ?cth = RT_THREAD_SUSPEND" using s1(3) by simp_all
    obtain s2 tm where s2: "start_thread_timer c (word_of_int time) s1 = Some s2" "kernel_inv s2" "sched_frame s1 s2"
      "same_sched s1 s2" "timers s2 (ThreadTimer c) = Some tm" "active tm"
      "timeout_tick tm = rt_tick s1 + word_of_int time"
      by (rule start_thread_timer_spec [OF s1(2) c1 t])
    have tick: "rt_tick s1 = rt_tick s" using s1(6) by (simp add: sched_frame_def)
    have "ipc_wait q c flag time s = Some s2" using s1(1) s2(1) True by (simp add: ipc_wait_def)
    then show thesis using s2(2,4-7) tick s1(3-5) sched_frame_trans [OF s1(6) s2(3)]
      by (intro that [of s2]) (simp_all add: same_sched_def)
  next
    case False
    then have "ipc_wait q c flag time s = Some s1" using s1(1) by (simp add: ipc_wait_def)
    then show thesis using s1 False by (intro that [of s1]) simp_all
  qed
qed


section \<open>Waking\<close>

lemma waitq_member:
  assumes inv: "kernel_inv s" and q: "is_waitq q" and t: "t \<in> set (queues s q)"
  obtains th where "threads s t = Some th" "tstate th = RT_THREAD_SUSPEND" "thread_ok th"
    "\<And>q'. t \<in> set (queues s q') \<Longrightarrow> q' = q"
proof -
  have si: "sched_inv s" by (rule kernel_invD(1) [OF inv])
  have uniq: "\<And>q'. t \<in> set (queues s q') \<Longrightarrow> q' = q"
    using winv_queue_ok [OF si] t unfolding queue_ok_def by blast
  have nr: "t \<notin> set (queues s (ReadyQ p))" "q \<noteq> DefunctQ" for p
    using uniq [of "ReadyQ p"] q by (auto simp: is_waitq_def)
  obtain th where "threads s t = Some th" "tstate th = RT_THREAD_SUSPEND" "thread_ok th"
    using winv_tcons [OF si, of t] t nr by (cases "threads s t") (auto simp: tcons_def nowhere_def)
  with uniq show thesis using that by blast
qed

text \<open>Waking a thread anywhere on a wait list; most callers wake the first.\<close>

lemma waitq_resume_member:
  assumes inv: "kernel_inv s" and q: "is_waitq q" and t: "t \<in> set (queues s q)"
  obtains s' th where "rt_thread_resume t s = Some (s', RT_EOK)" "kernel_inv s'"
    "threads s t = Some th" "threads s' = (threads s)(t \<mapsto> woken s t th)" "queues s' q = removeAll t (queues s q)"
    "\<And>q'. is_waitq q' \<Longrightarrow> q' \<noteq> q \<Longrightarrow> queues s' q' = queues s q'"
    "rt_current_thread s' = rt_current_thread s" "sched_frame s s'"
proof -
  obtain th where th: "threads s t = Some th" "tstate th = RT_THREAD_SUSPEND"
    "\<And>q'. t \<in> set (queues s q') \<Longrightarrow> q' = q"
    using waitq_member [OF inv q t] by auto
  obtain s' where s': "rt_thread_resume t s = Some (s', RT_EOK)" "kernel_inv s'"
    "threads s' = (threads s)(t \<mapsto> woken s t th)" "queues s' = ready_queues t th s"
    "rt_current_thread s' = rt_current_thread s" "sched_frame s s'"
    by (rule rt_thread_resume_spec [OF inv th(1,2)])
  have rq: "queues s' q' = removeAll t (queues s q')" if "is_waitq q'" for q'
    using that s'(4) by (auto simp: ready_queues_def is_waitq_def)
  have q2: "queues s' q' = queues s q'" if "is_waitq q'" "q' \<noteq> q" for q'
    using rq [OF that(1)] th(3) [of q'] that(2) by (metis removeAll_id)
  show thesis by (rule that [OF s'(1,2) th(1) s'(3) rq [OF q] q2 s'(5,6)])
qed

lemma waitq_resume:
  assumes inv: "kernel_inv s" and q: "is_waitq q" and hd: "queues s q = t # ts"
  obtains s' th where "rt_thread_resume t s = Some (s', RT_EOK)" "kernel_inv s'"
    "threads s t = Some th" "threads s' = (threads s)(t \<mapsto> woken s t th)" "queues s' q = ts"
    "\<And>q'. is_waitq q' \<Longrightarrow> q' \<noteq> q \<Longrightarrow> queues s' q' = queues s q'"
    "rt_current_thread s' = rt_current_thread s" "sched_frame s s'"
proof -
  have t: "t \<in> set (queues s q)" using hd by simp
  have "distinct (queues s q)" using winv_queue_ok [OF kernel_invD(1) [OF inv]] unfolding queue_ok_def by blast
  then have "removeAll t (queues s q) = ts" using hd by simp
  with waitq_resume_member [OF inv q t] that show thesis by metis
qed

lemma resume_all_wakes:
  assumes "kernel_inv s" and "is_waitq q" and "queues s q = ts"
  shows "\<exists>s'. rt_ipc_list_resume_all q s = Some s' \<and> kernel_inv s' \<and> queues s' q = [] \<and> sched_frame s s' \<and>
     rt_current_thread s' = rt_current_thread s \<and>
     (\<forall>t\<in>set ts. \<exists>th. threads s' t = Some th \<and> th_error th = - RT_ERROR \<and>
        tstate th \<in> {RT_THREAD_READY, RT_THREAD_RUNNING}) \<and>
     (\<forall>u. u \<notin> set ts \<longrightarrow> threads s' u = threads s u) \<and>
     (\<forall>q'. is_waitq q' \<and> q' \<noteq> q \<longrightarrow> queues s' q' = queues s q')"
  using assms
proof (induction ts arbitrary: s)
  case Nil
  then have "rt_ipc_list_resume_all q s = Some s" by (subst rt_ipc_list_resume_all.simps) simp
  then show ?case using Nil by auto
next
  case (Cons t ts)
  let ?s = "upd_thread t (th_error_update (\<lambda>_. - RT_ERROR)) s"
  have inv1: "kernel_inv ?s" by (rule kernel_inv_upd_inert [OF Cons.prems(1)]) simp
  have q1: "queues ?s q = t # ts" "queues ?s = queues s" "sched_frame s ?s" "rt_current_thread ?s = rt_current_thread s"
    using Cons.prems(3) by (simp_all add: upd_thread_def sched_frame_def)
  obtain s1 th where s1: "rt_thread_resume t ?s = Some (s1, RT_EOK)" "kernel_inv s1"
    "threads ?s t = Some th" "threads s1 = (threads ?s)(t \<mapsto> woken ?s t th)" "queues s1 q = ts"
    "\<And>q'. is_waitq q' \<Longrightarrow> q' \<noteq> q \<Longrightarrow> queues s1 q' = queues ?s q'"
    "rt_current_thread s1 = rt_current_thread ?s" "sched_frame ?s s1"
    by (rule waitq_resume [OF inv1 Cons.prems(2) q1(1)]) blast
  have loop: "rt_ipc_list_resume_all q s = rt_ipc_list_resume_all q s1"
    using Cons.prems(3) s1(1) by (subst rt_ipc_list_resume_all.simps) simp
  obtain s' where s': "rt_ipc_list_resume_all q s1 = Some s'" "kernel_inv s'" "queues s' q = []" "sched_frame s1 s'"
    "rt_current_thread s' = rt_current_thread s1"
    "\<forall>t\<in>set ts. \<exists>th. threads s' t = Some th \<and> th_error th = - RT_ERROR \<and>
        tstate th \<in> {RT_THREAD_READY, RT_THREAD_RUNNING}"
    "\<forall>u. u \<notin> set ts \<longrightarrow> threads s' u = threads s1 u"
    "\<forall>q'. is_waitq q' \<and> q' \<noteq> q \<longrightarrow> queues s' q' = queues s1 q'"
    using Cons.IH [OF s1(2) Cons.prems(2) s1(5)] by blast
  have nt: "t \<notin> set ts" using winv_queue_ok [OF kernel_invD(1) [OF Cons.prems(1)]] Cons.prems(3)
    unfolding queue_ok_def by (metis distinct.simps(2))
  have e: "th_error th = - RT_ERROR" using s1(3) by (auto simp: upd_thread_def)
  have "threads s' t = Some (woken ?s t th)" using s'(7) nt s1(4) by simp
  then have tt: "\<exists>th. threads s' t = Some th \<and> th_error th = - RT_ERROR \<and>
      tstate th \<in> {RT_THREAD_READY, RT_THREAD_RUNNING}" using e by simp
  moreover have "threads s' u = threads s u" if "u \<notin> set (t # ts)" for u
    using that s'(7) s1(4) by (simp add: upd_thread_def)
  moreover have "queues s' q' = queues s q'" if "is_waitq q'" "q' \<noteq> q" for q'
    using that s'(8) s1(6) q1(2) by simp
  moreover have "sched_frame s s'" using q1(3) s1(8) s'(4) sched_frame_trans by blast
  ultimately show ?case using loop s'(1-3,5,6) s1(7) q1(4) by (intro exI [of _ s']) simp
qed

text \<open>\<^verbatim>\<open>rt_ipc_list_resume_all\<close> (run when an IPC object is detached, deleted or reset) ends and wakes every
  thread that waits on the list, each with the error code \<^verbatim>\<open>-RT_ERROR\<close>; no other thread and no other
  wait list changes.\<close>

theorem rt_ipc_list_resume_all_wakes_all:
  assumes "kernel_inv s" and "is_waitq q"
  shows "\<exists>s'. rt_ipc_list_resume_all q s = Some s' \<and> kernel_inv s' \<and> queues s' q = [] \<and>
     (\<forall>t\<in>set (queues s q). \<exists>th. threads s' t = Some th \<and> th_error th = - RT_ERROR \<and>
        tstate th \<in> {RT_THREAD_READY, RT_THREAD_RUNNING}) \<and>
     (\<forall>u. u \<notin> set (queues s q) \<longrightarrow> threads s' u = threads s u) \<and>
     (\<forall>q'. is_waitq q' \<and> q' \<noteq> q \<longrightarrow> queues s' q' = queues s q')"
  using resume_all_wakes [OF assms refl] by blast

theorem rt_ipc_list_resume_all_wakes_all_witness:
  "\<exists>s' th. rt_ipc_list_resume_all (SemQ 0) (demo_kernel 0) = Some s' \<and> queues s' (SemQ 0) = [] \<and>
     threads s' 3 = Some th \<and> th_error th = - RT_ERROR"
  using rt_ipc_list_resume_all_wakes_all [of "demo_kernel 0" "SemQ 0"]
  by (auto simp: demo_kernel_inv is_waitq_def)

section \<open>Order of the waiting threads\<close>





section \<open>The scheduler leaves the wait lists alone\<close>

lemma rt_schedule_waitq:
  assumes inv: "sched_inv s" and r: "rt_schedule s = Some s'" and q: "is_waitq q"
  shows "queues s' q = queues s q"
proof (cases "rt_scheduler_lock_nest s \<noteq> 0 \<or> rt_thread_ready_priority_group s = 0")
  case True
  then show ?thesis using r rt_schedule_stuck by simp
next
  case False
  then have run: "rt_scheduler_lock_nest s = 0" "rt_thread_ready_priority_group s \<noteq> 0" by auto
  obtain h p ts where hi: "get_highest_priority_thread s = Some (h, p)" "queues s (ReadyQ p) = h # ts"
    using get_highest_SomeD [OF winv_queue_ok [OF inv] run(2)] by metis
  obtain c where cur: "rt_current_thread s = Some c"
    using r run hi by (cases "rt_current_thread s") (auto simp: rt_schedule_def)
  obtain cth where c: "threads s c = Some cth" using sched_inv_current [OF inv cur] by auto
  have ne: "q \<noteq> ReadyQ p'" for p' using q by (auto simp: is_waitq_def)
  have "h \<notin> set (queues s q)"
  proof
    assume "h \<in> set (queues s q)"
    moreover have "h \<in> set (queues s (ReadyQ p))" using hi(2) by simp
    ultimately have "q = ReadyQ p" using winv_queue_ok [OF inv] unfolding queue_ok_def by blast
    then show False using ne by simp
  qed
  then show ?thesis
    by (cases rule: rt_schedule_cases [OF inv cur run hi c]) (use r ne in auto)
qed

text \<open>Scheduling after the calling thread was put on a wait list, and after a waiting thread was woken.\<close>

lemma schedule_after_wait:
  assumes inv: "kernel_inv s" and cur: "rt_current_thread s = Some c" and c: "threads s c = Some cth"
    and st: "tstate cth = RT_THREAD_SUSPEND" and lock: "rt_scheduler_lock_nest s = 0"
    and g: "rt_thread_ready_priority_group s \<noteq> 0"
  obtains s' where "rt_schedule s = Some s'" "kernel_inv s'" "rt_current_thread s' \<noteq> Some c"
    "sched_frame s s'" "threads s' c = Some cth" "\<And>q. is_waitq q \<Longrightarrow> queues s' q = queues s q"
    "timers_frame s s'" "\<And>u uth. threads s u = Some uth \<Longrightarrow> \<exists>uth'. threads s' u = Some uth' \<and> same_thread uth uth'"
    "rt_current_thread s' \<noteq> None"
proof -
  obtain s' where "rt_schedule s = Some s'" "kernel_inv s'" "rt_current_thread s' \<noteq> Some c"
    "sched_frame s s'" "threads s' c = Some cth" "timers_frame s s'" "rt_current_thread s' \<noteq> None"
    "\<And>u uth. threads s u = Some uth \<Longrightarrow> \<exists>uth'. threads s' u = Some uth' \<and> same_thread uth uth'"
    by (rule rt_schedule_leaves_suspended [OF inv cur c st lock g]) blast
  then show thesis using that rt_schedule_waitq [OF kernel_invD(1) [OF inv]] by blast
qed

lemma schedule_after_wake:
  assumes inv: "kernel_inv s" and cur: "rt_current_thread s \<noteq> None"
  obtains s' where "rt_schedule s = Some s'" "kernel_inv s'" "sched_frame s s'" "rt_current_thread s' \<noteq> None"
    "\<And>t th. threads s t = Some th \<Longrightarrow> \<exists>th'. threads s' t = Some th' \<and> same_thread th th'"
    "\<And>q. is_waitq q \<Longrightarrow> queues s' q = queues s q" "timers_frame s s'"
proof -
  obtain s' where "rt_schedule s = Some s'" "kernel_inv s'" "sched_frame s s'" "rt_current_thread s' \<noteq> None"
    "\<And>t th. threads s t = Some th \<Longrightarrow> \<exists>th'. threads s' t = Some th' \<and> same_thread th th'" "timers_frame s s'"
    by (rule rt_schedule_kernel [OF inv cur]) blast
  then show thesis using that rt_schedule_waitq [OF kernel_invD(1) [OF inv]] by blast
qed

text \<open>A running thread is preempted from when the ready bitmap is not empty; waiting does not change it.\<close>

lemma ready_group_waitq:
  assumes "sched_inv s" and "sched_inv s'" and "\<And>p. queues s' (ReadyQ p) = queues s (ReadyQ p)"
    and "rt_thread_ready_priority_group s \<noteq> 0"
  shows "rt_thread_ready_priority_group s' \<noteq> 0"
  using assms(4) winv_queue_ok [OF assms(1)] winv_queue_ok [OF assms(2)] assms(3)
  by (auto simp: queue_ok_def bit_eq_iff)

text \<open>
  Blocking on a wait list as a whole: the thread's error is cleared, the thread is put on the list, its timer
  is started and another thread is chosen.
\<close>

lemma ipc_block_spec:
  assumes inv: "kernel_inv s" and cur: "rt_current_thread s = Some c" and c: "threads s c = Some cth"
    and st: "tstate cth = RT_THREAD_RUNNING" and q: "is_waitq q" and fl: "flag = 0 \<or> flag = 1"
    and time: "time < 0x7fffffff" and lock: "rt_scheduler_lock_nest s = 0"
    and g: "rt_thread_ready_priority_group s \<noteq> 0"
  obtains s2 s' th where "ipc_wait q c flag time s = Some s2" "rt_schedule s2 = Some s'" "kernel_inv s'" "sched_frame s s'"
    "rt_current_thread s' \<noteq> Some c" "queues s' q = enqueue_waiter s flag c cth (queues s q)"
    "\<And>q'. is_waitq q' \<Longrightarrow> q' \<noteq> q \<Longrightarrow> queues s' q' = queues s q'"
    "threads s' c = Some (set_state RT_THREAD_SUSPEND cth)"
    "0 < time \<longrightarrow> (\<exists>tm. timers s' (ThreadTimer c) = Some tm \<and> active tm \<and>
        timeout_tick tm = rt_tick s + word_of_int time)"
    "\<And>u uth. u \<noteq> c \<Longrightarrow> threads s u = Some uth \<Longrightarrow> \<exists>uth'. threads s' u = Some uth' \<and> same_thread uth uth'"
    "rt_current_thread s' \<noteq> None"
proof -
  let ?th = "set_state RT_THREAD_SUSPEND cth"
  obtain s2 where s2: "ipc_wait q c flag time s = Some s2" "kernel_inv s2"
    "threads s2 = (threads s)(c \<mapsto> ?th)"
    "queues s2 = (queues s)(q := enqueue_waiter s flag c cth (queues s q))"
    "rt_current_thread s2 = Some c" "sched_frame s s2"
    "0 < time \<longrightarrow> (\<exists>tm. timers s2 (ThreadTimer c) = Some tm \<and> active tm \<and>
        timeout_tick tm = rt_tick s + word_of_int time)"
    by (rule ipc_wait_spec [OF inv cur c st q fl time])
  have ne: "q \<noteq> ReadyQ p" for p using q by (auto simp: is_waitq_def)
  have g2: "rt_thread_ready_priority_group s2 \<noteq> 0"
    by (rule ready_group_waitq [OF kernel_invD(1) [OF inv] kernel_invD(1) [OF s2(2)] _ g]) (use s2(4) ne in auto)
  have c2: "threads s2 c = Some ?th" "tstate ?th = RT_THREAD_SUSPEND" "rt_scheduler_lock_nest s2 = 0"
    using s2(3,6) lock by (simp_all add: sched_frame_def)
  obtain s' where s': "rt_schedule s2 = Some s'" "kernel_inv s'" "rt_current_thread s' \<noteq> Some c"
    "sched_frame s2 s'" "threads s' c = Some ?th" "\<And>q. is_waitq q \<Longrightarrow> queues s' q = queues s2 q"
    "timers_frame s2 s'" "\<And>u uth. threads s2 u = Some uth \<Longrightarrow> \<exists>uth'. threads s' u = Some uth' \<and> same_thread uth uth'"
    "rt_current_thread s' \<noteq> None"
    by (rule schedule_after_wait [OF s2(2,5) c2 g2]) blast
  have q': "queues s' q = enqueue_waiter s flag c cth (queues s q)" using s'(6) [OF q] s2(4) by simp
  have o': "queues s' q' = queues s q'" if "is_waitq q'" "q' \<noteq> q" for q' using s'(6) [OF that(1)] s2(4) that(2) by simp
  have t': "0 < time \<longrightarrow> (\<exists>tm. timers s' (ThreadTimer c) = Some tm \<and> active tm \<and>
        timeout_tick tm = rt_tick s + word_of_int time)" using s2(7) s'(7) by simp
  have u': "\<exists>uth'. threads s' u = Some uth' \<and> same_thread uth uth'" if "u \<noteq> c" "threads s u = Some uth" for u uth
    using s'(8) [of u uth] s2(3) that by simp
  show thesis by (rule that [OF s2(1) s'(1,2) sched_frame_trans [OF s2(6) s'(4)] s'(3) q' o' s'(5) t' u' s'(9)])
qed

text \<open>A thread that waited and can run again, its error code unchanged.\<close>

definition awake :: "kernel \<Rightarrow> kernel \<Rightarrow> tid \<Rightarrow> bool" where
  "awake s s' t \<longleftrightarrow> (\<exists>th th'. threads s t = Some th \<and> threads s' t = Some th' \<and> th_error th' = th_error th \<and>
     tstate th' \<in> {RT_THREAD_READY, RT_THREAD_RUNNING})"

lemma wake_first_spec:
  assumes inv: "kernel_inv s" and q: "is_waitq q" and cur: "rt_current_thread s \<noteq> None"
  obtains s' where "wake_first q s = Some s'" "kernel_inv s'" "sched_frame s s'" "rt_current_thread s' \<noteq> None"
    "queues s' q = tl (queues s q)" "\<And>q'. is_waitq q' \<Longrightarrow> q' \<noteq> q \<Longrightarrow> queues s' q' = queues s q'"
    "queues s q \<noteq> [] \<Longrightarrow> awake s s' (hd (queues s q))" "queues s q = [] \<Longrightarrow> s' = s"
proof (cases "queues s q")
  case Nil
  then have "wake_first q s = Some s" by (simp add: wake_first_def)
  then show thesis using that [of s] inv cur Nil by simp
next
  case (Cons t ts)
  obtain s1 th where s1: "rt_thread_resume t s = Some (s1, RT_EOK)" "kernel_inv s1"
    "threads s t = Some th" "threads s1 = (threads s)(t \<mapsto> woken s t th)" "queues s1 q = ts"
    "\<And>q'. is_waitq q' \<Longrightarrow> q' \<noteq> q \<Longrightarrow> queues s1 q' = queues s q'"
    "rt_current_thread s1 = rt_current_thread s" "sched_frame s s1"
    by (rule waitq_resume [OF inv q Cons]) blast
  have cur1: "rt_current_thread s1 \<noteq> None" using s1(7) cur by simp
  obtain s' where s': "rt_schedule s1 = Some s'" "kernel_inv s'" "sched_frame s1 s'" "rt_current_thread s' \<noteq> None"
    "\<And>t th. threads s1 t = Some th \<Longrightarrow> \<exists>th'. threads s' t = Some th' \<and> same_thread th th'"
    "\<And>q. is_waitq q \<Longrightarrow> queues s' q = queues s1 q"
    by (rule schedule_after_wake [OF s1(2) cur1]) blast
  have "threads s1 t = Some (woken s t th)" using s1(4) by simp
  then obtain th' where th': "threads s' t = Some th'" "same_thread (woken s t th) th'" using s'(5) by blast
  have "awake s s' t" unfolding awake_def using s1(3) th'(1) same_threadD(5) [OF th'(2)] th'(2)
    by (auto simp: same_thread_def split: if_splits)
  moreover have "wake_first q s = Some s'" using Cons s1(1) s'(1) by (simp add: wake_first_def rt_ipc_list_resume_def)
  ultimately show thesis using that [of s'] s'(2,4,6) s1(5,6) q Cons sched_frame_trans [OF s1(8) s'(3)] by simp
qed

text \<open>Waiting again never waits longer than what is left of the first waiting time, across a wrap of the tick counter.\<close>

lemma remaining_time_exact:
  assumes "0 < timeout" and "timeout < 2 ^ 31" and "unat (now - start) < 2 ^ 31"
  shows "remaining_time timeout start now = max 0 (timeout - int (unat (now - start)))"
proof -
  define d where "d = int (unat (now - start))"
  have "d < int (2 ^ 31)" unfolding d_def using assms(3) by (simp only: of_nat_less_iff)
  then have d: "0 \<le> d" "d < 2 ^ 31" "now - start = word_of_int d" by (simp_all add: d_def)
  have "word_of_int timeout - (now - start) = (word_of_int (timeout - d) :: u32)" by (simp add: d(3))
  moreover have "sint (word_of_int (timeout - d) :: u32) = timeout - d"
  proof -
    have "signed_take_bit 31 (timeout - d) = timeout - d"
      by (rule signed_take_bit_int_eq_self) (use assms(1,2) d(1,2) in simp_all)
    then show ?thesis unfolding signed_of_int by simp
  qed
  ultimately have "sint (word_of_int timeout - (now - start) :: u32) = timeout - d" by (simp only:)
  then show ?thesis using assms(1) by (simp add: remaining_time_def Let_def d_def)
qed
text \<open>
  The whole of a blocking wait as the callers make it, error code cleared first: the thread is suspended on
  the list in the order of the flag, its timer runs for a positive waiting time, another thread runs.
\<close>

definition blocked :: "kernel \<Rightarrow> kernel \<Rightarrow> qid \<Rightarrow> tid \<Rightarrow> u8 \<Rightarrow> int \<Rightarrow> bool" where
  "blocked s s' q c flag time \<longleftrightarrow> rt_current_thread s' \<noteq> Some c \<and> rt_current_thread s' \<noteq> None \<and>
     (\<exists>cth th. threads s c = Some cth \<and> queues s' q = enqueue_waiter s flag c cth (queues s q) \<and>
        threads s' c = Some th \<and> tstate th = RT_THREAD_SUSPEND \<and> th_error th = RT_EOK) \<and>
     (0 < time \<longrightarrow> (\<exists>tm. timers s' (ThreadTimer c) = Some tm \<and> active tm \<and>
        timeout_tick tm = rt_tick s + word_of_int time))"

text \<open>A thread that can call a blocking function.\<close>

definition may_block :: "kernel \<Rightarrow> tid \<Rightarrow> bool" where
  "may_block s c \<longleftrightarrow> rt_current_thread s = Some c \<and> (\<exists>cth. threads s c = Some cth \<and> tstate cth = RT_THREAD_RUNNING) \<and>
     rt_interrupt_nest s = 0 \<and> rt_scheduler_lock_nest s = 0 \<and> rt_thread_ready_priority_group s \<noteq> 0"

lemma block_spec:
  assumes inv: "kernel_inv s" and may: "may_block s c" and q: "is_waitq q" and fl: "flag = 0 \<or> flag = 1"
    and time: "time < 0x7fffffff"
  obtains s2 s' where "ipc_wait q c flag time (upd_thread c (th_error_update (\<lambda>_. RT_EOK)) s) = Some s2"
    "rt_schedule s2 = Some s'" "kernel_inv s'" "sched_frame s s'" "blocked s s' q c flag time"
    "\<And>q'. is_waitq q' \<Longrightarrow> q' \<noteq> q \<Longrightarrow> queues s' q' = queues s q'"
proof -
  let ?s = "upd_thread c (th_error_update (\<lambda>_. RT_EOK)) s"
  obtain cth where c: "rt_current_thread s = Some c" "threads s c = Some cth" "tstate cth = RT_THREAD_RUNNING"
    "rt_scheduler_lock_nest s = 0" "rt_thread_ready_priority_group s \<noteq> 0" using may unfolding may_block_def by blast
  let ?c = "cth\<lparr>th_error := RT_EOK\<rparr>"
  have inv1: "kernel_inv ?s" by (rule kernel_inv_upd_inert [OF inv]) simp
  have c1: "rt_current_thread ?s = Some c" "threads ?s c = Some ?c" "tstate ?c = RT_THREAD_RUNNING"
    "rt_scheduler_lock_nest ?s = 0" "rt_thread_ready_priority_group ?s \<noteq> 0" "queues ?s = queues s" "rt_tick ?s = rt_tick s"
    using c by (simp_all add: upd_thread_def)
  obtain s2 s' where s': "ipc_wait q c flag time ?s = Some s2" "rt_schedule s2 = Some s'" "kernel_inv s'"
    "sched_frame ?s s'" "rt_current_thread s' \<noteq> Some c"
    "queues s' q = enqueue_waiter ?s flag c ?c (queues ?s q)"
    "\<And>q'. is_waitq q' \<Longrightarrow> q' \<noteq> q \<Longrightarrow> queues s' q' = queues ?s q'"
    "threads s' c = Some (set_state RT_THREAD_SUSPEND ?c)"
    "0 < time \<longrightarrow> (\<exists>tm. timers s' (ThreadTimer c) = Some tm \<and> active tm \<and>
      timeout_tick tm = rt_tick ?s + word_of_int time)" "rt_current_thread s' \<noteq> None"
    by (rule ipc_block_spec [OF inv1 c1(1-3) q fl time c1(4,5)]) blast
  have "lower_prio ?s = lower_prio s"
    by (auto simp: lower_prio_def upd_thread_def fun_eq_iff split: option.split)
  then have "enqueue_waiter ?s flag c ?c ts = enqueue_waiter s flag c cth ts" for ts
    by (simp add: enqueue_waiter_def)
  then have b: "blocked s s' q c flag time" using s'(5,6,8,9,10) c(2) c1(6,7) by (simp add: blocked_def)
  have f: "sched_frame s s'" using upd_thread_frame s'(4) sched_frame_trans by blast
  show thesis using that [OF s'(1,2,3) f b] s'(7) c1(6) by simp
qed

lemma kernel_inv_same_objects:
  assumes "kernel_inv s" and "same_sched s s'" and "timers_frame s s'" and "threads s' = threads s"
  shows "kernel_inv s'"
  using kernel_inv_same_timers [OF assms(1) _ assms(3,4)] winv_same_sched [OF assms(2)] kernel_invD(1) [OF assms(1)] by blast
text \<open>Waking the first waiting thread after a change to an IPC object only.\<close>

lemma wake_after_update:
  assumes inv: "kernel_inv s" and same: "same_sched s s1" "timers_frame s s1" and q: "is_waitq q"
    and cur: "rt_current_thread s \<noteq> None"
  obtains s' where "wake_first q s1 = Some s'" "kernel_inv s'" "sched_frame s1 s'"
    "queues s' q = tl (queues s q)" "queues s q \<noteq> [] \<longrightarrow> awake s s' (hd (queues s q))"
    "\<forall>q'. is_waitq q' \<and> q' \<noteq> q \<longrightarrow> queues s' q' = queues s q'"
proof -
  have t: "threads s1 = threads s" "queues s1 = queues s" "rt_current_thread s1 \<noteq> None" using same(1) cur by (auto simp: same_sched_def)
  have k: "kernel_inv s1" by (rule kernel_inv_same_objects [OF inv same t(1)])
  obtain s' where s': "wake_first q s1 = Some s'" "kernel_inv s'" "sched_frame s1 s'"
    "queues s' q = tl (queues s1 q)" "\<And>q'. is_waitq q' \<Longrightarrow> q' \<noteq> q \<Longrightarrow> queues s' q' = queues s1 q'"
    "queues s1 q \<noteq> [] \<Longrightarrow> awake s1 s' (hd (queues s1 q))"
    by (rule wake_first_spec [OF k q t(3)]) blast
  show thesis by (rule that [OF s'(1-3)]) (use s'(4-6) t(1,2) in \<open>auto simp: awake_def\<close>)
qed

section \<open>A concrete kernel with a waiting thread\<close>

text \<open>The kernel of \<open>demo_kernel\<close> with thread 3 waiting on a list of choice.\<close>

definition demo_on :: "qid \<Rightarrow> kernel" where
  "demo_on q = (demo_kernel 0)\<lparr>queues := (\<lambda>_. [])(ReadyQ 10 := [2], ReadyQ 31 := [0], q := [3])\<rparr>"

lemma demo_on_fields [simp]:
  "rt_current_thread (demo_on q) = Some 1" "rt_scheduler_lock_nest (demo_on q) = 0"
  "rt_thread_ready_priority_group (demo_on q) = 0x80000400" "rt_interrupt_nest (demo_on q) = 0"
  "threads (demo_on q) = threads (demo_kernel 0)" "timers (demo_on q) = timers (demo_kernel 0)"
  "queues (demo_on q) = (\<lambda>_. [])(ReadyQ 10 := [2], ReadyQ 31 := [0], q := [3])"
  by (simp_all add: demo_on_def)

lemma demo_on_inv:
  assumes "is_waitq q"
  shows "kernel_inv (demo_on q)"
proof -
  let ?s = "(demo_kernel 0)\<lparr>queues := (\<lambda>_. [])(ReadyQ 10 := [2], ReadyQ 31 := [0])\<rparr>"
  have "kernel_inv (demo_kernel 0)" by (rule demo_kernel_inv) simp
  moreover have "sched_inv ?s"
  proof -
    have "bit (0x80000400 :: u32) p \<longleftrightarrow> p = 10 \<or> p = 31" for p using bit_two_masks [of 10 31 p] by simp
    then have "queue_ok ?s" unfolding queue_ok_def by (simp split: if_split)
    moreover have "tcons ?s t" for t
    proof -
      consider "t = 0" | "t = 1" | "t = 2" | "t = 3" | "t = 4" | "4 < t" by linarith
      then show ?thesis by cases (auto simp: tcons_def nowhere_def demo_thread_ok)
    qed
    ultimately show ?thesis by (simp add: winv_def)
  qed
  ultimately have inv: "kernel_inv ?s" by (rule kernel_inv_same_timers) simp_all
  have "kernel_inv (?s\<lparr>queues := (queues ?s)(q := [3])\<rparr>)"
    by (rule kernel_inv_join_waitq [OF inv, of 3 "demo_thread RT_THREAD_SUSPEND 5"])
      (use assms in \<open>auto simp: nowhere_def is_waitq_def\<close>)
  then show ?thesis by (simp add: demo_on_def)
qed

end
