(* ===== verification/Semaphore.thy ===== *)
theory Semaphore
  imports Ipc
begin

text \<open>
  The semaphores of \<^verbatim>\<open>rt-thread/src/ipc.c\<close>. The count is an \<^verbatim>\<open>rt_uint16_t\<close>; a release hands the
  unit directly to the first waiting thread when there is one. \<open>sem_inv\<close> is what makes that sound:
  nobody waits while units are available.
\<close>

section \<open>Operations\<close>

abbreviation (input) RT_SEM_VALUE_MAX :: u16 where "RT_SEM_VALUE_MAX \<equiv> 0xffff"

definition upd_sem :: "nat \<Rightarrow> (rt_semaphore \<Rightarrow> rt_semaphore) \<Rightarrow> kernel \<Rightarrow> kernel" where
  [rt_defs]: "upd_sem i f s = s\<lparr>sems := (sems s)(i := map_option f (sems s i))\<rparr>"

definition zero_sem :: rt_semaphore where
  "zero_sem = \<lparr>sem_type = 0, sem_flag = 0, sem_value = 0\<rparr>"

definition touch_sem :: "nat \<Rightarrow> kernel \<Rightarrow> kernel" where
  "touch_sem i s = (case sems s i of None \<Rightarrow> s\<lparr>sems := (sems s)(i \<mapsto> zero_sem)\<rparr> | Some _ \<Rightarrow> s)"

definition rt_sem_init :: "nat \<Rightarrow> string \<Rightarrow> u32 \<Rightarrow> u8 \<Rightarrow> kernel \<Rightarrow> (kernel \<times> rt_err_t) option" where
  "rt_sem_init i name v flag s = do {
     rt_assert (v < 0x10000);
     s1 \<leftarrow> rt_object_init (SemObj i) RT_Object_Class_Semaphore name (touch_sem i s);
     let s2 = s1\<lparr>queues := (queues s1)(SemQ i := [])\<rparr>;
     Some (upd_sem i (\<lambda>sem. sem\<lparr>sem_value := ucast v, sem_flag := flag\<rparr>) s2, RT_EOK) }"

definition rt_sem_detach :: "nat \<Rightarrow> kernel \<Rightarrow> (kernel \<times> rt_err_t) option" where
  "rt_sem_detach i s = do {
     sem \<leftarrow> sems s i;
     rt_assert (rt_object_get_type (sem_type sem) = RT_Object_Class_Semaphore);
     rt_assert (rt_object_is_systemobject (sem_type sem));
     s1 \<leftarrow> rt_ipc_list_resume_all (SemQ i) s;
     Some (rt_object_detach (SemObj i) s1, RT_EOK) }"

definition rt_sem_create :: "nat option \<Rightarrow> string \<Rightarrow> u32 \<Rightarrow> u8 \<Rightarrow> kernel \<Rightarrow> (kernel \<times> nat option) option" where
  "rt_sem_create mem name v flag s = do {
     RT_DEBUG_NOT_IN_INTERRUPT s;
     rt_assert (v < 0x10000);
     let s0 = (case mem of None \<Rightarrow> s | Some i \<Rightarrow> s\<lparr>sems := (sems s)(i \<mapsto> zero_sem)\<rparr>);
     (s1, _) \<leftarrow> rt_object_allocate (map_option SemObj mem) RT_Object_Class_Semaphore name s0;
     Some (case mem of None \<Rightarrow> (s1, None)
       | Some i \<Rightarrow> (upd_sem i (\<lambda>sem. sem\<lparr>sem_value := ucast v, sem_flag := flag\<rparr>)
           (s1\<lparr>queues := (queues s1)(SemQ i := [])\<rparr>), Some i)) }"

definition rt_sem_delete :: "nat \<Rightarrow> kernel \<Rightarrow> (kernel \<times> rt_err_t) option" where
  "rt_sem_delete i s = do {
     RT_DEBUG_NOT_IN_INTERRUPT s;
     sem \<leftarrow> sems s i;
     rt_assert (rt_object_get_type (sem_type sem) = RT_Object_Class_Semaphore);
     rt_assert (\<not> rt_object_is_systemobject (sem_type sem));
     s1 \<leftarrow> rt_ipc_list_resume_all (SemQ i) s;
     s2 \<leftarrow> rt_object_delete (SemObj i) s1;
     Some (s2, RT_EOK) }"

definition rt_sem_take :: "nat \<Rightarrow> int \<Rightarrow> kernel \<Rightarrow> (kernel \<times> rt_err_t call) option" where
  "rt_sem_take i time s = do {
     sem \<leftarrow> sems s i;
     rt_assert (rt_object_get_type (sem_type sem) = RT_Object_Class_Semaphore);
     if 0 < sem_value sem
     then Some (upd_sem i (\<lambda>sem. sem\<lparr>sem_value := sem_value sem - 1\<rparr>) s, Done RT_EOK)
     else if time = 0 then Some (s, Done (- RT_ETIMEOUT))
     else do {
       RT_DEBUG_IN_THREAD_CONTEXT s;
       t \<leftarrow> rt_thread_self s;
       let s1 = upd_thread t (th_error_update (\<lambda>_. RT_EOK)) s;
       s2 \<leftarrow> ipc_wait (SemQ i) t (sem_flag sem) time s1;
       s3 \<leftarrow> rt_schedule s2;
       Some (s3, Waiting) } }"

definition rt_sem_take_return :: "tid \<Rightarrow> kernel \<Rightarrow> rt_err_t option" where
  "rt_sem_take_return t s = do {
     th \<leftarrow> threads s t;
     Some (if th_error th \<noteq> RT_EOK then th_error th else RT_EOK) }"

definition rt_sem_trytake :: "nat \<Rightarrow> kernel \<Rightarrow> (kernel \<times> rt_err_t call) option" where
  "rt_sem_trytake i s = rt_sem_take i 0 s"

definition rt_sem_release :: "nat \<Rightarrow> kernel \<Rightarrow> (kernel \<times> rt_err_t) option" where
  "rt_sem_release i s = do {
     sem \<leftarrow> sems s i;
     rt_assert (rt_object_get_type (sem_type sem) = RT_Object_Class_Semaphore);
     if queues s (SemQ i) \<noteq> []
     then do {
       (s1, _) \<leftarrow> rt_ipc_list_resume (SemQ i) s;
       s2 \<leftarrow> rt_schedule s1;
       Some (s2, RT_EOK) }
     else if sem_value sem < RT_SEM_VALUE_MAX
     then Some (upd_sem i (\<lambda>sem. sem\<lparr>sem_value := sem_value sem + 1\<rparr>) s, RT_EOK)
     else Some (s, - RT_EFULL) }"

definition rt_sem_control :: "nat \<Rightarrow> nat \<Rightarrow> u32 \<Rightarrow> kernel \<Rightarrow> (kernel \<times> rt_err_t) option" where
  "rt_sem_control i cmd arg s = do {
     sem \<leftarrow> sems s i;
     rt_assert (rt_object_get_type (sem_type sem) = RT_Object_Class_Semaphore);
     if cmd = RT_IPC_CMD_RESET
     then do {
       s1 \<leftarrow> rt_ipc_list_resume_all (SemQ i) s;
       s2 \<leftarrow> rt_schedule (upd_sem i (sem_value_update (\<lambda>_. ucast arg)) s1);
       Some (s2, RT_EOK) }
     else Some (s, - RT_ERROR) }"

section \<open>Invariant\<close>

definition sem_ok :: "kernel \<Rightarrow> nat \<Rightarrow> rt_semaphore \<Rightarrow> bool" where
  "sem_ok s i sem \<longleftrightarrow> rt_object_get_type (sem_type sem) = RT_Object_Class_Semaphore \<and>
     (sem_flag sem = RT_IPC_FLAG_FIFO \<or> sem_flag sem = RT_IPC_FLAG_PRIO) \<and>
     (queues s (SemQ i) \<noteq> [] \<longrightarrow> sem_value sem = 0)"

definition sem_inv :: "kernel \<Rightarrow> bool" where
  "sem_inv s \<longleftrightarrow> kernel_inv s \<and> (\<forall>i sem. sems s i = Some sem \<longrightarrow> sem_ok s i sem)"

lemma sem_invD:
  assumes "sem_inv s"
  shows "kernel_inv s" "sems s i = Some sem \<Longrightarrow> sem_ok s i sem"
  using assms by (auto simp: sem_inv_def)

lemma kernel_inv_upd_sem: "kernel_inv (upd_sem i f s) = kernel_inv s"
proof -
  have "same_sched s (upd_sem i f s)" by (simp add: same_sched_def upd_sem_def)
  then have "sched_inv (upd_sem i f s) = sched_inv s" by (rule winv_same_sched)
  moreover have "tt_cons (upd_sem i f s) t = tt_cons s t" for t by (rule tt_cons_cong) (simp_all add: upd_sem_def)
  ultimately show ?thesis by (simp add: kernel_inv_def timer_inv_def timer_lists_ok_def upd_sem_def)
qed


lemma sem_ok_transfer:
  assumes "sem_inv s" and "kernel_inv s'" and "\<And>j. j \<noteq> i \<Longrightarrow> sems s' j = sems s j"
    and "\<And>j. j \<noteq> i \<Longrightarrow> queues s' (SemQ j) = queues s (SemQ j)"
    and "\<And>sem. sems s' i = Some sem \<Longrightarrow> sem_ok s' i sem"
  shows "sem_inv s'"
proof -
  have "sem_ok s' j sem" if "sems s' j = Some sem" for j sem
    using assms(3) [of j] assms(4) [of j] assms(5) [of sem] that sem_invD(2) [OF assms(1), of j sem]
    by (cases "j = i") (auto simp: sem_ok_def)
  with assms(2) show ?thesis by (simp add: sem_inv_def)
qed

text \<open>C6. \<^verbatim>\<open>rt_sem_take\<close> on every branch: a positive count is decremented and the call returns at once; with
  count zero and no waiting time it returns \<^verbatim>\<open>-RT_ETIMEOUT\<close> and changes nothing; otherwise the caller is
  suspended on the semaphore's list in the order of the flag, with its error code cleared and its timer
  running for a positive waiting time, and another thread runs. The invariant is kept.\<close>

theorem rt_sem_take_correct:
  assumes "sem_inv s" and "sems s i = Some sem" and "rt_current_thread s = Some c"
    and "threads s c = Some cth" and "tstate cth = RT_THREAD_RUNNING" and "rt_interrupt_nest s = 0"
    and "rt_scheduler_lock_nest s = 0" and "rt_thread_ready_priority_group s \<noteq> 0" and "time < 0x7fffffff"
  shows "\<exists>s' r. rt_sem_take i time s = Some (s', r) \<and> sem_inv s' \<and>
     (0 < sem_value sem \<longrightarrow> r = Done RT_EOK \<and> s' = s\<lparr>sems := (sems s)(i \<mapsto> sem\<lparr>sem_value := sem_value sem - 1\<rparr>)\<rparr>) \<and>
     (sem_value sem = 0 \<and> time = 0 \<longrightarrow> r = Done (- RT_ETIMEOUT) \<and> s' = s) \<and>
     (sem_value sem = 0 \<and> time \<noteq> 0 \<longrightarrow> r = Waiting \<and> sems s' = sems s \<and> rt_current_thread s' \<noteq> Some c \<and>
        queues s' (SemQ i) = enqueue_waiter s (sem_flag sem) c cth (queues s (SemQ i)) \<and>
        (\<exists>th. threads s' c = Some th \<and> tstate th = RT_THREAD_SUSPEND \<and> th_error th = RT_EOK) \<and>
        (0 < time \<longrightarrow> (\<exists>tm. timers s' (ThreadTimer c) = Some tm \<and> active tm \<and>
           timeout_tick tm = rt_tick s + word_of_int time)))"
proof -
  note inv = sem_invD(1) [OF assms(1)]
  have ok: "sem_ok s i sem" by (rule sem_invD(2) [OF assms(1,2)])
  then have ty: "rt_object_get_type (sem_type sem) = RT_Object_Class_Semaphore" by (simp add: sem_ok_def)
  consider (take) "0 < sem_value sem" | (poll) "sem_value sem = 0" "time = 0" | (block) "sem_value sem = 0" "time \<noteq> 0"
    by (metis word_gt_0)
  then show ?thesis
  proof cases
    case take
    let ?s = "upd_sem i (\<lambda>sem. sem\<lparr>sem_value := sem_value sem - 1\<rparr>) s"
    have e: "?s = s\<lparr>sems := (sems s)(i \<mapsto> sem\<lparr>sem_value := sem_value sem - 1\<rparr>)\<rparr>"
      using assms(2) by (simp add: upd_sem_def)
    have "queues s (SemQ i) = []" using ok take by (auto simp: sem_ok_def)
    then have "sem_inv ?s" using ok assms(2)
      by (intro sem_ok_transfer [OF assms(1) iffD2 [OF kernel_inv_upd_sem inv], of i])
        (auto simp: sem_ok_def upd_sem_def)
    moreover have "rt_sem_take i time s = Some (?s, Done RT_EOK)" using assms(2) ty take by (simp add: rt_sem_take_def)
    ultimately show ?thesis using take e by auto
  next
    case poll
    then show ?thesis using assms(1,2) ty by (simp add: rt_sem_take_def)
  next
    case block
    let ?s1 = "upd_thread c (th_error_update (\<lambda>_. RT_EOK)) s" and ?cth = "cth\<lparr>th_error := RT_EOK\<rparr>"
    have inv1: "kernel_inv ?s1" by (rule kernel_inv_upd_inert [OF inv]) simp
    have c1: "rt_current_thread ?s1 = Some c" "threads ?s1 c = Some ?cth" "tstate ?cth = RT_THREAD_RUNNING"
      "rt_scheduler_lock_nest ?s1 = 0" "rt_thread_ready_priority_group ?s1 \<noteq> 0" "queues ?s1 = queues s" "rt_tick ?s1 = rt_tick s"
      "sems ?s1 = sems s"
      using assms(3-5,7,8) by (simp_all add: upd_thread_def)
    have fl: "sem_flag sem = 0 \<or> sem_flag sem = 1" using ok by (simp add: sem_ok_def)
    have wq: "is_waitq (SemQ i)" by (simp add: is_waitq_def)
    obtain s2 s' where s': "ipc_wait (SemQ i) c (sem_flag sem) time ?s1 = Some s2" "rt_schedule s2 = Some s'" "kernel_inv s'"
      "sched_frame ?s1 s'" "rt_current_thread s' \<noteq> Some c"
      "queues s' (SemQ i) = enqueue_waiter ?s1 (sem_flag sem) c ?cth (queues ?s1 (SemQ i))"
      "\<And>q'. is_waitq q' \<Longrightarrow> q' \<noteq> SemQ i \<Longrightarrow> queues s' q' = queues ?s1 q'"
      "threads s' c = Some (set_state RT_THREAD_SUSPEND ?cth)"
      "0 < time \<longrightarrow> (\<exists>tm. timers s' (ThreadTimer c) = Some tm \<and> active tm \<and>
        timeout_tick tm = rt_tick ?s1 + word_of_int time)"
      by (rule ipc_block_spec [OF inv1 c1(1-3) wq fl assms(9) c1(4,5)]) blast
    have lp: "lower_prio ?s1 = lower_prio s"
      by (auto simp: lower_prio_def upd_thread_def fun_eq_iff split: option.split)
    have eq: "enqueue_waiter ?s1 (sem_flag sem) c ?cth ts = enqueue_waiter s (sem_flag sem) c cth ts" for ts
      by (simp add: enqueue_waiter_def lp)
    have se: "sems s' = sems s" using s'(4) c1(8) by (simp add: sched_frame_def)
    have oth: "queues s' (SemQ j) = queues s (SemQ j)" if "j \<noteq> i" for j
      using s'(7) [of "SemQ j"] that by (simp add: is_waitq_def c1(6))
    have "sem_inv s'"
    proof (rule sem_ok_transfer [OF assms(1) s'(3), of i])
      show "sem_ok s' i sem'" if "sems s' i = Some sem'" for sem'
        using that se assms(2) ok block by (simp add: sem_ok_def)
    qed (simp_all add: se oth)
    moreover have "rt_sem_take i time s = Some (s', Waiting)"
      using assms(2,3,6) ty block s'(1,2) c1
      by (simp add: rt_sem_take_def rt_context_defs)
    ultimately show ?thesis using block s'(5,6,8,9) se eq c1(6,7) by auto
  qed
qed


definition demo_sem :: "u16 \<Rightarrow> kernel" where
  "demo_sem v = (demo_kernel 0)\<lparr>sems := [0 \<mapsto> \<lparr>sem_type = 0x82, sem_flag = 0, sem_value = 0\<rparr>,
     1 \<mapsto> \<lparr>sem_type = 0x82, sem_flag = 1, sem_value = v\<rparr>]\<rparr>"

lemma demo_sem_inv: "sem_inv (demo_sem v)"
proof -
  have "same_sched (demo_kernel 0) (demo_sem v)" by (simp add: same_sched_def demo_sem_def)
  then have si: "sched_inv (demo_sem v)" using winv_same_sched demo_inv [of 0] by simp
  have "kernel_inv (demo_kernel 0)" by (rule demo_kernel_inv) simp
  then have "kernel_inv (demo_sem v)" by (rule kernel_inv_same_timers [OF _ si]) (simp_all add: demo_sem_def)
  moreover have "sem_ok (demo_sem v) i sem" if "sems (demo_sem v) i = Some sem" for i sem
  proof -
    have "i = 0 \<and> sem = \<lparr>sem_type = 0x82, sem_flag = 0, sem_value = 0\<rparr> \<or>
        i = 1 \<and> sem = \<lparr>sem_type = 0x82, sem_flag = 1, sem_value = v\<rparr>"
      using that by (simp add: demo_sem_def split: if_splits)
    then show ?thesis by (auto simp: demo_sem_def sem_ok_def rt_object_get_type_def)
  qed
  ultimately show ?thesis by (simp add: sem_inv_def)
qed

theorem rt_sem_take_correct_witness:
  "\<exists>s' r. rt_sem_take 0 50 (demo_sem 7) = Some (s', r) \<and> sem_inv s' \<and> r = Waiting \<and>
     queues s' (SemQ 0) = [3, 1] \<and> rt_current_thread s' \<noteq> Some 1"
  using rt_sem_take_correct [OF demo_sem_inv [of 7], of 0 "\<lparr>sem_type = 0x82, sem_flag = 0, sem_value = 0\<rparr>" 1
      "demo_thread 3 10" 50]
  by (auto simp: demo_sem_def enqueue_waiter_def)

text \<open>C3. \<^verbatim>\<open>rt_sem_release\<close> on every branch: when threads wait, the first of them gets the unit directly (it is ready
  or running, its pending \<^verbatim>\<open>rt_sem_take\<close> will report the error code it has, which is success unless it timed
  out) and the count stays zero; otherwise the count is incremented, or left at 65535 with \<^verbatim>\<open>-RT_EFULL\<close>.
  The invariant that nobody waits while the count is positive is kept.\<close>

theorem rt_sem_release_correct:
  assumes "sem_inv s" and "sems s i = Some sem" and "rt_current_thread s \<noteq> None"
  shows "\<exists>s' r. rt_sem_release i s = Some (s', r) \<and> sem_inv s' \<and>
     (\<forall>t ts. queues s (SemQ i) = t # ts \<longrightarrow> r = RT_EOK \<and> sems s' = sems s \<and> queues s' (SemQ i) = ts \<and>
        (\<exists>th th'. threads s t = Some th \<and> threads s' t = Some th' \<and>
           tstate th' \<in> {RT_THREAD_READY, RT_THREAD_RUNNING} \<and> rt_sem_take_return t s' = Some (th_error th))) \<and>
     (queues s (SemQ i) = [] \<and> sem_value sem < RT_SEM_VALUE_MAX \<longrightarrow>
        r = RT_EOK \<and> s' = s\<lparr>sems := (sems s)(i \<mapsto> sem\<lparr>sem_value := sem_value sem + 1\<rparr>)\<rparr>) \<and>
     (queues s (SemQ i) = [] \<and> sem_value sem = RT_SEM_VALUE_MAX \<longrightarrow> r = - RT_EFULL \<and> s' = s)"
proof -
  note inv = sem_invD(1) [OF assms(1)]
  have ok: "sem_ok s i sem" by (rule sem_invD(2) [OF assms(1,2)])
  then have ty: "rt_object_get_type (sem_type sem) = RT_Object_Class_Semaphore" by (simp add: sem_ok_def)
  show ?thesis
  proof (cases "queues s (SemQ i)")
    case Nil
    show ?thesis
    proof (cases "sem_value sem < RT_SEM_VALUE_MAX")
      case True
      let ?s = "upd_sem i (\<lambda>sem. sem\<lparr>sem_value := sem_value sem + 1\<rparr>) s"
      have "sem_inv ?s" using ok assms(2) Nil
        by (intro sem_ok_transfer [OF assms(1) iffD2 [OF kernel_inv_upd_sem inv], of i])
          (auto simp: sem_ok_def upd_sem_def)
      moreover have "rt_sem_release i s = Some (?s, RT_EOK)" using assms(2) ty Nil True by (simp add: rt_sem_release_def)
      ultimately show ?thesis using Nil True assms(2) by (auto simp: upd_sem_def)
    next
      case False
      then show ?thesis using assms(1,2) ty Nil by (simp add: rt_sem_release_def)
    qed
  next
    case (Cons t ts)
    have wq: "is_waitq (SemQ i)" by (simp add: is_waitq_def)
    obtain s1 th where s1: "rt_thread_resume t s = Some (s1, RT_EOK)" "kernel_inv s1"
      "threads s t = Some th" "threads s1 = (threads s)(t \<mapsto> woken s t th)" "queues s1 (SemQ i) = ts"
      "\<And>q'. is_waitq q' \<Longrightarrow> q' \<noteq> SemQ i \<Longrightarrow> queues s1 q' = queues s q'"
      "rt_current_thread s1 = rt_current_thread s" "sched_frame s s1"
      by (rule waitq_resume [OF inv wq Cons]) blast
    have cur1: "rt_current_thread s1 \<noteq> None" using s1(7) assms(3) by simp
    obtain s' where s': "rt_schedule s1 = Some s'" "kernel_inv s'" "sched_frame s1 s'"
      "\<And>t th. threads s1 t = Some th \<Longrightarrow> \<exists>th'. threads s' t = Some th' \<and> same_thread th th'"
      "\<And>q. is_waitq q \<Longrightarrow> queues s' q = queues s1 q"
      by (rule schedule_after_wake [OF s1(2) cur1]) blast
    have "threads s1 t = Some (woken s t th)" using s1(4) by simp
    then obtain th' where th': "threads s' t = Some th'" "same_thread (woken s t th) th'" using s'(4) by blast
    have se: "sems s' = sems s" using s1(8) s'(3) by (simp add: sched_frame_def)
    have st: "tstate th' \<in> {RT_THREAD_READY, RT_THREAD_RUNNING}"
      using th'(2) by (auto simp: same_thread_def split: if_splits)
    have ret: "rt_sem_take_return t s' = Some (th_error th)"
      using th' same_threadD(5) [OF th'(2)] by (simp add: rt_sem_take_return_def)
    have q': "queues s' (SemQ i) = ts" using s'(5) [OF wq] s1(5) by simp
    have "sem_inv s'"
    proof (rule sem_ok_transfer [OF assms(1) s'(2), of i])
      show "sem_ok s' i sem'" if "sems s' i = Some sem'" for sem'
        using that se assms(2) ok Cons by (simp add: sem_ok_def)
      show "queues s' (SemQ j) = queues s (SemQ j)" if "j \<noteq> i" for j
        using s'(5) [of "SemQ j"] s1(6) [of "SemQ j"] that by (simp add: is_waitq_def)
    qed (simp add: se)
    moreover have "rt_sem_release i s = Some (s', RT_EOK)"
      using assms(2) ty Cons s1(1) s'(1) by (simp add: rt_sem_release_def rt_ipc_list_resume_def)
    ultimately show ?thesis using Cons se q' s1(3) th'(1) st ret by auto
  qed
qed

theorem rt_sem_release_correct_witness:
  "\<exists>s' r. rt_sem_release 0 (demo_sem 7) = Some (s', r) \<and> sem_inv s' \<and> r = RT_EOK \<and> queues s' (SemQ 0) = [] \<and>
     rt_sem_take_return 3 s' = Some RT_EOK"
  using rt_sem_release_correct [OF demo_sem_inv [of 7], of 0 "\<lparr>sem_type = 0x82, sem_flag = 0, sem_value = 0\<rparr>"]
  by (auto simp: demo_sem_def demo_thread_def)

end
