(* ===== verification/Mutex.thy ===== *)
theory Mutex
  imports Ipc
begin

text \<open>
  The mutexes of \<^verbatim>\<open>rt-thread/src/ipc.c\<close>: recursive locks with an owner, priority inheritance while a
  thread of higher priority waits, and direct hand-over to the first waiting thread on release.
\<close>

section \<open>Operations\<close>

abbreviation (input) RT_MUTEX_VALUE_MAX :: u16 where "RT_MUTEX_VALUE_MAX \<equiv> 0xffff"
abbreviation (input) RT_MUTEX_HOLD_MAX :: u8 where "RT_MUTEX_HOLD_MAX \<equiv> 0xff"

definition upd_mutex :: "nat \<Rightarrow> (rt_mutex \<Rightarrow> rt_mutex) \<Rightarrow> kernel \<Rightarrow> kernel" where
  [rt_defs]: "upd_mutex i f s = s\<lparr>mutexes := (mutexes s)(i := map_option f (mutexes s i))\<rparr>"

definition zero_mutex :: rt_mutex where
  "zero_mutex = \<lparr>mutex_type = 0, mutex_flag = 0, mutex_value = 0, original_priority = 0, hold = 0, owner = None\<rparr>"

definition touch_mutex :: "nat \<Rightarrow> kernel \<Rightarrow> kernel" where
  "touch_mutex i s = (case mutexes s i of None \<Rightarrow> s\<lparr>mutexes := (mutexes s)(i \<mapsto> zero_mutex)\<rparr> | Some _ \<Rightarrow> s)"

text \<open>The assignments \<^verbatim>\<open>rt_mutex_init\<close> and \<^verbatim>\<open>rt_mutex_create\<close> share.\<close>

definition mutex_reset :: "nat \<Rightarrow> u8 \<Rightarrow> kernel \<Rightarrow> kernel" where
  "mutex_reset i flag s = upd_mutex i (\<lambda>m. m\<lparr>mutex_value := 1, owner := None, original_priority := 0xff,
     hold := 0, mutex_flag := flag\<rparr>) (s\<lparr>queues := (queues s)(MutexQ i := [])\<rparr>)"

definition rt_mutex_init :: "nat \<Rightarrow> string \<Rightarrow> u8 \<Rightarrow> kernel \<Rightarrow> (kernel \<times> rt_err_t) option" where
  "rt_mutex_init i name flag s = do {
     s1 \<leftarrow> rt_object_init (MutexObj i) RT_Object_Class_Mutex name (touch_mutex i s);
     Some (mutex_reset i flag s1, RT_EOK) }"

definition rt_mutex_detach :: "nat \<Rightarrow> kernel \<Rightarrow> (kernel \<times> rt_err_t) option" where
  "rt_mutex_detach i s = do {
     m \<leftarrow> mutexes s i;
     rt_assert (rt_object_get_type (mutex_type m) = RT_Object_Class_Mutex);
     rt_assert (rt_object_is_systemobject (mutex_type m));
     s1 \<leftarrow> rt_ipc_list_resume_all (MutexQ i) s;
     Some (rt_object_detach (MutexObj i) s1, RT_EOK) }"

definition rt_mutex_create :: "nat option \<Rightarrow> string \<Rightarrow> u8 \<Rightarrow> kernel \<Rightarrow> (kernel \<times> nat option) option" where
  "rt_mutex_create mem name flag s = do {
     RT_DEBUG_NOT_IN_INTERRUPT s;
     let s0 = (case mem of None \<Rightarrow> s | Some i \<Rightarrow> s\<lparr>mutexes := (mutexes s)(i \<mapsto> zero_mutex)\<rparr>);
     (s1, _) \<leftarrow> rt_object_allocate (map_option MutexObj mem) RT_Object_Class_Mutex name s0;
     Some (case mem of None \<Rightarrow> (s1, None) | Some i \<Rightarrow> (mutex_reset i flag s1, Some i)) }"

definition rt_mutex_delete :: "nat \<Rightarrow> kernel \<Rightarrow> (kernel \<times> rt_err_t) option" where
  "rt_mutex_delete i s = do {
     RT_DEBUG_NOT_IN_INTERRUPT s;
     m \<leftarrow> mutexes s i;
     rt_assert (rt_object_get_type (mutex_type m) = RT_Object_Class_Mutex);
     rt_assert (\<not> rt_object_is_systemobject (mutex_type m));
     s1 \<leftarrow> rt_ipc_list_resume_all (MutexQ i) s;
     s2 \<leftarrow> rt_object_delete (MutexObj i) s1;
     Some (s2, RT_EOK) }"

text \<open>The change of the owner's priority when a thread of higher priority has to wait.\<close>

definition mutex_inherit :: "tid \<Rightarrow> u8 \<Rightarrow> kernel \<Rightarrow> kernel option" where
  "mutex_inherit own p s = do {
     oth \<leftarrow> threads s own;
     if p < current_priority oth
     then do { (s1, _) \<leftarrow> rt_thread_control own RT_THREAD_CTRL_CHANGE_PRIORITY p s; Some s1 }
     else Some s }"

definition rt_mutex_take :: "nat \<Rightarrow> int \<Rightarrow> kernel \<Rightarrow> (kernel \<times> rt_err_t call) option" where
  "rt_mutex_take i time s = do {
     RT_DEBUG_IN_THREAD_CONTEXT s;
     m \<leftarrow> mutexes s i;
     rt_assert (rt_object_get_type (mutex_type m) = RT_Object_Class_Mutex);
     t \<leftarrow> rt_thread_self s;
     th \<leftarrow> threads s t;
     let s1 = upd_thread t (th_error_update (\<lambda>_. RT_EOK)) s;
     if owner m = Some t
     then if hold m < RT_MUTEX_HOLD_MAX
          then Some (upd_mutex i (\<lambda>m. m\<lparr>hold := hold m + 1\<rparr>) s1, Done RT_EOK)
          else Some (s1, Done (- RT_EFULL))
     else if 0 < mutex_value m
     then let s2 = upd_mutex i (\<lambda>m. m\<lparr>mutex_value := mutex_value m - 1, owner := Some t,
                     original_priority := current_priority th\<rparr>) s1
          in if hold m < RT_MUTEX_HOLD_MAX
             then Some (upd_mutex i (\<lambda>m. m\<lparr>hold := hold m + 1\<rparr>) s2, Done RT_EOK)
             else Some (s2, Done (- RT_EFULL))
     else if time = 0
     then Some (upd_thread t (th_error_update (\<lambda>_. - RT_ETIMEOUT)) s1, Done (- RT_ETIMEOUT))
     else do {
       own \<leftarrow> owner m;
       s2 \<leftarrow> mutex_inherit own (current_priority th) s1;
       s3 \<leftarrow> ipc_wait (MutexQ i) t (mutex_flag m) time s2;
       s4 \<leftarrow> rt_schedule s3;
       Some (s4, Waiting) } }"

definition rt_mutex_take_return :: "tid \<Rightarrow> kernel \<Rightarrow> rt_err_t option" where
  "rt_mutex_take_return t s = do {
     th \<leftarrow> threads s t;
     Some (if th_error th \<noteq> RT_EOK then th_error th else RT_EOK) }"

text \<open>The owner gets back the priority it had when it took the mutex.\<close>

definition mutex_restore :: "tid \<Rightarrow> u8 \<Rightarrow> kernel \<Rightarrow> kernel option" where
  "mutex_restore own p s = do {
     oth \<leftarrow> threads s own;
     if p \<noteq> current_priority oth
     then do { (s1, _) \<leftarrow> rt_thread_control own RT_THREAD_CTRL_CHANGE_PRIORITY p s; Some s1 }
     else Some s }"

definition rt_mutex_release :: "nat \<Rightarrow> kernel \<Rightarrow> (kernel \<times> rt_err_t) option" where
  "rt_mutex_release i s = do {
     m \<leftarrow> mutexes s i;
     rt_assert (rt_object_get_type (mutex_type m) = RT_Object_Class_Mutex);
     RT_DEBUG_IN_THREAD_CONTEXT s;
     t \<leftarrow> rt_thread_self s;
     if owner m \<noteq> Some t
     then Some (upd_thread t (th_error_update (\<lambda>_. - RT_ERROR)) s, - RT_ERROR)
     else let s1 = upd_mutex i (\<lambda>m. m\<lparr>hold := hold m - 1\<rparr>) s
     in if hold m - 1 \<noteq> 0 then Some (s1, RT_EOK)
     else do {
       s2 \<leftarrow> mutex_restore t (original_priority m) s1;
       case queues s2 (MutexQ i) of
         w # _ \<Rightarrow> do {
           wth \<leftarrow> threads s2 w;
           let s3 = upd_mutex i (\<lambda>m. m\<lparr>owner := Some w, original_priority := current_priority wth\<rparr>) s2;
           if hold m - 1 < RT_MUTEX_HOLD_MAX
           then do {
             (s4, _) \<leftarrow> rt_ipc_list_resume (MutexQ i) (upd_mutex i (\<lambda>m. m\<lparr>hold := hold m + 1\<rparr>) s3);
             s5 \<leftarrow> rt_schedule s4;
             Some (s5, RT_EOK) }
           else Some (s3, - RT_EFULL) }
       | [] \<Rightarrow>
           if mutex_value m < RT_MUTEX_VALUE_MAX
           then Some (upd_mutex i (\<lambda>m. m\<lparr>mutex_value := mutex_value m + 1, owner := None,
                  original_priority := 0xff\<rparr>) s2, RT_EOK)
           else Some (s2, - RT_EFULL) } }"

definition rt_mutex_control :: "nat \<Rightarrow> nat \<Rightarrow> kernel \<Rightarrow> rt_err_t option" where
  "rt_mutex_control i cmd s = do {
     m \<leftarrow> mutexes s i;
     rt_assert (rt_object_get_type (mutex_type m) = RT_Object_Class_Mutex);
     Some (- RT_ERROR) }"

section \<open>Invariant\<close>

text \<open>A mutex is free, or held by a live thread that does not wait for it.\<close>

definition mutex_ok :: "kernel \<Rightarrow> nat \<Rightarrow> rt_mutex \<Rightarrow> bool" where
  "mutex_ok s i m \<longleftrightarrow> rt_object_get_type (mutex_type m) = RT_Object_Class_Mutex \<and>
     (mutex_flag m = RT_IPC_FLAG_FIFO \<or> mutex_flag m = RT_IPC_FLAG_PRIO) \<and>
     (case owner m of
        None \<Rightarrow> mutex_value m = 1 \<and> hold m = 0 \<and> queues s (MutexQ i) = []
      | Some t \<Rightarrow> mutex_value m = 0 \<and> 0 < hold m \<and> unat (original_priority m) < RT_THREAD_PRIORITY_MAX \<and>
          t \<notin> set (queues s (MutexQ i)) \<and>
          (\<exists>th. threads s t = Some th \<and> tstate th \<in> {RT_THREAD_READY, RT_THREAD_SUSPEND, RT_THREAD_RUNNING}))"

definition mutex_inv :: "kernel \<Rightarrow> bool" where
  "mutex_inv s \<longleftrightarrow> kernel_inv s \<and> (\<forall>i m. mutexes s i = Some m \<longrightarrow> mutex_ok s i m)"

lemma mutex_invD:
  assumes "mutex_inv s"
  shows "kernel_inv s" "mutexes s i = Some m \<Longrightarrow> mutex_ok s i m"
  using assms by (auto simp: mutex_inv_def)

lemma kernel_inv_upd_mutex: "kernel_inv (upd_mutex i f s) = kernel_inv s"
proof -
  have "same_sched s (upd_mutex i f s)" by (simp add: same_sched_def upd_mutex_def)
  then have "sched_inv (upd_mutex i f s) = sched_inv s" by (rule winv_same_sched)
  moreover have "tt_cons (upd_mutex i f s) t = tt_cons s t" for t by (rule tt_cons_cong) (simp_all add: upd_mutex_def)
  ultimately show ?thesis by (simp add: kernel_inv_def timer_inv_def timer_lists_ok_def upd_mutex_def)
qed

text \<open>Threads of which the state, up to ready, suspended and running, is kept.\<close>

definition alive :: "rt_thread \<Rightarrow> bool" where
  "alive th \<longleftrightarrow> tstate th \<in> {RT_THREAD_READY, RT_THREAD_SUSPEND, RT_THREAD_RUNNING}"

definition keeps_alive :: "kernel \<Rightarrow> kernel \<Rightarrow> bool" where
  "keeps_alive s s' \<longleftrightarrow> (\<forall>t th. threads s t = Some th \<and> alive th \<longrightarrow> (\<exists>th'. threads s' t = Some th' \<and> alive th'))"

lemma keeps_alive_refl [simp]: "keeps_alive s s"
  by (simp add: keeps_alive_def)

lemma keeps_alive_trans: "keeps_alive s s' \<Longrightarrow> keeps_alive s' s'' \<Longrightarrow> keeps_alive s s''"
  unfolding keeps_alive_def by meson

lemma same_thread_alive: "same_thread th th' \<Longrightarrow> alive th = alive th'"
  by (auto simp: same_thread_def alive_def)

lemma mutex_inv_transfer:
  assumes inv: "mutex_inv s" and k: "kernel_inv s'" and al: "keeps_alive s s'"
    and oth: "\<And>j. j \<noteq> i \<Longrightarrow> mutexes s' j = mutexes s j" "\<And>j. j \<noteq> i \<Longrightarrow> queues s' (MutexQ j) = queues s (MutexQ j)"
    and mine: "\<And>m. mutexes s' i = Some m \<Longrightarrow> mutex_ok s' i m"
  shows "mutex_inv s'"
proof -
  have "mutex_ok s' j m" if m: "mutexes s' j = Some m" for j m
  proof (cases "j = i")
    case False
    then have ok: "mutex_ok s j m" using mutex_invD(2) [OF inv, of j m] oth(1) m by simp
    show ?thesis
    proof (cases "owner m")
      case None
      then show ?thesis using ok oth(2) [OF False] by (simp add: mutex_ok_def)
    next
      case (Some t)
      then obtain th where "threads s t = Some th" "alive th" using ok by (auto simp: mutex_ok_def alive_def)
      then obtain th' where "threads s' t = Some th'" "alive th'" using al unfolding keeps_alive_def by blast
      then show ?thesis using ok oth(2) [OF False] Some by (simp add: mutex_ok_def alive_def)
    qed
  qed (use mine m in simp)
  with k show ?thesis by (simp add: mutex_inv_def)
qed


section \<open>Priority changes\<close>

lemma control_priority_spec:
  assumes inv: "kernel_inv s" and th: "threads s t = Some th" and al: "alive th" and p: "unat p < RT_THREAD_PRIORITY_MAX"
  obtains s' th' where "rt_thread_control t RT_THREAD_CTRL_CHANGE_PRIORITY p s = Some (s', RT_EOK)" "kernel_inv s'"
    "sched_frame s s'" "timers_frame s s'" "rt_current_thread s' = rt_current_thread s"
    "threads s' = (threads s)(t \<mapsto> th')" "current_priority th' = p" "tstate th' = tstate th" "th_error th' = th_error th"
    "\<And>q. is_waitq q \<Longrightarrow> queues s' q = queues s q"
    "rt_thread_ready_priority_group s \<noteq> 0 \<Longrightarrow> rt_thread_ready_priority_group s' \<noteq> 0"
proof -
  have st: "tstate th \<noteq> RT_THREAD_CLOSE" using al by (auto simp: alive_def)
  have ty: "rt_object_get_type (th_type th) = RT_Object_Class_Thread" by (rule kernel_inv_live [OF inv th st])
  have qok: "queue_ok s" by (rule winv_queue_ok [OF kernel_invD(1) [OF inv]])
  show thesis
  proof (cases "tstate th = RT_THREAD_READY")
    case True
    obtain s' where s': "change_priority t p s = Some s'" "kernel_inv s'"
      "sched_frame s s'" "timers_frame s s'" "rt_current_thread s' = rt_current_thread s"
      "threads s' = (threads s)(t \<mapsto> set_state RT_THREAD_READY (set_priority p th))"
      "queues s' = (\<lambda>q. removeAll t (queues s q))
         (ReadyQ (unat p) := removeAll t (queues s (ReadyQ (unat p))) @ [t])"
      by (rule change_priority_ready [OF inv th p True])
    have "t \<in> set (queues s (ReadyQ (unat (current_priority th))))"
      using winv_tcons [OF kernel_invD(1) [OF inv], of t] th True by (auto simp: tcons_def)
    then have rq: "q = ReadyQ (unat (current_priority th))" if "t \<in> set (queues s q)" for q
      using qok that unfolding queue_ok_def by blast
    have nw: "t \<notin> set (queues s q)" if "is_waitq q" for q
      using that rq [of q] by (auto simp: is_waitq_def)
    have "rt_thread_control t RT_THREAD_CTRL_CHANGE_PRIORITY p s = Some (s', RT_EOK)"
      using th ty s'(1) by (simp add: rt_thread_control_def)
    moreover have "queues s' q = queues s q" if "is_waitq q" for q
      using s'(7) nw [OF that] that by (auto simp: is_waitq_def)
    moreover have "rt_thread_ready_priority_group s' \<noteq> 0"
    proof -
      have "bit (rt_thread_ready_priority_group s') (unat p)"
        using winv_queue_ok [OF kernel_invD(1) [OF s'(2)]] s'(7) by (simp add: queue_ok_def)
      then show ?thesis by auto
    qed
    ultimately show thesis using s'(2-6) True
      by (intro that [of s' "set_state RT_THREAD_READY (set_priority p th)"]) simp_all
  next
    case False
    let ?s = "upd_thread t (set_priority p) s"
    have "rt_thread_control t RT_THREAD_CTRL_CHANGE_PRIORITY p s = Some (?s, RT_EOK)"
      using th ty change_priority_other(1) [OF inv th p False] by (simp add: rt_thread_control_def)
    then show thesis using change_priority_other(2) [OF inv th p False] th
      by (intro that [of ?s "set_priority p th"]) (simp_all add: upd_thread_def sched_frame_def)
  qed
qed

text \<open>Both uses of it in the mutex functions: the priority is changed when it differs from (is above) the old one.\<close>

lemma maybe_control_priority:
  assumes inv: "kernel_inv s" and th: "threads s t = Some th" and al: "alive th" and p: "unat p < RT_THREAD_PRIORITY_MAX"
  obtains s' th' where
    "(if b then do { (s1, _) \<leftarrow> rt_thread_control t RT_THREAD_CTRL_CHANGE_PRIORITY p s; Some s1 } else Some s) = Some s'"
    "kernel_inv s'" "sched_frame s s'" "timers_frame s s'" "rt_current_thread s' = rt_current_thread s"
    "threads s' = (threads s)(t \<mapsto> th')" "current_priority th' = (if b then p else current_priority th)"
    "tstate th' = tstate th" "th_error th' = th_error th" "\<And>q. is_waitq q \<Longrightarrow> queues s' q = queues s q"
    "rt_thread_ready_priority_group s \<noteq> 0 \<Longrightarrow> rt_thread_ready_priority_group s' \<noteq> 0"
proof (cases b)
  case True
  obtain s' th' where s': "rt_thread_control t RT_THREAD_CTRL_CHANGE_PRIORITY p s = Some (s', RT_EOK)" "kernel_inv s'"
    "sched_frame s s'" "timers_frame s s'" "rt_current_thread s' = rt_current_thread s"
    "threads s' = (threads s)(t \<mapsto> th')" "current_priority th' = p" "tstate th' = tstate th" "th_error th' = th_error th"
    "\<And>q. is_waitq q \<Longrightarrow> queues s' q = queues s q"
    "rt_thread_ready_priority_group s \<noteq> 0 \<Longrightarrow> rt_thread_ready_priority_group s' \<noteq> 0"
    by (rule control_priority_spec [OF assms]) blast
  show thesis by (rule that [of s' th']) (use True s' in simp_all)
next
  case False
  have "(threads s)(t \<mapsto> th) = threads s" using th by (simp add: fun_upd_idem)
  then show thesis using False inv by (intro that [of s th]) simp_all
qed


section \<open>Taking\<close>

lemma thread_priority_range:
  assumes "kernel_inv s" and "threads s t = Some th" and "alive th"
  shows "unat (current_priority th) < RT_THREAD_PRIORITY_MAX"
proof -
  have "thread_ok th" using winv_tcons [OF kernel_invD(1) [OF assms(1)], of t] assms(2,3)
    by (auto simp: tcons_def alive_def)
  then show ?thesis by (simp add: thread_ok_def prio_ok_def)
qed

lemma mutex_take_free:
  assumes inv: "mutex_inv s" and m: "mutexes s i = Some m" and cur: "rt_current_thread s = Some c"
    and c: "threads s c = Some cth" and st: "tstate cth = RT_THREAD_RUNNING" and free: "owner m = None"
  shows "mutex_inv (s\<lparr>threads := (threads s)(c \<mapsto> cth\<lparr>th_error := RT_EOK\<rparr>),
    mutexes := (mutexes s)(i \<mapsto> m\<lparr>mutex_value := 0, owner := Some c, original_priority := current_priority cth, hold := 1\<rparr>)\<rparr>)"
    (is "mutex_inv ?s")
proof -
  have k: "kernel_inv s" by (rule mutex_invD(1) [OF inv])
  have ok: "mutex_ok s i m" by (rule mutex_invD(2) [OF inv m])
  let ?s1 = "upd_thread c (th_error_update (\<lambda>_. RT_EOK)) s"
  have "kernel_inv ?s1" by (rule kernel_inv_upd_inert [OF k]) simp
  then have "kernel_inv (upd_mutex i (\<lambda>_. m\<lparr>mutex_value := 0, owner := Some c, original_priority := current_priority cth, hold := 1\<rparr>) ?s1)"
    by (simp add: kernel_inv_upd_mutex)
  then have k': "kernel_inv ?s" using m c by (simp add: upd_thread_def upd_mutex_def)
  have al: "keeps_alive s ?s" using c st by (auto simp: keeps_alive_def alive_def)
  have pr: "unat (current_priority cth) < RT_THREAD_PRIORITY_MAX"
    by (rule thread_priority_range [OF k c]) (use st in \<open>simp add: alive_def\<close>)
  show ?thesis
    by (rule mutex_inv_transfer [OF inv k' al, of i]) (use ok free pr st in \<open>auto simp: mutex_ok_def\<close>)
qed

lemma mutex_take_block:
  assumes inv: "mutex_inv s" and m: "mutexes s i = Some m" and cur: "rt_current_thread s = Some c"
    and c: "threads s c = Some cth" and st: "tstate cth = RT_THREAD_RUNNING"
    and own: "owner m = Some own" "own \<noteq> c"
    and lock: "rt_scheduler_lock_nest s = 0" and g: "rt_thread_ready_priority_group s \<noteq> 0" and time: "time < 0x7fffffff"
    and oth: "threads s own = Some oth"
  obtains s2 s3 s' oth' where "mutex_inherit own (current_priority cth) (upd_thread c (th_error_update (\<lambda>_. RT_EOK)) s) = Some s2"
    "ipc_wait (MutexQ i) c (mutex_flag m) time s2 = Some s3" "rt_schedule s3 = Some s'" "mutex_inv s'"
    "mutexes s' = mutexes s" "rt_current_thread s' \<noteq> Some c" "c \<in> set (queues s' (MutexQ i))"
    "set (queues s' (MutexQ i)) = insert c (set (queues s (MutexQ i)))"
    "threads s' own = Some oth'" "current_priority oth' = min (current_priority oth) (current_priority cth)"
    "threads s' c = Some (set_state RT_THREAD_SUSPEND (cth\<lparr>th_error := RT_EOK\<rparr>))"
proof -
  have k: "kernel_inv s" by (rule mutex_invD(1) [OF inv])
  have ok: "mutex_ok s i m" by (rule mutex_invD(2) [OF inv m])
  let ?cth = "cth\<lparr>th_error := RT_EOK\<rparr>"
  let ?s1 = "upd_thread c (th_error_update (\<lambda>_. RT_EOK)) s" and ?p = "current_priority cth"
  have k1: "kernel_inv ?s1" by (rule kernel_inv_upd_inert [OF k]) simp
  have al: "alive oth" using ok own oth by (auto simp: mutex_ok_def alive_def)
  have o1: "threads ?s1 own = Some oth" "threads ?s1 c = Some ?cth" "queues ?s1 = queues s" "sched_frame s ?s1"
    using oth own(2) c by (simp_all add: upd_thread_def sched_frame_def)
  have p: "unat ?p < RT_THREAD_PRIORITY_MAX"
    by (rule thread_priority_range [OF k c]) (use st in \<open>simp add: alive_def\<close>)
  obtain s2 th' where s2: "(if ?p < current_priority oth then do { (s1, _) \<leftarrow> rt_thread_control own
        RT_THREAD_CTRL_CHANGE_PRIORITY ?p ?s1; Some s1 } else Some ?s1) = Some s2"
    "kernel_inv s2" "sched_frame ?s1 s2" "timers_frame ?s1 s2" "rt_current_thread s2 = rt_current_thread ?s1"
    "threads s2 = (threads ?s1)(own \<mapsto> th')" "current_priority th' = (if ?p < current_priority oth then ?p else current_priority oth)"
    "tstate th' = tstate oth" "th_error th' = th_error oth" "\<And>q. is_waitq q \<Longrightarrow> queues s2 q = queues ?s1 q"
    "rt_thread_ready_priority_group ?s1 \<noteq> 0 \<Longrightarrow> rt_thread_ready_priority_group s2 \<noteq> 0"
    by (rule maybe_control_priority [OF k1 o1(1) al p]) blast
  have c2: "rt_current_thread s2 = Some c" "threads s2 c = Some ?cth" "tstate ?cth = RT_THREAD_RUNNING"
    "rt_scheduler_lock_nest s2 = 0" "rt_thread_ready_priority_group s2 \<noteq> 0"
    using s2(3,5,6,11) cur c own(2) st lock g by (simp_all add: upd_thread_def sched_frame_def)
  have wq: "is_waitq (MutexQ i)" and fl: "mutex_flag m = 0 \<or> mutex_flag m = 1"
    using ok by (simp_all add: is_waitq_def mutex_ok_def)
  obtain s3 s' where s': "ipc_wait (MutexQ i) c (mutex_flag m) time s2 = Some s3" "rt_schedule s3 = Some s'" "kernel_inv s'"
      "sched_frame s2 s'" "rt_current_thread s' \<noteq> Some c"
      "queues s' (MutexQ i) = enqueue_waiter s2 (mutex_flag m) c ?cth (queues s2 (MutexQ i))"
      "\<And>q'. is_waitq q' \<Longrightarrow> q' \<noteq> MutexQ i \<Longrightarrow> queues s' q' = queues s2 q'"
      "threads s' c = Some (set_state RT_THREAD_SUSPEND ?cth)"
      "\<And>u uth. u \<noteq> c \<Longrightarrow> threads s2 u = Some uth \<Longrightarrow> \<exists>uth'. threads s' u = Some uth' \<and> same_thread uth uth'"
    by (rule ipc_block_spec [OF s2(2) c2(1-3) wq fl time c2(4,5)]) blast
  have inh: "mutex_inherit own ?p ?s1 = Some s2" using s2(1) o1(1) by (simp add: mutex_inherit_def)
  obtain oth' where oth': "threads s' own = Some oth'" "same_thread th' oth'" using s'(9) [of own th'] own(2) s2(6) by auto
  have pr: "current_priority oth' = min (current_priority oth) ?p"
    using same_threadD(2) [OF oth'(2)] s2(7) by (auto simp: min_def not_less)
  have mx: "mutexes s' = mutexes s" using s'(4) s2(3) by (simp add: sched_frame_def upd_thread_def)
  have qm: "queues s2 (MutexQ j) = queues s (MutexQ j)" for j using s2(10) [of "MutexQ j"] o1(3) by (simp add: is_waitq_def)
  have qs: "set (queues s' (MutexQ i)) = insert c (set (queues s (MutexQ i)))" using s'(6) qm by simp
  have ka: "keeps_alive s s'" unfolding keeps_alive_def
  proof (intro allI impI)
    fix t th assume t: "threads s t = Some th \<and> alive th"
    show "\<exists>th'. threads s' t = Some th' \<and> alive th'"
    proof (cases "t = c")
      case True
      then show ?thesis using s'(8) by (simp add: alive_def)
    next
      case False
      obtain th2 where th2: "threads s2 t = Some th2" "alive th2"
        using t False s2(6,8) al oth by (cases "t = own") (auto simp: upd_thread_def alive_def)
      then show ?thesis using s'(9) [OF False th2(1)] same_thread_alive by blast
    qed
  qed
  have "mutex_inv s'"
  proof (rule mutex_inv_transfer [OF inv s'(3) ka, of i])
    show "mutex_ok s' i m'" if "mutexes s' i = Some m'" for m'
    proof -
      have "alive oth'" using same_thread_alive [OF oth'(2)] s2(8) al by (simp add: alive_def)
      then show ?thesis using that mx m ok own oth'(1) qs by (simp add: mutex_ok_def alive_def)
    qed
    show "queues s' (MutexQ j) = queues s (MutexQ j)" if "j \<noteq> i" for j
      using s'(7) [of "MutexQ j"] that qm by (simp add: is_waitq_def)
  qed (simp add: mx)
  moreover have "c \<in> set (queues s' (MutexQ i))" using qs by simp
  ultimately show thesis using that [OF inh s'(1,2) _ mx s'(5) _ qs oth'(1) pr s'(8)] by blast
qed


text \<open>C7. \<^verbatim>\<open>rt_mutex_take\<close> on every branch: the owner takes its mutex again and the nesting is counted, up to 255
  where the call returns \<^verbatim>\<open>-RT_EFULL\<close>; a free mutex gets the caller as owner, with its priority remembered;
  a mutex held by another thread gives \<^verbatim>\<open>-RT_ETIMEOUT\<close> without a waiting time, and otherwise the caller waits.
  Mutual exclusion is part of the invariant that is kept: a mutex has one owner, and only its owner's count
  is positive.\<close>

theorem rt_mutex_take_correct:
  assumes "mutex_inv s" and "mutexes s i = Some m" and "rt_current_thread s = Some c"
    and "threads s c = Some cth" and "tstate cth = RT_THREAD_RUNNING" and "rt_interrupt_nest s = 0"
    and "rt_scheduler_lock_nest s = 0" and "rt_thread_ready_priority_group s \<noteq> 0" and "time < 0x7fffffff"
  shows "\<exists>s' r. rt_mutex_take i time s = Some (s', r) \<and> mutex_inv s' \<and>
     (owner m = Some c \<and> hold m < RT_MUTEX_HOLD_MAX \<longrightarrow> r = Done RT_EOK \<and> mutexes s' = (mutexes s)(i \<mapsto> m\<lparr>hold := hold m + 1\<rparr>)) \<and>
     (owner m = Some c \<and> hold m = RT_MUTEX_HOLD_MAX \<longrightarrow> r = Done (- RT_EFULL) \<and> mutexes s' = mutexes s) \<and>
     (owner m = None \<longrightarrow> r = Done RT_EOK \<and> mutexes s' = (mutexes s)(i \<mapsto> m\<lparr>mutex_value := 0, owner := Some c,
        original_priority := current_priority cth, hold := 1\<rparr>)) \<and>
     (owner m \<noteq> None \<and> owner m \<noteq> Some c \<and> time = 0 \<longrightarrow> r = Done (- RT_ETIMEOUT) \<and> mutexes s' = mutexes s) \<and>
     (owner m \<noteq> None \<and> owner m \<noteq> Some c \<and> time \<noteq> 0 \<longrightarrow> r = Waiting \<and> mutexes s' = mutexes s \<and>
        c \<in> set (queues s' (MutexQ i)) \<and> rt_current_thread s' \<noteq> Some c)"
proof -
  have k: "kernel_inv s" by (rule mutex_invD(1) [OF assms(1)])
  have ok: "mutex_ok s i m" by (rule mutex_invD(2) [OF assms(1,2)])
  then have ty: "rt_object_get_type (mutex_type m) = RT_Object_Class_Mutex" by (simp add: mutex_ok_def)
  let ?e = "\<lambda>x. upd_thread c (th_error_update (\<lambda>_. x)) s"
  have quiet: "mutex_inv (?e x)" for x
  proof (rule mutex_inv_transfer [OF assms(1), of _ i])
    show "kernel_inv (?e x)" by (rule kernel_inv_upd_inert [OF k]) simp
    show "keeps_alive s (?e x)" by (auto simp: keeps_alive_def alive_def upd_thread_def)
    show "mutex_ok (?e x) i m'" if "mutexes (?e x) i = Some m'" for m'
    proof -
      have "m' = m" using that assms(2) by (simp add: upd_thread_def)
      then show ?thesis using ok
        by (auto simp: mutex_ok_def upd_thread_def split: option.splits)
    qed
  qed (simp_all add: upd_thread_def)
  have ctx: "RT_DEBUG_IN_THREAD_CONTEXT s = Some ()" "rt_thread_self s = Some c"
    using assms(3,6) by (simp_all add: rt_context_defs)
  consider (mine) "owner m = Some c" | (free) "owner m = None"
    | (poll) own where "owner m = Some own" "own \<noteq> c" "time = 0" | (block) own where "owner m = Some own" "own \<noteq> c" "time \<noteq> 0"
    by (cases "owner m") auto
  then show ?thesis
  proof cases
    case mine
    show ?thesis
    proof (cases "hold m < RT_MUTEX_HOLD_MAX")
      case True
      let ?s = "upd_mutex i (\<lambda>m. m\<lparr>hold := hold m + 1\<rparr>) (?e RT_EOK)"
      have "unat (hold m + 1) = unat (hold m) + 1" using True by (simp add: word_less_nat_alt unat_plus_if')
      then have pos: "0 < hold m + 1" by (simp add: word_less_nat_alt)
      have "mutex_inv ?s"
      proof (rule mutex_inv_transfer [OF quiet [of RT_EOK], of _ i])
        show "kernel_inv ?s" using mutex_invD(1) [OF quiet] by (simp add: kernel_inv_upd_mutex)
        show "mutex_ok ?s i m'" if "mutexes ?s i = Some m'" for m'
          using that mutex_invD(2) [OF quiet [of RT_EOK], of i m] assms(2) mine pos
          by (auto simp: mutex_ok_def upd_mutex_def upd_thread_def)
      qed (simp_all add: upd_mutex_def keeps_alive_def)
      moreover have "rt_mutex_take i time s = Some (?s, Done RT_EOK)"
        using ctx assms(2,4) ty mine True by (simp add: rt_mutex_take_def)
      ultimately show ?thesis using mine True assms(2) by (auto simp: upd_mutex_def upd_thread_def)
    next
      case False
      then have "rt_mutex_take i time s = Some (?e RT_EOK, Done (- RT_EFULL))"
        using ctx assms(2,4) ty mine by (simp add: rt_mutex_take_def)
      then show ?thesis using mine False quiet by (auto simp: upd_thread_def)
    qed
  next
    case free
    then have v: "mutex_value m = 1" "hold m = 0" using ok by (simp_all add: mutex_ok_def)
    let ?s = "s\<lparr>threads := (threads s)(c \<mapsto> cth\<lparr>th_error := RT_EOK\<rparr>), mutexes := (mutexes s)(i \<mapsto>
      m\<lparr>mutex_value := 0, owner := Some c, original_priority := current_priority cth, hold := 1\<rparr>)\<rparr>"
    have "rt_mutex_take i time s = Some (?s, Done RT_EOK)"
      using ctx assms(2,4) ty free v by (simp add: rt_mutex_take_def upd_mutex_def upd_thread_def)
    then show ?thesis using free mutex_take_free [OF assms(1-5) free] by simp
  next
    case poll
    then have "mutex_value m = 0" using ok by (simp add: mutex_ok_def)
    then have "rt_mutex_take i time s = Some (upd_thread c (th_error_update (\<lambda>_. - RT_ETIMEOUT)) (?e RT_EOK), Done (- RT_ETIMEOUT))"
      using ctx assms(2,4) ty poll by (simp add: rt_mutex_take_def)
    moreover have "upd_thread c (th_error_update (\<lambda>_. - RT_ETIMEOUT)) (?e RT_EOK) = ?e (- RT_ETIMEOUT)"
      using assms(4) by (simp add: upd_thread_def)
    ultimately show ?thesis using poll quiet [of "- RT_ETIMEOUT"] by (simp add: upd_thread_def)
  next
    case block
    then have v: "mutex_value m = 0" using ok by (simp add: mutex_ok_def)
    obtain oth where oth: "threads s own = Some oth" using ok block by (auto simp: mutex_ok_def)
    obtain s2 s3 s' where s': "mutex_inherit own (current_priority cth) (?e RT_EOK) = Some s2"
      "ipc_wait (MutexQ i) c (mutex_flag m) time s2 = Some s3" "rt_schedule s3 = Some s'" "mutex_inv s'"
      "mutexes s' = mutexes s" "rt_current_thread s' \<noteq> Some c" "c \<in> set (queues s' (MutexQ i))"
      by (rule mutex_take_block [OF assms(1-5) block(1,2) assms(7-9) oth])
    have "rt_mutex_take i time s = Some (s', Waiting)"
      using ctx assms(2,4) ty block v s'(1-3) by (simp add: rt_mutex_take_def)
    then show ?thesis using block s'(4-7) by auto
  qed
qed

text \<open>C2. Priority inheritance: after a thread started to wait for a mutex, the owner's priority is the higher one
  of its own and the waiting thread's, whether the owner is ready, or itself suspended; and the waiting thread's
  pending call reports the error code of the thread, which is cleared.\<close>

theorem rt_mutex_take_inherits_priority:
  assumes "mutex_inv s" and "mutexes s i = Some m" and "rt_current_thread s = Some c"
    and "threads s c = Some cth" and "tstate cth = RT_THREAD_RUNNING" and "rt_interrupt_nest s = 0"
    and "rt_scheduler_lock_nest s = 0" and "rt_thread_ready_priority_group s \<noteq> 0" and "time < 0x7fffffff"
    and "owner m = Some own" and "own \<noteq> c" and "time \<noteq> 0" and "threads s own = Some oth"
  shows "\<exists>s' oth'. rt_mutex_take i time s = Some (s', Waiting) \<and> threads s' own = Some oth' \<and>
     current_priority oth' = min (current_priority oth) (current_priority cth) \<and>
     rt_mutex_take_return c s' = Some RT_EOK"
proof -
  have ok: "mutex_ok s i m" by (rule mutex_invD(2) [OF assms(1,2)])
  then have ty: "rt_object_get_type (mutex_type m) = RT_Object_Class_Mutex" "mutex_value m = 0"
    using assms(10) by (simp_all add: mutex_ok_def)
  obtain s2 s3 s' oth' where s': "mutex_inherit own (current_priority cth) (upd_thread c (th_error_update (\<lambda>_. RT_EOK)) s) = Some s2"
    "ipc_wait (MutexQ i) c (mutex_flag m) time s2 = Some s3" "rt_schedule s3 = Some s'"
    "threads s' own = Some oth'" "current_priority oth' = min (current_priority oth) (current_priority cth)"
    "threads s' c = Some (set_state RT_THREAD_SUSPEND (cth\<lparr>th_error := RT_EOK\<rparr>))"
    by (rule mutex_take_block [OF assms(1-5,10,11,7-9,13)])
  have "rt_mutex_take i time s = Some (s', Waiting)"
    using assms ty s'(1-3) by (simp add: rt_mutex_take_def rt_context_defs)
  then show ?thesis using s'(4-6) by (simp add: rt_mutex_take_return_def)
qed


section \<open>Releasing\<close>

lemma mutex_restore_spec:
  assumes k: "kernel_inv s" and c: "threads s c = Some cth" and st: "tstate cth = RT_THREAD_RUNNING"
    and p: "unat p < RT_THREAD_PRIORITY_MAX"
  obtains s2 cth' where "mutex_restore c p s = Some s2" "kernel_inv s2" "sched_frame s s2"
    "rt_current_thread s2 = rt_current_thread s" "threads s2 = (threads s)(c \<mapsto> cth')" "current_priority cth' = p"
    "tstate cth' = RT_THREAD_RUNNING" "\<And>q. is_waitq q \<Longrightarrow> queues s2 q = queues s q"
proof -
  have al: "alive cth" using st by (simp add: alive_def)
  obtain s2 th' where s2: "(if p \<noteq> current_priority cth then do { (s1, _) \<leftarrow> rt_thread_control c
        RT_THREAD_CTRL_CHANGE_PRIORITY p s; Some s1 } else Some s) = Some s2"
    "kernel_inv s2" "sched_frame s s2" "rt_current_thread s2 = rt_current_thread s"
    "threads s2 = (threads s)(c \<mapsto> th')" "current_priority th' = (if p \<noteq> current_priority cth then p else current_priority cth)"
    "tstate th' = tstate cth" "\<And>q. is_waitq q \<Longrightarrow> queues s2 q = queues s q"
    by (rule maybe_control_priority [OF k c al p]) blast
  have "mutex_restore c p s = Some s2" using s2(1) c by (simp add: mutex_restore_def)
  then show thesis using s2(2-8) st by (intro that [of s2 th']) simp_all
qed

lemma mutex_release_handover:
  assumes inv: "mutex_inv s" and m: "mutexes s i = Some m" and cur: "rt_current_thread s = Some c"
    and c: "threads s c = Some cth" and st: "tstate cth = RT_THREAD_RUNNING"
    and own: "owner m = Some c" and h: "hold m = 1" and w: "queues s (MutexQ i) = w # ws" and wth: "threads s w = Some wth"
    and int: "rt_interrupt_nest s = 0"
  obtains s' cth' wth' where "rt_mutex_release i s = Some (s', RT_EOK)" "mutex_inv s'"
    "mutexes s' = (mutexes s)(i \<mapsto> m\<lparr>owner := Some w, original_priority := current_priority wth, hold := 1\<rparr>)"
    "queues s' (MutexQ i) = ws" "threads s' c = Some cth'" "current_priority cth' = original_priority m"
    "threads s' w = Some wth'" "tstate wth' \<in> {RT_THREAD_READY, RT_THREAD_RUNNING}"
    "rt_mutex_take_return w s' = Some (th_error wth)"
proof -
  have k: "kernel_inv s" by (rule mutex_invD(1) [OF inv])
  have ok: "mutex_ok s i m" by (rule mutex_invD(2) [OF inv m])
  then have ty: "rt_object_get_type (mutex_type m) = RT_Object_Class_Mutex"
    and op: "unat (original_priority m) < RT_THREAD_PRIORITY_MAX" and cq: "c \<notin> set (queues s (MutexQ i))" and v: "mutex_value m = 0"
    using own by (simp_all add: mutex_ok_def)
  have wc: "w \<noteq> c" using cq w by auto
  have wq: "is_waitq (MutexQ j)" for j by (simp add: is_waitq_def)
  let ?s1 = "upd_mutex i (\<lambda>m. m\<lparr>hold := hold m - 1\<rparr>) s"
  have k1: "kernel_inv ?s1" using k by (simp add: kernel_inv_upd_mutex)
  have c1: "threads ?s1 c = Some cth" using c by (simp add: upd_mutex_def)
  obtain s2 cth2 where s2: "mutex_restore c (original_priority m) ?s1 = Some s2" "kernel_inv s2" "sched_frame ?s1 s2"
    "rt_current_thread s2 = rt_current_thread ?s1" "threads s2 = (threads ?s1)(c \<mapsto> cth2)" "current_priority cth2 = original_priority m"
    "tstate cth2 = RT_THREAD_RUNNING" "\<And>q. is_waitq q \<Longrightarrow> queues s2 q = queues ?s1 q"
    by (rule mutex_restore_spec [OF k1 c1 st op]) blast
  have q2: "queues s2 (MutexQ j) = queues s (MutexQ j)" for j using s2(8) [OF wq] by (simp add: upd_mutex_def)
  have w2: "threads s2 w = Some wth" using s2(5) wc wth by (simp add: upd_mutex_def)
  let ?s3 = "upd_mutex i (\<lambda>m. m\<lparr>hold := hold m + 1\<rparr>) (upd_mutex i (\<lambda>m. m\<lparr>owner := Some w,
      original_priority := current_priority wth\<rparr>) s2)"
  have m2: "mutexes s2 = (mutexes s)(i \<mapsto> m\<lparr>hold := 0\<rparr>)" using s2(3) m h by (simp add: sched_frame_def upd_mutex_def)
  let ?m = "m\<lparr>owner := Some w, original_priority := current_priority wth, hold := 1\<rparr>"
  have m3: "mutexes ?s3 = (mutexes s)(i \<mapsto> ?m)" using m2 by (simp add: upd_mutex_def)
  have k3: "kernel_inv ?s3" using s2(2) by (simp add: kernel_inv_upd_mutex)
  have hd3: "queues ?s3 (MutexQ i) = w # ws" using q2 w by (simp add: upd_mutex_def)
  obtain s4 th4 where s4: "rt_thread_resume w ?s3 = Some (s4, RT_EOK)" "kernel_inv s4"
    "threads ?s3 w = Some th4" "threads s4 = (threads ?s3)(w \<mapsto> woken ?s3 w th4)" "queues s4 (MutexQ i) = ws"
    "\<And>q'. is_waitq q' \<Longrightarrow> q' \<noteq> MutexQ i \<Longrightarrow> queues s4 q' = queues ?s3 q'"
    "rt_current_thread s4 = rt_current_thread ?s3" "sched_frame ?s3 s4"
    by (rule waitq_resume [OF k3 wq hd3]) blast
  have th4: "th4 = wth" using s4(3) w2 by (simp add: upd_mutex_def)
  have cur4: "rt_current_thread s4 \<noteq> None" using s4(7) s2(4) cur by (simp add: upd_mutex_def)
  obtain s' where s': "rt_schedule s4 = Some s'" "kernel_inv s'" "sched_frame s4 s'"
    "\<And>t th. threads s4 t = Some th \<Longrightarrow> \<exists>th'. threads s' t = Some th' \<and> same_thread th th'"
    "\<And>q. is_waitq q \<Longrightarrow> queues s' q = queues s4 q"
    by (rule schedule_after_wake [OF s4(2) cur4]) blast
  have t4: "threads s4 w = Some (woken ?s3 w wth)" "threads s4 c = Some cth2"
    using s4(4) th4 wc s2(5) by (simp_all add: upd_mutex_def)
  obtain wth' where wth': "threads s' w = Some wth'" "same_thread (woken ?s3 w wth) wth'" using s'(4) [OF t4(1)] by blast
  obtain cth' where cth': "threads s' c = Some cth'" "same_thread cth2 cth'" using s'(4) [OF t4(2)] by blast
  have mx: "mutexes s' = (mutexes s)(i \<mapsto> ?m)" using s'(3) s4(8) m3 by (simp add: sched_frame_def)
  have ws: "tstate wth' \<in> {RT_THREAD_READY, RT_THREAD_RUNNING}"
    using wth'(2) by (auto simp: same_thread_def split: if_splits)
  have q': "queues s' (MutexQ i) = ws" using s'(5) [OF wq] s4(5) by simp
  have dist: "w \<notin> set ws" using winv_queue_ok [OF kernel_invD(1) [OF k]] w unfolding queue_ok_def by (metis distinct.simps(2))
  have ka: "keeps_alive s s'" unfolding keeps_alive_def
  proof (intro allI impI)
    fix t th assume t: "threads s t = Some th \<and> alive th"
    obtain th4 where "threads s4 t = Some th4" "alive th4"
      using t t4 s4(4) s2(5,7) by (cases "t = w"; cases "t = c") (auto simp: alive_def upd_mutex_def split: if_splits)
    then show "\<exists>th'. threads s' t = Some th' \<and> alive th'" using s'(4) same_thread_alive by blast
  qed
  have pw: "unat (current_priority wth) < RT_THREAD_PRIORITY_MAX"
  proof -
    have "w \<in> set (queues s (MutexQ i))" using w by simp
    then obtain th where "threads s w = Some th" "thread_ok th" using waitq_member [OF k wq] by blast
    then show ?thesis using wth by (simp add: thread_ok_def prio_ok_def)
  qed
  have "mutex_inv s'"
  proof (rule mutex_inv_transfer [OF inv s'(2) ka, of i])
    show "mutex_ok s' i m'" if "mutexes s' i = Some m'" for m'
      using that mx ok pw wth'(1) ws q' dist v by (auto simp: mutex_ok_def)
    show "queues s' (MutexQ j) = queues s (MutexQ j)" if "j \<noteq> i" for j
      using s'(5) [OF wq] s4(6) [OF wq] that q2 by (simp add: upd_mutex_def)
  qed (simp add: mx)
  moreover have "rt_mutex_release i s = Some (s', RT_EOK)"
    using m ty cur int own h s2(1) q2 w w2 s4(1) s'(1) hd3
    by (simp add: rt_mutex_release_def rt_context_defs rt_ipc_list_resume_def Let_def)
  moreover have "rt_mutex_take_return w s' = Some (th_error wth)"
    using wth'(1) same_threadD(5) [OF wth'(2)] by (simp add: rt_mutex_take_return_def)
  moreover have "current_priority cth' = original_priority m" using same_threadD(2) [OF cth'(2)] s2(6) by simp
  ultimately show thesis using that mx q' cth'(1) wth'(1) ws by blast
qed


text \<open>C8. \<^verbatim>\<open>rt_mutex_release\<close> on every branch: a thread that is not the owner gets \<^verbatim>\<open>-RT_ERROR\<close> and the mutex does
  not change; an owner that holds the mutex more than once only lowers the count; the last release gives the
  owner the priority back it had when it took the mutex, and hands the mutex to the first waiting thread, which
  becomes ready, or leaves the mutex free when nobody waits. The invariant is kept.\<close>

theorem rt_mutex_release_correct:
  assumes "mutex_inv s" and "mutexes s i = Some m" and "rt_current_thread s = Some c"
    and "threads s c = Some cth" and "tstate cth = RT_THREAD_RUNNING" and "rt_interrupt_nest s = 0"
  shows "\<exists>s' r cth'. rt_mutex_release i s = Some (s', r) \<and> mutex_inv s' \<and> threads s' c = Some cth' \<and>
     (owner m \<noteq> Some c \<longrightarrow> r = - RT_ERROR \<and> mutexes s' = mutexes s \<and> th_error cth' = - RT_ERROR) \<and>
     (owner m = Some c \<and> hold m \<noteq> 1 \<longrightarrow> r = RT_EOK \<and> mutexes s' = (mutexes s)(i \<mapsto> m\<lparr>hold := hold m - 1\<rparr>)) \<and>
     (owner m = Some c \<and> hold m = 1 \<longrightarrow> r = RT_EOK \<and> current_priority cth' = original_priority m \<and>
       (case queues s (MutexQ i) of
          [] \<Rightarrow> mutexes s' = (mutexes s)(i \<mapsto> m\<lparr>hold := 0, mutex_value := 1, owner := None, original_priority := 0xff\<rparr>)
        | w # ws \<Rightarrow> queues s' (MutexQ i) = ws \<and> (\<exists>wth wth'. threads s w = Some wth \<and> threads s' w = Some wth' \<and>
            tstate wth' \<in> {RT_THREAD_READY, RT_THREAD_RUNNING} \<and> rt_mutex_take_return w s' = Some (th_error wth) \<and>
            mutexes s' = (mutexes s)(i \<mapsto> m\<lparr>owner := Some w, original_priority := current_priority wth, hold := 1\<rparr>))))"
proof -
  have k: "kernel_inv s" by (rule mutex_invD(1) [OF assms(1)])
  have ok: "mutex_ok s i m" by (rule mutex_invD(2) [OF assms(1,2)])
  then have ty: "rt_object_get_type (mutex_type m) = RT_Object_Class_Mutex" by (simp add: mutex_ok_def)
  have ctx: "RT_DEBUG_IN_THREAD_CONTEXT s = Some ()" "rt_thread_self s = Some c"
    using assms(3,6) by (simp_all add: rt_context_defs)
  consider (other) "owner m \<noteq> Some c" | (nested) "owner m = Some c" "hold m \<noteq> 1"
    | (free) "owner m = Some c" "hold m = 1" "queues s (MutexQ i) = []"
    | (hand) w ws where "owner m = Some c" "hold m = 1" "queues s (MutexQ i) = w # ws"
    by (cases "queues s (MutexQ i)") auto
  then show ?thesis
  proof cases
    case other
    let ?s = "upd_thread c (th_error_update (\<lambda>_. - RT_ERROR)) s"
    have "mutex_inv ?s"
    proof (rule mutex_inv_transfer [OF assms(1), of _ i])
      show "kernel_inv ?s" by (rule kernel_inv_upd_inert [OF k]) simp
      show "keeps_alive s ?s" by (auto simp: keeps_alive_def alive_def upd_thread_def)
      show "mutex_ok ?s i m'" if "mutexes ?s i = Some m'" for m'
      proof -
        have "m' = m" using that assms(2) by (simp add: upd_thread_def)
        then show ?thesis using ok by (auto simp: mutex_ok_def upd_thread_def split: option.splits)
      qed
    qed (simp_all add: upd_thread_def)
    moreover have "rt_mutex_release i s = Some (?s, - RT_ERROR)"
      using assms(2) ty ctx other by (simp add: rt_mutex_release_def)
    ultimately show ?thesis using other assms(4) by (auto simp: upd_thread_def)
  next
    case nested
    let ?s = "upd_mutex i (\<lambda>m. m\<lparr>hold := hold m - 1\<rparr>) s"
    have h: "hold m - 1 \<noteq> 0" "0 < hold m - 1" using nested by (simp_all add: word_gt_0)
    have "mutex_inv ?s"
    proof (rule mutex_inv_transfer [OF assms(1), of _ i])
      show "kernel_inv ?s" using k by (simp add: kernel_inv_upd_mutex)
      show "mutex_ok ?s i m'" if "mutexes ?s i = Some m'" for m'
        using that ok assms(2) nested h(2) by (auto simp: mutex_ok_def upd_mutex_def)
    qed (simp_all add: upd_mutex_def keeps_alive_def)
    moreover have "rt_mutex_release i s = Some (?s, RT_EOK)"
      using assms(2) ty ctx nested h(1) by (simp add: rt_mutex_release_def Let_def)
    ultimately show ?thesis using nested assms(2,4) by (auto simp: upd_mutex_def)
  next
    case free
    have op: "unat (original_priority m) < RT_THREAD_PRIORITY_MAX" and v: "mutex_value m = 0"
      using ok free by (simp_all add: mutex_ok_def)
    let ?s1 = "upd_mutex i (\<lambda>m. m\<lparr>hold := hold m - 1\<rparr>) s"
    have k1: "kernel_inv ?s1" "threads ?s1 c = Some cth" using k assms(4) by (simp_all add: kernel_inv_upd_mutex) (simp add: upd_mutex_def)
    obtain s2 cth2 where s2: "mutex_restore c (original_priority m) ?s1 = Some s2" "kernel_inv s2" "sched_frame ?s1 s2"
      "rt_current_thread s2 = rt_current_thread ?s1" "threads s2 = (threads ?s1)(c \<mapsto> cth2)" "current_priority cth2 = original_priority m"
      "tstate cth2 = RT_THREAD_RUNNING" "\<And>q. is_waitq q \<Longrightarrow> queues s2 q = queues ?s1 q"
      by (rule mutex_restore_spec [OF k1 assms(5) op]) blast
    have q2: "queues s2 (MutexQ j) = queues s (MutexQ j)" for j
      using s2(8) [of "MutexQ j"] by (simp add: upd_mutex_def is_waitq_def)
    have m2: "mutexes s2 = (mutexes s)(i \<mapsto> m\<lparr>hold := 0\<rparr>)" using s2(3) assms(2) free by (simp add: sched_frame_def upd_mutex_def)
    let ?s = "upd_mutex i (\<lambda>m. m\<lparr>mutex_value := mutex_value m + 1, owner := None, original_priority := 0xff\<rparr>) s2"
    have m3: "mutexes ?s = (mutexes s)(i \<mapsto> m\<lparr>hold := 0, mutex_value := 1, owner := None, original_priority := 0xff\<rparr>)"
      using m2 v by (simp add: upd_mutex_def)
    have c3: "threads ?s = (threads s)(c \<mapsto> cth2)" using s2(5) by (simp add: upd_mutex_def)
    have "mutex_inv ?s"
    proof (rule mutex_inv_transfer [OF assms(1), of _ i])
      show "kernel_inv ?s" using s2(2) by (simp add: kernel_inv_upd_mutex)
      show "keeps_alive s ?s" using s2(7) unfolding keeps_alive_def c3 by (auto simp: alive_def)
      show "mutex_ok ?s i m'" if "mutexes ?s i = Some m'" for m'
      proof -
        have "queues ?s (MutexQ i) = []" using q2 free(3) by (simp add: upd_mutex_def)
        then show ?thesis using that m3 ok by (auto simp: mutex_ok_def)
      qed
      show "mutexes ?s j = mutexes s j" if "j \<noteq> i" for j using m3 that by simp
      show "queues ?s (MutexQ j) = queues s (MutexQ j)" for j using q2 by (simp add: upd_mutex_def)
    qed
    moreover have "rt_mutex_release i s = Some (?s, RT_EOK)"
      using assms(2) ty ctx free s2(1) q2 v by (simp add: rt_mutex_release_def Let_def)
    ultimately show ?thesis using free m3 c3 s2(6) by auto
  next
    case hand
    obtain wth where wth: "threads s w = Some wth"
      using waitq_member [OF k, of "MutexQ i" w] hand(3) by (auto simp: is_waitq_def)
    obtain s' cth' wth' where s': "rt_mutex_release i s = Some (s', RT_EOK)" "mutex_inv s'"
      "mutexes s' = (mutexes s)(i \<mapsto> m\<lparr>owner := Some w, original_priority := current_priority wth, hold := 1\<rparr>)"
      "queues s' (MutexQ i) = ws" "threads s' c = Some cth'" "current_priority cth' = original_priority m"
      "threads s' w = Some wth'" "tstate wth' \<in> {RT_THREAD_READY, RT_THREAD_RUNNING}"
      "rt_mutex_take_return w s' = Some (th_error wth)"
      by (rule mutex_release_handover [OF assms(1-5) hand wth assms(6)])
    then show ?thesis using hand wth by (intro exI [of _ s'] exI [of _ RT_EOK] exI [of _ cth']) auto
  qed
qed

section \<open>Witnesses\<close>

text \<open>Thread 1 runs, thread 2 holds mutex 0 and thread 3 waits for mutex 1 of thread 1.\<close>

definition demo_mutex :: kernel where
  "demo_mutex = (demo_kernel 0)\<lparr>queues := (\<lambda>_. [])(ReadyQ 10 := [2], ReadyQ 31 := [0], MutexQ 1 := [3]),
     mutexes := [0 \<mapsto> \<lparr>mutex_type = 0x83, mutex_flag = 1, mutex_value = 0, original_priority = 10, hold = 1, owner = Some 2\<rparr>,
       1 \<mapsto> \<lparr>mutex_type = 0x83, mutex_flag = 1, mutex_value = 0, original_priority = 12, hold = 1, owner = Some 1\<rparr>]\<rparr>"

lemma demo_mutex_inv: "mutex_inv demo_mutex"
proof -
  have "queue_ok demo_mutex"
  proof -
    have "bit (0x80000400 :: u32) p \<longleftrightarrow> p = 10 \<or> p = 31" for p using bit_two_masks [of 10 31 p] by simp
    then show ?thesis unfolding queue_ok_def by (simp add: demo_mutex_def split: if_split) fastforce
  qed
  moreover have "tcons demo_mutex t" for t
  proof -
    consider "t = 0" | "t = 1" | "t = 2" | "t = 3" | "t = 4" | "4 < t" by linarith
    then show ?thesis by cases (auto simp: tcons_def nowhere_def demo_thread_ok demo_mutex_def)
  qed
  ultimately have si: "sched_inv demo_mutex" by (simp add: winv_def)
  have "kernel_inv (demo_kernel 0)" by (rule demo_kernel_inv) simp
  then have "kernel_inv demo_mutex" by (rule kernel_inv_same_timers [OF _ si]) (simp_all add: demo_mutex_def)
  moreover have "mutex_ok demo_mutex i m" if "mutexes demo_mutex i = Some m" for i m
    using that by (auto simp: demo_mutex_def mutex_ok_def rt_object_get_type_def split: if_splits)
  ultimately show ?thesis by (simp add: mutex_inv_def)
qed

lemma demo_mutex_fields [simp]:
  "rt_current_thread demo_mutex = Some 1" "threads demo_mutex = threads (demo_kernel 0)"
  "rt_interrupt_nest demo_mutex = 0" "rt_scheduler_lock_nest demo_mutex = 0"
  "rt_thread_ready_priority_group demo_mutex = 0x80000400" "queues demo_mutex (MutexQ 1) = [3]"
  "mutexes demo_mutex 0 = Some \<lparr>mutex_type = 0x83, mutex_flag = 1, mutex_value = 0, original_priority = 10, hold = 1, owner = Some 2\<rparr>"
  "mutexes demo_mutex 1 = Some \<lparr>mutex_type = 0x83, mutex_flag = 1, mutex_value = 0, original_priority = 12, hold = 1, owner = Some 1\<rparr>"
  by (simp_all add: demo_mutex_def)

theorem rt_mutex_take_correct_witness:
  "\<exists>s' r. rt_mutex_take 1 0 demo_mutex = Some (s', r) \<and> mutex_inv s' \<and> r = Done RT_EOK"
  using rt_mutex_take_correct [OF demo_mutex_inv, of 1 _ 1 "demo_thread 3 10" 0] by (auto simp del: One_nat_def)

theorem rt_mutex_take_inherits_priority_witness:
  "\<exists>s' oth'. rt_mutex_take 0 5 demo_mutex = Some (s', Waiting) \<and> threads s' 2 = Some oth' \<and>
     current_priority oth' = min 10 10 \<and> rt_mutex_take_return 1 s' = Some RT_EOK"
  using rt_mutex_take_inherits_priority [OF demo_mutex_inv, of 0 _ 1 "demo_thread 3 10" 5 2 "demo_thread 1 10"] by simp

theorem rt_mutex_release_correct_witness:
  "\<exists>s' r cth'. rt_mutex_release 1 demo_mutex = Some (s', r) \<and> mutex_inv s' \<and> r = RT_EOK \<and>
     threads s' 1 = Some cth' \<and> current_priority cth' = 12 \<and> queues s' (MutexQ 1) = []"
  using rt_mutex_release_correct [OF demo_mutex_inv, of 1 _ 1 "demo_thread 3 10"] by (auto simp del: One_nat_def)

end
