(* ===== verification/Event.thy ===== *)
theory Event
  imports Ipc
begin

text \<open>
  The event sets of \<^verbatim>\<open>rt-thread/src/ipc.c\<close>: 32 flags, of which a thread waits for all (\<^verbatim>\<open>AND\<close>) or any
  (\<^verbatim>\<open>OR\<close>). The invariant \<open>event_inv\<close> says that no event is lost: no thread waits for something the
  set already contains.
\<close>

section \<open>Operations\<close>

definition upd_event :: "nat \<Rightarrow> (rt_event \<Rightarrow> rt_event) \<Rightarrow> kernel \<Rightarrow> kernel" where
  [rt_defs]: "upd_event i f s = s\<lparr>events := (events s)(i := map_option f (events s i))\<rparr>"

definition zero_event :: rt_event where
  "zero_event = \<lparr>event_type = 0, event_flag = 0, ev_set = 0\<rparr>"

definition touch_event :: "nat \<Rightarrow> kernel \<Rightarrow> kernel" where
  "touch_event i s = (case events s i of None \<Rightarrow> s\<lparr>events := (events s)(i \<mapsto> zero_event)\<rparr> | Some _ \<Rightarrow> s)"

definition event_reset :: "nat \<Rightarrow> u8 \<Rightarrow> kernel \<Rightarrow> kernel" where
  "event_reset i flag s = upd_event i (\<lambda>e. e\<lparr>event_flag := flag, ev_set := 0\<rparr>) (s\<lparr>queues := (queues s)(EventQ i := [])\<rparr>)"

definition rt_event_init :: "nat \<Rightarrow> string \<Rightarrow> u8 \<Rightarrow> kernel \<Rightarrow> (kernel \<times> rt_err_t) option" where
  "rt_event_init i name flag s = do {
     s1 \<leftarrow> rt_object_init (EventObj i) RT_Object_Class_Event name (touch_event i s);
     Some (event_reset i flag s1, RT_EOK) }"

definition rt_event_detach :: "nat \<Rightarrow> kernel \<Rightarrow> (kernel \<times> rt_err_t) option" where
  "rt_event_detach i s = do {
     e \<leftarrow> events s i;
     rt_assert (rt_object_get_type (event_type e) = RT_Object_Class_Event);
     rt_assert (rt_object_is_systemobject (event_type e));
     s1 \<leftarrow> rt_ipc_list_resume_all (EventQ i) s;
     Some (rt_object_detach (EventObj i) s1, RT_EOK) }"

definition rt_event_create :: "nat option \<Rightarrow> string \<Rightarrow> u8 \<Rightarrow> kernel \<Rightarrow> (kernel \<times> nat option) option" where
  "rt_event_create mem name flag s = do {
     RT_DEBUG_NOT_IN_INTERRUPT s;
     let s0 = (case mem of None \<Rightarrow> s | Some i \<Rightarrow> s\<lparr>events := (events s)(i \<mapsto> zero_event)\<rparr>);
     (s1, _) \<leftarrow> rt_object_allocate (map_option EventObj mem) RT_Object_Class_Event name s0;
     Some (case mem of None \<Rightarrow> (s1, None) | Some i \<Rightarrow> (event_reset i flag s1, Some i)) }"

definition rt_event_delete :: "nat \<Rightarrow> kernel \<Rightarrow> (kernel \<times> rt_err_t) option" where
  "rt_event_delete i s = do {
     e \<leftarrow> events s i;
     rt_assert (rt_object_get_type (event_type e) = RT_Object_Class_Event);
     rt_assert (\<not> rt_object_is_systemobject (event_type e));
     RT_DEBUG_NOT_IN_INTERRUPT s;
     s1 \<leftarrow> rt_ipc_list_resume_all (EventQ i) s;
     s2 \<leftarrow> rt_object_delete (EventObj i) s1;
     Some (s2, RT_EOK) }"

text \<open>
  The loop of \<^verbatim>\<open>rt_event_send\<close> over the threads on the list. It steps to the next node before it
  resumes a thread, which unlinks only that thread. The result tells whether to schedule, and the
  status: \<^verbatim>\<open>-RT_EINVAL\<close> when a waiting thread has neither flag.
\<close>

fun event_send_loop :: "nat \<Rightarrow> tid list \<Rightarrow> bool \<Rightarrow> kernel \<Rightarrow> (kernel \<times> bool \<times> rt_err_t) option" where
  "event_send_loop i [] need s = Some (s, need, RT_EOK)"
| "event_send_loop i (t # ts) need s = do {
     th \<leftarrow> threads s t;
     e \<leftarrow> events s i;
     if event_info th AND RT_EVENT_FLAG_AND \<noteq> 0
     then if event_set th AND ev_set e = event_set th
          then do {
            let s1 = (if event_info th AND RT_EVENT_FLAG_CLEAR \<noteq> 0
                      then upd_event i (\<lambda>e. e\<lparr>ev_set := ev_set e AND NOT (event_set th)\<rparr>) s else s);
            (s2, _) \<leftarrow> rt_thread_resume t s1;
            event_send_loop i ts True s2 }
          else event_send_loop i ts need s
     else if event_info th AND RT_EVENT_FLAG_OR \<noteq> 0
     then if event_set th AND ev_set e \<noteq> 0
          then do {
            let got = event_set th AND ev_set e;
            let s0 = upd_thread t (event_set_update (\<lambda>_. got)) s;
            let s1 = (if event_info th AND RT_EVENT_FLAG_CLEAR \<noteq> 0
                      then upd_event i (\<lambda>e. e\<lparr>ev_set := ev_set e AND NOT got\<rparr>) s0 else s0);
            (s2, _) \<leftarrow> rt_thread_resume t s1;
            event_send_loop i ts True s2 }
          else event_send_loop i ts need s
     else Some (s, need, - RT_EINVAL) }"

definition rt_event_send :: "nat \<Rightarrow> u32 \<Rightarrow> kernel \<Rightarrow> (kernel \<times> rt_err_t) option" where
  "rt_event_send i bits s = do {
     e \<leftarrow> events s i;
     rt_assert (rt_object_get_type (event_type e) = RT_Object_Class_Event);
     if bits = 0 then Some (s, - RT_ERROR)
     else do {
       (s1, need, status) \<leftarrow> event_send_loop i (queues s (EventQ i)) False
          (upd_event i (\<lambda>e. e\<lparr>ev_set := ev_set e OR bits\<rparr>) s);
       if status \<noteq> RT_EOK then Some (s1, status)
       else do {
         s2 \<leftarrow> (if need then rt_schedule s1 else Some s1);
         Some (s2, RT_EOK) } } }"


definition rt_event_recv_return :: "tid \<Rightarrow> kernel \<Rightarrow> (rt_err_t \<times> u32 option) option" where
  "rt_event_recv_return t s = do {
     th \<leftarrow> threads s t;
     Some (if th_error th \<noteq> RT_EOK then (th_error th, None) else (th_error th, Some (event_set th))) }"

definition rt_event_control :: "nat \<Rightarrow> nat \<Rightarrow> kernel \<Rightarrow> (kernel \<times> rt_err_t) option" where
  "rt_event_control i cmd s = do {
     e \<leftarrow> events s i;
     rt_assert (rt_object_get_type (event_type e) = RT_Object_Class_Event);
     if cmd = RT_IPC_CMD_RESET
     then do {
       s1 \<leftarrow> rt_ipc_list_resume_all (EventQ i) s;
       s2 \<leftarrow> rt_schedule (upd_event i (\<lambda>e. e\<lparr>ev_set := 0\<rparr>) s1);
       Some (s2, RT_EOK) }
     else Some (s, - RT_ERROR) }"

section \<open>Invariant\<close>

text \<open>What a waiting thread waits for is in the set.\<close>

definition satisfied :: "u32 \<Rightarrow> rt_thread \<Rightarrow> bool" where
  "satisfied S th \<longleftrightarrow> (if event_info th AND RT_EVENT_FLAG_AND \<noteq> 0 then event_set th AND S = event_set th
     else event_set th AND S \<noteq> 0)"

definition event_ok :: "kernel \<Rightarrow> nat \<Rightarrow> rt_event \<Rightarrow> bool" where
  "event_ok s i e \<longleftrightarrow> rt_object_get_type (event_type e) = RT_Object_Class_Event \<and>
     (event_flag e = RT_IPC_FLAG_FIFO \<or> event_flag e = RT_IPC_FLAG_PRIO) \<and>
     (\<forall>t\<in>set (queues s (EventQ i)). \<exists>th. threads s t = Some th \<and>
        (event_info th AND RT_EVENT_FLAG_AND \<noteq> 0 \<or> event_info th AND RT_EVENT_FLAG_OR \<noteq> 0) \<and>
        \<not> satisfied (ev_set e) th)"

definition event_inv :: "kernel \<Rightarrow> bool" where
  "event_inv s \<longleftrightarrow> kernel_inv s \<and> (\<forall>i e. events s i = Some e \<longrightarrow> event_ok s i e)"

lemma event_invD:
  assumes "event_inv s"
  shows "kernel_inv s" "events s i = Some e \<Longrightarrow> event_ok s i e"
  using assms by (auto simp: event_inv_def)

lemma kernel_inv_upd_event: "kernel_inv (upd_event i f s) = kernel_inv s"
proof -
  have "same_sched s (upd_event i f s)" by (simp add: same_sched_def upd_event_def)
  then have "sched_inv (upd_event i f s) = sched_inv s" by (rule winv_same_sched)
  moreover have "tt_cons (upd_event i f s) t = tt_cons s t" for t by (rule tt_cons_cong) (simp_all add: upd_event_def)
  ultimately show ?thesis by (simp add: kernel_inv_def timer_inv_def timer_lists_ok_def upd_event_def)
qed

lemma and_subset_absorb:
  fixes S S' x :: u32
  assumes "S AND S' = S"
  shows "x AND S \<noteq> 0 \<Longrightarrow> x AND S' \<noteq> 0" and "x AND S = x \<Longrightarrow> x AND S' = x"
proof -
  have bits: "bit S n \<longrightarrow> bit S' n" for n using assms by (metis bit_and_iff)
  show "x AND S \<noteq> 0 \<Longrightarrow> x AND S' \<noteq> 0" using bits by (auto simp: bit_eq_iff bit_and_iff)
  show "x AND S = x \<Longrightarrow> x AND S' = x" using bits by (auto simp: bit_eq_iff bit_and_iff)
qed

lemma satisfied_mono: "S AND S' = S \<Longrightarrow> satisfied S th \<Longrightarrow> satisfied S' th"
  using and_subset_absorb by (auto simp: satisfied_def split: if_splits)

section \<open>Delivery\<close>

text \<open>
  What one \<^verbatim>\<open>rt_event_send\<close> promises, on the waiting threads in the order of the list: each thread that
  is satisfied by what is left of the set receives its flags, which are taken from the set when it asked
  for that.
\<close>

definition got :: "u32 \<Rightarrow> rt_thread \<Rightarrow> u32" where
  "got S th = (if event_info th AND RT_EVENT_FLAG_AND \<noteq> 0 then event_set th else event_set th AND S)"

definition left_over :: "u32 \<Rightarrow> rt_thread \<Rightarrow> u32" where
  "left_over S th = (if event_info th AND RT_EVENT_FLAG_CLEAR \<noteq> 0 then S AND NOT (got S th) else S)"

fun deliver :: "u32 \<Rightarrow> (tid \<times> rt_thread) list \<Rightarrow> u32 \<times> (tid \<times> u32) list" where
  "deliver S [] = (S, [])"
| "deliver S ((t, th) # ws) = (if satisfied S th
     then let (S', ds) = deliver (left_over S th) ws in (S', (t, got S th) # ds)
     else deliver S ws)"

lemma left_over_subset: "left_over S th AND S = left_over S th"
  by (rule bit_eqI) (auto simp: left_over_def bit_simps)

lemma deliver_subset: "deliver S ws = (S', ds) \<Longrightarrow> S' AND S = S'"
proof (induction S ws arbitrary: S' ds rule: deliver.induct)
  case (2 S t th ws)
  show ?case
  proof (cases "satisfied S th")
    case True
    then obtain ds' where "deliver (left_over S th) ws = (S', ds')" using 2(3) by (auto split: prod.splits)
    then have "S' AND left_over S th = S'" using 2(1) True by blast
    then show ?thesis using left_over_subset [of S th] by (metis and.assoc)
  qed (use 2 in auto)
qed simp

lemma deliver_members: "deliver S ws = (S', ds) \<Longrightarrow> fst ` set ds \<subseteq> fst ` set ws"
proof (induction S ws arbitrary: S' ds rule: deliver.induct)
  case (2 S t th ws)
  show ?case
  proof (cases "satisfied S th")
    case True
    then obtain ds' where d: "deliver (left_over S th) ws = (S', ds')" "ds = (t, got S th) # ds'"
      using 2(3) by (auto split: prod.splits)
    show ?thesis using 2(1) [OF True d(1)] d(2) by auto
  next
    case False
    then show ?thesis using 2(2) [OF False, of S' ds] 2(3) by auto
  qed
qed simp

text \<open>Nobody who did not receive is satisfied by what is left in the end.\<close>

lemma deliver_complete:
  "deliver S ws = (S', ds) \<Longrightarrow> (t, th) \<in> set ws \<Longrightarrow> t \<notin> fst ` set ds \<Longrightarrow> \<not> satisfied S' th"
proof (induction S ws arbitrary: S' ds rule: deliver.induct)
  case (2 S u uth ws)
  show ?case
  proof (cases "satisfied S uth")
    case True
    then obtain ds' where d: "deliver (left_over S uth) ws = (S', ds')" "ds = (u, got S uth) # ds'"
      using 2(3) by (auto split: prod.splits)
    then show ?thesis using 2(1) [OF True d(1)] 2(4,5) by auto
  next
    case False
    then have d: "deliver S ws = (S', ds)" using 2(3) by simp
    have "\<not> satisfied S' uth" using satisfied_mono [OF deliver_subset [OF d]] False by blast
    then show ?thesis using 2(2) [OF False d] 2(4,5) by auto
  qed
qed simp

abbreviation waits :: "rt_thread \<Rightarrow> bool" where
  "waits th \<equiv> event_info th AND RT_EVENT_FLAG_AND \<noteq> 0 \<or> event_info th AND RT_EVENT_FLAG_OR \<noteq> 0"

text \<open>One turn of the loop.\<close>

lemma event_send_step:
  assumes "threads s t = Some th" and "events s i = Some e" and "waits th"
  shows "event_send_loop i (t # ts) need s = (if satisfied (ev_set e) th
     then do { (s2, _) \<leftarrow> rt_thread_resume t
                 (s\<lparr>threads := (threads s)(t \<mapsto> th\<lparr>event_set := got (ev_set e) th\<rparr>),
                    events := (events s)(i \<mapsto> e\<lparr>ev_set := left_over (ev_set e) th\<rparr>)\<rparr>);
               event_send_loop i ts True s2 }
     else event_send_loop i ts need s)"
proof -
  have id: "s\<lparr>threads := (threads s)(t \<mapsto> th), events := E\<rparr> = s\<lparr>events := E\<rparr>" for E
    using assms(1) by (simp add: fun_upd_idem)
  have id2: "s\<lparr>threads := T, events := (events s)(i \<mapsto> e)\<rparr> = s\<lparr>threads := T\<rparr>" for T
    using assms(2) by (simp add: fun_upd_idem)
  show ?thesis using assms id id2
    by (cases "event_info th AND 1 = 0"; cases "event_info th AND 4 = 0")
      (simp_all add: satisfied_def got_def left_over_def upd_event_def upd_thread_def Let_def fun_upd_idem)
qed

text \<open>The loop refines \<open>deliver\<close>.\<close>

abbreviation waiters :: "kernel \<Rightarrow> tid list \<Rightarrow> (tid \<times> rt_thread) list" where
  "waiters s ts \<equiv> map (\<lambda>t. (t, the (threads s t))) ts"

lemma kernel_inv_event_grant:
  assumes "kernel_inv s" and "threads s t = Some th" and "events s i = Some e"
  shows "kernel_inv (s\<lparr>threads := (threads s)(t \<mapsto> th\<lparr>event_set := g\<rparr>), events := (events s)(i \<mapsto> e')\<rparr>)"
proof -
  have "kernel_inv (upd_thread t (\<lambda>_. th\<lparr>event_set := g\<rparr>) s)"
    by (rule kernel_inv_upd_inert [OF assms(1)]) (use assms(2) in simp)
  then have "kernel_inv (upd_event i (\<lambda>_. e') (upd_thread t (\<lambda>_. th\<lparr>event_set := g\<rparr>) s))"
    by (simp only: kernel_inv_upd_event)
  then show ?thesis using assms(2,3) by (simp add: upd_event_def upd_thread_def)
qed

text \<open>A thread woken with the flags \<open>g\<close>.\<close>

definition granted :: "kernel \<Rightarrow> kernel \<Rightarrow> tid \<Rightarrow> u32 \<Rightarrow> bool" where
  "granted s s' t g \<longleftrightarrow> (\<exists>th th'. threads s t = Some th \<and> threads s' t = Some th' \<and> event_set th' = g \<and>
     th_error th' = th_error th \<and> tstate th' \<in> {RT_THREAD_READY, RT_THREAD_RUNNING})"

lemma event_send_loop_delivers:
  assumes "kernel_inv s" and "events s i = Some e" and "distinct ts" and "set ts \<subseteq> set (queues s (EventQ i))"
    and "\<forall>t\<in>set ts. \<exists>th. threads s t = Some th \<and> waits th"
    and "deliver (ev_set e) (waiters s ts) = (S', ds)"
  shows "\<exists>s'. event_send_loop i ts need s = Some (s', need \<or> ds \<noteq> [], RT_EOK) \<and> kernel_inv s' \<and>
     events s' = (events s)(i \<mapsto> e\<lparr>ev_set := S'\<rparr>) \<and> rt_current_thread s' = rt_current_thread s \<and>
     queues s' (EventQ i) = filter (\<lambda>t. t \<notin> fst ` set ds) (queues s (EventQ i)) \<and>
     (\<forall>q. is_waitq q \<and> q \<noteq> EventQ i \<longrightarrow> queues s' q = queues s q) \<and>
     (\<forall>t g. (t, g) \<in> set ds \<longrightarrow> granted s s' t g) \<and>
     (\<forall>u. u \<notin> fst ` set ds \<longrightarrow> threads s' u = threads s u) \<and> sched_frame (s\<lparr>events := events s'\<rparr>) s'"
  using assms
proof (induction ts arbitrary: s e ds need)
  case Nil
  then show ?case by (auto simp: fun_upd_idem intro!: exI [of _ s])
next
  case (Cons t ts)
  obtain th where th: "threads s t = Some th" "waits th" using Cons.prems(5) by auto
  note step = event_send_step [OF th(1) Cons.prems(2) th(2), of ts need]
  show ?case
  proof (cases "satisfied (ev_set e) th")
    case False
    have "deliver (ev_set e) (waiters s ts) = (S', ds)" using Cons.prems(6) th(1) False by simp
    then show ?thesis using Cons.IH [OF Cons.prems(1,2), of ds need] Cons.prems(3-5) step False by simp
  next
    case True
    let ?g = "got (ev_set e) th" and ?e = "e\<lparr>ev_set := left_over (ev_set e) th\<rparr>"
    define s1 where "s1 = s\<lparr>threads := (threads s)(t \<mapsto> th\<lparr>event_set := ?g\<rparr>), events := (events s)(i \<mapsto> ?e)\<rparr>"
    obtain ds' where d: "deliver (left_over (ev_set e) th) (waiters s ts) = (S', ds')" "ds = (t, ?g) # ds'"
      using Cons.prems(6) th(1) True by (auto split: prod.splits)
    have inv1: "kernel_inv s1" unfolding s1_def by (rule kernel_inv_event_grant [OF Cons.prems(1) th(1) Cons.prems(2)])
    have t1: "t \<in> set (queues s1 (EventQ i))" using Cons.prems(4) by (simp add: s1_def)
    have wq: "is_waitq (EventQ i)" by (simp add: is_waitq_def)
    obtain s2 th1 where s2: "rt_thread_resume t s1 = Some (s2, RT_EOK)" "kernel_inv s2" "threads s1 t = Some th1"
      "threads s2 = (threads s1)(t \<mapsto> woken s1 t th1)" "queues s2 (EventQ i) = removeAll t (queues s1 (EventQ i))"
      "\<And>q'. is_waitq q' \<Longrightarrow> q' \<noteq> EventQ i \<Longrightarrow> queues s2 q' = queues s1 q'"
      "rt_current_thread s2 = rt_current_thread s1" "sched_frame s1 s2"
      by (rule waitq_resume_member [OF inv1 wq t1]) blast
    have th1: "th1 = th\<lparr>event_set := ?g\<rparr>" using s2(3) by (simp add: s1_def)
    have nt: "t \<notin> set ts" "distinct ts" using Cons.prems(3) by simp_all
    have eq2: "threads s2 u = threads s u" if "u \<noteq> t" for u using that s2(4) by (simp add: s1_def)
    have ws: "waiters s2 ts = waiters s ts" using nt(1) by (auto intro!: arg_cong [of _ _ the] eq2)
    have d2: "deliver (ev_set ?e) (waiters s2 ts) = (S', ds')" unfolding ws using d(1) by simp
    have e2: "events s2 i = Some ?e" "events s2 = (events s)(i \<mapsto> ?e)"
      using s2(8) by (simp_all add: sched_frame_def s1_def)
    have q2: "set ts \<subseteq> set (queues s2 (EventQ i))" using s2(5) Cons.prems(4) nt by (auto simp: s1_def)
    have w2: "\<forall>t\<in>set ts. \<exists>th. threads s2 t = Some th \<and> waits th"
    proof
      fix u assume u: "u \<in> set ts"
      then have "u \<noteq> t" using nt(1) by blast
      then show "\<exists>th. threads s2 u = Some th \<and> waits th" using Cons.prems(5) u eq2 by simp
    qed
    obtain s' where s': "event_send_loop i ts True s2 = Some (s', True, RT_EOK)" "kernel_inv s'"
      "events s' = (events s2)(i \<mapsto> ?e\<lparr>ev_set := S'\<rparr>)" "rt_current_thread s' = rt_current_thread s2"
      "queues s' (EventQ i) = filter (\<lambda>t. t \<notin> fst ` set ds') (queues s2 (EventQ i))"
      "\<forall>q. is_waitq q \<and> q \<noteq> EventQ i \<longrightarrow> queues s' q = queues s2 q"
      "\<forall>t g. (t, g) \<in> set ds' \<longrightarrow> granted s2 s' t g"
      "\<forall>u. u \<notin> fst ` set ds' \<longrightarrow> threads s' u = threads s2 u" "sched_frame (s2\<lparr>events := events s'\<rparr>) s'"
      using Cons.IH [OF s2(2) e2(1) nt(2) q2 w2 d2, of True] unfolding simp_thms by blast
    have ntd: "t \<notin> fst ` set ds'" using deliver_members [OF d(1)] nt(1) by auto
    have "granted s s' t ?g" using s'(8) ntd s2(4) th(1) by (simp add: granted_def th1)
    moreover have "granted s s' u g" if "(u, g) \<in> set ds'" for u g
    proof -
      have "u \<noteq> t" using that ntd by force
      then have "granted s2 s' u g = granted s s' u g" by (simp add: granted_def eq2)
      then show ?thesis using s'(7) that by blast
    qed
    ultimately have all: "\<forall>u g. (u, g) \<in> set ds \<longrightarrow> granted s s' u g" unfolding d(2) by simp
    have "sched_frame (s\<lparr>events := events s'\<rparr>) s'" using s'(9) s2(8) by (simp add: sched_frame_def s1_def)
    moreover have "queues s' (EventQ i) = filter (\<lambda>t. t \<notin> fst ` set ds) (queues s (EventQ i))"
      unfolding s'(5) s2(5) d(2) by (simp add: s1_def removeAll_filter_not_eq) (rule filter_cong [OF refl], auto)
    moreover have "event_send_loop i (t # ts) need s = Some (s', need \<or> ds \<noteq> [], RT_EOK)"
      using step True s2(1) s'(1) d(2) by (simp add: s1_def)
    moreover have "\<forall>u. u \<notin> fst ` set ds \<longrightarrow> threads s' u = threads s u" using s'(8) eq2 d(2) by simp
    moreover have "events s' = (events s)(i \<mapsto> e\<lparr>ev_set := S'\<rparr>)" using s'(3) e2(2) by simp
    moreover have "\<forall>q. is_waitq q \<and> q \<noteq> EventQ i \<longrightarrow> queues s' q = queues s q" using s'(6) s2(6) by (simp add: s1_def)
    moreover have "rt_current_thread s' = rt_current_thread s" using s'(4) s2(7) by (simp add: s1_def)
    ultimately show ?thesis using s'(2) all by blast
  qed
qed

section \<open>Correctness\<close>

lemma event_inv_transfer:
  assumes "event_inv s" and "kernel_inv s'" and "\<And>j. j \<noteq> i \<Longrightarrow> events s' j = events s j"
    and "\<And>j. j \<noteq> i \<Longrightarrow> queues s' (EventQ j) = queues s (EventQ j)"
    and "\<And>j t th. j \<noteq> i \<Longrightarrow> t \<in> set (queues s (EventQ j)) \<Longrightarrow> threads s t = Some th \<Longrightarrow>
      \<exists>th'. threads s' t = Some th' \<and> event_info th' = event_info th \<and> event_set th' = event_set th"
    and "\<And>e. events s' i = Some e \<Longrightarrow> event_ok s' i e"
  shows "event_inv s'"
proof -
  have "event_ok s' j e" if e: "events s' j = Some e" for j e
  proof (cases "j = i")
    case False
    have ok: "event_ok s j e" using event_invD(2) [OF assms(1)] e assms(3) [OF False] by simp
    have "\<exists>th. threads s' t = Some th \<and> waits th \<and> \<not> satisfied (ev_set e) th" if t: "t \<in> set (queues s (EventQ j))" for t
    proof -
      obtain th where th: "threads s t = Some th" "waits th" "\<not> satisfied (ev_set e) th"
        using ok t unfolding event_ok_def by blast
      obtain th' where "threads s' t = Some th'" "event_info th' = event_info th" "event_set th' = event_set th"
        using assms(5) [OF False t th(1)] by blast
      then show ?thesis using th(2,3) by (auto simp: satisfied_def)
    qed
    then show ?thesis using ok assms(4) [OF False] by (simp add: event_ok_def)
  qed (use assms(6) e in blast)
  with assms(2) show ?thesis by (simp add: event_inv_def)
qed

text \<open>Setting flags and delivering them, before the scheduler is called.\<close>

lemma event_post_delivers:
  assumes "event_inv s" and "events s i = Some e"
    and "deliver (ev_set e OR bits) (waiters s (queues s (EventQ i))) = (S', ds)"
  obtains s' where "event_send_loop i (queues s (EventQ i)) False (upd_event i (\<lambda>e. e\<lparr>ev_set := ev_set e OR bits\<rparr>) s) =
      Some (s', ds \<noteq> [], RT_EOK)" "event_inv s'" "rt_current_thread s' = rt_current_thread s"
    "events s' = (events s)(i \<mapsto> e\<lparr>ev_set := S'\<rparr>)"
    "queues s' (EventQ i) = filter (\<lambda>t. t \<notin> fst ` set ds) (queues s (EventQ i))"
    "\<forall>t g. (t, g) \<in> set ds \<longrightarrow> granted s s' t g"
proof -
  let ?e = "e\<lparr>ev_set := ev_set e OR bits\<rparr>" and ?q = "queues s (EventQ i)"
  define s1 where "s1 = upd_event i (\<lambda>e. e\<lparr>ev_set := ev_set e OR bits\<rparr>) s"
  have inv1: "kernel_inv s1" unfolding s1_def using event_invD(1) [OF assms(1)] by (simp only: kernel_inv_upd_event)
  have ok: "event_ok s i e" by (rule event_invD(2) [OF assms(1,2)])
  have e1: "events s1 i = Some ?e" "queues s1 = queues s" "threads s1 = threads s" "rt_current_thread s1 = rt_current_thread s"
    using assms(2) by (simp_all add: s1_def upd_event_def)
  have dist: "distinct ?q" using winv_queue_ok [OF kernel_invD(1) [OF event_invD(1) [OF assms(1)]]]
    unfolding queue_ok_def by blast
  have w1: "\<forall>t\<in>set ?q. \<exists>th. threads s1 t = Some th \<and> waits th" using ok unfolding event_ok_def e1(3) by blast
  have d1: "deliver (ev_set ?e) (waiters s1 ?q) = (S', ds)" using assms(3) by (simp add: e1(3))
  have sub: "set ?q \<subseteq> set (queues s1 (EventQ i))" by (simp add: e1(2))
  obtain s' where s': "event_send_loop i ?q False s1 = Some (s', ds \<noteq> [], RT_EOK)" "kernel_inv s'"
    "events s' = (events s1)(i \<mapsto> ?e\<lparr>ev_set := S'\<rparr>)" "rt_current_thread s' = rt_current_thread s1"
    "queues s' (EventQ i) = filter (\<lambda>t. t \<notin> fst ` set ds) (queues s1 (EventQ i))"
    "\<forall>q. is_waitq q \<and> q \<noteq> EventQ i \<longrightarrow> queues s' q = queues s1 q"
    "\<forall>t g. (t, g) \<in> set ds \<longrightarrow> granted s1 s' t g" "\<forall>u. u \<notin> fst ` set ds \<longrightarrow> threads s' u = threads s1 u"
    using event_send_loop_delivers [OF inv1 e1(1) dist sub w1 d1, of False] unfolding simp_thms by blast
  have ev: "events s' = (events s)(i \<mapsto> e\<lparr>ev_set := S'\<rparr>)" using s'(3) by (simp add: s1_def upd_event_def fun_eq_iff)
  have mem: "fst ` set ds \<subseteq> set ?q" using deliver_members [OF assms(3)] by auto
  have gr: "\<forall>t g. (t, g) \<in> set ds \<longrightarrow> granted s s' t g" using s'(7) by (simp add: granted_def e1(3))
  have "event_inv s'"
  proof (rule event_inv_transfer [OF assms(1) s'(2), of i])
    show "queues s' (EventQ j) = queues s (EventQ j)" if "j \<noteq> i" for j
      using s'(6) that by (simp add: is_waitq_def e1(2))
    show "\<exists>th'. threads s' t = Some th' \<and> event_info th' = event_info th \<and> event_set th' = event_set th"
      if "j \<noteq> i" "t \<in> set (queues s (EventQ j))" "threads s t = Some th" for j t th
    proof -
      have "t \<notin> set ?q" using winv_queue_ok [OF kernel_invD(1) [OF event_invD(1) [OF assms(1)]]] that(1,2)
        unfolding queue_ok_def by blast
      then have "t \<notin> fst ` set ds" using mem by blast
      then show ?thesis using s'(8) that(3) e1(3) by simp
    qed
    show "event_ok s' i e'" if "events s' i = Some e'" for e'
    proof -
      have e': "e' = e\<lparr>ev_set := S'\<rparr>" using that ev by simp
      have "\<exists>th. threads s' t = Some th \<and> waits th \<and> \<not> satisfied S' th" if t: "t \<in> set ?q" "t \<notin> fst ` set ds" for t
      proof -
        obtain th where th: "threads s t = Some th" "waits th" using w1 t(1) unfolding e1(3) by blast
        have "(t, th) \<in> set (waiters s ?q)" using t(1) th(1) by force
        then have "\<not> satisfied S' th" using deliver_complete [OF assms(3) _ t(2)] by blast
        then show ?thesis using th s'(8) t(2) e1(3) by simp
      qed
      then show ?thesis using ok by (simp add: event_ok_def e' s'(5) e1(2))
    qed
  qed (simp add: ev)
  then show thesis using s'(1,4,5) ev gr e1(2,4) that unfolding s1_def by auto
qed

lemma event_ok_same:
  assumes "event_ok s i e" and "queues s' (EventQ i) = queues s (EventQ i)"
    and "\<And>t th. threads s t = Some th \<Longrightarrow> \<exists>th'. threads s' t = Some th' \<and> same_thread th th'"
  shows "event_ok s' i e"
proof -
  have "\<exists>th. threads s' t = Some th \<and> waits th \<and> \<not> satisfied (ev_set e) th" if "t \<in> set (queues s (EventQ i))" for t
  proof -
    obtain th where th: "threads s t = Some th" "waits th" "\<not> satisfied (ev_set e) th"
      using assms(1) \<open>t \<in> _\<close> unfolding event_ok_def by blast
    obtain th' where th': "threads s' t = Some th'" "same_thread th th'" using assms(3) [OF th(1)] by blast
    have "waits th' = waits th" "satisfied (ev_set e) th' = satisfied (ev_set e) th"
      by (simp_all add: satisfied_def same_threadD [OF th'(2)])
    then show ?thesis using th th'(1) by blast
  qed
  then show ?thesis using assms(1,2) by (simp add: event_ok_def)
qed

lemma event_inv_schedule:
  assumes "event_inv s" and "rt_current_thread s \<noteq> None"
  obtains s' where "rt_schedule s = Some s'" "event_inv s'" "events s' = events s"
    "\<And>i. queues s' (EventQ i) = queues s (EventQ i)"
    "\<And>t th. threads s t = Some th \<Longrightarrow> \<exists>th'. threads s' t = Some th' \<and> same_thread th th'"
proof -
  obtain s' where s': "rt_schedule s = Some s'" "kernel_inv s'" "sched_frame s s'"
    "\<And>t th. threads s t = Some th \<Longrightarrow> \<exists>th'. threads s' t = Some th' \<and> same_thread th th'"
    "\<And>q. is_waitq q \<Longrightarrow> queues s' q = queues s q"
    by (rule schedule_after_wake [OF event_invD(1) [OF assms(1)] assms(2)]) blast
  have ev: "events s' = events s" using s'(3) by (simp add: sched_frame_def)
  have q: "queues s' (EventQ i) = queues s (EventQ i)" for i using s'(5) by (simp add: is_waitq_def)
  have "event_ok s' i e" if "events s' i = Some e" for i e
    using event_ok_same [OF event_invD(2) [OF assms(1)] q s'(4)] that ev by simp
  then have "event_inv s'" using s'(2) by (simp add: event_inv_def)
  then show thesis using that s'(1,4) ev q by blast
qed

text \<open>C9. \<^verbatim>\<open>rt_event_send\<close> implements \<open>deliver\<close>: an empty set of flags is refused with \<^verbatim>\<open>-RT_ERROR\<close> and changes nothing;
  otherwise the flags are added and the waiting threads are served in the order of the list, each satisfied
  one becoming ready or running with the flags it received in its \<^verbatim>\<open>event_set\<close>, the others staying on the
  list. No event is lost: afterwards no thread waits for something the set contains.\<close>

theorem rt_event_send_correct:
  assumes "event_inv s" and "events s i = Some e" and "rt_current_thread s \<noteq> None"
    and "deliver (ev_set e OR bits) (waiters s (queues s (EventQ i))) = (S', ds)"
  shows "\<exists>s' r. rt_event_send i bits s = Some (s', r) \<and> event_inv s' \<and>
     (bits = 0 \<longrightarrow> r = - RT_ERROR \<and> s' = s) \<and>
     (bits \<noteq> 0 \<longrightarrow> r = RT_EOK \<and> events s' = (events s)(i \<mapsto> e\<lparr>ev_set := S'\<rparr>) \<and>
        queues s' (EventQ i) = filter (\<lambda>t. t \<notin> fst ` set ds) (queues s (EventQ i)) \<and>
        (\<forall>t g. (t, g) \<in> set ds \<longrightarrow> granted s s' t g))"
proof -
  have "event_ok s i e" by (rule event_invD(2) [OF assms(1,2)])
  then have ty: "rt_object_get_type (event_type e) = RT_Object_Class_Event" by (simp add: event_ok_def)
  obtain s1 where s1: "event_send_loop i (queues s (EventQ i)) False (upd_event i (\<lambda>e. e\<lparr>ev_set := ev_set e OR bits\<rparr>) s) =
      Some (s1, ds \<noteq> [], RT_EOK)" "event_inv s1" "rt_current_thread s1 = rt_current_thread s"
    "events s1 = (events s)(i \<mapsto> e\<lparr>ev_set := S'\<rparr>)"
    "queues s1 (EventQ i) = filter (\<lambda>t. t \<notin> fst ` set ds) (queues s (EventQ i))"
    "\<forall>t g. (t, g) \<in> set ds \<longrightarrow> granted s s1 t g"
    by (rule event_post_delivers [OF assms(1,2,4)])
  have cur: "rt_current_thread s1 \<noteq> None" using s1(3) assms(3) by simp
  obtain s2 where s2: "rt_schedule s1 = Some s2" "event_inv s2" "events s2 = events s1"
    "\<And>i. queues s2 (EventQ i) = queues s1 (EventQ i)"
    "\<And>t th. threads s1 t = Some th \<Longrightarrow> \<exists>th'. threads s2 t = Some th' \<and> same_thread th th'"
    by (rule event_inv_schedule [OF s1(2) cur]) blast
  have gr: "granted s s2 t g" if "(t, g) \<in> set ds" for t g
  proof -
    obtain th th1 where th1: "threads s t = Some th" "threads s1 t = Some th1" "event_set th1 = g" "th_error th1 = th_error th"
      "tstate th1 \<in> {RT_THREAD_READY, RT_THREAD_RUNNING}" using s1(6) \<open>(t, g) \<in> set ds\<close> unfolding granted_def by blast
    obtain th2 where th2: "threads s2 t = Some th2" "same_thread th1 th2" using s2(5) [OF th1(2)] by blast
    have "tstate th2 \<in> {RT_THREAD_READY, RT_THREAD_RUNNING}" using th2(2) th1(5) by (auto simp: same_thread_def)
    then show ?thesis using th1 th2(1) same_threadD [OF th2(2)] unfolding granted_def by auto
  qed
  have r: "rt_event_send i bits s = (if bits = 0 then Some (s, - RT_ERROR) else Some (if ds \<noteq> [] then s2 else s1, RT_EOK))"
    using assms(2) ty s1(1) s2(1) by (simp add: rt_event_send_def)
  show ?thesis using r assms(1) s1(2,4-6) s2(2-4) gr by (cases "bits = 0"; cases "ds = []") auto
qed


text \<open>The request is met by the set: the test \<^verbatim>\<open>rt_event_recv\<close> makes before it waits.\<close>

definition wanted :: "u32 \<Rightarrow> u32 \<Rightarrow> u8 \<Rightarrow> bool" where
  "wanted S bits opt \<longleftrightarrow> (if opt AND RT_EVENT_FLAG_AND \<noteq> 0 then S AND bits = bits else S AND bits \<noteq> 0)"

lemma satisfied_wanted: "satisfied S (th\<lparr>event_set := bits, event_info := opt\<rparr>) = wanted S bits opt"
  by (simp add: satisfied_def wanted_def and.commute)



section \<open>Concrete event sets\<close>

text \<open>Thread 3 waits for both flags 1 and 4 and asks to clear them; flag 1 is set already.\<close>

definition demo_event :: kernel where
  "demo_event = upd_thread 3 (\<lambda>th. th\<lparr>event_set := 5, event_info := 5\<rparr>)
     ((demo_on (EventQ 0))\<lparr>events := [0 \<mapsto> \<lparr>event_type = 0x84, event_flag = 0, ev_set = 1\<rparr>]\<rparr>)"

lemma demo_event_fields [simp]:
  "events demo_event = [0 \<mapsto> \<lparr>event_type = 0x84, event_flag = 0, ev_set = 1\<rparr>]"
  "rt_current_thread demo_event = Some 1" "queues demo_event (EventQ i) = (if i = 0 then [3] else [])"
  "threads demo_event 3 = Some ((demo_thread RT_THREAD_SUSPEND 5)\<lparr>event_set := 5, event_info := 5\<rparr>)"
  "threads demo_event 1 = Some (demo_thread RT_THREAD_RUNNING 10)" "rt_interrupt_nest demo_event = 0"
  "rt_scheduler_lock_nest demo_event = 0" "rt_thread_ready_priority_group demo_event = 0x80000400"
  by (simp_all add: demo_event_def upd_thread_def)

lemma demo_event_inv: "event_inv demo_event"
proof -
  let ?s = "(demo_on (EventQ 0))\<lparr>events := [0 \<mapsto> \<lparr>event_type = 0x84, event_flag = 0, ev_set = 1\<rparr>]\<rparr>"
  have k: "kernel_inv (demo_on (EventQ 0))" by (rule demo_on_inv) (simp add: is_waitq_def)
  have "same_sched (demo_on (EventQ 0)) ?s" by (simp add: same_sched_def)
  then have "sched_inv ?s" using winv_same_sched kernel_invD(1) [OF k] by simp
  then have "kernel_inv ?s" by (rule kernel_inv_same_timers [OF k]) simp_all
  then have "kernel_inv demo_event" unfolding demo_event_def by (rule kernel_inv_upd_inert) simp
  moreover have "event_ok demo_event i e" if "events demo_event i = Some e" for i e
  proof -
    have "i = 0" "e = \<lparr>event_type = 0x84, event_flag = 0, ev_set = 1\<rparr>" using that by (simp_all split: if_splits)
    then show ?thesis by (simp add: event_ok_def rt_object_get_type_def satisfied_def)
  qed
  ultimately show ?thesis by (simp add: event_inv_def)
qed

theorem rt_event_send_correct_witness:
  "\<exists>s' r. rt_event_send 0 6 demo_event = Some (s', r) \<and> event_inv s' \<and> r = RT_EOK \<and> queues s' (EventQ 0) = [] \<and>
     events s' 0 = Some \<lparr>event_type = 0x84, event_flag = 0, ev_set = 2\<rparr> \<and> granted demo_event s' 3 5"
  using rt_event_send_correct [OF demo_event_inv, of 0 "\<lparr>event_type = 0x84, event_flag = 0, ev_set = 1\<rparr>" 6 2 "[(3, 5)]"]
  by (auto simp: satisfied_def got_def left_over_def)


end
