(* ===== verification/Fifo.thy ===== *)
theory Fifo
  imports Prelude
begin

text \<open>
  The contract of the bounded first-in first-out buffers of the program: the mail boxes and message
  queues of \<^verbatim>\<open>ipc.c\<close> and the byte ring of \<^verbatim>\<open>ringbuffer.c\<close>. The locale \<open>fifo_buffer\<close> states it by an
  abstraction to lists; what follows for every sequence of operations is proved once from the contract.
  The circular view of an array, which two of the three buffers use, is here as well.
\<close>

section \<open>Sequences of operations\<close>

datatype 'a fifo_op = Put 'a | Get

text \<open>
  Performing a sequence of operations: a \<open>Put\<close> that is refused (\<open>None\<close>) and a \<open>Get\<close> from an empty
  buffer change nothing. The result are the values accepted, the values delivered and the buffer.
\<close>

fun fifo_run :: "('a \<Rightarrow> 'b \<Rightarrow> 'b option) \<Rightarrow> ('b \<Rightarrow> ('a \<times> 'b) option) \<Rightarrow> 'a fifo_op list \<Rightarrow> 'b \<Rightarrow> 'a list \<times> 'a list \<times> 'b" where
  "fifo_run put get [] b = ([], [], b)"
| "fifo_run put get (Put x # ops) b = (case put x b of
      None \<Rightarrow> fifo_run put get ops b
    | Some b1 \<Rightarrow> let (ins, outs, b2) = fifo_run put get ops b1 in (x # ins, outs, b2))"
| "fifo_run put get (Get # ops) b = (case get b of
      None \<Rightarrow> fifo_run put get ops b
    | Some (x, b1) \<Rightarrow> let (ins, outs, b2) = fifo_run put get ops b1 in (ins, x # outs, b2))"

locale fifo_buffer =
  fixes inv :: "'b \<Rightarrow> bool"
    and contents :: "'b \<Rightarrow> 'a list"
    and capacity :: "'b \<Rightarrow> nat"
    and valid :: "'a \<Rightarrow> bool"
    and put :: "'a \<Rightarrow> 'b \<Rightarrow> 'b option"
    and get :: "'b \<Rightarrow> ('a \<times> 'b) option"
  assumes bounded: "inv b \<Longrightarrow> length (contents b) \<le> capacity b"
    and put_ok: "inv b \<Longrightarrow> valid x \<Longrightarrow> length (contents b) < capacity b \<Longrightarrow>
      \<exists>b'. put x b = Some b' \<and> inv b' \<and> contents b' = contents b @ [x] \<and> capacity b' = capacity b"
    and put_full: "inv b \<Longrightarrow> length (contents b) = capacity b \<Longrightarrow> put x b = None"
    and get_ok: "inv b \<Longrightarrow> contents b = x # xs \<Longrightarrow>
      \<exists>b'. get b = Some (x, b') \<and> inv b' \<and> contents b' = xs \<and> capacity b' = capacity b"
    and get_empty: "inv b \<Longrightarrow> contents b = [] \<Longrightarrow> get b = None"
begin

lemma put_SomeD:
  assumes "inv b" and "valid x" and "put x b = Some b'"
  shows "inv b'" "contents b' = contents b @ [x]" "capacity b' = capacity b"
proof -
  have "length (contents b) < capacity b"
    using put_full [OF assms(1), of x] bounded [OF assms(1)] assms(3) by (cases "length (contents b) = capacity b") auto
  then show "inv b'" "contents b' = contents b @ [x]" "capacity b' = capacity b"
    using put_ok [OF assms(1,2)] assms(3) by auto
qed

lemma get_SomeD:
  assumes "inv b" and "get b = Some (x, b')"
  shows "inv b'" "contents b = x # contents b'" "capacity b' = capacity b"
proof -
  obtain y ys where "contents b = y # ys" using get_empty [OF assms(1)] assms(2) by (cases "contents b") auto
  with get_ok [OF assms(1) this] assms(2)
  show "inv b'" "contents b = x # contents b'" "capacity b' = capacity b" by auto
qed

text \<open>What goes in comes out in the same order, whatever the interleaving; nothing is lost or invented.\<close>

lemma run_fifo:
  "inv b \<Longrightarrow> \<forall>x. Put x \<in> set ops \<longrightarrow> valid x \<Longrightarrow> fifo_run put get ops b = (ins, outs, b') \<Longrightarrow>
     inv b' \<and> capacity b' = capacity b \<and> contents b @ ins = outs @ contents b'"
proof (induction ops arbitrary: b ins outs)
  case (Cons op ops)
  show ?case
  proof (cases op)
    case (Put x)
    show ?thesis
    proof (cases "put x b")
      case (Some b1)
      then obtain ins1 where "fifo_run put get ops b1 = (ins1, outs, b')" "ins = x # ins1"
        using Cons.prems(3) Put by (auto split: prod.splits)
      then show ?thesis using Cons.IH [of b1 ins1 outs] put_SomeD [OF Cons.prems(1) _ Some] Cons.prems(2) Put
        by simp
    qed (use Cons Put in simp)
  next
    case Get
    show ?thesis
    proof (cases "get b")
      case (Some r)
      then obtain x b1 where r: "get b = Some (x, b1)" by (cases r) auto
      then obtain outs1 where "fifo_run put get ops b1 = (ins, outs1, b')" "outs = x # outs1"
        using Cons.prems(3) Get by (auto split: prod.splits)
      then show ?thesis using Cons.IH [of b1 ins outs1] get_SomeD [OF Cons.prems(1) r] Cons.prems(2) by simp
    qed (use Cons Get in simp)
  qed
qed simp

lemma run_bounded:
  "inv b \<Longrightarrow> \<forall>x. Put x \<in> set ops \<longrightarrow> valid x \<Longrightarrow> fifo_run put get ops b = (ins, outs, b') \<Longrightarrow>
     length (contents b) + length ins \<le> length outs + capacity b"
  using run_fifo [of b ops ins outs b'] bounded [of b']
  by (metis add_left_mono length_append)

end

section \<open>The circular view of an array\<close>

definition ring_view :: "'a list \<Rightarrow> nat \<Rightarrow> nat \<Rightarrow> 'a list" where
  "ring_view xs out n = map (\<lambda>k. xs ! ((out + k) mod length xs)) [0..<n]"

lemma length_ring_view [simp]: "length (ring_view xs out n) = n"
  by (simp add: ring_view_def)

lemma ring_view_0 [simp]: "ring_view xs out 0 = []"
  by (simp add: ring_view_def)

lemma ring_mod_inj:
  fixes out k n m :: nat
  assumes "(out + k) mod m = (out + n) mod m" and "k < n" and "n < m"
  shows False
proof -
  have "m dvd (out + n) - (out + k)" using mod_eq_dvd_iff_nat [of "out + k" "out + n" m] assms(1,2) by simp
  then have "m dvd n - k" by simp
  then show False using assms(2,3) by (simp add: nat_dvd_not_less)
qed

lemma ring_view_put:
  assumes "n < length xs"
  shows "ring_view (xs[(out + n) mod length xs := v]) out (Suc n) = ring_view xs out n @ [v]"
proof -
  have ne: "(out + n) mod length xs \<noteq> (out + k) mod length xs" if "k < n" for k
    using ring_mod_inj [of out k "length xs" n] that assms by metis
  have "(out + n) mod length xs < length xs" using assms by (intro mod_less_divisor) linarith
  then show ?thesis using nth_list_update_neq [OF ne] by (auto simp: ring_view_def)
qed

lemma ring_view_get:
  "ring_view xs out (Suc n) = xs ! (out mod length xs) # ring_view xs (Suc out) n"
  unfolding ring_view_def by (simp add: map_upt_Suc del: upt_Suc)

lemma ring_view_mod [simp]: "ring_view xs (out mod length xs) n = ring_view xs out n"
  by (simp add: ring_view_def mod_add_left_eq)

end
