(* ===== verification/Mailbox.thy ===== *)
theory Mailbox
  imports Ipc Fifo
begin

text \<open>
  The mail boxes of \<^verbatim>\<open>rt-thread/src/ipc.c\<close>: a circular array of words with the threads that wait to
  receive in \<^verbatim>\<open>parent.suspend_thread\<close> and those that wait to send in \<^verbatim>\<open>suspend_sender_thread\<close>. A woken
  thread looks at the box again and may wait again with what is left of its waiting time, so the calls
  are split into \<open>mb_send_pass\<close> and \<open>mb_recv_pass\<close>, one evaluation of the loop condition with what follows
  up to the next wait or the return, and the \<open>_return\<close> definitions that resume them.
\<close>

section \<open>Operations\<close>

abbreviation (input) RT_MB_ENTRY_MAX :: u16 where "RT_MB_ENTRY_MAX \<equiv> 0xffff"

definition upd_mb :: "nat \<Rightarrow> (rt_mailbox \<Rightarrow> rt_mailbox) \<Rightarrow> kernel \<Rightarrow> kernel" where
  [rt_defs]: "upd_mb i f s = s\<lparr>mailboxes := (mailboxes s)(i := map_option f (mailboxes s i))\<rparr>"

definition zero_mb :: rt_mailbox where
  "zero_mb = \<lparr>mb_type = 0, mb_flag = 0, mb_pool = [], mb_size = 0, mb_entry = 0, in_offset = 0, out_offset = 0\<rparr>"

definition touch_mb :: "nat \<Rightarrow> kernel \<Rightarrow> kernel" where
  "touch_mb i s = (case mailboxes s i of None \<Rightarrow> s\<lparr>mailboxes := (mailboxes s)(i \<mapsto> zero_mb)\<rparr> | Some _ \<Rightarrow> s)"

text \<open>The buffer \<^verbatim>\<open>msgpool\<close> is given by its words; \<^verbatim>\<open>mb->size\<close> keeps 16 bits of \<^verbatim>\<open>size\<close>.\<close>

definition rt_mb_init :: "nat \<Rightarrow> string \<Rightarrow> u32 list \<Rightarrow> u32 \<Rightarrow> u8 \<Rightarrow> kernel \<Rightarrow> (kernel \<times> rt_err_t) option" where
  "rt_mb_init i name msgpool sz flag s = do {
     s1 \<leftarrow> rt_object_init (MbObj i) RT_Object_Class_MailBox name (touch_mb i s);
     let s2 = upd_mb i (\<lambda>mb. mb\<lparr>mb_flag := flag, mb_pool := msgpool, mb_size := ucast sz, mb_entry := 0,
                in_offset := 0, out_offset := 0\<rparr>) (s1\<lparr>queues := (queues s1)(MbRecvQ i := [], MbSendQ i := [])\<rparr>);
     Some (s2, RT_EOK) }"

definition mb_resume_all :: "nat \<Rightarrow> kernel \<Rightarrow> kernel option" where
  "mb_resume_all i s = do {
     s1 \<leftarrow> rt_ipc_list_resume_all (MbRecvQ i) s;
     rt_ipc_list_resume_all (MbSendQ i) s1 }"

definition rt_mb_detach :: "nat \<Rightarrow> kernel \<Rightarrow> (kernel \<times> rt_err_t) option" where
  "rt_mb_detach i s = do {
     mb \<leftarrow> mailboxes s i;
     rt_assert (rt_object_get_type (mb_type mb) = RT_Object_Class_MailBox);
     rt_assert (rt_object_is_systemobject (mb_type mb));
     s1 \<leftarrow> mb_resume_all i s;
     Some (rt_object_detach (MbObj i) s1, RT_EOK) }"

text \<open>The results of the two allocations are the arguments \<open>mem\<close> and \<open>pool\<close>.\<close>

definition rt_mb_create :: "nat option \<Rightarrow> u32 list option \<Rightarrow> string \<Rightarrow> u32 \<Rightarrow> u8 \<Rightarrow> kernel \<Rightarrow> (kernel \<times> nat option) option" where
  "rt_mb_create mem pool name sz flag s = do {
     RT_DEBUG_NOT_IN_INTERRUPT s;
     let s0 = (case mem of None \<Rightarrow> s | Some i \<Rightarrow> s\<lparr>mailboxes := (mailboxes s)(i \<mapsto> zero_mb)\<rparr>);
     (s1, _) \<leftarrow> rt_object_allocate (map_option MbObj mem) RT_Object_Class_MailBox name s0;
     case mem of None \<Rightarrow> Some (s1, None)
     | Some i \<Rightarrow> (let s2 = upd_mb i (\<lambda>mb. mb\<lparr>mb_flag := flag, mb_size := ucast sz\<rparr>)
                         (s1\<lparr>queues := (queues s1)(MbRecvQ i := [])\<rparr>)
         in case pool of
              None \<Rightarrow> do { s3 \<leftarrow> rt_object_delete (MbObj i) s2; Some (s3, None) }
            | Some p \<Rightarrow> Some (upd_mb i (\<lambda>mb. mb\<lparr>mb_pool := p, mb_entry := 0, in_offset := 0, out_offset := 0\<rparr>)
                (s2\<lparr>queues := (queues s2)(MbSendQ i := [])\<rparr>), Some i)) }"

definition rt_mb_delete :: "nat \<Rightarrow> kernel \<Rightarrow> (kernel \<times> rt_err_t) option" where
  "rt_mb_delete i s = do {
     RT_DEBUG_NOT_IN_INTERRUPT s;
     mb \<leftarrow> mailboxes s i;
     rt_assert (rt_object_get_type (mb_type mb) = RT_Object_Class_MailBox);
     rt_assert (\<not> rt_object_is_systemobject (mb_type mb));
     s1 \<leftarrow> mb_resume_all i s;
     s2 \<leftarrow> rt_object_delete (MbObj i) s1;
     Some (s2, RT_EOK) }"

text \<open>
  Writing a mail into the array and reading one; an access outside of the array is \<open>None\<close>. The test
  for \<^verbatim>\<open>RT_MB_ENTRY_MAX\<close> comes after the write.
\<close>

definition mb_put :: "u32 \<Rightarrow> rt_mailbox \<Rightarrow> (rt_mailbox \<times> rt_err_t) option" where
  "mb_put v mb = do {
     rt_assert (unat (in_offset mb) < length (mb_pool mb));
     let n = in_offset mb + 1;
     let mb1 = mb\<lparr>mb_pool := (mb_pool mb)[unat (in_offset mb) := v], in_offset := (if mb_size mb \<le> n then 0 else n)\<rparr>;
     Some (if mb_entry mb < RT_MB_ENTRY_MAX then (mb1\<lparr>mb_entry := mb_entry mb + 1\<rparr>, RT_EOK) else (mb1, - RT_EFULL)) }"

definition mb_get :: "rt_mailbox \<Rightarrow> (u32 \<times> rt_mailbox) option" where
  "mb_get mb = do {
     rt_assert (unat (out_offset mb) < length (mb_pool mb));
     let n = out_offset mb + 1;
     Some (mb_pool mb ! unat (out_offset mb),
       mb\<lparr>out_offset := (if mb_size mb \<le> n then 0 else n),
          mb_entry := (if 0 < mb_entry mb then mb_entry mb - 1 else mb_entry mb)\<rparr>) }"

definition mb_send_pass :: "nat \<Rightarrow> u32 \<Rightarrow> int \<Rightarrow> kernel \<Rightarrow> (kernel \<times> rt_err_t call) option" where
  "mb_send_pass i v timeout s = do {
     mb \<leftarrow> mailboxes s i;
     if mb_entry mb = mb_size mb
     then do {
       t \<leftarrow> rt_thread_self s;
       let s1 = upd_thread t (th_error_update (\<lambda>_. RT_EOK)) s;
       if timeout = 0 then Some (s1, Done (- RT_EFULL))
       else do {
         RT_DEBUG_IN_THREAD_CONTEXT s1;
         s2 \<leftarrow> ipc_wait (MbSendQ i) t (mb_flag mb) timeout s1;
         s3 \<leftarrow> rt_schedule s2;
         Some (s3, Waiting) } }
     else do {
       (mb', status) \<leftarrow> mb_put v mb;
       let s1 = upd_mb i (\<lambda>_. mb') s;
       if status \<noteq> RT_EOK then Some (s1, Done status)
       else do { s2 \<leftarrow> wake_first (MbRecvQ i) s1; Some (s2, Done RT_EOK) } } }"

definition rt_mb_send_wait :: "nat \<Rightarrow> u32 \<Rightarrow> int \<Rightarrow> kernel \<Rightarrow> (kernel \<times> rt_err_t call) option" where
  "rt_mb_send_wait i v timeout s = do {
     mb \<leftarrow> mailboxes s i;
     rt_assert (rt_object_get_type (mb_type mb) = RT_Object_Class_MailBox);
     if mb_entry mb = mb_size mb \<and> timeout = 0 then Some (s, Done (- RT_EFULL))
     else mb_send_pass i v timeout s }"

text \<open>The sender goes on after its wait, which began at tick \<open>start\<close>.\<close>

definition rt_mb_send_wait_return :: "nat \<Rightarrow> u32 \<Rightarrow> int \<Rightarrow> u32 \<Rightarrow> tid \<Rightarrow> kernel \<Rightarrow> (kernel \<times> rt_err_t call) option" where
  "rt_mb_send_wait_return i v timeout start t s = do {
     th \<leftarrow> threads s t;
     if th_error th \<noteq> RT_EOK then Some (s, Done (th_error th))
     else mb_send_pass i v (remaining_time timeout start (rt_tick_get s)) s }"

definition rt_mb_send :: "nat \<Rightarrow> u32 \<Rightarrow> kernel \<Rightarrow> (kernel \<times> rt_err_t call) option" where
  "rt_mb_send i v s = rt_mb_send_wait i v 0 s"

text \<open>The result of \<^verbatim>\<open>rt_mb_recv\<close> is the returned code with \<^verbatim>\<open>*value\<close> (\<open>None\<close> when it is not written).\<close>

definition mb_recv_pass :: "nat \<Rightarrow> int \<Rightarrow> kernel \<Rightarrow> (kernel \<times> (rt_err_t \<times> u32 option) call) option" where
  "mb_recv_pass i timeout s = do {
     mb \<leftarrow> mailboxes s i;
     if mb_entry mb = 0
     then do {
       t \<leftarrow> rt_thread_self s;
       let s1 = upd_thread t (th_error_update (\<lambda>_. RT_EOK)) s;
       if timeout = 0
       then Some (upd_thread t (th_error_update (\<lambda>_. - RT_ETIMEOUT)) s1, Done (- RT_ETIMEOUT, None))
       else do {
         RT_DEBUG_IN_THREAD_CONTEXT s1;
         s2 \<leftarrow> ipc_wait (MbRecvQ i) t (mb_flag mb) timeout s1;
         s3 \<leftarrow> rt_schedule s2;
         Some (s3, Waiting) } }
     else do {
       (v, mb') \<leftarrow> mb_get mb;
       s2 \<leftarrow> wake_first (MbSendQ i) (upd_mb i (\<lambda>_. mb') s);
       Some (s2, Done (RT_EOK, Some v)) } }"

definition rt_mb_recv :: "nat \<Rightarrow> int \<Rightarrow> kernel \<Rightarrow> (kernel \<times> (rt_err_t \<times> u32 option) call) option" where
  "rt_mb_recv i timeout s = do {
     mb \<leftarrow> mailboxes s i;
     rt_assert (rt_object_get_type (mb_type mb) = RT_Object_Class_MailBox);
     if mb_entry mb = 0 \<and> timeout = 0 then Some (s, Done (- RT_ETIMEOUT, None))
     else mb_recv_pass i timeout s }"

definition rt_mb_recv_return :: "nat \<Rightarrow> int \<Rightarrow> u32 \<Rightarrow> tid \<Rightarrow> kernel \<Rightarrow> (kernel \<times> (rt_err_t \<times> u32 option) call) option" where
  "rt_mb_recv_return i timeout start t s = do {
     th \<leftarrow> threads s t;
     if th_error th \<noteq> RT_EOK then Some (s, Done (th_error th, None))
     else mb_recv_pass i (remaining_time timeout start (rt_tick_get s)) s }"

definition rt_mb_control :: "nat \<Rightarrow> nat \<Rightarrow> kernel \<Rightarrow> (kernel \<times> rt_err_t) option" where
  "rt_mb_control i cmd s = do {
     mb \<leftarrow> mailboxes s i;
     rt_assert (rt_object_get_type (mb_type mb) = RT_Object_Class_MailBox);
     if cmd = RT_IPC_CMD_RESET
     then do {
       s1 \<leftarrow> mb_resume_all i s;
       s2 \<leftarrow> rt_schedule (upd_mb i (\<lambda>mb. mb\<lparr>mb_entry := 0, in_offset := 0, out_offset := 0\<rparr>) s1);
       Some (s2, RT_EOK) }
     else Some (s, - RT_ERROR) }"

section \<open>The array as a queue\<close>

definition mb_mails :: "rt_mailbox \<Rightarrow> u32 list" where
  "mb_mails mb = ring_view (mb_pool mb) (unat (out_offset mb)) (unat (mb_entry mb))"

definition mb_ok :: "rt_mailbox \<Rightarrow> bool" where
  "mb_ok mb \<longleftrightarrow> rt_object_get_type (mb_type mb) = RT_Object_Class_MailBox \<and>
     (mb_flag mb = RT_IPC_FLAG_FIFO \<or> mb_flag mb = RT_IPC_FLAG_PRIO) \<and>
     length (mb_pool mb) = unat (mb_size mb) \<and> 0 < mb_size mb \<and> mb_entry mb \<le> mb_size mb \<and>
     out_offset mb < mb_size mb \<and>
     unat (in_offset mb) = (unat (out_offset mb) + unat (mb_entry mb)) mod unat (mb_size mb)"

text \<open>An offset is advanced within the array.\<close>

lemma advance_offset:
  fixes n sz :: u16
  assumes "n < sz"
  shows "unat (if sz \<le> n + 1 then 0 else n + 1) = Suc (unat n) mod unat sz"
proof -
  have b: "unat n < unat sz" using assms by (simp add: word_less_nat_alt)
  moreover have "unat (n + 1) = Suc (unat n)" using assms by (rule unat_suc_bounded)
  ultimately show ?thesis by (auto simp: word_le_nat_alt mod_Suc)
qed

lemma length_mb_mails [simp]: "length (mb_mails mb) = unat (mb_entry mb)"
  by (simp add: mb_mails_def)

lemma mb_put_appends:
  assumes ok: "mb_ok mb" and room: "mb_entry mb \<noteq> mb_size mb"
  shows "\<exists>mb'. mb_put v mb = Some (mb', RT_EOK) \<and> mb_ok mb' \<and> mb_mails mb' = mb_mails mb @ [v] \<and>
     mb_size mb' = mb_size mb \<and> mb_type mb' = mb_type mb"
proof -
  let ?sz = "unat (mb_size mb)" and ?out = "unat (out_offset mb)" and ?n = "unat (mb_entry mb)" and ?in = "unat (in_offset mb)"
  have lt: "mb_entry mb < mb_size mb" using ok room by (simp add: mb_ok_def order_less_le)
  have sz: "length (mb_pool mb) = ?sz" "?in = (?out + ?n) mod ?sz" "?n < ?sz"
    using ok lt by (simp_all add: mb_ok_def word_less_nat_alt)
  then have i: "?in < ?sz" by (metis mod_less_divisor gr_zeroI not_less_zero)
  have ent: "unat (mb_entry mb + 1) = Suc ?n" using lt by (rule unat_suc_bounded)
  have le: "mb_entry mb + 1 \<le> mb_size mb" using sz(3) ent by (simp add: word_le_nat_alt)
  have adv: "unat (if mb_size mb \<le> in_offset mb + 1 then 0 else in_offset mb + 1) = Suc ?in mod ?sz"
    using i by (intro advance_offset) (simp add: word_less_nat_alt)
  have full: "mb_entry mb < 0xffff" using sz(3) unat_less_65536 [of "mb_size mb"] by (simp add: word_less_nat_alt)
  define mb' where "mb' = mb\<lparr>mb_pool := (mb_pool mb)[?in := v],
     in_offset := (if mb_size mb \<le> in_offset mb + 1 then 0 else in_offset mb + 1), mb_entry := mb_entry mb + 1\<rparr>"
  have "mb_put v mb = Some (mb', RT_EOK)" using i sz(1) full by (simp add: mb_put_def mb'_def Let_def)
  moreover have "mb_ok mb'" using ok le adv ent by (simp add: mb_ok_def mb'_def sz(2) mod_Suc_eq)
  moreover have "mb_mails mb' = mb_mails mb @ [v]"
    using ring_view_put [of ?n "mb_pool mb" ?out v] sz ent by (simp add: mb_mails_def mb'_def)
  ultimately show ?thesis by (intro exI [of _ mb']) (simp add: mb'_def)
qed

lemma mb_get_takes:
  assumes ok: "mb_ok mb" and some: "mb_entry mb \<noteq> 0"
  shows "\<exists>v mb'. mb_get mb = Some (v, mb') \<and> mb_ok mb' \<and> mb_mails mb = v # mb_mails mb' \<and>
     mb_size mb' = mb_size mb \<and> mb_type mb' = mb_type mb"
proof -
  let ?sz = "unat (mb_size mb)" and ?out = "unat (out_offset mb)"
  have o: "?out < ?sz" "length (mb_pool mb) = ?sz" using ok by (simp_all add: mb_ok_def word_less_nat_alt)
  obtain n where n: "unat (mb_entry mb) = Suc n" using some by (cases "unat (mb_entry mb)") (auto simp: unat_eq_zero)
  have ent: "unat (mb_entry mb - 1) = n" using n some by (metis diff_Suc_1 unat_minus_one)
  have pos: "0 < mb_entry mb" using some by (simp add: word_gt_0)
  have le: "mb_entry mb - 1 \<le> mb_size mb" using ok n ent by (simp add: mb_ok_def word_le_nat_alt)
  define out' where "out' = (if mb_size mb \<le> out_offset mb + 1 then 0 else out_offset mb + 1)"
  have adv: "unat out' = Suc ?out mod ?sz"
    unfolding out'_def using ok by (intro advance_offset) (simp add: mb_ok_def)
  have lt: "out' < mb_size mb" using o(1) by (simp add: word_less_nat_alt adv)
  define mb' where "mb' = mb\<lparr>out_offset := out', mb_entry := mb_entry mb - 1\<rparr>"
  have "mb_get mb = Some (mb_pool mb ! ?out, mb')" using o pos by (simp add: mb_get_def mb'_def out'_def Let_def)
  moreover have "mb_ok mb'" using ok le lt ent n by (simp add: mb_ok_def mb'_def adv mod_add_left_eq)
  moreover have "mb_mails mb = mb_pool mb ! ?out # mb_mails mb'"
  proof -
    have "ring_view (mb_pool mb) (Suc ?out mod ?sz) n = ring_view (mb_pool mb) (Suc ?out) n"
      unfolding o(2) [symmetric] by (rule ring_view_mod)
    then show ?thesis using o by (simp add: mb_mails_def n ring_view_get mb'_def ent adv)
  qed
  ultimately show ?thesis by (intro exI [of _ "mb_pool mb ! ?out"] exI [of _ mb']) (simp add: mb'_def)
qed

section \<open>The mail box as a bounded FIFO\<close>

text \<open>What a send and a receive without waiting do to the box: \<open>None\<close> when they are refused.\<close>

definition mb_try_put :: "u32 \<Rightarrow> rt_mailbox \<Rightarrow> rt_mailbox option" where
  "mb_try_put v mb = (if mb_entry mb = mb_size mb then None else map_option fst (mb_put v mb))"

definition mb_try_get :: "rt_mailbox \<Rightarrow> (u32 \<times> rt_mailbox) option" where
  "mb_try_get mb = (if mb_entry mb = 0 then None else mb_get mb)"

lemma mb_mails_full_iff:
  "mb_ok mb \<Longrightarrow> length (mb_mails mb) < unat (mb_size mb) \<longleftrightarrow> mb_entry mb \<noteq> mb_size mb"
  by (simp add: mb_ok_def word_le_nat_alt order_less_le unat_u16_inject)

interpretation mbf: fifo_buffer mb_ok mb_mails "\<lambda>mb. unat (mb_size mb)" "\<lambda>_. True" mb_try_put mb_try_get
proof
  show "length (mb_mails b) \<le> unat (mb_size b)" if "mb_ok b" for b using that by (simp add: mb_ok_def word_le_nat_alt)
  show "\<exists>b'. mb_try_put x b = Some b' \<and> mb_ok b' \<and> mb_mails b' = mb_mails b @ [x] \<and> unat (mb_size b') = unat (mb_size b)"
    if "mb_ok b" "length (mb_mails b) < unat (mb_size b)" for b x
    using mb_put_appends [OF that(1), of x] mb_mails_full_iff [OF that(1)] that(2) by (auto simp: mb_try_put_def)
  show "mb_try_put x b = None" if "mb_ok b" "length (mb_mails b) = unat (mb_size b)" for b x
    using that(2) by (simp add: mb_try_put_def unat_u16_inject)
  show "\<exists>b'. mb_try_get b = Some (x, b') \<and> mb_ok b' \<and> mb_mails b' = xs \<and> unat (mb_size b') = unat (mb_size b)"
    if "mb_ok b" "mb_mails b = x # xs" for b x xs
  proof -
    have "mb_entry b \<noteq> 0" using that(2) by (auto simp: mb_mails_def)
    then show ?thesis using mb_get_takes [OF that(1)] that(2) by (auto simp: mb_try_get_def)
  qed
  show "mb_try_get b = None" if "mb_mails b = []" for b
    using arg_cong [OF that, of length] by (simp add: mb_try_get_def unat_eq_zero)
qed

section \<open>Correctness of sending and receiving\<close>

definition mb_inv :: "kernel \<Rightarrow> bool" where
  "mb_inv s \<longleftrightarrow> kernel_inv s \<and> (\<forall>i mb. mailboxes s i = Some mb \<longrightarrow> mb_ok mb)"

lemma mb_invD:
  assumes "mb_inv s"
  shows "kernel_inv s" "mailboxes s i = Some mb \<Longrightarrow> mb_ok mb"
  using assms by (auto simp: mb_inv_def)

lemma mb_inv_frame: "mb_inv s \<Longrightarrow> kernel_inv s' \<Longrightarrow> sched_frame s s' \<Longrightarrow> mb_inv s'"
  by (simp add: mb_inv_def sched_frame_def)

text \<open>Putting a new box in place and waking the first thread that waits for it.\<close>

lemma mb_update_wake:
  assumes inv: "mb_inv s" and mb: "mailboxes s i = Some mb" and ok: "mb_ok mb'" and q: "is_waitq q"
    and cur: "rt_current_thread s \<noteq> None"
  obtains s' where "wake_first q (upd_mb i (\<lambda>_. mb') s) = Some s'" "mb_inv s'" "mailboxes s' = (mailboxes s)(i \<mapsto> mb')"
    "queues s' q = tl (queues s q)" "queues s q \<noteq> [] \<longrightarrow> awake s s' (hd (queues s q))"
    "\<forall>q'. is_waitq q' \<and> q' \<noteq> q \<longrightarrow> queues s' q' = queues s q'"
proof -
  let ?s = "upd_mb i (\<lambda>_. mb') s"
  have same: "same_sched s ?s" "timers_frame s ?s" by (simp_all add: same_sched_def upd_mb_def)
  obtain s' where s': "wake_first q ?s = Some s'" "kernel_inv s'" "sched_frame ?s s'"
    "queues s' q = tl (queues s q)" "queues s q \<noteq> [] \<longrightarrow> awake s s' (hd (queues s q))"
    "\<forall>q'. is_waitq q' \<and> q' \<noteq> q \<longrightarrow> queues s' q' = queues s q'"
    by (rule wake_after_update [OF mb_invD(1) [OF inv] same q cur])
  have m': "mailboxes s' = (mailboxes s)(i \<mapsto> mb')" using s'(3) mb by (simp add: sched_frame_def upd_mb_def)
  then have "mb_inv s'" using s'(2) ok inv by (auto simp: mb_inv_def split: if_splits)
  then show thesis using that [OF s'(1)] m' s'(4-6) by simp
qed

text \<open>C11. \<^verbatim>\<open>rt_mb_send_wait\<close> on every branch: a box with room takes the mail behind the mails it has and the first
  waiting receiver is woken; a full box is refused with \<^verbatim>\<open>-RT_EFULL\<close> when there is no waiting time, and
  otherwise the caller is suspended on the senders' list. The array's invariant is kept on every branch.\<close>

theorem rt_mb_send_wait_correct:
  assumes "mb_inv s" and "mailboxes s i = Some mb" and "may_block s c" and "time < 0x7fffffff"
  shows "\<exists>s' r. rt_mb_send_wait i v time s = Some (s', r) \<and> mb_inv s' \<and>
     (mb_entry mb \<noteq> mb_size mb \<longrightarrow> r = Done RT_EOK \<and>
        (\<exists>mb'. mailboxes s' = (mailboxes s)(i \<mapsto> mb') \<and> mb_mails mb' = mb_mails mb @ [v] \<and> mb_size mb' = mb_size mb) \<and>
        queues s' (MbRecvQ i) = tl (queues s (MbRecvQ i)) \<and>
        (queues s (MbRecvQ i) \<noteq> [] \<longrightarrow> awake s s' (hd (queues s (MbRecvQ i))))) \<and>
     (mb_entry mb = mb_size mb \<and> time = 0 \<longrightarrow> r = Done (- RT_EFULL) \<and> s' = s) \<and>
     (mb_entry mb = mb_size mb \<and> time \<noteq> 0 \<longrightarrow> r = Waiting \<and> mailboxes s' = mailboxes s \<and>
        blocked s s' (MbSendQ i) c (mb_flag mb) time)"
proof -
  have ok: "mb_ok mb" by (rule mb_invD(2) [OF assms(1,2)])
  then have ty: "rt_object_get_type (mb_type mb) = RT_Object_Class_MailBox" "mb_flag mb = 0 \<or> mb_flag mb = 1"
    by (simp_all add: mb_ok_def)
  have ctx: "rt_current_thread s = Some c" "rt_interrupt_nest s = 0" "rt_current_thread s \<noteq> None"
    using assms(3) by (simp_all add: may_block_def)
  have wq: "is_waitq (MbSendQ i)" "is_waitq (MbRecvQ i)" by (simp_all add: is_waitq_def)
  consider (room) "mb_entry mb \<noteq> mb_size mb" | (poll) "mb_entry mb = mb_size mb" "time = 0"
    | (block) "mb_entry mb = mb_size mb" "time \<noteq> 0" by blast
  then show ?thesis
  proof cases
    case room
    obtain mb' where mb': "mb_put v mb = Some (mb', RT_EOK)" "mb_ok mb'" "mb_mails mb' = mb_mails mb @ [v]"
      "mb_size mb' = mb_size mb" using mb_put_appends [OF ok room] by blast
    obtain s' where s': "wake_first (MbRecvQ i) (upd_mb i (\<lambda>_. mb') s) = Some s'" "mb_inv s'"
      "mailboxes s' = (mailboxes s)(i \<mapsto> mb')" "queues s' (MbRecvQ i) = tl (queues s (MbRecvQ i))"
      "queues s (MbRecvQ i) \<noteq> [] \<longrightarrow> awake s s' (hd (queues s (MbRecvQ i)))"
      by (rule mb_update_wake [OF assms(1,2) mb'(2) wq(2) ctx(3)])
    have "rt_mb_send_wait i v time s = Some (s', Done RT_EOK)"
      using assms(2) ty(1) room mb'(1) s'(1) by (simp add: rt_mb_send_wait_def mb_send_pass_def)
    then show ?thesis using room s'(2-5) mb'(3,4) by blast
  next
    case poll
    then show ?thesis using assms(1,2) ty(1) by (simp add: rt_mb_send_wait_def)
  next
    case block
    obtain s2 s' where s': "ipc_wait (MbSendQ i) c (mb_flag mb) time (upd_thread c (th_error_update (\<lambda>_. RT_EOK)) s) = Some s2"
      "rt_schedule s2 = Some s'" "kernel_inv s'" "sched_frame s s'" "blocked s s' (MbSendQ i) c (mb_flag mb) time"
      by (rule block_spec [OF mb_invD(1) [OF assms(1)] assms(3) wq(1) ty(2) assms(4)])
    have "rt_mb_send_wait i v time s = Some (s', Waiting)"
      using assms(2) ty(1) block s'(1,2) ctx(1,2)
      by (simp add: rt_mb_send_wait_def mb_send_pass_def rt_context_defs upd_thread_def)
    moreover have "mailboxes s' = mailboxes s" using s'(4) by (simp add: sched_frame_def)
    ultimately show ?thesis using block s'(5) mb_inv_frame [OF assms(1) s'(3,4)] by blast
  qed
qed

text \<open>\<^verbatim>\<open>rt_mb_recv\<close> on every branch: the oldest mail is delivered and taken out, and the first waiting sender is woken;
  an empty box gives \<^verbatim>\<open>-RT_ETIMEOUT\<close> when there is no waiting time, and otherwise the caller is suspended on
  the receivers' list. The array's invariant is kept on every branch.\<close>

theorem rt_mb_recv_correct:
  assumes "mb_inv s" and "mailboxes s i = Some mb" and "may_block s c" and "time < 0x7fffffff"
  shows "\<exists>s' r. rt_mb_recv i time s = Some (s', r) \<and> mb_inv s' \<and>
     (\<forall>v vs. mb_mails mb = v # vs \<longrightarrow> r = Done (RT_EOK, Some v) \<and>
        (\<exists>mb'. mailboxes s' = (mailboxes s)(i \<mapsto> mb') \<and> mb_mails mb' = vs \<and> mb_size mb' = mb_size mb) \<and>
        queues s' (MbSendQ i) = tl (queues s (MbSendQ i)) \<and>
        (queues s (MbSendQ i) \<noteq> [] \<longrightarrow> awake s s' (hd (queues s (MbSendQ i))))) \<and>
     (mb_mails mb = [] \<and> time = 0 \<longrightarrow> r = Done (- RT_ETIMEOUT, None) \<and> s' = s) \<and>
     (mb_mails mb = [] \<and> time \<noteq> 0 \<longrightarrow> r = Waiting \<and> mailboxes s' = mailboxes s \<and>
        blocked s s' (MbRecvQ i) c (mb_flag mb) time)"
proof -
  have ok: "mb_ok mb" by (rule mb_invD(2) [OF assms(1,2)])
  then have ty: "rt_object_get_type (mb_type mb) = RT_Object_Class_MailBox" "mb_flag mb = 0 \<or> mb_flag mb = 1"
    by (simp_all add: mb_ok_def)
  have ctx: "rt_current_thread s = Some c" "rt_interrupt_nest s = 0" "rt_current_thread s \<noteq> None"
    using assms(3) by (simp_all add: may_block_def)
  have wq: "is_waitq (MbSendQ i)" "is_waitq (MbRecvQ i)" by (simp_all add: is_waitq_def)
  have empty: "mb_mails mb = [] \<longleftrightarrow> mb_entry mb = 0" by (metis length_0_conv length_mb_mails unat_eq_zero)
  consider (some) "mb_entry mb \<noteq> 0" | (poll) "mb_entry mb = 0" "time = 0" | (block) "mb_entry mb = 0" "time \<noteq> 0" by blast
  then show ?thesis
  proof cases
    case some
    obtain v mb' where mb': "mb_get mb = Some (v, mb')" "mb_ok mb'" "mb_mails mb = v # mb_mails mb'"
      "mb_size mb' = mb_size mb" using mb_get_takes [OF ok some] by blast
    obtain s' where s': "wake_first (MbSendQ i) (upd_mb i (\<lambda>_. mb') s) = Some s'" "mb_inv s'"
      "mailboxes s' = (mailboxes s)(i \<mapsto> mb')" "queues s' (MbSendQ i) = tl (queues s (MbSendQ i))"
      "queues s (MbSendQ i) \<noteq> [] \<longrightarrow> awake s s' (hd (queues s (MbSendQ i)))"
      by (rule mb_update_wake [OF assms(1,2) mb'(2) wq(1) ctx(3)])
    have "rt_mb_recv i time s = Some (s', Done (RT_EOK, Some v))"
      using assms(2) ty(1) some mb'(1) s'(1) by (simp add: rt_mb_recv_def mb_recv_pass_def)
    then show ?thesis using s'(2-5) mb'(3,4) by auto
  next
    case poll
    then show ?thesis using assms(1,2) ty(1) empty by (simp add: rt_mb_recv_def)
  next
    case block
    obtain s2 s' where s': "ipc_wait (MbRecvQ i) c (mb_flag mb) time (upd_thread c (th_error_update (\<lambda>_. RT_EOK)) s) = Some s2"
      "rt_schedule s2 = Some s'" "kernel_inv s'" "sched_frame s s'" "blocked s s' (MbRecvQ i) c (mb_flag mb) time"
      by (rule block_spec [OF mb_invD(1) [OF assms(1)] assms(3) wq(2) ty(2) assms(4)])
    have "rt_mb_recv i time s = Some (s', Waiting)"
      using assms(2) ty(1) block s'(1,2) ctx(1,2)
      by (simp add: rt_mb_recv_def mb_recv_pass_def rt_context_defs upd_thread_def)
    moreover have "mailboxes s' = mailboxes s" using s'(4) by (simp add: sched_frame_def)
    ultimately show ?thesis using block empty s'(5) mb_inv_frame [OF assms(1) s'(3,4)] by auto
  qed
qed

text \<open>C12. A mail box is a bounded first-in first-out buffer: whatever the order of sends and receives without waiting,
  the mails come out in the order in which they were accepted, none is lost, repeated or invented, and there
  are never more in the box than its size.\<close>

theorem mailbox_is_fifo:
  assumes "mb_ok mb" and "fifo_run mb_try_put mb_try_get ops mb = (accepted, delivered, mb')"
  shows "mb_ok mb' \<and> mb_mails mb @ accepted = delivered @ mb_mails mb' \<and>
     length (mb_mails mb') \<le> unat (mb_size mb)"
  using mbf.run_fifo [OF assms(1) _ assms(2)] mbf.bounded [of mb'] by auto

section \<open>A concrete mail box\<close>

text \<open>Two slots, the read offset at the second one; thread 3 waits to receive.\<close>

definition demo_box :: "u16 \<Rightarrow> rt_mailbox" where
  "demo_box n = \<lparr>mb_type = 0x85, mb_flag = 0, mb_pool = [7, 8], mb_size = 2, mb_entry = n, in_offset = n + 1, out_offset = 1\<rparr>"

definition demo_mb :: "qid \<Rightarrow> rt_mailbox \<Rightarrow> kernel" where
  "demo_mb q mb = (demo_on q)\<lparr>mailboxes := [0 \<mapsto> mb]\<rparr>"

lemma demo_box_ok: "mb_ok (demo_box 0)" "mb_ok ((demo_box 2)\<lparr>in_offset := 1\<rparr>)"
  by (simp_all add: mb_ok_def demo_box_def rt_object_get_type_def)

lemma demo_box_mails: "mb_mails (demo_box 0) = []" "mb_mails ((demo_box 2)\<lparr>in_offset := 1\<rparr>) = [8, 7]"
  by (simp_all add: mb_mails_def demo_box_def ring_view_def upt_rec)

lemma demo_box_fields: "mb_entry (demo_box n) = n" "mb_size (demo_box n) = 2"
  by (simp_all add: demo_box_def)

lemma demo_mb_fields: "mailboxes (demo_mb q mb) = [0 \<mapsto> mb]" "queues (demo_mb q mb) q = [3]"
  by (simp_all add: demo_mb_def)

lemma demo_mb_inv:
  assumes "is_waitq q" and "mb_ok mb"
  shows "mb_inv (demo_mb q mb)"
proof -
  have "kernel_inv (demo_mb q mb)" unfolding demo_mb_def
    by (rule kernel_inv_same_objects [OF demo_on_inv [OF assms(1)]]) (simp_all add: same_sched_def)
  then show ?thesis using assms(2) by (simp add: mb_inv_def demo_mb_def)
qed

lemma demo_mb_may_block: "may_block (demo_mb q mb) 1"
  by (simp add: may_block_def demo_mb_def)

theorem rt_mb_send_wait_correct_witness:
  "\<exists>s' r mb'. rt_mb_send_wait 0 42 10 (demo_mb (MbRecvQ 0) (demo_box 0)) = Some (s', r) \<and> mb_inv s' \<and> r = Done RT_EOK \<and>
     mailboxes s' 0 = Some mb' \<and> mb_mails mb' = [42] \<and> queues s' (MbRecvQ 0) = []"
proof -
  have "mb_inv (demo_mb (MbRecvQ 0) (demo_box 0))" by (rule demo_mb_inv) (simp_all add: is_waitq_def demo_box_ok)
  from rt_mb_send_wait_correct [OF this _ demo_mb_may_block, of 0 "demo_box 0" 10 42]
  show ?thesis by (auto simp: demo_mb_fields demo_box_fields demo_box_mails)
qed

theorem rt_mb_recv_correct_witness:
  "\<exists>s' r mb'. rt_mb_recv 0 10 (demo_mb (MbSendQ 0) ((demo_box 2)\<lparr>in_offset := 1\<rparr>)) = Some (s', r) \<and> mb_inv s' \<and>
     r = Done (RT_EOK, Some 8) \<and> mailboxes s' 0 = Some mb' \<and> mb_mails mb' = [7] \<and> queues s' (MbSendQ 0) = []"
proof -
  have "mb_inv (demo_mb (MbSendQ 0) ((demo_box 2)\<lparr>in_offset := 1\<rparr>))"
    by (rule demo_mb_inv) (simp_all add: is_waitq_def demo_box_ok)
  from rt_mb_recv_correct [OF this _ demo_mb_may_block, of 0 "(demo_box 2)\<lparr>in_offset := 1\<rparr>" 10]
  show ?thesis by (auto simp: demo_mb_fields demo_box_mails)
qed

theorem mailbox_is_fifo_witness:
  "\<exists>ins outs mb'. fifo_run mb_try_put mb_try_get [Put 1, Put 2, Get, Put 3, Get, Get] (demo_box 0) = (ins, outs, mb') \<and>
     mb_ok mb' \<and> ins = outs @ mb_mails mb'"
proof -
  obtain ins outs mb' where
    r: "fifo_run mb_try_put mb_try_get [Put 1, Put 2, Get, Put 3, Get, Get] (demo_box 0) = (ins, outs, mb')"
    by (metis prod_cases3)
  show ?thesis using mailbox_is_fifo [OF demo_box_ok(1) r] r by (simp add: demo_box_mails)
qed

end
