(* ===== verification/MsgQueue.thy ===== *)
theory MsgQueue
  imports Ipc Fifo
begin

text \<open>
  The message queues of \<^verbatim>\<open>rt-thread/src/ipc.c\<close>: message nodes in a pool, linked through their \<^verbatim>\<open>next\<close>
  pointers into the queue or the free list. Sending and receiving have two critical sections each, with
  the copying of the message between them while the node is in neither list; the sections are the
  definitions \<open>mq_take_free\<close>, \<open>mq_link_tail\<close>, \<open>mq_link_head\<close>, \<open>mq_unlink\<close> and \<open>mq_release\<close>, and the invariant
  \<open>mq_ok\<close> carries the set of nodes in flight, so that it is kept by the sections in any interleaving.
\<close>

section \<open>Operations\<close>

abbreviation (input) RT_MQ_ENTRY_MAX :: u16 where "RT_MQ_ENTRY_MAX \<equiv> 0xffff"

definition upd_mq :: "nat \<Rightarrow> (rt_messagequeue \<Rightarrow> rt_messagequeue) \<Rightarrow> kernel \<Rightarrow> kernel" where
  [rt_defs]: "upd_mq i f s = s\<lparr>msgqueues := (msgqueues s)(i := map_option f (msgqueues s i))\<rparr>"

definition zero_mq :: rt_messagequeue where
  "zero_mq = \<lparr>mq_type = 0, mq_flag = 0, mq_next = (\<lambda>_. None), mq_data = (\<lambda>_. []), msg_size = 0, max_msgs = 0,
     mq_entry = 0, msg_queue_head = None, msg_queue_tail = None, msg_queue_free = None\<rparr>"

definition touch_mq :: "nat \<Rightarrow> kernel \<Rightarrow> kernel" where
  "touch_mq i s = (case msgqueues s i of None \<Rightarrow> s\<lparr>msgqueues := (msgqueues s)(i \<mapsto> zero_mq)\<rparr> | Some _ \<Rightarrow> s)"

text \<open>The loop that builds the free list, \<^verbatim>\<open>for (temp = 0; temp < mq->max_msgs; temp ++)\<close>.\<close>

function mq_free_loop :: "nat \<Rightarrow> rt_messagequeue \<Rightarrow> rt_messagequeue" where
  "mq_free_loop temp mq = (if temp < unat (max_msgs mq)
     then mq_free_loop (Suc temp) (mq\<lparr>mq_next := (mq_next mq)(temp := msg_queue_free mq), msg_queue_free := Some temp\<rparr>)
     else mq)"
  by auto

termination
  by (relation "measure (\<lambda>(temp, mq). unat (max_msgs mq) - temp)") auto

declare mq_free_loop.simps [simp del]

text \<open>
  The common part of \<^verbatim>\<open>rt_mq_init\<close> and \<^verbatim>\<open>rt_mq_create\<close> from the message pool on. Node \<open>n\<close> of the pool
  begins at byte \<open>n * (msg_size + 4)\<close> with its \<^verbatim>\<open>next\<close> pointer, 4 bytes.
\<close>

definition mq_reset :: "u8 list \<Rightarrow> rt_messagequeue \<Rightarrow> rt_messagequeue" where
  "mq_reset msgpool mq = (mq_free_loop 0 (mq\<lparr>
     mq_data := (\<lambda>n. take (unat (msg_size mq)) (drop (n * (unat (msg_size mq) + 4) + 4) msgpool)),
     msg_queue_head := None, msg_queue_tail := None, msg_queue_free := None\<rparr>))\<lparr>mq_entry := 0\<rparr>"

definition rt_mq_init :: "nat \<Rightarrow> string \<Rightarrow> u8 list \<Rightarrow> u32 \<Rightarrow> u32 \<Rightarrow> u8 \<Rightarrow> kernel \<Rightarrow> (kernel \<times> rt_err_t) option" where
  "rt_mq_init i name msgpool m_size pool_size flag s = do {
     s1 \<leftarrow> rt_object_init (MqObj i) RT_Object_Class_MessageQueue name (touch_mq i s);
     let ms = (ucast (RT_ALIGN m_size RT_ALIGN_SIZE) :: u16);
     let s2 = upd_mq i (\<lambda>mq. mq_reset msgpool (mq\<lparr>mq_flag := flag, msg_size := ms,
                max_msgs := ucast (pool_size div (ucast ms + 4))\<rparr>))
              (s1\<lparr>queues := (queues s1)(MqRecvQ i := [], MqSendQ i := [])\<rparr>);
     Some (s2, RT_EOK) }"

definition mq_resume_all :: "nat \<Rightarrow> kernel \<Rightarrow> kernel option" where
  "mq_resume_all i s = do {
     s1 \<leftarrow> rt_ipc_list_resume_all (MqRecvQ i) s;
     rt_ipc_list_resume_all (MqSendQ i) s1 }"

definition rt_mq_detach :: "nat \<Rightarrow> kernel \<Rightarrow> (kernel \<times> rt_err_t) option" where
  "rt_mq_detach i s = do {
     mq \<leftarrow> msgqueues s i;
     rt_assert (rt_object_get_type (mq_type mq) = RT_Object_Class_MessageQueue);
     rt_assert (rt_object_is_systemobject (mq_type mq));
     s1 \<leftarrow> mq_resume_all i s;
     Some (rt_object_detach (MqObj i) s1, RT_EOK) }"

definition rt_mq_create :: "nat option \<Rightarrow> u8 list option \<Rightarrow> string \<Rightarrow> u32 \<Rightarrow> u32 \<Rightarrow> u8 \<Rightarrow> kernel \<Rightarrow> (kernel \<times> nat option) option" where
  "rt_mq_create mem pool name m_size m_max flag s = do {
     RT_DEBUG_NOT_IN_INTERRUPT s;
     let s0 = (case mem of None \<Rightarrow> s | Some i \<Rightarrow> s\<lparr>msgqueues := (msgqueues s)(i \<mapsto> zero_mq)\<rparr>);
     (s1, _) \<leftarrow> rt_object_allocate (map_option MqObj mem) RT_Object_Class_MessageQueue name s0;
     case mem of None \<Rightarrow> Some (s1, None)
     | Some i \<Rightarrow> (let s2 = upd_mq i (\<lambda>mq. mq\<lparr>mq_flag := flag, msg_size := ucast (RT_ALIGN m_size RT_ALIGN_SIZE),
                            max_msgs := ucast m_max\<rparr>) (s1\<lparr>queues := (queues s1)(MqRecvQ i := [])\<rparr>)
         in case pool of
              None \<Rightarrow> do { s3 \<leftarrow> rt_object_delete (MqObj i) s2; Some (s3, None) }
            | Some p \<Rightarrow> Some (upd_mq i (mq_reset p) (s2\<lparr>queues := (queues s2)(MqSendQ i := [])\<rparr>), Some i)) }"

definition rt_mq_delete :: "nat \<Rightarrow> kernel \<Rightarrow> (kernel \<times> rt_err_t) option" where
  "rt_mq_delete i s = do {
     RT_DEBUG_NOT_IN_INTERRUPT s;
     mq \<leftarrow> msgqueues s i;
     rt_assert (rt_object_get_type (mq_type mq) = RT_Object_Class_MessageQueue);
     rt_assert (\<not> rt_object_is_systemobject (mq_type mq));
     s1 \<leftarrow> mq_resume_all i s;
     s2 \<leftarrow> rt_object_delete (MqObj i) s1;
     Some (s2, RT_EOK) }"

subsection \<open>The critical sections\<close>

definition mq_take_free :: "rt_messagequeue \<Rightarrow> (nat \<times> rt_messagequeue) option" where
  "mq_take_free mq = (case msg_queue_free mq of
      None \<Rightarrow> None
    | Some m \<Rightarrow> Some (m, mq\<lparr>msg_queue_free := mq_next mq m\<rparr>))"

text \<open>\<^verbatim>\<open>rt_memcpy(msg + 1, buffer, size)\<close>: bytes of the node behind the message stay as they were.\<close>

definition mq_copy_in :: "nat \<Rightarrow> u8 list \<Rightarrow> rt_messagequeue \<Rightarrow> rt_messagequeue" where
  "mq_copy_in m buf mq = mq\<lparr>mq_data := (mq_data mq)(m := buf @ drop (length buf) (mq_data mq m))\<rparr>"

definition mq_count :: "rt_messagequeue \<Rightarrow> rt_messagequeue \<times> rt_err_t" where
  "mq_count mq = (if mq_entry mq < RT_MQ_ENTRY_MAX then (mq\<lparr>mq_entry := mq_entry mq + 1\<rparr>, RT_EOK) else (mq, - RT_EFULL))"

definition mq_link_tail :: "nat \<Rightarrow> rt_messagequeue \<Rightarrow> rt_messagequeue \<times> rt_err_t" where
  "mq_link_tail m mq =
     (let mq1 = (case msg_queue_tail mq of None \<Rightarrow> mq | Some t \<Rightarrow> mq\<lparr>mq_next := (mq_next mq)(t := Some m)\<rparr>);
          mq2 = mq1\<lparr>msg_queue_tail := Some m\<rparr>
      in mq_count (if msg_queue_head mq2 = None then mq2\<lparr>msg_queue_head := Some m\<rparr> else mq2))"

definition mq_link_head :: "nat \<Rightarrow> rt_messagequeue \<Rightarrow> rt_messagequeue \<times> rt_err_t" where
  "mq_link_head m mq =
     (let mq1 = mq\<lparr>mq_next := (mq_next mq)(m := msg_queue_head mq), msg_queue_head := Some m\<rparr>
      in mq_count (if msg_queue_tail mq1 = None then mq1\<lparr>msg_queue_tail := Some m\<rparr> else mq1))"

text \<open>Moving the head past the first message, and the tail when it was the last.\<close>

definition mq_pop :: "nat \<Rightarrow> rt_messagequeue \<Rightarrow> rt_messagequeue" where
  "mq_pop m mq = (let mq1 = mq\<lparr>msg_queue_head := mq_next mq m\<rparr>
     in if msg_queue_tail mq1 = Some m then mq1\<lparr>msg_queue_tail := None\<rparr> else mq1)"

definition mq_unlink :: "rt_messagequeue \<Rightarrow> (nat \<times> rt_messagequeue) option" where
  "mq_unlink mq = (case msg_queue_head mq of
      None \<Rightarrow> None
    | Some m \<Rightarrow> (let mq2 = mq_pop m mq
                 in Some (m, if 0 < mq_entry mq2 then mq2\<lparr>mq_entry := mq_entry mq2 - 1\<rparr> else mq2)))"

definition mq_release :: "nat \<Rightarrow> rt_messagequeue \<Rightarrow> rt_messagequeue" where
  "mq_release m mq = mq\<lparr>mq_next := (mq_next mq)(m := msg_queue_free mq), msg_queue_free := Some m\<rparr>"

subsection \<open>Sending and receiving\<close>

text \<open>The node's way through a send to the end of the queue, and through a receive.\<close>

definition mq_put :: "u8 list \<Rightarrow> rt_messagequeue \<Rightarrow> (rt_messagequeue \<times> rt_err_t) option" where
  "mq_put buf mq = do {
     (m, mq1) \<leftarrow> mq_take_free mq;
     let mq2 = mq1\<lparr>mq_next := (mq_next mq1)(m := None)\<rparr>;
     Some (mq_link_tail m (mq_copy_in m buf mq2)) }"

definition mq_put_urgent :: "u8 list \<Rightarrow> rt_messagequeue \<Rightarrow> (rt_messagequeue \<times> rt_err_t) option" where
  "mq_put_urgent buf mq = do {
     (m, mq1) \<leftarrow> mq_take_free mq;
     Some (mq_link_head m (mq_copy_in m buf mq1)) }"

definition mq_get :: "nat \<Rightarrow> rt_messagequeue \<Rightarrow> (u8 list \<times> rt_messagequeue) option" where
  "mq_get n mq = do {
     (m, mq1) \<leftarrow> mq_unlink mq;
     let buf = take (if unat (msg_size mq1) < n then unat (msg_size mq1) else n) (mq_data mq1 m);
     Some (buf, mq_release m mq1) }"

definition mq_send_pass :: "nat \<Rightarrow> u8 list \<Rightarrow> int \<Rightarrow> kernel \<Rightarrow> (kernel \<times> rt_err_t call) option" where
  "mq_send_pass i buf timeout s = do {
     mq \<leftarrow> msgqueues s i;
     if msg_queue_free mq = None
     then do {
       t \<leftarrow> rt_thread_self s;
       let s1 = upd_thread t (th_error_update (\<lambda>_. RT_EOK)) s;
       if timeout = 0 then Some (s1, Done (- RT_EFULL))
       else do {
         RT_DEBUG_IN_THREAD_CONTEXT s1;
         s2 \<leftarrow> ipc_wait (MqSendQ i) t (mq_flag mq) timeout s1;
         s3 \<leftarrow> rt_schedule s2;
         Some (s3, Waiting) } }
     else do {
       (mq', status) \<leftarrow> mq_put buf mq;
       let s1 = upd_mq i (\<lambda>_. mq') s;
       if status \<noteq> RT_EOK then Some (s1, Done status)
       else do { s2 \<leftarrow> wake_first (MqRecvQ i) s1; Some (s2, Done RT_EOK) } } }"

definition rt_mq_send_wait :: "nat \<Rightarrow> u8 list \<Rightarrow> int \<Rightarrow> kernel \<Rightarrow> (kernel \<times> rt_err_t call) option" where
  "rt_mq_send_wait i buf timeout s = do {
     mq \<leftarrow> msgqueues s i;
     rt_assert (rt_object_get_type (mq_type mq) = RT_Object_Class_MessageQueue);
     rt_assert (length buf \<noteq> 0);
     if unat (msg_size mq) < length buf then Some (s, Done (- RT_ERROR))
     else if msg_queue_free mq = None \<and> timeout = 0 then Some (s, Done (- RT_EFULL))
     else mq_send_pass i buf timeout s }"

definition rt_mq_send_wait_return :: "nat \<Rightarrow> u8 list \<Rightarrow> int \<Rightarrow> u32 \<Rightarrow> tid \<Rightarrow> kernel \<Rightarrow> (kernel \<times> rt_err_t call) option" where
  "rt_mq_send_wait_return i buf timeout start t s = do {
     th \<leftarrow> threads s t;
     if th_error th \<noteq> RT_EOK then Some (s, Done (th_error th))
     else mq_send_pass i buf (remaining_time timeout start (rt_tick_get s)) s }"

definition rt_mq_send :: "nat \<Rightarrow> u8 list \<Rightarrow> kernel \<Rightarrow> (kernel \<times> rt_err_t call) option" where
  "rt_mq_send i buf s = rt_mq_send_wait i buf 0 s"

definition rt_mq_urgent :: "nat \<Rightarrow> u8 list \<Rightarrow> kernel \<Rightarrow> (kernel \<times> rt_err_t) option" where
  "rt_mq_urgent i buf s = do {
     mq \<leftarrow> msgqueues s i;
     rt_assert (rt_object_get_type (mq_type mq) = RT_Object_Class_MessageQueue);
     rt_assert (length buf \<noteq> 0);
     if unat (msg_size mq) < length buf then Some (s, - RT_ERROR)
     else if msg_queue_free mq = None then Some (s, - RT_EFULL)
     else do {
       (mq', status) \<leftarrow> mq_put_urgent buf mq;
       let s1 = upd_mq i (\<lambda>_. mq') s;
       if status \<noteq> RT_EOK then Some (s1, status)
       else do { s2 \<leftarrow> wake_first (MqRecvQ i) s1; Some (s2, RT_EOK) } } }"

definition mq_recv_pass :: "nat \<Rightarrow> nat \<Rightarrow> int \<Rightarrow> kernel \<Rightarrow> (kernel \<times> (rt_err_t \<times> u8 list option) call) option" where
  "mq_recv_pass i n timeout s = do {
     mq \<leftarrow> msgqueues s i;
     if mq_entry mq = 0
     then do {
       RT_DEBUG_IN_THREAD_CONTEXT s;
       t \<leftarrow> rt_thread_self s;
       let s1 = upd_thread t (th_error_update (\<lambda>_. RT_EOK)) s;
       if timeout = 0
       then Some (upd_thread t (th_error_update (\<lambda>_. - RT_ETIMEOUT)) s1, Done (- RT_ETIMEOUT, None))
       else do {
         s2 \<leftarrow> ipc_wait (MqRecvQ i) t (mq_flag mq) timeout s1;
         s3 \<leftarrow> rt_schedule s2;
         Some (s3, Waiting) } }
     else do {
       (buf, mq') \<leftarrow> mq_get n mq;
       s2 \<leftarrow> wake_first (MqSendQ i) (upd_mq i (\<lambda>_. mq') s);
       Some (s2, Done (RT_EOK, Some buf)) } }"

definition rt_mq_recv :: "nat \<Rightarrow> nat \<Rightarrow> int \<Rightarrow> kernel \<Rightarrow> (kernel \<times> (rt_err_t \<times> u8 list option) call) option" where
  "rt_mq_recv i n timeout s = do {
     mq \<leftarrow> msgqueues s i;
     rt_assert (rt_object_get_type (mq_type mq) = RT_Object_Class_MessageQueue);
     rt_assert (n \<noteq> 0);
     if mq_entry mq = 0 \<and> timeout = 0 then Some (s, Done (- RT_ETIMEOUT, None))
     else mq_recv_pass i n timeout s }"

definition rt_mq_recv_return :: "nat \<Rightarrow> nat \<Rightarrow> int \<Rightarrow> u32 \<Rightarrow> tid \<Rightarrow> kernel \<Rightarrow> (kernel \<times> (rt_err_t \<times> u8 list option) call) option" where
  "rt_mq_recv_return i n timeout start t s = do {
     th \<leftarrow> threads s t;
     if th_error th \<noteq> RT_EOK then Some (s, Done (th_error th, None))
     else mq_recv_pass i n (remaining_time timeout start (rt_tick_get s)) s }"

text \<open>The loop of the reset, \<^verbatim>\<open>while (mq->msg_queue_head != RT_NULL)\<close>.\<close>

partial_function (option) mq_drain :: "rt_messagequeue \<Rightarrow> rt_messagequeue option" where
  "mq_drain mq = (case msg_queue_head mq of
      None \<Rightarrow> Some mq
    | Some m \<Rightarrow> mq_drain (mq_release m (mq_pop m mq)))"

definition rt_mq_control :: "nat \<Rightarrow> nat \<Rightarrow> kernel \<Rightarrow> (kernel \<times> rt_err_t) option" where
  "rt_mq_control i cmd s = do {
     mq \<leftarrow> msgqueues s i;
     rt_assert (rt_object_get_type (mq_type mq) = RT_Object_Class_MessageQueue);
     if cmd = RT_IPC_CMD_RESET
     then do {
       s1 \<leftarrow> mq_resume_all i s;
       mq1 \<leftarrow> Option.bind (msgqueues s1 i) mq_drain;
       s2 \<leftarrow> rt_schedule (upd_mq i (\<lambda>_. mq1\<lparr>mq_entry := 0\<rparr>) s1);
       Some (s2, RT_EOK) }
     else Some (s, - RT_ERROR) }"

section \<open>The linked lists\<close>

text \<open>The nodes reached from a pointer, in order.\<close>

fun chain :: "(nat \<Rightarrow> nat option) \<Rightarrow> nat option \<Rightarrow> nat list \<Rightarrow> bool" where
  "chain nx p [] \<longleftrightarrow> p = None"
| "chain nx p (x # xs) \<longleftrightarrow> p = Some x \<and> chain nx (nx x) xs"

fun walk :: "nat \<Rightarrow> (nat \<Rightarrow> nat option) \<Rightarrow> nat option \<Rightarrow> nat list" where
  "walk (Suc n) nx (Some x) = x # walk n nx (nx x)"
| "walk _ _ _ = []"

lemma walk_chain: "chain nx p xs \<Longrightarrow> length xs \<le> n \<Longrightarrow> walk n nx p = xs"
proof (induction xs arbitrary: n p)
  case Nil
  then show ?case by (cases n) auto
next
  case (Cons x xs)
  then show ?case by (cases n) auto
qed

lemma chain_upd [simp]: "m \<notin> set xs \<Longrightarrow> chain (nx(m := v)) p xs = chain nx p xs"
  by (induction xs arbitrary: p) auto

lemma chain_snoc:
  "chain nx p xs \<Longrightarrow> xs \<noteq> [] \<Longrightarrow> distinct xs \<Longrightarrow> m \<notin> set xs \<Longrightarrow> nx m = None \<Longrightarrow>
     chain (nx(last xs := Some m)) p (xs @ [m])"
proof (induction xs arbitrary: p)
  case (Cons x xs)
  show ?case
  proof (cases "xs = []")
    case False
    then have "last xs \<noteq> x" using Cons.prems(3) last_in_set by fastforce
    then show ?thesis using Cons False by auto
  qed (use Cons.prems in simp)
qed simp

lemma chain_last: "chain nx p (xs @ [m]) \<Longrightarrow> nx m = None"
  by (induction xs arbitrary: p) auto

section \<open>Invariant\<close>

text \<open>
  Queue \<open>qs\<close>, free list \<open>fs\<close> and the nodes \<open>F\<close> in flight are all the nodes of the pool, each in one place.
\<close>

definition mq_lists :: "nat set \<Rightarrow> nat list \<Rightarrow> nat list \<Rightarrow> rt_messagequeue \<Rightarrow> bool" where
  "mq_lists F qs fs mq \<longleftrightarrow> chain (mq_next mq) (msg_queue_head mq) qs \<and> chain (mq_next mq) (msg_queue_free mq) fs \<and>
     distinct (qs @ fs) \<and> set (qs @ fs) \<inter> F = {} \<and> set (qs @ fs) \<union> F = {..<unat (max_msgs mq)} \<and>
     unat (mq_entry mq) = length qs \<and> msg_queue_tail mq = (if qs = [] then None else Some (last qs)) \<and>
     (\<forall>n<unat (max_msgs mq). length (mq_data mq n) = unat (msg_size mq))"

lemma mq_lists_room:
  assumes "mq_lists F qs fs mq" and "m \<in> F"
  shows "length qs < unat (max_msgs mq)"
proof -
  have "set qs \<subseteq> {..<unat (max_msgs mq)} - {m}" "distinct qs" "m < unat (max_msgs mq)"
    using assms by (auto simp: mq_lists_def)
  then have "card (set qs) \<le> unat (max_msgs mq) - 1" by (metis card_Diff_singleton card_lessThan card_mono finite_Diff finite_lessThan lessThan_iff)
  then show ?thesis using \<open>distinct qs\<close> \<open>m < _\<close> by (simp add: distinct_card)
qed

lemma mq_take_free_spec:
  assumes "mq_lists F qs (m # fs) mq"
  shows "mq_take_free mq = Some (m, mq\<lparr>msg_queue_free := mq_next mq m\<rparr>)"
    "mq_lists (insert m F) qs fs (mq\<lparr>msg_queue_free := mq_next mq m\<rparr>)"
  using assms by (auto simp: mq_lists_def mq_take_free_def)

lemma mq_lists_in_flight:
  assumes "mq_lists F qs fs mq" and "m \<in> F"
  shows "mq_lists F qs fs (mq\<lparr>mq_next := (mq_next mq)(m := v)\<rparr>)"
    "length buf \<le> unat (msg_size mq) \<Longrightarrow> mq_lists F qs fs (mq_copy_in m buf mq)"
proof -
  have "m \<notin> set qs" "m \<notin> set fs" "m < unat (max_msgs mq)" using assms by (auto simp: mq_lists_def)
  then show "mq_lists F qs fs (mq\<lparr>mq_next := (mq_next mq)(m := v)\<rparr>)"
    "length buf \<le> unat (msg_size mq) \<Longrightarrow> mq_lists F qs fs (mq_copy_in m buf mq)"
    using assms(1) by (simp_all add: mq_lists_def mq_copy_in_def)
qed

lemma mq_count_spec:
  assumes "unat (mq_entry mq) < unat (max_msgs mq)"
  shows "mq_count mq = (mq\<lparr>mq_entry := mq_entry mq + 1\<rparr>, RT_EOK)" "unat (mq_entry mq + 1) = Suc (unat (mq_entry mq))"
proof -
  have "mq_entry mq < max_msgs mq" using assms by (simp add: word_less_nat_alt)
  then show "unat (mq_entry mq + 1) = Suc (unat (mq_entry mq))" by (rule unat_suc_bounded)
  have "mq_entry mq < 0xffff" using assms unat_less_65536 [of "max_msgs mq"] by (simp add: word_less_nat_alt)
  then show "mq_count mq = (mq\<lparr>mq_entry := mq_entry mq + 1\<rparr>, RT_EOK)" by (simp add: mq_count_def)
qed

text \<open>Linking a node in flight behind or before the queue.\<close>

lemma mq_link_tail_spec:
  assumes l: "mq_lists F qs fs mq" and m: "m \<in> F" and null: "mq_next mq m = None"
  obtains mq' where "mq_link_tail m mq = (mq', RT_EOK)" "mq_lists (F - {m}) (qs @ [m]) fs mq'"
    "mq_data mq' = mq_data mq" "max_msgs mq' = max_msgs mq" "msg_size mq' = msg_size mq"
    "mq_type mq' = mq_type mq" "mq_flag mq' = mq_flag mq"
proof -
  have out: "m \<notin> set qs" "m \<notin> set fs" "distinct qs" "set qs \<inter> set fs = {}" using l m by (auto simp: mq_lists_def)
  have room: "unat (mq_entry mq) < unat (max_msgs mq)" using mq_lists_room [OF l m] l by (simp add: mq_lists_def)
  define nx where "nx = (if qs = [] then mq_next mq else (mq_next mq)(last qs := Some m))"
  define hd' where "hd' = (if qs = [] then Some m else msg_queue_head mq)"
  define mq' where "mq' = mq\<lparr>mq_next := nx, msg_queue_tail := Some m, msg_queue_head := hd', mq_entry := mq_entry mq + 1\<rparr>"
  have hd: "msg_queue_head mq = None \<longleftrightarrow> qs = []" "msg_queue_tail mq = (if qs = [] then None else Some (last qs))"
    using l by (cases qs; auto simp: mq_lists_def)+
  have "mq_link_tail m mq = (mq', RT_EOK)"
    using hd room by (cases "qs = []") (simp_all add: mq_link_tail_def Let_def mq_count_spec(1) mq'_def nx_def hd'_def)
  moreover have "chain nx hd' (qs @ [m])"
    using l out null chain_snoc [of "mq_next mq" "msg_queue_head mq" qs m]
    by (cases "qs = []") (simp_all add: nx_def hd'_def mq_lists_def)
  moreover have "chain nx (msg_queue_free mq) fs"
  proof (cases "qs = []")
    case False
    then have "last qs \<notin> set fs" using out(4) by (meson disjoint_iff last_in_set)
    then show ?thesis using l False by (simp add: nx_def mq_lists_def)
  qed (use l in \<open>simp add: nx_def mq_lists_def\<close>)
  ultimately show thesis using l m out mq_count_spec(2) [OF room]
    by (intro that [of mq']) (auto simp: mq'_def mq_lists_def)
qed

lemma mq_link_head_spec:
  assumes l: "mq_lists F qs fs mq" and m: "m \<in> F"
  obtains mq' where "mq_link_head m mq = (mq', RT_EOK)" "mq_lists (F - {m}) (m # qs) fs mq'"
    "mq_data mq' = mq_data mq" "max_msgs mq' = max_msgs mq" "msg_size mq' = msg_size mq"
    "mq_type mq' = mq_type mq" "mq_flag mq' = mq_flag mq"
proof -
  have out: "m \<notin> set qs" "m \<notin> set fs" using l m by (auto simp: mq_lists_def)
  have room: "unat (mq_entry mq) < unat (max_msgs mq)" using mq_lists_room [OF l m] l by (simp add: mq_lists_def)
  define mq' where "mq' = mq\<lparr>mq_next := (mq_next mq)(m := msg_queue_head mq), msg_queue_head := Some m,
     msg_queue_tail := (if qs = [] then Some m else msg_queue_tail mq), mq_entry := mq_entry mq + 1\<rparr>"
  have "msg_queue_tail mq = (if qs = [] then None else Some (last qs))" using l by (simp add: mq_lists_def)
  then have "mq_link_head m mq = (mq', RT_EOK)"
    using room by (cases "qs = []") (simp_all add: mq_link_head_def Let_def mq_count_spec(1) mq'_def)
  then show thesis using l m out mq_count_spec(2) [OF room]
    by (intro that [of mq']) (auto simp: mq'_def mq_lists_def)
qed

lemma mq_unlink_spec:
  assumes l: "mq_lists F (m # qs) fs mq"
  obtains mq' where "mq_unlink mq = Some (m, mq')" "mq_lists (insert m F) qs fs mq'"
    "mq_data mq' = mq_data mq" "max_msgs mq' = max_msgs mq" "msg_size mq' = msg_size mq"
    "mq_type mq' = mq_type mq" "mq_flag mq' = mq_flag mq"
proof -
  have ent: "unat (mq_entry mq) = Suc (length qs)" using l by (simp add: mq_lists_def)
  then have ne: "mq_entry mq \<noteq> 0" by auto
  then have e: "unat (mq_entry mq - 1) = length qs" "0 < mq_entry mq"
    using ent by (simp_all add: unat_minus_one word_gt_0)
  have hd: "msg_queue_head mq = Some m" "msg_queue_tail mq = Some (last (m # qs))" "m \<notin> set qs"
    using l by (simp_all add: mq_lists_def)
  have tl: "msg_queue_tail mq = Some m \<longleftrightarrow> qs = []" using hd(2,3) last_in_set [of qs] by (cases "qs = []") auto
  define mq' where "mq' = mq\<lparr>msg_queue_head := mq_next mq m,
     msg_queue_tail := (if qs = [] then None else msg_queue_tail mq), mq_entry := mq_entry mq - 1\<rparr>"
  have "mq_unlink mq = Some (m, mq')"
    using hd(1) tl e(2) by (cases "qs = []") (simp_all add: mq_unlink_def mq_pop_def mq'_def)
  then show thesis using l e(1) hd(2) by (intro that [of mq']) (auto simp: mq'_def mq_lists_def)
qed

lemma mq_release_spec:
  assumes "mq_lists F qs fs mq" and "m \<in> F"
  shows "mq_lists (F - {m}) qs (m # fs) (mq_release m mq)"
proof -
  have "m \<notin> set qs" "m \<notin> set fs" using assms by (auto simp: mq_lists_def)
  then show ?thesis using assms by (auto simp: mq_lists_def mq_release_def)
qed

section \<open>The queue as a list of messages\<close>

definition mq_nodes :: "rt_messagequeue \<Rightarrow> nat list" where
  "mq_nodes mq = walk (unat (max_msgs mq)) (mq_next mq) (msg_queue_head mq)"

definition mq_msgs :: "rt_messagequeue \<Rightarrow> u8 list list" where
  "mq_msgs mq = map (mq_data mq) (mq_nodes mq)"

definition mq_ok :: "nat set \<Rightarrow> rt_messagequeue \<Rightarrow> bool" where
  "mq_ok F mq \<longleftrightarrow> rt_object_get_type (mq_type mq) = RT_Object_Class_MessageQueue \<and>
     (mq_flag mq = RT_IPC_FLAG_FIFO \<or> mq_flag mq = RT_IPC_FLAG_PRIO) \<and> (\<exists>qs fs. mq_lists F qs fs mq)"

text \<open>The configuration of a queue, which no operation changes.\<close>

definition same_conf :: "rt_messagequeue \<Rightarrow> rt_messagequeue \<Rightarrow> bool" where
  "same_conf mq mq' \<longleftrightarrow> max_msgs mq' = max_msgs mq \<and> msg_size mq' = msg_size mq \<and>
     mq_type mq' = mq_type mq \<and> mq_flag mq' = mq_flag mq"

lemma mq_lists_bound: "mq_lists F qs fs mq \<Longrightarrow> length qs + length fs \<le> unat (max_msgs mq)"
proof -
  assume l: "mq_lists F qs fs mq"
  then have "set (qs @ fs) \<subseteq> {..<unat (max_msgs mq)}" "distinct (qs @ fs)" unfolding mq_lists_def by blast+
  then have "card (set (qs @ fs)) \<le> unat (max_msgs mq)" by (metis card_lessThan card_mono finite_lessThan)
  then show ?thesis using distinct_card [OF \<open>distinct (qs @ fs)\<close>] by simp
qed

lemma mq_nodes_lists: "mq_lists F qs fs mq \<Longrightarrow> mq_nodes mq = qs"
  unfolding mq_nodes_def using mq_lists_bound [of F qs fs mq] by (intro walk_chain) (auto simp: mq_lists_def)

lemma mq_okI:
  "mq_ok F mq \<Longrightarrow> same_conf mq mq' \<Longrightarrow> mq_lists F' qs fs mq' \<Longrightarrow> mq_ok F' mq'"
  unfolding mq_ok_def same_conf_def by auto

lemma mq_entry_msgs: "mq_ok F mq \<Longrightarrow> unat (mq_entry mq) = length (mq_msgs mq)"
  by (auto simp: mq_ok_def mq_msgs_def mq_nodes_lists) (simp_all add: mq_lists_def)

text \<open>Taking a free node and filling it, before it is linked.\<close>

lemma mq_fill_spec:
  assumes ok: "mq_ok F mq" and free: "msg_queue_free mq \<noteq> None" and len: "length buf \<le> unat (msg_size mq)"
  obtains m fs pad mq' where "mq_take_free mq = Some (m, mq\<lparr>msg_queue_free := mq_next mq m\<rparr>)"
    "m \<notin> F" "m \<notin> set (mq_nodes mq)" "mq_lists (insert m F) (mq_nodes mq) fs (mq_copy_in m buf (mq\<lparr>msg_queue_free := mq_next mq m\<rparr>))"
    "mq_data (mq_copy_in m buf (mq\<lparr>msg_queue_free := mq_next mq m\<rparr>)) = (mq_data mq)(m := buf @ pad)"
    "length (buf @ pad) = unat (msg_size mq)"
proof -
  obtain qs fs0 where l0: "mq_lists F qs fs0 mq" using ok by (auto simp: mq_ok_def)
  obtain m where m: "msg_queue_free mq = Some m" using free by blast
  then obtain fs where fs: "fs0 = m # fs" using l0 by (cases fs0) (auto simp: mq_lists_def)
  have l: "mq_lists F qs (m # fs) mq" using l0 fs by simp
  let ?mq = "mq\<lparr>msg_queue_free := mq_next mq m\<rparr>"
  have "mq_lists (insert m F) qs fs (mq_copy_in m buf ?mq)"
    by (rule mq_lists_in_flight(2) [OF mq_take_free_spec(2) [OF l]]) (simp_all add: len)
  moreover have "m \<notin> F" "m \<notin> set qs" "m < unat (max_msgs mq)" using l by (auto simp: mq_lists_def)
  moreover have "length (mq_data mq m) = unat (msg_size mq)" using l \<open>m < _\<close> by (simp add: mq_lists_def)
  ultimately show thesis using mq_take_free_spec(1) [OF l] len mq_nodes_lists [OF l0]
    by (intro that [of m fs "drop (length buf) (mq_data mq m)"]) (simp_all add: mq_copy_in_def)
qed

lemma mq_put_spec:
  assumes ok: "mq_ok F mq" and free: "msg_queue_free mq \<noteq> None" and len: "length buf \<le> unat (msg_size mq)"
  obtains mq' pad where "mq_put buf mq = Some (mq', RT_EOK)" "mq_ok F mq'" "same_conf mq mq'"
    "mq_msgs mq' = mq_msgs mq @ [buf @ pad]" "length (buf @ pad) = unat (msg_size mq)"
proof -
  obtain m fs pad where f: "mq_take_free mq = Some (m, mq\<lparr>msg_queue_free := mq_next mq m\<rparr>)"
    "m \<notin> F" "m \<notin> set (mq_nodes mq)" "mq_lists (insert m F) (mq_nodes mq) fs (mq_copy_in m buf (mq\<lparr>msg_queue_free := mq_next mq m\<rparr>))"
    "mq_data (mq_copy_in m buf (mq\<lparr>msg_queue_free := mq_next mq m\<rparr>)) = (mq_data mq)(m := buf @ pad)"
    "length (buf @ pad) = unat (msg_size mq)" by (rule mq_fill_spec [OF assms])
  let ?q = "mq_copy_in m buf (mq\<lparr>msg_queue_free := mq_next mq m\<rparr>)"
  let ?q' = "?q\<lparr>mq_next := (mq_next ?q)(m := None)\<rparr>"
  have l: "mq_lists (insert m F) (mq_nodes mq) fs ?q'" by (rule mq_lists_in_flight(1) [OF f(4)]) simp
  have mm: "m \<in> insert m F" "mq_next ?q' m = None" by simp_all
  obtain mq' where mq': "mq_link_tail m ?q' = (mq', RT_EOK)"
    "mq_lists (insert m F - {m}) (mq_nodes mq @ [m]) fs mq'" "mq_data mq' = mq_data ?q'" "max_msgs mq' = max_msgs ?q'"
    "msg_size mq' = msg_size ?q'" "mq_type mq' = mq_type ?q'" "mq_flag mq' = mq_flag ?q'"
    by (rule mq_link_tail_spec [OF l mm])
  have c: "same_conf mq mq'" using mq'(4-7) by (simp add: same_conf_def mq_copy_in_def)
  have F: "insert m F - {m} = F" using f(2) by blast
  have l': "mq_lists F (mq_nodes mq @ [m]) fs mq'" using mq'(2) unfolding F .
  have "?q' = mq_copy_in m buf (mq\<lparr>msg_queue_free := mq_next mq m, mq_next := (mq_next mq)(m := None)\<rparr>)"
    by (simp add: mq_copy_in_def)
  then have "mq_put buf mq = Some (mq', RT_EOK)" using f(1) mq'(1) by (simp add: mq_put_def)
  moreover have "mq_msgs mq' = mq_msgs mq @ [buf @ pad]"
    using f(3,5) mq'(3) by (auto simp: mq_msgs_def mq_nodes_lists [OF l'])
  ultimately show thesis using that [OF _ mq_okI [OF ok c l'] c] f(6) by blast
qed

lemma mq_put_urgent_spec:
  assumes ok: "mq_ok F mq" and free: "msg_queue_free mq \<noteq> None" and len: "length buf \<le> unat (msg_size mq)"
  obtains mq' pad where "mq_put_urgent buf mq = Some (mq', RT_EOK)" "mq_ok F mq'" "same_conf mq mq'"
    "mq_msgs mq' = (buf @ pad) # mq_msgs mq" "length (buf @ pad) = unat (msg_size mq)"
proof -
  obtain m fs pad where f: "mq_take_free mq = Some (m, mq\<lparr>msg_queue_free := mq_next mq m\<rparr>)"
    "m \<notin> F" "m \<notin> set (mq_nodes mq)" "mq_lists (insert m F) (mq_nodes mq) fs (mq_copy_in m buf (mq\<lparr>msg_queue_free := mq_next mq m\<rparr>))"
    "mq_data (mq_copy_in m buf (mq\<lparr>msg_queue_free := mq_next mq m\<rparr>)) = (mq_data mq)(m := buf @ pad)"
    "length (buf @ pad) = unat (msg_size mq)" by (rule mq_fill_spec [OF assms])
  let ?q = "mq_copy_in m buf (mq\<lparr>msg_queue_free := mq_next mq m\<rparr>)"
  have mm: "m \<in> insert m F" by simp
  obtain mq' where mq': "mq_link_head m ?q = (mq', RT_EOK)"
    "mq_lists (insert m F - {m}) (m # mq_nodes mq) fs mq'" "mq_data mq' = mq_data ?q" "max_msgs mq' = max_msgs ?q"
    "msg_size mq' = msg_size ?q" "mq_type mq' = mq_type ?q" "mq_flag mq' = mq_flag ?q"
    by (rule mq_link_head_spec [OF f(4) mm])
  have c: "same_conf mq mq'" using mq'(4-7) by (simp add: same_conf_def mq_copy_in_def)
  have F: "insert m F - {m} = F" using f(2) by blast
  have l': "mq_lists F (m # mq_nodes mq) fs mq'" using mq'(2) unfolding F .
  have "mq_put_urgent buf mq = Some (mq', RT_EOK)" using f(1) mq'(1) by (simp add: mq_put_urgent_def)
  moreover have "mq_msgs mq' = (buf @ pad) # mq_msgs mq"
    using f(3,5) mq'(3) by (auto simp: mq_msgs_def mq_nodes_lists [OF l'])
  ultimately show thesis using that [OF _ mq_okI [OF ok c l'] c] f(6) by blast
qed

lemma mq_get_spec:
  assumes ok: "mq_ok F mq" and msgs: "mq_msgs mq = msg # msgs"
  obtains mq' where "mq_get n mq = Some (take n msg, mq')" "mq_ok F mq'" "same_conf mq mq'" "mq_msgs mq' = msgs"
    "msg_queue_free mq' \<noteq> None"
proof -
  obtain qs0 fs where l0: "mq_lists F qs0 fs mq" using ok by (auto simp: mq_ok_def)
  obtain m qs where qs: "qs0 = m # qs" "mq_data mq m = msg" "map (mq_data mq) qs = msgs"
    using msgs by (cases qs0) (auto simp: mq_msgs_def mq_nodes_lists [OF l0])
  have l: "mq_lists F (m # qs) fs mq" using l0 qs(1) by simp
  obtain mq1 where mq1: "mq_unlink mq = Some (m, mq1)" "mq_lists (insert m F) qs fs mq1" "mq_data mq1 = mq_data mq"
    "max_msgs mq1 = max_msgs mq" "msg_size mq1 = msg_size mq" "mq_type mq1 = mq_type mq" "mq_flag mq1 = mq_flag mq"
    by (rule mq_unlink_spec [OF l])
  have F: "insert m F - {m} = F" using l by (auto simp: mq_lists_def)
  have l': "mq_lists F qs (m # fs) (mq_release m mq1)" using mq_release_spec [OF mq1(2), of m] unfolding F by simp
  have c: "same_conf mq (mq_release m mq1)" using mq1(4-7) by (simp add: same_conf_def mq_release_def)
  have "length msg = unat (msg_size mq)" using l qs(2) by (auto simp: mq_lists_def)
  then have "mq_get n mq = Some (take n msg, mq_release m mq1)" using mq1(1,3,5) qs(2) by (simp add: mq_get_def)
  moreover have "mq_msgs (mq_release m mq1) = msgs"
    using qs(3) mq1(3) unfolding mq_msgs_def mq_nodes_lists [OF l'] by (simp add: mq_release_def)
  moreover have "msg_queue_free (mq_release m mq1) \<noteq> None" by (simp add: mq_release_def)
  ultimately show thesis using mq_okI [OF ok c l'] c by (intro that)
qed

text \<open>The loop of the reset ends, with every message of the queue on the free list.\<close>

lemma mq_drain_spec:
  "mq_lists F qs fs (mq\<lparr>mq_entry := e\<rparr>) \<Longrightarrow>
     \<exists>mq'. mq_drain mq = Some mq' \<and> mq_lists F [] (rev qs @ fs) (mq'\<lparr>mq_entry := 0\<rparr>) \<and> same_conf mq mq'"
proof (induction qs arbitrary: fs mq e)
  case Nil
  then have "mq_drain mq = Some mq" by (subst mq_drain.simps) (simp add: mq_lists_def)
  then show ?case using Nil by (auto simp: mq_lists_def same_conf_def)
next
  case (Cons m qs)
  let ?mq = "mq\<lparr>mq_entry := e\<rparr>"
  obtain mq1 where mq1: "mq_unlink ?mq = Some (m, mq1)" "mq_lists (insert m F) qs fs mq1" by (rule mq_unlink_spec [OF Cons.prems])
  have F: "insert m F - {m} = F" "msg_queue_head mq = Some m" using Cons.prems by (auto simp: mq_lists_def)
  define e' where "e' = mq_entry mq1"
  have e': "mq1 = (mq_pop m mq)\<lparr>mq_entry := e'\<rparr>"
    using mq1(1) F(2) by (intro rt_messagequeue.equality) (auto simp: e'_def mq_unlink_def mq_pop_def Let_def split: if_splits)
  have "mq_lists F qs (m # fs) (mq_release m mq1)" using mq_release_spec [OF mq1(2), of m] F(1) by simp
  then have "mq_lists F qs (m # fs) ((mq_release m (mq_pop m mq))\<lparr>mq_entry := e'\<rparr>)" 
  proof -
    have "mq_release m mq1 = (mq_release m (mq_pop m mq))\<lparr>mq_entry := e'\<rparr>"
      unfolding e' by (intro rt_messagequeue.equality) (simp_all add: mq_release_def)
    then show ?thesis using \<open>mq_lists F qs (m # fs) (mq_release m mq1)\<close> by simp
  qed
  from Cons.IH [OF this] obtain mq' where mq': "mq_drain (mq_release m (mq_pop m mq)) = Some mq'"
    "mq_lists F [] (rev qs @ m # fs) (mq'\<lparr>mq_entry := 0\<rparr>)" "same_conf (mq_release m (mq_pop m mq)) mq'" by blast
  have "mq_drain mq = Some mq'" using mq'(1) F(2) by (subst mq_drain.simps) simp
  then show ?case using mq'(2,3) by (simp add: same_conf_def mq_release_def mq_pop_def Let_def split: if_splits)
qed

text \<open>Initialisation builds the free list of all nodes.\<close>

lemma mq_free_loop_spec:
  "chain (mq_next mq) (msg_queue_free mq) (rev [0..<temp]) \<Longrightarrow> temp \<le> unat (max_msgs mq) \<Longrightarrow>
     \<exists>nx fr. mq_free_loop temp mq = mq\<lparr>mq_next := nx, msg_queue_free := fr\<rparr> \<and> chain nx fr (rev [0..<unat (max_msgs mq)])"
proof (induction temp mq rule: mq_free_loop.induct)
  case (1 temp mq)
  show ?case
  proof (cases "temp < unat (max_msgs mq)")
    case True
    let ?mq = "mq\<lparr>mq_next := (mq_next mq)(temp := msg_queue_free mq), msg_queue_free := Some temp\<rparr>"
    have "chain ((mq_next mq)(temp := msg_queue_free mq)) (msg_queue_free mq) (rev [0..<temp])"
      using 1(2) by (subst chain_upd) simp_all
    then have "chain (mq_next ?mq) (msg_queue_free ?mq) (rev [0..<Suc temp])" by simp
    moreover have "Suc temp \<le> unat (max_msgs ?mq)" using True by simp
    ultimately obtain nx fr where "mq_free_loop (Suc temp) ?mq = ?mq\<lparr>mq_next := nx, msg_queue_free := fr\<rparr>"
      "chain nx fr (rev [0..<unat (max_msgs ?mq)])" using 1(1) [OF True] by blast
    then show ?thesis using True by (subst mq_free_loop.simps) auto
  next
    case False
    then have "mq_free_loop temp mq = mq\<lparr>mq_next := mq_next mq, msg_queue_free := msg_queue_free mq\<rparr>"
      by (subst mq_free_loop.simps) simp
    moreover have "temp = unat (max_msgs mq)" using False 1(3) by simp
    ultimately show ?thesis using 1(2) by blast
  qed
qed

lemma mq_reset_empty:
  assumes "unat (max_msgs mq) * (unat (msg_size mq) + 4) \<le> length msgpool"
  shows "mq_lists {} [] (rev [0..<unat (max_msgs mq)]) (mq_reset msgpool mq)" "same_conf mq (mq_reset msgpool mq)"
proof -
  let ?ms = "unat (msg_size mq)" and ?max = "unat (max_msgs mq)"
  let ?mq = "mq\<lparr>mq_data := (\<lambda>n. take ?ms (drop (n * (?ms + 4) + 4) msgpool)), msg_queue_head := None,
     msg_queue_tail := None, msg_queue_free := None\<rparr>"
  obtain nx fr where r: "mq_free_loop 0 ?mq = ?mq\<lparr>mq_next := nx, msg_queue_free := fr\<rparr>" "chain nx fr (rev [0..<?max])"
    using mq_free_loop_spec [of ?mq 0] by auto
  have e: "mq_reset msgpool mq = ?mq\<lparr>mq_next := nx, msg_queue_free := fr, mq_entry := 0\<rparr>"
    unfolding mq_reset_def r(1) by simp
  have "length (take ?ms (drop (n * (?ms + 4) + 4) msgpool)) = ?ms" if "n < ?max" for n
  proof -
    have "Suc n * (?ms + 4) \<le> ?max * (?ms + 4)" using that by (intro mult_le_mono1) simp
    then show ?thesis using assms by simp
  qed
  then show "mq_lists {} [] (rev [0..<?max]) (mq_reset msgpool mq)" using r(2) by (auto simp: mq_lists_def e)
  show "same_conf mq (mq_reset msgpool mq)" by (simp add: same_conf_def e)
qed

section \<open>The message queue as a bounded FIFO\<close>

text \<open>Messages of the full size \<open>n\<close>; what a send and a receive without waiting do to the queue.\<close>

definition mq_try_put :: "u8 list \<Rightarrow> rt_messagequeue \<Rightarrow> rt_messagequeue option" where
  "mq_try_put buf mq = (if msg_queue_free mq = None then None else map_option fst (mq_put buf mq))"

definition mq_try_get :: "nat \<Rightarrow> rt_messagequeue \<Rightarrow> (u8 list \<times> rt_messagequeue) option" where
  "mq_try_get n mq = (if mq_entry mq = 0 then None else mq_get n mq)"

definition mq_idle :: "nat \<Rightarrow> rt_messagequeue \<Rightarrow> bool" where
  "mq_idle n mq \<longleftrightarrow> mq_ok {} mq \<and> unat (msg_size mq) = n"

lemma mq_idle_lists:
  assumes "mq_idle n mq"
  obtains qs fs where "mq_lists {} qs fs mq" "mq_msgs mq = map (mq_data mq) qs"
    "length qs + length fs = unat (max_msgs mq)" "msg_queue_free mq = None \<longleftrightarrow> fs = []"
    "\<And>msg. msg \<in> set (mq_msgs mq) \<Longrightarrow> length msg = n"
proof -
  obtain qs fs where l: "mq_lists {} qs fs mq" using assms by (auto simp: mq_idle_def mq_ok_def)
  have "set (qs @ fs) = {..<unat (max_msgs mq)}" "distinct (qs @ fs)" using l unfolding mq_lists_def by auto
  then have "length (qs @ fs) = unat (max_msgs mq)" by (metis card_lessThan distinct_card)
  moreover have "msg_queue_free mq = None \<longleftrightarrow> fs = []" using l by (cases fs) (auto simp: mq_lists_def)
  moreover have "length msg = n" if "msg \<in> set (map (mq_data mq) qs)" for msg
    using that l assms by (auto simp: mq_lists_def mq_idle_def)
  ultimately show thesis using that [OF l] by (simp add: mq_msgs_def mq_nodes_lists [OF l])
qed

interpretation mqf: fifo_buffer "mq_idle n" mq_msgs "\<lambda>mq. unat (max_msgs mq)" "\<lambda>buf. length buf = n"
  mq_try_put "mq_try_get n" for n
proof
  show "length (mq_msgs b) \<le> unat (max_msgs b)" if "mq_idle n b" for b
    by (rule mq_idle_lists [OF that]) simp
  show "\<exists>b'. mq_try_put x b = Some b' \<and> mq_idle n b' \<and> mq_msgs b' = mq_msgs b @ [x] \<and> unat (max_msgs b') = unat (max_msgs b)"
    if b: "mq_idle n b" "length x = n" "length (mq_msgs b) < unat (max_msgs b)" for b x
  proof -
    have free: "msg_queue_free b \<noteq> None" by (rule mq_idle_lists [OF b(1)]) (use b(3) in auto)
    have ok: "mq_ok {} b" "length x \<le> unat (msg_size b)" using b by (simp_all add: mq_idle_def)
    obtain b' pad where "mq_put x b = Some (b', RT_EOK)" "mq_ok {} b'" "same_conf b b'"
      "mq_msgs b' = mq_msgs b @ [x @ pad]" "length (x @ pad) = unat (msg_size b)"
      by (rule mq_put_spec [OF ok(1) free ok(2)])
    then show ?thesis using free b(1,2) by (auto simp: mq_try_put_def mq_idle_def same_conf_def)
  qed
  show "mq_try_put x b = None" if b: "mq_idle n b" "length (mq_msgs b) = unat (max_msgs b)" for b x
  proof -
    have "msg_queue_free b = None" by (rule mq_idle_lists [OF b(1)]) (use b(2) in auto)
    then show ?thesis by (simp add: mq_try_put_def)
  qed
  show "\<exists>b'. mq_try_get n b = Some (x, b') \<and> mq_idle n b' \<and> mq_msgs b' = xs \<and> unat (max_msgs b') = unat (max_msgs b)"
    if b: "mq_idle n b" "mq_msgs b = x # xs" for b x xs
  proof -
    have ok: "mq_ok {} b" using b(1) by (simp add: mq_idle_def)
    have len: "length x = n" by (rule mq_idle_lists [OF b(1)]) (use b(2) in \<open>metis list.set_intros(1)\<close>)
    have ne: "mq_entry b \<noteq> 0" using mq_entry_msgs [OF ok] b(2) by auto
    obtain b' where "mq_get n b = Some (take n x, b')" "mq_ok {} b'" "same_conf b b'" "mq_msgs b' = xs"
      by (rule mq_get_spec [OF ok b(2)])
    then show ?thesis using ne len b(1) by (auto simp: mq_try_get_def mq_idle_def same_conf_def)
  qed
  show "mq_try_get n b = None" if "mq_idle n b" "mq_msgs b = []" for b
    using that mq_entry_msgs [of "{}" b] by (simp add: mq_try_get_def mq_idle_def unat_eq_zero)
qed

section \<open>Correctness of sending and receiving\<close>

text \<open>\<open>Fs\<close> gives the nodes of each queue that calls interrupted between their critical sections hold.\<close>

definition mq_inv :: "(nat \<Rightarrow> nat set) \<Rightarrow> kernel \<Rightarrow> bool" where
  "mq_inv Fs s \<longleftrightarrow> kernel_inv s \<and> (\<forall>i mq. msgqueues s i = Some mq \<longrightarrow> mq_ok (Fs i) mq)"

lemma mq_invD:
  assumes "mq_inv Fs s"
  shows "kernel_inv s" "msgqueues s i = Some mq \<Longrightarrow> mq_ok (Fs i) mq"
  using assms by (auto simp: mq_inv_def)

lemma mq_inv_frame: "mq_inv Fs s \<Longrightarrow> kernel_inv s' \<Longrightarrow> sched_frame s s' \<Longrightarrow> mq_inv Fs s'"
  by (simp add: mq_inv_def sched_frame_def)

lemma mq_update_wake:
  assumes inv: "mq_inv Fs s" and mq: "msgqueues s i = Some mq" and ok: "mq_ok (Fs i) mq'" and q: "is_waitq q"
    and cur: "rt_current_thread s \<noteq> None"
  obtains s' where "wake_first q (upd_mq i (\<lambda>_. mq') s) = Some s'" "mq_inv Fs s'" "msgqueues s' = (msgqueues s)(i \<mapsto> mq')"
    "queues s' q = tl (queues s q)" "queues s q \<noteq> [] \<longrightarrow> awake s s' (hd (queues s q))"
proof -
  let ?s = "upd_mq i (\<lambda>_. mq') s"
  have same: "same_sched s ?s" "timers_frame s ?s" by (simp_all add: same_sched_def upd_mq_def)
  obtain s' where s': "wake_first q ?s = Some s'" "kernel_inv s'" "sched_frame ?s s'"
    "queues s' q = tl (queues s q)" "queues s q \<noteq> [] \<longrightarrow> awake s s' (hd (queues s q))"
    by (rule wake_after_update [OF mq_invD(1) [OF inv] same q cur])
  have m': "msgqueues s' = (msgqueues s)(i \<mapsto> mq')" using s'(3) mq by (simp add: sched_frame_def upd_mq_def)
  then have "mq_inv Fs s'" using s'(2) ok inv by (auto simp: mq_inv_def split: if_splits)
  then show thesis using that [OF s'(1)] m' s'(4,5) by simp
qed

text \<open>C13. \<^verbatim>\<open>rt_mq_send_wait\<close> on every branch: a message longer than the message size is refused with \<^verbatim>\<open>-RT_ERROR\<close>; when a
  node is free the message is copied into it (the bytes of the node behind it stay), the node becomes the
  last of the queue and the first waiting receiver is woken; otherwise the call returns \<^verbatim>\<open>-RT_EFULL\<close> or
  suspends the caller on the senders' list. The invariant of the linked lists is kept on every branch.\<close>

theorem rt_mq_send_wait_correct:
  assumes "mq_inv Fs s" and "msgqueues s i = Some mq" and "may_block s c" and "time < 0x7fffffff" and "buf \<noteq> []"
  shows "\<exists>s' r. rt_mq_send_wait i buf time s = Some (s', r) \<and> mq_inv Fs s' \<and>
     (unat (msg_size mq) < length buf \<longrightarrow> r = Done (- RT_ERROR) \<and> s' = s) \<and>
     (length buf \<le> unat (msg_size mq) \<and> msg_queue_free mq \<noteq> None \<longrightarrow> r = Done RT_EOK \<and>
        (\<exists>mq' pad. msgqueues s' = (msgqueues s)(i \<mapsto> mq') \<and> mq_msgs mq' = mq_msgs mq @ [buf @ pad] \<and>
           length (buf @ pad) = unat (msg_size mq) \<and> same_conf mq mq') \<and>
        queues s' (MqRecvQ i) = tl (queues s (MqRecvQ i)) \<and>
        (queues s (MqRecvQ i) \<noteq> [] \<longrightarrow> awake s s' (hd (queues s (MqRecvQ i))))) \<and>
     (length buf \<le> unat (msg_size mq) \<and> msg_queue_free mq = None \<and> time = 0 \<longrightarrow> r = Done (- RT_EFULL) \<and> s' = s) \<and>
     (length buf \<le> unat (msg_size mq) \<and> msg_queue_free mq = None \<and> time \<noteq> 0 \<longrightarrow> r = Waiting \<and>
        msgqueues s' = msgqueues s \<and> blocked s s' (MqSendQ i) c (mq_flag mq) time)"
proof -
  have ok: "mq_ok (Fs i) mq" by (rule mq_invD(2) [OF assms(1,2)])
  then have ty: "rt_object_get_type (mq_type mq) = RT_Object_Class_MessageQueue" "mq_flag mq = 0 \<or> mq_flag mq = 1"
    by (simp_all add: mq_ok_def)
  have ctx: "rt_current_thread s = Some c" "rt_interrupt_nest s = 0" "rt_current_thread s \<noteq> None"
    using assms(3) by (simp_all add: may_block_def)
  have wq: "is_waitq (MqSendQ i)" "is_waitq (MqRecvQ i)" by (simp_all add: is_waitq_def)
  consider (long) "unat (msg_size mq) < length buf" | (room) "length buf \<le> unat (msg_size mq)" "msg_queue_free mq \<noteq> None"
    | (poll) "length buf \<le> unat (msg_size mq)" "msg_queue_free mq = None" "time = 0"
    | (block) "length buf \<le> unat (msg_size mq)" "msg_queue_free mq = None" "time \<noteq> 0" by linarith
  then show ?thesis
  proof cases
    case long
    then show ?thesis using assms(1,2,5) ty(1) by (simp add: rt_mq_send_wait_def)
  next
    case room
    obtain mq' pad where mq': "mq_put buf mq = Some (mq', RT_EOK)" "mq_ok (Fs i) mq'" "same_conf mq mq'"
      "mq_msgs mq' = mq_msgs mq @ [buf @ pad]" "length (buf @ pad) = unat (msg_size mq)"
      by (rule mq_put_spec [OF ok room(2,1)])
    obtain s' where s': "wake_first (MqRecvQ i) (upd_mq i (\<lambda>_. mq') s) = Some s'" "mq_inv Fs s'"
      "msgqueues s' = (msgqueues s)(i \<mapsto> mq')" "queues s' (MqRecvQ i) = tl (queues s (MqRecvQ i))"
      "queues s (MqRecvQ i) \<noteq> [] \<longrightarrow> awake s s' (hd (queues s (MqRecvQ i)))"
      by (rule mq_update_wake [OF assms(1,2) mq'(2) wq(2) ctx(3)])
    have "rt_mq_send_wait i buf time s = Some (s', Done RT_EOK)"
      using assms(2,5) ty(1) room mq'(1) s'(1) by (auto simp: rt_mq_send_wait_def mq_send_pass_def)
    then show ?thesis using room s'(2-5) mq'(3-5) by (intro exI [of _ s'] exI [of _ "Done RT_EOK"]) auto
  next
    case poll
    then show ?thesis using assms(1,2,5) ty(1) by (simp add: rt_mq_send_wait_def)
  next
    case block
    obtain s2 s' where s': "ipc_wait (MqSendQ i) c (mq_flag mq) time (upd_thread c (th_error_update (\<lambda>_. RT_EOK)) s) = Some s2"
      "rt_schedule s2 = Some s'" "kernel_inv s'" "sched_frame s s'" "blocked s s' (MqSendQ i) c (mq_flag mq) time"
      by (rule block_spec [OF mq_invD(1) [OF assms(1)] assms(3) wq(1) ty(2) assms(4)])
    have "rt_mq_send_wait i buf time s = Some (s', Waiting)"
      using assms(2,5) ty(1) block s'(1,2) ctx(1,2)
      by (simp add: rt_mq_send_wait_def mq_send_pass_def rt_context_defs upd_thread_def)
    moreover have "msgqueues s' = msgqueues s" using s'(4) by (simp add: sched_frame_def)
    ultimately show ?thesis using block s'(5) mq_inv_frame [OF assms(1) s'(3,4)] by auto
  qed
qed

text \<open>C14. \<^verbatim>\<open>rt_mq_recv\<close> on every branch: the first message is delivered, cut to the size of the caller's buffer, its node
  goes to the free list and the first waiting sender is woken; an empty queue gives \<^verbatim>\<open>-RT_ETIMEOUT\<close> when
  there is no waiting time, and otherwise the caller is suspended on the receivers' list.\<close>

theorem rt_mq_recv_correct:
  assumes "mq_inv Fs s" and "msgqueues s i = Some mq" and "may_block s c" and "time < 0x7fffffff" and "n \<noteq> 0"
  shows "\<exists>s' r. rt_mq_recv i n time s = Some (s', r) \<and> mq_inv Fs s' \<and>
     (\<forall>msg msgs. mq_msgs mq = msg # msgs \<longrightarrow> r = Done (RT_EOK, Some (take n msg)) \<and>
        (\<exists>mq'. msgqueues s' = (msgqueues s)(i \<mapsto> mq') \<and> mq_msgs mq' = msgs \<and> same_conf mq mq' \<and>
           msg_queue_free mq' \<noteq> None) \<and>
        queues s' (MqSendQ i) = tl (queues s (MqSendQ i)) \<and>
        (queues s (MqSendQ i) \<noteq> [] \<longrightarrow> awake s s' (hd (queues s (MqSendQ i))))) \<and>
     (mq_msgs mq = [] \<and> time = 0 \<longrightarrow> r = Done (- RT_ETIMEOUT, None) \<and> s' = s) \<and>
     (mq_msgs mq = [] \<and> time \<noteq> 0 \<longrightarrow> r = Waiting \<and> msgqueues s' = msgqueues s \<and>
        blocked s s' (MqRecvQ i) c (mq_flag mq) time)"
proof -
  have ok: "mq_ok (Fs i) mq" by (rule mq_invD(2) [OF assms(1,2)])
  then have ty: "rt_object_get_type (mq_type mq) = RT_Object_Class_MessageQueue" "mq_flag mq = 0 \<or> mq_flag mq = 1"
    by (simp_all add: mq_ok_def)
  have ctx: "rt_current_thread s = Some c" "rt_interrupt_nest s = 0" "rt_current_thread s \<noteq> None"
    using assms(3) by (simp_all add: may_block_def)
  have wq: "is_waitq (MqSendQ i)" "is_waitq (MqRecvQ i)" by (simp_all add: is_waitq_def)
  have empty: "mq_msgs mq = [] \<longleftrightarrow> mq_entry mq = 0" using mq_entry_msgs [OF ok] by (metis length_0_conv unat_eq_zero)
  consider (some) msg msgs where "mq_msgs mq = msg # msgs" | (poll) "mq_msgs mq = []" "time = 0"
    | (block) "mq_msgs mq = []" "time \<noteq> 0" by (cases "mq_msgs mq") blast+
  then show ?thesis
  proof cases
    case some
    obtain mq' where mq': "mq_get n mq = Some (take n msg, mq')" "mq_ok (Fs i) mq'" "same_conf mq mq'" "mq_msgs mq' = msgs"
      "msg_queue_free mq' \<noteq> None" by (rule mq_get_spec [OF ok some])
    obtain s' where s': "wake_first (MqSendQ i) (upd_mq i (\<lambda>_. mq') s) = Some s'" "mq_inv Fs s'"
      "msgqueues s' = (msgqueues s)(i \<mapsto> mq')" "queues s' (MqSendQ i) = tl (queues s (MqSendQ i))"
      "queues s (MqSendQ i) \<noteq> [] \<longrightarrow> awake s s' (hd (queues s (MqSendQ i)))"
      by (rule mq_update_wake [OF assms(1,2) mq'(2) wq(1) ctx(3)])
    have "rt_mq_recv i n time s = Some (s', Done (RT_EOK, Some (take n msg)))"
      using assms(2,5) ty(1) some empty mq'(1) s'(1) by (simp add: rt_mq_recv_def mq_recv_pass_def)
    then show ?thesis using some s'(2-5) mq'(3-5) by (intro exI [of _ s'] exI [of _ "Done (RT_EOK, Some (take n msg))"]) auto
  next
    case poll
    then show ?thesis using assms(1,2,5) ty(1) empty by (simp add: rt_mq_recv_def)
  next
    case block
    obtain s2 s' where s': "ipc_wait (MqRecvQ i) c (mq_flag mq) time (upd_thread c (th_error_update (\<lambda>_. RT_EOK)) s) = Some s2"
      "rt_schedule s2 = Some s'" "kernel_inv s'" "sched_frame s s'" "blocked s s' (MqRecvQ i) c (mq_flag mq) time"
      by (rule block_spec [OF mq_invD(1) [OF assms(1)] assms(3) wq(2) ty(2) assms(4)])
    have "rt_mq_recv i n time s = Some (s', Waiting)"
      using assms(2,5) ty(1) block empty s'(1,2) ctx(1,2)
      by (simp add: rt_mq_recv_def mq_recv_pass_def rt_context_defs upd_thread_def)
    moreover have "msgqueues s' = msgqueues s" using s'(4) by (simp add: sched_frame_def)
    ultimately show ?thesis using block s'(5) mq_inv_frame [OF assms(1) s'(3,4)] by auto
  qed
qed

text \<open>C15. \<^verbatim>\<open>rt_mq_urgent\<close> puts the message before all others and wakes the first receiver, or returns \<^verbatim>\<open>-RT_ERROR\<close> for a
  message that is too long and \<^verbatim>\<open>-RT_EFULL\<close> when no node is free, without a change.\<close>

theorem rt_mq_urgent_correct:
  assumes "mq_inv Fs s" and "msgqueues s i = Some mq" and "rt_current_thread s \<noteq> None" and "buf \<noteq> []"
  shows "\<exists>s' r. rt_mq_urgent i buf s = Some (s', r) \<and> mq_inv Fs s' \<and>
     (unat (msg_size mq) < length buf \<longrightarrow> r = - RT_ERROR \<and> s' = s) \<and>
     (length buf \<le> unat (msg_size mq) \<and> msg_queue_free mq = None \<longrightarrow> r = - RT_EFULL \<and> s' = s) \<and>
     (length buf \<le> unat (msg_size mq) \<and> msg_queue_free mq \<noteq> None \<longrightarrow> r = RT_EOK \<and>
        (\<exists>mq' pad. msgqueues s' = (msgqueues s)(i \<mapsto> mq') \<and> mq_msgs mq' = (buf @ pad) # mq_msgs mq \<and>
           length (buf @ pad) = unat (msg_size mq)) \<and>
        (queues s (MqRecvQ i) \<noteq> [] \<longrightarrow> awake s s' (hd (queues s (MqRecvQ i)))))"
proof -
  have ok: "mq_ok (Fs i) mq" by (rule mq_invD(2) [OF assms(1,2)])
  then have ty: "rt_object_get_type (mq_type mq) = RT_Object_Class_MessageQueue" by (simp add: mq_ok_def)
  show ?thesis
  proof (cases "length buf \<le> unat (msg_size mq) \<and> msg_queue_free mq \<noteq> None")
    case True
    then have room: "msg_queue_free mq \<noteq> None" "length buf \<le> unat (msg_size mq)" by blast+
    obtain mq' pad where mq': "mq_put_urgent buf mq = Some (mq', RT_EOK)" "mq_ok (Fs i) mq'" "same_conf mq mq'"
      "mq_msgs mq' = (buf @ pad) # mq_msgs mq" "length (buf @ pad) = unat (msg_size mq)"
      by (rule mq_put_urgent_spec [OF ok room])
    have wq: "is_waitq (MqRecvQ i)" by (simp add: is_waitq_def)
    obtain s' where s': "wake_first (MqRecvQ i) (upd_mq i (\<lambda>_. mq') s) = Some s'" "mq_inv Fs s'"
      "msgqueues s' = (msgqueues s)(i \<mapsto> mq')"
      "queues s (MqRecvQ i) \<noteq> [] \<longrightarrow> awake s s' (hd (queues s (MqRecvQ i)))"
      by (rule mq_update_wake [OF assms(1,2) mq'(2) wq assms(3)])
    have "rt_mq_urgent i buf s = Some (s', RT_EOK)"
      using assms(2,4) ty room mq'(1) s'(1) by (auto simp: rt_mq_urgent_def)
    then show ?thesis using room s'(2-4) mq'(4,5) by (intro exI [of _ s'] exI [of _ RT_EOK]) auto
  next
    case False
    then show ?thesis using assms(1,2,4) ty by (auto simp: rt_mq_urgent_def)
  qed
qed

text \<open>C16. A message queue is a bounded first-in first-out buffer of messages of its message size: whatever the order of
  sends and receives without waiting, the messages come out in the order in which they were accepted, none
  is lost, repeated or invented, and no more are held than there are nodes.\<close>

theorem message_queue_is_fifo:
  assumes "mq_idle n mq" and "\<forall>buf. Put buf \<in> set ops \<longrightarrow> length buf = n"
    and "fifo_run mq_try_put (mq_try_get n) ops mq = (accepted, delivered, mq')"
  shows "mq_idle n mq' \<and> mq_msgs mq @ accepted = delivered @ mq_msgs mq' \<and>
     length (mq_msgs mq') \<le> unat (max_msgs mq)"
  using mqf.run_fifo [OF assms] mqf.bounded [of n mq'] by auto

text \<open>The reset of a message queue ends, puts every queued message back on the free list and leaves an empty queue
  that satisfies the invariant; so does the set-up of a new queue in a pool that is large enough.\<close>

theorem mq_drain_empties:
  assumes "mq_ok F mq"
  shows "(\<exists>mq'. mq_drain mq = Some mq' \<and> mq_ok F (mq'\<lparr>mq_entry := 0\<rparr>) \<and> mq_msgs (mq'\<lparr>mq_entry := 0\<rparr>) = [] \<and> same_conf mq mq') \<and>
     (unat (max_msgs mq) * (unat (msg_size mq) + 4) \<le> length msgpool \<longrightarrow>
        mq_ok {} (mq_reset msgpool mq) \<and> mq_msgs (mq_reset msgpool mq) = [])"
proof -
  obtain qs fs where "mq_lists F qs fs mq" using assms by (auto simp: mq_ok_def)
  then have "mq_lists F qs fs (mq\<lparr>mq_entry := mq_entry mq\<rparr>)" by simp
  from mq_drain_spec [OF this] obtain mq' where mq': "mq_drain mq = Some mq'"
    "mq_lists F [] (rev qs @ fs) (mq'\<lparr>mq_entry := 0\<rparr>)" "same_conf mq mq'" by blast
  have "same_conf mq (mq'\<lparr>mq_entry := 0\<rparr>)" using mq'(3) by (simp add: same_conf_def)
  then have "mq_ok F (mq'\<lparr>mq_entry := 0\<rparr>)" by (rule mq_okI [OF assms _ mq'(2)])
  moreover have "mq_msgs (mq'\<lparr>mq_entry := 0\<rparr>) = []" unfolding mq_msgs_def mq_nodes_lists [OF mq'(2)] by simp
  moreover have "mq_ok {} (mq_reset msgpool mq) \<and> mq_msgs (mq_reset msgpool mq) = []"
    if "unat (max_msgs mq) * (unat (msg_size mq) + 4) \<le> length msgpool"
  proof -
    note r = mq_reset_empty [OF that]
    have "mq_ok {} (mq_reset msgpool mq)" by (rule mq_okI [OF assms r(2,1)])
    then show ?thesis unfolding mq_msgs_def mq_nodes_lists [OF r(1)] by simp
  qed
  ultimately show ?thesis using mq'(1,3) by blast
qed

section \<open>A concrete message queue\<close>

text \<open>Two nodes of four bytes, set up in a pool of 16 bytes; thread 3 waits to receive.\<close>

definition demo_conf :: rt_messagequeue where
  "demo_conf = zero_mq\<lparr>mq_type := 0x86, msg_size := 4, max_msgs := 2\<rparr>"

definition demo_msgq :: rt_messagequeue where
  "demo_msgq = mq_reset (replicate 16 0) demo_conf"

definition demo_mq :: kernel where
  "demo_mq = (demo_on (MqRecvQ 0))\<lparr>msgqueues := [0 \<mapsto> demo_msgq]\<rparr>"

lemma demo_msgq_lists: "mq_lists {} [] [1, 0] demo_msgq" "same_conf demo_conf demo_msgq"
  using mq_reset_empty [of demo_conf "replicate 16 0"]
  by (simp_all add: demo_msgq_def demo_conf_def upt_rec)

lemma demo_msgq_fields: "msg_size demo_msgq = 4" "max_msgs demo_msgq = 2" "msg_queue_free demo_msgq = Some 1"
  "mq_msgs demo_msgq = []" "mq_flag demo_msgq = 0" "rt_object_get_type (mq_type demo_msgq) = RT_Object_Class_MessageQueue"
  using demo_msgq_lists unfolding mq_msgs_def mq_nodes_lists [OF demo_msgq_lists(1)]
  by (simp_all add: mq_lists_def same_conf_def demo_conf_def zero_mq_def rt_object_get_type_def)

lemma demo_msgq_ok: "mq_ok {} demo_msgq" "mq_idle 4 demo_msgq"
  using demo_msgq_lists(1) by (auto simp: mq_ok_def mq_idle_def demo_msgq_fields)

lemma demo_mq_inv: "mq_inv (\<lambda>_. {}) demo_mq"
proof -
  have wq: "is_waitq (MqRecvQ 0)" by (simp add: is_waitq_def)
  have "kernel_inv demo_mq" unfolding demo_mq_def
    by (rule kernel_inv_same_objects [OF demo_on_inv [OF wq]]) (simp_all add: same_sched_def)
  then show ?thesis using demo_msgq_ok(1) by (simp add: mq_inv_def demo_mq_def)
qed

lemma demo_mq_fields: "msgqueues demo_mq = [0 \<mapsto> demo_msgq]" "queues demo_mq (MqRecvQ 0) = [3]" "may_block demo_mq 1"
  "rt_current_thread demo_mq = Some 1"
  by (simp_all add: demo_mq_def may_block_def)

theorem rt_mq_send_wait_correct_witness:
  "\<exists>s' r mq' pad. rt_mq_send_wait 0 [1, 2, 3] 10 demo_mq = Some (s', r) \<and> r = Done RT_EOK \<and>
     msgqueues s' 0 = Some mq' \<and> mq_msgs mq' = [[1, 2, 3] @ pad] \<and> queues s' (MqRecvQ 0) = []"
  using rt_mq_send_wait_correct [OF demo_mq_inv, of 0 demo_msgq 1 10 "[1, 2, 3]"]
  by (auto simp: demo_mq_fields demo_msgq_fields simp del: One_nat_def)

theorem rt_mq_recv_correct_witness:
  "\<exists>s' r. rt_mq_recv 0 4 10 demo_mq = Some (s', r) \<and> mq_inv (\<lambda>_. {}) s' \<and> r = Waiting \<and>
     blocked demo_mq s' (MqRecvQ 0) 1 0 10"
  using rt_mq_recv_correct [OF demo_mq_inv, of 0 demo_msgq 1 10 4]
  by (auto simp: demo_mq_fields demo_msgq_fields simp del: One_nat_def)

theorem rt_mq_urgent_correct_witness:
  "\<exists>s' mq' pad. rt_mq_urgent 0 [9] demo_mq = Some (s', RT_EOK) \<and> msgqueues s' 0 = Some mq' \<and>
     mq_msgs mq' = [[9] @ pad] \<and> length pad = 3"
  using rt_mq_urgent_correct [OF demo_mq_inv, of 0 demo_msgq "[9]"]
  by (auto simp: demo_mq_fields demo_msgq_fields)

theorem message_queue_is_fifo_witness:
  "\<exists>ins outs mq'. fifo_run mq_try_put (mq_try_get 4) [Put [1, 2, 3, 4], Get, Put [5, 6, 7, 8]] demo_msgq = (ins, outs, mq') \<and>
     mq_idle 4 mq' \<and> ins = outs @ mq_msgs mq'"
proof -
  let ?ops = "[Put [1, 2, 3, 4], Get, Put [5, 6, 7, 8]] :: u8 list fifo_op list"
  obtain ins outs mq' where r: "fifo_run mq_try_put (mq_try_get 4) ?ops demo_msgq = (ins, outs, mq')"
    by (metis prod_cases3)
  have "\<forall>buf. Put buf \<in> set ?ops \<longrightarrow> length buf = 4" by auto
  from message_queue_is_fifo [OF demo_msgq_ok(2) this r] r show ?thesis by (simp add: demo_msgq_fields)
qed

theorem mq_drain_empties_witness:
  "\<exists>mq'. mq_drain demo_msgq = Some mq' \<and> mq_msgs (mq'\<lparr>mq_entry := 0\<rparr>) = []"
  using mq_drain_empties [OF demo_msgq_ok(1), of "[]"] by blast

end
