(* ===== verification/Mempool.thy ===== *)
theory Mempool
  imports Ipc
begin

text \<open>
  The memory pools of \<^verbatim>\<open>rt-thread/src/mempool.c\<close>: blocks of equal size, each with a word in front that
  links the free blocks and holds the address of the pool while the block is allocated. The words are
  \<open>pool_mem\<close> of the kernel state, by address; reading one as what it is not is \<open>None\<close>.
\<close>

section \<open>Operations\<close>

definition upd_mp :: "nat \<Rightarrow> (rt_mempool \<Rightarrow> rt_mempool) \<Rightarrow> kernel \<Rightarrow> kernel" where
  [rt_defs]: "upd_mp i f s = s\<lparr>mempools := (mempools s)(i := map_option f (mempools s i))\<rparr>"

definition zero_mp :: rt_mempool where
  "zero_mp = \<lparr>mp_type = 0, start_address = 0, mp_size = 0, mp_block_size = 0, block_list = 0,
     block_total_count = 0, block_free_count = 0\<rparr>"

definition touch_mp :: "nat \<Rightarrow> kernel \<Rightarrow> kernel" where
  "touch_mp i s = (case mempools s i of None \<Rightarrow> s\<lparr>mempools := (mempools s)(i \<mapsto> zero_mp)\<rparr> | Some _ \<Rightarrow> s)"

text \<open>
  The loop that links the blocks, and the write of \<^verbatim>\<open>RT_NULL\<close> to block \<^verbatim>\<open>offset - 1\<close> behind it, where
  \<^verbatim>\<open>offset\<close> is the number of blocks.
\<close>

definition mp_link_blocks :: "u32 \<Rightarrow> u32 \<Rightarrow> nat \<Rightarrow> (u32 \<Rightarrow> pool_word option) \<Rightarrow> u32 \<Rightarrow> pool_word option" where
  "mp_link_blocks start step n mem =
     fold (\<lambda>k m. m(start + of_nat k * step \<mapsto> FreeLink (start + of_nat (Suc k) * step))) [0..<n] mem"

definition mp_link_all :: "u32 \<Rightarrow> u32 \<Rightarrow> u32 \<Rightarrow> (u32 \<Rightarrow> pool_word option) \<Rightarrow> u32 \<Rightarrow> pool_word option" where
  "mp_link_all start step cnt mem =
     (mp_link_blocks start step (unat cnt) mem)(start + (cnt - 1) * step \<mapsto> FreeLink 0)"

definition rt_mp_init :: "nat \<Rightarrow> string \<Rightarrow> u32 \<Rightarrow> u32 \<Rightarrow> u32 \<Rightarrow> kernel \<Rightarrow> (kernel \<times> rt_err_t) option" where
  "rt_mp_init i name start sz b_size s = do {
     rt_assert (start \<noteq> 0);
     rt_assert (0 < sz \<and> 0 < b_size);
     s1 \<leftarrow> rt_object_init (MpObj i) RT_Object_Class_MemPool name (touch_mp i s);
     let size' = RT_ALIGN_DOWN sz RT_ALIGN_SIZE;
     let bs = RT_ALIGN b_size RT_ALIGN_SIZE;
     rt_assert (bs + 4 \<noteq> 0);
     let cnt = size' div (bs + 4);
     let s2 = upd_mp i (\<lambda>mp. mp\<lparr>start_address := start, mp_size := size', mp_block_size := bs,
                block_total_count := cnt, block_free_count := cnt, block_list := start\<rparr>) s1;
     Some (s2\<lparr>queues := (queues s2)(MpQ i := []), pool_mem := mp_link_all start (bs + 4) cnt (pool_mem s2)\<rparr>, RT_EOK) }"

definition rt_mp_detach :: "nat \<Rightarrow> kernel \<Rightarrow> (kernel \<times> rt_err_t) option" where
  "rt_mp_detach i s = do {
     mp \<leftarrow> mempools s i;
     rt_assert (rt_object_get_type (mp_type mp) = RT_Object_Class_MemPool);
     rt_assert (rt_object_is_systemobject (mp_type mp));
     s1 \<leftarrow> rt_ipc_list_resume_all (MpQ i) s;
     Some (rt_object_detach (MpObj i) s1, RT_EOK) }"

text \<open>\<open>mem\<close> and \<open>room\<close> are the results of the two allocations, \<open>room\<close> an address.\<close>

definition rt_mp_create :: "nat option \<Rightarrow> u32 \<Rightarrow> string \<Rightarrow> u32 \<Rightarrow> u32 \<Rightarrow> kernel \<Rightarrow> (kernel \<times> nat option) option" where
  "rt_mp_create mem room name count b_size s = do {
     RT_DEBUG_NOT_IN_INTERRUPT s;
     rt_assert (0 < count \<and> 0 < b_size);
     let s0 = (case mem of None \<Rightarrow> s | Some i \<Rightarrow> s\<lparr>mempools := (mempools s)(i \<mapsto> zero_mp)\<rparr>);
     (s1, _) \<leftarrow> rt_object_allocate (map_option MpObj mem) RT_Object_Class_MemPool name s0;
     case mem of None \<Rightarrow> Some (s1, None)
     | Some i \<Rightarrow> (let bs = RT_ALIGN b_size RT_ALIGN_SIZE;
                      s2 = upd_mp i (\<lambda>mp. mp\<lparr>mp_block_size := bs, mp_size := (bs + 4) * count, start_address := room\<rparr>) s1
         in if room = 0 then do { s3 \<leftarrow> rt_object_delete (MpObj i) s2; Some (s3, None) }
            else let s3 = upd_mp i (\<lambda>mp. mp\<lparr>block_total_count := count, block_free_count := count, block_list := room\<rparr>) s2
                 in Some (s3\<lparr>queues := (queues s3)(MpQ i := []), pool_mem := mp_link_all room (bs + 4) count (pool_mem s3)\<rparr>,
                      Some i)) }"

definition rt_mp_delete :: "nat \<Rightarrow> kernel \<Rightarrow> (kernel \<times> rt_err_t) option" where
  "rt_mp_delete i s = do {
     RT_DEBUG_NOT_IN_INTERRUPT s;
     mp \<leftarrow> mempools s i;
     rt_assert (rt_object_get_type (mp_type mp) = RT_Object_Class_MemPool);
     rt_assert (\<not> rt_object_is_systemobject (mp_type mp));
     s1 \<leftarrow> rt_ipc_list_resume_all (MpQ i) s;
     s2 \<leftarrow> rt_object_delete (MpObj i) s1;
     Some (s2, RT_EOK) }"

text \<open>Taking a block off the free list.\<close>

definition mp_take :: "nat \<Rightarrow> rt_mempool \<Rightarrow> (u32 \<Rightarrow> pool_word option) \<Rightarrow>
    (u32 \<times> rt_mempool \<times> (u32 \<Rightarrow> pool_word option)) option" where
  "mp_take i mp mem = do {
     let b = block_list mp;
     rt_assert (b \<noteq> 0);
     link \<leftarrow> (case mem b of Some (FreeLink n) \<Rightarrow> Some n | _ \<Rightarrow> None);
     Some (b, mp\<lparr>block_free_count := block_free_count mp - 1, block_list := link\<rparr>, mem(b \<mapsto> Owner i)) }"

text \<open>The thread is put in front of those that wait, \<^verbatim>\<open>rt_list_insert_after(&(mp->suspend_thread), ..)\<close>.\<close>

definition mp_wait :: "nat \<Rightarrow> tid \<Rightarrow> int \<Rightarrow> kernel \<Rightarrow> kernel option" where
  "mp_wait i t time s = do {
     (s1, _) \<leftarrow> rt_thread_suspend t s;
     let s2 = list_insert_after (MpQ i) t s1;
     if 0 < time then start_thread_timer t (word_of_int time) s2 else Some s2 }"

text \<open>The result is the address of the block, \<open>None\<close> for \<^verbatim>\<open>RT_NULL\<close>.\<close>

definition mp_alloc_pass :: "nat \<Rightarrow> int \<Rightarrow> kernel \<Rightarrow> (kernel \<times> u32 option call) option" where
  "mp_alloc_pass i time s = do {
     mp \<leftarrow> mempools s i;
     if block_free_count mp = 0
     then if time = 0 then Some (rt_set_errno (- RT_ETIMEOUT) s, Done None)
          else do {
            RT_DEBUG_NOT_IN_INTERRUPT s;
            t \<leftarrow> rt_thread_self s;
            s1 \<leftarrow> mp_wait i t time (upd_thread t (th_error_update (\<lambda>_. RT_EOK)) s);
            s2 \<leftarrow> rt_schedule s1;
            Some (s2, Waiting) }
     else do {
       (b, mp', mem') \<leftarrow> mp_take i mp (pool_mem s);
       Some ((upd_mp i (\<lambda>_. mp') s)\<lparr>pool_mem := mem'\<rparr>, Done (Some (b + 4))) } }"

definition rt_mp_alloc :: "nat \<Rightarrow> int \<Rightarrow> kernel \<Rightarrow> (kernel \<times> u32 option call) option" where
  "rt_mp_alloc i time s = mp_alloc_pass i time s"

definition rt_mp_alloc_return :: "nat \<Rightarrow> int \<Rightarrow> u32 \<Rightarrow> tid \<Rightarrow> kernel \<Rightarrow> (kernel \<times> u32 option call) option" where
  "rt_mp_alloc_return i time before_sleep t s = do {
     th \<leftarrow> threads s t;
     if th_error th \<noteq> RT_EOK then Some (s, Done None)
     else mp_alloc_pass i (remaining_time time before_sleep (rt_tick_get s)) s }"

definition mp_give :: "u32 \<Rightarrow> rt_mempool \<Rightarrow> (u32 \<Rightarrow> pool_word option) \<Rightarrow> rt_mempool \<times> (u32 \<Rightarrow> pool_word option)" where
  "mp_give b mp mem =
     (mp\<lparr>block_free_count := block_free_count mp + 1, block_list := b\<rparr>, mem(b \<mapsto> FreeLink (block_list mp)))"

definition rt_mp_free :: "u32 \<Rightarrow> kernel \<Rightarrow> kernel option" where
  "rt_mp_free block s = (if block = 0 then Some s else do {
     let b = block - 4;
     i \<leftarrow> (case pool_mem s b of Some (Owner i) \<Rightarrow> Some i | _ \<Rightarrow> None);
     mp \<leftarrow> mempools s i;
     let (mp', mem') = mp_give b mp (pool_mem s);
     let s1 = (upd_mp i (\<lambda>_. mp') s)\<lparr>pool_mem := mem'\<rparr>;
     case queues s1 (MpQ i) of
       [] \<Rightarrow> Some s1
     | t # _ \<Rightarrow> do {
         (s2, _) \<leftarrow> rt_thread_resume t (upd_thread t (th_error_update (\<lambda>_. RT_EOK)) s1);
         rt_schedule s2 } })"

section \<open>The free list\<close>

fun free_chain :: "(u32 \<Rightarrow> pool_word option) \<Rightarrow> u32 \<Rightarrow> u32 list \<Rightarrow> bool" where
  "free_chain mem p [] \<longleftrightarrow> p = 0"
| "free_chain mem p (b # bs) \<longleftrightarrow> p = b \<and> b \<noteq> 0 \<and>
     (case mem b of Some (FreeLink n) \<Rightarrow> free_chain mem n bs | _ \<Rightarrow> False)"

lemma free_chain_upd [simp]: "b \<notin> set bs \<Longrightarrow> free_chain (mem(b \<mapsto> w)) p bs = free_chain mem p bs"
  by (induction bs arbitrary: p) (auto split: option.splits pool_word.splits)

lemma free_chain_cong: "(\<And>b. b \<in> set bs \<Longrightarrow> mem' b = mem b) \<Longrightarrow> free_chain mem' p bs = free_chain mem p bs"
  by (induction bs arbitrary: p) (auto split: option.splits pool_word.splits)

definition mp_step :: "rt_mempool \<Rightarrow> u32" where
  "mp_step mp = mp_block_size mp + 4"

text \<open>The addresses of the blocks' first words.\<close>

definition mp_block :: "rt_mempool \<Rightarrow> nat \<Rightarrow> u32" where
  "mp_block mp k = start_address mp + of_nat k * mp_step mp"

definition mp_blocks :: "rt_mempool \<Rightarrow> u32 set" where
  "mp_blocks mp = mp_block mp ` {..<unat (block_total_count mp)}"

text \<open>The pool lies in the address space, from an address other than 0.\<close>

definition mp_fits :: "rt_mempool \<Rightarrow> bool" where
  "mp_fits mp \<longleftrightarrow> start_address mp \<noteq> 0 \<and> 4 \<le> unat (mp_step mp) \<and>
     unat (start_address mp) + unat (block_total_count mp) * unat (mp_step mp) \<le> 2 ^ 32"

definition mp_lists :: "(u32 \<Rightarrow> pool_word option) \<Rightarrow> nat \<Rightarrow> u32 list \<Rightarrow> rt_mempool \<Rightarrow> bool" where
  "mp_lists mem i fs mp \<longleftrightarrow> mp_fits mp \<and> free_chain mem (block_list mp) fs \<and> distinct fs \<and> set fs \<subseteq> mp_blocks mp \<and>
     unat (block_free_count mp) = length fs \<and> (\<forall>b\<in>mp_blocks mp - set fs. mem b = Some (Owner i))"

lemma mp_block_unat:
  assumes "mp_fits mp" and "k < unat (block_total_count mp)"
  shows "unat (mp_block mp k) = unat (start_address mp) + k * unat (mp_step mp)"
proof -
  let ?st = "unat (mp_step mp)"
  have "Suc k * ?st \<le> unat (block_total_count mp) * ?st" using assms(2) by (intro mult_le_mono1) simp
  then have b: "unat (start_address mp) + k * ?st < 2 ^ 32" "k < 2 ^ 32"
    using assms unat_u32_less [of "block_total_count mp"] by (simp_all add: mp_fits_def)
  then have "unat (of_nat k * mp_step mp) = k * ?st" by (simp add: unat_word_ariths unat_of_nat)
  then show ?thesis using b(1) by (simp add: mp_block_def unat_word_ariths)
qed

lemma mp_block_inj:
  assumes "mp_fits mp" and "k < unat (block_total_count mp)" and "l < unat (block_total_count mp)"
    and "mp_block mp k = mp_block mp l"
  shows "k = l"
proof -
  have "k * unat (mp_step mp) = l * unat (mp_step mp)"
    using arg_cong [OF assms(4), of unat] mp_block_unat [OF assms(1,2)] mp_block_unat [OF assms(1,3)] by simp
  moreover have "0 < unat (mp_step mp)" using assms(1) by (simp add: mp_fits_def)
  ultimately show ?thesis by simp
qed

lemma mp_block_nonzero:
  assumes "mp_fits mp" and "k < unat (block_total_count mp)"
  shows "mp_block mp k \<noteq> 0"
proof
  assume z: "mp_block mp k = 0"
  have "unat (start_address mp) + k * unat (mp_step mp) = 0" using mp_block_unat [OF assms] unfolding z by simp
  then show False using assms(1) by (simp add: mp_fits_def unat_eq_zero)
qed

lemma card_mp_blocks: "mp_fits mp \<Longrightarrow> card (mp_blocks mp) = unat (block_total_count mp)"
  unfolding mp_blocks_def by (subst card_image) (auto intro: inj_onI mp_block_inj)

lemma mp_blocks_frame:
  assumes "start_address mp' = start_address mp" and "mp_block_size mp' = mp_block_size mp"
    and "block_total_count mp' = block_total_count mp"
  shows "mp_blocks mp' = mp_blocks mp" "mp_fits mp' = mp_fits mp"
  using assms by (simp_all add: mp_blocks_def mp_block_def mp_step_def mp_fits_def)

text \<open>A pool keeps its place and its blocks.\<close>

definition same_pool :: "rt_mempool \<Rightarrow> rt_mempool \<Rightarrow> bool" where
  "same_pool mp mp' \<longleftrightarrow> mp_type mp' = mp_type mp \<and> start_address mp' = start_address mp \<and>
     mp_block_size mp' = mp_block_size mp \<and> block_total_count mp' = block_total_count mp"

lemma same_pool_blocks: "same_pool mp mp' \<Longrightarrow> mp_blocks mp' = mp_blocks mp"
  by (rule mp_blocks_frame(1)) (simp_all add: same_pool_def)

lemma mp_take_spec:
  assumes l: "mp_lists mem i (b # fs) mp"
  obtains mp' where "mp_take i mp mem = Some (b, mp', mem(b \<mapsto> Owner i))" "mp_lists (mem(b \<mapsto> Owner i)) i fs mp'"
    "same_pool mp mp'" "block_free_count mp' = block_free_count mp - 1"
proof -
  have c: "free_chain mem (block_list mp) (b # fs)" "b \<notin> set fs" "b \<in> mp_blocks mp" using l by (simp_all add: mp_lists_def)
  then obtain n where n: "mem b = Some (FreeLink n)" "free_chain mem n fs" "block_list mp = b" "b \<noteq> 0"
    by (auto split: option.splits pool_word.splits)
  let ?mp = "mp\<lparr>block_free_count := block_free_count mp - 1, block_list := n\<rparr>"
  have bl: "mp_blocks ?mp = mp_blocks mp" "mp_fits ?mp = mp_fits mp" by (rule mp_blocks_frame; simp)+
  have cnt: "unat (block_free_count mp) = Suc (length fs)" using l by (simp add: mp_lists_def)
  then have "block_free_count mp \<noteq> 0" by auto
  then have "unat (block_free_count mp - 1) = length fs" using cnt by (simp add: unat_minus_one)
  then have "mp_lists (mem(b \<mapsto> Owner i)) i fs ?mp" using l c(2) n(2) by (auto simp: mp_lists_def bl)
  moreover have "mp_take i mp mem = Some (b, ?mp, mem(b \<mapsto> Owner i))" using n by (simp add: mp_take_def)
  ultimately show thesis by (intro that [of ?mp]) (simp_all add: same_pool_def)
qed

lemma mp_give_spec:
  assumes l: "mp_lists mem i fs mp" and b: "b \<in> mp_blocks mp" "mem b = Some (Owner i)"
  obtains mp' where "mp_give b mp mem = (mp', mem(b \<mapsto> FreeLink (block_list mp)))"
    "mp_lists (mem(b \<mapsto> FreeLink (block_list mp))) i (b # fs) mp'" "same_pool mp mp'"
    "unat (block_free_count mp') = Suc (unat (block_free_count mp))"
proof -
  have nb: "b \<notin> set fs"
  proof
    assume "b \<in> set fs"
    moreover have "free_chain mem p fs \<Longrightarrow> b \<in> set fs \<Longrightarrow> mem b \<noteq> Some (Owner i)" for p fs
      by (induction fs arbitrary: p) (auto split: option.splits pool_word.splits)
    ultimately show False using l b(2) by (auto simp: mp_lists_def)
  qed
  let ?mp = "mp\<lparr>block_free_count := block_free_count mp + 1, block_list := b\<rparr>"
  have bl: "mp_blocks ?mp = mp_blocks mp" "mp_fits ?mp = mp_fits mp" by (rule mp_blocks_frame; simp)+
  have fits: "mp_fits mp" "distinct fs" "set fs \<subseteq> mp_blocks mp - {b}" using l nb by (auto simp: mp_lists_def)
  have "finite (mp_blocks mp)" by (simp add: mp_blocks_def)
  then have "length fs < card (mp_blocks mp)"
    using fits(2,3) b(1) by (metis card_Diff1_less card_mono distinct_card finite_Diff order_le_less_trans)
  then have "length fs < unat (block_total_count mp)" using card_mp_blocks [OF fits(1)] by simp
  then have lt: "Suc (unat (block_free_count mp)) < 2 ^ 32"
    using l unat_u32_less [of "block_total_count mp"] by (simp add: mp_lists_def)
  then have cnt: "unat (block_free_count mp + 1) = Suc (unat (block_free_count mp))" by (simp add: unat_word_ariths)
  have nz: "b \<noteq> 0" using b(1) mp_block_nonzero [OF fits(1)] by (auto simp: mp_blocks_def)
  have "mp_lists (mem(b \<mapsto> FreeLink (block_list mp))) i (b # fs) ?mp"
    using l nb b(1) nz cnt by (auto simp: mp_lists_def bl)
  then show thesis using cnt by (intro that [of ?mp]) (simp_all add: mp_give_def same_pool_def)
qed

text \<open>The blocks of a new pool are linked in the order of their addresses.\<close>

lemma mp_link_blocks_apply:
  assumes "mp_fits mp" and "n \<le> unat (block_total_count mp)"
  shows "k < n \<Longrightarrow> mp_link_blocks (start_address mp) (mp_step mp) n mem (mp_block mp k) = Some (FreeLink (mp_block mp (Suc k)))"
  using assms(2)
proof (induction n)
  case (Suc n)
  have "mp_block mp n \<noteq> mp_block mp k" if "k < n" using mp_block_inj [OF assms(1), of n k] that Suc.prems(2) by auto
  then show ?case using Suc
    by (cases "k = n") (auto simp: mp_link_blocks_def mp_block_def)
qed simp

lemma mp_chain_from:
  assumes "mp_fits mp" and "block_total_count mp \<noteq> 0" and "k \<le> unat (block_total_count mp)"
    and "mem' = mp_link_all (start_address mp) (mp_step mp) (block_total_count mp) mem"
  shows "k < unat (block_total_count mp) \<Longrightarrow> free_chain mem' (mp_block mp k) (map (mp_block mp) [k..<unat (block_total_count mp)])"
  using assms(3)
proof (induction k rule: inc_induct)
  case (step k)
  let ?n = "unat (block_total_count mp)"
  have n0: "0 < ?n" using assms(2) by (simp add: unat_gt_0)
  have last: "start_address mp + (block_total_count mp - 1) * mp_step mp = mp_block mp (?n - 1)"
    using n0 by (simp add: mp_block_def)
  have upt: "[k..<?n] = k # [Suc k..<?n]" using step by (simp add: upt_rec)
  show ?case
  proof (cases "Suc k = ?n")
    case True
    then have "k = ?n - 1" by simp
    then have "mem' (mp_block mp k) = Some (FreeLink 0)" using assms(4) last by (simp add: mp_link_all_def)
    then show ?thesis using mp_block_nonzero [OF assms(1), of k] True by (simp add: upt)
  next
    case False
    then have k: "Suc k < ?n" "k < ?n" using step by simp_all
    have "mp_block mp k \<noteq> mp_block mp (?n - 1)" using mp_block_inj [OF assms(1), of k "?n - 1"] k by auto
    then have "mem' (mp_block mp k) = Some (FreeLink (mp_block mp (Suc k)))"
      using assms(4) last mp_link_blocks_apply [OF assms(1) order_refl k(2), of mem] by (simp add: mp_link_all_def)
    then show ?thesis using mp_block_nonzero [OF assms(1) k(2)] step.IH k by (simp add: upt)
  qed
qed simp

lemma mp_new_pool:
  assumes fits: "mp_fits mp" and n: "block_total_count mp \<noteq> 0" and fresh: "block_free_count mp = block_total_count mp"
    "block_list mp = start_address mp"
  shows "mp_lists (mp_link_all (start_address mp) (mp_step mp) (block_total_count mp) mem) i
     (map (mp_block mp) [0..<unat (block_total_count mp)]) mp"
proof -
  have "0 < unat (block_total_count mp)" using n by (simp add: unat_gt_0)
  then have "free_chain (mp_link_all (start_address mp) (mp_step mp) (block_total_count mp) mem) (mp_block mp 0)
      (map (mp_block mp) [0..<unat (block_total_count mp)])"
    using mp_chain_from [OF fits n _ refl, of 0 mem] by simp
  moreover have "mp_block mp 0 = block_list mp" using fresh(2) by (simp add: mp_block_def)
  moreover have "distinct (map (mp_block mp) [0..<unat (block_total_count mp)])"
  proof -
    have "inj_on (mp_block mp) {0..<unat (block_total_count mp)}" by (rule inj_onI, rule mp_block_inj [OF fits]) auto
    then show ?thesis by (simp add: distinct_map)
  qed
  ultimately show ?thesis using fits fresh by (auto simp: mp_lists_def mp_blocks_def)
qed

text \<open>A pool too small for one block: the terminating \<^verbatim>\<open>RT_NULL\<close> is written in front of the pool.\<close>

lemma mp_link_all_no_block: "mp_link_all start step 0 mem = mem(start - step \<mapsto> FreeLink 0)"
  by (simp add: mp_link_all_def mp_link_blocks_def)

section \<open>Invariant\<close>

text \<open>The blocks handed out, by their first words.\<close>

definition mp_allocated :: "kernel \<Rightarrow> nat \<Rightarrow> u32 set" where
  "mp_allocated s i = (case mempools s i of None \<Rightarrow> {} | Some mp \<Rightarrow> {b \<in> mp_blocks mp. pool_mem s b = Some (Owner i)})"

definition mp_inv :: "kernel \<Rightarrow> bool" where
  "mp_inv s \<longleftrightarrow> kernel_inv s \<and> (\<forall>i mp. mempools s i = Some mp \<longrightarrow> (\<exists>fs. mp_lists (pool_mem s) i fs mp)) \<and>
     (\<forall>i j mp mp'. mempools s i = Some mp \<and> mempools s j = Some mp' \<and> i \<noteq> j \<longrightarrow> mp_blocks mp \<inter> mp_blocks mp' = {})"

lemma mp_invD:
  assumes "mp_inv s"
  shows "kernel_inv s" "mempools s i = Some mp \<Longrightarrow> \<exists>fs. mp_lists (pool_mem s) i fs mp"
    "mempools s i = Some mp \<Longrightarrow> mempools s j = Some mp' \<Longrightarrow> i \<noteq> j \<Longrightarrow> mp_blocks mp \<inter> mp_blocks mp' = {}"
  using assms unfolding mp_inv_def by blast+

lemma mp_inv_frame: "mp_inv s \<Longrightarrow> kernel_inv s' \<Longrightarrow> sched_frame s s' \<Longrightarrow> mp_inv s'"
  by (simp add: mp_inv_def sched_frame_def)

lemma mp_lists_free_member:
  assumes "mp_lists mem i fs mp" and "b \<in> mp_blocks mp"
  shows "mem b = Some (Owner i) \<longleftrightarrow> b \<notin> set fs"
proof -
  have "free_chain mem p fs \<Longrightarrow> b \<in> set fs \<Longrightarrow> mem b \<noteq> Some (Owner i)" for p fs
    by (induction fs arbitrary: p) (auto split: option.splits pool_word.splits)
  then show ?thesis using assms by (auto simp: mp_lists_def)
qed

text \<open>The counter agrees with the blocks handed out.\<close>

lemma mp_count_allocated:
  assumes "mp_lists (pool_mem s) i fs mp" and "mempools s i = Some mp"
  shows "unat (block_free_count mp) + card (mp_allocated s i) = unat (block_total_count mp)"
proof -
  have a: "mp_allocated s i = mp_blocks mp - set fs"
    using mp_lists_free_member [OF assms(1)] assms(2) by (auto simp: mp_allocated_def)
  have f: "finite (mp_blocks mp)" "set fs \<subseteq> mp_blocks mp" "distinct fs" "mp_fits mp" "unat (block_free_count mp) = length fs"
    using assms(1) by (simp_all add: mp_lists_def mp_blocks_def)
  have "card (mp_blocks mp - set fs) + card (set fs) = card (mp_blocks mp)"
    using card_Diff_subset [OF _ f(2)] card_mono [OF f(1,2)] by simp
  then show ?thesis using a f(3,5) card_mp_blocks [OF f(4)] by (simp add: distinct_card)
qed

text \<open>Changing one pool and the word of one of its blocks.\<close>

lemma mp_inv_update:
  assumes inv: "mp_inv s" and mp: "mempools s i = Some mp" and b: "b \<in> mp_blocks mp"
    and new: "mp_lists ((pool_mem s)(b \<mapsto> w)) i fs mp'" "same_pool mp mp'"
    and s': "kernel_inv s'" "mempools s' = (mempools s)(i \<mapsto> mp')" "pool_mem s' = (pool_mem s)(b \<mapsto> w)"
  shows "mp_inv s'"
  unfolding mp_inv_def
proof (intro conjI allI impI)
  have bl: "mp_blocks mp' = mp_blocks mp" by (rule same_pool_blocks [OF new(2)])
  show "\<exists>fs. mp_lists (pool_mem s') j fs mpj" if j: "mempools s' j = Some mpj" for j mpj
  proof (cases "j = i")
    case True
    then show ?thesis using j s'(2,3) new(1) by auto
  next
    case False
    have j': "mempools s j = Some mpj" using j s'(2) False by simp
    then obtain fsj where l: "mp_lists (pool_mem s) j fsj mpj" using mp_invD(2) [OF inv] by blast
    have nb: "b \<notin> mp_blocks mpj" using mp_invD(3) [OF inv mp j'] False b by blast
    then have "b \<notin> set fsj" using l by (auto simp: mp_lists_def)
    then have "mp_lists (pool_mem s') j fsj mpj" using l nb unfolding mp_lists_def s'(3) by auto
    then show ?thesis ..
  qed
  show "mp_blocks m1 \<inter> mp_blocks m2 = {}" if m: "mempools s' j = Some m1 \<and> mempools s' k = Some m2 \<and> j \<noteq> k" for j k m1 m2
  proof -
    have old: "\<exists>m0. mempools s l = Some m0 \<and> mp_blocks m0 = mp_blocks m" if "mempools s' l = Some m" for l m
      using that s'(2) mp bl by (cases "l = i") auto
    obtain n1 n2 where "mempools s j = Some n1" "mp_blocks n1 = mp_blocks m1" "mempools s k = Some n2" "mp_blocks n2 = mp_blocks m2"
      using m old [of j m1] old [of k m2] by blast
    then show ?thesis using mp_invD(3) [OF inv, of j n1 k n2] m by simp
  qed
qed (rule s'(1))

section \<open>Waiting for a block\<close>

lemma mp_wait_spec:
  assumes inv: "kernel_inv s" and may: "may_block s c" and time: "time < 0x7fffffff"
  obtains s2 s' th where "mp_wait i c time (upd_thread c (th_error_update (\<lambda>_. RT_EOK)) s) = Some s2" "rt_schedule s2 = Some s'"
    "kernel_inv s'" "sched_frame s s'" "rt_current_thread s' \<noteq> Some c" "queues s' (MpQ i) = c # queues s (MpQ i)"
    "threads s' c = Some th" "tstate th = RT_THREAD_SUSPEND" "th_error th = RT_EOK"
    "0 < time \<longrightarrow> (\<exists>tm. timers s' (ThreadTimer c) = Some tm \<and> active tm \<and> timeout_tick tm = rt_tick s + word_of_int time)"
proof -
  define s0 where "s0 = upd_thread c (th_error_update (\<lambda>_. RT_EOK)) s"
  obtain cth where c: "rt_current_thread s = Some c" "threads s c = Some cth" "tstate cth = RT_THREAD_RUNNING"
    "rt_scheduler_lock_nest s = 0" "rt_thread_ready_priority_group s \<noteq> 0" using may unfolding may_block_def by blast
  let ?c = "set_state RT_THREAD_SUSPEND (cth\<lparr>th_error := RT_EOK\<rparr>)"
  have inv0: "kernel_inv s0" unfolding s0_def by (rule kernel_inv_upd_inert [OF inv]) simp
  have c0: "rt_current_thread s0 = Some c" "threads s0 c = Some (cth\<lparr>th_error := RT_EOK\<rparr>)" "queues s0 = queues s"
    "sched_frame s s0" "rt_thread_ready_priority_group s0 \<noteq> 0" using c by (simp_all add: s0_def upd_thread_def sched_frame_def)
  obtain s1 where s1: "rt_thread_suspend c s0 = Some (s1, RT_EOK)" "kernel_inv s1" "threads s1 = (threads s0)(c \<mapsto> ?c)"
    "queues s1 = (\<lambda>q. removeAll c (queues s0 q))" "rt_current_thread s1 = rt_current_thread s0" "sched_frame s0 s1"
    by (rule rt_thread_suspend_spec [OF inv0 c0(2)]) (use c(3) in auto)
  have no: "nowhere s0 c" using tcons_running [OF winv_tcons [OF kernel_invD(1) [OF inv0]] c0(2)] c(3) by simp
  then have q1: "queues s1 = queues s" using s1(4) c0(3) by (auto simp: nowhere_def)
  let ?s2 = "list_insert_after (MpQ i) c s1"
  have c1: "threads s1 c = Some ?c" "tstate ?c = RT_THREAD_SUSPEND" "nowhere s1 c"
    using s1(3) no q1 c0(3) by (simp_all add: nowhere_def)
  have wq: "is_waitq (MpQ i)" by (simp add: is_waitq_def)
  have k2: "kernel_inv ?s2" unfolding list_insert_after_def
    by (rule kernel_inv_join_waitq [OF s1(2) c1 wq])
      (use c1(3) winv_queue_ok [OF kernel_invD(1) [OF s1(2)]] in \<open>auto simp: nowhere_def queue_ok_def\<close>)
  have f2: "threads ?s2 = threads s1" "rt_current_thread ?s2 = Some c" "sched_frame s1 ?s2"
    "queues ?s2 = (queues s)(MpQ i := c # queues s (MpQ i))"
    using s1(5) c0(1) q1 by (simp_all add: list_insert_after_def sched_frame_def)
  have c2: "threads ?s2 c = Some ?c" using f2(1) c1(1) by simp
  obtain s3 where s3: "mp_wait i c time s0 = Some s3" "kernel_inv s3" "sched_frame ?s2 s3" "threads s3 = threads ?s2"
    "queues s3 = queues ?s2" "rt_current_thread s3 = Some c"
    "0 < time \<longrightarrow> (\<exists>tm. timers s3 (ThreadTimer c) = Some tm \<and> active tm \<and> timeout_tick tm = rt_tick ?s2 + word_of_int time)"
  proof (cases "0 < time")
    case True
    have t: "(word_of_int time :: u32) < half_tick"
      using True time by (simp add: word_less_alt uint_word_of_int take_bit_eq_mod)
    obtain s3 tm where "start_thread_timer c (word_of_int time) ?s2 = Some s3" "kernel_inv s3" "sched_frame ?s2 s3"
      "same_sched ?s2 s3" "timers s3 (ThreadTimer c) = Some tm" "active tm" "timeout_tick tm = rt_tick ?s2 + word_of_int time"
      by (rule start_thread_timer_spec [OF k2 c2 c1(2) t])
    then show thesis using that [of s3] s1(1) True f2(2) by (simp add: mp_wait_def same_sched_def)
  next
    case False
    then show thesis using that [of ?s2] s1(1) k2 f2(2) by (simp add: mp_wait_def)
  qed
  have f: "sched_frame s s3" using c0(4) s1(6) f2(3) s3(3) sched_frame_trans by blast
  have g3: "rt_thread_ready_priority_group s3 \<noteq> 0"
    by (rule ready_group_waitq [OF kernel_invD(1) [OF inv0] kernel_invD(1) [OF s3(2)] _ c0(5)]) (simp add: s3(5) f2(4) c0(3))
  have c3: "threads s3 c = Some ?c" "rt_scheduler_lock_nest s3 = 0" using s3(4) c2 f c(4) by (simp_all add: sched_frame_def)
  obtain s' where s': "rt_schedule s3 = Some s'" "kernel_inv s'" "rt_current_thread s' \<noteq> Some c" "sched_frame s3 s'"
    "threads s' c = Some ?c" "\<And>q. is_waitq q \<Longrightarrow> queues s' q = queues s3 q" "timers_frame s3 s'"
    by (rule schedule_after_wait [OF s3(2,6) c3(1) c1(2) c3(2) g3]) blast
  have tick: "rt_tick ?s2 = rt_tick s" using f s3(3) by (simp add: sched_frame_def)
  show thesis
    by (rule that [OF _ s'(1,2) sched_frame_trans [OF f s'(4)] s'(3) _ s'(5) c1(2)])
      (use s3(1,5,7) s'(6) [OF wq] s'(7) f2(4) tick in \<open>simp_all add: s0_def\<close>)
qed

section \<open>Correctness\<close>

text \<open>C17. \<^verbatim>\<open>rt_mp_alloc\<close> on every branch: while blocks are free it returns one that was not handed out before (the address
  behind its first word), marks it as handed out and changes no other; with none free it returns
  \<^verbatim>\<open>RT_NULL\<close> and sets \<^verbatim>\<open>-RT_ETIMEOUT\<close> when there is no waiting time, and otherwise suspends the caller at
  the front of the pool's list. The invariant of all pools is kept on every branch.\<close>

theorem rt_mp_alloc_correct:
  assumes "mp_inv s" and "mempools s i = Some mp" and "may_block s c" and "time < 0x7fffffff"
  shows "\<exists>s' r. rt_mp_alloc i time s = Some (s', r) \<and> mp_inv s' \<and>
     (block_free_count mp \<noteq> 0 \<longrightarrow> (\<exists>b\<in>mp_blocks mp - mp_allocated s i. r = Done (Some (b + 4)) \<and>
        pool_mem s' = (pool_mem s)(b \<mapsto> Owner i) \<and> mp_allocated s' i = insert b (mp_allocated s i) \<and>
        (\<exists>mp'. mempools s' = (mempools s)(i \<mapsto> mp') \<and> block_free_count mp' = block_free_count mp - 1))) \<and>
     (block_free_count mp = 0 \<and> time = 0 \<longrightarrow> r = Done None \<and> mempools s' = mempools s \<and> pool_mem s' = pool_mem s \<and>
        (\<exists>th. threads s' c = Some th \<and> th_error th = - RT_ETIMEOUT)) \<and>
     (block_free_count mp = 0 \<and> time \<noteq> 0 \<longrightarrow> r = Waiting \<and> mempools s' = mempools s \<and> pool_mem s' = pool_mem s \<and>
        queues s' (MpQ i) = c # queues s (MpQ i) \<and> rt_current_thread s' \<noteq> Some c \<and>
        (\<exists>th. threads s' c = Some th \<and> tstate th = RT_THREAD_SUSPEND \<and> th_error th = RT_EOK))"
proof -
  note inv = mp_invD(1) [OF assms(1)]
  obtain fs where l: "mp_lists (pool_mem s) i fs mp" using mp_invD(2) [OF assms(1,2)] by blast
  have ctx: "rt_current_thread s = Some c" "rt_interrupt_nest s = 0" using assms(3) by (simp_all add: may_block_def)
  consider (take) b bs where "fs = b # bs" | (poll) "fs = []" "time = 0" | (block) "fs = []" "time \<noteq> 0" by (cases fs) auto
  then show ?thesis
  proof cases
    case take
    have l1: "mp_lists (pool_mem s) i (b # bs) mp" using l take by simp
    obtain mp' where mp': "mp_take i mp (pool_mem s) = Some (b, mp', (pool_mem s)(b \<mapsto> Owner i))"
      "mp_lists ((pool_mem s)(b \<mapsto> Owner i)) i bs mp'" "same_pool mp mp'" "block_free_count mp' = block_free_count mp - 1"
      by (rule mp_take_spec [OF l1])
    define s' where "s' = (upd_mp i (\<lambda>_. mp') s)\<lparr>pool_mem := (pool_mem s)(b \<mapsto> Owner i)\<rparr>"
    have s': "mempools s' = (mempools s)(i \<mapsto> mp')" "pool_mem s' = (pool_mem s)(b \<mapsto> Owner i)"
      using assms(2) by (simp_all add: s'_def upd_mp_def)
    have k: "kernel_inv s'" by (rule kernel_inv_same_objects [OF inv]) (simp_all add: s'_def upd_mp_def same_sched_def)
    have b: "b \<in> mp_blocks mp" "block_free_count mp \<noteq> 0" using l1 by (auto simp: mp_lists_def)
    have "b \<notin> mp_allocated s i" using mp_lists_free_member [OF l1 b(1)] assms(2) by (simp add: mp_allocated_def)
    moreover have "mp_allocated s' i = insert b (mp_allocated s i)"
      using b(1) assms(2) s' same_pool_blocks [OF mp'(3)] by (auto simp: mp_allocated_def)
    moreover have "rt_mp_alloc i time s = Some (s', Done (Some (b + 4)))"
      using assms(2) b(2) mp'(1) by (simp add: rt_mp_alloc_def mp_alloc_pass_def s'_def)
    moreover have "mp_inv s'" by (rule mp_inv_update [OF assms(1,2) b(1) mp'(2,3) k s'])
    ultimately show ?thesis using b s' mp'(4) by blast
  next
    case poll
    let ?s = "upd_thread c (th_error_update (\<lambda>_. - RT_ETIMEOUT)) s"
    have n0: "block_free_count mp = 0" using l poll by (simp add: mp_lists_def unat_eq_zero)
    have "kernel_inv ?s" by (rule kernel_inv_upd_inert [OF inv]) simp
    then have "mp_inv ?s" using mp_inv_frame [OF assms(1)] upd_thread_frame by blast
    moreover have "rt_mp_alloc i time s = Some (?s, Done None)"
      using assms(2) n0 poll(2) ctx by (simp add: rt_mp_alloc_def mp_alloc_pass_def rt_set_errno_def rt_thread_self_def)
    ultimately show ?thesis using n0 poll(2) assms(3) by (auto simp: upd_thread_def may_block_def)
  next
    case block
    have n0: "block_free_count mp = 0" using l block by (simp add: mp_lists_def unat_eq_zero)
    obtain s2 s' th where s': "mp_wait i c time (upd_thread c (th_error_update (\<lambda>_. RT_EOK)) s) = Some s2" "rt_schedule s2 = Some s'"
      "kernel_inv s'" "sched_frame s s'" "rt_current_thread s' \<noteq> Some c" "queues s' (MpQ i) = c # queues s (MpQ i)"
      "threads s' c = Some th" "tstate th = RT_THREAD_SUSPEND" "th_error th = RT_EOK"
      by (rule mp_wait_spec [OF inv assms(3,4)])
    have "rt_mp_alloc i time s = Some (s', Waiting)"
      using assms(2) n0 block(2) ctx s'(1,2) by (simp add: rt_mp_alloc_def mp_alloc_pass_def rt_context_defs)
    then show ?thesis using n0 block(2) s'(4-9) mp_inv_frame [OF assms(1) s'(3,4)] by (auto simp: sched_frame_def)
  qed
qed

text \<open>\<^verbatim>\<open>rt_mp_free\<close> of a block that was handed out makes it free again, the only change to the pools, and wakes the
  first thread on the pool's list with error code \<^verbatim>\<open>RT_EOK\<close>; \<^verbatim>\<open>rt_mp_free(RT_NULL)\<close> does nothing. The
  free count always is the number of blocks not handed out.\<close>

theorem rt_mp_free_correct:
  assumes "mp_inv s" and "mempools s i = Some mp" and "b \<in> mp_allocated s i" and "rt_current_thread s \<noteq> None"
    and "b + 4 \<noteq> 0"
  shows "rt_mp_free 0 s = Some s \<and> (\<exists>s' mp'. rt_mp_free (b + 4) s = Some s' \<and> mp_inv s' \<and>
     mempools s' = (mempools s)(i \<mapsto> mp') \<and> mp_allocated s' i = mp_allocated s i - {b} \<and>
     (\<forall>a. a \<noteq> b \<longrightarrow> pool_mem s' a = pool_mem s a) \<and>
     unat (block_free_count mp') + card (mp_allocated s' i) = unat (block_total_count mp) \<and>
     queues s' (MpQ i) = tl (queues s (MpQ i)) \<and>
     (\<forall>t ts. queues s (MpQ i) = t # ts \<longrightarrow> (\<exists>th. threads s' t = Some th \<and> th_error th = RT_EOK \<and>
        tstate th \<in> {RT_THREAD_READY, RT_THREAD_RUNNING})))"
proof -
  note inv = mp_invD(1) [OF assms(1)]
  obtain fs where l: "mp_lists (pool_mem s) i fs mp" using mp_invD(2) [OF assms(1,2)] by blast
  have b: "b \<in> mp_blocks mp" "pool_mem s b = Some (Owner i)" using assms(2,3) by (simp_all add: mp_allocated_def)
  let ?mem = "(pool_mem s)(b \<mapsto> FreeLink (block_list mp))"
  obtain mp' where mp': "mp_give b mp (pool_mem s) = (mp', ?mem)" "mp_lists ?mem i (b # fs) mp'" "same_pool mp mp'"
    "unat (block_free_count mp') = Suc (unat (block_free_count mp))" by (rule mp_give_spec [OF l b])
  define s1 where "s1 = (upd_mp i (\<lambda>_. mp') s)\<lparr>pool_mem := ?mem\<rparr>"
  have m1: "mempools s1 = (mempools s)(i \<mapsto> mp')" "pool_mem s1 = ?mem" "queues s1 = queues s" "threads s1 = threads s"
    "rt_current_thread s1 = rt_current_thread s" using assms(2) by (simp_all add: s1_def upd_mp_def)
  have k1: "kernel_inv s1" by (rule kernel_inv_same_objects [OF inv]) (simp_all add: s1_def upd_mp_def same_sched_def)
  define s2 where "s2 = (case queues s (MpQ i) of [] \<Rightarrow> s1 | t # _ \<Rightarrow> upd_thread t (th_error_update (\<lambda>_. RT_EOK)) s1)"
  have k2: "kernel_inv s2" unfolding s2_def using k1 kernel_inv_upd_inert [OF k1] by (auto split: list.split)
  have f2: "sched_frame s1 s2" "queues s2 = queues s" "rt_current_thread s2 \<noteq> None"
    using m1 assms(4) by (auto simp: s2_def upd_thread_def sched_frame_def split: list.split)
  have wq: "is_waitq (MpQ i)" by (simp add: is_waitq_def)
  obtain s' where s': "wake_first (MpQ i) s2 = Some s'" "kernel_inv s'" "sched_frame s2 s'" "queues s' (MpQ i) = tl (queues s2 (MpQ i))"
    "queues s2 (MpQ i) \<noteq> [] \<Longrightarrow> awake s2 s' (hd (queues s2 (MpQ i)))"
    by (rule wake_first_spec [OF k2 wq f2(3)]) blast
  have m': "mempools s' = (mempools s)(i \<mapsto> mp')" "pool_mem s' = ?mem" using s'(3) f2(1) m1 by (simp_all add: sched_frame_def)
  have q0: "queues (upd_mp i (\<lambda>_. mp') s) = queues s" by (simp add: upd_mp_def)
  have "rt_mp_free (b + 4) s = Some s'"
    using assms(2,5) b(2) mp'(1) s'(1) f2(2)
    by (cases "queues s (MpQ i)")
      (simp_all add: rt_mp_free_def wake_first_def rt_ipc_list_resume_def s1_def [symmetric] s2_def q0 bind_assoc split_def)
  moreover have "mp_inv s'" by (rule mp_inv_update [OF assms(1,2) b(1) mp'(2,3) s'(2) m'])
  moreover have "mp_allocated s' i = mp_allocated s i - {b}"
    using assms(2) m' same_pool_blocks [OF mp'(3)] by (auto simp: mp_allocated_def)
  moreover have "unat (block_free_count mp') + card (mp_allocated s' i) = unat (block_total_count mp)"
    using mp_count_allocated [of s' i "b # fs" mp'] mp'(2,3) m' by (simp add: same_pool_def)
  moreover have "\<exists>th. threads s' t = Some th \<and> th_error th = RT_EOK \<and> tstate th \<in> {RT_THREAD_READY, RT_THREAD_RUNNING}"
    if "queues s (MpQ i) = t # ts" for t ts
    using s'(5) that f2(2) by (auto simp: awake_def s2_def upd_thread_def)
  ultimately show ?thesis using m' s'(4) f2(2) by (auto simp: rt_mp_free_def)
qed

text \<open>\<^verbatim>\<open>rt_mp_init\<close> and \<^verbatim>\<open>rt_mp_create\<close> link all blocks of a pool that has room for at least one: the free list holds
  every block once, in the order of the addresses. For a pool with room for none the word they set to
  \<^verbatim>\<open>RT_NULL\<close> lies one block in front of the pool.\<close>

theorem mp_link_all_builds_free_list:
  assumes "mp_fits mp" and "block_free_count mp = block_total_count mp" and "block_list mp = start_address mp"
  shows "(block_total_count mp \<noteq> 0 \<longrightarrow>
        mp_lists (mp_link_all (start_address mp) (mp_step mp) (block_total_count mp) mem) i
          (map (mp_block mp) [0..<unat (block_total_count mp)]) mp) \<and>
     (block_total_count mp = 0 \<longrightarrow>
        mp_link_all (start_address mp) (mp_step mp) (block_total_count mp) mem = mem(start_address mp - mp_step mp \<mapsto> FreeLink 0))"
  using mp_new_pool [OF assms(1) _ assms(2,3)] mp_link_all_no_block by simp

section \<open>A concrete pool\<close>

text \<open>Two blocks of eight bytes at \<open>0x24000000\<close>; thread 3 waits for one.\<close>

definition demo_pool :: rt_mempool where
  "demo_pool = \<lparr>mp_type = 0x88, start_address = 0x24000000, mp_size = 24, mp_block_size = 8, block_list = 0x24000000,
     block_total_count = 2, block_free_count = 2\<rparr>"

definition demo_mp :: kernel where
  "demo_mp = (demo_on (MpQ 0))\<lparr>mempools := [0 \<mapsto> demo_pool], pool_mem := mp_link_all 0x24000000 12 2 Map.empty\<rparr>"

definition demo_mp_used :: kernel where
  "demo_mp_used = (demo_on (MpQ 0))\<lparr>mempools := [0 \<mapsto> demo_pool\<lparr>block_free_count := 0, block_list := 0\<rparr>],
     pool_mem := [0x24000000 \<mapsto> Owner 0, 0x2400000c \<mapsto> Owner 0]\<rparr>"

lemma demo_pool_fits: "mp_fits demo_pool" "mp_step demo_pool = 12"
  by (simp_all add: mp_fits_def mp_step_def demo_pool_def)

lemma demo_pool_fields: "start_address demo_pool = 0x24000000" "block_total_count demo_pool = 2"
  "block_free_count demo_pool = 2" "block_list demo_pool = 0x24000000"
  "mp_block demo_pool 0 = 0x24000000" "mp_block demo_pool (Suc 0) = 0x2400000c"
  by (simp_all add: mp_block_def mp_step_def demo_pool_def)

lemma demo_pool_blocks: "mp_blocks demo_pool = {0x24000000, 0x2400000c}"
proof -
  have "{..<unat (block_total_count demo_pool)} = {0, Suc 0}" by (auto simp: demo_pool_fields)
  then show ?thesis by (simp add: mp_blocks_def demo_pool_fields)
qed

lemma demo_mp_kernel:
  assumes "mempools s = [0 \<mapsto> mp]" and "kernel_inv s" and "mp_lists (pool_mem s) 0 fs mp"
  shows "mp_inv s"
  using assms by (auto simp: mp_inv_def split: if_splits)

lemma demo_mp_inv: "mp_inv demo_mp" "mp_inv demo_mp_used"
proof -
  have wq: "is_waitq (MpQ 0)" by (simp add: is_waitq_def)
  have k: "kernel_inv demo_mp" "kernel_inv demo_mp_used"
    unfolding demo_mp_def demo_mp_used_def
    by (rule kernel_inv_same_objects [OF demo_on_inv [OF wq]]; simp add: same_sched_def)+
  have "mp_lists (mp_link_all 0x24000000 12 2 Map.empty) 0 (map (mp_block demo_pool) [0..<2]) demo_pool"
    using mp_new_pool [OF demo_pool_fits(1), of Map.empty 0] by (simp add: demo_pool_fits(2)) (simp add: demo_pool_def)
  then show "mp_inv demo_mp" by (intro demo_mp_kernel [OF _ k(1)]) (simp_all add: demo_mp_def)
  have bl: "mp_blocks (demo_pool\<lparr>block_free_count := 0, block_list := 0\<rparr>) = mp_blocks demo_pool"
    "mp_fits (demo_pool\<lparr>block_free_count := 0, block_list := 0\<rparr>)"
    by (rule mp_blocks_frame; simp) (use demo_pool_fits(1) in \<open>simp add: mp_fits_def mp_step_def\<close>)
  then have "mp_lists (pool_mem demo_mp_used) 0 [] (demo_pool\<lparr>block_free_count := 0, block_list := 0\<rparr>)"
    by (auto simp: mp_lists_def demo_pool_blocks demo_mp_used_def)
  then show "mp_inv demo_mp_used" by (intro demo_mp_kernel [OF _ k(2)]) (simp_all add: demo_mp_used_def)
qed

theorem rt_mp_alloc_correct_witness:
  "\<exists>s' r b. rt_mp_alloc 0 5 demo_mp = Some (s', r) \<and> mp_inv s' \<and> b \<in> mp_blocks demo_pool \<and> r = Done (Some (b + 4)) \<and>
     b \<in> mp_allocated s' 0"
proof -
  have m: "mempools demo_mp 0 = Some demo_pool" "may_block demo_mp 1" "block_free_count demo_pool \<noteq> 0"
    by (simp_all add: demo_mp_def may_block_def demo_pool_def)
  show ?thesis using rt_mp_alloc_correct [OF demo_mp_inv(1) m(1,2), of 5] m(3) by auto
qed

theorem rt_mp_free_correct_witness:
  "\<exists>s'. rt_mp_free 0x24000004 demo_mp_used = Some s' \<and> mp_inv s' \<and> 0x24000000 \<notin> mp_allocated s' 0 \<and> queues s' (MpQ 0) = []"
proof -
  let ?mp = "demo_pool\<lparr>block_free_count := 0, block_list := 0\<rparr>"
  have "mp_blocks ?mp = mp_blocks demo_pool" by (rule mp_blocks_frame; simp)
  then have m: "mempools demo_mp_used 0 = Some ?mp" "0x24000000 \<in> mp_allocated demo_mp_used 0"
    "rt_current_thread demo_mp_used \<noteq> None" "queues demo_mp_used (MpQ 0) = [3]"
    by (simp_all add: demo_mp_used_def mp_allocated_def demo_pool_blocks)
  show ?thesis using rt_mp_free_correct [OF demo_mp_inv(2) m(1-3)] m(4) by auto
qed

theorem mp_link_all_builds_free_list_witness:
  "mp_lists (mp_link_all 0x24000000 12 2 Map.empty) 0 [0x24000000, 0x2400000c] demo_pool"
  using mp_link_all_builds_free_list [OF demo_pool_fits(1), of Map.empty 0]
  by (simp add: demo_pool_fits(2) demo_pool_fields upt_rec)

end
