(* ===== verification/Ringbuffer.thy ===== *)
theory Ringbuffer
  imports Fifo
begin

text \<open>
  The byte ring of \<^verbatim>\<open>rt-thread/components/drivers/src/ringbuffer.c\<close>, which the serial driver buffers its
  input with. Both indices are 15-bit fields with a mirror bit that tells a full ring from an empty one.
  A copy outside of the buffer is \<open>None\<close>.
\<close>

section \<open>Operations\<close>

record rt_ringbuffer =
  buffer_ptr :: "u8 list"
  read_mirror :: bool
  read_index :: "15 word"
  write_mirror :: bool
  write_index :: "15 word"
  buffer_size :: u16 \<comment> \<open>\<^verbatim>\<open>rt_int16_t\<close>, read with \<open>sint\<close>\<close>

datatype rt_ringbuffer_state = RT_RINGBUFFER_EMPTY | RT_RINGBUFFER_FULL | RT_RINGBUFFER_HALFFULL

definition rt_ringbuffer_status :: "rt_ringbuffer \<Rightarrow> rt_ringbuffer_state" where
  "rt_ringbuffer_status rb = (if read_index rb = write_index rb
     then if read_mirror rb = write_mirror rb then RT_RINGBUFFER_EMPTY else RT_RINGBUFFER_FULL
     else RT_RINGBUFFER_HALFFULL)"

definition rt_ringbuffer_data_len :: "rt_ringbuffer \<Rightarrow> u32" where
  "rt_ringbuffer_data_len rb = (case rt_ringbuffer_status rb of
      RT_RINGBUFFER_EMPTY \<Rightarrow> 0
    | RT_RINGBUFFER_FULL \<Rightarrow> word_of_int (sint (buffer_size rb))
    | RT_RINGBUFFER_HALFFULL \<Rightarrow>
        if read_index rb < write_index rb then word_of_int (uint (write_index rb) - uint (read_index rb))
        else word_of_int (sint (buffer_size rb) - (uint (read_index rb) - uint (write_index rb))))"

definition rt_ringbuffer_space_len :: "rt_ringbuffer \<Rightarrow> u32" where
  "rt_ringbuffer_space_len rb = word_of_int (sint (buffer_size rb)) - rt_ringbuffer_data_len rb"

text \<open>\<^verbatim>\<open>memcpy(&buf[i], src, n)\<close> into the buffer.\<close>

definition copy_in :: "'a list \<Rightarrow> nat \<Rightarrow> 'a list \<Rightarrow> 'a list option" where
  "copy_in buf i src = do {
     rt_assert (i + length src \<le> length buf);
     Some (take i buf @ src @ drop (i + length src) buf) }"

text \<open>
  The ring over a pool of \<open>size\<close> bytes, an \<^verbatim>\<open>rt_int16_t\<close>. The field \<open>buffer_ptr\<close> holds the bytes of the pool
  that the ring uses.
\<close>

definition rt_ringbuffer_init :: "u8 list \<Rightarrow> int \<Rightarrow> rt_ringbuffer option" where
  "rt_ringbuffer_init pool sz = do {
     rt_assert (0 < sz);
     let size' = (ucast (RT_ALIGN_DOWN (word_of_int sz) RT_ALIGN_SIZE) :: u16);
     Some \<lparr>buffer_ptr = take (nat (sint size')) pool, read_mirror = False, read_index = 0, write_mirror = False,
       write_index = 0, buffer_size = size'\<rparr> }"

text \<open>The part of \<^verbatim>\<open>rt_ringbuffer_put\<close> and \<^verbatim>\<open>rt_ringbuffer_put_force\<close> that copies; \<open>True\<close> when it wrapped.\<close>

definition put_bytes :: "u8 list \<Rightarrow> rt_ringbuffer \<Rightarrow> (rt_ringbuffer \<times> bool) option" where
  "put_bytes ptr rb = (let n = int (length ptr); room = sint (buffer_size rb) - uint (write_index rb) in
     if n < room
     then do {
       buf \<leftarrow> copy_in (buffer_ptr rb) (unat (write_index rb)) ptr;
       Some (rb\<lparr>buffer_ptr := buf, write_index := word_of_int (uint (write_index rb) + n)\<rparr>, False) }
     else do {
       buf1 \<leftarrow> copy_in (buffer_ptr rb) (unat (write_index rb)) (take (nat room) ptr);
       buf2 \<leftarrow> copy_in buf1 0 (drop (nat room) ptr);
       Some (rb\<lparr>buffer_ptr := buf2, write_mirror := \<not> write_mirror rb, write_index := word_of_int (n - room)\<rparr>, True) })"

text \<open>\<^verbatim>\<open>ptr\<close> is given by its bytes, at most 65535; the result is the number of bytes stored.\<close>

definition rt_ringbuffer_put :: "u8 list \<Rightarrow> rt_ringbuffer \<Rightarrow> (rt_ringbuffer \<times> u32) option" where
  "rt_ringbuffer_put ptr rb = (let sz = (ucast (rt_ringbuffer_space_len rb) :: u16) in
     if sz = 0 then Some (rb, 0)
     else do {
       let n = (if unat sz < length ptr then unat sz else length ptr);
       (rb', _) \<leftarrow> put_bytes (take n ptr) rb;
       Some (rb', of_nat n) })"

definition rt_ringbuffer_put_force :: "u8 list \<Rightarrow> rt_ringbuffer \<Rightarrow> (rt_ringbuffer \<times> u32) option" where
  "rt_ringbuffer_put_force ptr rb = do {
     let space_length = (ucast (rt_ringbuffer_space_len rb) :: u16);
     let p = (if sint (buffer_size rb) < int (length ptr) then drop (length ptr - nat (sint (buffer_size rb))) ptr else ptr);
     (rb1, wrapped) \<leftarrow> put_bytes p rb;
     let rb2 = (if unat space_length < length p
                then rb1\<lparr>read_mirror := (if wrapped then \<not> read_mirror rb1 else read_mirror rb1),
                         read_index := write_index rb1\<rparr>
                else rb1);
     Some (rb2, of_nat (length p)) }"

text \<open>\<^verbatim>\<open>memcpy(ptr, &buf[i], n)\<close> out of the buffer.\<close>

definition copy_out :: "'a list \<Rightarrow> nat \<Rightarrow> nat \<Rightarrow> 'a list option" where
  "copy_out buf i n = do { rt_assert (i + n \<le> length buf); Some (take n (drop i buf)) }"

definition rt_ringbuffer_get :: "nat \<Rightarrow> rt_ringbuffer \<Rightarrow> (rt_ringbuffer \<times> u8 list) option" where
  "rt_ringbuffer_get len rb = (let sz = unat (rt_ringbuffer_data_len rb) in
     if sz = 0 then Some (rb, [])
     else (let n = (if sz < len then sz else len); room = sint (buffer_size rb) - uint (read_index rb) in
       if int n < room
       then do {
         ptr \<leftarrow> copy_out (buffer_ptr rb) (unat (read_index rb)) n;
         Some (rb\<lparr>read_index := word_of_int (uint (read_index rb) + int n)\<rparr>, ptr) }
       else do {
         ptr1 \<leftarrow> copy_out (buffer_ptr rb) (unat (read_index rb)) (nat room);
         ptr2 \<leftarrow> copy_out (buffer_ptr rb) 0 (n - nat room);
         Some (rb\<lparr>read_mirror := \<not> read_mirror rb, read_index := word_of_int (int n - room)\<rparr>, ptr1 @ ptr2) }))"

text \<open>\<^verbatim>\<open>rt_ringbuffer_peak\<close> yields the address of the bytes in the buffer (\<open>None\<close> for \<^verbatim>\<open>RT_NULL\<close>) and their number.\<close>

definition rt_ringbuffer_peak :: "rt_ringbuffer \<Rightarrow> rt_ringbuffer \<times> nat option \<times> u32" where
  "rt_ringbuffer_peak rb = (let sz = rt_ringbuffer_data_len rb; room = sint (buffer_size rb) - uint (read_index rb) in
     if sz = 0 then (rb, None, 0)
     else if uint sz < room
     then (rb\<lparr>read_index := word_of_int (uint (read_index rb) + uint sz)\<rparr>, Some (unat (read_index rb)), sz)
     else (rb\<lparr>read_mirror := \<not> read_mirror rb, read_index := 0\<rparr>, Some (unat (read_index rb)), word_of_int room))"

definition put_char :: "u8 \<Rightarrow> rt_ringbuffer \<Rightarrow> (rt_ringbuffer \<times> bool) option" where
  "put_char ch rb = do {
     buf \<leftarrow> copy_in (buffer_ptr rb) (unat (write_index rb)) [ch];
     Some (if uint (write_index rb) = sint (buffer_size rb) - 1
       then (rb\<lparr>buffer_ptr := buf, write_mirror := \<not> write_mirror rb, write_index := 0\<rparr>, True)
       else (rb\<lparr>buffer_ptr := buf, write_index := write_index rb + 1\<rparr>, False)) }"

definition rt_ringbuffer_putchar :: "u8 \<Rightarrow> rt_ringbuffer \<Rightarrow> (rt_ringbuffer \<times> u32) option" where
  "rt_ringbuffer_putchar ch rb = (if rt_ringbuffer_space_len rb = 0 then Some (rb, 0)
     else do { (rb', _) \<leftarrow> put_char ch rb; Some (rb', 1) })"

definition rt_ringbuffer_putchar_force :: "u8 \<Rightarrow> rt_ringbuffer \<Rightarrow> (rt_ringbuffer \<times> u32) option" where
  "rt_ringbuffer_putchar_force ch rb = do {
     let old_state = rt_ringbuffer_status rb;
     (rb1, wrapped) \<leftarrow> put_char ch rb;
     let rb2 = (if old_state = RT_RINGBUFFER_FULL
                then rb1\<lparr>read_mirror := (if wrapped then \<not> read_mirror rb1 else read_mirror rb1),
                         read_index := write_index rb1\<rparr>
                else rb1);
     Some (rb2, 1) }"

definition rt_ringbuffer_getchar :: "rt_ringbuffer \<Rightarrow> (rt_ringbuffer \<times> u8 option) option" where
  "rt_ringbuffer_getchar rb = (if rt_ringbuffer_data_len rb = 0 then Some (rb, None)
     else do {
       ptr \<leftarrow> copy_out (buffer_ptr rb) (unat (read_index rb)) 1;
       Some (if uint (read_index rb) = sint (buffer_size rb) - 1
         then rb\<lparr>read_mirror := \<not> read_mirror rb, read_index := 0\<rparr>
         else rb\<lparr>read_index := read_index rb + 1\<rparr>, Some (hd ptr)) })"

definition rt_ringbuffer_reset :: "rt_ringbuffer \<Rightarrow> rt_ringbuffer" where
  "rt_ringbuffer_reset rb = rb\<lparr>read_mirror := False, read_index := 0, write_mirror := False, write_index := 0\<rparr>"

definition rt_ringbuffer_get_size :: "rt_ringbuffer \<Rightarrow> u16" where
  "rt_ringbuffer_get_size rb = buffer_size rb"

text \<open>
  \<open>rb_mem\<close> tells whether the control block could be allocated, \<open>pool\<close> is the other allocation; the size is an
  \<^verbatim>\<open>rt_uint16_t\<close> that \<^verbatim>\<open>rt_ringbuffer_init\<close> receives as \<^verbatim>\<open>rt_int16_t\<close>.
\<close>

definition rt_ringbuffer_create :: "bool \<Rightarrow> u8 list option \<Rightarrow> u16 \<Rightarrow> rt_ringbuffer option option" where
  "rt_ringbuffer_create rb_mem pool sz = do {
     rt_assert (0 < sz);
     let size' = (ucast (RT_ALIGN_DOWN (ucast sz) RT_ALIGN_SIZE) :: u16);
     if \<not> rb_mem then Some None
     else case pool of
        None \<Rightarrow> Some None
      | Some p \<Rightarrow> do { rb \<leftarrow> rt_ringbuffer_init p (sint size'); Some (Some rb) } }"

section \<open>Copies and the circular view\<close>

lemma mod_wrap: "a < 2 * m \<Longrightarrow> a mod m = (if a < m then a else a - m)" for a m :: nat
  by (simp add: mod_if)

lemma copy_in_Some:
  "i + length src \<le> length buf \<Longrightarrow> copy_in buf i src = Some (take i buf @ src @ drop (i + length src) buf)"
  by (simp add: copy_in_def)

lemma nth_copied:
  "i + length src \<le> length buf \<Longrightarrow> j < length buf \<Longrightarrow>
     (take i buf @ src @ drop (i + length src) buf) ! j = (if i \<le> j \<and> j < i + length src then src ! (j - i) else buf ! j)"
  by (auto simp: nth_append)

text \<open>Bytes copied behind the data, without and with a wrap at the end of the array.\<close>

lemma ring_view_copy:
  assumes "out < length xs" and "n + length ys \<le> length xs" and "w = (out + n) mod length xs" and "w + length ys \<le> length xs"
    and "zs = take w xs @ ys @ drop (w + length ys) xs"
  shows "ring_view zs out (n + length ys) = ring_view xs out n @ ys"
proof (rule nth_equalityI)
  show "length (ring_view zs out (n + length ys)) = length (ring_view xs out n @ ys)" by simp
  fix k assume "k < length (ring_view zs out (n + length ys))"
  then have k: "k < n + length ys" by simp
  have len: "length zs = length xs" using assms(4,5) by simp
  let ?m = "length xs" and ?j = "(out + k) mod length xs"
  have "out + k < 2 * ?m" using assms(1,2) k by linarith
  then have j: "?j = (if out + k < ?m then out + k else out + k - ?m)" "?j < ?m"
    using assms(1) by (simp_all add: mod_wrap) linarith
  have w: "w = (if out + n < ?m then out + n else out + n - ?m)" using assms(1-3) by (simp add: mod_wrap)
  have z: "zs ! ?j = (if w \<le> ?j \<and> ?j < w + length ys then ys ! (?j - w) else xs ! ?j)"
    unfolding assms(5) by (rule nth_copied [OF assms(4) j(2)])
  show "ring_view zs out (n + length ys) ! k = (ring_view xs out n @ ys) ! k"
  proof (cases "k < n")
    case True
    then have "\<not> (w \<le> ?j \<and> ?j < w + length ys)" using w j assms(1,2) by (auto split: if_splits)
    then have "zs ! ?j = xs ! ?j" unfolding z by (rule if_not_P)
    then show ?thesis using True k len by (simp add: ring_view_def nth_append)
  next
    case False
    then have i: "w \<le> ?j \<and> ?j < w + length ys" "?j - w = k - n" using w j assms(1,2,4) k by (auto split: if_splits)
    then have "zs ! ?j = ys ! (k - n)" unfolding z if_P [OF i(1)] by (simp only: i(2))
    then show ?thesis using False k len by (simp add: ring_view_def nth_append)
  qed
qed

lemma ring_view_append: "ring_view xs out (n + m) = ring_view xs out n @ ring_view xs (out + n) m"
  by (rule nth_equalityI) (auto simp: ring_view_def nth_append add.assoc)

lemma ring_view_copy_wrap:
  assumes "out < length xs" and "n + length ys \<le> length xs" and "w = (out + n) mod length xs"
    and "k = length xs - w" and "k \<le> length ys"
    and "zs = take w xs @ take k ys" and "us = drop k ys @ drop (length ys - k) zs"
  shows "ring_view us out (n + length ys) = ring_view xs out n @ ys"
proof -
  let ?m = "length xs"
  have w: "w < ?m" using assms(1,3) by (metis length_pos_if_in_set mod_less_divisor neq0_conv not_less_zero)
  have lz: "length zs = ?m" using assms(4-6) w by simp
  have zs: "zs = take w xs @ take k ys @ drop (w + length (take k ys)) xs" using assms(4-6) w by simp
  have v1: "ring_view zs out (n + length (take k ys)) = ring_view xs out n @ take k ys"
    by (rule ring_view_copy [OF assms(1) _ assms(3) _ zs]) (use assms(2,4,5) w in simp_all)
  have wrap: "(out + (n + length (take k ys))) mod length zs = 0"
  proof -
    have "out + n = w \<or> out + n = w + ?m" using assms(1-3) by (auto simp: mod_wrap)
    then have "out + (n + k) = ?m \<or> out + (n + k) = 2 * ?m" using assms(4) w by auto
    then show ?thesis using lz assms(5) by (auto simp: min_def)
  qed
  have us: "us = take 0 zs @ drop k ys @ drop (0 + length (drop k ys)) zs" using assms(7) by simp
  have "ring_view us out ((n + length (take k ys)) + length (drop k ys)) = ring_view zs out (n + length (take k ys)) @ drop k ys"
    by (rule ring_view_copy [OF _ _ wrap [symmetric] _ us]) (use assms(1,2,5) lz in simp_all)
  moreover have "(n + length (take k ys)) + length (drop k ys) = n + length ys" using assms(5) by simp
  ultimately have "ring_view us out (n + length ys) = (ring_view xs out n @ take k ys) @ drop k ys" using v1 by argo
  then show ?thesis by simp
qed

section \<open>Invariant\<close>

definition rb_size :: "rt_ringbuffer \<Rightarrow> nat" where
  "rb_size rb = nat (sint (buffer_size rb))"

definition rb_ok :: "rt_ringbuffer \<Rightarrow> bool" where
  "rb_ok rb \<longleftrightarrow> 0 < sint (buffer_size rb) \<and> length (buffer_ptr rb) = rb_size rb \<and>
     unat (read_index rb) < rb_size rb \<and> unat (write_index rb) < rb_size rb \<and>
     (if read_mirror rb = write_mirror rb then read_index rb \<le> write_index rb else write_index rb \<le> read_index rb)"

definition rb_count :: "rt_ringbuffer \<Rightarrow> nat" where
  "rb_count rb = (if read_mirror rb = write_mirror rb then unat (write_index rb) - unat (read_index rb)
     else rb_size rb + unat (write_index rb) - unat (read_index rb))"

definition rb_bytes :: "rt_ringbuffer \<Rightarrow> u8 list" where
  "rb_bytes rb = ring_view (buffer_ptr rb) (unat (read_index rb)) (rb_count rb)"

lemma length_rb_bytes [simp]: "length (rb_bytes rb) = rb_count rb"
  by (simp add: rb_bytes_def)

lemma sint_u16_bound: "sint (x :: u16) < 32768"
  using sint_less [of x] by simp

lemma rb_okD:
  assumes "rb_ok rb"
  shows "rb_size rb < 32768" "0 < rb_size rb" "int (rb_size rb) = sint (buffer_size rb)" "length (buffer_ptr rb) = rb_size rb"
    "unat (read_index rb) < rb_size rb" "unat (write_index rb) < rb_size rb" "rb_count rb \<le> rb_size rb"
    "unat (write_index rb) = (unat (read_index rb) + rb_count rb) mod rb_size rb"
proof -
  show "rb_size rb < 32768" "0 < rb_size rb" "int (rb_size rb) = sint (buffer_size rb)" "length (buffer_ptr rb) = rb_size rb"
    and r: "unat (read_index rb) < rb_size rb" and w: "unat (write_index rb) < rb_size rb"
    using assms sint_u16_bound [of "buffer_size rb"] by (auto simp: rb_ok_def rb_size_def)
  have o: "if read_mirror rb = write_mirror rb then unat (read_index rb) \<le> unat (write_index rb)
     else unat (write_index rb) \<le> unat (read_index rb)" using assms by (auto simp: rb_ok_def word_le_nat_alt)
  then show c: "rb_count rb \<le> rb_size rb" using r w by (auto simp: rb_count_def split: if_splits)
  show "unat (write_index rb) = (unat (read_index rb) + rb_count rb) mod rb_size rb"
    using o r w by (auto simp: rb_count_def mod_wrap split: if_splits)
qed

text \<open>The lengths the code computes.\<close>

lemma rb_data_len:
  assumes "rb_ok rb"
  shows "rt_ringbuffer_data_len rb = of_nat (rb_count rb)" "unat (rt_ringbuffer_data_len rb) = rb_count rb"
proof -
  note d = rb_okD [OF assms]
  have eq: "read_index rb = write_index rb \<longleftrightarrow> unat (read_index rb) = unat (write_index rb)" by (auto intro: unsigned_word_eqI)
  have ord: "if read_mirror rb = write_mirror rb then unat (read_index rb) \<le> unat (write_index rb)
     else unat (write_index rb) \<le> unat (read_index rb)" using assms by (auto simp: rb_ok_def word_le_nat_alt)
  have u: "uint (read_index rb) = int (unat (read_index rb))" "uint (write_index rb) = int (unat (write_index rb))" by simp_all
  show l: "rt_ringbuffer_data_len rb = of_nat (rb_count rb)"
    using ord d(5,6) eq unfolding rt_ringbuffer_data_len_def rt_ringbuffer_status_def d(3) [symmetric] u word_less_nat_alt
    by (auto simp: rb_count_def of_nat_diff split: if_splits)
  show "unat (rt_ringbuffer_data_len rb) = rb_count rb" unfolding l using d(1,7) by (simp add: unat_of_nat)
qed

lemma rb_space_len:
  assumes "rb_ok rb"
  shows "unat (rt_ringbuffer_space_len rb) = rb_size rb - rb_count rb"
    "unat (ucast (rt_ringbuffer_space_len rb) :: u16) = rb_size rb - rb_count rb"
proof -
  note d = rb_okD [OF assms]
  have "rt_ringbuffer_space_len rb = of_nat (rb_size rb - rb_count rb)"
    unfolding rt_ringbuffer_space_len_def rb_data_len(1) [OF assms] d(3) [symmetric] using d(7) by (simp add: of_nat_diff)
  then show l: "unat (rt_ringbuffer_space_len rb) = rb_size rb - rb_count rb" using d(1) by (simp add: unat_of_nat)
  show "unat (ucast (rt_ringbuffer_space_len rb) :: u16) = rb_size rb - rb_count rb"
    using l d(1) by (simp add: unsigned_ucast_eq take_bit_nat_eq_self)
qed

section \<open>Blocks of bytes\<close>

lemma unat_index: "n < 32768 \<Longrightarrow> unat (word_of_int (int n) :: 15 word) = n"
  by (simp add: unat_of_nat)

lemma unat_index_add: "unat w + n < 32768 \<Longrightarrow> unat (word_of_int (uint w + int n) :: 15 word) = unat w + n" for w :: "15 word"
  by (simp add: unat_word_ariths unat_of_nat)

text \<open>A ring given by its numbers.\<close>

lemma rb_okI:
  assumes "rb_ok rb" and "buffer_size rb' = buffer_size rb" and "length (buffer_ptr rb') = rb_size rb"
    and "unat (read_index rb') < rb_size rb" and "unat (write_index rb') < rb_size rb"
    and "if read_mirror rb' = write_mirror rb' then unat (read_index rb') \<le> unat (write_index rb')
      else unat (write_index rb') \<le> unat (read_index rb')"
  shows "rb_ok rb'"
proof -
  have "rb_size rb' = rb_size rb" by (simp add: rb_size_def assms(2))
  then show ?thesis using assms by (auto simp: rb_ok_def word_le_nat_alt split: if_splits)
qed

text \<open>Storing bytes for which there is room, without and with a wrap.\<close>

lemma rb_order:
  "rb_ok rb \<Longrightarrow> if read_mirror rb = write_mirror rb then unat (read_index rb) \<le> unat (write_index rb)
     else unat (write_index rb) \<le> unat (read_index rb)"
  by (auto simp: rb_ok_def word_le_nat_alt)

lemma rb_room: "rb_ok rb \<Longrightarrow> sint (buffer_size rb) - uint (write_index rb) = int (rb_size rb - unat (write_index rb))"
  using rb_okD(3,6) [of rb] by simp

lemma put_bytes_straight:
  assumes ok: "rb_ok rb" and len: "length ptr \<le> rb_size rb - rb_count rb" and fit: "unat (write_index rb) + length ptr < rb_size rb"
  obtains rb' where "put_bytes ptr rb = Some (rb', False)" "rb_ok rb'" "rb_bytes rb' = rb_bytes rb @ ptr"
    "buffer_size rb' = buffer_size rb"
proof -
  let ?N = "rb_size rb" and ?R = "unat (read_index rb)" and ?W = "unat (write_index rb)" and ?n = "length ptr"
  note d = rb_okD [OF ok] and ord = rb_order [OF ok]
  let ?buf = "take ?W (buffer_ptr rb) @ ptr @ drop (?W + ?n) (buffer_ptr rb)"
  let ?rb = "rb\<lparr>buffer_ptr := ?buf, write_index := word_of_int (uint (write_index rb) + int ?n)\<rparr>"
  have p: "put_bytes ptr rb = Some (?rb, False)"
  proof -
    have "?n < ?N - ?W" using fit by linarith
    then have "int ?n < int (?N - ?W)" by (simp only: of_nat_less_iff)
    then show ?thesis unfolding put_bytes_def rb_room [OF ok] Let_def if_P [OF \<open>int ?n < _\<close>]
      using fit d(4) by (simp add: copy_in_Some)
  qed
  have W': "unat (word_of_int (uint (write_index rb) + int ?n) :: 15 word) = ?W + ?n"
    using fit d(1) by (intro unat_index_add) simp
  have le: "read_mirror rb \<noteq> write_mirror rb \<Longrightarrow> ?W + ?n \<le> ?R" using len ord d(5) by (simp add: rb_count_def)
  have ok': "rb_ok ?rb" by (rule rb_okI [OF ok]) (use fit ord d(4,5) W' le in auto)
  have "rb_size ?rb = ?N" by (simp add: rb_size_def)
  then have "rb_count ?rb = rb_count rb + ?n" using ord W' d(5) by (auto simp: rb_count_def)
  moreover have "ring_view ?buf ?R (rb_count rb + ?n) = ring_view (buffer_ptr rb) ?R (rb_count rb) @ ptr"
    by (rule ring_view_copy [where w = ?W]) (use d(4,5,7,8) len fit in simp_all)
  ultimately have "rb_bytes ?rb = rb_bytes rb @ ptr" by (simp add: rb_bytes_def)
  then show thesis using that [OF p ok'] by simp
qed

lemma put_bytes_wrap:
  assumes ok: "rb_ok rb" and len: "length ptr \<le> rb_size rb - rb_count rb" and long: "rb_size rb \<le> unat (write_index rb) + length ptr"
  obtains rb' where "put_bytes ptr rb = Some (rb', True)" "rb_ok rb'" "rb_bytes rb' = rb_bytes rb @ ptr"
    "buffer_size rb' = buffer_size rb"
proof -
  let ?N = "rb_size rb" and ?R = "unat (read_index rb)" and ?W = "unat (write_index rb)" and ?n = "length ptr"
  let ?k = "?N - ?W"
  note d = rb_okD [OF ok] and ord = rb_order [OF ok]
  have sum: "rb_count rb + ?n \<le> ?N" using len d(7) by simp
  have same: "read_mirror rb = write_mirror rb" "?R \<le> ?W" "?n - ?k \<le> ?R"
    using long ord len d(5,6) by (auto simp: rb_count_def split: if_splits)
  let ?b1 = "take ?W (buffer_ptr rb) @ take ?k ptr" and ?b2 = "drop ?k ptr @ drop (?n - ?k) (take ?W (buffer_ptr rb) @ take ?k ptr)"
  let ?rb = "rb\<lparr>buffer_ptr := ?b2, write_mirror := \<not> write_mirror rb, write_index := word_of_int (int (?n - ?k))\<rparr>"
  have kn: "?k \<le> ?n" "?W + ?k = ?N" using long d(6) by simp_all
  have c1: "copy_in (buffer_ptr rb) ?W (take ?k ptr) = Some ?b1" using kn d(4,6) by (simp add: copy_in_Some)
  have "?n - ?k \<le> length ?b1" using kn d(4,6) sum by simp
  then have c2: "copy_in ?b1 0 (drop ?k ptr) = Some ?b2" by (simp add: copy_in_Some)
  have p: "put_bytes ptr rb = Some (?rb, True)"
  proof -
    have "\<not> int ?n < int ?k" using kn(1) by (simp only: of_nat_less_iff not_less)
    moreover have "int ?n - int ?k = int (?n - ?k)" using kn(1) by (simp only: of_nat_diff)
    ultimately show ?thesis unfolding put_bytes_def rb_room [OF ok] Let_def nat_int by (simp only: if_False c1 c2 bind.simps)
  qed
  have W': "unat (word_of_int (int (?n - ?k)) :: 15 word) = ?n - ?k"
    using same(3) d(1,5) by (intro unat_index) simp
  have ok': "rb_ok ?rb" by (rule rb_okI [OF ok]) (use same d(4,5,6) W' kn sum in auto)
  have "rb_size ?rb = ?N" by (simp add: rb_size_def)
  then have "rb_count ?rb = rb_count rb + ?n" using same W' kn d(5) by (auto simp: rb_count_def add.commute)
  moreover have "ring_view ?b2 ?R (rb_count rb + ?n) = ring_view (buffer_ptr rb) ?R (rb_count rb) @ ptr"
    by (rule ring_view_copy_wrap [where w = ?W and k = ?k, OF _ _ _ _ _ refl refl]) (use d(4,5,8) sum kn in simp_all)
  ultimately have "rb_bytes ?rb = rb_bytes rb @ ptr" by (simp add: rb_bytes_def)
  then show thesis using that [OF p ok'] by simp
qed

lemma put_bytes_spec:
  assumes ok: "rb_ok rb" and len: "length ptr \<le> rb_size rb - rb_count rb"
  obtains rb' wr where "put_bytes ptr rb = Some (rb', wr)" "rb_ok rb'" "rb_bytes rb' = rb_bytes rb @ ptr"
    "buffer_size rb' = buffer_size rb"
proof (cases "unat (write_index rb) + length ptr < rb_size rb")
  case True
  then show thesis using put_bytes_straight [OF assms] that by blast
next
  case False
  then have "rb_size rb \<le> unat (write_index rb) + length ptr" by simp
  from put_bytes_wrap [OF assms this] that show thesis by blast
qed

text \<open>Reading.\<close>

lemma ring_view_direct: "out + n \<le> length xs \<Longrightarrow> ring_view xs out n = take n (drop out xs)"
  by (rule nth_equalityI) (auto simp: ring_view_def)

lemma ring_view_split:
  assumes "out < length xs" and "n \<le> length xs" and "length xs \<le> out + n"
  shows "ring_view xs out n = drop out xs @ take (n - (length xs - out)) xs"
proof -
  let ?k = "length xs - out"
  have "ring_view xs out (?k + (n - ?k)) = ring_view xs out ?k @ ring_view xs (out + ?k) (n - ?k)" by (rule ring_view_append)
  moreover have "ring_view xs (out + ?k) (n - ?k) = ring_view xs 0 (n - ?k)"
    using ring_view_mod [of xs "length xs" "n - ?k"] assms(1) by simp
  ultimately show ?thesis using assms by (simp add: ring_view_direct)
qed

lemma ring_drop: "n \<le> c \<Longrightarrow> drop n (ring_view xs out c) = ring_view xs ((out + n) mod length xs) (c - n)"
  using ring_view_append [of xs out n "c - n"] by simp

lemma get_spec:
  assumes ok: "rb_ok rb"
  obtains rb' where "rt_ringbuffer_get len rb = Some (rb', take len (rb_bytes rb))" "rb_ok rb'" "rb_bytes rb' = drop len (rb_bytes rb)"
    "buffer_size rb' = buffer_size rb"
proof -
  let ?N = "rb_size rb" and ?R = "unat (read_index rb)" and ?W = "unat (write_index rb)" and ?c = "rb_count rb"
  define n where "n = (if ?c < len then ?c else len)"
  note d = rb_okD [OF ok] and ord = rb_order [OF ok]
  have n: "n \<le> ?c" "take len (rb_bytes rb) = take n (rb_bytes rb)" "drop len (rb_bytes rb) = drop n (rb_bytes rb)"
    by (simp_all add: n_def)
  have room: "sint (buffer_size rb) - uint (read_index rb) = int (?N - ?R)" using d(3,5) by simp
  have tk: "take n (rb_bytes rb) = ring_view (buffer_ptr rb) ?R n"
    using ring_view_append [of "buffer_ptr rb" ?R n "?c - n"] n(1) by (simp add: rb_bytes_def)
  have dr: "drop n (rb_bytes rb) = ring_view (buffer_ptr rb) ((?R + n) mod ?N) (?c - n)"
    using ring_drop [OF n(1), of "buffer_ptr rb" ?R] d(4) by (simp add: rb_bytes_def)
  show thesis
  proof (cases "?c = 0")
    case True
    then have "rb_bytes rb = []" by (metis length_0_conv length_rb_bytes)
    then show thesis using that [of rb] ok True rb_data_len(2) [OF ok] by (simp add: rt_ringbuffer_get_def)
  next
    case False
    have b: "rt_ringbuffer_get len rb = (if int n < int (?N - ?R)
       then do { ptr \<leftarrow> copy_out (buffer_ptr rb) ?R n; Some (rb\<lparr>read_index := word_of_int (uint (read_index rb) + int n)\<rparr>, ptr) }
       else do { ptr1 \<leftarrow> copy_out (buffer_ptr rb) ?R (?N - ?R); ptr2 \<leftarrow> copy_out (buffer_ptr rb) 0 (n - (?N - ?R));
         Some (rb\<lparr>read_mirror := \<not> read_mirror rb, read_index := word_of_int (int n - int (?N - ?R))\<rparr>, ptr1 @ ptr2) })"
      unfolding rt_ringbuffer_get_def rb_data_len(2) [OF ok] room Let_def nat_int n_def [symmetric] using False by simp
    show thesis
    proof (cases "?R + n < ?N")
      case True
      let ?rb = "rb\<lparr>read_index := word_of_int (uint (read_index rb) + int n)\<rparr>"
      have R': "unat (word_of_int (uint (read_index rb) + int n) :: 15 word) = ?R + n"
        using True d(1) by (intro unat_index_add) simp
      have "n < ?N - ?R" using True by linarith
      then have "int n < int (?N - ?R)" by (simp only: of_nat_less_iff)
      then have p: "rt_ringbuffer_get len rb = Some (?rb, take len (rb_bytes rb))"
        unfolding b if_P [OF \<open>int n < _\<close>] n(2) tk using True d(4) by (simp add: copy_out_def ring_view_direct)
      have sz: "rb_size ?rb = ?N" by (simp add: rb_size_def)
      have "rb_ok ?rb" by (rule rb_okI [OF ok]) (use True ord n(1) d(4,6) R' in \<open>auto simp: rb_count_def split: if_splits\<close>)
      moreover have "rb_count ?rb = ?c - n" using R' ord sz n(1) by (auto simp: rb_count_def)
      ultimately show thesis using that [OF p] True R' dr n(3) by (simp add: rb_bytes_def)
    next
      case False
      let ?k = "?N - ?R"
      let ?rb = "rb\<lparr>read_mirror := \<not> read_mirror rb, read_index := word_of_int (int (n - ?k))\<rparr>"
      have kn: "?k \<le> n" using False by simp
      have diff: "read_mirror rb \<noteq> write_mirror rb" using False n(1) d(5,6) by (auto simp: rb_count_def split: if_splits)
      have nk: "n - ?k \<le> ?W" "?W \<le> ?R" using diff n(1) ord d(5) by (auto simp: rb_count_def)
      have R': "unat (word_of_int (int (n - ?k)) :: 15 word) = n - ?k" using nk(1) d(1,6) by (intro unat_index) simp
      have "\<not> int n < int ?k" using kn by (simp only: of_nat_less_iff not_less)
      moreover have "int n - int ?k = int (n - ?k)" using kn by (simp only: of_nat_diff)
      moreover have "ring_view (buffer_ptr rb) ?R n = drop ?R (buffer_ptr rb) @ take (n - ?k) (buffer_ptr rb)"
        using ring_view_split [of ?R "buffer_ptr rb" n] d(4,5,7) n(1) False by simp
      ultimately have p: "rt_ringbuffer_get len rb = Some (?rb, take len (rb_bytes rb))"
        unfolding b n(2) tk using d(4,5) nk by (simp add: copy_out_def)
      have sz: "rb_size ?rb = ?N" by (simp add: rb_size_def)
      have "rb_ok ?rb" by (rule rb_okI [OF ok]) (use diff nk d(4,6) R' in auto)
      moreover have "rb_count ?rb = ?c - n" using R' diff sz kn nk d(5) by (auto simp: rb_count_def)
      moreover have "(?R + n) mod ?N = n - ?k" using False d(5,7) n(1) by (simp add: mod_wrap)
      ultimately show thesis using that [OF p] R' dr n(3) by (simp add: rb_bytes_def)
    qed
  qed
qed

section \<open>Correctness\<close>

lemma put_spec:
  assumes ok: "rb_ok rb" and len: "length ptr < 65536"
  obtains rb' where "rt_ringbuffer_put ptr rb = Some (rb', of_nat (min (length ptr) (rb_size rb - rb_count rb)))" "rb_ok rb'"
    "rb_bytes rb' = rb_bytes rb @ take (rb_size rb - rb_count rb) ptr" "buffer_size rb' = buffer_size rb"
proof -
  let ?sp = "rb_size rb - rb_count rb"
  have sp: "unat (ucast (rt_ringbuffer_space_len rb) :: u16) = ?sp" by (rule rb_space_len(2) [OF ok])
  show thesis
  proof (cases "?sp = 0")
    case True
    then have "(ucast (rt_ringbuffer_space_len rb) :: u16) = 0" using sp by (simp add: unat_eq_zero)
    then show thesis using that [of rb] ok True by (simp add: rt_ringbuffer_put_def Let_def)
  next
    case False
    then have nz: "(ucast (rt_ringbuffer_space_len rb) :: u16) \<noteq> 0" using sp by auto
    have "length (take ?sp ptr) \<le> ?sp" by simp
    then obtain rb' wr where r: "put_bytes (take ?sp ptr) rb = Some (rb', wr)" "rb_ok rb'"
      "rb_bytes rb' = rb_bytes rb @ take ?sp ptr" "buffer_size rb' = buffer_size rb" by (rule put_bytes_spec [OF ok])
    have "take (if ?sp < length ptr then ?sp else length ptr) ptr = take ?sp ptr"
      "(if ?sp < length ptr then ?sp else length ptr) = min (length ptr) ?sp" by (simp_all add: min_def)
    then have "rt_ringbuffer_put ptr rb = Some (rb', of_nat (min (length ptr) ?sp))"
      unfolding rt_ringbuffer_put_def Let_def sp using nz r(1) by simp
    then show thesis using that r(2-4) by blast
  qed
qed

text \<open>\<^verbatim>\<open>rt_ringbuffer_put\<close> followed by \<^verbatim>\<open>rt_ringbuffer_get\<close>, each with its wrap at the end of the array: the put stores as
  many bytes as there is room for and returns their number, the get returns the oldest bytes, at most as
  many as asked for; no copy leaves the buffer. A put into an empty ring that has room is undone by the get
  that reads it back.\<close>

theorem rt_ringbuffer_put_get:
  assumes "rb_ok rb" and "length ptr < 65536"
  shows "\<exists>rb1 rb2. rt_ringbuffer_put ptr rb = Some (rb1, of_nat (min (length ptr) (rb_size rb - rb_count rb))) \<and> rb_ok rb1 \<and>
     rb_bytes rb1 = rb_bytes rb @ take (rb_size rb - rb_count rb) ptr \<and>
     rt_ringbuffer_get len rb1 = Some (rb2, take len (rb_bytes rb1)) \<and> rb_ok rb2 \<and> rb_bytes rb2 = drop len (rb_bytes rb1) \<and>
     (rb_bytes rb = [] \<and> length ptr \<le> rb_size rb \<and> len = length ptr \<longrightarrow> take len (rb_bytes rb1) = ptr \<and> rb_bytes rb2 = [])"
proof -
  obtain rb1 where 1: "rt_ringbuffer_put ptr rb = Some (rb1, of_nat (min (length ptr) (rb_size rb - rb_count rb)))" "rb_ok rb1"
    "rb_bytes rb1 = rb_bytes rb @ take (rb_size rb - rb_count rb) ptr" by (rule put_spec [OF assms])
  obtain rb2 where 2: "rt_ringbuffer_get len rb1 = Some (rb2, take len (rb_bytes rb1))" "rb_ok rb2"
    "rb_bytes rb2 = drop len (rb_bytes rb1)" by (rule get_spec [OF 1(2)])
  have "rb_bytes rb = [] \<Longrightarrow> rb_count rb = 0" by (metis length_rb_bytes list.size(3))
  then show ?thesis using 1 2 by auto
qed

text \<open>The single byte operations do the same as the block operations on one byte.\<close>

lemma put_char_bytes:
  assumes ok: "rb_ok rb"
  shows "put_char ch rb = put_bytes [ch] rb"
proof -
  note d = rb_okD [OF ok]
  let ?N = "rb_size rb" and ?W = "unat (write_index rb)"
  have s: "sint (buffer_size rb) = int ?N" "uint (write_index rb) = int ?W" using d(3) by simp_all
  have last: "uint (write_index rb) = sint (buffer_size rb) - 1 \<longleftrightarrow> ?W = ?N - 1" using d(2,6) unfolding s by linarith
  have c: "copy_in (buffer_ptr rb) ?W [ch] = Some (take ?W (buffer_ptr rb) @ [ch] @ drop (?W + 1) (buffer_ptr rb))"
    using d(4,6) by (simp add: copy_in_Some)
  show ?thesis
  proof (cases "?W = ?N - 1")
    case True
    then have room: "?N - ?W = 1" using d(2) by simp
    show ?thesis unfolding put_char_def put_bytes_def rb_room [OF ok] room Let_def
      using True last c d(2,4) by (simp add: copy_in_def)
  next
    case False
    then have "1 < ?N - ?W" using d(6) by linarith
    then have lt: "int (length [ch]) < int (?N - ?W)" by (simp only: of_nat_less_iff) simp
    show ?thesis unfolding put_char_def put_bytes_def rb_room [OF ok] Let_def if_P [OF lt] using False last c by simp
  qed
qed

lemma rb_getchar_equiv:
  assumes "rb_ok rb"
  shows "\<exists>rb' bs. rt_ringbuffer_get 1 rb = Some (rb', bs) \<and>
     rt_ringbuffer_getchar rb = Some (rb', if bs = [] then None else Some (hd bs))"
proof -
  note d = rb_okD [OF assms]
  let ?N = "rb_size rb" and ?R = "unat (read_index rb)"
  have s: "sint (buffer_size rb) = int ?N" "uint (read_index rb) = int ?R" using d(3) by simp_all
  have room: "sint (buffer_size rb) - uint (read_index rb) = int (?N - ?R)" using d(3,5) by simp
  have last: "uint (read_index rb) = sint (buffer_size rb) - 1 \<longleftrightarrow> ?R = ?N - 1" using d(2,5) unfolding s by linarith
  have c: "copy_out (buffer_ptr rb) ?R (Suc 0) = Some [buffer_ptr rb ! ?R]"
    using d(4,5) by (simp add: copy_out_def take_Suc_conv_app_nth Cons_nth_drop_Suc [symmetric])
  show ?thesis
  proof (cases "rb_count rb = 0")
    case True
    then show ?thesis using rb_data_len [OF assms] by (simp add: rt_ringbuffer_get_def rt_ringbuffer_getchar_def)
  next
    case False
    then have nz: "unat (rt_ringbuffer_data_len rb) \<noteq> 0" "rt_ringbuffer_data_len rb \<noteq> 0" "(if rb_count rb < 1 then rb_count rb else 1) = Suc 0"
      using rb_data_len [OF assms] by auto
    show ?thesis
    proof (cases "?R = ?N - 1")
      case True
      then have r: "?N - ?R = 1" using d(2) by simp
      show ?thesis unfolding rt_ringbuffer_get_def rt_ringbuffer_getchar_def room r Let_def
        using nz last True c d(2) rb_data_len(2) [OF assms] by (simp add: copy_out_def)
    next
      case False
      then have "Suc 0 < ?N - ?R" using d(5) by linarith
      then have lt: "int (Suc 0) < int (?N - ?R)" by (simp only: of_nat_less_iff)
      show ?thesis unfolding rt_ringbuffer_get_def rt_ringbuffer_getchar_def room Let_def rb_data_len(2) [OF assms] nz(3) if_P [OF lt]
        using nz last False c rb_data_len(2) [OF assms] by simp
    qed
  qed
qed

text \<open>The byte operations are the block operations with one byte: \<^verbatim>\<open>rt_ringbuffer_putchar\<close> equals \<^verbatim>\<open>rt_ringbuffer_put\<close>
  of one byte, and \<^verbatim>\<open>rt_ringbuffer_getchar\<close> yields the byte and the ring of \<^verbatim>\<open>rt_ringbuffer_get\<close> with length 1.\<close>

theorem rt_ringbuffer_char_equiv:
  assumes "rb_ok rb"
  shows "rt_ringbuffer_putchar ch rb = rt_ringbuffer_put [ch] rb \<and>
     (\<exists>rb' bs. rt_ringbuffer_get 1 rb = Some (rb', bs) \<and>
        rt_ringbuffer_getchar rb = Some (rb', if bs = [] then None else Some (hd bs)))"
proof
  have sp: "rt_ringbuffer_space_len rb = 0 \<longleftrightarrow> (ucast (rt_ringbuffer_space_len rb) :: u16) = 0"
    using rb_space_len [OF assms] by (metis unat_eq_zero)
  define z where "z = (ucast (rt_ringbuffer_space_len rb) :: u16)"
  have "z \<noteq> 0 \<Longrightarrow> 0 < unat z" by (simp add: unat_gt_0)
  then have "(if unat z < length [ch] then unat z else length [ch]) = 1" if "z \<noteq> 0" using that by auto
  then show "rt_ringbuffer_putchar ch rb = rt_ringbuffer_put [ch] rb"
    using sp unfolding rt_ringbuffer_putchar_def rt_ringbuffer_put_def put_char_bytes [OF assms] z_def [symmetric] Let_def
    by (cases "z = 0") simp_all
qed (rule rb_getchar_equiv [OF assms])

subsection \<open>The ring as a bounded FIFO of bytes\<close>

definition rb_try_put :: "u8 \<Rightarrow> rt_ringbuffer \<Rightarrow> rt_ringbuffer option" where
  "rb_try_put ch rb = (case rt_ringbuffer_putchar ch rb of Some (rb', n) \<Rightarrow> if n = 0 then None else Some rb' | None \<Rightarrow> None)"

definition rb_try_get :: "rt_ringbuffer \<Rightarrow> (u8 \<times> rt_ringbuffer) option" where
  "rb_try_get rb = (case rt_ringbuffer_getchar rb of Some (rb', Some ch) \<Rightarrow> Some (ch, rb') | _ \<Rightarrow> None)"

lemma putchar_spec:
  assumes ok: "rb_ok rb"
  shows "rb_count rb = rb_size rb \<Longrightarrow> rt_ringbuffer_putchar ch rb = Some (rb, 0)"
    "rb_count rb < rb_size rb \<Longrightarrow> \<exists>rb'. rt_ringbuffer_putchar ch rb = Some (rb', 1) \<and> rb_ok rb' \<and>
       rb_bytes rb' = rb_bytes rb @ [ch] \<and> buffer_size rb' = buffer_size rb"
proof -
  show "rt_ringbuffer_putchar ch rb = Some (rb, 0)" if "rb_count rb = rb_size rb"
    using that rb_space_len(1) [OF ok] by (simp add: rt_ringbuffer_putchar_def unat_eq_zero)
  assume room: "rb_count rb < rb_size rb"
  then have "rt_ringbuffer_space_len rb \<noteq> 0" using rb_space_len(1) [OF ok] by auto
  moreover obtain rb' wr where "put_bytes [ch] rb = Some (rb', wr)" "rb_ok rb'" "rb_bytes rb' = rb_bytes rb @ [ch]"
    "buffer_size rb' = buffer_size rb" by (rule put_bytes_spec [OF ok, of "[ch]"]) (use room in simp)
  ultimately show "\<exists>rb'. rt_ringbuffer_putchar ch rb = Some (rb', 1) \<and> rb_ok rb' \<and>
       rb_bytes rb' = rb_bytes rb @ [ch] \<and> buffer_size rb' = buffer_size rb"
    by (simp add: rt_ringbuffer_putchar_def put_char_bytes [OF ok])
qed

lemma getchar_get:
  assumes "rb_ok rb"
  shows "\<exists>rb'. rt_ringbuffer_getchar rb = Some (rb', if rb_bytes rb = [] then None else Some (hd (rb_bytes rb))) \<and>
     rb_ok rb' \<and> rb_bytes rb' = tl (rb_bytes rb) \<and> buffer_size rb' = buffer_size rb"
proof -
  obtain rb' where g: "rt_ringbuffer_get 1 rb = Some (rb', take 1 (rb_bytes rb))" "rb_ok rb'" "rb_bytes rb' = drop 1 (rb_bytes rb)"
    "buffer_size rb' = buffer_size rb" by (rule get_spec [OF assms])
  have "rt_ringbuffer_getchar rb = Some (rb', if rb_bytes rb = [] then None else Some (hd (rb_bytes rb)))"
    using rb_getchar_equiv [OF assms] g(1) by (cases "rb_bytes rb") auto
  then show ?thesis using g(2-4) by (simp add: drop_Suc)
qed

interpretation rbf: fifo_buffer rb_ok rb_bytes rb_size "\<lambda>_. True" rb_try_put rb_try_get
proof
  show "length (rb_bytes b) \<le> rb_size b" if "rb_ok b" for b using rb_okD(7) [OF that] by simp
  show "\<exists>b'. rb_try_put x b = Some b' \<and> rb_ok b' \<and> rb_bytes b' = rb_bytes b @ [x] \<and> rb_size b' = rb_size b"
    if "rb_ok b" "length (rb_bytes b) < rb_size b" for b x
    using putchar_spec(2) [OF that(1), of x] that(2) by (auto simp: rb_try_put_def rb_size_def)
  show "rb_try_put x b = None" if "rb_ok b" "length (rb_bytes b) = rb_size b" for b x
    using putchar_spec(1) [OF that(1), of x] that(2) by (simp add: rb_try_put_def)
  show "\<exists>b'. rb_try_get b = Some (x, b') \<and> rb_ok b' \<and> rb_bytes b' = xs \<and> rb_size b' = rb_size b"
    if "rb_ok b" "rb_bytes b = x # xs" for b x xs
    using getchar_get [OF that(1)] that(2) by (auto simp: rb_try_get_def rb_size_def)
  show "rb_try_get b = None" if "rb_ok b" "rb_bytes b = []" for b
    using getchar_get [OF that(1)] that(2) by (auto simp: rb_try_get_def)
qed

text \<open>C35. The ring buffer is a bounded first-in first-out buffer of bytes for every interleaving of
  \<^verbatim>\<open>rt_ringbuffer_putchar\<close> and \<^verbatim>\<open>rt_ringbuffer_getchar\<close>: bytes come out in the order in which they were accepted,
  none is lost, repeated or invented, and never more are held than the size of the buffer.\<close>

theorem ringbuffer_is_fifo:
  assumes "rb_ok rb" and "fifo_run rb_try_put rb_try_get ops rb = (accepted, delivered, rb')"
  shows "rb_ok rb' \<and> rb_bytes rb @ accepted = delivered @ rb_bytes rb' \<and> length (rb_bytes rb') \<le> rb_size rb"
  using rbf.run_fifo [OF assms(1) _ assms(2)] rbf.bounded [of rb'] by auto

subsection \<open>Overwriting old data\<close>

text \<open>\<^verbatim>\<open>rt_ringbuffer_putchar_force\<close> always stores the byte: in a full ring it replaces the oldest one, otherwise it
  is appended.\<close>

theorem rt_ringbuffer_putchar_force_correct:
  assumes "rb_ok rb"
  shows "\<exists>rb'. rt_ringbuffer_putchar_force ch rb = Some (rb', 1) \<and> rb_ok rb' \<and>
     rb_bytes rb' = (if rb_count rb = rb_size rb then tl (rb_bytes rb) else rb_bytes rb) @ [ch]"
proof (cases "rb_count rb = rb_size rb")
  case False
  note d = rb_okD [OF assms] and ord = rb_order [OF assms]
  have nf: "rt_ringbuffer_status rb \<noteq> RT_RINGBUFFER_FULL" using False by (auto simp: rt_ringbuffer_status_def rb_count_def)
  have "length [ch] \<le> rb_size rb - rb_count rb" using False d(7) by simp
  then obtain rb' wr where "put_bytes [ch] rb = Some (rb', wr)" "rb_ok rb'" "rb_bytes rb' = rb_bytes rb @ [ch]"
    by (rule put_bytes_spec [OF assms])
  then show ?thesis using nf False by (simp add: rt_ringbuffer_putchar_force_def put_char_bytes [OF assms])
next
  case True
  note d = rb_okD [OF assms] and ord = rb_order [OF assms]
  let ?N = "rb_size rb" and ?W = "unat (write_index rb)"
  have diff: "read_mirror rb \<noteq> write_mirror rb" "unat (read_index rb) = ?W"
    using True ord d(5,6) by (auto simp: rb_count_def split: if_splits)
  then have RW: "read_index rb = write_index rb" by (auto intro: unsigned_word_eqI)
  have full: "rt_ringbuffer_status rb = RT_RINGBUFFER_FULL" using diff RW by (simp add: rt_ringbuffer_status_def)
  have s: "sint (buffer_size rb) = int ?N" "uint (write_index rb) = int ?W" using d(3) by simp_all
  have last: "uint (write_index rb) = sint (buffer_size rb) - 1 \<longleftrightarrow> Suc ?W = ?N" using d(2,6) unfolding s by linarith
  let ?buf = "(buffer_ptr rb)[?W := ch]"
  have c: "copy_in (buffer_ptr rb) ?W [ch] = Some ?buf" using d(4,6) by (simp add: copy_in_Some upd_conv_take_nth_drop)
  define wi wm where "wi = (if Suc ?W = ?N then 0 else write_index rb + 1)" and "wm = (if Suc ?W = ?N then \<not> write_mirror rb else write_mirror rb)"
  define rb' where "rb' = rb\<lparr>buffer_ptr := ?buf, write_mirror := wm, write_index := wi, read_mirror := \<not> wm, read_index := wi\<rparr>"
  have p: "rt_ringbuffer_putchar_force ch rb = Some (rb', 1)"
    using full c last diff(1)
    by (cases "Suc ?W = ?N") (auto simp: rt_ringbuffer_putchar_force_def put_char_def rb'_def wi_def wm_def)
  have wi: "unat wi = Suc ?W mod ?N"
  proof (cases "Suc ?W = ?N")
    case False
    have "unat (write_index rb + 1) = Suc ?W" using d(1,6) by (simp add: unat_word_ariths)
    then show ?thesis using False d(6) by (simp add: wi_def)
  qed (simp add: wi_def)
  have ok': "rb_ok rb'" by (rule rb_okI [OF assms]) (use d(2,4) wi in \<open>simp_all add: rb'_def\<close>)
  have cnt: "rb_count rb' = ?N" by (simp add: rb_count_def rb'_def rb_size_def)
  obtain m where m: "?N = Suc m" using d(2) by (cases ?N) auto
  have "ring_view ((buffer_ptr rb)[(Suc ?W + m) mod length (buffer_ptr rb) := ch]) (Suc ?W) (Suc m) = ring_view (buffer_ptr rb) (Suc ?W) m @ [ch]"
    using d(4) m by (intro ring_view_put) simp
  moreover have "(Suc ?W + m) mod length (buffer_ptr rb) = ?W" using d(4,6) m by (metis add_Suc_shift mod_add_self2 mod_less)
  moreover have "rb_bytes rb' = ring_view ?buf (Suc ?W) (Suc m)"
    using cnt m wi d(4) ring_view_mod [of ?buf "Suc ?W" "Suc m"] by (simp add: rb_bytes_def rb'_def)
  moreover have "tl (rb_bytes rb) = ring_view (buffer_ptr rb) (Suc ?W) m"
    unfolding rb_bytes_def True m diff(2) ring_view_get by simp
  ultimately have "rb_bytes rb' = tl (rb_bytes rb) @ [ch]" by metis
  then show ?thesis using p ok' True by auto
qed

text \<open>\<^verbatim>\<open>rt_ringbuffer_put_force\<close> with more bytes than there is room for, when reader and writer are on the same side of the
  mirror, leaves an empty ring: the new bytes are lost together with the old ones, although the call
  reports them as stored. (It flips the reader's mirror bit along with the writer's, while the full state
  needs them to differ.)\<close>

theorem rt_ringbuffer_put_force_loses_all:
  assumes "rb_ok rb" and "read_mirror rb = write_mirror rb" and "rb_size rb - rb_count rb < length ptr"
    and "length ptr \<le> rb_size rb"
  shows "\<exists>rb'. rt_ringbuffer_put_force ptr rb = Some (rb', of_nat (length ptr)) \<and>
     rt_ringbuffer_status rb' = RT_RINGBUFFER_EMPTY \<and> rb_bytes rb' = []"
proof -
  note d = rb_okD [OF assms(1)] and ord = rb_order [OF assms(1)]
  let ?N = "rb_size rb" and ?W = "unat (write_index rb)" and ?n = "length ptr"
  let ?k = "?N - ?W"
  have kn: "?k \<le> ?n" "?W + ?k = ?N" using assms(2,3) ord d(5,6) by (auto simp: rb_count_def)
  let ?b1 = "take ?W (buffer_ptr rb) @ take ?k ptr"
  have c1: "copy_in (buffer_ptr rb) ?W (take ?k ptr) = Some ?b1" using kn d(4,6) by (simp add: copy_in_Some)
  have "?n - ?k \<le> length ?b1" using kn d(4,6) assms(4) by simp
  then obtain b2 where c2: "copy_in ?b1 0 (drop ?k ptr) = Some b2" by (simp add: copy_in_Some)
  let ?rb1 = "rb\<lparr>buffer_ptr := b2, write_mirror := \<not> write_mirror rb, write_index := word_of_int (int ?n - int ?k)\<rparr>"
  have p: "put_bytes ptr rb = Some (?rb1, True)"
  proof -
    have "\<not> int ?n < int ?k" using kn(1) by (simp only: of_nat_less_iff not_less)
    then show ?thesis unfolding put_bytes_def rb_room [OF assms(1)] Let_def nat_int by (simp only: if_False c1 c2 bind.simps)
  qed
  let ?rb = "?rb1\<lparr>read_mirror := \<not> read_mirror rb, read_index := write_index ?rb1\<rparr>"
  have "\<not> sint (buffer_size rb) < int ?n" using assms(4) unfolding d(3) [symmetric] by simp
  moreover have "unat (ucast (rt_ringbuffer_space_len rb) :: u16) < ?n" using rb_space_len(2) [OF assms(1)] assms(3) by simp
  ultimately have "rt_ringbuffer_put_force ptr rb = Some (?rb, of_nat ?n)"
    using p unfolding rt_ringbuffer_put_force_def Let_def by simp
  moreover have "rt_ringbuffer_status ?rb = RT_RINGBUFFER_EMPTY" using assms(2) by (simp add: rt_ringbuffer_status_def)
  moreover have "rb_bytes ?rb = []" using assms(2) by (simp add: rb_bytes_def rb_count_def)
  ultimately show ?thesis by blast
qed

section \<open>Set-up\<close>

text \<open>\<^verbatim>\<open>rt_ringbuffer_init\<close> over a pool of a positive size divisible by 4 gives a well-formed empty ring of that size, and
  \<^verbatim>\<open>rt_ringbuffer_reset\<close> empties any ring. \<^verbatim>\<open>rt_ringbuffer_create\<close> does not return for the sizes 1 to 3, which it
  rounds down to 0 before \<^verbatim>\<open>rt_ringbuffer_init\<close> asserts a positive size.\<close>

theorem rt_ringbuffer_init_empty:
  assumes "0 < n" and "n < 0x2000" and "length pool = 4 * n" and "rb_ok rb"
  shows "(\<exists>rb0. rt_ringbuffer_init pool (int (4 * n)) = Some rb0 \<and> rb_ok rb0 \<and> rb_bytes rb0 = [] \<and> rb_size rb0 = 4 * n) \<and>
     rb_ok (rt_ringbuffer_reset rb) \<and> rb_bytes (rt_ringbuffer_reset rb) = [] \<and>
     (\<forall>sz\<in>{1, 2, 3}. rt_ringbuffer_create True (Some pool) sz = None)"
proof -
  define z where "z = (of_nat (4 * n) :: u32)"
  have uz: "unat z = 4 * n" unfolding z_def unat_of_nat using assms(2) by simp
  have mask: "(NOT 3 :: u32) = NOT (mask 2)" by (simp add: mask_eq_exp_minus_1)
  have "z AND NOT (mask 2) = z"
  proof (rule bit_word_eqI)
    fix i
    have "z = push_bit 2 (of_nat n)" by (simp add: z_def push_bit_eq_mult)
    then show "bit (z AND NOT (mask 2)) i = bit z i"
      by (auto simp: bit_and_iff bit_not_iff bit_mask_iff bit_push_bit_iff)
  qed
  then have al: "RT_ALIGN_DOWN (word_of_int (int (4 * n))) 4 = z" unfolding RT_ALIGN_DOWN_def using mask by (simp add: z_def)
  have "unat (ucast z :: u16) = 4 * n" using uz assms(2) by (simp add: unsigned_ucast_eq take_bit_nat_eq_self)
  then have "uint (ucast z :: u16) = int (4 * n)" by (simp only: uint_nat)
  then have sz: "sint (ucast z :: u16) = int (4 * n)"
    using assms(2) unfolding sint_uint by (simp add: signed_take_bit_int_eq_self)
  let ?rb = "\<lparr>buffer_ptr = take (nat (sint (ucast z :: u16))) pool, read_mirror = False, read_index = 0, write_mirror = False,
       write_index = 0, buffer_size = ucast z\<rparr>"
  have "rt_ringbuffer_init pool (int (4 * n)) = Some ?rb" using assms(1) al by (simp add: rt_ringbuffer_init_def Let_def)
  moreover have "rb_size ?rb = 4 * n" "rb_ok ?rb" "rb_bytes ?rb = []"
    using sz assms(1,3) by (simp_all add: rb_ok_def rb_size_def rb_bytes_def rb_count_def)
  moreover have "rb_ok (rt_ringbuffer_reset rb)" "rb_bytes (rt_ringbuffer_reset rb) = []"
    using assms(4) by (simp_all add: rb_ok_def rb_size_def rb_bytes_def rb_count_def rt_ringbuffer_reset_def)
  moreover have "\<forall>sz\<in>{1, 2, 3}. rt_ringbuffer_create True (Some pool) sz = None"
    by (simp add: rt_ringbuffer_create_def rt_ringbuffer_init_def RT_ALIGN_DOWN_def)
  ultimately show ?thesis by blast
qed

section \<open>A concrete ring\<close>

text \<open>Four bytes, two of them stored at the end of the array.\<close>

definition demo_ring :: rt_ringbuffer where
  "demo_ring = \<lparr>buffer_ptr = [10, 11, 12, 13], read_mirror = False, read_index = 1, write_mirror = False, write_index = 3, buffer_size = 4\<rparr>"

lemma demo_ring_fields: "rb_size demo_ring = 4" "rb_count demo_ring = 2" "rb_bytes demo_ring = [11, 12]"
  "read_mirror demo_ring = write_mirror demo_ring"
  by (simp_all add: demo_ring_def rb_size_def rb_bytes_def rb_count_def ring_view_def upt_rec)

lemma demo_ring_ok: "rb_ok demo_ring"
  by (simp add: rb_ok_def demo_ring_fields(1)) (simp add: demo_ring_def)

theorem rt_ringbuffer_put_get_witness:
  "\<exists>rb1 rb2. rt_ringbuffer_put [1, 2, 3] demo_ring = Some (rb1, 2) \<and> rb_bytes rb1 = [11, 12, 1, 2] \<and>
     rt_ringbuffer_get 3 rb1 = Some (rb2, [11, 12, 1]) \<and> rb_bytes rb2 = [2]"
proof -
  have len: "length ([1, 2, 3] :: u8 list) < 65536" by simp
  obtain rb1 rb2 where r: "rt_ringbuffer_put [1, 2, 3] demo_ring =
      Some (rb1, of_nat (min (length ([1, 2, 3] :: u8 list)) (rb_size demo_ring - rb_count demo_ring)))"
    "rb_bytes rb1 = rb_bytes demo_ring @ take (rb_size demo_ring - rb_count demo_ring) [1, 2, 3]"
    "rt_ringbuffer_get 3 rb1 = Some (rb2, take 3 (rb_bytes rb1))" "rb_bytes rb2 = drop 3 (rb_bytes rb1)"
    using rt_ringbuffer_put_get [OF demo_ring_ok len, of 3] by blast
  have "rb_bytes rb1 = [11, 12, 1, 2]" using r(2) by (simp add: demo_ring_fields)
  then show ?thesis using r by (simp add: demo_ring_fields)
qed

theorem rt_ringbuffer_char_equiv_witness:
  "rt_ringbuffer_putchar 7 demo_ring = rt_ringbuffer_put [7] demo_ring"
  using rt_ringbuffer_char_equiv [OF demo_ring_ok, of 7] by blast

theorem ringbuffer_is_fifo_witness:
  "\<exists>ins outs rb'. fifo_run rb_try_put rb_try_get [Put 1, Put 2, Put 3, Get, Put 4] demo_ring = (ins, outs, rb') \<and>
     [11, 12] @ ins = outs @ rb_bytes rb'"
proof -
  obtain ins outs rb' where r: "fifo_run rb_try_put rb_try_get [Put 1, Put 2, Put 3, Get, Put 4] demo_ring = (ins, outs, rb')"
    by (metis prod_cases3)
  show ?thesis using ringbuffer_is_fifo [OF demo_ring_ok r] r by (simp add: demo_ring_fields)
qed

theorem rt_ringbuffer_putchar_force_correct_witness:
  "\<exists>rb'. rt_ringbuffer_putchar_force 7 demo_ring = Some (rb', 1) \<and> rb_bytes rb' = [11, 12, 7]"
  using rt_ringbuffer_putchar_force_correct [OF demo_ring_ok, of 7] by (auto simp: demo_ring_fields)

theorem rt_ringbuffer_put_force_loses_all_witness:
  "\<exists>rb'. rt_ringbuffer_put_force [1, 2, 3, 4] demo_ring = Some (rb', 4) \<and> rb_bytes rb' = []"
  using rt_ringbuffer_put_force_loses_all [OF demo_ring_ok demo_ring_fields(4), of "[1, 2, 3, 4]"] by (auto simp: demo_ring_fields)

theorem rt_ringbuffer_init_empty_witness:
  "\<exists>rb0. rt_ringbuffer_init [0, 0, 0, 0, 0, 0, 0, 0] 8 = Some rb0 \<and> rb_ok rb0 \<and> rb_size rb0 = 8"
  using rt_ringbuffer_init_empty [of 2 "[0, 0, 0, 0, 0, 0, 0, 0]" demo_ring] demo_ring_ok by auto

end
