(* ===== verification/Heap.thy ===== *)
theory Heap
  imports Semaphore
begin

text \<open>
  The system heap, \<^verbatim>\<open>rt-thread/src/mem.c\<close> (\<^verbatim>\<open>RT_USING_SMALL_MEM\<close>): blocks behind one another in one piece
  of memory, each with a header \<^verbatim>\<open>struct heap_mem\<close> that holds the offsets of the next and the previous
  block; first fit from the lowest free block, neighbouring free blocks are joined. The operations are
  serialised by the semaphore \<^verbatim>\<open>heap_sem\<close>.

  A pointer into the heap (\<^verbatim>\<open>lfree\<close>, \<^verbatim>\<open>heap_end\<close>, \<^verbatim>\<open>mem\<close>) is its offset from \<^verbatim>\<open>heap_ptr\<close>; what \<^verbatim>\<open>rt_malloc\<close> returns
  and \<^verbatim>\<open>rt_free\<close> and \<^verbatim>\<open>rt_realloc\<close> are given are addresses. \<open>hmem\<close> holds the headers: reading a header
  where there is none is a call that does not return. \<open>hdata\<close> holds the bytes of the blocks behind their
  headers.
\<close>

section \<open>Data\<close>

abbreviation (input) HEAP_MAGIC :: u16 where "HEAP_MAGIC \<equiv> 0x1ea0"
abbreviation (input) MIN_SIZE :: u32 where "MIN_SIZE \<equiv> 12"
abbreviation (input) MIN_SIZE_ALIGNED :: u32 where "MIN_SIZE_ALIGNED \<equiv> 12"
abbreviation (input) SIZEOF_STRUCT_MEM :: u32 where "SIZEOF_STRUCT_MEM \<equiv> 12"

record heap_mem =
  hm_magic :: u16
  hm_used :: u16
  hm_next :: u32
  hm_prev :: u32

record heap =
  heap_ptr :: u32
  heap_end :: u32
  lfree :: u32
  mem_size_aligned :: u32
  used_mem :: u32
  max_mem :: u32
  heap_sem :: nat
  hmem :: "u32 \<Rightarrow> heap_mem option"
  hdata :: "u32 \<Rightarrow> u8"

definition upd_mem :: "u32 \<Rightarrow> (heap_mem \<Rightarrow> heap_mem) \<Rightarrow> heap \<Rightarrow> heap option" where
  "upd_mem a f h = do {
     m \<leftarrow> hmem h a;
     Some (h\<lparr>hmem := (hmem h)(a \<mapsto> f m)\<rparr>) }"

section \<open>Operations on the blocks\<close>

definition plug_forward :: "u32 \<Rightarrow> heap \<Rightarrow> heap option" where
  "plug_forward mem h = do {
     m \<leftarrow> hmem h mem;
     let nmem = hm_next m;
     n \<leftarrow> hmem h nmem;
     if mem \<noteq> nmem \<and> hm_used n = 0 \<and> nmem \<noteq> heap_end h
     then do {
       let h1 = (if lfree h = nmem then h\<lparr>lfree := mem\<rparr> else h);
       h2 \<leftarrow> upd_mem mem (\<lambda>m. m\<lparr>hm_next := hm_next n\<rparr>) h1;
       upd_mem (hm_next n) (\<lambda>m. m\<lparr>hm_prev := mem\<rparr>) h2 }
     else Some h }"

definition plug_backward :: "u32 \<Rightarrow> heap \<Rightarrow> heap option" where
  "plug_backward mem h = do {
     m \<leftarrow> hmem h mem;
     let pmem = hm_prev m;
     p \<leftarrow> hmem h pmem;
     if pmem \<noteq> mem \<and> hm_used p = 0
     then do {
       let h1 = (if lfree h = mem then h\<lparr>lfree := pmem\<rparr> else h);
       h2 \<leftarrow> upd_mem pmem (\<lambda>p. p\<lparr>hm_next := hm_next m\<rparr>) h1;
       upd_mem (hm_next m) (\<lambda>n. n\<lparr>hm_prev := pmem\<rparr>) h2 }
     else Some h }"

definition plug_holes :: "u32 \<Rightarrow> heap \<Rightarrow> heap option" where
  "plug_holes mem h = do {
     rt_assert (mem < heap_end h);
     m \<leftarrow> hmem h mem;
     rt_assert (hm_used m = 0);
     h1 \<leftarrow> plug_forward mem h;
     plug_backward mem h1 }"

definition rt_system_heap_init :: "u32 \<Rightarrow> u32 \<Rightarrow> heap \<Rightarrow> kernel \<Rightarrow> (heap \<times> kernel) option" where
  "rt_system_heap_init begin_addr end_addr h s = do {
     let begin_align = RT_ALIGN begin_addr RT_ALIGN_SIZE;
     let end_align = RT_ALIGN_DOWN end_addr RT_ALIGN_SIZE;
     RT_DEBUG_NOT_IN_INTERRUPT s;
     if 2 * SIZEOF_STRUCT_MEM < end_align \<and> begin_align \<le> end_align - 2 * SIZEOF_STRUCT_MEM
     then do {
       let sz = end_align - begin_align - 2 * SIZEOF_STRUCT_MEM;
       let e = sz + SIZEOF_STRUCT_MEM;
       let hm = (hmem h)(0 \<mapsto> \<lparr>hm_magic = HEAP_MAGIC, hm_used = 0, hm_next = e, hm_prev = 0\<rparr>);
       let hm' = hm(e \<mapsto> \<lparr>hm_magic = HEAP_MAGIC, hm_used = 1, hm_next = e, hm_prev = e\<rparr>);
       (s1, _) \<leftarrow> rt_sem_init (heap_sem h) ''heap'' 1 RT_IPC_FLAG_FIFO s;
       Some (h\<lparr>heap_ptr := begin_align, mem_size_aligned := sz, hmem := hm', heap_end := e, lfree := 0\<rparr>, s1) }
     else Some (h, s) }"

text \<open>
  The search of \<^verbatim>\<open>rt_malloc\<close>, the taking of the block it finds (split when the rest can hold a block of its
  own), and the search for the next lowest free block.
\<close>

partial_function (option) malloc_search :: "u32 \<Rightarrow> u32 \<Rightarrow> heap \<Rightarrow> u32 option option" where
  "malloc_search sz ptr h =
     (if ptr < mem_size_aligned h - sz
      then do {
        mem \<leftarrow> hmem h ptr;
        if hm_used mem = 0 \<and> sz \<le> hm_next mem - (ptr + SIZEOF_STRUCT_MEM) then Some (Some ptr)
        else malloc_search sz (hm_next mem) h }
      else Some None)"

definition count_used :: "u32 \<Rightarrow> heap \<Rightarrow> heap" where
  "count_used n h = h\<lparr>used_mem := used_mem h + n, max_mem := (if max_mem h < used_mem h + n then used_mem h + n else max_mem h)\<rparr>"

definition split_block :: "u32 \<Rightarrow> u32 \<Rightarrow> heap \<Rightarrow> heap option" where
  "split_block ptr ptr2 h = do {
     mem \<leftarrow> hmem h ptr;
     let h1 = h\<lparr>hmem := (hmem h)(ptr2 \<mapsto> \<lparr>hm_magic = HEAP_MAGIC, hm_used = 0, hm_next = hm_next mem, hm_prev = ptr\<rparr>)\<rparr>;
     h2 \<leftarrow> upd_mem ptr (\<lambda>m. m\<lparr>hm_next := ptr2\<rparr>) h1;
     if hm_next mem \<noteq> mem_size_aligned h + SIZEOF_STRUCT_MEM
     then upd_mem (hm_next mem) (\<lambda>m. m\<lparr>hm_prev := ptr2\<rparr>) h2
     else Some h2 }"

definition malloc_take :: "u32 \<Rightarrow> u32 \<Rightarrow> heap \<Rightarrow> heap option" where
  "malloc_take sz ptr h = do {
     mem \<leftarrow> hmem h ptr;
     if sz + SIZEOF_STRUCT_MEM + MIN_SIZE_ALIGNED \<le> hm_next mem - (ptr + SIZEOF_STRUCT_MEM)
     then do {
       h1 \<leftarrow> split_block ptr (ptr + SIZEOF_STRUCT_MEM + sz) h;
       h2 \<leftarrow> upd_mem ptr (\<lambda>m. m\<lparr>hm_used := 1, hm_magic := HEAP_MAGIC\<rparr>) h1;
       Some (count_used (sz + SIZEOF_STRUCT_MEM) h2) }
     else do {
       h1 \<leftarrow> upd_mem ptr (\<lambda>m. m\<lparr>hm_used := 1, hm_magic := HEAP_MAGIC\<rparr>) h;
       Some (count_used (hm_next mem - ptr) h1) } }"

partial_function (option) lfree_search :: "u32 \<Rightarrow> heap \<Rightarrow> u32 option" where
  "lfree_search l h = do {
     m \<leftarrow> hmem h l;
     if hm_used m \<noteq> 0 \<and> l \<noteq> heap_end h then lfree_search (hm_next m) h else Some l }"

definition malloc_lfree :: "u32 \<Rightarrow> heap \<Rightarrow> heap option" where
  "malloc_lfree mem h =
     (if mem = lfree h
      then do {
        l \<leftarrow> lfree_search (lfree h) h;
        m \<leftarrow> hmem h l;
        rt_assert (l = heap_end h \<or> hm_used m = 0);
        Some (h\<lparr>lfree := l\<rparr>) }
      else Some h)"

text \<open>The part of \<^verbatim>\<open>rt_malloc\<close> between the taking and the release of the semaphore.\<close>

definition heap_alloc :: "u32 \<Rightarrow> heap \<Rightarrow> (heap \<times> u32 option) option" where
  "heap_alloc sz h = do {
     r \<leftarrow> malloc_search sz (lfree h) h;
     case r of
       None \<Rightarrow> Some (h, None)
     | Some ptr \<Rightarrow> do {
         h1 \<leftarrow> malloc_take sz ptr h;
         h2 \<leftarrow> malloc_lfree ptr h1;
         Some (h2, Some ptr) } }"

definition heap_release :: "u32 \<Rightarrow> heap \<Rightarrow> heap option" where
  "heap_release mem h = do {
     m \<leftarrow> hmem h mem;
     rt_assert (hm_used m \<noteq> 0);
     rt_assert (hm_magic m = HEAP_MAGIC);
     h1 \<leftarrow> upd_mem mem (\<lambda>m. m\<lparr>hm_used := 0, hm_magic := HEAP_MAGIC\<rparr>) h;
     let h2 = (if mem < lfree h1 then h1\<lparr>lfree := mem\<rparr> else h1);
     plug_holes mem (h2\<lparr>used_mem := used_mem h2 - (hm_next m - mem)\<rparr>) }"

text \<open>The split of a block that \<^verbatim>\<open>rt_realloc\<close> makes smaller.\<close>

definition heap_shrink :: "u32 \<Rightarrow> u32 \<Rightarrow> heap \<Rightarrow> heap option" where
  "heap_shrink ptr newsize h = do {
     mem \<leftarrow> hmem h ptr;
     let sz = hm_next mem - ptr - SIZEOF_STRUCT_MEM;
     let ptr2 = ptr + SIZEOF_STRUCT_MEM + newsize;
     h1 \<leftarrow> split_block ptr ptr2 (h\<lparr>used_mem := used_mem h - (sz - newsize)\<rparr>);
     let h2 = (if ptr2 < lfree h1 then h1\<lparr>lfree := ptr2\<rparr> else h1);
     plug_holes ptr2 h2 }"

section \<open>The interface: rt\_malloc, rt\_free, rt\_realloc, rt\_calloc\<close>

text \<open>
  Each function takes the semaphore, waiting forever if need be; what is left to do when it has waited is
  its \<open>_return\<close> function. The result of \<^verbatim>\<open>rt_sem_take\<close> is not looked at.
\<close>

definition malloc_size :: "u32 \<Rightarrow> u32" where
  "malloc_size sz = (let sz1 = RT_ALIGN sz RT_ALIGN_SIZE in if sz1 < MIN_SIZE_ALIGNED then MIN_SIZE_ALIGNED else sz1)"

definition rt_malloc_return :: "u32 \<Rightarrow> heap \<Rightarrow> kernel \<Rightarrow> (heap \<times> kernel \<times> u32 option call) option" where
  "rt_malloc_return sz h s = do {
     (h1, r) \<leftarrow> heap_alloc (malloc_size sz) h;
     (s1, _) \<leftarrow> rt_sem_release (heap_sem h1) s;
     case r of
       None \<Rightarrow> Some (h1, s1, Done None)
     | Some ptr \<Rightarrow> do {
         let mem = heap_ptr h1 + ptr;
         rt_assert (mem + SIZEOF_STRUCT_MEM + malloc_size sz \<le> heap_ptr h1 + heap_end h1);
         rt_assert ((mem + SIZEOF_STRUCT_MEM) mod RT_ALIGN_SIZE = 0);
         rt_assert (mem AND (RT_ALIGN_SIZE - 1) = 0);
         Some (h1, s1, Done (Some (mem + SIZEOF_STRUCT_MEM))) } }"

definition rt_malloc :: "u32 \<Rightarrow> heap \<Rightarrow> kernel \<Rightarrow> (heap \<times> kernel \<times> u32 option call) option" where
  "rt_malloc sz h s =
     (if sz = 0 then Some (h, s, Done None)
      else do {
        RT_DEBUG_NOT_IN_INTERRUPT s;
        if mem_size_aligned h < RT_ALIGN sz RT_ALIGN_SIZE then Some (h, s, Done None)
        else do {
          (s1, r) \<leftarrow> rt_sem_take (heap_sem h) RT_WAITING_FOREVER s;
          case r of Waiting \<Rightarrow> Some (h, s1, Waiting) | Done _ \<Rightarrow> rt_malloc_return sz h s1 } })"

definition rt_free_return :: "u32 \<Rightarrow> heap \<Rightarrow> kernel \<Rightarrow> (heap \<times> kernel \<times> unit call) option" where
  "rt_free_return rmem h s = do {
     h1 \<leftarrow> heap_release (rmem - SIZEOF_STRUCT_MEM - heap_ptr h) h;
     (s1, _) \<leftarrow> rt_sem_release (heap_sem h1) s;
     Some (h1, s1, Done ()) }"

definition rt_free :: "u32 \<Rightarrow> heap \<Rightarrow> kernel \<Rightarrow> (heap \<times> kernel \<times> unit call) option" where
  "rt_free rmem h s =
     (if rmem = 0 then Some (h, s, Done ())
      else do {
        RT_DEBUG_NOT_IN_INTERRUPT s;
        rt_assert (rmem AND (RT_ALIGN_SIZE - 1) = 0);
        rt_assert (heap_ptr h \<le> rmem \<and> rmem < heap_ptr h + heap_end h);
        if rmem < heap_ptr h \<or> heap_ptr h + heap_end h \<le> rmem then Some (h, s, Done ())
        else do {
          (s1, r) \<leftarrow> rt_sem_take (heap_sem h) RT_WAITING_FOREVER s;
          case r of Waiting \<Rightarrow> Some (h, s1, Waiting) | Done _ \<Rightarrow> rt_free_return rmem h s1 } })"

text \<open>\<^verbatim>\<open>rt_memcpy\<close> between blocks that do not overlap, and \<^verbatim>\<open>rt_memset\<close>.\<close>

definition heap_memcpy :: "u32 \<Rightarrow> u32 \<Rightarrow> u32 \<Rightarrow> heap \<Rightarrow> heap" where
  "heap_memcpy dst src n h = h\<lparr>hdata := (\<lambda>a. if a - dst < n then hdata h (src + (a - dst)) else hdata h a)\<rparr>"

definition heap_memset :: "u32 \<Rightarrow> u8 \<Rightarrow> u32 \<Rightarrow> heap \<Rightarrow> heap" where
  "heap_memset dst v n h = h\<lparr>hdata := (\<lambda>a. if a - dst < n then v else hdata h a)\<rparr>"

text \<open>
  The end of \<^verbatim>\<open>rt_realloc\<close> when the block has to move: after the new block is there (or not) its contents are
  copied and the old block is freed. \<open>sz\<close> is the size of the old block, \<open>newsize\<close> the aligned new size.
\<close>

definition realloc_move :: "u32 \<Rightarrow> u32 \<Rightarrow> u32 \<Rightarrow> heap \<Rightarrow> kernel \<Rightarrow> u32 option call \<Rightarrow> (heap \<times> kernel \<times> u32 option call) option" where
  "realloc_move rmem sz newsize h s r =
     (case r of
        Waiting \<Rightarrow> Some (h, s, Waiting)
      | Done None \<Rightarrow> Some (h, s, Done None)
      | Done (Some nmem) \<Rightarrow> do {
          let h1 = heap_memcpy nmem rmem (if sz < newsize then sz else newsize) h;
          (h2, s1, f) \<leftarrow> rt_free rmem h1 s;
          Some (h2, s1, case f of Waiting \<Rightarrow> Waiting | Done _ \<Rightarrow> Done (Some nmem)) })"

definition rt_realloc_malloc_return :: "u32 \<Rightarrow> u32 \<Rightarrow> u32 \<Rightarrow> heap \<Rightarrow> kernel \<Rightarrow> (heap \<times> kernel \<times> u32 option call) option" where
  "rt_realloc_malloc_return rmem sz newsize h s = do {
     (h1, s1, r) \<leftarrow> rt_malloc_return newsize h s;
     realloc_move rmem sz newsize h1 s1 r }"

definition rt_realloc_free_return :: "u32 \<Rightarrow> u32 \<Rightarrow> heap \<Rightarrow> kernel \<Rightarrow> (heap \<times> kernel \<times> u32 option call) option" where
  "rt_realloc_free_return rmem nmem h s = do {
     (h1, s1, _) \<leftarrow> rt_free_return rmem h s;
     Some (h1, s1, Done (Some nmem)) }"

definition rt_realloc_return :: "u32 \<Rightarrow> u32 \<Rightarrow> heap \<Rightarrow> kernel \<Rightarrow> (heap \<times> kernel \<times> u32 option call) option" where
  "rt_realloc_return rmem newsize h s =
     (if rmem < heap_ptr h \<or> heap_ptr h + heap_end h \<le> rmem
      then do {
        (s1, _) \<leftarrow> rt_sem_release (heap_sem h) s;
        Some (h, s1, Done (Some rmem)) }
      else do {
        let ptr = rmem - SIZEOF_STRUCT_MEM - heap_ptr h;
        mem \<leftarrow> hmem h ptr;
        let sz = hm_next mem - ptr - SIZEOF_STRUCT_MEM;
        if sz = newsize
        then do {
          (s1, _) \<leftarrow> rt_sem_release (heap_sem h) s;
          Some (h, s1, Done (Some rmem)) }
        else if newsize + SIZEOF_STRUCT_MEM + MIN_SIZE < sz
        then do {
          h1 \<leftarrow> heap_shrink ptr newsize h;
          (s1, _) \<leftarrow> rt_sem_release (heap_sem h1) s;
          Some (h1, s1, Done (Some rmem)) }
        else do {
          (s1, _) \<leftarrow> rt_sem_release (heap_sem h) s;
          (h2, s2, r) \<leftarrow> rt_malloc newsize h s1;
          realloc_move rmem sz newsize h2 s2 r } })"

definition rt_realloc :: "u32 \<Rightarrow> u32 \<Rightarrow> heap \<Rightarrow> kernel \<Rightarrow> (heap \<times> kernel \<times> u32 option call) option" where
  "rt_realloc rmem newsize0 h s = do {
     RT_DEBUG_NOT_IN_INTERRUPT s;
     let newsize = RT_ALIGN newsize0 RT_ALIGN_SIZE;
     if mem_size_aligned h < newsize then Some (h, s, Done None)
     else if newsize = 0
     then do {
       (h1, s1, f) \<leftarrow> rt_free rmem h s;
       Some (h1, s1, case f of Waiting \<Rightarrow> Waiting | Done _ \<Rightarrow> Done None) }
     else if rmem = 0 then rt_malloc newsize h s
     else do {
       (s1, r) \<leftarrow> rt_sem_take (heap_sem h) RT_WAITING_FOREVER s;
       case r of Waiting \<Rightarrow> Some (h, s1, Waiting) | Done _ \<Rightarrow> rt_realloc_return rmem newsize h s1 } }"

definition calloc_clear :: "u32 \<Rightarrow> heap \<times> kernel \<times> u32 option call \<Rightarrow> heap \<times> kernel \<times> u32 option call" where
  "calloc_clear n = (\<lambda>(h, s, r). (case r of Done (Some p) \<Rightarrow> heap_memset p 0 n h | _ \<Rightarrow> h, s, r))"

definition rt_calloc :: "u32 \<Rightarrow> u32 \<Rightarrow> heap \<Rightarrow> kernel \<Rightarrow> (heap \<times> kernel \<times> u32 option call) option" where
  "rt_calloc cnt sz h s = map_option (calloc_clear (cnt * sz)) (rt_malloc (cnt * sz) h s)"

definition rt_calloc_return :: "u32 \<Rightarrow> u32 \<Rightarrow> heap \<Rightarrow> kernel \<Rightarrow> (heap \<times> kernel \<times> u32 option call) option" where
  "rt_calloc_return cnt sz h s = map_option (calloc_clear (cnt * sz)) (rt_malloc_return (cnt * sz) h s)"

definition rt_memory_info :: "heap \<Rightarrow> u32 \<times> u32 \<times> u32" where
  "rt_memory_info h = (mem_size_aligned h, used_mem h, max_mem h)"

end
