(* ===== verification/HeapBlocks.thy ===== *)
theory HeapBlocks
  imports Heap
begin

text \<open>
  The blocks of the heap as a list, the invariant of the chain of headers, and what each step of
  \<^verbatim>\<open>mem.c\<close> on the headers does to the list: taking, splitting, releasing and joining blocks.
\<close>

section \<open>The chain of blocks\<close>

text \<open>
  A block is its offset, the offset of the one behind it, and whether it is in use. \<open>heap_chain m p a bs e\<close>:
  the headers from offset \<open>a\<close> to \<open>e\<close> describe the blocks \<open>bs\<close>, and \<open>p\<close> is the offset of the block before.
\<close>

type_synonym block = "u32 \<times> u32 \<times> bool"

fun heap_chain :: "(u32 \<Rightarrow> heap_mem option) \<Rightarrow> u32 \<Rightarrow> u32 \<Rightarrow> block list \<Rightarrow> u32 \<Rightarrow> bool" where
  "heap_chain m p a [] e \<longleftrightarrow> a = e"
| "heap_chain m p a ((b, c, u) # bs) e \<longleftrightarrow> b = a \<and> unat a + 12 < unat c \<and> 4 dvd unat c \<and>
     m a = Some \<lparr>hm_magic = HEAP_MAGIC, hm_used = of_bool u, hm_next = c, hm_prev = p\<rparr> \<and> heap_chain m a c bs e"

fun last_start :: "u32 \<Rightarrow> block list \<Rightarrow> u32" where
  "last_start p [] = p"
| "last_start p (b # bs) = last_start (fst b) bs"

lemma last_start_snoc [simp]: "last_start p (bs @ [b]) = fst b"
  by (induction bs arbitrary: p) auto

lemma heap_chain_append:
  "heap_chain m p a (xs @ ys) e \<longleftrightarrow> (\<exists>c. heap_chain m p a xs c \<and> heap_chain m (last_start p xs) c ys e)"
  by (induction xs arbitrary: p a) auto

lemma heap_chain_le: "heap_chain m p a bs e \<Longrightarrow> unat a \<le> unat e"
  by (induction bs arbitrary: p a) force+

lemma heap_chain_bounds:
  "heap_chain m p a bs e \<Longrightarrow> (b, c, u) \<in> set bs \<Longrightarrow> unat a \<le> unat b \<and> unat b + 12 \<le> unat c \<and> unat c \<le> unat e"
proof (induction bs arbitrary: p a)
  case (Cons x bs)
  then show ?case using heap_chain_le [of m a "fst (snd x)" bs e] by (cases x) fastforce
qed simp

lemma heap_chain_upd:
  assumes "heap_chain m p a bs e" and "unat k < unat a \<or> unat e \<le> unat k"
  shows "heap_chain (m(k := v)) p a bs e"
  using assms
proof (induction bs arbitrary: p a)
  case (Cons x bs)
  obtain c u where x: "x = (a, c, u)" using Cons.prems(1) by (cases x) auto
  have ch: "heap_chain m a c bs e" and ac: "unat a + 12 \<le> unat c" using Cons.prems(1) x by auto
  have k: "k \<noteq> a" "unat k < unat c \<or> unat e \<le> unat k"
    using Cons.prems(2) ac heap_chain_le [OF ch] by auto
  show ?case using Cons.prems(1) Cons.IH [OF ch k(2)] k(1) x by auto
qed simp

lemma heap_chain_prev:
  assumes "heap_chain m p a bs e" and "m a = Some x"
  shows "heap_chain (m(a \<mapsto> x\<lparr>hm_prev := q\<rparr>)) q a bs e"
proof (cases bs)
  case (Cons b bs')
  obtain c u where "b = (a, c, u)" using assms(1) Cons by (cases b) auto
  then show ?thesis using assms Cons heap_chain_upd [of m a c bs' e a] by auto
qed (use assms in simp)

section \<open>The invariant of the heap\<close>

fun first_free :: "block list \<Rightarrow> u32 \<Rightarrow> u32" where
  "first_free [] e = e"
| "first_free ((a, c, u) # bs) e = (if u then first_free bs e else a)"

definition no_holes :: "block list \<Rightarrow> bool" where
  "no_holes bs \<longleftrightarrow> successively (\<lambda>x y. snd (snd x) \<or> snd (snd y)) bs"

definition used_bytes :: "block list \<Rightarrow> u32" where
  "used_bytes bs = sum_list (map (\<lambda>(a, c, u). if u then c - a else 0) bs)"

text \<open>
  \<open>heap_shape\<close>: the heap lies at an aligned place of the address space, its blocks \<open>bs\<close> fill it, and the
  header behind the last one is the sentinel. \<open>heap_inv\<close> adds what the allocator maintains: no two free
  blocks are neighbours, \<^verbatim>\<open>lfree\<close> is the lowest free block and \<^verbatim>\<open>used_mem\<close> the size of the blocks in use.
\<close>

definition heap_shape :: "heap \<Rightarrow> block list \<Rightarrow> bool" where
  "heap_shape h bs \<longleftrightarrow> heap_end h = mem_size_aligned h + 12 \<and> 12 \<le> unat (mem_size_aligned h) \<and>
     unat (heap_ptr h) + unat (mem_size_aligned h) + 24 \<le> 2 ^ 32 \<and> 0 < unat (heap_ptr h) \<and> 4 dvd unat (heap_ptr h) \<and>
     heap_chain (hmem h) 0 0 bs (heap_end h) \<and>
     (\<exists>x. hmem h (heap_end h) = Some x \<and> hm_used x = 1 \<and> hm_next x = heap_end h)"

definition heap_inv :: "heap \<Rightarrow> block list \<Rightarrow> bool" where
  "heap_inv h bs \<longleftrightarrow> heap_shape h bs \<and> no_holes bs \<and> lfree h = first_free bs (heap_end h) \<and> used_mem h = used_bytes bs"

text \<open>The blocks, read off the headers; every block has at least 12 bytes, so the fuel is enough.\<close>

fun heap_walk :: "nat \<Rightarrow> u32 \<Rightarrow> heap \<Rightarrow> block list" where
  "heap_walk 0 a h = []"
| "heap_walk (Suc n) a h = (if a = heap_end h then []
     else case hmem h a of None \<Rightarrow> [] | Some x \<Rightarrow> (a, hm_next x, hm_used x \<noteq> 0) # heap_walk n (hm_next x) h)"

definition heap_blocks :: "heap \<Rightarrow> block list" where
  "heap_blocks h = heap_walk (unat (heap_end h)) 0 h"

definition heap_ok :: "heap \<Rightarrow> bool" where
  "heap_ok h \<longleftrightarrow> heap_inv h (heap_blocks h)"

definition allocated :: "heap \<Rightarrow> (u32 \<times> u32) set" where
  "allocated h = {(a, c). (a, c, True) \<in> set (heap_blocks h)}"

lemma heap_walk_chain:
  assumes "heap_chain (hmem h) p a bs (heap_end h)" and "unat (heap_end h) \<le> unat a + n"
  shows "heap_walk n a h = bs"
  using assms
proof (induction bs arbitrary: p a n)
  case Nil
  then show ?case by (cases n) auto
next
  case (Cons x bs)
  obtain c u where x: "x = (a, c, u)" using Cons.prems(1) by (cases x) auto
  have ch: "heap_chain (hmem h) a c bs (heap_end h)" and ac: "unat a + 12 \<le> unat c" using Cons.prems(1) x by auto
  have ce: "unat c \<le> unat (heap_end h)" using heap_chain_le [OF ch] .
  then obtain n' where n: "n = Suc n'" "unat (heap_end h) \<le> unat c + n'" using Cons.prems(2) ac by (cases n) auto
  have "a \<noteq> heap_end h" using ac ce by auto
  then show ?case using Cons.prems(1) Cons.IH [OF ch n(2)] x n(1) by simp
qed

lemma heap_blocks_eq: "heap_shape h bs \<Longrightarrow> heap_blocks h = bs"
  unfolding heap_blocks_def heap_shape_def by (rule heap_walk_chain) auto

lemma heap_okI: "heap_inv h bs \<Longrightarrow> heap_ok h"
  using heap_blocks_eq unfolding heap_ok_def heap_inv_def by metis

lemma allocated_eq: "heap_inv h bs \<Longrightarrow> allocated h = {(a, c). (a, c, True) \<in> set bs}"
  using heap_blocks_eq unfolding allocated_def heap_inv_def by metis

lemma heap_shape_end: "heap_shape h bs \<Longrightarrow> unat (heap_end h) = unat (mem_size_aligned h) + 12"
  unfolding heap_shape_def by (auto simp: unat_word_ariths)

text \<open>Where a block lies in the heap, and what its header holds.\<close>

lemma heap_shape_block:
  assumes "heap_shape h (xs @ (a, c, u) # ys)"
  shows "heap_chain (hmem h) 0 0 xs a" and "heap_chain (hmem h) a c ys (heap_end h)"
    and "unat a + 12 \<le> unat c" and "4 dvd unat c" and "unat c \<le> unat (heap_end h)"
    and "hmem h a = Some \<lparr>hm_magic = HEAP_MAGIC, hm_used = of_bool u, hm_next = c, hm_prev = last_start 0 xs\<rparr>"
    and "\<exists>x. hmem h c = Some x"
    and "a \<noteq> heap_end h" and "a < heap_end h" and "a \<noteq> c" and "unat a + 12 < unat c"
proof -
  show 1: "heap_chain (hmem h) 0 0 xs a" and 2: "heap_chain (hmem h) a c ys (heap_end h)"
    and 3: "unat a + 12 \<le> unat c" and "4 dvd unat c" and "unat a + 12 < unat c"
    and "hmem h a = Some \<lparr>hm_magic = HEAP_MAGIC, hm_used = of_bool u, hm_next = c, hm_prev = last_start 0 xs\<rparr>"
    using assms unfolding heap_shape_def by (auto simp: heap_chain_append)
  show 4: "unat c \<le> unat (heap_end h)" by (rule heap_chain_le [OF 2])
  show "\<exists>x. hmem h c = Some x" using 2 assms by (cases ys) (auto simp: heap_shape_def)
  show "a < heap_end h" "a \<noteq> heap_end h" "a \<noteq> c" using 3 4 by (auto simp: word_less_nat_alt)
qed

section \<open>Steps on the chain\<close>

text \<open>What the operations on the blocks leave alone.\<close>

definition heap_frame :: "heap \<Rightarrow> heap \<Rightarrow> bool" where
  "heap_frame h h' \<longleftrightarrow> heap_ptr h' = heap_ptr h \<and> heap_end h' = heap_end h \<and> mem_size_aligned h' = mem_size_aligned h \<and>
     heap_sem h' = heap_sem h \<and> hdata h' = hdata h"

lemma heap_shape_frame [simp]:
  "heap_shape (h\<lparr>lfree := l\<rparr>) bs = heap_shape h bs"
  "heap_shape (h\<lparr>used_mem := n\<rparr>) bs = heap_shape h bs"
  "heap_shape (h\<lparr>max_mem := n\<rparr>) bs = heap_shape h bs"
  "heap_shape (h\<lparr>hdata := d\<rparr>) bs = heap_shape h bs"
  "heap_shape (count_used n h) bs = heap_shape h bs"
  by (simp_all add: heap_shape_def count_used_def)

lemma heap_shape_hmem:
  assumes "heap_shape h bs" and "heap_chain m 0 0 bs' (heap_end h)"
    and "\<exists>x. m (heap_end h) = Some x \<and> hm_used x = 1 \<and> hm_next x = heap_end h"
  shows "heap_shape (h\<lparr>hmem := m\<rparr>) bs'"
  using assms by (simp add: heap_shape_def)

lemma upd_mem_Some: "hmem h a = Some x \<Longrightarrow> upd_mem a f h = Some (h\<lparr>hmem := (hmem h)(a \<mapsto> f x)\<rparr>)"
  by (simp add: upd_mem_def)

lemma block_set_used:
  assumes "heap_shape h (xs @ (a, c, u) # ys)"
  shows "\<exists>m. upd_mem a (\<lambda>x. x\<lparr>hm_used := of_bool v, hm_magic := HEAP_MAGIC\<rparr>) h = Some (h\<lparr>hmem := m\<rparr>) \<and>
    heap_shape (h\<lparr>hmem := m\<rparr>) (xs @ (a, c, v) # ys)"
proof -
  note b = heap_shape_block [OF assms]
  let ?m = "(hmem h)(a \<mapsto> \<lparr>hm_magic = HEAP_MAGIC, hm_used = of_bool v, hm_next = c, hm_prev = last_start 0 xs\<rparr>)"
  have "heap_chain ?m 0 0 xs a" and "heap_chain ?m a c ys (heap_end h)"
    using b(3) by (auto intro!: heap_chain_upd [OF b(1)] heap_chain_upd [OF b(2)])
  then have "heap_shape (h\<lparr>hmem := ?m\<rparr>) (xs @ (a, c, v) # ys)"
    using b(4,8,11) assms by (intro heap_shape_hmem [OF assms]) (auto simp: heap_chain_append heap_shape_def)
  then show ?thesis using b(6) by (intro exI [of _ ?m]) (simp add: upd_mem_Some)
qed

lemma block_split:
  assumes "heap_shape h (xs @ (a, c, u) # ys)" and "unat a + 12 < unat d" and "unat d + 12 < unat c" and "4 dvd unat d"
  shows "\<exists>m. split_block a d h = Some (h\<lparr>hmem := m\<rparr>) \<and> heap_shape (h\<lparr>hmem := m\<rparr>) (xs @ (a, d, u) # (d, c, False) # ys)"
proof -
  note b = heap_shape_block [OF assms(1)]
  have ne: "a \<noteq> d" "d \<noteq> c" "a \<noteq> c" "d \<noteq> heap_end h" using assms(2,3) b(5) by auto
  obtain x where x: "hmem h c = Some x" using b(7) by blast
  let ?hd = "\<lambda>u n p. \<lparr>hm_magic = HEAP_MAGIC, hm_used = of_bool u, hm_next = n, hm_prev = p\<rparr>"
  let ?m2 = "(hmem h)(d \<mapsto> ?hd False c a, a \<mapsto> ?hd u d (last_start 0 xs))"
  let ?m3 = "?m2(c \<mapsto> x\<lparr>hm_prev := d\<rparr>)"
  have e: "heap_end h = mem_size_aligned h + 12" using assms(1) by (simp add: heap_shape_def)
  have split: "split_block a d h = Some (h\<lparr>hmem := (if c = heap_end h then ?m2 else ?m3)\<rparr>)"
    using b(6) x ne e unfolding split_block_def upd_mem_def by (auto simp: Let_def)
  have xs: "heap_chain ?m2 0 0 xs a" using assms(2) by (auto intro!: heap_chain_upd b(1))
  have ys: "heap_chain ?m2 a c ys (heap_end h)" using assms(2,3) b(3) by (auto intro!: heap_chain_upd b(2))
  have last: "ys = [] \<longleftrightarrow> c = heap_end h" using b(2) heap_chain_bounds [OF b(2)] by (cases ys) fastforce+
  have e2: "heap_shape (h\<lparr>hmem := ?m2\<rparr>) (xs @ (a, d, u) # (d, c, False) # ys)" if "c = heap_end h"
    using that xs ys assms b(4,8) ne last
    by (intro heap_shape_hmem [OF assms(1)]) (auto simp: heap_chain_append heap_shape_def)
  have e3: "heap_shape (h\<lparr>hmem := ?m3\<rparr>) (xs @ (a, d, u) # (d, c, False) # ys)" if "c \<noteq> heap_end h"
  proof -
    have "heap_chain ?m3 0 0 xs a" by (rule heap_chain_upd [OF xs]) (use b(3) in simp)
    moreover have "heap_chain ?m3 d c ys (heap_end h)" by (rule heap_chain_prev [OF ys]) (use x ne in simp)
    ultimately show ?thesis using that assms b(4,8) ne
      by (intro heap_shape_hmem [OF assms(1)]) (auto simp: heap_chain_append heap_shape_def)
  qed
  show ?thesis using split e2 e3 by (cases "c = heap_end h") auto
qed

lemma block_merge:
  assumes "heap_shape h (xs @ (a, c, u) # (c, d, v) # ys)"
  shows "\<exists>m. Option.bind (upd_mem a (\<lambda>x. x\<lparr>hm_next := d\<rparr>) h) (upd_mem d (\<lambda>x. x\<lparr>hm_prev := a\<rparr>)) = Some (h\<lparr>hmem := m\<rparr>) \<and>
    heap_shape (h\<lparr>hmem := m\<rparr>) (xs @ (a, d, u) # ys)"
proof -
  note b = heap_shape_block [OF assms]
  have s: "heap_shape h ((xs @ [(a, c, u)]) @ (c, d, v) # ys)" using assms by simp
  note n = heap_shape_block [OF s]
  have ne: "a \<noteq> d" using b(3) n(3) by auto
  obtain x where x: "hmem h d = Some x" using n(7) by blast
  let ?m1 = "(hmem h)(a \<mapsto> \<lparr>hm_magic = HEAP_MAGIC, hm_used = of_bool u, hm_next = d, hm_prev = last_start 0 xs\<rparr>)"
  let ?m2 = "?m1(d \<mapsto> x\<lparr>hm_prev := a\<rparr>)"
  have "heap_chain ?m2 0 0 xs a" using b(3) n(3) by (auto intro!: heap_chain_upd b(1))
  moreover have "heap_chain ?m1 c d ys (heap_end h)" using b(3) n(3) by (auto intro!: heap_chain_upd n(2))
  then have "heap_chain ?m2 a d ys (heap_end h)" by (rule heap_chain_prev) (use x ne in simp)
  ultimately have "heap_shape (h\<lparr>hmem := ?m2\<rparr>) (xs @ (a, d, u) # ys)"
    using b(3,4,8) n(3,4) assms ne x by (intro heap_shape_hmem [OF assms]) (auto simp: heap_chain_append heap_shape_def)
  then show ?thesis using b(6) x ne by (intro exI [of _ ?m2]) (simp add: upd_mem_def)
qed

lemma first_free_append: "first_free (xs @ ys) e = first_free xs (first_free ys e)"
  by (induction xs) auto

lemma first_free_below:
  assumes "heap_chain m p a xs c" and "(b, d, False) \<in> set xs"
  shows "unat (first_free xs e) \<le> unat b"
  using assms
proof (induction xs arbitrary: p a)
  case (Cons x xs)
  obtain c' u where x: "x = (a, c', u)" using Cons.prems(1) by (cases x) auto
  show ?case
  proof (cases u)
    case True
    then show ?thesis using Cons x by auto
  next
    case False
    then show ?thesis using heap_chain_bounds [OF Cons.prems(1,2)] x by simp
  qed
qed simp

lemma lfree_below:
  assumes "heap_shape h bs" and "lfree h = first_free bs (heap_end h)" and "(a, c, False) \<in> set bs"
  shows "unat (lfree h) \<le> unat a"
proof -
  have "heap_chain (hmem h) 0 0 bs (heap_end h)" using assms(1) unfolding heap_shape_def by blast
  then show ?thesis using first_free_below assms(2,3) by metis
qed

lemma no_holes_append:
  "no_holes (xs @ ys) \<longleftrightarrow> no_holes xs \<and> no_holes ys \<and> (xs \<noteq> [] \<and> ys \<noteq> [] \<longrightarrow> snd (snd (last xs)) \<or> snd (snd (hd ys)))"
  by (auto simp: no_holes_def successively_append_iff)

lemma no_holes_Cons: "no_holes (x # ys) \<longleftrightarrow> no_holes ys \<and> (ys \<noteq> [] \<longrightarrow> snd (snd x) \<or> snd (snd (hd ys)))"
  using no_holes_append [of "[x]" ys] by (simp add: no_holes_def)

lemma no_holes_Nil [simp]: "no_holes []"
  by (simp add: no_holes_def)

lemma used_bytes_simps [simp]:
  "used_bytes [] = 0" "used_bytes (xs @ ys) = used_bytes xs + used_bytes ys"
  "used_bytes ((a, c, u) # xs) = (if u then c - a else 0) + used_bytes xs"
  by (simp_all add: used_bytes_def)

text \<open>
  What joining neighbours keeps: the blocks in use, their total size and the lowest free block.
\<close>

definition same_used :: "block list \<Rightarrow> block list \<Rightarrow> u32 \<Rightarrow> bool" where
  "same_used bs bs' e \<longleftrightarrow> used_bytes bs' = used_bytes bs \<and> first_free bs' e = first_free bs e \<and>
     (\<forall>a c. (a, c, True) \<in> set bs' \<longleftrightarrow> (a, c, True) \<in> set bs)"

lemma same_used_trans: "same_used bs bs' e \<Longrightarrow> same_used bs' bs'' e \<Longrightarrow> same_used bs bs'' e"
  by (simp add: same_used_def)

lemma same_used_merge:
  "same_used (xs @ (a, c, False) # (c, d, False) # ys) (xs @ (a, d, False) # ys) e"
  by (simp add: same_used_def first_free_append)

lemma plug_forward_spec:
  assumes "heap_shape h (xs @ (a, c, False) # ys)" and "lfree h = first_free (xs @ (a, c, False) # ys) (heap_end h)"
    and "no_holes ys"
  shows "\<exists>m d ys'. plug_forward a h = Some (h\<lparr>hmem := m\<rparr>) \<and> heap_shape (h\<lparr>hmem := m\<rparr>) (xs @ (a, d, False) # ys') \<and>
    no_holes ((a, d, False) # ys') \<and> same_used (xs @ (a, c, False) # ys) (xs @ (a, d, False) # ys') (heap_end h)"
proof -
  note b = heap_shape_block [OF assms(1)]
  consider (join) d ys' where "ys = (c, d, False) # ys'" | (used) d ys' where "ys = (c, d, True) # ys'" | (last) "ys = []"
    using b(2) by (cases ys rule: list.exhaust [case_names Nil Cons], auto) (metis (full_types))
  then show ?thesis
  proof cases
    case join
    have s: "heap_shape h ((xs @ [(a, c, False)]) @ (c, d, False) # ys')" using assms(1) join by simp
    note n = heap_shape_block [OF s]
    obtain m where m: "Option.bind (upd_mem a (\<lambda>x. x\<lparr>hm_next := d\<rparr>) h) (upd_mem d (\<lambda>x. x\<lparr>hm_prev := a\<rparr>)) = Some (h\<lparr>hmem := m\<rparr>)"
      "heap_shape (h\<lparr>hmem := m\<rparr>) (xs @ (a, d, False) # ys')"
      using block_merge [of h xs a c False d False ys'] assms(1) join by auto
    have "unat (lfree h) \<le> unat a" by (rule lfree_below [OF assms(1,2), of _ c]) simp
    then have "lfree h \<noteq> c" using b(3) by auto
    then have "plug_forward a h = Some (h\<lparr>hmem := m\<rparr>)"
      using b(6,8,10) n(6,8) m(1) by (simp add: plug_forward_def)
    moreover have "no_holes ((a, d, False) # ys')" using assms(3) join by (simp add: no_holes_Cons)
    ultimately show ?thesis using m(2) same_used_merge [of xs a c d ys' "heap_end h"] unfolding join by blast
  next
    case used
    have s: "heap_shape h ((xs @ [(a, c, False)]) @ (c, d, True) # ys')" using assms(1) used by simp
    have "plug_forward a h = Some (h\<lparr>hmem := hmem h\<rparr>)"
      using b(6) heap_shape_block(6) [OF s] by (simp add: plug_forward_def)
    then show ?thesis using assms used by (intro exI [of _ "hmem h"] exI [of _ c] exI [of _ ys]) (simp add: no_holes_Cons same_used_def)
  next
    case last
    then have "c = heap_end h" using b(2) by simp
    then have "plug_forward a h = Some (h\<lparr>hmem := hmem h\<rparr>)" using b(6,7) by (auto simp: plug_forward_def)
    then show ?thesis using assms last by (intro exI [of _ "hmem h"] exI [of _ c] exI [of _ ys]) (simp add: no_holes_Cons same_used_def)
  qed
qed

lemma plug_backward_spec:
  assumes "heap_shape h (xs @ (a, c, False) # ys)" and "lfree h = first_free (xs @ (a, c, False) # ys) (heap_end h)"
    and "no_holes xs" and "no_holes ((a, c, False) # ys)"
  shows "\<exists>m bs'. plug_backward a h = Some (h\<lparr>hmem := m\<rparr>) \<and> heap_shape (h\<lparr>hmem := m\<rparr>) bs' \<and>
    no_holes bs' \<and> same_used (xs @ (a, c, False) # ys) bs' (heap_end h)"
proof -
  note b = heap_shape_block [OF assms(1)]
  consider (join) z xs' where "xs = xs' @ [(z, a, False)]" | (used) z xs' where "xs = xs' @ [(z, a, True)]" | (first) "xs = []"
  proof (cases xs rule: rev_exhaust)
    case (snoc xs' y)
    obtain z q u where "y = (z, q, u)" by (cases y)
    then show thesis using b(1) snoc that by (cases u) (auto simp: heap_chain_append)
  qed simp
  then show ?thesis
  proof cases
    case join
    have s: "heap_shape h (xs' @ (z, a, False) # (a, c, False) # ys)" using assms(1) join by simp
    note p = heap_shape_block [OF s]
    obtain m where m: "Option.bind (upd_mem z (\<lambda>x. x\<lparr>hm_next := c\<rparr>) h) (upd_mem c (\<lambda>x. x\<lparr>hm_prev := z\<rparr>)) = Some (h\<lparr>hmem := m\<rparr>)"
      "heap_shape (h\<lparr>hmem := m\<rparr>) (xs' @ (z, c, False) # ys)"
      using block_merge [OF s] by auto
    have "unat (lfree h) \<le> unat z" by (rule lfree_below [OF assms(1,2), of _ a]) (simp add: join)
    then have "lfree h \<noteq> a" using p(3) by auto
    then have "plug_backward a h = Some (h\<lparr>hmem := m\<rparr>)"
      using b(6) p(6,10) m(1) join by (simp add: plug_backward_def)
    moreover have "no_holes (xs' @ (z, c, False) # ys)"
      using assms(3,4) join by (simp add: no_holes_append no_holes_Cons)
    ultimately show ?thesis using m(2) same_used_merge [of xs' z a c ys "heap_end h"] join by fastforce
  next
    case used
    have s: "heap_shape h (xs' @ (z, a, True) # (a, c, False) # ys)" using assms(1) used by simp
    have "plug_backward a h = Some (h\<lparr>hmem := hmem h\<rparr>)"
      using b(6) heap_shape_block(6) [OF s] used by (simp add: plug_backward_def)
    then show ?thesis using assms used
      by (intro exI [of _ "hmem h"] exI [of _ "xs @ (a, c, False) # ys"]) (simp add: no_holes_append no_holes_Cons same_used_def)
  next
    case first
    then have "a = 0" using b(1) by simp
    then have "plug_backward a h = Some (h\<lparr>hmem := hmem h\<rparr>)" using b(6) first by (simp add: plug_backward_def)
    then show ?thesis using assms first by (intro exI [of _ "hmem h"] exI [of _ "xs @ (a, c, False) # ys"]) (simp add: same_used_def)
  qed
qed

lemma plug_holes_spec:
  assumes "heap_shape h (xs @ (a, c, False) # ys)" and "lfree h = first_free (xs @ (a, c, False) # ys) (heap_end h)"
    and "no_holes xs" and "no_holes ys"
  shows "\<exists>m bs'. plug_holes a h = Some (h\<lparr>hmem := m\<rparr>) \<and> heap_shape (h\<lparr>hmem := m\<rparr>) bs' \<and>
    no_holes bs' \<and> same_used (xs @ (a, c, False) # ys) bs' (heap_end h)"
proof -
  note b = heap_shape_block [OF assms(1)]
  obtain m d ys' where f: "plug_forward a h = Some (h\<lparr>hmem := m\<rparr>)" "heap_shape (h\<lparr>hmem := m\<rparr>) (xs @ (a, d, False) # ys')"
    "no_holes ((a, d, False) # ys')" "same_used (xs @ (a, c, False) # ys) (xs @ (a, d, False) # ys') (heap_end h)"
    using plug_forward_spec [OF assms(1,2,4)] by blast
  have "lfree (h\<lparr>hmem := m\<rparr>) = first_free (xs @ (a, d, False) # ys') (heap_end (h\<lparr>hmem := m\<rparr>))"
    using assms(2) f(4) by (simp add: same_used_def)
  from plug_backward_spec [OF f(2) this assms(3) f(3)]
  obtain m' bs' where g: "plug_backward a (h\<lparr>hmem := m\<rparr>) = Some (h\<lparr>hmem := m'\<rparr>)" "heap_shape (h\<lparr>hmem := m'\<rparr>) bs'"
    "no_holes bs'" "same_used (xs @ (a, d, False) # ys') bs' (heap_end h)" by auto
  have "plug_holes a h = Some (h\<lparr>hmem := m'\<rparr>)" using b(6,9) f(1) g(1) by (simp add: plug_holes_def)
  then show ?thesis using g(2,3) same_used_trans [OF f(4) g(4)] by blast
qed

section \<open>Allocation\<close>

text \<open>The blocks a request for \<open>sz\<close> bytes can be served from; the search looks at no offset behind \<^verbatim>\<open>mem_size_aligned - size\<close>.\<close>

definition fits :: "heap \<Rightarrow> u32 \<Rightarrow> block \<Rightarrow> bool" where
  "fits h sz = (\<lambda>(a, c, u). \<not> u \<and> a < mem_size_aligned h - sz \<and> unat sz + 12 \<le> unat c - unat a)"

lemma block_room:
  assumes "unat a + 12 \<le> unat c"
  shows "(sz :: u32) \<le> c - (a + 12) \<longleftrightarrow> unat sz + 12 \<le> unat c - unat a"
proof -
  have "unat (a + 12) = unat a + 12" using assms unat_u32_less [of c] by (simp add: unat_word_ariths)
  then have "unat (c - (a + 12)) = unat c - (unat a + 12)" using assms by (simp add: unat_sub word_le_nat_alt)
  then show ?thesis using assms by (auto simp: word_le_nat_alt)
qed

lemma block_size:
  fixes a c :: u32
  assumes "unat a + 12 \<le> unat c"
  shows "unat (c - a - 12) = unat c - unat a - 12"
proof -
  have "unat (c - a) = unat c - unat a" using assms by (simp add: unat_sub word_le_nat_alt)
  then show ?thesis using assms by (subst unat_sub) (auto simp: word_le_nat_alt)
qed

lemma malloc_search_find:
  assumes "heap_chain (hmem h) p a ys (heap_end h)" and "heap_end h = mem_size_aligned h + 12"
    and "unat (heap_end h) = unat (mem_size_aligned h) + 12" and "sz \<le> mem_size_aligned h"
  shows "malloc_search sz a h = Some (map_option fst (List.find (fits h sz) ys))"
  using assms(1)
proof (induction ys arbitrary: p a)
  case Nil
  have "unat (mem_size_aligned h - sz) \<le> unat (heap_end h)" using assms(3,4) by (simp add: unat_sub)
  then have "\<not> a < mem_size_aligned h - sz" using Nil by (simp add: word_less_nat_alt)
  then show ?case by (subst malloc_search.simps) simp
next
  case (Cons x ys)
  obtain c u where x: "x = (a, c, u)" using Cons.prems by (cases x) auto
  have ch: "heap_chain (hmem h) a c ys (heap_end h)" and ac: "unat a + 12 \<le> unat c" using Cons.prems x by auto
  show ?case
  proof (cases "a < mem_size_aligned h - sz")
    case True
    have "malloc_search sz a h = (if \<not> u \<and> sz \<le> c - (a + 12) then Some (Some a) else malloc_search sz c h)"
      using Cons.prems x True by (subst malloc_search.simps) auto
    then show ?thesis using Cons.IH [OF ch] x True block_room [OF ac] by (simp add: fits_def)
  next
    case False
    have "List.find (fits h sz) ys = None" unfolding find_None_iff
    proof
      assume "\<exists>y. y \<in> set ys \<and> fits h sz y"
      then obtain b d v where "(b, d, v) \<in> set ys" "b < mem_size_aligned h - sz" by (auto simp: fits_def)
      then show False using heap_chain_bounds [OF ch] ac False by (force simp: word_less_nat_alt)
    qed
    moreover have "malloc_search sz a h = Some None" using False by (subst malloc_search.simps) simp
    ultimately show ?thesis using False x by (simp add: fits_def)
  qed
qed

lemma first_free_cases:
  "(\<forall>b\<in>set xs. snd (snd b)) \<and> (\<forall>e. first_free xs e = e) \<or>
   (\<exists>b c. (b, c, False) \<in> set xs) \<and> (\<forall>e e'. first_free xs e = first_free xs e')"
  by (induction xs) (auto split: if_splits)

lemma first_free_split:
  assumes "heap_chain m p a bs e"
  shows "\<exists>xs ys q. bs = xs @ ys \<and> (\<forall>b\<in>set xs. snd (snd b)) \<and> heap_chain m q (first_free bs e) ys e"
  using assms
proof (induction bs arbitrary: p a)
  case Nil
  then show ?case by auto
next
  case (Cons x bs)
  obtain c u where x: "x = (a, c, u)" using Cons.prems by (cases x) auto
  show ?case
  proof (cases u)
    case True
    have ch: "heap_chain m a c bs e" using Cons.prems x by simp
    obtain xs ys q where "bs = xs @ ys" "\<forall>b\<in>set xs. snd (snd b)" "heap_chain m q (first_free bs e) ys e"
      using Cons.IH [OF ch] by blast
    then show ?thesis using x True by (intro exI [of _ "x # xs"] exI [of _ ys] exI [of _ q]) simp
  next
    case False
    then show ?thesis using Cons.prems x by (intro exI [of _ "[]"] exI [of _ "x # bs"] exI [of _ p]) simp
  qed
qed

lemma lfree_search_first:
  assumes "heap_chain (hmem h) p a ys (heap_end h)" and "\<exists>x. hmem h (heap_end h) = Some x"
  shows "lfree_search a h = Some (first_free ys (heap_end h))"
  using assms(1)
proof (induction ys arbitrary: p a)
  case Nil
  then show ?case using assms(2) by (subst lfree_search.simps) auto
next
  case (Cons x ys)
  obtain c u where x: "x = (a, c, u)" using Cons.prems by (cases x) auto
  have ch: "heap_chain (hmem h) a c ys (heap_end h)" and "unat a + 12 \<le> unat c" using Cons.prems x by auto
  then have "a \<noteq> heap_end h" using heap_chain_le [OF ch] by auto
  then show ?case using Cons.prems Cons.IH [OF ch] x by (subst lfree_search.simps) auto
qed

lemma heap_find_eq:
  assumes "heap_inv h bs" and "sz \<le> mem_size_aligned h"
  shows "malloc_search sz (lfree h) h = Some (map_option fst (List.find (fits h sz) bs))"
proof -
  have s: "heap_shape h bs" and l: "lfree h = first_free bs (heap_end h)" using assms(1) by (auto simp: heap_inv_def)
  have ch: "heap_chain (hmem h) 0 0 bs (heap_end h)" and e: "heap_end h = mem_size_aligned h + 12"
    using s unfolding heap_shape_def by blast+
  obtain xs ys q where sp: "bs = xs @ ys" "\<forall>b\<in>set xs. snd (snd b)" "heap_chain (hmem h) q (lfree h) ys (heap_end h)"
    using first_free_split [OF ch] l by auto
  have "List.find (fits h sz) xs = None" using sp(2) unfolding find_None_iff fits_def by fastforce
  then have "List.find (fits h sz) bs = List.find (fits h sz) ys"
    unfolding sp(1) by (induction xs) (auto split: if_splits)
  then show ?thesis using malloc_search_find [OF sp(3) e heap_shape_end [OF s] assms(2)] by simp
qed

lemma first_free_header:
  assumes "heap_chain m p a bs e" and "m e = Some x"
  shows "\<exists>y. m (first_free bs e) = Some y \<and> (first_free bs e = e \<or> hm_used y = 0)"
  using assms by (induction bs arbitrary: p a) auto

lemma malloc_lfree_spec:
  assumes "heap_shape h (xs @ (a, c, True) # ys)" and "lfree h = first_free (xs @ (a, c', False) # zs) (heap_end h)"
  shows "malloc_lfree a h = Some (h\<lparr>lfree := first_free (xs @ (a, c, True) # ys) (heap_end h)\<rparr>)"
proof (cases "a = lfree h")
  case True
  note b = heap_shape_block [OF assms(1)] and fa = trans [OF True assms(2), unfolded first_free_append first_free.simps if_False]
  have xs: "first_free xs e = e" for e
    using first_free_cases [of xs]
  proof
    assume "(\<exists>b c. (b, c, False) \<in> set xs) \<and> (\<forall>e e'. first_free xs e = first_free xs e')"
    then obtain b d where bd: "(b, d, False) \<in> set xs" by blast
    have "unat (first_free xs a) \<le> unat b" "unat b + 12 \<le> unat a"
      using first_free_below [OF b(1) bd, of a] heap_chain_bounds [OF b(1) bd] by simp_all
    then show ?thesis using arg_cong [OF fa, of unat] by linarith
  qed simp
  have ex: "\<exists>x. hmem h (heap_end h) = Some x" using assms(1) by (auto simp: heap_shape_def)
  have ch: "heap_chain (hmem h) (last_start 0 xs) a ((a, c, True) # ys) (heap_end h)"
    using b(2,4,6,11) by simp
  have l: "lfree_search a h = Some (first_free (xs @ (a, c, True) # ys) (heap_end h))"
    unfolding first_free_append xs by (rule lfree_search_first [OF ch ex])
  obtain x where "hmem h (first_free (xs @ (a, c, True) # ys) (heap_end h)) = Some x"
    "first_free (xs @ (a, c, True) # ys) (heap_end h) = heap_end h \<or> hm_used x = 0"
    using first_free_header [of "hmem h" 0 0 "xs @ (a, c, True) # ys" "heap_end h"] assms(1) unfolding heap_shape_def by blast
  then show ?thesis unfolding malloc_lfree_def using l by (simp add: True [symmetric])
next
  case False
  then have "\<not> (\<forall>e. first_free xs e = e)" using assms(2) by (force simp: first_free_append)
  then have "first_free xs e = first_free xs e'" for e e' using first_free_cases [of xs] by blast
  then have "lfree h = first_free (xs @ (a, c, True) # ys) (heap_end h)" using assms(2) by (simp add: first_free_append)
  then show ?thesis using False by (simp add: malloc_lfree_def)
qed

text \<open>The size of a block that is taken, and the rest of it that stays free.\<close>

definition take_block :: "u32 \<Rightarrow> block \<Rightarrow> block list" where
  "take_block sz = (\<lambda>(a, c, u). if unat sz + 36 \<le> unat c - unat a
     then [(a, a + 12 + sz, True), (a + 12 + sz, c, False)] else [(a, c, True)])"

lemma take_block_cases:
  obtains "take_block sz (a, c, False) = [(a, a + 12 + sz, True), (a + 12 + sz, c, False)]" and "unat sz + 36 \<le> unat c - unat a"
  | "take_block sz (a, c, False) = [(a, c, True)]"
  by (cases "unat sz + 36 \<le> unat c - unat a") (simp_all add: take_block_def)

lemma block_room_split:
  fixes a c sz :: u32
  assumes "unat a + 12 \<le> unat c" and "unat sz + 24 < 2 ^ 32"
  shows "sz + 12 + 12 \<le> c - (a + 12) \<longleftrightarrow> unat sz + 36 \<le> unat c - unat a"
proof -
  have "unat (sz + 12 + 12) = unat sz + 24" using assms(2) by (simp add: unat_word_ariths)
  then show ?thesis using block_room [OF assms(1), of "sz + 12 + 12"] by (simp only: add.assoc) simp
qed

lemma malloc_take_spec:
  assumes "heap_shape h (xs @ (a, c, False) # ys)" and "unat sz + 24 < 2 ^ 32" and "4 dvd unat sz" and "4 dvd unat a"
    and "0 < unat sz"
  shows "\<exists>m n. malloc_take sz a h = Some (count_used n (h\<lparr>hmem := m\<rparr>)) \<and>
    heap_shape (h\<lparr>hmem := m\<rparr>) (xs @ take_block sz (a, c, False) @ ys) \<and> n = used_bytes (take_block sz (a, c, False))"
proof (cases "unat sz + 36 \<le> unat c - unat a")
  case True
  note b = heap_shape_block [OF assms(1)]
  let ?d = "a + 12 + sz"
  have d: "unat ?d = unat a + 12 + unat sz" using True unat_u32_less [of c] by (simp add: unat_word_ariths)
  then have "unat a + 12 < unat ?d" "unat ?d + 12 < unat c" "4 dvd unat ?d" using True assms(3,4,5) by auto
  from block_split [OF assms(1) this]
  obtain m where m: "split_block a ?d h = Some (h\<lparr>hmem := m\<rparr>)"
    "heap_shape (h\<lparr>hmem := m\<rparr>) (xs @ (a, ?d, False) # (?d, c, False) # ys)" by blast
  obtain m' where m': "upd_mem a (\<lambda>x. x\<lparr>hm_used := of_bool True, hm_magic := HEAP_MAGIC\<rparr>) (h\<lparr>hmem := m\<rparr>) = Some (h\<lparr>hmem := m'\<rparr>)"
    "heap_shape (h\<lparr>hmem := m'\<rparr>) (xs @ (a, ?d, True) # (?d, c, False) # ys)"
    using block_set_used [OF m(2), of True] by auto
  have "malloc_take sz a h = Some (count_used (sz + 12) (h\<lparr>hmem := m'\<rparr>))"
    using b(6) m(1) m'(1) True block_room_split [OF b(3) assms(2)] by (simp add: malloc_take_def)
  then show ?thesis using m'(2) True by (auto simp: take_block_def add.commute)
next
  case False
  note b = heap_shape_block [OF assms(1)]
  obtain m where m: "upd_mem a (\<lambda>x. x\<lparr>hm_used := of_bool True, hm_magic := HEAP_MAGIC\<rparr>) h = Some (h\<lparr>hmem := m\<rparr>)"
    "heap_shape (h\<lparr>hmem := m\<rparr>) (xs @ (a, c, True) # ys)"
    using block_set_used [OF assms(1), of True] by auto
  have "malloc_take sz a h = Some (count_used (c - a) (h\<lparr>hmem := m\<rparr>))"
    using b(6) m(1) False block_room_split [OF b(3) assms(2)] by (simp add: malloc_take_def)
  then show ?thesis using m(2) False by (auto simp: take_block_def)
qed

lemma heap_shape_aligned:
  assumes "heap_shape h bs" and "(a, c, u) \<in> set bs"
  shows "4 dvd unat a"
proof -
  have "heap_chain m p a0 bs e \<Longrightarrow> 4 dvd unat a0 \<Longrightarrow> (a, c, u) \<in> set bs \<Longrightarrow> 4 dvd unat a" for m p a0 e
    by (induction bs arbitrary: p a0) auto
  then show ?thesis using assms unfolding heap_shape_def by (metis dvd_0_right unsigned_0)
qed

lemma take_block_no_holes:
  assumes "no_holes (xs @ (a, c, False) # ys)"
  shows "no_holes (xs @ take_block sz (a, c, False) @ ys)"
proof (rule take_block_cases [of sz a c])
  show ?thesis if "take_block sz (a, c, False) = [(a, a + 12 + sz, True), (a + 12 + sz, c, False)]"
    unfolding that using assms by (simp add: no_holes_append no_holes_Cons)
  show ?thesis if "take_block sz (a, c, False) = [(a, c, True)]"
    unfolding that using assms by (simp add: no_holes_append no_holes_Cons)
qed

lemma heap_alloc_spec:
  assumes "heap_inv h bs" and "unat sz + 24 < 2 ^ 32" and "4 dvd unat sz" and "sz \<le> mem_size_aligned h" and "0 < unat sz"
  shows "case List.find (fits h sz) bs of
      None \<Rightarrow> heap_alloc sz h = Some (h, None)
    | Some (a, c, u) \<Rightarrow> \<exists>xs ys h'. bs = xs @ (a, c, False) # ys \<and> heap_alloc sz h = Some (h', Some a) \<and>
        heap_frame h h' \<and> heap_inv h' (xs @ take_block sz (a, c, False) @ ys)"
proof (cases "List.find (fits h sz) bs")
  case None
  then show ?thesis using heap_find_eq [OF assms(1,4)] by (simp add: heap_alloc_def)
next
  case (Some x)
  obtain a c u where x: "x = (a, c, u)" by (cases x)
  obtain xs ys where sp: "bs = xs @ x # ys" "fits h sz x"
    using Some split_list [of x bs] by (auto simp: find_Some_iff)
  have u: "\<not> u" using sp(2) x by (simp add: fits_def)
  have inv: "heap_shape h (xs @ (a, c, False) # ys)" "no_holes (xs @ (a, c, False) # ys)"
    "lfree h = first_free (xs @ (a, c, False) # ys) (heap_end h)" "used_mem h = used_bytes (xs @ (a, c, False) # ys)"
    using assms(1) sp(1) x u by (auto simp: heap_inv_def)
  have "4 dvd unat a" by (rule heap_shape_aligned [OF inv(1), of a c False]) simp
  from malloc_take_spec [OF inv(1) assms(2,3) this assms(5)]
  obtain m n where m: "malloc_take sz a h = Some (count_used n (h\<lparr>hmem := m\<rparr>))"
    "heap_shape (h\<lparr>hmem := m\<rparr>) (xs @ take_block sz (a, c, False) @ ys)" "n = used_bytes (take_block sz (a, c, False))" by blast
  let ?h1 = "count_used n (h\<lparr>hmem := m\<rparr>)" and ?bs = "xs @ take_block sz (a, c, False) @ ys"
  obtain c' zs where tb: "?bs = xs @ (a, c', True) # zs"
    by (rule take_block_cases [of sz a c]) auto
  have h1: "heap_end ?h1 = heap_end h" "lfree ?h1 = lfree h" by (simp_all add: count_used_def)
  have "malloc_lfree a ?h1 = Some (?h1\<lparr>lfree := first_free ?bs (heap_end h)\<rparr>)"
    unfolding tb h1(1) [symmetric] by (rule malloc_lfree_spec [of _ _ _ _ _ c ys]) (use m(2) tb h1 inv(3) in simp_all)
  then have alloc: "heap_alloc sz h = Some (?h1\<lparr>lfree := first_free ?bs (heap_end h)\<rparr>, Some a)"
    using heap_find_eq [OF assms(1,4)] Some x m(1) by (simp add: heap_alloc_def)
  have "heap_inv (?h1\<lparr>lfree := first_free ?bs (heap_end h)\<rparr>) ?bs"
    using m(2,3) inv(4) take_block_no_holes [OF inv(2)] by (simp add: heap_inv_def count_used_def)
  moreover have "heap_frame h (?h1\<lparr>lfree := first_free ?bs (heap_end h)\<rparr>)" by (simp add: heap_frame_def count_used_def)
  moreover have "bs = xs @ (a, c, False) # ys" using sp(1) x u by simp
  ultimately show ?thesis using alloc unfolding Some x option.case prod.case by blast
qed

section \<open>Release and shrinking\<close>

lemma first_free_above:
  assumes "heap_chain m p a bs e"
  shows "unat a \<le> unat (first_free bs e)"
  using assms
proof (induction bs arbitrary: p a)
  case (Cons x bs)
  then show ?case by (cases x) fastforce
qed simp

text \<open>Lowering \<^verbatim>\<open>lfree\<close> to a block that becomes free makes it the lowest free block again.\<close>

lemma first_free_lower:
  assumes "heap_chain m 0 0 xs a" and "heap_chain m' q c ys e" and "unat a + 12 \<le> unat c"
  shows "(if a < first_free (xs @ ys) e then a else first_free (xs @ ys) e) = first_free (xs @ (a, c, False) # ys) e"
  using first_free_cases [of xs]
proof
  assume "(\<forall>b\<in>set xs. snd (snd b)) \<and> (\<forall>e. first_free xs e = e)"
  moreover have "a < first_free ys e" using first_free_above [OF assms(2)] assms(3) by (simp add: word_less_nat_alt)
  ultimately show ?thesis by (simp add: first_free_append)
next
  assume fr: "(\<exists>b c. (b, c, False) \<in> set xs) \<and> (\<forall>e e'. first_free xs e = first_free xs e')"
  then obtain b d where bd: "(b, d, False) \<in> set xs" by blast
  have "unat (first_free xs (first_free ys e)) \<le> unat b" "unat b + 12 \<le> unat a"
    using first_free_below [OF assms(1) bd] heap_chain_bounds [OF assms(1) bd] by auto
  then have "\<not> a < first_free xs (first_free ys e)" by (simp add: word_less_nat_alt)
  moreover have "first_free xs (first_free ys e) = first_free xs a" using fr by blast
  ultimately show ?thesis by (simp add: first_free_append)
qed

lemma plug_after_lower:
  assumes "heap_shape h (xs @ (a, c, False) # ys)" and "lfree h = first_free (xs @ ys) (heap_end h)"
    and "no_holes xs" and "no_holes ys" and "used_mem h = used_bytes (xs @ ys)"
  shows "\<exists>h' bs'. plug_holes a (if a < lfree h then h\<lparr>lfree := a\<rparr> else h) = Some h' \<and> heap_frame h h' \<and> heap_inv h' bs' \<and>
    (\<forall>b d. (b, d, True) \<in> set bs' \<longleftrightarrow> (b, d, True) \<in> set (xs @ ys))"
proof -
  note b = heap_shape_block [OF assms(1)]
  let ?h = "if a < lfree h then h\<lparr>lfree := a\<rparr> else h"
  have h: "heap_shape ?h (xs @ (a, c, False) # ys)" "heap_end ?h = heap_end h" "used_mem ?h = used_bytes (xs @ ys)" "heap_frame h ?h"
    using assms(1,5) by (simp_all add: heap_frame_def)
  have "lfree ?h = first_free (xs @ (a, c, False) # ys) (heap_end ?h)"
    using first_free_lower [OF b(1,2,3)] assms(2) h(2) by (simp split: if_splits)
  from plug_holes_spec [OF h(1) this assms(3,4)]
  obtain m bs' where p: "plug_holes a ?h = Some (?h\<lparr>hmem := m\<rparr>)" "heap_shape (?h\<lparr>hmem := m\<rparr>) bs'" "no_holes bs'"
    "same_used (xs @ (a, c, False) # ys) bs' (heap_end ?h)" by blast
  have "heap_inv (?h\<lparr>hmem := m\<rparr>) bs'"
    using p(2,3,4) h(3) \<open>lfree ?h = _\<close> unfolding heap_inv_def same_used_def by simp
  moreover have "heap_frame h (?h\<lparr>hmem := m\<rparr>)" using h(4) by (simp add: heap_frame_def)
  moreover have "\<forall>b d. (b, d, True) \<in> set bs' \<longleftrightarrow> (b, d, True) \<in> set (xs @ ys)" using p(4) by (simp add: same_used_def)
  ultimately show ?thesis using p(1) by blast
qed

lemma heap_release_spec:
  assumes "heap_inv h (xs @ (a, c, True) # ys)"
  shows "\<exists>h' bs'. heap_release a h = Some h' \<and> heap_frame h h' \<and> heap_inv h' bs' \<and>
    (\<forall>b d. (b, d, True) \<in> set bs' \<longleftrightarrow> (b, d, True) \<in> set (xs @ ys))"
proof -
  have s: "heap_shape h (xs @ (a, c, True) # ys)" and nh: "no_holes xs" "no_holes ys"
    and l: "lfree h = first_free (xs @ ys) (heap_end h)" and u: "used_mem h - (c - a) = used_bytes (xs @ ys)"
    using assms by (auto simp: heap_inv_def no_holes_append no_holes_Cons first_free_append)
  note b = heap_shape_block [OF s]
  obtain m where m: "upd_mem a (\<lambda>x. x\<lparr>hm_used := of_bool False, hm_magic := HEAP_MAGIC\<rparr>) h = Some (h\<lparr>hmem := m\<rparr>)"
    "heap_shape (h\<lparr>hmem := m\<rparr>) (xs @ (a, c, False) # ys)"
    using block_set_used [OF s, of False] by blast
  let ?h = "h\<lparr>hmem := m, used_mem := used_mem h - (c - a)\<rparr>"
  have hs: "heap_shape ?h (xs @ (a, c, False) # ys)" using m(2) by simp
  have comm: "h\<lparr>hmem := m, lfree := a, used_mem := used_mem h - (c - a)\<rparr> = ?h\<lparr>lfree := a\<rparr>" by (rule heap.equality) simp_all
  have "heap_release a h = plug_holes a (if a < lfree ?h then ?h\<lparr>lfree := a\<rparr> else ?h)"
    using b(6) m(1) by (simp add: heap_release_def comm)
  moreover have "heap_frame h h' \<longleftrightarrow> heap_frame ?h h'" for h' by (simp add: heap_frame_def)
  ultimately show ?thesis using plug_after_lower [OF hs _ nh] l u by simp
qed

lemma heap_shrink_spec:
  assumes "heap_inv h (xs @ (a, c, True) # ys)" and "unat n + 36 \<le> unat c - unat a" and "4 dvd unat n" and "0 < unat n"
  shows "\<exists>h' bs'. heap_shrink a n h = Some h' \<and> heap_frame h h' \<and> heap_inv h' bs' \<and>
    (\<forall>b d. (b, d, True) \<in> set bs' \<longleftrightarrow> (b, d, True) \<in> set (xs @ (a, a + 12 + n, True) # ys))"
proof -
  let ?d = "a + 12 + n"
  have s: "heap_shape h (xs @ (a, c, True) # ys)" and nh: "no_holes xs" "no_holes ys" "xs \<noteq> [] \<longrightarrow> no_holes (xs @ [(a, ?d, True)])"
    and l: "lfree h = first_free ((xs @ [(a, ?d, True)]) @ ys) (heap_end h)" and u: "used_mem h = used_bytes (xs @ (a, c, True) # ys)"
    using assms(1) by (auto simp: heap_inv_def no_holes_append no_holes_Cons first_free_append)
  note b = heap_shape_block [OF s]
  have a4: "4 dvd unat a" by (rule heap_shape_aligned [OF s, of a c True]) simp
  have d: "unat ?d = unat a + 12 + unat n" using assms(2) unat_u32_less [of c] by (simp add: unat_word_ariths)
  then have room: "unat a + 12 < unat ?d" "unat ?d + 12 < unat c" "4 dvd unat ?d" using assms(2,3,4) a4 by auto
  let ?h0 = "h\<lparr>used_mem := used_mem h - (c - a - 12 - n)\<rparr>"
  obtain m where m: "split_block a ?d ?h0 = Some (?h0\<lparr>hmem := m\<rparr>)"
    "heap_shape (?h0\<lparr>hmem := m\<rparr>) (xs @ (a, ?d, True) # (?d, c, False) # ys)"
    using block_split [of ?h0 xs a c True ys ?d] s room by auto
  let ?h = "?h0\<lparr>hmem := m\<rparr>" and ?xs = "xs @ [(a, ?d, True)]"
  have hs: "heap_shape ?h (?xs @ (?d, c, False) # ys)" using m(2) by simp
  have "heap_shrink a n h = plug_holes ?d (if ?d < lfree ?h then ?h\<lparr>lfree := ?d\<rparr> else ?h)"
    using b(6) m(1) by (simp add: heap_shrink_def Let_def)
  moreover have "heap_frame h h' \<longleftrightarrow> heap_frame ?h h'" for h' by (simp add: heap_frame_def)
  moreover have "no_holes ?xs" using nh(1,3) by (cases "xs = []") (simp_all add: no_holes_Cons)
  moreover have "used_mem ?h = used_bytes (?xs @ ys)" using u by simp
  ultimately show ?thesis using plug_after_lower [OF hs _ _ nh(2)] l by simp
qed

end
