(* ===== verification/HeapAlloc.thy ===== *)
theory HeapAlloc
  imports HeapBlocks
begin

text \<open>
  The allocator seen from its callers: which blocks are in use after \<^verbatim>\<open>rt_malloc\<close>, \<^verbatim>\<open>rt_free\<close> and \<^verbatim>\<open>rt_realloc\<close>,
  called while no other thread is in the heap, and the set-up of the heap.
\<close>

section \<open>The allocator\<close>

text \<open>The state in which no operation on the heap is under way: the semaphore is free and nobody waits for it.\<close>

definition heap_idle :: "heap \<Rightarrow> kernel \<Rightarrow> bool" where
  "heap_idle h s \<longleftrightarrow> rt_interrupt_nest s = 0 \<and> queues s (SemQ (heap_sem h)) = [] \<and>
     (\<exists>sem. sems s (heap_sem h) = Some sem \<and> rt_object_get_type (sem_type sem) = RT_Object_Class_Semaphore \<and> sem_value sem = 1)"

lemma heap_lock_unlock:
  assumes "heap_idle h s"
  shows "\<exists>s1. rt_sem_take (heap_sem h) RT_WAITING_FOREVER s = Some (s1, Done RT_EOK) \<and> rt_sem_release (heap_sem h) s1 = Some (s, RT_EOK)"
proof -
  obtain sem where sem: "sems s (heap_sem h) = Some sem" "rt_object_get_type (sem_type sem) = RT_Object_Class_Semaphore" "sem_value sem = 1"
    using assms by (auto simp: heap_idle_def)
  let ?s1 = "upd_sem (heap_sem h) (\<lambda>sem. sem\<lparr>sem_value := sem_value sem - 1\<rparr>) s"
  have "rt_sem_take (heap_sem h) RT_WAITING_FOREVER s = Some (?s1, Done RT_EOK)" using sem by (simp add: rt_sem_take_def)
  moreover have "upd_sem (heap_sem h) (\<lambda>sem. sem\<lparr>sem_value := sem_value sem + 1\<rparr>) ?s1 = s"
    using sem by (intro kernel.equality) (auto simp: upd_sem_def)
  then have "rt_sem_release (heap_sem h) ?s1 = Some (s, RT_EOK)"
    using sem assms by (simp add: rt_sem_release_def heap_idle_def) (simp add: upd_sem_def)
  ultimately show ?thesis by blast
qed

lemma heap_idle_frame: "heap_frame h h' \<Longrightarrow> heap_idle h' s = heap_idle h s"
  by (simp add: heap_idle_def heap_frame_def)

lemma align_up_4:
  assumes "unat sz \<le> 0xfffffffc"
  shows "unat (RT_ALIGN sz RT_ALIGN_SIZE) = (unat sz + 3) div 4 * 4"
proof -
  have "RT_ALIGN sz RT_ALIGN_SIZE = (sz + 3) AND NOT (mask 2)" by (simp add: RT_ALIGN_def mask_eq_exp_minus_1 add.commute)
  moreover have "unat (sz + 3) = unat sz + 3" using assms by (simp add: unat_word_ariths)
  ultimately show ?thesis using and_not_mask_unat [of "sz + 3" 2] by (simp add: minus_mod_eq_div_mult)
qed

lemma malloc_size_props:
  assumes "unat sz \<le> 0xfffffffc"
  shows "unat sz \<le> unat (malloc_size sz)" and "4 dvd unat (malloc_size sz)" and "12 \<le> unat (malloc_size sz)"
    and "malloc_size sz = RT_ALIGN sz RT_ALIGN_SIZE \<or> malloc_size sz = 12"
proof -
  note a = align_up_4 [OF assms]
  have "unat sz \<le> (unat sz + 3) div 4 * 4" by linarith
  then show "unat sz \<le> unat (malloc_size sz)" "4 dvd unat (malloc_size sz)" "12 \<le> unat (malloc_size sz)"
    "malloc_size sz = RT_ALIGN sz RT_ALIGN_SIZE \<or> malloc_size sz = 12"
    using a by (auto simp: malloc_size_def Let_def word_less_nat_alt)
qed

text \<open>An address that \<^verbatim>\<open>rt_malloc\<close> returned, for the block at an offset.\<close>

definition user_ptr :: "heap \<Rightarrow> u32 \<Rightarrow> u32" where
  "user_ptr h a = heap_ptr h + a + 12"

lemma user_ptr_props:
  assumes "heap_shape h bs" and "(a, c, u) \<in> set bs"
  shows "unat (user_ptr h a) = unat (heap_ptr h) + unat a + 12" and "user_ptr h a \<noteq> 0"
    and "user_ptr h a AND 3 = 0" and "user_ptr h a mod 4 = 0" and "heap_ptr h + a + 12 \<le> heap_ptr h + heap_end h"
    and "unat (heap_ptr h + heap_end h) = unat (heap_ptr h) + unat (heap_end h)" and "(heap_ptr h + a) AND 3 = 0"
    and "4 dvd unat (user_ptr h a)"
proof -
  have s: "unat (heap_ptr h) + unat (mem_size_aligned h) + 24 \<le> 2 ^ 32" "0 < unat (heap_ptr h)" "4 dvd unat (heap_ptr h)"
    "heap_chain (hmem h) 0 0 bs (heap_end h)" using assms(1) unfolding heap_shape_def by blast+
  note e = heap_shape_end [OF assms(1)]
  have b: "unat a + 12 \<le> unat (heap_end h)" using heap_chain_bounds [OF s(4) assms(2)] by linarith
  show u: "unat (user_ptr h a) = unat (heap_ptr h) + unat a + 12" using s(1) b e by (simp add: user_ptr_def unat_word_ariths)
  then show "user_ptr h a \<noteq> 0" using s(2) by auto
  show he: "unat (heap_ptr h + heap_end h) = unat (heap_ptr h) + unat (heap_end h)" using s(1) e by (simp add: unat_word_ariths)
  show "heap_ptr h + a + 12 \<le> heap_ptr h + heap_end h" using u he b by (simp add: word_le_nat_alt user_ptr_def)
  have a4: "4 dvd unat a" by (rule heap_shape_aligned [OF assms])
  have m: "x AND 3 = 0" if "4 dvd unat x" for x :: u32
  proof -
    have "x AND 3 = take_bit 2 x" by (simp add: take_bit_eq_mask mask_eq_exp_minus_1)
    moreover have "unat (take_bit 2 x) = unat x mod 4" by (simp only: unsigned_take_bit_eq) (simp add: take_bit_eq_mod)
    ultimately show ?thesis using that by (simp add: unat_eq_0)
  qed
  show u4: "4 dvd unat (user_ptr h a)" using u s(3) a4 by simp
  then show "user_ptr h a AND 3 = 0" by (rule m)
  have "unat (user_ptr h a mod 4) = 0" using u4 by (simp add: unat_mod)
  then show "user_ptr h a mod 4 = 0" by (simp add: unat_eq_0)
  have "unat (heap_ptr h + a) = unat (heap_ptr h) + unat a" using s(1) b e by (simp add: unat_word_ariths)
  then show "(heap_ptr h + a) AND 3 = 0" using s(3) a4 by (intro m) simp
qed

lemma heap_chain_disjoint:
  assumes "heap_chain m p q bs e" and "(a, c, u) \<in> set bs" and "(b, d, v) \<in> set bs"
  shows "(a, c, u) = (b, d, v) \<or> unat c \<le> unat b \<or> unat d \<le> unat a"
  using assms
proof (induction bs arbitrary: p q)
  case (Cons x bs)
  obtain r w where x: "x = (q, r, w)" using Cons.prems(1) by (cases x) auto
  have ch: "heap_chain m q r bs e" using Cons.prems(1) x by simp
  show ?case
    using Cons.prems(2,3) x Cons.IH [OF ch] heap_chain_bounds [OF ch, of a c u] heap_chain_bounds [OF ch, of b d v] by auto
qed simp

lemma allocated_take:
  assumes "heap_inv h (xs @ (a, c, False) # ys)" and "heap_inv h' (xs @ take_block sz (a, c, False) @ ys)"
    and "unat sz + 12 \<le> unat c - unat a"
  shows "\<exists>d. (a, d) \<notin> allocated h \<and> allocated h' = insert (a, d) (allocated h) \<and> unat a + 12 + unat sz \<le> unat d \<and>
    (a, d, True) \<in> set (xs @ take_block sz (a, c, False) @ ys)"
proof -
  have s: "heap_shape h (xs @ (a, c, False) # ys)" using assms(1) by (simp add: heap_inv_def)
  have ch: "heap_chain (hmem h) 0 0 (xs @ (a, c, False) # ys) (heap_end h)" using s unfolding heap_shape_def by blast
  have new: "(a, d) \<notin> allocated h" for d
  proof
    assume "(a, d) \<in> allocated h"
    then have ad: "(a, d, True) \<in> set (xs @ (a, c, False) # ys)" using allocated_eq [OF assms(1)] by simp
    then show False using heap_chain_disjoint [OF ch ad, of a c False] heap_chain_bounds [OF ch ad] heap_shape_block(3) [OF s] by auto
  qed
  have al: "allocated h = {(b, d). (b, d, True) \<in> set (xs @ ys)}" using allocated_eq [OF assms(1)] by simp
  show ?thesis
  proof (rule take_block_cases [of sz a c])
    assume t: "take_block sz (a, c, False) = [(a, a + 12 + sz, True), (a + 12 + sz, c, False)]" "unat sz + 36 \<le> unat c - unat a"
    have "unat (a + 12 + sz) = unat a + 12 + unat sz" using t(2) unat_u32_less [of c] by (simp add: unat_word_ariths)
    then show ?thesis using new [of "a + 12 + sz"] allocated_eq [OF assms(2)] t(1) al by (intro exI [of _ "a + 12 + sz"]) auto
  next
    assume t: "take_block sz (a, c, False) = [(a, c, True)]"
    then show ?thesis using new [of c] allocated_eq [OF assms(2)] al assms(3) heap_shape_block(3) [OF s] by (intro exI [of _ c]) auto
  qed
qed

text \<open>The allocation of a block, seen from the outside.\<close>

definition malloc_result :: "u32 \<Rightarrow> heap \<Rightarrow> heap \<Rightarrow> u32 option \<Rightarrow> bool" where
  "malloc_result sz h h' r \<longleftrightarrow> (case r of
     None \<Rightarrow> h' = h
   | Some p \<Rightarrow> \<exists>a c. p = user_ptr h a \<and> 4 dvd unat p \<and> (a, c) \<notin> allocated h \<and> allocated h' = insert (a, c) (allocated h) \<and>
       unat a + 12 + unat sz \<le> unat c \<and> unat c \<le> unat (heap_end h) \<and>
       (\<forall>(b, d)\<in>allocated h. unat c \<le> unat b \<or> unat d \<le> unat a))"

lemma heap_alloc_result:
  assumes "heap_inv h bs" and "unat sz + 24 < 2 ^ 32" and "4 dvd unat sz" and "sz \<le> mem_size_aligned h" and "0 < unat sz"
  shows "\<exists>h' r. heap_alloc sz h = Some (h', r) \<and> heap_ok h' \<and> heap_frame h h' \<and>
    malloc_result sz h h' (map_option (user_ptr h) r) \<and> (r = None \<longleftrightarrow> (\<forall>b\<in>set bs. \<not> fits h sz b)) \<and>
    (\<forall>a. r = Some a \<longrightarrow> (\<exists>d bs'. heap_shape h' bs' \<and> (a, d, True) \<in> set bs' \<and> unat a + 12 + unat sz \<le> unat d))"
proof (cases "List.find (fits h sz) bs")
  case None
  then have "heap_alloc sz h = Some (h, None)" using heap_alloc_spec [OF assms] by simp
  moreover have "\<forall>b\<in>set bs. \<not> fits h sz b" using None unfolding find_None_iff by blast
  ultimately show ?thesis using heap_okI [OF assms(1)]
    by (intro exI [of _ h] exI [of _ None]) (simp add: malloc_result_def heap_frame_def)
next
  case (Some x)
  obtain a c u where x: "x = (a, c, u)" by (cases x)
  have f: "(a, c, u) \<in> set bs" "fits h sz (a, c, u)" using Some x by (auto simp: find_Some_iff)
  obtain xs ys h' where sp: "bs = xs @ (a, c, False) # ys" "heap_alloc sz h = Some (h', Some a)" "heap_frame h h'"
    "heap_inv h' (xs @ take_block sz (a, c, False) @ ys)"
    using heap_alloc_spec [OF assms] unfolding Some x option.case prod.case by blast
  let ?bs = "xs @ take_block sz (a, c, False) @ ys"
  have "unat sz + 12 \<le> unat c - unat a" using f(2) by (simp add: fits_def)
  from allocated_take [OF assms(1) [unfolded sp(1)] sp(4) this]
  obtain d where d: "(a, d) \<notin> allocated h" "allocated h' = insert (a, d) (allocated h)" "unat a + 12 + unat sz \<le> unat d"
    "(a, d, True) \<in> set ?bs" by blast
  have s': "heap_shape h' ?bs" using sp(4) by (simp add: heap_inv_def)
  have ch: "heap_chain (hmem h') 0 0 ?bs (heap_end h)" using s' sp(3) unfolding heap_shape_def heap_frame_def by metis
  have p: "user_ptr h' a = user_ptr h a" using sp(3) by (simp add: heap_frame_def user_ptr_def)
  have "4 dvd unat (user_ptr h a)"
    using user_ptr_props(8) [OF s' d(4)] p by simp
  moreover have "unat d \<le> unat (heap_end h)" using heap_chain_bounds [OF ch d(4)] by simp
  moreover have "unat d \<le> unat b \<or> unat e \<le> unat a" if "(b, e) \<in> allocated h" for b e
  proof -
    have "(b, e, True) \<in> set ?bs" using that d(2) allocated_eq [OF sp(4)] by auto
    then show ?thesis using heap_chain_disjoint [OF ch d(4)] that d(1) by blast
  qed
  ultimately have "malloc_result sz h h' (Some (user_ptr h a))"
    using d(1,2,3) unfolding malloc_result_def option.case by blast
  moreover have "\<exists>d bs'. heap_shape h' bs' \<and> (a, d, True) \<in> set bs' \<and> unat a + 12 + unat sz \<le> unat d" using s' d(3,4) by blast
  moreover have "\<not> (\<forall>b\<in>set bs. \<not> fits h sz b)" using f by blast
  ultimately show ?thesis using sp(2,3) heap_okI [OF sp(4)]
    by (intro exI [of _ h'] exI [of _ "Some a"]) (simp only: option.simps option.inject, blast)
qed

lemma heap_size_aligned:
  assumes "heap_shape h bs"
  shows "4 dvd unat (mem_size_aligned h)"
proof -
  have "heap_chain m p a bs e \<Longrightarrow> 4 dvd unat a \<Longrightarrow> 4 dvd unat e" for m p a e
    by (induction bs arbitrary: p a) auto
  then have "4 dvd unat (heap_end h)" using assms unfolding heap_shape_def by (metis dvd_0_right unsigned_0)
  then show ?thesis using heap_shape_end [OF assms] by presburger
qed

lemma malloc_return_idle:
  assumes "heap_inv h bs" and "rt_sem_release (heap_sem h) s1 = Some (s, RT_EOK)"
    and "unat sz \<le> 0xfffffffc" and "RT_ALIGN sz RT_ALIGN_SIZE \<le> mem_size_aligned h"
  shows "\<exists>h' r. rt_malloc_return sz h s1 = Some (h', s, Done r) \<and> heap_ok h' \<and> heap_frame h h' \<and> malloc_result sz h h' r \<and>
    (r = None \<longleftrightarrow> (\<forall>b\<in>set bs. \<not> fits h (malloc_size sz) b))"
proof -
  let ?sz = "malloc_size sz"
  note m = malloc_size_props [OF assms(3)]
  have s: "heap_shape h bs" using assms(1) by (simp add: heap_inv_def)
  have ms: "12 \<le> unat (mem_size_aligned h)" "unat (mem_size_aligned h) + 24 < 2 ^ 32"
    using s by (auto simp: heap_shape_def)
  then have le: "?sz \<le> mem_size_aligned h" using m(4) assms(4) by (auto simp: word_le_nat_alt)
  then have "unat ?sz + 24 < 2 ^ 32" using ms(2) by (simp add: word_le_nat_alt)
  moreover have "0 < unat ?sz" using m(3) by simp
  ultimately obtain h' r where r: "heap_alloc ?sz h = Some (h', r)" "heap_ok h'" "heap_frame h h'" "malloc_result ?sz h h' (map_option (user_ptr h) r)"
    "r = None \<longleftrightarrow> (\<forall>b\<in>set bs. \<not> fits h ?sz b)"
    "\<forall>a. r = Some a \<longrightarrow> (\<exists>d bs'. heap_shape h' bs' \<and> (a, d, True) \<in> set bs' \<and> unat a + 12 + unat ?sz \<le> unat d)"
    using heap_alloc_result [OF assms(1) _ m(2) le] by blast
  have res: "malloc_result sz h h' (map_option (user_ptr h) r)"
    using r(4) m(1) by (cases r) (auto simp: malloc_result_def, metis (no_types, lifting) le_trans add_le_mono le_refl)
  have fr: "heap_sem h' = heap_sem h" "heap_ptr h' = heap_ptr h" using r(3) by (auto simp: heap_frame_def)
  have "rt_malloc_return sz h s1 = Some (h', s, Done (map_option (user_ptr h) r))"
  proof (cases r)
    case None
    then show ?thesis using r(1) assms(2) fr by (simp add: rt_malloc_return_def)
  next
    case (Some a)
    obtain d bs' where b: "heap_shape h' bs'" "(a, d, True) \<in> set bs'" "unat a + 12 + unat ?sz \<le> unat d" using r(6) Some by blast
    note u = user_ptr_props [OF b(1,2)]
    have "unat d \<le> unat (heap_end h')" using b(1,2) heap_chain_bounds unfolding heap_shape_def by blast
    then have "unat (user_ptr h' a) + unat ?sz \<le> unat (heap_ptr h' + heap_end h')" using u(1,6) b(3) by simp
    then have "user_ptr h' a + ?sz \<le> heap_ptr h' + heap_end h'"
      using unat_u32_less [of "heap_ptr h' + heap_end h'"] by (simp add: word_le_nat_alt unat_word_ariths)
    then show ?thesis using Some r(1) assms(2) fr u(4,7) unfolding rt_malloc_return_def
      by (simp add: user_ptr_def Let_def)
  qed
  then show ?thesis using r(2,3,5) res by auto
qed

lemma malloc_idle:
  assumes "heap_ok h" and "heap_idle h s" and "sz \<noteq> 0" and "unat sz \<le> 0xfffffffc"
  shows "\<exists>h' r. rt_malloc sz h s = Some (h', s, Done r) \<and> heap_ok h' \<and> heap_frame h h' \<and> malloc_result sz h h' r \<and>
    (r = None \<longleftrightarrow> unat (mem_size_aligned h) < unat sz \<or> (\<forall>b\<in>set (heap_blocks h). \<not> fits h (malloc_size sz) b))"
proof -
  have inv: "heap_inv h (heap_blocks h)" using assms(1) by (simp add: heap_ok_def)
  then have "4 dvd unat (mem_size_aligned h)" using heap_size_aligned by (auto simp: heap_inv_def)
  then have big: "mem_size_aligned h < RT_ALIGN sz RT_ALIGN_SIZE \<longleftrightarrow> unat (mem_size_aligned h) < unat sz"
    unfolding word_less_nat_alt align_up_4 [OF assms(4)] by presburger
  have ni: "RT_DEBUG_NOT_IN_INTERRUPT s = Some ()" using assms(2) by (simp add: rt_context_defs heap_idle_def)
  show ?thesis
  proof (cases "mem_size_aligned h < RT_ALIGN sz RT_ALIGN_SIZE")
    case True
    then have "rt_malloc sz h s = Some (h, s, Done None)" using assms(3) ni by (simp add: rt_malloc_def)
    then show ?thesis using True big assms(1) by (auto simp: malloc_result_def heap_frame_def)
  next
    case False
    obtain s1 where s1: "rt_sem_take (heap_sem h) RT_WAITING_FOREVER s = Some (s1, Done RT_EOK)"
      "rt_sem_release (heap_sem h) s1 = Some (s, RT_EOK)" using heap_lock_unlock [OF assms(2)] by blast
    have "rt_malloc sz h s = rt_malloc_return sz h s1" using False assms(3) ni s1(1) by (simp add: rt_malloc_def)
    then show ?thesis using malloc_return_idle [OF inv s1(2) assms(4)] False big by (simp add: not_less)
  qed
qed

lemma allocated_block:
  assumes "heap_ok h" and "(a, c) \<in> allocated h"
  obtains xs ys where "heap_inv h (xs @ (a, c, True) # ys)" and "allocated h - {(a, c)} = {(b, d). (b, d, True) \<in> set (xs @ ys)}"
proof -
  have inv: "heap_inv h (heap_blocks h)" using assms(1) by (simp add: heap_ok_def)
  have "(a, c, True) \<in> set (heap_blocks h)" using assms(2) by (simp add: allocated_def)
  then obtain xs ys where sp: "heap_blocks h = xs @ (a, c, True) # ys" by (meson split_list)
  have s: "heap_shape h (xs @ (a, c, True) # ys)" using inv sp by (simp add: heap_inv_def)
  note b = heap_shape_block [OF s]
  have "(a, c, True) \<notin> set xs" "(a, c, True) \<notin> set ys"
    using heap_chain_bounds [OF b(1), of a c True] heap_chain_bounds [OF b(2), of a c True] b(3) by auto
  then have "allocated h - {(a, c)} = {(b, d). (b, d, True) \<in> set (xs @ ys)}" using sp by (auto simp: allocated_def)
  then show thesis using that inv sp by metis
qed

lemma free_idle:
  assumes "heap_ok h" and "heap_idle h s" and "(a, c) \<in> allocated h"
  shows "\<exists>h'. rt_free (user_ptr h a) h s = Some (h', s, Done ()) \<and> heap_ok h' \<and> heap_frame h h' \<and>
    allocated h' = allocated h - {(a, c)}"
proof -
  obtain xs ys where inv: "heap_inv h (xs @ (a, c, True) # ys)" and al: "allocated h - {(a, c)} = {(b, d). (b, d, True) \<in> set (xs @ ys)}"
    using allocated_block [OF assms(1,3)] by blast
  obtain h' bs' where r: "heap_release a h = Some h'" "heap_frame h h'" "heap_inv h' bs'"
    "\<forall>b d. (b, d, True) \<in> set bs' \<longleftrightarrow> (b, d, True) \<in> set (xs @ ys)"
    using heap_release_spec [OF inv] by blast
  obtain s1 where s1: "rt_sem_take (heap_sem h) RT_WAITING_FOREVER s = Some (s1, Done RT_EOK)"
    "rt_sem_release (heap_sem h) s1 = Some (s, RT_EOK)" using heap_lock_unlock [OF assms(2)] by blast
  have s: "heap_shape h (xs @ (a, c, True) # ys)" using inv by (simp add: heap_inv_def)
  note b = heap_shape_block [OF s] and u = user_ptr_props [OF s, of a c True]
  let ?p = "user_ptr h a"
  have p: "unat ?p = unat (heap_ptr h) + unat a + 12" "?p \<noteq> 0" "?p AND 3 = 0"
    "unat (heap_ptr h + heap_end h) = unat (heap_ptr h) + unat (heap_end h)" using u by auto
  have "heap_ptr h \<le> ?p" "?p < heap_ptr h + heap_end h" using p(1,4) b(5,11) by (simp_all add: word_le_nat_alt word_less_nat_alt)
  moreover have "?p - 12 - heap_ptr h = a" by (simp add: user_ptr_def)
  moreover have "RT_DEBUG_NOT_IN_INTERRUPT s = Some ()" using assms(2) by (simp add: rt_context_defs heap_idle_def)
  ultimately have "rt_free ?p h s = Some (h', s, Done ())"
    using p(2,3) s1 r(1,2) by (simp add: rt_free_def rt_free_return_def heap_frame_def not_less [symmetric])
  moreover have "allocated h' = allocated h - {(a, c)}" using allocated_eq [OF r(3)] r(4) al by auto
  ultimately show ?thesis using r(2) heap_okI [OF r(3)] by blast
qed

section \<open>Changing the size of a block\<close>






lemma align_up_least:
  assumes "unat sz \<le> 0xfffffffc" and "sz \<noteq> 0"
  shows "unat sz \<le> unat (RT_ALIGN sz RT_ALIGN_SIZE)" and "4 dvd unat (RT_ALIGN sz RT_ALIGN_SIZE)" and "RT_ALIGN sz RT_ALIGN_SIZE \<noteq> 0"
    and "unat (RT_ALIGN sz RT_ALIGN_SIZE) \<le> 0xfffffffc"
proof -
  note a = align_up_4 [OF assms(1)]
  have "0 < unat sz" using assms(2) by (simp add: unat_gt_0)
  show le: "unat sz \<le> unat (RT_ALIGN sz RT_ALIGN_SIZE)" unfolding a by linarith
  show d: "4 dvd unat (RT_ALIGN sz RT_ALIGN_SIZE)" unfolding a by simp
  show "RT_ALIGN sz RT_ALIGN_SIZE \<noteq> 0" using le \<open>0 < unat sz\<close> by (metis le_zero_eq less_irrefl unsigned_0)
  show "unat (RT_ALIGN sz RT_ALIGN_SIZE) \<le> 0xfffffffc" unfolding a using assms(1) by presburger
qed


section \<open>Properties\<close>


text \<open>C31. \<^verbatim>\<open>rt_free\<close> of a block in use makes exactly that block free, joins it with free neighbours and keeps the heap
  well-formed; \<^verbatim>\<open>rt_free(RT_NULL)\<close> does nothing. It undoes an allocation: after \<^verbatim>\<open>rt_malloc\<close> and \<^verbatim>\<open>rt_free\<close> the same blocks
  are in use as before, and as many bytes.\<close>

theorem rt_malloc_free_roundtrip:
  assumes "heap_ok h" and "heap_idle h s" and "(a, c) \<in> allocated h"
    and "sz \<noteq> 0" and "unat sz \<le> 0xfffffffc" and "rt_malloc sz h s = Some (h1, s1, Done (Some p))"
  shows "(\<exists>h'. rt_free (user_ptr h a) h s = Some (h', s, Done ()) \<and> heap_ok h' \<and> allocated h' = allocated h - {(a, c)}) \<and>
     rt_free 0 h s = Some (h, s, Done ()) \<and>
     (\<exists>h2. rt_free p h1 s1 = Some (h2, s, Done ()) \<and> heap_ok h2 \<and> allocated h2 = allocated h)"
proof -
  obtain h' r where m: "rt_malloc sz h s = Some (h', s, Done r)" "heap_ok h'" "heap_frame h h'" "malloc_result sz h h' r"
    using malloc_idle [OF assms(1,2,4,5)] by blast
  then have eq: "h1 = h'" "s1 = s" "r = Some p" using assms(6) by auto
  obtain b d where bd: "p = user_ptr h b" "(b, d) \<notin> allocated h" "allocated h' = insert (b, d) (allocated h)"
    using m(4) eq(3) by (auto simp: malloc_result_def)
  have "heap_idle h' s" using heap_idle_frame [OF m(3)] assms(2) by simp
  moreover have "user_ptr h' b = p" using m(3) bd(1) by (simp add: user_ptr_def heap_frame_def)
  ultimately have "\<exists>h2. rt_free p h1 s1 = Some (h2, s, Done ()) \<and> heap_ok h2 \<and> allocated h2 = allocated h"
    using free_idle [OF m(2), of s b d] bd(2,3) eq(1,2) by auto
  moreover have "rt_free 0 h s = Some (h, s, Done ())" by (simp add: rt_free_def)
  ultimately show ?thesis using free_idle [OF assms(1,2,3)] by blast
qed


text \<open>\<^verbatim>\<open>rt_system_heap_init\<close> rounds the ends of the memory it is given inwards and leaves, if that has room for a block of the
  minimum size, a well-formed heap with one free block and its semaphore free; with too little room for
  the two headers it changes nothing.\<close>

theorem rt_system_heap_init_correct:
  assumes "rt_interrupt_nest s = 0" and "used_mem h = 0" and "0 < unat b" and "unat b \<le> 0xfffffffc"
    and "rt_sem_init (heap_sem h) ''heap'' 1 RT_IPC_FLAG_FIFO s = Some (s1, RT_EOK)"
  shows "(unat (RT_ALIGN b 4) + 36 \<le> unat (RT_ALIGN_DOWN e 4) \<longrightarrow>
       (\<exists>h'. rt_system_heap_init b e h s = Some (h', s1) \<and> heap_ok h' \<and> heap_blocks h' = [(0, heap_end h', False)] \<and>
          unat b \<le> unat (heap_ptr h') \<and> unat (heap_ptr h') + unat (heap_end h') + 12 \<le> unat e)) \<and>
     (unat (RT_ALIGN_DOWN e 4) \<le> 24 \<longrightarrow> rt_system_heap_init b e h s = Some (h, s))"
proof -
  let ?ba = "RT_ALIGN b 4" and ?ea = "RT_ALIGN_DOWN e 4"
  have b0: "b \<noteq> 0" using assms(3) by auto
  note ba = align_up_least [OF assms(4) b0]
  have "?ea = e AND NOT (mask 2)" by (simp add: RT_ALIGN_DOWN_def mask_eq_exp_minus_1)
  then have ea: "unat ?ea = unat e - unat e mod 4" using and_not_mask_unat [of e 2] by simp
  have "rt_system_heap_init b e h s = Some (h, s)" if "unat ?ea \<le> 24"
    using that assms(1) by (simp add: rt_system_heap_init_def rt_context_defs word_less_nat_alt)
  moreover have "\<exists>h'. rt_system_heap_init b e h s = Some (h', s1) \<and> heap_ok h' \<and> heap_blocks h' = [(0, heap_end h', False)] \<and>
          unat b \<le> unat (heap_ptr h') \<and> unat (heap_ptr h') + unat (heap_end h') + 12 \<le> unat e" if room: "unat ?ba + 36 \<le> unat ?ea"
  proof -
    define z where "z = ?ea - ?ba - 24"
    have "unat (?ea - ?ba) = unat ?ea - unat ?ba" using room by (simp add: unat_sub word_le_nat_alt)
    then have sz: "unat z = unat ?ea - unat ?ba - 24" using room unfolding z_def by (subst unat_sub) (auto simp: word_le_nat_alt)
    have e1: "unat (z + 12) = unat z + 12" using sz room unat_u32_less [of ?ea] by (simp add: unat_word_ariths)
    have ne: "z + 12 \<noteq> 0" using e1 by (metis add_is_0 unsigned_0 zero_neq_numeral)
    have le: "24 < ?ea" "?ba \<le> ?ea - 24" using room by (auto simp: word_less_nat_alt word_le_nat_alt unat_sub)
    let ?h = "h\<lparr>heap_ptr := ?ba, mem_size_aligned := z, hmem := (hmem h)(0 \<mapsto> \<lparr>hm_magic = HEAP_MAGIC, hm_used = 0, hm_next = z + 12, hm_prev = 0\<rparr>,
        z + 12 \<mapsto> \<lparr>hm_magic = HEAP_MAGIC, hm_used = 1, hm_next = z + 12, hm_prev = z + 12\<rparr>), heap_end := z + 12, lfree := 0\<rparr>"
    have init: "rt_system_heap_init b e h s = Some (?h, s1)"
      using le assms(1,5) by (simp add: rt_system_heap_init_def rt_context_defs Let_def z_def)
    have "4 dvd unat ?ea" using ea by (simp add: minus_mod_eq_mult_div)
    then have "4 dvd unat (z + 12)" using e1 sz ba(2) room by (auto simp: dvd_diff_nat)
    moreover have "unat ?ba + unat z + 24 \<le> 2 ^ 32" "12 \<le> unat z" "0 < unat ?ba"
      using sz room unat_u32_less [of ?ea] ba(1) assms(3) by auto
    ultimately have shape: "heap_shape ?h [(0, z + 12, False)]" using e1 ba(2) ne by (simp add: heap_shape_def)
    then have "heap_inv ?h [(0, z + 12, False)]" using assms(2) by (simp add: heap_inv_def no_holes_def used_bytes_def)
    moreover have "unat ?ba + unat (z + 12) + 12 \<le> unat e" using e1 sz room ea by linarith
    ultimately show ?thesis using init heap_okI heap_blocks_eq [OF shape] ba(1) by auto
  qed
  ultimately show ?thesis by blast
qed

text \<open>The rounding of a request up to a multiple of 4 wraps around: a request for one of the three largest sizes is
  treated as one for 12 bytes, and \<^verbatim>\<open>rt_malloc\<close> returns such a block instead of \<^verbatim>\<open>RT_NULL\<close>.\<close>

theorem rt_malloc_wraps:
  assumes "0xfffffffc < unat sz" and "heap_ok h"
  shows "rt_malloc sz h s = rt_malloc 12 h s"
proof -
  have "unat sz \<in> {0xfffffffd, 0xfffffffe, 0xffffffff}" using assms(1) unat_u32_less [of sz] by auto
  then have "sz = 0xfffffffd \<or> sz = 0xfffffffe \<or> sz = 0xffffffff" unfolding word_unat_eq_iff by simp
  then have a: "RT_ALIGN sz 4 = 0" "sz \<noteq> 0" by (auto simp: RT_ALIGN_def)
  have a12: "RT_ALIGN 12 4 = 12" by (simp add: RT_ALIGN_def)
  have ms: "malloc_size sz = 12" "malloc_size 12 = 12" using a(1) a12 by (simp_all add: malloc_size_def)
  have "rt_malloc_return sz = rt_malloc_return 12" unfolding rt_malloc_return_def ms ..
  moreover have "\<not> mem_size_aligned h < 12"
    using assms(2) by (simp add: heap_ok_def heap_inv_def heap_shape_def word_less_nat_alt)
  ultimately show ?thesis using a a12 by (simp add: rt_malloc_def)
qed

section \<open>Witnesses\<close>

definition demo_heap :: heap where
  "demo_heap = \<lparr>heap_ptr = 0x24000000, heap_end = 76, lfree = 28, mem_size_aligned = 64, used_mem = 28, max_mem = 28, heap_sem = 1,
     hmem = [0 \<mapsto> \<lparr>hm_magic = HEAP_MAGIC, hm_used = 1, hm_next = 28, hm_prev = 0\<rparr>,
       28 \<mapsto> \<lparr>hm_magic = HEAP_MAGIC, hm_used = 0, hm_next = 76, hm_prev = 0\<rparr>,
       76 \<mapsto> \<lparr>hm_magic = HEAP_MAGIC, hm_used = 1, hm_next = 76, hm_prev = 76\<rparr>],
     hdata = (\<lambda>_. 0)\<rparr>"

lemma demo_heap_inv: "heap_inv demo_heap [(0, 28, True), (28, 76, False)]"
  by (simp add: heap_inv_def heap_shape_def demo_heap_def no_holes_def used_bytes_def)

lemma demo_heap_facts:
  "heap_ok demo_heap" "allocated demo_heap = {(0, 28)}" "heap_blocks demo_heap = [(0, 28, True), (28, 76, False)]"
  "heap_idle demo_heap (demo_sem 1)"
proof -
  show "heap_ok demo_heap" by (rule heap_okI [OF demo_heap_inv])
  show "allocated demo_heap = {(0, 28)}" using allocated_eq [OF demo_heap_inv] by auto
  show "heap_blocks demo_heap = [(0, 28, True), (28, 76, False)]" using demo_heap_inv by (auto simp: heap_inv_def heap_blocks_eq)
  show "heap_idle demo_heap (demo_sem 1)" by (simp add: heap_idle_def demo_heap_def demo_sem_def rt_object_get_type_def)
qed

lemma demo_malloc: "\<exists>h1 p. rt_malloc 10 demo_heap (demo_sem 1) = Some (h1, demo_sem 1, Done (Some p))"
proof -
  obtain h1 r where "rt_malloc 10 demo_heap (demo_sem 1) = Some (h1, demo_sem 1, Done r)"
    "r = None \<longleftrightarrow> unat (mem_size_aligned demo_heap) < 10 \<or> (\<forall>b\<in>set (heap_blocks demo_heap). \<not> fits demo_heap (malloc_size 10) b)"
    using malloc_idle [OF demo_heap_facts(1,4), of 10] by auto
  moreover have "fits demo_heap (malloc_size 10) (28, 76, False)" by (simp add: fits_def demo_heap_def malloc_size_def RT_ALIGN_def)
  ultimately show ?thesis using demo_heap_facts(3) by (cases r) (auto simp: demo_heap_def)
qed


theorem rt_malloc_free_roundtrip_witness:
  "\<exists>h1 p h2 h3. rt_malloc 10 demo_heap (demo_sem 1) = Some (h1, demo_sem 1, Done (Some p)) \<and>
     rt_free p h1 (demo_sem 1) = Some (h2, demo_sem 1, Done ()) \<and> allocated h2 = {(0, 28)} \<and>
     rt_free 0x2400000c demo_heap (demo_sem 1) = Some (h3, demo_sem 1, Done ()) \<and> allocated h3 = {}"
proof -
  obtain h1 p where m: "rt_malloc 10 demo_heap (demo_sem 1) = Some (h1, demo_sem 1, Done (Some p))" using demo_malloc by blast
  have "user_ptr demo_heap 0 = 0x2400000c" by (simp add: user_ptr_def demo_heap_def)
  then show ?thesis
    using rt_malloc_free_roundtrip [OF demo_heap_facts(1,4) _ _ _ m, of 0 28] m demo_heap_facts(2) by auto
qed


theorem rt_system_heap_init_correct_witness:
  "\<exists>h' s1. rt_system_heap_init 0x24000001 0x24000067 (demo_heap\<lparr>used_mem := 0\<rparr>) ((demo_kernel 0)\<lparr>rt_current_thread := None\<rparr>) = Some (h', s1) \<and>
     heap_ok h' \<and> heap_blocks h' = [(0, heap_end h', False)]"
proof -
  let ?s = "(demo_kernel 0)\<lparr>rt_current_thread := None\<rparr>"
  have "object_list (demo_kernel 0) = (\<lambda>_. [])" "sems (demo_kernel 0) 1 = None" "rt_scheduler_lock_nest (demo_kernel 0) = 0"
    by (simp_all add: demo_kernel_def)
  moreover have "object_list (rt_enter_critical s) = object_list s" for s by (simp add: rt_enter_critical_def)
  ultimately obtain s1 where "rt_sem_init 1 ''heap'' 1 RT_IPC_FLAG_FIFO ?s = Some (s1, RT_EOK)"
    by (simp add: rt_sem_init_def rt_object_init_def rt_object_get_information_def critical_section touch_sem_def Let_def)
  then show ?thesis
    using rt_system_heap_init_correct [of ?s "demo_heap\<lparr>used_mem := 0\<rparr>" "0x24000001" s1 "0x24000067"]
    by (auto simp: RT_ALIGN_def RT_ALIGN_DOWN_def demo_heap_def)
qed

theorem rt_malloc_wraps_witness: "rt_malloc 0xfffffffe demo_heap (demo_sem 1) = rt_malloc 12 demo_heap (demo_sem 1)"
  using rt_malloc_wraps [of "0xfffffffe" demo_heap] demo_heap_facts(1) by simp

end
