(* ===== verification/Calls.thy ===== *)
theory Calls
  imports Prelude
begin

text \<open>
  Calls that may have to wait, composed. A call run in a state does not return (\<open>None\<close>), or it returns a state
  and either its result or, when its thread was suspended on the way, what is left to do once the thread runs
  again: a call of its own, from whatever state the other threads have made by then. \<open>seq\<close> puts one call
  after another.
\<close>

datatype ('s, 'a) outcome = Finished 'a | Suspended "'s \<Rightarrow> ('s \<times> ('s, 'a) outcome) option"

type_synonym ('s, 'a) comp = "'s \<Rightarrow> ('s \<times> ('s, 'a) outcome) option"

primrec outcome_bind :: "('s, 'a) outcome \<Rightarrow> ('a \<Rightarrow> ('s, 'b) comp) \<Rightarrow> ('s, 'b) comp" where
  "outcome_bind (Finished a) k = k a"
| "outcome_bind (Suspended c) k = (\<lambda>s. Some (s, Suspended (\<lambda>s'.
     Option.bind ((map_option (map_prod id (\<lambda>p. outcome_bind p k)) \<circ> c) s') (\<lambda>(s'', f). f s''))))"

definition seq :: "('s, 'a) comp \<Rightarrow> ('a \<Rightarrow> ('s, 'b) comp) \<Rightarrow> ('s, 'b) comp" where
  "seq c k s = Option.bind (c s) (\<lambda>(s1, p). outcome_bind p k s1)"

definition ret :: "'a \<Rightarrow> ('s, 'a) comp" where
  "ret a s = Some (s, Finished a)"

text \<open>A step on the state that neither waits nor fails, and a call that never waits.\<close>

definition modify :: "('s \<Rightarrow> 's) \<Rightarrow> ('s, unit) comp" where
  "modify f s = Some (f s, Finished ())"

definition finishes :: "('s, 'a) comp \<Rightarrow> 's \<Rightarrow> 's \<Rightarrow> 'a \<Rightarrow> bool" where
  "finishes c s s' a \<longleftrightarrow> c s = Some (s', Finished a)"

lemma seq_finishes: "finishes c s s1 a \<Longrightarrow> seq c k s = k a s1"
  by (simp add: seq_def finishes_def)

lemma finishes_seq: "finishes c s s1 a \<Longrightarrow> finishes (k a) s1 s2 b \<Longrightarrow> finishes (seq c k) s s2 b"
  by (simp add: finishes_def seq_def)

lemma finishes_ret [simp]: "finishes (ret a) s s' b \<longleftrightarrow> s' = s \<and> b = a"
  by (auto simp: finishes_def ret_def)

lemma finishes_modify [simp]: "finishes (modify f) s s' b \<longleftrightarrow> s' = f s"
  by (auto simp: finishes_def modify_def)

lemma seq_ret_left [simp]: "seq (ret a) k = k a"
  by (rule ext) (simp add: seq_def ret_def)

text \<open>A suspended call goes on where it stopped: its continuation and then the rest.\<close>

lemma seq_suspended:
  assumes "c s = Some (s1, Suspended w)"
  shows "\<exists>w'. seq c k s = Some (s1, Suspended w') \<and> (\<forall>s2 s3 a. w s2 = Some (s3, Finished a) \<longrightarrow> w' s2 = k a s3)"
  using assms by (simp add: seq_def)

end
