(* ===== verification/Spi.thy ===== *)
theory Spi
  imports Mutex Calls
begin

text \<open>
  The transfer of SPI messages: \<^verbatim>\<open>rt_spi_transfer_message\<close> of \<^verbatim>\<open>rt-thread/components/drivers/spi/spi_core.c\<close>, which
  holds the mutex of the bus during a chain of messages, and \<^verbatim>\<open>spixfer\<close> of \<^verbatim>\<open>drivers/drv_spi.c\<close>, which moves one
  message. The vendor's HAL and the device behind it are parameters: a state of some type and what the HAL
  functions do to it. A message is at most 65535 bytes long, one piece for the HAL (those of this program
  have at most 255 bytes), so the loop of \<^verbatim>\<open>spixfer\<close> runs at most once.
\<close>

section \<open>Messages and the board\<close>

record spi_message =
  send_buf :: "u8 list option"
  recv_buf :: bool
  msg_length :: nat
  cs_take :: bool
  cs_release :: bool

text \<open>
  \<open>hal_pin\<close> is \<^verbatim>\<open>HAL_GPIO_WritePin\<close> on the chip select line (\<open>True\<close> is high: not selected); the transfers return
  whether the state was \<^verbatim>\<open>HAL_OK\<close>, \<open>hal_configure\<close> is the configuration of the bus for the device.
\<close>

record 'd spi_hal =
  hal_pin :: "bool \<Rightarrow> 'd \<Rightarrow> 'd"
  hal_transmit :: "u8 list \<Rightarrow> 'd \<Rightarrow> 'd \<times> bool"
  hal_receive :: "nat \<Rightarrow> 'd \<Rightarrow> 'd \<times> u8 list \<times> bool"
  hal_transmit_receive :: "u8 list \<Rightarrow> 'd \<Rightarrow> 'd \<times> u8 list \<times> bool"
  hal_configure :: "'d \<Rightarrow> 'd \<times> rt_err_t"

record 'd board =
  kern :: kernel
  bus_lock :: nat
  bus_owner :: "nat option"
  bus_dev :: 'd

section \<open>Operations\<close>

definition spixfer :: "'d spi_hal \<Rightarrow> spi_message \<Rightarrow> 'd \<Rightarrow> 'd \<times> u8 list \<times> nat" where
  "spixfer hal m d =
     (let d1 = (if cs_take m then hal_pin hal False d else d);
          (d2, rcv, ok) =
            (if msg_length m = 0 then (d1, [], True)
             else case send_buf m of
               Some bs \<Rightarrow>
                 if recv_buf m then hal_transmit_receive hal (take (msg_length m) bs) d1
                 else (let (d', ok) = hal_transmit hal (take (msg_length m) bs) d1 in (d', [], ok))
             | None \<Rightarrow> hal_receive hal (msg_length m) d1);
          d3 = (if cs_release m then hal_pin hal True d2 else d2)
      in (d3, rcv, if ok then msg_length m else 0))"

text \<open>The loop over the chain: what was received, message by message, and whether all were moved.\<close>

fun spi_messages :: "'d spi_hal \<Rightarrow> spi_message list \<Rightarrow> 'd \<Rightarrow> 'd \<times> u8 list list \<times> bool" where
  "spi_messages hal [] d = (d, [], True)"
| "spi_messages hal (m # ms) d =
     (let (d1, r, n) = spixfer hal m d
      in if n = 0 then (d1, [r], False)
         else let (d2, rs, ok) = spi_messages hal ms d1 in (d2, r # rs, ok))"

text \<open>\<^verbatim>\<open>rt_mutex_take\<close> and \<^verbatim>\<open>rt_mutex_release\<close> as calls of a thread on the board.\<close>

definition board_mutex_take :: "nat \<Rightarrow> ('d board, rt_err_t) comp" where
  "board_mutex_take i st = do {
     t \<leftarrow> rt_thread_self (kern st);
     (s1, r) \<leftarrow> rt_mutex_take i RT_WAITING_FOREVER (kern st);
     Some (st\<lparr>kern := s1\<rparr>, case r of
         Done e \<Rightarrow> Finished e
       | Waiting \<Rightarrow> Suspended (\<lambda>st'. do { e \<leftarrow> rt_mutex_take_return t (kern st'); Some (st', Finished e) })) }"

definition board_mutex_release :: "nat \<Rightarrow> ('d board, rt_err_t) comp" where
  "board_mutex_release i st = do {
     (s1, e) \<leftarrow> rt_mutex_release i (kern st);
     Some (st\<lparr>kern := s1\<rparr>, Finished e) }"

definition board_errno :: "rt_err_t \<Rightarrow> ('d board, unit) comp" where
  "board_errno e = modify (kern_update (rt_set_errno e))"

text \<open>What is done under the lock of the bus.\<close>

definition spi_locked :: "'d spi_hal \<Rightarrow> nat \<Rightarrow> spi_message list \<Rightarrow> ('d board, u8 list list) comp" where
  "spi_locked hal dv msgs st =
     (let (d1, e) = (if bus_owner st = Some dv then (bus_dev st, RT_EOK) else hal_configure hal (bus_dev st));
          st1 = st\<lparr>bus_dev := d1\<rparr>
      in if e \<noteq> RT_EOK then seq (board_errno (- RT_EIO)) (\<lambda>_. ret []) st1
         else let (d2, rs, ok) = spi_messages hal msgs d1;
                  st2 = st1\<lparr>bus_owner := Some dv, bus_dev := d2\<rparr>
              in if ok then ret rs st2 else seq (board_errno (- RT_EIO)) (\<lambda>_. ret rs) st2)"

definition rt_spi_transfer_message :: "'d spi_hal \<Rightarrow> nat \<Rightarrow> spi_message list \<Rightarrow> ('d board, u8 list list) comp" where
  "rt_spi_transfer_message hal dv msgs st =
     (if msgs = [] then ret [] st
      else seq (board_mutex_take (bus_lock st)) (\<lambda>e.
        if e \<noteq> RT_EOK then seq (board_errno (- RT_EBUSY)) (\<lambda>_. ret [])
        else seq (board_errno RT_EOK) (\<lambda>_.
          seq (spi_locked hal dv msgs) (\<lambda>rs.
            seq (board_mutex_release (bus_lock st)) (\<lambda>_. ret rs)))) st)"

section \<open>A transfer on a free bus\<close>

text \<open>The bus is free, set up for the device, and the caller is a running thread.\<close>

definition free_mutex :: "kernel \<Rightarrow> nat \<Rightarrow> bool" where
  "free_mutex s i \<longleftrightarrow> queues s (MutexQ i) = [] \<and>
     (\<exists>m. mutexes s i = Some m \<and> rt_object_get_type (mutex_type m) = RT_Object_Class_Mutex \<and>
        mutex_value m = 1 \<and> hold m = 0 \<and> owner m = None)"

definition in_thread :: "kernel \<Rightarrow> bool" where
  "in_thread s \<longleftrightarrow> rt_interrupt_nest s = 0 \<and> (\<exists>c th. rt_current_thread s = Some c \<and> threads s c = Some th)"

definition bus_ready :: "nat \<Rightarrow> 'd board \<Rightarrow> bool" where
  "bus_ready dv st \<longleftrightarrow> in_thread (kern st) \<and> free_mutex (kern st) (bus_lock st) \<and> bus_owner st = Some dv"

text \<open>What a call that takes and gives back mutexes leaves of the kernel: all but error codes and the marks of free mutexes.\<close>

definition mark_free :: "(rt_mutex \<Rightarrow> u8) \<Rightarrow> rt_mutex \<Rightarrow> rt_mutex" where
  "mark_free f m = (if owner m = None then m\<lparr>original_priority := f m\<rparr> else m)"

lemma mark_free_simps [simp]:
  "owner (mark_free f m) = owner m" "mutex_type (mark_free f m) = mutex_type m" "mutex_value (mark_free f m) = mutex_value m"
  "hold (mark_free f m) = hold m" "mark_free g (mark_free f m) = mark_free (\<lambda>m. g (mark_free f m)) m"
  by (simp_all add: mark_free_def)

lemma mark_free_same [simp]: "mark_free original_priority = id"
  by (auto simp: fun_eq_iff mark_free_def)

definition quiet :: "kernel \<Rightarrow> kernel \<Rightarrow> bool" where
  "quiet s s' \<longleftrightarrow> (\<exists>c e f. rt_current_thread s = Some c \<and>
     s' = s\<lparr>threads := (threads s)(c := map_option (th_error_update (\<lambda>_. e)) (threads s c)),
            mutexes := (\<lambda>i. map_option (mark_free (f i)) (mutexes s i))\<rparr>)"

lemma quiet_facts:
  assumes "quiet s s'"
  shows "in_thread s' = in_thread s" and "free_mutex s' i = free_mutex s i" and "rt_current_thread s' = rt_current_thread s"
    and "queues s' = queues s" and "timers s' = timers s" and "timer_queues s' = timer_queues s"
proof -
  obtain c e f where s': "s' = s\<lparr>threads := (threads s)(c := map_option (th_error_update (\<lambda>_. e)) (threads s c)),
    mutexes := (\<lambda>i. map_option (mark_free (f i)) (mutexes s i))\<rparr>" "rt_current_thread s = Some c"
    using assms by (auto simp: quiet_def)
  show "in_thread s' = in_thread s" using s' by (auto simp: in_thread_def)
  show "free_mutex s' i = free_mutex s i" using s' by (auto simp: free_mutex_def)
  show "rt_current_thread s' = rt_current_thread s" "queues s' = queues s" "timers s' = timers s" "timer_queues s' = timer_queues s"
    using s' by simp_all
qed

lemma quiet_trans:
  assumes "quiet s s1" and "quiet s1 s2"
  shows "quiet s s2"
proof -
  obtain c e f where 1: "rt_current_thread s = Some c" "s1 = s\<lparr>threads := (threads s)(c := map_option (th_error_update (\<lambda>_. e)) (threads s c)),
    mutexes := (\<lambda>i. map_option (mark_free (f i)) (mutexes s i))\<rparr>"
    using assms(1) by (auto simp: quiet_def)
  obtain c' e' f' where 2: "rt_current_thread s1 = Some c'" "s2 = s1\<lparr>threads := (threads s1)(c' := map_option (th_error_update (\<lambda>_. e')) (threads s1 c')),
    mutexes := (\<lambda>i. map_option (mark_free (f' i)) (mutexes s1 i))\<rparr>"
    using assms(2) by (auto simp: quiet_def)
  have "c' = c" using 1 2(1) by simp
  then have "s2 = s\<lparr>threads := (threads s)(c := map_option (th_error_update (\<lambda>_. e')) (threads s c)),
    mutexes := (\<lambda>i. map_option (mark_free (\<lambda>m. f' i (mark_free (f i) m))) (mutexes s i))\<rparr>"
    using 1(2) 2(2) by (intro kernel.equality) (simp_all add: option.map_comp comp_def)
  then show ?thesis unfolding quiet_def
    by (intro exI [of _ c] exI [of _ e'] exI [of _ "\<lambda>i m. f' i (mark_free (f i) m)"]) (simp add: 1(1))
qed

text \<open>The steps between taking and releasing a mutex, as the thread \<open>c\<close> sees the kernel.\<close>

definition holding :: "nat \<Rightarrow> tid \<Rightarrow> rt_err_t \<Rightarrow> kernel \<Rightarrow> kernel" where
  "holding i c e s = s\<lparr>threads := (threads s)(c := map_option (th_error_update (\<lambda>_. e)) (threads s c)),
     mutexes := (mutexes s)(i := map_option (\<lambda>m. m\<lparr>mutex_value := 0, owner := Some c,
       original_priority := current_priority (the (threads s c)), hold := 1\<rparr>) (mutexes s i))\<rparr>"

lemma take_free_mutex:
  assumes "in_thread s" and "free_mutex s i" and "rt_current_thread s = Some c"
  shows "rt_mutex_take i RT_WAITING_FOREVER s = Some (holding i c RT_EOK s, Done RT_EOK)"
  using assms
  by (auto simp: rt_mutex_take_def in_thread_def free_mutex_def rt_context_defs rt_thread_self_def holding_def upd_thread_def upd_mutex_def
      intro!: kernel.equality)

lemma release_held_mutex:
  assumes "in_thread s" and "free_mutex s i" and "rt_current_thread s = Some c"
  shows "\<exists>s'. rt_mutex_release i (holding i c e s) = Some (s', RT_EOK) \<and> quiet s s'"
proof -
  obtain m th where m: "mutexes s i = Some m" "rt_object_get_type (mutex_type m) = RT_Object_Class_Mutex" "mutex_value m = 1" "hold m = 0" "owner m = None"
    and th: "threads s c = Some th" and q: "queues s (MutexQ i) = []"
    using assms by (auto simp: in_thread_def free_mutex_def)
  let ?s' = "s\<lparr>threads := (threads s)(c \<mapsto> th\<lparr>th_error := e\<rparr>), mutexes := (mutexes s)(i \<mapsto> m\<lparr>original_priority := 0xff\<rparr>)\<rparr>"
  have "rt_mutex_release i (holding i c e s) = Some (?s', RT_EOK)"
    using m th q assms(1,3)
    by (auto simp: rt_mutex_release_def in_thread_def rt_context_defs rt_thread_self_def holding_def upd_mutex_def mutex_restore_def
        intro!: kernel.equality)
  moreover have "quiet s ?s'" unfolding quiet_def
    using m(1) th assms(3)
    by (intro exI [of _ c] exI [of _ e] exI [of _ "\<lambda>j m. if j = i then 0xff else original_priority m"])
      (auto intro!: kernel.equality simp: fun_eq_iff option.map_id mark_free_def m(5) split: option.split)
  ultimately show ?thesis by blast
qed

lemma errno_holding:
  assumes "in_thread s" and "rt_current_thread s = Some c"
  shows "rt_set_errno e (holding i c e' s) = holding i c e s"
  using assms by (auto simp: rt_set_errno_def in_thread_def rt_thread_self_def holding_def upd_thread_def intro!: kernel.equality)

lemma spi_transfer_ready:
  assumes "bus_ready dv st" and "msgs \<noteq> []" and "spi_messages hal msgs (bus_dev st) = (d, rs, ok)"
  shows "\<exists>s'. finishes (rt_spi_transfer_message hal dv msgs) st (st\<lparr>kern := s', bus_dev := d\<rparr>) rs \<and> quiet (kern st) s'"
proof -
  let ?s = "kern st" and ?i = "bus_lock st"
  have r: "in_thread ?s" "free_mutex ?s ?i" "bus_owner st = Some dv" using assms(1) by (auto simp: bus_ready_def)
  then obtain c where c: "rt_current_thread ?s = Some c" by (auto simp: in_thread_def)
  let ?h = "\<lambda>e. st\<lparr>kern := holding ?i c e ?s\<rparr>"
  have take: "finishes (board_mutex_take ?i) st (?h RT_EOK) RT_EOK"
    using take_free_mutex [OF r(1,2) c] c by (simp add: finishes_def board_mutex_take_def rt_thread_self_def)
  have err: "finishes (board_errno e) (?h e') (?h e) ()" for e e'
    using errno_holding [OF r(1) c] by (simp add: board_errno_def)
  have errd: "finishes (board_errno e) ((?h e')\<lparr>bus_dev := d\<rparr>) ((?h e)\<lparr>bus_dev := d\<rparr>) ()" for e e'
    using errno_holding [OF r(1) c] by (simp add: board_errno_def)
  obtain e where lk: "finishes (spi_locked hal dv msgs) (?h RT_EOK) ((?h e)\<lparr>bus_dev := d\<rparr>) rs"
  proof (cases ok)
    case True
    then show ?thesis using that [of RT_EOK] r(3) assms(3) by (auto simp: finishes_def spi_locked_def ret_def)
  next
    case False
    have ow: "(?h RT_EOK)\<lparr>bus_owner := Some dv, bus_dev := d\<rparr> = (?h RT_EOK)\<lparr>bus_dev := d\<rparr>"
      using r(3) by (intro board.equality) simp_all
    show ?thesis using that [of "- RT_EIO"] False r(3) assms(3)
      by (simp add: finishes_def spi_locked_def ret_def ow seq_finishes [OF errd [of "- RT_EIO" RT_EOK]])
  qed
  obtain s' where s': "rt_mutex_release ?i (holding ?i c e ?s) = Some (s', RT_EOK)" "quiet ?s s'"
    using release_held_mutex [OF r(1,2) c] by blast
  have rel: "finishes (board_mutex_release ?i) ((?h e)\<lparr>bus_dev := d\<rparr>) (st\<lparr>kern := s', bus_dev := d\<rparr>) RT_EOK"
    using s'(1) by (simp add: finishes_def board_mutex_release_def)
  have "rt_spi_transfer_message hal dv msgs st = Some (st\<lparr>kern := s', bus_dev := d\<rparr>, Finished rs)"
    using assms(2) by (simp add: rt_spi_transfer_message_def seq_finishes [OF take] seq_finishes [OF err] seq_finishes [OF lk] seq_finishes [OF rel] ret_def)
  then show ?thesis using s'(2) by (auto simp: finishes_def)
qed

text \<open>The same for callers that do not look at the kernel.\<close>

definition moves :: "nat \<Rightarrow> 'd board \<Rightarrow> 'd board \<Rightarrow> bool" where
  "moves dv st st' \<longleftrightarrow> bus_ready dv st' \<and> bus_lock st' = bus_lock st \<and> quiet (kern st) (kern st')"

lemma moves_trans: "moves dv st st1 \<Longrightarrow> moves dv st1 st2 \<Longrightarrow> moves dv st st2"
  using quiet_trans by (auto simp: moves_def)

lemma transfer_moves:
  assumes "bus_ready dv st" and "msgs \<noteq> []" and "spi_messages hal msgs (bus_dev st) = (d, rs, ok)"
  shows "\<exists>st'. finishes (rt_spi_transfer_message hal dv msgs) st st' rs \<and> moves dv st st' \<and> bus_dev st' = d"
proof -
  obtain s' where s': "finishes (rt_spi_transfer_message hal dv msgs) st (st\<lparr>kern := s', bus_dev := d\<rparr>) rs" "quiet (kern st) s'"
    using spi_transfer_ready [OF assms] by blast
  moreover have "bus_ready dv (st\<lparr>kern := s', bus_dev := d\<rparr>)" using assms(1) quiet_facts [OF s'(2)] by (simp add: bus_ready_def)
  ultimately show ?thesis by (intro exI [of _ "st\<lparr>kern := s', bus_dev := d\<rparr>"]) (simp add: moves_def)
qed

text \<open>Other mutexes can be taken and given back while one is held.\<close>

lemma quiet_holding:
  assumes "rt_current_thread s = Some c" and "free_mutex s i" and "in_thread s" and "quiet (holding i c e s) s'"
  shows "\<exists>s1 e'. quiet s s1 \<and> s' = holding i c e' s1"
proof -
  obtain e' f where s': "s' = (holding i c e s)\<lparr>threads := (threads (holding i c e s))(c := map_option (th_error_update (\<lambda>_. e')) (threads (holding i c e s) c)),
    mutexes := (\<lambda>j. map_option (mark_free (f j)) (mutexes (holding i c e s) j))\<rparr>"
    using assms(1,4) by (auto simp: quiet_def holding_def)
  let ?s1 = "s\<lparr>threads := (threads s)(c := map_option (th_error_update (\<lambda>_. e')) (threads s c)), mutexes := (\<lambda>j. map_option (mark_free (f j)) (mutexes s j))\<rparr>"
  obtain m th where m: "mutexes s i = Some m" "owner m = None" "threads s c = Some th"
    using assms(1-3) by (auto simp: free_mutex_def in_thread_def)
  have "s' = holding i c e' ?s1"
    unfolding s' holding_def using m by (intro kernel.equality) (auto simp: fun_eq_iff mark_free_def)
  moreover have "quiet s ?s1" using assms(1) by (auto simp: quiet_def)
  ultimately show ?thesis by blast
qed

lemma release_after_quiet:
  assumes "rt_current_thread s = Some c" and "free_mutex s i" and "in_thread s" and "quiet (holding i c e s) s'"
  shows "\<exists>s''. rt_mutex_release i s' = Some (s'', RT_EOK) \<and> quiet s s''"
proof -
  obtain s1 e' where s1: "quiet s s1" "s' = holding i c e' s1" using quiet_holding [OF assms] by blast
  note q = quiet_facts [OF s1(1)]
  obtain s'' where "rt_mutex_release i (holding i c e' s1) = Some (s'', RT_EOK)" "quiet s1 s''"
    using release_held_mutex [of s1 i c e'] q assms(1-3) by auto
  then show ?thesis using s1 quiet_trans by blast
qed

lemma holding_facts:
  "in_thread (holding i c e s) = in_thread s" "i \<noteq> j \<Longrightarrow> free_mutex (holding i c e s) j = free_mutex s j"
  "rt_current_thread (holding i c e s) = rt_current_thread s"
  by (auto simp: in_thread_def free_mutex_def holding_def)

end
