(* ===== verification/Flash.thy ===== *)
theory Flash
  imports Spi
begin

text \<open>
  The driver of the flash memory, \<^verbatim>\<open>peripherals/w25q64.c\<close>: one function per instruction of the chip, each a few
  chains of SPI messages. The chip is a parameter (the HAL and the state behind it, theory \<open>Spi\<close>); what the
  driver relies on is stated as a property of it (\<open>chip_enables\<close>, \<open>chip_programs\<close>, \<open>chip_reads\<close>, \<open>chip_erases\<close>), after the data sheet of the W25Q64.
\<close>

section \<open>Instructions\<close>

abbreviation (input) WRITE_ENABLE :: u8 where "WRITE_ENABLE \<equiv> 0x06"
abbreviation (input) WRITE_DISABLE :: u8 where "WRITE_DISABLE \<equiv> 0x04"
abbreviation (input) READ_SR1 :: u8 where "READ_SR1 \<equiv> 0x05"
abbreviation (input) READ_SR2 :: u8 where "READ_SR2 \<equiv> 0x35"
abbreviation (input) WRITE_SR :: u8 where "WRITE_SR \<equiv> 0x01"
abbreviation (input) PAGE_PROGRAM :: u8 where "PAGE_PROGRAM \<equiv> 0x02"
abbreviation (input) SECTOR_ERASE :: u8 where "SECTOR_ERASE \<equiv> 0x20"
abbreviation (input) BLOCK_ERASE :: u8 where "BLOCK_ERASE \<equiv> 0x52"
abbreviation (input) DBLOCK_ERASE :: u8 where "DBLOCK_ERASE \<equiv> 0xD8"
abbreviation (input) CHIP_ERASE :: u8 where "CHIP_ERASE \<equiv> 0x60"
abbreviation (input) READ_DATA :: u8 where "READ_DATA \<equiv> 0x03"
abbreviation (input) JEDEC_ID :: u8 where "JEDEC_ID \<equiv> 0x9F"
abbreviation (input) RESET_ENABLE :: u8 where "RESET_ENABLE \<equiv> 0x66"
abbreviation (input) RESET :: u8 where "RESET \<equiv> 0x99"

text \<open>The messages the functions build: bytes to send, or a number of bytes to receive.\<close>

definition send_msg :: "u8 list \<Rightarrow> nat \<Rightarrow> bool \<Rightarrow> bool \<Rightarrow> spi_message" where
  "send_msg bs n tk rel = \<lparr>send_buf = Some bs, recv_buf = False, msg_length = n, cs_take = tk, cs_release = rel\<rparr>"

definition recv_msg :: "nat \<Rightarrow> bool \<Rightarrow> bool \<Rightarrow> spi_message" where
  "recv_msg n tk rel = \<lparr>send_buf = None, recv_buf = True, msg_length = n, cs_take = tk, cs_release = rel\<rparr>"

section \<open>The functions of the driver\<close>

text \<open>
  \<open>dv\<close> is the device \<^verbatim>\<open>spi_device\<close>. A result is what the function leaves in the caller's buffer \<^verbatim>\<open>data\<close>: what the last of
  \<open>k\<close> messages received, or what was there before when a message in front of it failed.
\<close>

definition received :: "nat \<Rightarrow> u8 list list \<Rightarrow> u8 list \<Rightarrow> u8 list" where
  "received k rs data = (if length rs = k then last rs else data)"

definition w25q64_getJEDEC :: "'d spi_hal \<Rightarrow> nat \<Rightarrow> u8 list \<Rightarrow> ('d board, u8 list) comp" where
  "w25q64_getJEDEC hal dv data = seq (rt_spi_transfer_message hal dv [send_msg [JEDEC_ID] 1 True False, recv_msg 3 False True])
     (\<lambda>rs. ret (received 2 rs data))"

text \<open>\<^verbatim>\<open>w25q64_getSR\<close> receives into \<^verbatim>\<open>&data\<close>, its own parameter, instead of \<^verbatim>\<open>data\<close>: the caller's buffer is not written.\<close>

definition w25q64_getSR :: "'d spi_hal \<Rightarrow> nat \<Rightarrow> u8 \<Rightarrow> ('d board, unit) comp" where
  "w25q64_getSR hal dv instr = seq (rt_spi_transfer_message hal dv [send_msg [instr] 1 True False, recv_msg 1 False True])
     (\<lambda>_. ret ())"

definition send_instr :: "'d spi_hal \<Rightarrow> nat \<Rightarrow> u8 \<Rightarrow> ('d board, u8 list list) comp" where
  "send_instr hal dv instr = rt_spi_transfer_message hal dv [send_msg [instr] 1 True True]"

definition w25q64_writeSR :: "'d spi_hal \<Rightarrow> nat \<Rightarrow> u8 list \<Rightarrow> ('d board, unit) comp" where
  "w25q64_writeSR hal dv data =
     seq (send_instr hal dv WRITE_ENABLE) (\<lambda>_.
     seq (rt_spi_transfer_message hal dv [send_msg [WRITE_SR] 1 True False, send_msg data 2 False True]) (\<lambda>_.
     seq (send_instr hal dv WRITE_DISABLE) (\<lambda>_. ret ())))"

text \<open>
  The loop \<^verbatim>\<open>do ... while (buf & 0x1)\<close> at the end of an erase. It ends only when the chip says so: \<open>n\<close> bounds its
  rounds, and a loop that needs more does not return. \<open>buf\<close> is the local variable, not initialised at first.
\<close>

fun erase_poll :: "'d spi_hal \<Rightarrow> nat \<Rightarrow> u8 \<Rightarrow> nat \<Rightarrow> ('d board, unit) comp" where
  "erase_poll hal dv buf 0 = (\<lambda>_. None)"
| "erase_poll hal dv buf (Suc n) =
     seq (rt_spi_transfer_message hal dv [send_msg [READ_SR1] 1 True False, recv_msg 1 False True]) (\<lambda>rs.
       let buf' = hd (received 2 rs [buf])
       in if buf' AND 1 \<noteq> 0 then erase_poll hal dv buf' n else ret ())"

definition w25q64_erase :: "'d spi_hal \<Rightarrow> nat \<Rightarrow> u8 \<Rightarrow> nat \<Rightarrow> ('d board, unit) comp" where
  "w25q64_erase hal dv buf n =
     seq (send_instr hal dv WRITE_ENABLE) (\<lambda>_.
     seq (send_instr hal dv CHIP_ERASE) (\<lambda>_.
     seq (erase_poll hal dv buf n) (\<lambda>_.
     seq (send_instr hal dv WRITE_DISABLE) (\<lambda>_. ret ()))))"

text \<open>\<^verbatim>\<open>w25q64_erase_part\<close> chains the instruction (\<^verbatim>\<open>msg1\<close>) and the address (\<^verbatim>\<open>msg2\<close>), but transfers the chain that starts at \<^verbatim>\<open>msg2\<close>.\<close>

definition w25q64_erase_part :: "'d spi_hal \<Rightarrow> nat \<Rightarrow> u8 \<Rightarrow> nat \<Rightarrow> u8 \<Rightarrow> u8 list \<Rightarrow> ('d board, unit) comp" where
  "w25q64_erase_part hal dv buf n instr addr =
     seq (send_instr hal dv WRITE_ENABLE) (\<lambda>_.
     seq (rt_spi_transfer_message hal dv [send_msg addr 3 False True]) (\<lambda>_.
     seq (erase_poll hal dv buf n) (\<lambda>_.
     seq (send_instr hal dv WRITE_DISABLE) (\<lambda>_. ret ()))))"

definition w25q64_write :: "'d spi_hal \<Rightarrow> nat \<Rightarrow> u8 list \<Rightarrow> u8 \<Rightarrow> u8 list \<Rightarrow> ('d board, unit) comp" where
  "w25q64_write hal dv addr dlen data =
     seq (send_instr hal dv WRITE_ENABLE) (\<lambda>_.
     seq (rt_spi_transfer_message hal dv [send_msg [PAGE_PROGRAM] 1 True False, send_msg addr 3 False False, send_msg data (unat dlen) False True]) (\<lambda>_.
     seq (send_instr hal dv WRITE_DISABLE) (\<lambda>_. ret ())))"

definition w25q64_read :: "'d spi_hal \<Rightarrow> nat \<Rightarrow> u8 list \<Rightarrow> u8 \<Rightarrow> u8 list \<Rightarrow> ('d board, u8 list) comp" where
  "w25q64_read hal dv addr dlen data =
     seq (rt_spi_transfer_message hal dv [send_msg [READ_DATA] 1 True False, send_msg addr 3 False False, recv_msg (unat dlen) False True])
       (\<lambda>rs. ret (received 3 rs data))"

definition w25q64_reset :: "'d spi_hal \<Rightarrow> nat \<Rightarrow> ('d board, unit) comp" where
  "w25q64_reset hal dv = seq (send_instr hal dv RESET_ENABLE) (\<lambda>_. seq (send_instr hal dv RESET) (\<lambda>_. ret ()))"

text \<open>\<open>discard\<close>: a function that leaves the caller's buffer \<open>data\<close> alone.\<close>

definition discard :: "('d board, unit) comp \<Rightarrow> u8 list \<Rightarrow> ('d board, u8 list) comp" where
  "discard c data = seq c (\<lambda>_. ret data)"

definition w25q64_control :: "'d spi_hal \<Rightarrow> nat \<Rightarrow> u8 \<Rightarrow> nat \<Rightarrow> u8 \<Rightarrow> u8 list \<Rightarrow> u8 \<Rightarrow> u8 list \<Rightarrow> ('d board, u8 list) comp" where
  "w25q64_control hal dv buf n instr addr dlen data =
     (if instr = READ_SR1 \<or> instr = READ_SR2 then discard (w25q64_getSR hal dv instr) data
      else if instr = WRITE_SR then discard (w25q64_writeSR hal dv data) data
      else if instr = PAGE_PROGRAM then discard (w25q64_write hal dv addr dlen data) data
      else if instr = SECTOR_ERASE \<or> instr = BLOCK_ERASE \<or> instr = DBLOCK_ERASE then discard (w25q64_erase_part hal dv buf n instr addr) data
      else if instr = CHIP_ERASE then discard (w25q64_erase hal dv buf n) data
      else if instr = READ_DATA then w25q64_read hal dv addr dlen data
      else if instr = JEDEC_ID then w25q64_getJEDEC hal dv data
      else if instr = RESET then discard (w25q64_reset hal dv) data
      else ret data)"

section \<open>The chip\<close>

text \<open>
  What the data sheet of the W25Q64 says of the instructions the driver uses, for the chip behind the HAL.
  \<open>mem\<close> are its cells, \<open>polls\<close> bounds how often its status can still be read as busy (0: not busy), \<open>wel\<close> is its
  write enable latch and \<open>desel\<close> says that it is not selected. The first address byte is the most significant
  one; the chip has \<open>2\<^sup>2\<^sup>3\<close> cells. A program instruction can only clear bits, and stays within a page of 256 cells.
  An erase keeps the chip busy for less than \<open>n\<close> readings of the status.
\<close>

definition chip_cell :: "u8 list \<Rightarrow> nat" where
  "chip_cell a = (unat (a ! 0) * 0x10000 + unat (a ! 1) * 0x100 + unat (a ! 2)) mod 0x800000"

definition program_page :: "(nat \<Rightarrow> u8) \<Rightarrow> nat \<Rightarrow> u8 list \<Rightarrow> nat \<Rightarrow> u8" where
  "program_page m a bs x = (let k = (x + 256 - a mod 256) mod 256
     in if x div 256 = a div 256 \<and> k < length bs then m x AND bs ! k else m x)"

definition read_cells :: "(nat \<Rightarrow> u8) \<Rightarrow> nat \<Rightarrow> nat \<Rightarrow> u8 list" where
  "read_cells m a n = map (\<lambda>i. m ((a + i) mod 0x800000)) [0..<n]"

definition chip_enables :: "'d spi_hal \<Rightarrow> ('d \<Rightarrow> nat \<Rightarrow> u8) \<Rightarrow> ('d \<Rightarrow> nat) \<Rightarrow> ('d \<Rightarrow> bool) \<Rightarrow> ('d \<Rightarrow> bool) \<Rightarrow> bool" where
  "chip_enables hal mem polls wel desel \<longleftrightarrow> (\<forall>d. desel d \<longrightarrow>
     (\<exists>d'. spi_messages hal [send_msg [WRITE_ENABLE] 1 True True] d = (d', [[]], True) \<and> desel d' \<and> mem d' = mem d \<and>
        (polls d = 0 \<longrightarrow> wel d' \<and> polls d' = 0)) \<and>
     (\<exists>d'. spi_messages hal [send_msg [WRITE_DISABLE] 1 True True] d = (d', [[]], True) \<and> desel d' \<and> mem d' = mem d \<and> polls d' \<le> polls d))"

definition chip_programs :: "'d spi_hal \<Rightarrow> ('d \<Rightarrow> nat \<Rightarrow> u8) \<Rightarrow> ('d \<Rightarrow> nat) \<Rightarrow> ('d \<Rightarrow> bool) \<Rightarrow> ('d \<Rightarrow> bool) \<Rightarrow> bool" where
  "chip_programs hal mem polls wel desel \<longleftrightarrow> (\<forall>d a bs. desel d \<and> polls d = 0 \<and> wel d \<and> length a = 3 \<and> bs \<noteq> [] \<and> length bs \<le> 256 \<longrightarrow>
     (\<exists>d'. spi_messages hal [send_msg [PAGE_PROGRAM] 1 True False, send_msg a 3 False False, send_msg bs (length bs) False True] d =
        (d', [[], [], []], True) \<and> desel d' \<and> mem d' = program_page (mem d) (chip_cell a) bs))"

definition chip_reads :: "'d spi_hal \<Rightarrow> ('d \<Rightarrow> nat \<Rightarrow> u8) \<Rightarrow> ('d \<Rightarrow> nat) \<Rightarrow> ('d \<Rightarrow> bool) \<Rightarrow> bool" where
  "chip_reads hal mem polls desel \<longleftrightarrow> (\<forall>d a n. desel d \<and> polls d = 0 \<and> length a = 3 \<and> 0 < n \<longrightarrow>
     (\<exists>d'. spi_messages hal [send_msg [READ_DATA] 1 True False, send_msg a 3 False False, recv_msg n False True] d =
        (d', [[], [], read_cells (mem d) (chip_cell a) n], True) \<and> desel d' \<and> mem d' = mem d \<and> polls d' = 0))"

definition chip_erases :: "nat \<Rightarrow> 'd spi_hal \<Rightarrow> ('d \<Rightarrow> nat \<Rightarrow> u8) \<Rightarrow> ('d \<Rightarrow> nat) \<Rightarrow> ('d \<Rightarrow> bool) \<Rightarrow> ('d \<Rightarrow> bool) \<Rightarrow> bool" where
  "chip_erases n hal mem polls wel desel \<longleftrightarrow> (\<forall>d. desel d \<longrightarrow>
     (polls d = 0 \<and> wel d \<longrightarrow>
        (\<exists>d'. spi_messages hal [send_msg [CHIP_ERASE] 1 True True] d = (d', [[]], True) \<and> desel d' \<and> mem d' = (\<lambda>_. 0xff) \<and> polls d' < n)) \<and>
     (\<exists>d' b. spi_messages hal [send_msg [READ_SR1] 1 True False, recv_msg 1 False True] d = (d', [[], [b]], True) \<and> desel d' \<and> mem d' = mem d \<and>
        (b AND 1 \<noteq> 0 \<longleftrightarrow> 0 < polls d) \<and> polls d' = polls d - 1))"

lemmas chip_laws = chip_enables_def chip_programs_def chip_reads_def chip_erases_def

lemma chip_program:
  assumes "chip_programs hal mem polls wel desel" and "desel d" and "polls d = 0" and "wel d" and "length a = 3" and "bs \<noteq> []" and "length bs \<le> 256"
  shows "\<exists>d'. spi_messages hal [send_msg [PAGE_PROGRAM] 1 True False, send_msg a 3 False False, send_msg bs (length bs) False True] d =
    (d', [[], [], []], True) \<and> desel d' \<and> mem d' = program_page (mem d) (chip_cell a) bs"
  using assms(1) [unfolded chip_programs_def, rule_format, of d a bs] assms(2-) by blast

lemma chip_read:
  assumes "chip_reads hal mem polls desel" and "desel d" and "polls d = 0" and "length a = 3" and "0 < n"
  shows "\<exists>d'. spi_messages hal [send_msg [READ_DATA] 1 True False, send_msg a 3 False False, recv_msg n False True] d =
    (d', [[], [], read_cells (mem d) (chip_cell a) n], True) \<and> desel d' \<and> mem d' = mem d \<and> polls d' = 0"
  using assms(1) [unfolded chip_reads_def, rule_format, of d a n] assms(2-) by blast

lemma chip_status:
  assumes "chip_erases k hal mem polls wel desel" and "desel d"
  shows "\<exists>d' b. spi_messages hal [send_msg [READ_SR1] 1 True False, recv_msg 1 False True] d = (d', [[], [b]], True) \<and> desel d' \<and> mem d' = mem d \<and>
    (b AND 1 \<noteq> 0 \<longleftrightarrow> 0 < polls d) \<and> polls d' = polls d - 1"
  using assms(1) [unfolded chip_erases_def, rule_format, of d] assms(2) by blast

text \<open>Programming erased cells of one page and reading them back.\<close>

lemma and_ff [simp]: "(0xff :: u8) AND x = x"
proof -
  have "(0xff :: u8) = - 1" by simp
  then show ?thesis by (simp only: and.left_neutral)
qed

lemma read_programmed:
  assumes "a < 0x800000" and "a mod 256 + length bs \<le> 256" and "\<forall>i<length bs. m (a + i) = 0xff"
  shows "read_cells (program_page m a bs) a (length bs) = bs"
proof (rule nth_equalityI)
  fix i
  assume "i < length (read_cells (program_page m a bs) a (length bs))"
  then have i: "i < length bs" by (simp add: read_cells_def)
  define q r where "q = a div 256" and "r = a mod 256"
  have a: "a = 256 * q + r" "r + i < 256" using i assms(2) by (simp_all add: q_def r_def)
  have d: "(a + i) div 256 = q" using a by simp
  have "q < 32768" using assms(1) a(1) by linarith
  then have "a + i < 0x800000" using a by linarith
  moreover have "a + i + 256 - r = i + 256 * (q + 1)" using a(1) by simp
  then have "(a + i + 256 - r) mod 256 = i" using a(2) by (metis add_lessD1 add.commute mod_less mod_mult_self2)
  ultimately show "read_cells (program_page m a bs) a (length bs) ! i = bs ! i"
    using i d assms(3) by (simp add: read_cells_def program_page_def q_def [symmetric] r_def [symmetric])
qed (simp add: read_cells_def)

lemma program_page_other:
  assumes "a mod 256 + length bs \<le> 256" and "x < a \<or> a + length bs \<le> x"
  shows "program_page m a bs x = m x"
proof (cases "x div 256 = a div 256")
  case True
  define q r s where "q = a div 256" and "r = a mod 256" and "s = x mod 256"
  have a: "a = 256 * q + r" "r < 256" and x: "x = 256 * q + s" "s < 256" 
    using mult_div_mod_eq [of 256 x, symmetric] unfolding True by (simp_all add: q_def r_def s_def)
  consider "s < r" | "r + length bs \<le> s" using assms(2) a x by linarith
  then have "\<not> (x + 256 - r) mod 256 < length bs"
  proof cases
    case 1
    then have "x + 256 - r = (256 + s - r) + 256 * q" "256 + s - r < 256" using x a(2) by auto
    then have "(x + 256 - r) mod 256 = 256 + s - r" by simp
    then show ?thesis using assms(1) by (simp add: r_def [symmetric])
  next
    case 2
    then have "x + 256 - r = (s - r) + 256 * (q + 1)" "s - r < 256" using x a(2) by auto
    then have "(x + 256 - r) mod 256 = s - r" by (metis mod_less mod_mult_self2)
    then show ?thesis using 2 by simp
  qed
  then show ?thesis by (simp add: program_page_def r_def [symmetric])
qed (simp add: program_page_def)

section \<open>What the driver does with the chip\<close>

lemma send_instr_moves:
  assumes "bus_ready dv st" and "spi_messages hal [send_msg [i] 1 True True] (bus_dev st) = (d, rs, ok)"
  shows "\<exists>st'. finishes (send_instr hal dv i) st st' rs \<and> moves dv st st' \<and> bus_dev st' = d"
  unfolding send_instr_def by (rule transfer_moves [OF assms(1) _ assms(2)]) simp

lemma moves_ready: "moves dv st st' \<Longrightarrow> bus_ready dv st'"
  by (simp add: moves_def)

text \<open>An instruction that needs the write enable latch, between \<^verbatim>\<open>WRITE_ENABLE\<close> and \<^verbatim>\<open>WRITE_DISABLE\<close>.\<close>

lemma flash_enable:
  assumes "bus_ready dv st" and "chip_enables hal mem polls wel desel" and "desel (bus_dev st)"
  shows "\<exists>st' rs. finishes (send_instr hal dv WRITE_ENABLE) st st' rs \<and> moves dv st st' \<and> desel (bus_dev st') \<and>
      mem (bus_dev st') = mem (bus_dev st) \<and> (polls (bus_dev st) = 0 \<longrightarrow> wel (bus_dev st') \<and> polls (bus_dev st') = 0)"
    and "\<exists>st' rs. finishes (send_instr hal dv WRITE_DISABLE) st st' rs \<and> moves dv st st' \<and> desel (bus_dev st') \<and>
      mem (bus_dev st') = mem (bus_dev st) \<and> polls (bus_dev st') \<le> polls (bus_dev st)"
proof -
  obtain d where d: "spi_messages hal [send_msg [WRITE_ENABLE] 1 True True] (bus_dev st) = (d, [[]], True)" "desel d"
    "mem d = mem (bus_dev st)" "polls (bus_dev st) = 0 \<longrightarrow> wel d \<and> polls d = 0"
    using assms(2,3) unfolding chip_enables_def by blast
  obtain st1 where st1: "finishes (send_instr hal dv WRITE_ENABLE) st st1 [[]]" "moves dv st st1" "bus_dev st1 = d"
    using send_instr_moves [OF assms(1) d(1)] by blast
  show "\<exists>st' rs. finishes (send_instr hal dv WRITE_ENABLE) st st' rs \<and> moves dv st st' \<and> desel (bus_dev st') \<and>
      mem (bus_dev st') = mem (bus_dev st) \<and> (polls (bus_dev st) = 0 \<longrightarrow> wel (bus_dev st') \<and> polls (bus_dev st') = 0)"
    using st1 d(2-) by (intro exI [of _ st1] exI [of _ "[[]]"]) simp
  obtain e where e: "spi_messages hal [send_msg [WRITE_DISABLE] 1 True True] (bus_dev st) = (e, [[]], True)" "desel e"
    "mem e = mem (bus_dev st)" "polls e \<le> polls (bus_dev st)"
    using assms(2,3) unfolding chip_enables_def by blast
  obtain st2 where st2: "finishes (send_instr hal dv WRITE_DISABLE) st st2 [[]]" "moves dv st st2" "bus_dev st2 = e"
    using send_instr_moves [OF assms(1) e(1)] by blast
  show "\<exists>st' rs. finishes (send_instr hal dv WRITE_DISABLE) st st' rs \<and> moves dv st st' \<and> desel (bus_dev st') \<and>
      mem (bus_dev st') = mem (bus_dev st) \<and> polls (bus_dev st') \<le> polls (bus_dev st)"
    using st2 e(2-) by (intro exI [of _ st2] exI [of _ "[[]]"]) simp
qed

lemma flash_write:
  assumes "bus_ready dv st" and "chip_enables hal mem polls wel desel" and "chip_programs hal mem polls wel desel"
    and "desel (bus_dev st)" and "polls (bus_dev st) = 0" and "length addr = 3" and "data \<noteq> []" and "length data = unat dlen"
  shows "\<exists>st'. finishes (w25q64_write hal dv addr dlen data) st st' () \<and> moves dv st st' \<and> desel (bus_dev st') \<and>
    mem (bus_dev st') = program_page (mem (bus_dev st)) (chip_cell addr) data"
proof -
  obtain st1 r1 where 1: "finishes (send_instr hal dv WRITE_ENABLE) st st1 r1" "moves dv st st1" "desel (bus_dev st1)"
    "mem (bus_dev st1) = mem (bus_dev st)" "wel (bus_dev st1)" "polls (bus_dev st1) = 0"
    using flash_enable(1) [OF assms(1,2,4)] assms(5) by blast
  let ?ms = "[send_msg [PAGE_PROGRAM] 1 True False, send_msg addr 3 False False, send_msg data (unat dlen) False True]"
  have "length data \<le> 256" using assms(8) unat_less_256 [of dlen] by linarith
  then obtain d where d: "spi_messages hal ?ms (bus_dev st1) = (d, [[], [], []], True)" "desel d"
    "mem d = program_page (mem (bus_dev st1)) (chip_cell addr) data"
    using chip_program [OF assms(3) 1(3,6,5) assms(6,7)] unfolding assms(8) by blast
  obtain st2 where 2: "finishes (rt_spi_transfer_message hal dv ?ms) st1 st2 [[], [], []]" "moves dv st1 st2" "bus_dev st2 = d"
    using transfer_moves [OF moves_ready [OF 1(2)] _ d(1)] by blast
  obtain st3 r3 where 3: "finishes (send_instr hal dv WRITE_DISABLE) st2 st3 r3" "moves dv st2 st3" "desel (bus_dev st3)"
    "mem (bus_dev st3) = mem (bus_dev st2)"
    using flash_enable(2) [OF moves_ready [OF 2(2)] assms(2)] d(2) 2(3) by blast
  have "finishes (w25q64_write hal dv addr dlen data) st st3 ()"
    unfolding w25q64_write_def by (rule finishes_seq [OF 1(1)], rule finishes_seq [OF 2(1)], rule finishes_seq [OF 3(1)]) simp
  moreover have "moves dv st st3" using moves_trans [OF moves_trans [OF 1(2) 2(2)] 3(2)] .
  ultimately show ?thesis using 1(4) 2(3) 3(3,4) d(3) by (intro exI [of _ st3]) simp
qed

lemma flash_read:
  assumes "bus_ready dv st" and "chip_reads hal mem polls desel"
    and "desel (bus_dev st)" and "polls (bus_dev st) = 0" and "length addr = 3" and "dlen \<noteq> 0"
  shows "\<exists>st'. finishes (w25q64_read hal dv addr dlen buf) st st' (read_cells (mem (bus_dev st)) (chip_cell addr) (unat dlen)) \<and>
    moves dv st st' \<and> desel (bus_dev st') \<and> mem (bus_dev st') = mem (bus_dev st) \<and> polls (bus_dev st') = 0"
proof -
  let ?ms = "[send_msg [READ_DATA] 1 True False, send_msg addr 3 False False, recv_msg (unat dlen) False True]"
  let ?rs = "[[], [], read_cells (mem (bus_dev st)) (chip_cell addr) (unat dlen)]"
  have "0 < unat dlen" using assms(6) by (simp add: unat_gt_0)
  then obtain d where d: "spi_messages hal ?ms (bus_dev st) = (d, ?rs, True)" "desel d" "mem d = mem (bus_dev st)" "polls d = 0"
    using chip_read [OF assms(2-5)] by blast
  obtain st' where st': "finishes (rt_spi_transfer_message hal dv ?ms) st st' ?rs" "moves dv st st'" "bus_dev st' = d"
    using transfer_moves [OF assms(1) _ d(1)] by blast
  have "finishes (w25q64_read hal dv addr dlen buf) st st' (read_cells (mem (bus_dev st)) (chip_cell addr) (unat dlen))"
    unfolding w25q64_read_def by (rule finishes_seq [OF st'(1)]) (simp add: received_def)
  then show ?thesis using st'(2,3) d(2-) by blast
qed

lemma flash_poll:
  assumes "bus_ready dv st" and "chip_erases k hal mem polls wel desel" and "desel (bus_dev st)" and "polls (bus_dev st) < n"
  shows "\<exists>st'. finishes (erase_poll hal dv buf n) st st' () \<and> moves dv st st' \<and> desel (bus_dev st') \<and>
    mem (bus_dev st') = mem (bus_dev st) \<and> polls (bus_dev st') = 0"
  using assms
proof (induction n arbitrary: st buf)
  case (Suc n)
  let ?ms = "[send_msg [READ_SR1] 1 True False, recv_msg 1 False True]"
  obtain d b where db: "spi_messages hal ?ms (bus_dev st) = (d, [[], [b]], True) \<and> desel d \<and> mem d = mem (bus_dev st) \<and>
    (b AND 1 \<noteq> 0 \<longleftrightarrow> 0 < polls (bus_dev st)) \<and> polls d = polls (bus_dev st) - 1"
    using chip_status [OF Suc.prems(2,3)] by (elim exE)
  note d = db [THEN conjunct1] db [THEN conjunct2, THEN conjunct1] db [THEN conjunct2, THEN conjunct2, THEN conjunct1]
    db [THEN conjunct2, THEN conjunct2, THEN conjunct2, THEN conjunct1] db [THEN conjunct2, THEN conjunct2, THEN conjunct2, THEN conjunct2]
  obtain st1 where 1: "finishes (rt_spi_transfer_message hal dv ?ms) st st1 [[], [b]]" "moves dv st st1" "bus_dev st1 = d"
    using transfer_moves [OF Suc.prems(1) _ d(1)] by blast
  show ?case
  proof (cases "polls (bus_dev st) = 0")
    case True
    have "finishes (erase_poll hal dv buf (Suc n)) st st1 ()" unfolding erase_poll.simps
      by (rule finishes_seq [OF 1(1)]) (use True d(4) in \<open>simp add: received_def Let_def\<close>)
    then show ?thesis using 1(2,3) d(2,3,5) True by (intro exI [of _ st1]) simp
  next
    case False
    obtain st2 where 2: "finishes (erase_poll hal dv b n) st1 st2 ()" "moves dv st1 st2" "desel (bus_dev st2)"
      "mem (bus_dev st2) = mem (bus_dev st1)" "polls (bus_dev st2) = 0"
    proof -
      have "polls (bus_dev st1) < n" "desel (bus_dev st1)" using 1(3) d(2,5) Suc.prems(4) False by auto
      then show thesis using that Suc.IH [OF moves_ready [OF 1(2)] Suc.prems(2), of b] by blast
    qed
    have "finishes (erase_poll hal dv buf (Suc n)) st st2 ()" unfolding erase_poll.simps
      by (rule finishes_seq [OF 1(1)]) (use False d(4) 2(1) in \<open>simp add: received_def Let_def\<close>)
    then show ?thesis using 2(3-) 1(3) d(3) moves_trans [OF 1(2) 2(2)] by (intro exI [of _ st2]) simp
  qed
qed simp

section \<open>Properties\<close>

text \<open>Bytes written to erased cells of one page are read back: on a free bus and with an idle chip \<^verbatim>\<open>w25q64_control(PAGE_PROGRAM, ...)\<close>
  returns and changes no cell outside the range; from any later state in which the chip has finished the
  program instruction and its cells are still the same, \<^verbatim>\<open>w25q64_control(READ_DATA, ...)\<close> of the same address returns the bytes.\<close>

theorem w25q64_write_read:
  assumes "bus_ready dv st" and "chip_enables hal mem polls wel desel" and "chip_programs hal mem polls wel desel"
    and "chip_reads hal mem polls desel" and "desel (bus_dev st)" and "polls (bus_dev st) = 0"
    and "length addr = 3" and "data \<noteq> []" and "length data = unat dlen" and "chip_cell addr mod 256 + length data \<le> 256"
    and "\<forall>i<length data. mem (bus_dev st) (chip_cell addr + i) = 0xff"
  shows "\<exists>st1. finishes (w25q64_control hal dv buf n PAGE_PROGRAM addr dlen data) st st1 data \<and> bus_ready dv st1 \<and> desel (bus_dev st1) \<and>
     (\<forall>x. x < chip_cell addr \<or> chip_cell addr + length data \<le> x \<longrightarrow> mem (bus_dev st1) x = mem (bus_dev st) x) \<and>
     (\<forall>st2 old. bus_ready dv st2 \<and> desel (bus_dev st2) \<and> polls (bus_dev st2) = 0 \<and> mem (bus_dev st2) = mem (bus_dev st1) \<longrightarrow>
        (\<exists>st3. finishes (w25q64_control hal dv buf n READ_DATA addr dlen old) st2 st3 data \<and> bus_ready dv st3))"
proof -
  let ?a = "chip_cell addr"
  obtain st1 where 1: "finishes (w25q64_write hal dv addr dlen data) st st1 ()" "moves dv st st1" "desel (bus_dev st1)"
    "mem (bus_dev st1) = program_page (mem (bus_dev st)) ?a data"
    using flash_write [OF assms(1,2,3,5-9)] by blast
  have "finishes (w25q64_control hal dv buf n PAGE_PROGRAM addr dlen data) st st1 data"
    using finishes_seq [OF 1(1), of "\<lambda>_. ret data"] by (simp add: w25q64_control_def discard_def)
  moreover have "mem (bus_dev st1) x = mem (bus_dev st) x" if "x < ?a \<or> ?a + length data \<le> x" for x
    unfolding 1(4) by (rule program_page_other [OF assms(10) that])
  moreover have "\<exists>st3. finishes (w25q64_control hal dv buf n READ_DATA addr dlen old) st2 st3 data \<and> bus_ready dv st3"
    if "bus_ready dv st2" "desel (bus_dev st2)" "polls (bus_dev st2) = 0" "mem (bus_dev st2) = mem (bus_dev st1)" for st2 old
  proof -
    have "dlen \<noteq> 0" using assms(8,9) by auto
    from flash_read [OF that(1) assms(4) that(2,3) assms(7) this]
    obtain st3 where 3: "finishes (w25q64_read hal dv addr dlen old) st2 st3 (read_cells (mem (bus_dev st2)) ?a (unat dlen))" "moves dv st2 st3" by blast
    have "read_cells (mem (bus_dev st2)) ?a (unat dlen) = data"
      using read_programmed [of ?a data "mem (bus_dev st)"] assms(9,10,11) that(4) 1(4) by (simp add: chip_cell_def)
    then show ?thesis using 3 moves_ready by (auto simp: w25q64_control_def)
  qed
  ultimately show ?thesis using 1(3) moves_ready [OF 1(2)] by blast
qed

text \<open>C37. The erase of the chip returns and leaves every cell erased, when the chip stops being busy after finitely many readings of its
  status: the loop \<^verbatim>\<open>do ... while (buf & 0x1)\<close> ends after one round more than there are busy answers.\<close>

theorem w25q64_erase_terminates:
  assumes "bus_ready dv st" and "chip_enables hal mem polls wel desel" and "chip_erases n hal mem polls wel desel"
    and "desel (bus_dev st)" and "polls (bus_dev st) = 0"
  shows "\<exists>st'. finishes (w25q64_control hal dv buf n CHIP_ERASE addr dlen data) st st' data \<and> bus_ready dv st' \<and> desel (bus_dev st') \<and>
     mem (bus_dev st') = (\<lambda>_. 0xff) \<and> polls (bus_dev st') = 0"
proof -
  obtain st1 r1 where 1: "finishes (send_instr hal dv WRITE_ENABLE) st st1 r1" "moves dv st st1" "desel (bus_dev st1)"
    "wel (bus_dev st1)" "polls (bus_dev st1) = 0"
    using flash_enable(1) [OF assms(1,2,4)] assms(5) by blast
  obtain d where d: "spi_messages hal [send_msg [CHIP_ERASE] 1 True True] (bus_dev st1) = (d, [[]], True)" "desel d" "mem d = (\<lambda>_. 0xff)" "polls d < n"
    using assms(3) 1(3,4,5) unfolding chip_erases_def by blast
  obtain st2 where 2: "finishes (send_instr hal dv CHIP_ERASE) st1 st2 [[]]" "moves dv st1 st2" "bus_dev st2 = d"
    using send_instr_moves [OF moves_ready [OF 1(2)] d(1)] by blast
  have "desel (bus_dev st2)" "polls (bus_dev st2) < n" using 2(3) d(2,4) by simp_all
  then obtain st3 where 3: "finishes (erase_poll hal dv buf n) st2 st3 ()" "moves dv st2 st3" "desel (bus_dev st3)"
    "mem (bus_dev st3) = mem (bus_dev st2)" "polls (bus_dev st3) = 0"
    using flash_poll [OF moves_ready [OF 2(2)] assms(3)] by blast
  obtain st4 r4 where 4: "finishes (send_instr hal dv WRITE_DISABLE) st3 st4 r4" "moves dv st3 st4" "desel (bus_dev st4)"
    "mem (bus_dev st4) = mem (bus_dev st3)" "polls (bus_dev st4) \<le> polls (bus_dev st3)"
    using flash_enable(2) [OF moves_ready [OF 3(2)] assms(2) 3(3)] by blast
  have "finishes (w25q64_erase hal dv buf n) st st4 ()" unfolding w25q64_erase_def
    by (rule finishes_seq [OF 1(1)], rule finishes_seq [OF 2(1)], rule finishes_seq [OF 3(1)], rule finishes_seq [OF 4(1)]) simp
  from finishes_seq [OF this, of "\<lambda>_. ret data"]
  have "finishes (w25q64_control hal dv buf n CHIP_ERASE addr dlen data) st st4 data" by (simp add: w25q64_control_def discard_def)
  then show ?thesis using 2(3) d(3) 3(4,5) 4(3,4,5) moves_ready [OF 4(2)] by auto
qed

text \<open>Two instructions of the driver do not do their work, whatever the chip does: a sector or block erase sends the address
  only, so that \<^verbatim>\<open>SECTOR_ERASE\<close>, \<^verbatim>\<open>BLOCK_ERASE\<close> and \<^verbatim>\<open>DBLOCK_ERASE\<close> are the same call and none of them reaches the chip; and the reading of a status
  register never writes the caller's buffer.\<close>

theorem w25q64_lost_instructions:
  "w25q64_control hal dv buf n SECTOR_ERASE addr dlen data = w25q64_control hal dv buf n DBLOCK_ERASE addr dlen data \<and>
   w25q64_control hal dv buf n BLOCK_ERASE addr dlen data = w25q64_control hal dv buf n DBLOCK_ERASE addr dlen data \<and>
   (finishes (w25q64_control hal dv buf n READ_SR1 addr dlen data) st st' r \<longrightarrow> r = data)"
proof -
  have "r = data" if fin: "finishes (discard c data) st st' r" for c
  proof -
    obtain s1 p where "c st = Some (s1, p)" "outcome_bind p (\<lambda>_. ret data) s1 = Some (st', Finished r)"
      using fin by (auto simp: finishes_def discard_def seq_def elim: bind_Some_elim)
    then show ?thesis by (cases p) (auto simp: ret_def)
  qed
  then show ?thesis by (auto simp: w25q64_control_def w25q64_erase_part_def)
qed

section \<open>Witnesses\<close>

text \<open>A chip that behaves as the data sheet says, byte by byte: an instruction is carried out when the chip is deselected.\<close>

record sim_chip =
  cells :: "nat \<Rightarrow> u8"
  latch :: bool
  busy_left :: nat
  inputs :: "u8 list"
  selected :: bool

definition sim_execute :: "u8 list \<Rightarrow> sim_chip \<Rightarrow> sim_chip" where
  "sim_execute bs c =
     (if busy_left c \<noteq> 0 then c
      else if bs = [WRITE_ENABLE] then c\<lparr>latch := True\<rparr>
      else if bs = [WRITE_DISABLE] then c\<lparr>latch := False\<rparr>
      else if bs = [CHIP_ERASE] \<and> latch c then c\<lparr>cells := (\<lambda>_. 0xff), latch := False, busy_left := 3\<rparr>
      else if 4 < length bs \<and> hd bs = PAGE_PROGRAM \<and> latch c
      then c\<lparr>cells := program_page (cells c) (chip_cell (tl bs)) (drop 4 bs), latch := False, busy_left := 1\<rparr>
      else c)"

definition sim_hal :: "sim_chip spi_hal" where
  "sim_hal = \<lparr>
     hal_pin = (\<lambda>high c. if high then (sim_execute (inputs c) c)\<lparr>inputs := [], selected := False\<rparr> else c\<lparr>inputs := [], selected := True\<rparr>),
     hal_transmit = (\<lambda>bs c. (c\<lparr>inputs := inputs c @ bs\<rparr>, True)),
     hal_receive = (\<lambda>n c. if inputs c = [READ_SR1]
        then (c\<lparr>busy_left := busy_left c - 1\<rparr>, replicate n (if 0 < busy_left c then 1 else 0), True)
        else (c, read_cells (cells c) (chip_cell (tl (inputs c))) n, True)),
     hal_transmit_receive = (\<lambda>bs c. (c, bs, True)),
     hal_configure = (\<lambda>c. (c, RT_EOK))\<rparr>"

abbreviation (input) sim_desel :: "sim_chip \<Rightarrow> bool" where
  "sim_desel c \<equiv> inputs c = [] \<and> \<not> selected c"

lemma length_3: "length a = 3 \<Longrightarrow> \<exists>x y z. a = [x, y, z]"
  by (auto simp: numeral_3_eq_3 length_Suc_conv)

lemma sim_laws:
  "chip_enables sim_hal cells busy_left latch sim_desel" "chip_programs sim_hal cells busy_left latch sim_desel"
  "chip_reads sim_hal cells busy_left sim_desel" "chip_erases 4 sim_hal cells busy_left latch sim_desel"
proof -
  note defs = spixfer_def send_msg_def recv_msg_def sim_hal_def sim_execute_def Let_def
  show "chip_enables sim_hal cells busy_left latch sim_desel" by (simp add: chip_enables_def defs)
  show "chip_erases 4 sim_hal cells busy_left latch sim_desel" by (simp add: chip_erases_def defs)
  show "chip_reads sim_hal cells busy_left sim_desel" by (auto simp: chip_reads_def defs)
  show "chip_programs sim_hal cells busy_left latch sim_desel"
    unfolding chip_programs_def by (auto simp: defs chip_cell_def dest!: length_3)
qed

definition demo_board :: "sim_chip board" where
  "demo_board = \<lparr>kern = (demo_kernel 0)\<lparr>mutexes := [5 \<mapsto> \<lparr>mutex_type = 0x83, mutex_flag = 0, mutex_value = 1, original_priority = 0xff, hold = 0, owner = None\<rparr>]\<rparr>,
     bus_lock = 5, bus_owner = Some 0,
     bus_dev = \<lparr>cells = (\<lambda>_. 0xff), latch = False, busy_left = 0, inputs = [], selected = False\<rparr>\<rparr>"

lemma demo_board_ready: "bus_ready 0 demo_board"
proof -
  have "queues (demo_kernel 0) (MutexQ 5) = []" "rt_interrupt_nest (demo_kernel 0) = 0" "rt_current_thread (demo_kernel 0) = Some 1"
    "\<exists>th. threads (demo_kernel 0) 1 = Some th" by (simp_all add: demo_kernel_def)
  then show ?thesis by (simp add: bus_ready_def in_thread_def free_mutex_def demo_board_def rt_object_get_type_def)
qed

theorem w25q64_write_read_witness:
  "\<exists>st1. finishes (w25q64_control sim_hal 0 0 9 PAGE_PROGRAM [0, 1, 2] 3 [7, 8, 9]) demo_board st1 [7, 8, 9] \<and> bus_ready 0 st1"
  using w25q64_write_read [OF demo_board_ready sim_laws(1,2,3), of "[0, 1, 2]" "[7, 8, 9]" 3 0 9]
  by (auto simp: demo_board_def chip_cell_def)

theorem w25q64_erase_terminates_witness:
  "\<exists>st1. finishes (w25q64_control sim_hal 0 0 4 CHIP_ERASE [] 0 []) demo_board st1 [] \<and> cells (bus_dev st1) = (\<lambda>_. 0xff)"
  using w25q64_erase_terminates [OF demo_board_ready sim_laws(1,4), of 0 "[]" 0 "[]"] by (auto simp: demo_board_def)

theorem w25q64_lost_instructions_witness:
  "w25q64_control sim_hal 0 0 4 SECTOR_ERASE [0, 1, 2] 0 [] = w25q64_control sim_hal 0 0 4 DBLOCK_ERASE [0, 1, 2] 0 []"
  using w25q64_lost_instructions [of sim_hal 0 0 4 "[0, 1, 2]" 0 "[]"] by blast

end
