(* ===== verification/Logger.thy ===== *)
theory Logger
  imports Flash
begin

text \<open>
  The writing of measurements to the flash memory, \<^verbatim>\<open>applications/procedure.c\<close>: \<^verbatim>\<open>write_raw_mem_async\<close>, \<^verbatim>\<open>read_raw_mem_async\<close>,
  \<^verbatim>\<open>write_bench_mem_async\<close> and \<^verbatim>\<open>read_bench_mem_async\<close>, which run as tasks of the deferrable server. The measurements are
  \<^verbatim>\<open>float\<close>s; their type and their conversions to \<^verbatim>\<open>rt_uint8_t\<close> and \<^verbatim>\<open>rt_uint32_t\<close> are parameters. Log output and the
  timing that is switched off by \<^verbatim>\<open>COUNT\<close> are not part of the model.
\<close>

section \<open>State\<close>

record 'f conv =
  to_u8 :: "'f \<Rightarrow> u8"
  to_u32 :: "'f \<Rightarrow> u32"

text \<open>The static variables of \<^verbatim>\<open>procedure.c\<close>; \<open>rec_i\<close> is the variable \<^verbatim>\<open>i\<close> of \<^verbatim>\<open>write_raw_mem_async\<close>.\<close>

record ('d, 'f) app =
  brd :: "'d board"
  addr :: u32
  addr_bench :: u32
  rec_i :: nat
  acc_v :: "'f list"
  gyro_v :: "'f list"
  baro_v :: "'f list"
  results :: "'f list"
  raw_mutex :: nat
  bench_mutex :: nat

abbreviation (input) NUM_READINGS :: nat where "NUM_READINGS \<equiv> 125"

text \<open>A call on the board as a call of the application.\<close>

primrec lift_outcome :: "('d board, 'a) outcome \<Rightarrow> (('d, 'f) app, 'a) outcome" where
  "lift_outcome (Finished a) = Finished a"
| "lift_outcome (Suspended c) = Suspended (\<lambda>a. map_option (\<lambda>(b, p). (a\<lparr>brd := b\<rparr>, p))
     ((map_option (map_prod id lift_outcome) \<circ> c) (brd a)))"

definition on_board :: "('d board, 'a) comp \<Rightarrow> (('d, 'f) app, 'a) comp" where
  "on_board c a = map_option (\<lambda>(b, p). (a\<lparr>brd := b\<rparr>, lift_outcome p)) (c (brd a))"

section \<open>Operations\<close>

definition float_bytes :: "'f conv \<Rightarrow> 'f \<Rightarrow> u8 list" where
  "float_bytes cv x = [to_u8 cv x, ucast (drop_bit 8 (to_u32 cv x)), ucast (drop_bit 16 (to_u32 cv x)), ucast (drop_bit 24 (to_u32 cv x))]"

definition addr_bytes :: "u32 \<Rightarrow> u8 list" where
  "addr_bytes a = [ucast a, ucast (drop_bit 8 a), ucast (drop_bit 16 a)]"

definition raw_record :: "'f conv \<Rightarrow> ('d, 'f) app \<Rightarrow> u8 list" where
  "raw_record cv a = float_bytes cv (acc_v a ! rec_i a) @ float_bytes cv (gyro_v a ! rec_i a) @ float_bytes cv (baro_v a ! rec_i a)"

definition write_raw_mem_async :: "'d spi_hal \<Rightarrow> nat \<Rightarrow> u8 \<Rightarrow> nat \<Rightarrow> 'f conv \<Rightarrow> (('d, 'f) app, unit) comp" where
  "write_raw_mem_async hal dv buf n cv =
     seq (\<lambda>a. if 0x7FFFF4 \<le> addr a
              then seq (on_board (w25q64_control hal dv buf n CHIP_ERASE [] 0 [])) (\<lambda>_. modify (addr_update (\<lambda>_. 0))) a
              else ret () a) (\<lambda>_.
     seq (\<lambda>a. on_board (board_mutex_take (raw_mutex a)) a) (\<lambda>_.
     seq (\<lambda>a. on_board (w25q64_control hal dv buf n PAGE_PROGRAM (addr_bytes (addr a)) 12 (raw_record cv a)) a) (\<lambda>_.
     seq (modify (\<lambda>a. a\<lparr>addr := addr a + 12, rec_i := (rec_i a + 1) mod NUM_READINGS\<rparr>)) (\<lambda>_.
     seq (\<lambda>a. on_board (board_mutex_release (raw_mutex a)) a) (\<lambda>_. ret ())))))"

text \<open>The result is the buffer \<^verbatim>\<open>rd\<close>, which the function prints; \<open>junk\<close> is what the uninitialised buffer held.\<close>

definition read_raw_mem_async :: "'d spi_hal \<Rightarrow> nat \<Rightarrow> u8 \<Rightarrow> nat \<Rightarrow> u8 list \<Rightarrow> (('d, 'f) app, u8 list) comp" where
  "read_raw_mem_async hal dv buf n junk =
     seq (\<lambda>a. on_board (board_mutex_take (raw_mutex a)) a) (\<lambda>_.
     seq (\<lambda>a. on_board (w25q64_control hal dv buf n READ_DATA (addr_bytes (addr a - 12)) 12 junk) a) (\<lambda>rd.
     seq (\<lambda>a. on_board (board_mutex_release (raw_mutex a)) a) (\<lambda>_. ret rd)))"

definition bench_record :: "'f conv \<Rightarrow> ('d, 'f) app \<Rightarrow> u8 list" where
  "bench_record cv a = concat (map (float_bytes cv) (take 14 (results a)))"

definition write_bench_mem_async :: "'d spi_hal \<Rightarrow> nat \<Rightarrow> u8 \<Rightarrow> nat \<Rightarrow> 'f conv \<Rightarrow> (('d, 'f) app, unit) comp" where
  "write_bench_mem_async hal dv buf n cv =
     seq (\<lambda>a. if 0xFFFFC8 \<le> addr_bench a
              then seq (on_board (w25q64_control hal dv buf n CHIP_ERASE [] 0 [])) (\<lambda>_. modify (addr_bench_update (\<lambda>_. 0x800000))) a
              else ret () a) (\<lambda>_.
     seq (\<lambda>a. on_board (board_mutex_take (bench_mutex a)) a) (\<lambda>_.
     seq (\<lambda>a. on_board (w25q64_control hal dv buf n PAGE_PROGRAM (addr_bytes (addr_bench a)) 56 (bench_record cv a)) a) (\<lambda>_.
     seq (modify (\<lambda>a. a\<lparr>addr_bench := addr_bench a + 0x38\<rparr>)) (\<lambda>_.
     seq (\<lambda>a. on_board (board_mutex_release (bench_mutex a)) a) (\<lambda>_. ret ())))))"

definition read_bench_mem_async :: "'d spi_hal \<Rightarrow> nat \<Rightarrow> u8 \<Rightarrow> nat \<Rightarrow> u8 list \<Rightarrow> (('d, 'f) app, u8 list) comp" where
  "read_bench_mem_async hal dv buf n junk =
     seq (\<lambda>a. on_board (board_mutex_take (bench_mutex a)) a) (\<lambda>_.
     seq (\<lambda>a. on_board (w25q64_control hal dv buf n READ_DATA (addr_bytes (addr_bench a - 0x38)) 56 junk) a) (\<lambda>rd.
     seq (\<lambda>a. on_board (board_mutex_release (bench_mutex a)) a) (\<lambda>_. ret rd)))"

section \<open>Records on the chip\<close>

lemma finishes_on_board: "finishes c (brd a) b r \<Longrightarrow> finishes (on_board c) a (a\<lparr>brd := b\<rparr>) r"
  by (simp add: finishes_def on_board_def)

lemma finishes_on_board': "finishes c (brd a) b r \<Longrightarrow> finishes (\<lambda>a. on_board (c' a) a) a (a\<lparr>brd := b\<rparr>) r" if "c' a = c"
  using that by (simp add: finishes_def on_board_def)

lemma length_float_bytes [simp]: "length (float_bytes cv x) = 4" "length (raw_record cv a) = 12" "length (addr_bytes w) = 3"
  by (simp_all add: float_bytes_def raw_record_def addr_bytes_def)

text \<open>The cell of an address: the bytes are sent with the least significant one first, the chip takes them the other way round.\<close>

lemma chip_cell_addr:
  "chip_cell (addr_bytes a) = (unat a mod 256 * 0x10000 + unat a div 256 mod 256 * 0x100 + unat a div 65536 mod 256) mod 0x800000"
  by (simp add: chip_cell_def addr_bytes_def unsigned_ucast_eq unsigned_drop_bit_eq take_bit_eq_mod drop_bit_eq_div unat_div)

lemma chip_cell_page:
  assumes "unat a < 0x800000"
  shows "chip_cell (addr_bytes a) mod 256 < 128"
proof -
  have "unat a div 65536 < 128" using assms by simp
  moreover have "unat a mod 256 * 0x10000 + unat a div 256 mod 256 * 0x100 + unat a div 65536 mod 256 =
    unat a div 65536 mod 256 + 256 * (unat a mod 256 * 256 + unat a div 256 mod 256)" by simp
  then have "(unat a mod 256 * 0x10000 + unat a div 256 mod 256 * 0x100 + unat a div 65536 mod 256) mod 256 = unat a div 65536 mod 256"
    by (metis mod_mod_trivial mod_mult_self2)
  moreover have "x mod 0x800000 mod 256 = x mod 256" for x :: nat by (rule mod_mod_cancel) simp
  ultimately show ?thesis by (simp add: chip_cell_addr)
qed

lemma digits:
  fixes p r :: nat
  assumes "r < 65536"
  shows "(65536 * p + r) mod 256 = r mod 256" and "(65536 * p + r) div 256 mod 256 = r div 256" and "(65536 * p + r) div 65536 = p"
proof -
  have e: "65536 * p + r = r + 256 * (256 * p)" by simp
  show "(65536 * p + r) mod 256 = r mod 256" unfolding e by (rule mod_mult_self2)
  have "(65536 * p + r) div 256 = r div 256 + 256 * p" unfolding e by simp
  moreover have "r div 256 < 256" using assms by simp
  ultimately show "(65536 * p + r) div 256 mod 256 = r div 256" by simp
  show "(65536 * p + r) div 65536 = p" using assms by simp
qed

lemma page_mod:
  fixes y q :: nat
  assumes "q < 256"
  shows "(256 * y + q) mod 0x800000 = 256 * (y mod 32768) + q"
proof -
  define u z where "u = y div 32768" and "z = y mod 32768"
  have y: "y = 32768 * u + z" "z < 32768" unfolding u_def z_def by (rule mult_div_mod_eq [symmetric], rule mod_less_divisor) simp
  have "256 * y + q = 256 * z + q + 0x800000 * u" using y(1) by simp
  then have "(256 * y + q) mod 0x800000 = (256 * z + q) mod 0x800000" by (simp only: mod_mult_self2)
  then show ?thesis using assms y(2) by (simp flip: z_def)
qed

section \<open>Writing and reading under the mutex\<close>

definition log_ready :: "nat \<Rightarrow> nat \<Rightarrow> 'd board \<Rightarrow> bool" where
  "log_ready dv i b \<longleftrightarrow> bus_ready dv b \<and> free_mutex (kern b) i \<and> i \<noteq> bus_lock b"

lemma log_lock:
  assumes "log_ready dv i b"
  obtains b1 where "finishes (board_mutex_take i) b b1 RT_EOK" and "bus_ready dv b1" and "bus_dev b1 = bus_dev b"
    and "\<And>b2. moves dv b1 b2 \<Longrightarrow> \<exists>b3. finishes (board_mutex_release i) b2 b3 RT_EOK \<and> log_ready dv i b3 \<and> bus_dev b3 = bus_dev b2"
proof -
  let ?s = "kern b"
  have r: "bus_ready dv b" "free_mutex ?s i" "i \<noteq> bus_lock b" "in_thread ?s" "free_mutex ?s (bus_lock b)" "bus_owner b = Some dv"
    using assms by (auto simp: log_ready_def bus_ready_def)
  obtain c where c: "rt_current_thread ?s = Some c" using r(4) by (auto simp: in_thread_def)
  let ?b1 = "b\<lparr>kern := holding i c RT_EOK ?s\<rparr>"
  have "finishes (board_mutex_take i) b ?b1 RT_EOK"
    using take_free_mutex [OF r(4,2) c] c by (simp add: finishes_def board_mutex_take_def rt_thread_self_def)
  moreover have "bus_ready dv ?b1" using r by (simp add: bus_ready_def holding_facts)
  moreover have "\<exists>b3. finishes (board_mutex_release i) b2 b3 RT_EOK \<and> log_ready dv i b3 \<and> bus_dev b3 = bus_dev b2" if m: "moves dv ?b1 b2" for b2
  proof -
    have q: "quiet (holding i c RT_EOK ?s) (kern b2)" "bus_ready dv b2" "bus_lock b2 = bus_lock b" using m by (simp_all add: moves_def)
    obtain s3 where s3: "rt_mutex_release i (kern b2) = Some (s3, RT_EOK)" "quiet ?s s3"
      using release_after_quiet [OF c r(2,4) q(1)] by blast
    have "finishes (board_mutex_release i) b2 (b2\<lparr>kern := s3\<rparr>) RT_EOK" using s3(1) by (simp add: finishes_def board_mutex_release_def)
    moreover have "log_ready dv i (b2\<lparr>kern := s3\<rparr>)"
      using quiet_facts(1,2) [OF s3(2)] r q(2,3) by (simp add: log_ready_def bus_ready_def)
    ultimately show ?thesis by (intro exI [of _ "b2\<lparr>kern := s3\<rparr>"]) simp
  qed
  ultimately show thesis using that [of ?b1] by simp
qed

lemma control_write:
  assumes "bus_ready dv b" and "chip_enables hal mem polls wel desel" and "chip_programs hal mem polls wel desel"
    and "desel (bus_dev b)" and "polls (bus_dev b) = 0" and "length ad = 3" and "data \<noteq> []" and "length data = unat dlen"
  shows "\<exists>b'. finishes (w25q64_control hal dv buf n PAGE_PROGRAM ad dlen data) b b' data \<and> moves dv b b' \<and> desel (bus_dev b') \<and>
    mem (bus_dev b') = program_page (mem (bus_dev b)) (chip_cell ad) data"
proof -
  obtain b' where b': "finishes (w25q64_write hal dv ad dlen data) b b' ()" "moves dv b b'" "desel (bus_dev b')"
    "mem (bus_dev b') = program_page (mem (bus_dev b)) (chip_cell ad) data" using flash_write [OF assms] by blast
  from finishes_seq [OF b'(1), of "\<lambda>_. ret data"] show ?thesis using b'(2-) by (auto simp: w25q64_control_def discard_def)
qed

lemma log_write:
  assumes "log_ready dv (raw_mutex a) (brd a)" and "chip_enables hal mem polls wel desel" and "chip_programs hal mem polls wel desel"
    and "desel (bus_dev (brd a))" and "polls (bus_dev (brd a)) = 0" and "addr a < 0x7FFFF4"
  shows "\<exists>b. finishes (write_raw_mem_async hal dv buf n cv) a (a\<lparr>brd := b, addr := addr a + 12, rec_i := (rec_i a + 1) mod NUM_READINGS\<rparr>) () \<and>
    log_ready dv (raw_mutex a) b \<and> desel (bus_dev b) \<and>
    mem (bus_dev b) = program_page (mem (bus_dev (brd a))) (chip_cell (addr_bytes (addr a))) (raw_record cv a)"
proof -
  let ?i = "raw_mutex a"
  obtain b1 where 1: "finishes (board_mutex_take ?i) (brd a) b1 RT_EOK" "bus_ready dv b1" "bus_dev b1 = bus_dev (brd a)"
    "\<And>b2. moves dv b1 b2 \<Longrightarrow> \<exists>b3. finishes (board_mutex_release ?i) b2 b3 RT_EOK \<and> log_ready dv ?i b3 \<and> bus_dev b3 = bus_dev b2"
    using log_lock [OF assms(1)] by metis
  let ?a1 = "a\<lparr>brd := b1\<rparr>" and ?d = "raw_record cv a"
  have "?d \<noteq> []" "length ?d = unat (12 :: u8)" by (simp_all add: raw_record_def float_bytes_def)
  then obtain b2 where 2: "finishes (w25q64_control hal dv buf n PAGE_PROGRAM (addr_bytes (addr a)) 12 ?d) b1 b2 ?d" "moves dv b1 b2"
    "desel (bus_dev b2)" "mem (bus_dev b2) = program_page (mem (bus_dev b1)) (chip_cell (addr_bytes (addr a))) ?d"
    using control_write [OF 1(2) assms(2,3)] assms(4,5) 1(3) by (metis length_float_bytes(3))
  obtain b3 where 3: "finishes (board_mutex_release ?i) b2 b3 RT_EOK" "log_ready dv ?i b3" "bus_dev b3 = bus_dev b2" using 1(4) [OF 2(2)] by blast
  have rr: "raw_record cv ?a1 = ?d" by (simp add: raw_record_def)
  let ?a2 = "a\<lparr>brd := b2\<rparr>" and ?a3 = "a\<lparr>brd := b2, addr := addr a + 12, rec_i := (rec_i a + 1) mod NUM_READINGS\<rparr>"
  let ?a4 = "a\<lparr>brd := b3, addr := addr a + 12, rec_i := (rec_i a + 1) mod NUM_READINGS\<rparr>"
  have f0: "finishes (\<lambda>a. if 0x7FFFF4 \<le> addr a then seq (on_board (w25q64_control hal dv buf n CHIP_ERASE [] 0 [])) (\<lambda>_. modify (addr_update (\<lambda>_. 0))) a
      else ret () a) a a ()" 
    using assms(6) by (simp add: finishes_def ret_def flip: not_le)
  have f1: "finishes (\<lambda>a. on_board (board_mutex_take (raw_mutex a)) a) a ?a1 RT_EOK" by (rule finishes_on_board' [OF _ 1(1)]) simp
  have f2: "finishes (\<lambda>a. on_board (w25q64_control hal dv buf n PAGE_PROGRAM (addr_bytes (addr a)) 12 (raw_record cv a)) a) ?a1 ?a2 ?d"
    using finishes_on_board [of _ ?a1 b2 ?d] 2(1) rr by (simp add: finishes_def on_board_def)
  have f4: "finishes (\<lambda>a. on_board (board_mutex_release (raw_mutex a)) a) ?a3 ?a4 RT_EOK"
    using 3(1) by (simp add: finishes_def on_board_def)
  have "finishes (write_raw_mem_async hal dv buf n cv) a ?a4 ()" unfolding write_raw_mem_async_def
    by (rule finishes_seq [OF f0], rule finishes_seq [OF f1], rule finishes_seq [OF f2], rule finishes_seq [of _ _ ?a3 "()"], simp,
        rule finishes_seq [OF f4]) simp
  then show ?thesis using 2(3,4) 3(2,3) 1(3) by auto
qed

lemma control_read:
  assumes "bus_ready dv b" and "chip_reads hal mem polls desel" and "desel (bus_dev b)" and "polls (bus_dev b) = 0"
    and "length ad = 3" and "dlen \<noteq> 0"
  shows "\<exists>b'. finishes (w25q64_control hal dv buf n READ_DATA ad dlen old) b b' (read_cells (mem (bus_dev b)) (chip_cell ad) (unat dlen)) \<and>
    moves dv b b' \<and> desel (bus_dev b') \<and> mem (bus_dev b') = mem (bus_dev b)"
  using flash_read [OF assms, of old] by (auto simp: w25q64_control_def)

lemma log_read:
  assumes "log_ready dv (raw_mutex a) (brd a)" and "chip_reads hal mem polls desel"
    and "desel (bus_dev (brd a))" and "polls (bus_dev (brd a)) = 0"
  shows "\<exists>b. finishes (read_raw_mem_async hal dv buf n junk) a (a\<lparr>brd := b\<rparr>)
      (read_cells (mem (bus_dev (brd a))) (chip_cell (addr_bytes (addr a - 12))) 12) \<and>
    log_ready dv (raw_mutex a) b \<and> mem (bus_dev b) = mem (bus_dev (brd a))"
proof -
  let ?i = "raw_mutex a" and ?r = "read_cells (mem (bus_dev (brd a))) (chip_cell (addr_bytes (addr a - 12))) 12"
  obtain b1 where 1: "finishes (board_mutex_take ?i) (brd a) b1 RT_EOK" "bus_ready dv b1" "bus_dev b1 = bus_dev (brd a)"
    "\<And>b2. moves dv b1 b2 \<Longrightarrow> \<exists>b3. finishes (board_mutex_release ?i) b2 b3 RT_EOK \<and> log_ready dv ?i b3 \<and> bus_dev b3 = bus_dev b2"
    using log_lock [OF assms(1)] by metis
  obtain b2 where 2: "finishes (w25q64_control hal dv buf n READ_DATA (addr_bytes (addr a - 12)) 12 junk) b1 b2 ?r" "moves dv b1 b2"
    "mem (bus_dev b2) = mem (bus_dev b1)"
    using control_read [OF 1(2) assms(2), of "addr_bytes (addr a - 12)" 12 buf n junk] assms(3,4) 1(3) by auto
  obtain b3 where 3: "finishes (board_mutex_release ?i) b2 b3 RT_EOK" "log_ready dv ?i b3" "bus_dev b3 = bus_dev b2" using 1(4) [OF 2(2)] by blast
  have f1: "finishes (\<lambda>a. on_board (board_mutex_take (raw_mutex a)) a) a (a\<lparr>brd := b1\<rparr>) RT_EOK" by (rule finishes_on_board' [OF _ 1(1)]) simp
  have f2: "finishes (\<lambda>a. on_board (w25q64_control hal dv buf n READ_DATA (addr_bytes (addr a - 12)) 12 junk) a) (a\<lparr>brd := b1\<rparr>) (a\<lparr>brd := b2\<rparr>) ?r"
    using 2(1) by (simp add: finishes_def on_board_def)
  have f3: "finishes (\<lambda>a. on_board (board_mutex_release (raw_mutex a)) a) (a\<lparr>brd := b2\<rparr>) (a\<lparr>brd := b3\<rparr>) RT_EOK"
    using 3(1) by (simp add: finishes_def on_board_def)
  have "finishes (read_raw_mem_async hal dv buf n junk) a (a\<lparr>brd := b3\<rparr>) ?r" unfolding read_raw_mem_async_def
    by (rule finishes_seq [OF f1], rule finishes_seq [OF f2], rule finishes_seq [OF f3]) simp
  then show ?thesis using 2(3) 3(2,3) 1(3) by auto
qed

section \<open>Properties\<close>

text \<open>C36. A raw record is read back: with both mutexes free, an idle chip and erased cells, \<^verbatim>\<open>write_raw_mem_async\<close> returns, moves the
  address by 12 and the index to the next sample, releases the mutexes and changes no other cell; from then on, as soon as the chip has
  finished the program instruction, \<^verbatim>\<open>read_raw_mem_async\<close> returns exactly the 12 bytes of the record.\<close>

theorem raw_log_roundtrip:
  assumes "log_ready dv (raw_mutex a) (brd a)" and "chip_enables hal mem polls wel desel" and "chip_programs hal mem polls wel desel"
    and "chip_reads hal mem polls desel" and "desel (bus_dev (brd a))" and "polls (bus_dev (brd a)) = 0" and "addr a < 0x7FFFF4"
    and "\<forall>i<12. mem (bus_dev (brd a)) (chip_cell (addr_bytes (addr a)) + i) = 0xff"
  shows "\<exists>a1. finishes (write_raw_mem_async hal dv buf n cv) a a1 () \<and> log_ready dv (raw_mutex a) (brd a1) \<and>
     addr a1 = addr a + 12 \<and> rec_i a1 = (rec_i a + 1) mod NUM_READINGS \<and>
     (\<forall>x. x < chip_cell (addr_bytes (addr a)) \<or> chip_cell (addr_bytes (addr a)) + 12 \<le> x \<longrightarrow>
        mem (bus_dev (brd a1)) x = mem (bus_dev (brd a)) x) \<and>
     (\<forall>b junk. log_ready dv (raw_mutex a) b \<and> desel (bus_dev b) \<and> polls (bus_dev b) = 0 \<and> mem (bus_dev b) = mem (bus_dev (brd a1)) \<longrightarrow>
        (\<exists>b'. finishes (read_raw_mem_async hal dv buf n junk) (a1\<lparr>brd := b\<rparr>) (a1\<lparr>brd := b'\<rparr>) (raw_record cv a) \<and>
              log_ready dv (raw_mutex a) b'))"
proof -
  let ?c = "chip_cell (addr_bytes (addr a))" and ?d = "raw_record cv a"
  obtain b where b: "finishes (write_raw_mem_async hal dv buf n cv) a
      (a\<lparr>brd := b, addr := addr a + 12, rec_i := (rec_i a + 1) mod NUM_READINGS\<rparr>) ()" "log_ready dv (raw_mutex a) b"
    "mem (bus_dev b) = program_page (mem (bus_dev (brd a))) ?c ?d"
    using log_write [OF assms(1-3,5-7)] by blast
  let ?a1 = "a\<lparr>brd := b, addr := addr a + 12, rec_i := (rec_i a + 1) mod NUM_READINGS\<rparr>"
  have "unat (addr a) < 0x800000" using assms(7) by (simp add: word_less_nat_alt)
  then have page: "?c mod 256 + length ?d \<le> 256" using chip_cell_page [of "addr a"] by simp
  have "read_cells (program_page (mem (bus_dev (brd a))) ?c ?d) ?c 12 = ?d"
    using read_programmed [OF _ page, of "mem (bus_dev (brd a))"] assms(8) by (simp add: chip_cell_def)
  then have read: "\<exists>b'. finishes (read_raw_mem_async hal dv buf n junk) (?a1\<lparr>brd := b2\<rparr>) (?a1\<lparr>brd := b'\<rparr>) ?d \<and> log_ready dv (raw_mutex a) b'"
    if "log_ready dv (raw_mutex a) b2" "desel (bus_dev b2)" "polls (bus_dev b2) = 0" "mem (bus_dev b2) = mem (bus_dev b)" for b2 junk
    using log_read [of dv "?a1\<lparr>brd := b2\<rparr>" hal mem polls desel buf n junk] that assms(4) b(3) by auto
  have "mem (bus_dev b) x = mem (bus_dev (brd a)) x" if "x < ?c \<or> ?c + 12 \<le> x" for x
    unfolding b(3) by (rule program_page_other [OF page]) (use that in simp)
  with read b(1,2) show ?thesis by (intro exI [of _ ?a1]) simp
qed

text \<open>The address bytes are sent with the least significant one first while the chip reads the most significant one first, so the
  records are not laid out one after the other: record \<open>k + 16384\<close> starts inside the twelve cells of record \<open>k\<close>, three cells
  further, for every record the address bound of the writer admits.\<close>

theorem raw_records_overlap:
  assumes "12 * (k + 16384) < 0x7FFFF4"
  shows "chip_cell (addr_bytes (of_nat (12 * (k + 16384)))) = chip_cell (addr_bytes (of_nat (12 * k))) + 3"
proof -
  define q r where "q = 12 * k div 65536" and "r = 12 * k mod 65536"
  have k: "12 * k = 65536 * q + r" "r < 65536" unfolding q_def r_def by (rule mult_div_mod_eq [symmetric], rule mod_less_divisor) simp
  have q: "q + 3 < 128" using assms k by simp
  have "12 * k < 2 ^ LENGTH(32)" "12 * (k + 16384) < 2 ^ LENGTH(32)" using assms by simp_all
  then have u: "unat (of_nat (12 * k) :: u32) = 65536 * q + r" "unat (of_nat (12 * (k + 16384)) :: u32) = 65536 * (q + 3) + r"
    using k(1) of_nat_inverse [OF refl, of "12 * k", where 'a = 32] of_nat_inverse [OF refl, of "12 * (k + 16384)", where 'a = 32] by simp_all
  have cell: "chip_cell (addr_bytes a) = (256 * (r mod 256 * 256 + r div 256) + p) mod 0x800000"
    if "unat a = 65536 * p + r" "p < 128" for a p
    unfolding chip_cell_addr that(1) digits [OF k(2)] using that(2) by (simp add: algebra_simps)
  define y where "y = r mod 256 * 256 + r div 256"
  have "(256 * y + (q + 3)) mod 0x800000 = (256 * y + q) mod 0x800000 + 3"
    using page_mod [of "q + 3" y] page_mod [of q y] q by simp
  then show ?thesis using cell [OF u(1)] cell [OF u(2)] q by (simp add: y_def)
qed

section \<open>Witnesses\<close>

definition demo_app :: "(sim_chip, nat) app" where
  "demo_app = \<lparr>brd = demo_board\<lparr>kern := (kern demo_board)\<lparr>mutexes := (mutexes (kern demo_board))(6 \<mapsto> the (mutexes (kern demo_board) 5))\<rparr>\<rparr>,
     addr = 24, addr_bench = 0x800000, rec_i = 2, acc_v = replicate 125 1, gyro_v = replicate 125 2, baro_v = replicate 125 3,
     results = replicate 14 0, raw_mutex = 6, bench_mutex = 6\<rparr>"

lemma demo_app_ready: "log_ready 0 (raw_mutex demo_app) (brd demo_app)"
proof -
  have "queues (demo_kernel 0) (MutexQ 6) = []" by (simp add: demo_kernel_def)
  with demo_board_ready show ?thesis
    by (simp add: log_ready_def bus_ready_def in_thread_def free_mutex_def demo_app_def demo_board_def rt_object_get_type_def)
qed

theorem raw_log_roundtrip_witness:
  "\<exists>a1. finishes (write_raw_mem_async sim_hal 0 0 9 \<lparr>to_u8 = of_nat, to_u32 = of_nat\<rparr>) demo_app a1 () \<and> addr a1 = 36 \<and> rec_i a1 = 3"
  using raw_log_roundtrip [OF demo_app_ready sim_laws(1,2,3), of 0 9 "\<lparr>to_u8 = of_nat, to_u32 = of_nat\<rparr>"]
  by (auto simp: demo_app_def demo_board_def)

theorem raw_records_overlap_witness: "chip_cell (addr_bytes 0x3000c) = chip_cell (addr_bytes 12) + 3"
  using raw_records_overlap [of 1] by simp

end
