(* ===== verification/Deferrable.thy ===== *)
theory Deferrable
  imports ThreadOps RtList
begin

text \<open>
  The deferrable server of \<^verbatim>\<open>applications/deferrable.c\<close>: a thread that runs the aperiodic tasks the button interrupts queue
  (\<^verbatim>\<open>applications/procedure.c\<close>), with a timer for its capacity and one for its period. The queue is a list of \<^verbatim>\<open>rtservice.h\<close> in the
  store of theory \<open>RtList\<close>: node 0 is the head \<^verbatim>\<open>asyncTask\<close>, the other nodes are the \<^verbatim>\<open>tlist\<close>s of the tasks. Nothing protects
  it: interrupts come between any two statements of the server, which is what the step relation below is about.
\<close>

section \<open>State and operations\<close>

record rt_deferrable =
  ds_kern :: kernel
  asyncTask :: "nat list_heap"
  deferrable :: tid
  ds_priority :: u8
  capacity :: u32
  capacity_left :: u32
  tim_capacity :: timer_id
  tim_server :: timer_id
  ds_active :: u8

text \<open>The numbers by which timers and threads name functions outside the kernel.\<close>

abbreviation (input) FN_PERIOD :: nat where "FN_PERIOD \<equiv> 1"
abbreviation (input) FN_CAPACITY :: nat where "FN_CAPACITY \<equiv> 2"
abbreviation (input) FN_DEFERRABLE_ENTRY :: nat where "FN_DEFERRABLE_ENTRY \<equiv> 3"

definition rt_timer_deferrable_period :: "rt_deferrable \<Rightarrow> rt_deferrable option" where
  "rt_timer_deferrable_period d0 = do {
     let d = d0\<lparr>capacity_left := capacity d0\<rparr>;
     s1 \<leftarrow> (if rt_list_isempty (lnext (asyncTask d) 0) (asyncTask d)
           then map_option fst (rt_thread_resume (deferrable d) (ds_kern d)) else Some (ds_kern d));
     (s2, _) \<leftarrow> rt_thread_control (deferrable d) RT_THREAD_CTRL_CHANGE_PRIORITY (ds_priority d) s1;
     (s3, _) \<leftarrow> rt_timer_control (tim_capacity d) RT_TIMER_CTRL_SET_TIME (capacity_left d) s2;
     Some (d\<lparr>ds_kern := s3\<rparr>) }"

text \<open>
  \<^verbatim>\<open>rt_thread_control\<close> is given \<^verbatim>\<open>(void *)(RT_THREAD_PRIORITY_MAX - 1)\<close> and reads the new priority where it points to: \<open>byte_at\<close>
  is the memory, address 31 the one that is read.
\<close>

definition rt_timer_deferrable_capacity :: "(u32 \<Rightarrow> u8) \<Rightarrow> rt_deferrable \<Rightarrow> rt_deferrable option" where
  "rt_timer_deferrable_capacity byte_at d0 = do {
     let d = d0\<lparr>capacity_left := 0\<rparr>;
     (s1, _) \<leftarrow> rt_thread_control (deferrable d) RT_THREAD_CTRL_CHANGE_PRIORITY (byte_at (of_nat (RT_THREAD_PRIORITY_MAX - 1))) (ds_kern d);
     Some (d\<lparr>ds_kern := s1\<rparr>) }"

text \<open>
  The statements of \<^verbatim>\<open>rt_thread_deferrable_entry\<close>, one step each: \<open>Loop\<close> starts the capacity timer if need be, \<open>Fetch\<close> reads the first task,
  \<open>Call t\<close> is the call of the task's function, \<open>Remove t\<close> takes it off the queue; when the queue is empty, \<open>Stop\<close>, \<open>Suspend\<close>, \<open>Inactive\<close> and
  \<open>Resched\<close> stop the timer, suspend the thread, clear \<^verbatim>\<open>active\<close> and give up the processor.
\<close>

datatype server_pc = Loop | Fetch | Call nat | Remove nat | Check | Stop | Suspend | Inactive | Resched

definition server_step :: "server_pc \<Rightarrow> rt_deferrable \<Rightarrow> (server_pc \<times> rt_deferrable) option" where
  "server_step p d = (case p of
       Loop \<Rightarrow> if ds_active d = 0
         then do { (s1, _) \<leftarrow> rt_timer_start (tim_capacity d) (ds_kern d); Some (Fetch, d\<lparr>ds_kern := s1, ds_active := 1\<rparr>) }
         else Some (Fetch, d)
     | Fetch \<Rightarrow> Some (Call (lnext (asyncTask d) 0), d)
     | Call t \<Rightarrow> None
     | Remove t \<Rightarrow> Some (Check, d\<lparr>asyncTask := rt_list_remove t (asyncTask d)\<rparr>)
     | Check \<Rightarrow> Some (if rt_list_isempty (lnext (asyncTask d) 0) (asyncTask d) then Stop else Loop, d)
     | Stop \<Rightarrow> do { (s1, _) \<leftarrow> rt_timer_stop (tim_capacity d) (ds_kern d); Some (Suspend, d\<lparr>ds_kern := s1\<rparr>) }
     | Suspend \<Rightarrow> do { (s1, _) \<leftarrow> rt_thread_suspend (deferrable d) (ds_kern d); Some (Inactive, d\<lparr>ds_kern := s1\<rparr>) }
     | Inactive \<Rightarrow> Some (Resched, d\<lparr>ds_active := 0\<rparr>)
     | Resched \<Rightarrow> do { s1 \<leftarrow> rt_schedule (ds_kern d); Some (Loop, d\<lparr>ds_kern := s1\<rparr>) })"

definition rt_thread_deferrable_init :: "u32 \<Rightarrow> u32 \<Rightarrow> u32 \<Rightarrow> u8 \<Rightarrow> rt_deferrable \<Rightarrow> (rt_deferrable \<times> rt_err_t) option" where
  "rt_thread_deferrable_init stack cap period priority d = do {
     (s1, _) \<leftarrow> rt_thread_init (deferrable d) ''deferr'' FN_DEFERRABLE_ENTRY 0 stack 4096 priority cap (ds_kern d);
     s2 \<leftarrow> rt_timer_init (tim_server d) ''Timer'' (Fn_other FN_PERIOD) 0 period RT_TIMER_FLAG_PERIODIC s1;
     s3 \<leftarrow> rt_timer_init (tim_capacity d) ''Capac'' (Fn_other FN_CAPACITY) 0 cap RT_TIMER_FLAG_ONE_SHOT s2;
     let d1 = d\<lparr>capacity := cap, capacity_left := cap, asyncTask := rt_list_init 0 (asyncTask d)\<rparr>;
     (s4, err) \<leftarrow> rt_thread_startup (deferrable d) s3;
     if err \<noteq> RT_EOK then Some (d1\<lparr>ds_kern := s4\<rparr>, err)
     else do {
       (s5, err1) \<leftarrow> rt_thread_suspend (deferrable d) s4;
       Some (d1\<lparr>ds_kern := s5\<rparr>, err1) } }"

definition rt_thread_deferrable_gethandler :: "rt_deferrable \<Rightarrow> tid" where
  "rt_thread_deferrable_gethandler d = deferrable d"

definition rt_thread_deferrable_insert_task :: "nat \<Rightarrow> rt_deferrable \<Rightarrow> rt_deferrable option" where
  "rt_thread_deferrable_insert_task task d =
     (let h = rt_list_insert_before 0 task (rt_list_init task (asyncTask d))
      in if rt_list_isempty (lnext (asyncTask d) 0) (asyncTask d)
         then do {
           (s1, _) \<leftarrow> rt_thread_resume (deferrable d) (ds_kern d);
           Some (d\<lparr>asyncTask := h, ds_kern := s1\<rparr>) }
         else Some (d\<lparr>asyncTask := h\<rparr>))"

text \<open>
  The button handlers of \<^verbatim>\<open>procedure.c\<close>: each alternates between its write task and its read task; \<open>RWn\<close> is the static variable.
  The tasks \<^verbatim>\<open>raw[0]\<close>, \<^verbatim>\<open>raw[1]\<close>, \<^verbatim>\<open>bench[0]\<close> and \<^verbatim>\<open>bench[1]\<close> are the nodes 1 to 4.
\<close>

definition button_raw_async_handler :: "u8 \<times> rt_deferrable \<Rightarrow> (u8 \<times> rt_deferrable) option" where
  "button_raw_async_handler = (\<lambda>(RWn, d). do {
     d1 \<leftarrow> rt_thread_deferrable_insert_task (if RWn \<noteq> 0 then 2 else 1) d;
     Some (RWn XOR 1, d1) })"

definition button_bench_async_handler :: "u8 \<times> rt_deferrable \<Rightarrow> (u8 \<times> rt_deferrable) option" where
  "button_bench_async_handler = (\<lambda>(RWn, d). do {
     d1 \<leftarrow> rt_thread_deferrable_insert_task (if RWn \<noteq> 0 then 4 else 3) d;
     Some (RWn XOR 1, d1) })"

section \<open>The server and its surroundings as a step relation\<close>

text \<open>
  A configuration is the server with the place its thread has reached and the history of tasks: inserted, called, and served
  (called and removed again). The tasks waiting in the queue are the inserted ones that were not served.
\<close>

record config =
  srv :: rt_deferrable
  pc :: server_pc
  inserted :: "nat list"
  called :: "nat list"
  served :: "nat list"

definition waiting :: "config \<Rightarrow> nat list" where
  "waiting c = drop (length (served c)) (inserted c)"

definition server_thread :: "rt_deferrable \<Rightarrow> rt_thread option" where
  "server_thread d = threads (ds_kern d) (deferrable d)"

definition is_live :: "rt_thread \<Rightarrow> bool" where
  "is_live th \<longleftrightarrow> tstate th = RT_THREAD_READY \<or> tstate th = RT_THREAD_RUNNING \<or> tstate th = RT_THREAD_SUSPEND"

definition capacity_timer_ok :: "rt_deferrable \<Rightarrow> bool" where
  "capacity_timer_ok d \<longleftrightarrow> (\<exists>m tm. tim_capacity d = Timer m \<and> timers (ds_kern d) (Timer m) = Some tm \<and>
     rt_object_get_type (tm_type tm) = RT_Object_Class_Timer \<and> tm_flag tm AND RT_TIMER_FLAG_SOFT_TIMER = 0 \<and>
     tm_init_tick tm < half_tick)"

text \<open>The server's thread has the processor; the idle thread is ready, and the scheduler is not locked.\<close>

definition server_runs :: "config \<Rightarrow> bool" where
  "server_runs c \<longleftrightarrow> rt_current_thread (ds_kern (srv c)) = Some (deferrable (srv c)) \<and>
     rt_scheduler_lock_nest (ds_kern (srv c)) = 0 \<and> rt_thread_ready_priority_group (ds_kern (srv c)) \<noteq> 0"

text \<open>
  What the other threads, the interrupts and, inside \<open>Call\<close>, the task itself may do to the kernel: they keep its invariant and the capacity
  timer, suspend and resume the server only while it is inside a task, and do not give the processor to it while it is suspended.
\<close>

definition others :: "config \<Rightarrow> kernel \<Rightarrow> bool" where
  "others c s \<longleftrightarrow> kernel_inv s \<and> capacity_timer_ok ((srv c)\<lparr>ds_kern := s\<rparr>) \<and>
     (\<exists>th th'. server_thread (srv c) = Some th \<and> threads s (deferrable (srv c)) = Some th' \<and> is_live th' \<and>
        ((\<forall>t. pc c \<noteq> Call t) \<longrightarrow> (tstate th' = RT_THREAD_SUSPEND \<longleftrightarrow> tstate th = RT_THREAD_SUSPEND) \<and>
           (tstate th' = RT_THREAD_SUSPEND \<and> rt_current_thread s = Some (deferrable (srv c)) \<longrightarrow>
              rt_current_thread (ds_kern (srv c)) = Some (deferrable (srv c)))))"

inductive ds_step :: "config \<Rightarrow> config \<Rightarrow> bool" where
  Insert: "t \<noteq> 0 \<Longrightarrow> t \<notin> set (waiting c) \<Longrightarrow> rt_thread_deferrable_insert_task t (srv c) = Some d \<Longrightarrow>
     ds_step c (c\<lparr>srv := d, inserted := inserted c @ [t]\<rparr>)"
| Server: "server_runs c \<Longrightarrow> server_step (pc c) (srv c) = Some (p, d) \<Longrightarrow>
     ds_step c (c\<lparr>srv := d, pc := p,
        called := called c @ (case p of Call t \<Rightarrow> [t] | _ \<Rightarrow> []), served := served c @ (case pc c of Remove t \<Rightarrow> [t] | _ \<Rightarrow> [])\<rparr>)"
| Task: "pc c = Call t \<Longrightarrow> others c s \<Longrightarrow> rt_current_thread s = Some (deferrable (srv c)) \<Longrightarrow>
     threads s (deferrable (srv c)) = Some th \<Longrightarrow> tstate th = RT_THREAD_RUNNING \<Longrightarrow>
     ds_step c (c\<lparr>srv := (srv c)\<lparr>ds_kern := s\<rparr>, pc := Remove t\<rparr>)"
| Others: "others c s \<Longrightarrow> ds_step c (c\<lparr>srv := (srv c)\<lparr>ds_kern := s\<rparr>\<rparr>)"

inductive_cases ds_stepE: "ds_step c c'"

text \<open>The state after \<^verbatim>\<open>rt_thread_deferrable_init\<close>: an empty queue and a server that is suspended in front of its loop.\<close>

definition ds_initial :: "config \<Rightarrow> bool" where
  "ds_initial c \<longleftrightarrow> pc c = Loop \<and> ds_active (srv c) = 0 \<and> inserted c = [] \<and> called c = [] \<and> served c = [] \<and> dlls (asyncTask (srv c)) [0 \<mapsto> []] \<and>
     kernel_inv (ds_kern (srv c)) \<and> capacity_timer_ok (srv c) \<and>
     (\<exists>th. server_thread (srv c) = Some th \<and> tstate th = RT_THREAD_SUSPEND) \<and> rt_current_thread (ds_kern (srv c)) \<noteq> Some (deferrable (srv c))"

inductive ds_reach :: "config \<Rightarrow> bool" where
  init: "ds_initial c \<Longrightarrow> ds_reach c"
| step: "ds_reach c \<Longrightarrow> ds_step c c' \<Longrightarrow> ds_reach c'"

section \<open>The queue\<close>

lemma dlls_weaken: "dlls h q \<Longrightarrow> (\<And>l xs. q' l = Some xs \<Longrightarrow> q l = Some xs) \<Longrightarrow> dlls h q'"
  unfolding dlls_def by blast

lemma task_queue_empty:
  assumes "dlls h [0 \<mapsto> qs]"
  shows "rt_list_isempty (lnext h 0) h \<longleftrightarrow> qs = []"
proof (cases qs)
  case Nil
  then show ?thesis using dllsD(1) [OF assms, of 0 "[]"] by (simp add: rt_list_isempty_def)
next
  case (Cons x xs)
  then have s: "seg h 0 (x # xs) 0" and d: "distinct (0 # x # xs)" using dllsD [OF assms, of 0 qs] by simp_all
  then have "lnext h 0 = x" "lnext h x = hd (xs @ [0])" by (cases xs, auto)+
  moreover have "hd (xs @ [0]) \<noteq> x" using d by (cases xs) auto
  ultimately show ?thesis using Cons by (simp add: rt_list_isempty_def)
qed

lemma task_queue_insert:
  assumes "dlls h [0 \<mapsto> qs]" and "t \<noteq> 0" and "t \<notin> set qs"
  shows "dlls (rt_list_insert_before 0 t (rt_list_init t h)) [0 \<mapsto> qs @ [t]]"
proof -
  have "dlls (rt_list_init t h) ([0 \<mapsto> qs](t \<mapsto> []))"
    by (rule rtl.rep_init [OF assms(1)]) (use assms(2,3) in \<open>auto split: if_splits\<close>)
  from rtl.rep_append [OF this, of 0 qs t] show ?thesis
    using assms(2) by (auto elim!: dlls_weaken split: if_splits)
qed

lemma task_queue_first: "dlls h [0 \<mapsto> t # qs] \<Longrightarrow> lnext h 0 = t"
  using rtl.rep_first [of h _ 0 t qs] by simp

lemma task_queue_remove:
  assumes "dlls h [0 \<mapsto> t # qs]"
  shows "dlls (rt_list_remove t h) [0 \<mapsto> qs]"
  using rtl.rep_remove [OF assms, of 0 "[]" t qs] dllsD(2) [OF assms, of 0 "t # qs"] by (auto elim!: dlls_weaken split: if_splits)

section \<open>The capacity timer\<close>

lemma kernel_inv_other_timer:
  assumes inv: "kernel_inv s" and s': "same_sched s s'" "timer_lists_ok s'"
    and tt: "\<And>t. timers s' (ThreadTimer t) = timers s (ThreadTimer t)"
      "\<And>t q. ThreadTimer t \<in> set (timer_queues s' q) \<longleftrightarrow> ThreadTimer t \<in> set (timer_queues s q)"
  shows "kernel_inv s'"
proof -
  have "sched_inv s'" using winv_same_sched [OF s'(1)] kernel_invD(1) [OF inv] by simp
  moreover have "threads s' = threads s" using s'(1) by (simp add: same_sched_def)
  then have "tt_cons s' t" for t using kernel_invD(3) [OF inv, of t] tt_cons_cong [of s' t s] tt by simp
  ultimately show ?thesis using s'(2) by (simp add: kernel_inv_def timer_inv_def)
qed

lemma capacity_start:
  assumes "kernel_inv (ds_kern d)" and "capacity_timer_ok d"
  obtains s where "rt_timer_start (tim_capacity d) (ds_kern d) = Some (s, RT_EOK)" "kernel_inv s" "capacity_timer_ok (d\<lparr>ds_kern := s\<rparr>)"
    "threads s = threads (ds_kern d)" "rt_current_thread s = rt_current_thread (ds_kern d)"
proof -
  let ?s = "ds_kern d"
  obtain m tm where m: "tim_capacity d = Timer m" "timers ?s (Timer m) = Some tm"
    and ok: "rt_object_get_type (tm_type tm) = RT_Object_Class_Timer" "tm_flag tm AND RT_TIMER_FLAG_SOFT_TIMER = 0" "tm_init_tick tm < half_tick"
    using assms(2) by (auto simp: capacity_timer_ok_def)
  let ?s' = "?s\<lparr>timers := (timers ?s)(Timer m \<mapsto> armed (rt_tick ?s) tm), timer_queues := start_queues (Timer m) tm ?s, random_nr := random_nr ?s + 1\<rparr>"
  have "timer_lists_ok ?s'" by (rule timer_lists_start [OF kernel_invD(2) [OF assms(1)] m(2) ok(1)]) simp_all
  then have "kernel_inv ?s'"
    by (rule kernel_inv_other_timer [OF assms(1), rotated]) (auto simp: same_sched_def start_queues_def)
  moreover have "tm_init_tick (armed (rt_tick ?s) tm) = tm_init_tick tm" by (simp add: armed_def deactivate_def)
  then have "capacity_timer_ok (d\<lparr>ds_kern := ?s'\<rparr>)" using m(1) ok by (simp add: capacity_timer_ok_def)
  ultimately show thesis using rt_timer_start_hard [OF m(2) ok] m(1) by (intro that [of ?s']) simp_all
qed

lemma capacity_stop:
  assumes "kernel_inv (ds_kern d)" and "capacity_timer_ok d"
  obtains s e where "rt_timer_stop (tim_capacity d) (ds_kern d) = Some (s, e)" "kernel_inv s" "capacity_timer_ok (d\<lparr>ds_kern := s\<rparr>)"
    "threads s = threads (ds_kern d)" "rt_current_thread s = rt_current_thread (ds_kern d)"
proof -
  let ?s = "ds_kern d"
  obtain m tm where m: "tim_capacity d = Timer m" "timers ?s (Timer m) = Some tm"
    and ok: "rt_object_get_type (tm_type tm) = RT_Object_Class_Timer" "tm_flag tm AND RT_TIMER_FLAG_SOFT_TIMER = 0" "tm_init_tick tm < half_tick"
    using assms(2) by (auto simp: capacity_timer_ok_def)
  let ?s' = "?s\<lparr>timers := (timers ?s)(Timer m \<mapsto> deactivate tm), timer_queues := stop_queues (Timer m) tm ?s\<rparr>"
  have "timer_lists_ok ?s'" by (rule timer_lists_stop [OF kernel_invD(2) [OF assms(1)] m(2)]) simp_all
  then have "kernel_inv ?s'"
    by (rule kernel_inv_other_timer [OF assms(1), rotated]) (auto simp: same_sched_def stop_queues_def)
  moreover have "capacity_timer_ok (d\<lparr>ds_kern := ?s'\<rparr>)" using m(1) ok by (simp add: capacity_timer_ok_def deactivate_def)
  ultimately show thesis using rt_timer_stop_spec [OF m(2) ok(1)] m(1) by (intro that [of ?s']) simp_all
qed

section \<open>Each operation keeps the server well-formed\<close>

definition ds_ok :: "rt_deferrable \<Rightarrow> nat list \<Rightarrow> rt_thread \<Rightarrow> bool" where
  "ds_ok d qs th \<longleftrightarrow> dlls (asyncTask d) [0 \<mapsto> qs] \<and> kernel_inv (ds_kern d) \<and> capacity_timer_ok d \<and> server_thread d = Some th \<and> is_live th"

lemma capacity_timer_frame:
  assumes "capacity_timer_ok d" and "\<And>m. timers s (Timer m) = timers (ds_kern d) (Timer m)"
  shows "capacity_timer_ok (d\<lparr>ds_kern := s\<rparr>)"
  using assms by (simp add: capacity_timer_ok_def)

lemma ds_ok_kernel:
  assumes "ds_ok d qs th" and "kernel_inv s" and "capacity_timer_ok (d\<lparr>ds_kern := s\<rparr>)" and "threads s (deferrable d) = Some th'" and "is_live th'"
  shows "ds_ok (d\<lparr>ds_kern := s\<rparr>) qs th'"
  using assms by (simp add: ds_ok_def server_thread_def)

lemma is_live_states [simp]:
  "is_live (set_state RT_THREAD_READY th)" "is_live (set_state RT_THREAD_RUNNING th)" "is_live (set_state RT_THREAD_SUSPEND th)"
  by (simp_all add: is_live_def)

lemma insert_task_ok:
  assumes ok: "ds_ok d qs th" and t: "t \<noteq> 0" "t \<notin> set qs"
  obtains d' where "rt_thread_deferrable_insert_task t d = Some d'"
    "ds_ok d' (qs @ [t]) (if qs = [] \<and> tstate th = RT_THREAD_SUSPEND then woken (ds_kern d) (deferrable d) th else th)"
    "deferrable d' = deferrable d" "rt_current_thread (ds_kern d') = rt_current_thread (ds_kern d)"
    "qs = [] \<and> tstate th = RT_THREAD_SUSPEND \<longrightarrow> queues (ds_kern d') = ready_queues (deferrable d) th (ds_kern d)"
    "qs \<noteq> [] \<or> tstate th \<noteq> RT_THREAD_SUSPEND \<longrightarrow> ds_kern d' = ds_kern d"
proof -
  let ?s = "ds_kern d" and ?h = "rt_list_insert_before 0 t (rt_list_init t (asyncTask d))"
  have d: "dlls (asyncTask d) [0 \<mapsto> qs]" "kernel_inv ?s" "capacity_timer_ok d" "threads ?s (deferrable d) = Some th" "is_live th"
    using ok by (simp_all add: ds_ok_def server_thread_def)
  have e: "rt_list_isempty (lnext (asyncTask d) 0) (asyncTask d) \<longleftrightarrow> qs = []" and h: "dlls ?h [0 \<mapsto> qs @ [t]]"
    using task_queue_empty [OF d(1)] task_queue_insert [OF d(1) t] by simp_all
  have ok': "ds_ok (d\<lparr>asyncTask := ?h\<rparr>) (qs @ [t]) th"
    using d h by (simp add: ds_ok_def server_thread_def capacity_timer_ok_def)
  show thesis
  proof (cases "qs = [] \<and> tstate th = RT_THREAD_SUSPEND")
    case True
    obtain s' tm where s': "rt_thread_resume (deferrable d) ?s = Some (s', RT_EOK)" "kernel_inv s'"
      "threads s' = (threads ?s)(deferrable d \<mapsto> woken ?s (deferrable d) th)" "queues s' = ready_queues (deferrable d) th ?s"
      "rt_current_thread s' = rt_current_thread ?s" "timers s' = (timers ?s)(ThreadTimer (deferrable d) \<mapsto> deactivate tm)"
      by (rule rt_thread_resume_spec [OF d(2,4)]) (use True in auto)
    have "ds_ok ((d\<lparr>asyncTask := ?h\<rparr>)\<lparr>ds_kern := s'\<rparr>) (qs @ [t]) (woken ?s (deferrable d) th)"
      by (rule ds_ok_kernel [OF ok' s'(2)]) (use s'(3,6) d(3) in \<open>auto simp: capacity_timer_ok_def\<close>)
    with True e s' show thesis
      by (intro that [of "d\<lparr>asyncTask := ?h, ds_kern := s'\<rparr>"]) (simp_all add: rt_thread_deferrable_insert_task_def)
  next
    case False
    have "rt_thread_deferrable_insert_task t d = Some (d\<lparr>asyncTask := ?h\<rparr>)"
    proof (cases "qs = []")
      case True
      have "rt_thread_resume (deferrable d) ?s = Some (?s, - RT_ERROR)"
        by (rule rt_thread_resume_error [OF d(2,4)]) (use True False d(5) in \<open>auto simp: is_live_def\<close>)
      then show ?thesis using e True by (simp add: rt_thread_deferrable_insert_task_def)
    qed (use e in \<open>simp add: rt_thread_deferrable_insert_task_def\<close>)
    with False ok' show thesis by (intro that [of "d\<lparr>asyncTask := ?h\<rparr>"]) auto
  qed
qed

lemma resched_server:
  assumes ok: "ds_ok (srv c) qs th" and run: "server_runs c"
  obtains s th' where "rt_schedule (ds_kern (srv c)) = Some s" "ds_ok ((srv c)\<lparr>ds_kern := s\<rparr>) qs th'"
    "tstate th' = RT_THREAD_SUSPEND \<longleftrightarrow> tstate th = RT_THREAD_SUSPEND"
    "tstate th = RT_THREAD_SUSPEND \<longrightarrow> rt_current_thread s \<noteq> Some (deferrable (srv c))"
proof -
  let ?s = "ds_kern (srv c)" and ?t = "deferrable (srv c)"
  have inv: "kernel_inv ?s" and th: "threads ?s ?t = Some th" "is_live th" and cap: "capacity_timer_ok (srv c)"
    using ok by (simp_all add: ds_ok_def server_thread_def)
  have cur: "rt_current_thread ?s = Some ?t" and run': "rt_scheduler_lock_nest ?s = 0" "rt_thread_ready_priority_group ?s \<noteq> 0"
    using run by (simp_all add: server_runs_def)
  note si = kernel_invD(1) [OF inv]
  obtain u p us where hi: "get_highest_priority_thread ?s = Some (u, p)" "queues ?s (ReadyQ p) = u # us"
    using get_highest_SomeD [OF winv_queue_ok [OF si] run'(2)] by metis
  obtain s where s: "rt_schedule ?s = Some s" "kernel_inv s" "timers_frame ?s s"
    using rt_schedule_kernel [OF inv] cur by (metis option.discI)
  have cap': "capacity_timer_ok ((srv c)\<lparr>ds_kern := s\<rparr>)" by (rule capacity_timer_frame [OF cap]) (use s(3) in simp)
  show thesis
  proof (cases rule: rt_schedule_cases [OF si cur run' hi th(1)])
    case (1 s')
    let ?th = "set_state RT_THREAD_RUNNING (unyield th)"
    have "s' = s" "threads s ?t = Some ?th" using 1(1,7) s(1) by auto
    then show thesis using that [OF s(1) ds_ok_kernel [OF ok s(2) cap', of ?th]] 1(4) by simp
  next
    case (2 s' uth)
    let ?th = "if tstate th = RT_THREAD_RUNNING then set_state RT_THREAD_READY (unyield th) else th"
    have s': "s' = s" using 2(1) s(1) by simp
    then have "threads s ?t = Some ?th" using 2(5,8) by auto
    moreover have "is_live ?th" using th(2) by simp
    ultimately show thesis using that [OF s(1) ds_ok_kernel [OF ok s(2) cap', of ?th]] 2(3,5) s' by auto
  qed
qed

lemma suspend_server:
  assumes ok: "ds_ok d qs th" and st: "tstate th \<noteq> RT_THREAD_SUSPEND"
  obtains s where "rt_thread_suspend (deferrable d) (ds_kern d) = Some (s, RT_EOK)"
    "ds_ok (d\<lparr>ds_kern := s\<rparr>) qs (set_state RT_THREAD_SUSPEND th)"
proof -
  have d: "kernel_inv (ds_kern d)" "capacity_timer_ok d" "threads (ds_kern d) (deferrable d) = Some th" "is_live th"
    using ok by (simp_all add: ds_ok_def server_thread_def)
  obtain s where s: "rt_thread_suspend (deferrable d) (ds_kern d) = Some (s, RT_EOK)" "kernel_inv s"
    "threads s = (threads (ds_kern d))(deferrable d \<mapsto> set_state RT_THREAD_SUSPEND th)" "timers_frame (ds_kern d) s"
    by (rule rt_thread_suspend_spec [OF d(1,3)]) (use d(4) st in \<open>auto simp: is_live_def\<close>)
  have "capacity_timer_ok (d\<lparr>ds_kern := s\<rparr>)" by (rule capacity_timer_frame [OF d(2)]) (use s(4) in simp)
  then show thesis using that [OF s(1) ds_ok_kernel [OF ok s(2)]] s(3) by simp
qed

section \<open>The invariant of the server\<close>

text \<open>
  What the place of the server says: \<open>susp\<close> whether its thread is suspended, \<open>cur\<close> whether it has the processor. A task is on the
  queue while it runs, so that no insertion resumes the server while it waits inside a task.
\<close>

fun phase :: "server_pc \<Rightarrow> nat list \<Rightarrow> bool \<Rightarrow> bool \<Rightarrow> bool" where
  "phase Loop qs susp cur = ((susp \<longrightarrow> \<not> cur) \<and> (\<not> susp \<longrightarrow> qs \<noteq> []))"
| "phase Fetch qs susp cur = (\<not> susp \<and> qs \<noteq> [])"
| "phase (Call t) qs susp cur = (qs \<noteq> [] \<and> hd qs = t)"
| "phase (Remove t) qs susp cur = (\<not> susp \<and> qs \<noteq> [] \<and> hd qs = t)"
| "phase Inactive qs susp cur = (\<not> susp \<longrightarrow> qs \<noteq> [])"
| "phase Resched qs susp cur = (\<not> susp \<longrightarrow> qs \<noteq> [])"
| "phase _ qs susp cur = (\<not> susp)"

definition calling :: "server_pc \<Rightarrow> nat list" where
  "calling p = (case p of Call t \<Rightarrow> [t] | Remove t \<Rightarrow> [t] | _ \<Rightarrow> [])"

definition server_has_cpu :: "rt_deferrable \<Rightarrow> bool" where
  "server_has_cpu d \<longleftrightarrow> rt_current_thread (ds_kern d) = Some (deferrable d)"

definition ds_inv :: "config \<Rightarrow> bool" where
  "ds_inv c \<longleftrightarrow> (\<exists>qs th. ds_ok (srv c) qs th \<and> inserted c = served c @ qs \<and> called c = served c @ calling (pc c) \<and>
     phase (pc c) qs (tstate th = RT_THREAD_SUSPEND) (server_has_cpu (srv c)))"

lemma ds_invI:
  assumes "ds_ok (srv c) qs th" and "inserted c = served c @ qs" and "called c = served c @ calling (pc c)"
    and "phase (pc c) qs (tstate th = RT_THREAD_SUSPEND) (server_has_cpu (srv c))"
  shows "ds_inv c"
  using assms unfolding ds_inv_def by blast

lemma ds_invE:
  assumes "ds_inv c"
  obtains qs th where "ds_ok (srv c) qs th" "inserted c = served c @ qs" "waiting c = qs" "called c = served c @ calling (pc c)"
    "phase (pc c) qs (tstate th = RT_THREAD_SUSPEND) (server_has_cpu (srv c))"
  using assms by (auto simp: ds_inv_def waiting_def)

lemma phase_insert:
  assumes "phase p qs susp cur" and "susp' = (susp \<and> qs \<noteq> [])"
  shows "phase p (qs @ [t]) susp' cur"
  using assms by (cases p) auto

lemma insert_inv:
  assumes inv: "ds_inv c" and t: "t \<noteq> 0" "t \<notin> set (waiting c)" and d: "rt_thread_deferrable_insert_task t (srv c) = Some d"
  shows "ds_inv (c\<lparr>srv := d, inserted := inserted c @ [t]\<rparr>)"
proof -
  obtain qs th where c: "ds_ok (srv c) qs th" "inserted c = served c @ qs" "waiting c = qs" "called c = served c @ calling (pc c)"
    "phase (pc c) qs (tstate th = RT_THREAD_SUSPEND) (server_has_cpu (srv c))" by (rule ds_invE [OF inv])
  let ?th = "if qs = [] \<and> tstate th = RT_THREAD_SUSPEND then woken (ds_kern (srv c)) (deferrable (srv c)) th else th"
  obtain d' where d': "rt_thread_deferrable_insert_task t (srv c) = Some d'" "ds_ok d' (qs @ [t]) ?th" "deferrable d' = deferrable (srv c)"
    "rt_current_thread (ds_kern d') = rt_current_thread (ds_kern (srv c))"
    by (rule insert_task_ok [OF c(1) t(1)]) (use t(2) c(3) in auto)
  have "tstate ?th = RT_THREAD_SUSPEND \<longleftrightarrow> tstate th = RT_THREAD_SUSPEND \<and> qs \<noteq> []" by auto
  then have "phase (pc c) (qs @ [t]) (tstate ?th = RT_THREAD_SUSPEND) (server_has_cpu (srv c))" by (rule phase_insert [OF c(5)])
  moreover have "d' = d" "server_has_cpu d' = server_has_cpu (srv c)" using d d' by (simp_all add: server_has_cpu_def)
  ultimately show ?thesis using d'(2) c(2,4) by (intro ds_invI [where qs = "qs @ [t]"]) simp_all
qed

text \<open>The server's own step from a state of the invariant: it is possible unless a task is running, and it keeps the invariant.\<close>

abbreviation after_server :: "config \<Rightarrow> server_pc \<Rightarrow> rt_deferrable \<Rightarrow> config" where
  "after_server c p d \<equiv> c\<lparr>srv := d, pc := p,
        called := called c @ (case p of Call t \<Rightarrow> [t] | _ \<Rightarrow> []), served := served c @ (case pc c of Remove t \<Rightarrow> [t] | _ \<Rightarrow> [])\<rparr>"

lemmas step_simps = server_step_def calling_def

lemma ds_ok_dest:
  assumes "ds_ok d qs th"
  shows "dlls (asyncTask d) [0 \<mapsto> qs]" "kernel_inv (ds_kern d)" "capacity_timer_ok d" "threads (ds_kern d) (deferrable d) = Some th" "is_live th"
  using assms by (simp_all add: ds_ok_def server_thread_def)

lemma ds_ok_active [simp]: "ds_ok (d\<lparr>ds_active := x\<rparr>) qs th = ds_ok d qs th"
  by (simp add: ds_ok_def server_thread_def capacity_timer_ok_def)

text \<open>The steps on the queue, on the timer, and those that give up the processor.\<close>

lemma step_queue:
  assumes c: "ds_ok (srv c) qs th" "inserted c = served c @ qs" "called c = served c @ calling (pc c)" "phase (pc c) qs (tstate th = RT_THREAD_SUSPEND) cpu"
    and p: "pc c \<in> {Fetch, Check, Inactive} \<or> (\<exists>t. pc c = Remove t)"
  shows "\<exists>p d. server_step (pc c) (srv c) = Some (p, d) \<and> ds_inv (after_server c p d)"
proof -
  let ?d = "srv c"
  note k = ds_ok_dest [OF c(1)]
  consider "pc c = Fetch" | "pc c = Check" | "pc c = Inactive" | t where "pc c = Remove t" using p by blast
  then show ?thesis
  proof cases
    case 1
    then obtain t ts where qs: "qs = t # ts" using c(4) by (cases qs) auto
    then have "lnext (asyncTask ?d) 0 = t" using task_queue_first k(1) by simp
    then show ?thesis using 1 c(1-3) qs
      by (intro exI [of _ "Call t"] exI [of _ ?d] conjI ds_invI [of _ qs th]) (simp_all add: step_simps)
  next
    case 2
    then show ?thesis using c task_queue_empty [OF k(1)]
      by (intro exI [of _ "if qs = [] then Stop else Loop"] exI [of _ ?d] conjI ds_invI [of _ qs th]) (simp_all add: step_simps)
  next
    case 3
    then show ?thesis using c
      by (intro exI [of _ Resched] exI [of _ "?d\<lparr>ds_active := 0\<rparr>"] conjI ds_invI [of _ qs th]) (simp_all add: step_simps)
  next
    case (4 t)
    then obtain ts where qs: "qs = t # ts" using c(4) by (cases qs) auto
    let ?d' = "?d\<lparr>asyncTask := rt_list_remove t (asyncTask ?d)\<rparr>"
    have "ds_ok ?d' ts th" using task_queue_remove [of "asyncTask ?d" t ts] k qs by (simp add: ds_ok_def server_thread_def capacity_timer_ok_def)
    then show ?thesis using 4 c(2-) qs
      by (intro exI [of _ Check] exI [of _ ?d'] conjI ds_invI [of _ ts th]) (simp_all add: step_simps)
  qed
qed

lemma step_timer:
  assumes c: "ds_ok (srv c) qs th" "inserted c = served c @ qs" "called c = served c @ calling (pc c)"
    and st: "tstate th \<noteq> RT_THREAD_SUSPEND" and p: "pc c = Loop \<and> qs \<noteq> [] \<or> pc c = Stop"
  shows "\<exists>p d. server_step (pc c) (srv c) = Some (p, d) \<and> ds_inv (after_server c p d)"
proof -
  let ?d = "srv c"
  note k = ds_ok_dest [OF c(1)]
  consider "pc c = Loop" "ds_active ?d \<noteq> 0" "qs \<noteq> []" | "pc c = Loop" "ds_active ?d = 0" "qs \<noteq> []" | "pc c = Stop" using p by blast
  then show ?thesis
  proof cases
    case 1
    then show ?thesis using c st by (intro exI [of _ Fetch] exI [of _ ?d] conjI ds_invI [of _ qs th]) (simp_all add: step_simps)
  next
    case 2
    obtain s where s: "rt_timer_start (tim_capacity ?d) (ds_kern ?d) = Some (s, RT_EOK)" "kernel_inv s" "capacity_timer_ok (?d\<lparr>ds_kern := s\<rparr>)"
      "threads s = threads (ds_kern ?d)" by (rule capacity_start [OF k(2,3)])
    have "ds_ok (?d\<lparr>ds_kern := s, ds_active := 1\<rparr>) qs th" using ds_ok_kernel [OF c(1) s(2,3)] s(4) k(4,5) by simp
    then show ?thesis using s(1) 2 st c(2,3)
      by (intro exI [of _ Fetch] exI [of _ "?d\<lparr>ds_kern := s, ds_active := 1\<rparr>"] conjI ds_invI [of _ qs th]) (simp_all add: step_simps)
  next
    case 3
    obtain s e where s: "rt_timer_stop (tim_capacity ?d) (ds_kern ?d) = Some (s, e)" "kernel_inv s" "capacity_timer_ok (?d\<lparr>ds_kern := s\<rparr>)"
      "threads s = threads (ds_kern ?d)" by (rule capacity_stop [OF k(2,3)])
    then show ?thesis using ds_ok_kernel [OF c(1) s(2,3)] k(4,5) 3 c(2,3) st
      by (intro exI [of _ Suspend] exI [of _ "?d\<lparr>ds_kern := s\<rparr>"] conjI ds_invI [of _ qs th]) (simp_all add: step_simps)
  qed
qed

lemma step_suspend:
  assumes c: "ds_ok (srv c) qs th" "inserted c = served c @ qs" "called c = served c @ calling (pc c)"
    and st: "tstate th \<noteq> RT_THREAD_SUSPEND" and p: "pc c = Suspend"
  shows "\<exists>d. server_step (pc c) (srv c) = Some (Inactive, d) \<and> ds_inv (after_server c Inactive d) \<and>
    ds_ok d qs (set_state RT_THREAD_SUSPEND th)"
proof -
  obtain s where "rt_thread_suspend (deferrable (srv c)) (ds_kern (srv c)) = Some (s, RT_EOK)"
    "ds_ok ((srv c)\<lparr>ds_kern := s\<rparr>) qs (set_state RT_THREAD_SUSPEND th)"
    by (rule suspend_server [OF c(1) st])
  then show ?thesis using p c(2,3)
    by (intro exI [of _ "(srv c)\<lparr>ds_kern := s\<rparr>"] conjI ds_invI [of _ qs "set_state RT_THREAD_SUSPEND th"]) (simp_all add: step_simps)
qed

lemma step_resched:
  assumes c: "ds_ok (srv c) qs th" "inserted c = served c @ qs" "called c = served c @ calling (pc c)" "tstate th \<noteq> RT_THREAD_SUSPEND \<longrightarrow> qs \<noteq> []"
    and p: "pc c = Resched" "server_runs c"
  shows "\<exists>p d. server_step (pc c) (srv c) = Some (p, d) \<and> ds_inv (after_server c p d)"
proof -
  let ?d = "srv c"
  obtain s th' where s: "rt_schedule (ds_kern ?d) = Some s" "ds_ok (?d\<lparr>ds_kern := s\<rparr>) qs th'"
    "tstate th' = RT_THREAD_SUSPEND \<longleftrightarrow> tstate th = RT_THREAD_SUSPEND" "tstate th = RT_THREAD_SUSPEND \<longrightarrow> rt_current_thread s \<noteq> Some (deferrable ?d)"
    by (rule resched_server [OF c(1) p(2)])
  then show ?thesis using p(1) c(2-4)
    by (intro exI [of _ Loop] exI [of _ "?d\<lparr>ds_kern := s\<rparr>"] conjI ds_invI [of _ qs th']) (simp_all add: step_simps server_has_cpu_def)
qed

lemma server_step_inv:
  assumes inv: "ds_inv c" and run: "server_runs c" and nc: "\<And>t. pc c \<noteq> Call t"
  shows "\<exists>p d. server_step (pc c) (srv c) = Some (p, d) \<and> ds_inv (after_server c p d)"
proof -
  obtain qs th where c: "ds_ok (srv c) qs th" "inserted c = served c @ qs" "waiting c = qs" "called c = served c @ calling (pc c)"
    "phase (pc c) qs (tstate th = RT_THREAD_SUSPEND) (server_has_cpu (srv c))" by (rule ds_invE [OF inv])
  have "server_has_cpu (srv c)" using run by (simp add: server_runs_def server_has_cpu_def)
  then show ?thesis
    using step_queue [OF c(1,2,4,5)] step_timer [OF c(1,2,4)] step_suspend [OF c(1,2,4)] step_resched [OF c(1,2,4) _ _ run] c(5) nc
    by (cases "pc c") auto
qed

lemma others_inv:
  assumes inv: "ds_inv c" and o: "others c s"
  shows "ds_inv (c\<lparr>srv := (srv c)\<lparr>ds_kern := s\<rparr>\<rparr>)"
proof -
  obtain qs th where c: "ds_ok (srv c) qs th" "inserted c = served c @ qs" "waiting c = qs" "called c = served c @ calling (pc c)"
    "phase (pc c) qs (tstate th = RT_THREAD_SUSPEND) (server_has_cpu (srv c))" by (rule ds_invE [OF inv])
  obtain th' where th': "kernel_inv s" "capacity_timer_ok ((srv c)\<lparr>ds_kern := s\<rparr>)" "threads s (deferrable (srv c)) = Some th'" "is_live th'"
    "(\<forall>t. pc c \<noteq> Call t) \<longrightarrow> (tstate th' = RT_THREAD_SUSPEND \<longleftrightarrow> tstate th = RT_THREAD_SUSPEND) \<and>
       (tstate th' = RT_THREAD_SUSPEND \<and> rt_current_thread s = Some (deferrable (srv c)) \<longrightarrow> rt_current_thread (ds_kern (srv c)) = Some (deferrable (srv c)))"
    using o ds_ok_dest(4) [OF c(1)] by (auto simp: others_def server_thread_def)
  have "phase (pc c) qs (tstate th' = RT_THREAD_SUSPEND) (server_has_cpu ((srv c)\<lparr>ds_kern := s\<rparr>))"
    using c(5) th'(5) by (cases "pc c") (auto simp: server_has_cpu_def)
  then show ?thesis using ds_ok_kernel [OF c(1) th'(1-4)] c(2,4) by (intro ds_invI) simp_all
qed

lemma task_inv:
  assumes inv: "ds_inv c" and p: "pc c = Call t" and o: "others c s"
    and th: "threads s (deferrable (srv c)) = Some th" "tstate th = RT_THREAD_RUNNING"
  shows "ds_inv (c\<lparr>srv := (srv c)\<lparr>ds_kern := s\<rparr>, pc := Remove t\<rparr>)"
proof -
  obtain qs th' where c: "ds_ok (srv c) qs th'" "inserted c = served c @ qs" "waiting c = qs" "called c = served c @ calling (pc c)"
    "phase (pc c) qs (tstate th' = RT_THREAD_SUSPEND) (server_has_cpu (srv c))" by (rule ds_invE [OF inv])
  have "ds_ok ((srv c)\<lparr>ds_kern := s\<rparr>) qs th" by (rule ds_ok_kernel [OF c(1)]) (use o th in \<open>auto simp: others_def is_live_def\<close>)
  then show ?thesis using c(2,4,5) p th(2) by (intro ds_invI [of _ qs th]) (simp_all add: calling_def)
qed

lemma step_inv: "ds_inv c \<Longrightarrow> ds_step c c' \<Longrightarrow> ds_inv c'"
proof (erule ds_stepE, goal_cases)
  case (2 p d)
  then have "pc c \<noteq> Call t" for t by (auto simp: server_step_def)
  with server_step_inv [OF 2(1,3)] 2 show ?case by auto
qed (auto intro: insert_inv others_inv task_inv)

lemma reach_inv: "ds_reach c \<Longrightarrow> ds_inv c"
proof (induction rule: ds_reach.induct)
  case (init c)
  then obtain th where th: "server_thread (srv c) = Some th" "tstate th = RT_THREAD_SUSPEND" by (auto simp: ds_initial_def)
  then have "ds_ok (srv c) [] th" using init by (auto simp: ds_ok_def ds_initial_def is_live_def)
  then show ?case using init th by (intro ds_invI [of _ "[]" th]) (auto simp: ds_initial_def calling_def server_has_cpu_def)
qed (rule step_inv)

section \<open>A wake-up that is lost\<close>

text \<open>The server is suspended although tasks wait, and has left its check of the queue behind.\<close>

definition stuck :: "config \<Rightarrow> bool" where
  "stuck c \<longleftrightarrow> pc c \<in> {Inactive, Resched, Loop} \<and> waiting c \<noteq> [] \<and>
     (\<exists>th. server_thread (srv c) = Some th \<and> tstate th = RT_THREAD_SUSPEND)"

lemma insert_into_waiting:
  assumes inv: "ds_inv c" and t: "t \<noteq> 0" "t \<notin> set (waiting c)"
  obtains d where "rt_thread_deferrable_insert_task t (srv c) = Some d"
    "waiting (c\<lparr>srv := d, inserted := inserted c @ [t]\<rparr>) = waiting c @ [t]" "deferrable d = deferrable (srv c)"
    "\<forall>th. server_thread (srv c) = Some th \<longrightarrow> waiting c \<noteq> [] \<or> tstate th \<noteq> RT_THREAD_SUSPEND \<longrightarrow> ds_kern d = ds_kern (srv c)"
proof -
  obtain qs th where c: "ds_ok (srv c) qs th" "inserted c = served c @ qs" "waiting c = qs" by (rule ds_invE [OF inv])
  from t(2) c(3) have "t \<notin> set qs" by simp
  then obtain d where d: "rt_thread_deferrable_insert_task t (srv c) = Some d" "deferrable d = deferrable (srv c)"
    "qs \<noteq> [] \<or> tstate th \<noteq> RT_THREAD_SUSPEND \<longrightarrow> ds_kern d = ds_kern (srv c)"
    by (rule insert_task_ok [OF c(1) t(1)])
  moreover have "server_thread (srv c) = Some th" using c(1) by (simp add: ds_ok_def)
  ultimately show thesis using c(2,3) by (intro that [of d]) (simp_all add: waiting_def)
qed

lemma stuck_forever:
  assumes "ds_inv c" and st: "stuck c" and "ds_step c c'"
  shows "stuck c' \<and> called c' = called c \<and> set (waiting c) \<subseteq> set (waiting c')"
  using assms(3)
proof (cases rule: ds_step.cases)
  case (Insert t d)
  obtain d' where d': "rt_thread_deferrable_insert_task t (srv c) = Some d'"
    "waiting (c\<lparr>srv := d', inserted := inserted c @ [t]\<rparr>) = waiting c @ [t]" "deferrable d' = deferrable (srv c)"
    "\<forall>th. server_thread (srv c) = Some th \<longrightarrow> waiting c \<noteq> [] \<or> tstate th \<noteq> RT_THREAD_SUSPEND \<longrightarrow> ds_kern d' = ds_kern (srv c)"
    by (rule insert_into_waiting [OF assms(1) Insert(2,3)])
  then show ?thesis using Insert st by (auto simp: stuck_def server_thread_def)
next
  case (Server p d)
  obtain qs th where c: "ds_ok (srv c) qs th" "waiting c = qs" "phase (pc c) qs (tstate th = RT_THREAD_SUSPEND) (server_has_cpu (srv c))"
    by (rule ds_invE [OF assms(1)])
  have th: "tstate th = RT_THREAD_SUSPEND" "server_thread (srv c) = Some th" using st ds_ok_dest(4) [OF c(1)] by (auto simp: stuck_def server_thread_def)
  have "pc c \<noteq> Loop" using c(3) th Server(2) by (auto simp: server_runs_def server_has_cpu_def)
  then consider "pc c = Inactive" | "pc c = Resched" using st by (auto simp: stuck_def)
  then show ?thesis
  proof cases
    case 1
    then show ?thesis using Server st by (auto simp: stuck_def server_step_def waiting_def server_thread_def)
  next
    case 2
    obtain s th' where s: "rt_schedule (ds_kern (srv c)) = Some s" "ds_ok ((srv c)\<lparr>ds_kern := s\<rparr>) qs th'" "tstate th' = RT_THREAD_SUSPEND"
      using resched_server [OF c(1) Server(2)] th(1) by metis
    then show ?thesis using Server 2 st ds_ok_dest(4) [OF s(2)] by (auto simp: stuck_def server_step_def waiting_def server_thread_def)
  qed
next
  case (Task t s th)
  then show ?thesis using st by (auto simp: stuck_def)
next
  case (Others s)
  then show ?thesis using st by (auto simp: stuck_def others_def waiting_def server_thread_def)
qed

lemma stuck_steps:
  assumes "ds_step\<^sup>*\<^sup>* c c'" and "ds_inv c" and "stuck c"
  shows "ds_inv c' \<and> stuck c' \<and> called c' = called c \<and> set (waiting c) \<subseteq> set (waiting c')"
  using assms
proof (induction rule: rtranclp_induct)
  case (step y z)
  then show ?case using step_inv [of y z] stuck_forever [of y z] by auto
qed simp

section \<open>Properties\<close>


text \<open>A task inserted into the empty queue of the idle server wakes it: the server becomes ready, at the end of the queue of its
  priority, and the task is the only one waiting.\<close>

theorem deferrable_insert_wakes:
  assumes "ds_reach c" and "waiting c = []" and "server_thread (srv c) = Some th" and "tstate th = RT_THREAD_SUSPEND"
    and "rt_current_thread (ds_kern (srv c)) \<noteq> Some (deferrable (srv c))" and "t \<noteq> 0"
  shows "\<exists>d th'. rt_thread_deferrable_insert_task t (srv c) = Some d \<and> dlls (asyncTask d) [0 \<mapsto> [t]] \<and> server_thread d = Some th' \<and>
     tstate th' = RT_THREAD_READY \<and> last (queues (ds_kern d) (ReadyQ (unat (current_priority th)))) = deferrable d \<and>
     deferrable d \<in> set (queues (ds_kern d) (ReadyQ (unat (current_priority th))))"
proof -
  obtain qs th0 where c: "ds_ok (srv c) qs th0" "waiting c = qs" by (rule ds_invE [OF reach_inv [OF assms(1)]])
  have th0: "th0 = th" "qs = []" using assms(2,3) c ds_ok_dest(4) [OF c(1)] by (simp_all add: server_thread_def)
  from insert_task_ok [OF c(1) assms(6)] th0(2) obtain d where d: "rt_thread_deferrable_insert_task t (srv c) = Some d"
    "ds_ok d [t] (woken (ds_kern (srv c)) (deferrable (srv c)) th)" "deferrable d = deferrable (srv c)"
    "queues (ds_kern d) = ready_queues (deferrable (srv c)) th (ds_kern (srv c))" using assms(4) th0(1) by auto
  then show ?thesis using assms(5) ds_ok_dest(1,4) [OF d(2)]
    by (intro exI [of _ d] exI [of _ "set_state RT_THREAD_READY th"]) (simp add: server_thread_def ready_queues_def)
qed

text \<open>C27. A button interrupt between the server's check of its queue and its call of \<^verbatim>\<open>rt_thread_suspend\<close> is fatal: the insertion finds the
  queue empty and tries to resume a thread that still runs, and the server suspends itself with a task in its queue. Since later
  insertions find the queue non-empty, nothing wakes the server any more: in every continuation the task waits and no task is called.\<close>

theorem deferrable_lost_wakeup:
  assumes "ds_reach c" and "server_runs c" and "pc c = Suspend" and "waiting c = []" and "t \<noteq> 0"
  shows "\<exists>c'. ds_step\<^sup>*\<^sup>* c c' \<and> waiting c' = [t] \<and>
     (\<forall>c''. ds_step\<^sup>*\<^sup>* c' c'' \<longrightarrow> t \<in> set (waiting c'') \<and> called c'' = called c)"
proof -
  note inv = reach_inv [OF assms(1)]
  obtain d where d: "rt_thread_deferrable_insert_task t (srv c) = Some d" "waiting (c\<lparr>srv := d, inserted := inserted c @ [t]\<rparr>) = waiting c @ [t]"
    "deferrable d = deferrable (srv c)"
    "\<forall>th. server_thread (srv c) = Some th \<longrightarrow> waiting c \<noteq> [] \<or> tstate th \<noteq> RT_THREAD_SUSPEND \<longrightarrow> ds_kern d = ds_kern (srv c)"
    by (rule insert_into_waiting [OF inv assms(5)]) (use assms(4) in simp)
  let ?c1 = "c\<lparr>srv := d, inserted := inserted c @ [t]\<rparr>"
  have s1: "ds_step c ?c1" using assms(4,5) d(1) by (intro ds_step.Insert) simp_all
  obtain qs th where "ds_ok (srv ?c1) qs th" "inserted ?c1 = served ?c1 @ qs" "called ?c1 = served ?c1 @ calling (pc ?c1)"
    "phase (pc ?c1) qs (tstate th = RT_THREAD_SUSPEND) (server_has_cpu (srv ?c1))" by (rule ds_invE [OF step_inv [OF inv s1]])
  then have c1: "ds_ok d qs th" "inserted c @ [t] = served c @ qs" "called c = served c @ calling (pc c)" "tstate th \<noteq> RT_THREAD_SUSPEND"
    using assms(3) by simp_all
  have "ds_kern d = ds_kern (srv c)"
  proof -
    obtain th0 where "server_thread (srv c) = Some th0" "tstate th0 \<noteq> RT_THREAD_SUSPEND"
      by (rule ds_invE [OF inv]) (use assms(3) in \<open>auto simp: ds_ok_def\<close>)
    then show ?thesis using d(4) by blast
  qed
  then have run: "server_runs ?c1" using assms(2) d(3) by (simp add: server_runs_def)
  obtain d2 where d2: "server_step Suspend d = Some (Inactive, d2)" "ds_inv (after_server ?c1 Inactive d2)" "ds_ok d2 qs (set_state RT_THREAD_SUSPEND th)"
    using step_suspend [of ?c1 qs th] c1 assms(3) by auto
  let ?c2 = "after_server ?c1 Inactive d2"
  have s2: "ds_step ?c1 ?c2" using ds_step.Server [OF run] d2(1) assms(3) by simp
  have w2: "waiting ?c2 = [t]" "called ?c2 = called c" using d(2) assms(3,4) by (simp_all add: waiting_def)
  have "stuck ?c2" using w2 ds_ok_dest(4) [OF d2(3)] by (auto simp: stuck_def server_thread_def)
  then have "t \<in> set (waiting c'') \<and> called c'' = called c" if "ds_step\<^sup>*\<^sup>* ?c2 c''" for c''
    using stuck_steps [OF that d2(2)] w2 by auto
  moreover have "ds_step\<^sup>*\<^sup>* c ?c2" using s1 s2 by (meson r_into_rtranclp rtranclp.rtrancl_into_rtrancl)
  ultimately show ?thesis using w2(1) by (intro exI [of _ ?c2]) blast
qed

text \<open>A task that is inserted again while it is the one in the queue (two presses of one button while its read task waits) breaks the list:
  after it was served the head still leads to it, although the queue passes for empty, and the next insertion makes the server call
  it once more, in front of the new task.\<close>

theorem deferrable_reinsert_corrupts:
  assumes "dlls h [0 \<mapsto> [t]]" and "u \<noteq> 0" and "u \<noteq> t"
    and "h1 = rt_list_insert_before 0 t (rt_list_init t h)" and "h2 = rt_list_remove t h1" and "h3 = rt_list_insert_before 0 u (rt_list_init u h2)"
  shows "rt_list_isempty (lnext h2 0) h2" and "lnext h2 0 = t" and "lnext h3 0 = t" and "lnext h3 t = u"
proof -
  have "lnext h 0 = t" "lprev h 0 = t" "lnext h t = 0" "lprev h t = 0" "t \<noteq> 0" using dllsD [OF assms(1), of 0 "[t]"] by auto
  then show "rt_list_isempty (lnext h2 0) h2" "lnext h2 0 = t" "lnext h3 0 = t" "lnext h3 t = u"
    using assms(2,3) by (simp_all add: assms(4-) rt_list_isempty_def rt_list_insert_before_def rt_list_init_def rt_list_remove_def)
qed

text \<open>When the capacity is used up, the server gets the priority that happens to be stored at address 31, not priority 31.\<close>

theorem deferrable_capacity_priority:
  assumes "server_thread d = Some th" and "tstate th = RT_THREAD_RUNNING" and "rt_object_get_type (th_type th) = RT_Object_Class_Thread"
  shows "\<exists>d' th'. rt_timer_deferrable_capacity byte_at d = Some d' \<and> capacity_left d' = 0 \<and> server_thread d' = Some th' \<and>
    current_priority th' = byte_at 31"
  using assms by (simp add: rt_timer_deferrable_capacity_def rt_thread_control_def change_priority_def server_thread_def upd_thread_def set_priority_def)

section \<open>Witnesses\<close>

text \<open>The server is thread 3 of the demonstration kernel, its capacity timer is \<open>Timer 7\<close>; in \<open>demo_served\<close> the server has the processor.\<close>

definition add_capacity_timer :: "kernel \<Rightarrow> kernel" where
  "add_capacity_timer s = s\<lparr>timers := (timers s)(Timer 7 \<mapsto> (demo_timer 0)\<lparr>timeout_func := Fn_other FN_CAPACITY, tm_init_tick := 1000\<rparr>)\<rparr>"

definition demo_served :: kernel where
  "demo_served = (demo_kernel 0)\<lparr>threads := (threads (demo_kernel 0))(1 \<mapsto> demo_thread RT_THREAD_READY 10, 3 \<mapsto> demo_thread RT_THREAD_RUNNING 5),
     queues := (queues (demo_kernel 0))(ReadyQ 10 := [2, 1], SemQ 0 := []), rt_current_thread := Some 3, rt_current_priority := 5\<rparr>"

definition demo_config :: config where
  "demo_config = \<lparr>srv = \<lparr>ds_kern = add_capacity_timer (demo_kernel 0), asyncTask = \<lparr>lnext = id, lprev = id\<rparr>, deferrable = 3, ds_priority = 0,
     capacity = 1000, capacity_left = 1000, tim_capacity = Timer 7, tim_server = Timer 8, ds_active = 0\<rparr>,
     pc = Loop, inserted = [], called = [], served = []\<rparr>"

lemma add_capacity_timer_inv:
  assumes "kernel_inv s" and "\<And>q. Timer 7 \<notin> set (timer_queues s q)"
  shows "kernel_inv (add_capacity_timer s)"
proof (rule kernel_inv_other_timer [OF assms(1)])
  show "timer_lists_ok (add_capacity_timer s)"
    using kernel_invD(2) [OF assms(1)] assms(2) unfolding timer_lists_ok_def add_capacity_timer_def by simp
qed (simp_all add: add_capacity_timer_def same_sched_def)

lemma add_capacity_timer_ok:
  "tim_capacity d = Timer 7 \<Longrightarrow> ds_kern d = add_capacity_timer s \<Longrightarrow> capacity_timer_ok d"
  by (simp add: capacity_timer_ok_def add_capacity_timer_def demo_timer_def rt_object_get_type_def)

lemma demo_served_inv: "kernel_inv demo_served"
proof -
  have bits: "bit (0x80000400 :: u32) p \<longleftrightarrow> p = 10 \<or> p = 31" for p using bit_two_masks [of 10 31 p] by simp
  then have q: "queue_ok demo_served" unfolding queue_ok_def demo_served_def by (simp split: if_split) fastforce
  have "tcons demo_served t" for t
  proof -
    consider "t = 0" | "t = 1" | "t = 2" | "t = 3" | "t = 4" | "4 < t" by linarith
    then show ?thesis by cases (auto simp: tcons_def nowhere_def demo_thread_ok demo_served_def)
  qed
  moreover have "tt_cons demo_served t" for t
  proof -
    have ok: "thread_timer_ok t (demo_timer t)" "\<not> active (demo_timer t)" for t
      by (simp_all add: demo_timer_def thread_timer_ok_def active_def rt_object_get_type_def)
    consider "t = 0" | "t = 1" | "t = 2" | "t = 3" | "t = 4" | "4 < t" by linarith
    then show ?thesis using ok by cases (auto simp: tt_cons_def demo_served_def)
  qed
  ultimately show ?thesis using q by (simp add: kernel_inv_def timer_inv_def winv_def timer_lists_ok_def demo_served_def)
qed

lemma demo_initial: "ds_initial demo_config"
proof -
  have "kernel_inv (ds_kern (srv demo_config))"
    using add_capacity_timer_inv [OF demo_kernel_inv, of 0] by (simp add: demo_config_def)
  moreover have "capacity_timer_ok (srv demo_config)" by (rule add_capacity_timer_ok) (simp_all add: demo_config_def)
  moreover have "dlls (asyncTask (srv demo_config)) [0 \<mapsto> []]" by (simp add: demo_config_def dlls_def split: if_splits)
  ultimately show ?thesis by (simp add: ds_initial_def server_thread_def demo_config_def add_capacity_timer_def)
qed

text \<open>A configuration in which the server has the processor of \<open>demo_served\<close>; by a step of the others the server gets it back after each of its own.\<close>

definition demo_at :: "server_pc \<Rightarrow> nat list \<Rightarrow> config \<Rightarrow> bool" where
  "demo_at p qs c \<longleftrightarrow> ds_reach c \<and> pc c = p \<and> waiting c = qs \<and> ds_kern (srv c) = add_capacity_timer demo_served \<and> deferrable (srv c) = 3 \<and>
     tim_capacity (srv c) = Timer 7"

lemma demo_served_kernel:
  "kernel_inv (add_capacity_timer demo_served)" "rt_current_thread (add_capacity_timer demo_served) = Some 3"
  "threads (add_capacity_timer demo_served) 3 = Some (demo_thread RT_THREAD_RUNNING 5)"
  "rt_scheduler_lock_nest (add_capacity_timer demo_served) = 0" "rt_thread_ready_priority_group (add_capacity_timer demo_served) \<noteq> 0"
  using add_capacity_timer_inv [OF demo_served_inv] by (simp_all add: add_capacity_timer_def demo_served_def)

lemma demo_runs: "demo_at p qs c \<Longrightarrow> server_runs c"
  by (simp add: demo_at_def server_runs_def demo_served_kernel)

lemma demo_give_cpu:
  assumes "ds_reach c" and "deferrable (srv c) = 3" and "tim_capacity (srv c) = Timer 7" and "server_thread (srv c) = Some th"
    and "tstate th \<noteq> RT_THREAD_SUSPEND"
  shows "\<exists>c'. demo_at (pc c) (waiting c) c'"
proof -
  let ?c = "c\<lparr>srv := (srv c)\<lparr>ds_kern := add_capacity_timer demo_served\<rparr>\<rparr>"
  have "capacity_timer_ok (srv ?c)" by (rule add_capacity_timer_ok) (use assms(3) in simp_all)
  then have "others c (add_capacity_timer demo_served)"
    using assms(2,4,5) demo_served_kernel by (simp add: others_def is_live_def)
  then have "ds_reach ?c" by (rule ds_reach.step [OF assms(1) ds_step.Others])
  then have "demo_at (pc c) (waiting c) ?c" using assms(2,3) by (simp add: demo_at_def waiting_def)
  then show ?thesis ..
qed

lemma server_step_same: "server_step p d = Some (p', d') \<Longrightarrow> deferrable d' = deferrable d \<and> tim_capacity d' = tim_capacity d"
  by (cases p) (auto simp: server_step_def split: if_splits elim!: bind_Some_elim)

lemma demo_step:
  assumes at: "demo_at p qs c" and s: "server_step p (srv c) = Some (p', d)" and p': "p' \<in> {Fetch, Check, Stop, Suspend}"
  shows "\<exists>c'. demo_at p' (waiting (after_server c p' d)) c'"
proof -
  let ?c = "after_server c p' d"
  have c: "ds_reach c" "pc c = p" "deferrable (srv c) = 3" "tim_capacity (srv c) = Timer 7" using at by (simp_all add: demo_at_def)
  have "ds_step c ?c" by (rule ds_step.Server [OF demo_runs [OF at]]) (use s c(2) in simp)
  then have r: "ds_reach ?c" by (rule ds_reach.step [OF c(1)])
  obtain qs' th where q: "ds_ok (srv ?c) qs' th" "phase (pc ?c) qs' (tstate th = RT_THREAD_SUSPEND) (server_has_cpu (srv ?c))"
    by (rule ds_invE [OF reach_inv [OF r]])
  then have "server_thread (srv ?c) = Some th" "tstate th \<noteq> RT_THREAD_SUSPEND" using p' by (auto simp: ds_ok_def)
  with demo_give_cpu [OF r] server_step_same [OF s] c(3,4) show ?thesis by simp
qed

lemma demo_task:
  assumes at: "demo_at Fetch (t # ts) c"
  shows "\<exists>c'. demo_at (Remove t) (t # ts) c'"
proof -
  let ?c = "after_server c (Call t) (srv c)" and ?s = "add_capacity_timer demo_served"
  have c: "ds_reach c" "pc c = Fetch" "waiting c = t # ts" "deferrable (srv c) = 3" "tim_capacity (srv c) = Timer 7" using at by (simp_all add: demo_at_def)
  obtain th where "ds_ok (srv c) (t # ts) th" using ds_invE [OF reach_inv [OF c(1)]] c(3) by metis
  then have "lnext (asyncTask (srv c)) 0 = t" using task_queue_first ds_ok_dest(1) by blast
  then have "ds_step c ?c" by (intro ds_step.Server [OF demo_runs [OF at]]) (use c(2) in \<open>simp add: server_step_def\<close>)
  then have r: "ds_reach ?c" by (rule ds_reach.step [OF c(1)])
  obtain th' where th': "server_thread (srv ?c) = Some th'" by (rule ds_invE [OF reach_inv [OF r]]) (auto simp: ds_ok_def)
  have "capacity_timer_ok ((srv ?c)\<lparr>ds_kern := ?s\<rparr>)" by (rule add_capacity_timer_ok) (use c(5) in simp_all)
  then have "others ?c ?s" using th' c(4) demo_served_kernel by (simp add: others_def is_live_def)
  then have "ds_step ?c (?c\<lparr>srv := (srv ?c)\<lparr>ds_kern := ?s\<rparr>, pc := Remove t\<rparr>)"
    using c(4) demo_served_kernel(2,3) by (intro ds_step.Task [where th = "demo_thread RT_THREAD_RUNNING 5"]) simp_all
  then have "ds_reach (?c\<lparr>srv := (srv ?c)\<lparr>ds_kern := ?s\<rparr>, pc := Remove t\<rparr>)" by (rule ds_reach.step [OF r])
  then show ?thesis using c(2-) by (intro exI [of _ "?c\<lparr>srv := (srv ?c)\<lparr>ds_kern := ?s\<rparr>, pc := Remove t\<rparr>"]) (simp add: demo_at_def waiting_def)
qed

lemma demo_started: "\<exists>c. demo_at Loop [1] c"
proof -
  obtain d where d: "rt_thread_deferrable_insert_task 1 (srv demo_config) = Some d" "waiting (demo_config\<lparr>srv := d, inserted := inserted demo_config @ [1]\<rparr>) = waiting demo_config @ [1]"
    by (rule insert_into_waiting [OF reach_inv [OF ds_reach.init [OF demo_initial]], of 1]) (auto simp: demo_config_def waiting_def)
  let ?c = "demo_config\<lparr>srv := d, inserted := inserted demo_config @ [1]\<rparr>"
  have "ds_step demo_config ?c" using d(1) by (intro ds_step.Insert) (simp_all add: demo_config_def waiting_def)
  then have r: "ds_reach ?c" by (rule ds_reach.step [OF ds_reach.init [OF demo_initial]])
  obtain th where th: "ds_ok (srv demo_config) [] th" "server_thread (srv demo_config) = Some th" "tstate th = RT_THREAD_SUSPEND"
    using demo_initial by (auto simp: ds_ok_def ds_initial_def is_live_def)
  obtain d' where "rt_thread_deferrable_insert_task 1 (srv demo_config) = Some d'" "ds_ok d' [1] (woken (ds_kern (srv demo_config)) (deferrable (srv demo_config)) th)"
    "deferrable d' = deferrable (srv demo_config)"
    using insert_task_ok [OF th(1), of 1] th(3) by auto
  then have "server_thread (srv ?c) = Some (woken (ds_kern (srv demo_config)) (deferrable (srv demo_config)) th)" "deferrable (srv ?c) = 3"
    using d(1) by (simp_all add: ds_ok_def demo_config_def)
  moreover have "tim_capacity (srv ?c) = Timer 7" using d(1)
    by (auto simp: rt_thread_deferrable_insert_task_def Let_def demo_config_def split: if_splits elim!: bind_Some_elim)
  ultimately obtain c' where "demo_at (pc ?c) (waiting ?c) c'" using demo_give_cpu [OF r] by fastforce
  then show ?thesis using d(2) by (auto simp: demo_config_def waiting_def)
qed

lemma demo_suspending: "\<exists>c. demo_at Suspend [] c"
proof -
  note inv = reach_inv [OF demo_at_def [THEN iffD1, THEN conjunct1]]
  obtain c where c: "demo_at Loop [1] c" using demo_started by blast
  obtain p d where "server_step Loop (srv c) = Some (p, d)" using server_step_inv [OF inv [OF c] demo_runs [OF c]] c by (auto simp: demo_at_def)
  moreover from this have "p = Fetch" by (auto simp: server_step_def split: if_splits elim!: bind_Some_elim)
  ultimately obtain c1 where c1: "demo_at Fetch [1] c1" using demo_step [OF c] c by (auto simp: demo_at_def waiting_def)
  obtain c2 where c2: "demo_at (Remove 1) [1] c2" using demo_task [OF c1] by blast
  obtain qs where "inserted c2 = served c2 @ qs" "waiting c2 = qs" by (rule ds_invE [OF inv [OF c2]])
  then have "waiting (c2\<lparr>served := served c2 @ [1]\<rparr>) = []" using c2 by (simp add: demo_at_def waiting_def)
  then obtain c3 where c3: "demo_at Check [] c3"
    using demo_step [OF c2, of Check] c2 by (auto simp: server_step_def demo_at_def waiting_def)
  obtain qs th where q: "ds_ok (srv c3) qs th" "waiting c3 = qs" by (rule ds_invE [OF inv [OF c3]])
  then have "rt_list_isempty (lnext (asyncTask (srv c3)) 0) (asyncTask (srv c3))"
    using task_queue_empty [OF ds_ok_dest(1) [OF q(1)]] c3 by (simp add: demo_at_def)
  then obtain c4 where c4: "demo_at Stop [] c4" using demo_step [OF c3, of Stop] c3 by (auto simp: server_step_def demo_at_def waiting_def)
  obtain p d where "server_step Stop (srv c4) = Some (p, d)" using server_step_inv [OF inv [OF c4] demo_runs [OF c4]] c4 by (auto simp: demo_at_def)
  moreover from this have "p = Suspend" by (auto simp: server_step_def elim!: bind_Some_elim)
  ultimately show ?thesis using demo_step [OF c4] c4 by (auto simp: demo_at_def waiting_def)
qed


theorem deferrable_insert_wakes_witness:
  "\<exists>d th'. rt_thread_deferrable_insert_task 1 (srv demo_config) = Some d \<and> server_thread d = Some th' \<and> tstate th' = RT_THREAD_READY"
  using deferrable_insert_wakes [OF ds_reach.init [OF demo_initial], of "demo_thread RT_THREAD_SUSPEND 5" 1]
  by (auto simp: demo_config_def waiting_def server_thread_def add_capacity_timer_def)

theorem deferrable_lost_wakeup_witness:
  "\<exists>c c'. ds_reach c \<and> server_runs c \<and> waiting c = [] \<and> ds_step\<^sup>*\<^sup>* c c' \<and> waiting c' = [1]"
proof -
  obtain c where c: "demo_at Suspend [] c" using demo_suspending by blast
  then show ?thesis using deferrable_lost_wakeup [OF _ demo_runs [OF c], of 1] demo_runs [OF c] by (auto simp: demo_at_def)
qed

end
