(* ===== verification/KMem.thy ===== *)
theory KMem
  imports Prelude "HOL-Library.Sublist"
begin

text \<open>
  The memory functions of \<^verbatim>\<open>rt-thread/src/kservice.c\<close>, which the compiler also uses for \<^verbatim>\<open>memcpy\<close>, \<^verbatim>\<open>memset\<close> and \<^verbatim>\<open>memmove\<close>. Memory is a
  function from 32-bit addresses to bytes; addresses wrap. A word is stored with its least significant byte first. The
  optimised loops of \<^verbatim>\<open>rt_memset\<close> and \<^verbatim>\<open>rt_memcpy\<close> (\<^verbatim>\<open>RT_USING_TINY_SIZE\<close> is not set) are shown equal to what is
  meant: \<open>filled\<close> and \<open>copied\<close>.
\<close>

type_synonym mem = "u32 \<Rightarrow> u8"

section \<open>Words in memory\<close>

definition load32 :: "u32 \<Rightarrow> mem \<Rightarrow> u32" where
  "load32 a m = ucast (m a) OR push_bit 8 (ucast (m (a + 1))) OR push_bit 16 (ucast (m (a + 2))) OR push_bit 24 (ucast (m (a + 3)))"

definition store32 :: "u32 \<Rightarrow> u32 \<Rightarrow> mem \<Rightarrow> mem" where
  "store32 a w m = m(a := ucast w, a + 1 := ucast (drop_bit 8 w), a + 2 := ucast (drop_bit 16 w), a + 3 := ucast (drop_bit 24 w))"

section \<open>rt\_memset\<close>

function memset_bytes :: "u32 \<Rightarrow> u8 \<Rightarrow> u32 \<Rightarrow> mem \<Rightarrow> mem" where
  "memset_bytes a d count m = (if count = 0 then m else memset_bytes (a + 1) d (count - 1) (m(a := d)))"
  by auto
termination
  by (relation "measure (\<lambda>(a, d, count, m). unat count)") (auto simp: measure_unat)

function memset_words :: "u32 \<Rightarrow> u32 \<Rightarrow> u32 \<Rightarrow> mem \<Rightarrow> u32 \<times> u32 \<times> mem" where
  "memset_words a buffer count m =
     (if 4 \<le> count then memset_words (a + 4) buffer (count - 4) (store32 a buffer m) else (a, count, m))"
  by auto
termination
  by (relation "measure (\<lambda>(a, b, count, m). unat count)") (auto simp: unat_sub word_le_nat_alt)

function memset_blocks :: "u32 \<Rightarrow> u32 \<Rightarrow> u32 \<Rightarrow> mem \<Rightarrow> u32 \<times> u32 \<times> mem" where
  "memset_blocks a buffer count m =
     (if 16 \<le> count
      then let m1 = store32 a buffer m;
               m2 = store32 (a + 4) buffer m1;
               m3 = store32 (a + 8) buffer m2;
               m4 = store32 (a + 12) buffer m3
           in memset_blocks (a + 16) buffer (count - 16) m4
      else (a, count, m))"
  by auto
termination
  by (relation "measure (\<lambda>(a, b, count, m). unat count)") (auto simp: unat_sub word_le_nat_alt)

declare memset_bytes.simps [simp del] memset_words.simps [simp del] memset_blocks.simps [simp del]

definition rt_memset :: "u32 \<Rightarrow> u32 \<Rightarrow> u32 \<Rightarrow> mem \<Rightarrow> mem" where
  "rt_memset s c count m =
     (let d = c AND 0xff
      in if \<not> count < 4 \<and> s AND 3 = 0
         then let b = (push_bit 8 d) OR d;
                  buffer = b OR push_bit 16 b;
                  (a1, count1, m1) = memset_blocks s buffer count m;
                  (a2, count2, m2) = memset_words a1 buffer count1 m1
              in memset_bytes a2 (ucast d) count2 m2
         else memset_bytes s (ucast d) count m)"

section \<open>rt\_memcpy, rt\_memmove, rt\_memcmp\<close>

text \<open>\<^verbatim>\<open>len\<close> of \<^verbatim>\<open>rt_memcpy\<close> is an \<^verbatim>\<open>int\<close>, but is compared with \<^verbatim>\<open>sizeof\<close>s, as an unsigned number, and with 0.\<close>

function copy_up :: "u32 \<Rightarrow> u32 \<Rightarrow> u32 \<Rightarrow> mem \<Rightarrow> mem" where
  "copy_up dst src len m = (if len = 0 then m else copy_up (dst + 1) (src + 1) (len - 1) (m(dst := m src)))"
  by auto
termination
  by (relation "measure (\<lambda>(dst, src, len, m). unat len)") (auto simp: measure_unat)

function copy_down :: "u32 \<Rightarrow> u32 \<Rightarrow> u32 \<Rightarrow> mem \<Rightarrow> mem" where
  "copy_down tmp s n m = (if n = 0 then m else copy_down (tmp - 1) (s - 1) (n - 1) (m(tmp - 1 := m (s - 1))))"
  by auto
termination
  by (relation "measure (\<lambda>(tmp, s, n, m). unat n)") (auto simp: measure_unat)

function copy_words :: "u32 \<Rightarrow> u32 \<Rightarrow> u32 \<Rightarrow> mem \<Rightarrow> u32 \<times> u32 \<times> u32 \<times> mem" where
  "copy_words dst src len m =
     (if 4 \<le> len then copy_words (dst + 4) (src + 4) (len - 4) (store32 dst (load32 src m) m) else (dst, src, len, m))"
  by auto
termination
  by (relation "measure (\<lambda>(dst, src, len, m). unat len)") (auto simp: unat_sub word_le_nat_alt)

function copy_blocks :: "u32 \<Rightarrow> u32 \<Rightarrow> u32 \<Rightarrow> mem \<Rightarrow> u32 \<times> u32 \<times> u32 \<times> mem" where
  "copy_blocks dst src len m =
     (if 16 \<le> len
      then let m1 = store32 dst (load32 src m) m;
               m2 = store32 (dst + 4) (load32 (src + 4) m1) m1;
               m3 = store32 (dst + 8) (load32 (src + 8) m2) m2;
               m4 = store32 (dst + 12) (load32 (src + 12) m3) m3
           in copy_blocks (dst + 16) (src + 16) (len - 16) m4
      else (dst, src, len, m))"
  by auto
termination
  by (relation "measure (\<lambda>(dst, src, len, m). unat len)") (auto simp: unat_sub word_le_nat_alt)

declare copy_up.simps [simp del] copy_down.simps [simp del] copy_words.simps [simp del] copy_blocks.simps [simp del]

definition rt_memcpy :: "u32 \<Rightarrow> u32 \<Rightarrow> u32 \<Rightarrow> mem \<Rightarrow> mem" where
  "rt_memcpy dst src count m =
     (if \<not> count < 16 \<and> (src AND 3) OR (dst AND 3) = 0
      then let (d1, s1, len1, m1) = copy_blocks dst src count m;
               (d2, s2, len2, m2) = copy_words d1 s1 len1 m1
           in copy_up d2 s2 len2 m2
      else copy_up dst src count m)"

definition rt_memmove :: "u32 \<Rightarrow> u32 \<Rightarrow> u32 \<Rightarrow> mem \<Rightarrow> mem" where
  "rt_memmove dest src n m =
     (if src < dest \<and> dest < src + n then copy_down (dest + n) (src + n) n m else copy_up dest src n m)"

function rt_memcmp :: "u32 \<Rightarrow> u32 \<Rightarrow> u32 \<Rightarrow> mem \<Rightarrow> int" where
  "rt_memcmp cs ct count m =
     (if count = 0 then 0
      else let res = uint (m cs) - uint (m ct)
           in if res \<noteq> 0 then res else rt_memcmp (cs + 1) (ct + 1) (count - 1) m)"
  by auto
termination
  by (relation "measure (\<lambda>(cs, ct, count, m). unat count)") (auto simp: measure_unat)

declare rt_memcmp.simps [simp del]

section \<open>Strings\<close>

partial_function (option) strlen_loop :: "u32 \<Rightarrow> mem \<Rightarrow> u32 option" where
  "strlen_loop sc m = (if m sc \<noteq> 0 then strlen_loop (sc + 1) m else Some sc)"

definition rt_strlen :: "u32 \<Rightarrow> mem \<Rightarrow> u32 option" where
  "rt_strlen s m = do { sc \<leftarrow> strlen_loop s m; Some (sc - s) }"

partial_function (option) strnlen_loop :: "u32 \<Rightarrow> u32 \<Rightarrow> u32 \<Rightarrow> mem \<Rightarrow> u32 option" where
  "strnlen_loop s sc maxlen m = (if m sc \<noteq> 0 \<and> sc - s < maxlen then strnlen_loop s (sc + 1) maxlen m else Some sc)"

definition rt_strnlen :: "u32 \<Rightarrow> u32 \<Rightarrow> mem \<Rightarrow> u32 option" where
  "rt_strnlen s maxlen m = do { sc \<leftarrow> strnlen_loop s s maxlen m; Some (sc - s) }"

partial_function (option) rt_strcmp :: "u32 \<Rightarrow> u32 \<Rightarrow> mem \<Rightarrow> int option" where
  "rt_strcmp cs ct m =
     (if m cs \<noteq> 0 \<and> m cs = m ct then rt_strcmp (cs + 1) (ct + 1) m else Some (uint (m cs) - uint (m ct)))"

definition lower_case :: "u8 \<Rightarrow> int" where
  "lower_case c = (if 65 \<le> c \<and> c \<le> 90 then uint c + 32 else uint c)"

partial_function (option) rt_strcasecmp :: "u32 \<Rightarrow> u32 \<Rightarrow> mem \<Rightarrow> int option" where
  "rt_strcasecmp a b m =
     (let ca = lower_case (m a); cb = lower_case (m b)
      in if ca = cb \<and> ca \<noteq> 0 then rt_strcasecmp (a + 1) (b + 1) m else Some (ca - cb))"

text \<open>The loop of \<^verbatim>\<open>rt_strstr\<close>; the lengths are \<^verbatim>\<open>int\<close>s. The result is the address of the occurrence, \<open>None\<close> for \<^verbatim>\<open>RT_NULL\<close>.\<close>

function strstr_loop :: "u32 \<Rightarrow> u32 \<Rightarrow> int \<Rightarrow> int \<Rightarrow> mem \<Rightarrow> u32 option" where
  "strstr_loop s1 s2 l1 l2 m =
     (if l2 \<le> l1
      then if rt_memcmp s1 s2 (of_int l2) m = 0 then Some s1 else strstr_loop (s1 + 1) s2 (l1 - 1) l2 m
      else None)"
  by auto
termination
  by (relation "measure (\<lambda>(s1, s2, l1, l2, m). nat (l1 - l2 + 1))") auto

declare strstr_loop.simps [simp del]

definition rt_strstr :: "u32 \<Rightarrow> u32 \<Rightarrow> mem \<Rightarrow> u32 option option" where
  "rt_strstr s1 s2 m = do {
     l2 \<leftarrow> rt_strlen s2 m;
     if l2 = 0 then Some (Some s1)
     else do {
       l1 \<leftarrow> rt_strlen s1 m;
       Some (strstr_loop s1 s2 (sint l1) (sint l2) m) } }"

section \<open>What is meant\<close>

definition filled :: "u32 \<Rightarrow> u8 \<Rightarrow> u32 \<Rightarrow> mem \<Rightarrow> mem" where
  "filled s d n m = (\<lambda>a. if a - s < n then d else m a)"

definition copied :: "u32 \<Rightarrow> u32 \<Rightarrow> u32 \<Rightarrow> mem \<Rightarrow> mem" where
  "copied dst src n m = (\<lambda>a. if a - dst < n then m (src + (a - dst)) else m a)"

text \<open>Positions relative to a start: the first \<open>k\<close> and the ones behind them.\<close>

lemma less_split:
  fixes x k n :: u32
  assumes "k \<le> n"
  shows "x < n \<longleftrightarrow> x < k \<or> x - k < n - k"
proof (cases "k \<le> x")
  case True
  then show ?thesis using assms by (simp add: word_le_nat_alt word_less_nat_alt unat_sub) linarith
next
  case False
  then show ?thesis using assms by (simp add: not_le)
qed

lemma less_four:
  fixes x :: u32
  shows "x < 4 \<longleftrightarrow> x = 0 \<or> x = 1 \<or> x = 2 \<or> x = 3"
proof -
  have "unat x < 4 \<longleftrightarrow> unat x = 0 \<or> unat x = 1 \<or> unat x = 2 \<or> unat x = 3" by linarith
  then show ?thesis by (simp add: word_less_nat_alt word_unat_eq_iff)
qed

lemma less_one: "(x :: u32) < 1 \<longleftrightarrow> x = 0"
  by (simp add: word_less_nat_alt word_unat_eq_iff)

lemma diff_eq_iff: "(a :: u32) - s = k \<longleftrightarrow> a = s + k"
  by (auto simp: algebra_simps)

lemma filled_split: "k \<le> n \<Longrightarrow> filled (s + k) d (n - k) (filled s d k m) = filled s d n m"
  using less_split [of k n] by (auto simp: filled_def fun_eq_iff algebra_simps)

lemma store_filled:
  assumes "ucast w = d" "ucast (drop_bit 8 w) = d" "ucast (drop_bit 16 w) = d" "ucast (drop_bit 24 w) = d"
  shows "store32 a w m = filled a d 4 m"
  using assms by (auto simp: store32_def filled_def fun_eq_iff less_four diff_eq_iff)

lemma load32_bytes:
  "ucast (load32 a m) = m a" "ucast (drop_bit 8 (load32 a m)) = m (a + 1)"
  "ucast (drop_bit 16 (load32 a m)) = m (a + 2)" "ucast (drop_bit 24 (load32 a m)) = m (a + 3)"
  by (rule bit_eqI, auto simp: load32_def bit_simps dest: bit_imp_le_length)+

lemma store_copied: "store32 dst (load32 src m) m = copied dst src 4 m"
  by (auto simp: store32_def load32_bytes copied_def fun_eq_iff less_four diff_eq_iff)

text \<open>A copy from lower to higher addresses may overlap its source only if it does not start inside it.\<close>

abbreviation (input) copies_up :: "u32 \<Rightarrow> u32 \<Rightarrow> u32 \<Rightarrow> bool" where
  "copies_up dst src n \<equiv> dst = src \<or> n \<le> dst - src"

lemma copied_split:
  assumes k: "k \<le> n" and up: "copies_up dst src n"
  shows "copied (dst + k) (src + k) (n - k) (copied dst src k m) = copied dst src n m"
proof (rule ext)
  fix a
  define x where "x = a - dst"
  have a: "a = dst + x" and d: "a - (dst + k) = x - k" by (simp_all add: x_def)
  have "copied dst src k m (src + k + (x - k)) = m (src + x)" if "x - k < n - k"
  proof -
    have kx: "k \<le> x"
    proof (rule ccontr)
      assume "\<not> k \<le> x"
      then have "unat (x - k) = 2 ^ 32 - unat k + unat x"
        using unat_u32_less [of k] by (simp add: unat_sub_if' word_le_nat_alt)
      then show False using that k unat_u32_less [of n] by (simp add: word_less_nat_alt unat_sub word_le_nat_alt)
    qed
    have "\<not> src + x - dst < k"
    proof (cases "dst = src")
      case True
      then show ?thesis using kx by simp
    next
      case False
      then have "x < dst - src" using up that less_split [OF k, of x] by (simp add: word_less_nat_alt word_le_nat_alt)
      then have "x \<le> x - (dst - src)" using word_sub_le_iff [of x "dst - src"] by (meson linear not_le)
      moreover have "src + x - dst = x - (dst - src)" by simp
      ultimately have "k \<le> src + x - dst" using kx by (metis order_trans)
      then show ?thesis by (simp only: not_less)
    qed
    then show ?thesis by (simp add: copied_def)
  qed
  then show "copied (dst + k) (src + k) (n - k) (copied dst src k m) a = copied dst src n m a"
    using less_split [OF k, of x] by (auto simp: copied_def a)
qed

lemma copies_up_rest: "k \<le> n \<Longrightarrow> copies_up dst src n \<Longrightarrow> copies_up (dst + k) (src + k) (n - k)"
  by (auto simp: word_le_nat_alt unat_sub)

section \<open>The loops\<close>

lemma memset_bytes_filled: "memset_bytes a d n m = filled a d n m"
proof (induction a d n m rule: memset_bytes.induct)
  case (1 a d n m)
  show ?case
  proof (cases "n = 0")
    case True
    then show ?thesis by (subst memset_bytes.simps) (simp add: filled_def)
  next
    case False
    then have n: "1 \<le> n" by (simp add: word_le_nat_alt unat_gt_0 Suc_le_eq)
    have "m(a := d) = filled a d 1 m" by (auto simp: filled_def less_one fun_eq_iff)
    then show ?thesis using False 1 filled_split [OF n, of a d m] by (subst memset_bytes.simps) simp
  qed
qed

lemma memset_words_filled:
  assumes "\<And>a m. store32 a w m = filled a d 4 m"
  shows "case memset_words a w n m of (a', n', m') \<Rightarrow> filled a' d n' m' = filled a d n m"
  using assms
proof (induction a w n m rule: memset_words.induct)
  case (1 a w n m)
  then show ?case using filled_split [of 4 n a d m] by (subst memset_words.simps) (auto split: prod.splits)
qed

lemma memset_blocks_filled:
  assumes "\<And>a m. store32 a w m = filled a d 4 m"
  shows "case memset_blocks a w n m of (a', n', m') \<Rightarrow> filled a' d n' m' = filled a d n m"
  using assms
proof (induction a w n m rule: memset_blocks.induct)
  case (1 a w n m)
  have four: "filled (a + 12) d 4 (filled (a + 8) d 4 (filled (a + 4) d 4 (filled a d 4 m))) = filled a d 16 m"
    using filled_split [of 4 16 a d m] filled_split [of 4 12 "a + 4" d "filled a d 4 m"]
      filled_split [of 4 8 "a + 8" d "filled (a + 4) d 4 (filled a d 4 m)"] by (simp add: add.assoc)
  show ?case
  proof (cases "16 \<le> n")
    case True
    let ?m4 = "filled (a + 12) d 4 (filled (a + 8) d 4 (filled (a + 4) d 4 (filled a d 4 m)))"
    have "case memset_blocks (a + 16) w (n - 16) ?m4 of (a', n', m') \<Rightarrow> filled a' d n' m' = filled (a + 16) d (n - 16) ?m4"
      using 1 True by simp
    then show ?thesis using True filled_split [OF True, of a d m] four 1(2) by (subst memset_blocks.simps) (simp split: prod.splits)
  next
    case False
    then show ?thesis by (subst memset_blocks.simps) simp
  qed
qed

lemma copy_up_copied: "copies_up dst src n \<Longrightarrow> copy_up dst src n m = copied dst src n m"
proof (induction dst src n m rule: copy_up.induct)
  case (1 dst src n m)
  show ?case
  proof (cases "n = 0")
    case True
    then show ?thesis by (subst copy_up.simps) (simp add: copied_def)
  next
    case False
    then have n: "1 \<le> n" by (simp add: word_le_nat_alt unat_gt_0 Suc_le_eq)
    have "m(dst := m src) = copied dst src 1 m" by (auto simp: copied_def less_one fun_eq_iff)
    then show ?thesis using False 1 copied_split [OF n 1(2), of m] copies_up_rest [OF n 1(2)] by (subst copy_up.simps) simp
  qed
qed

lemma copy_words_copied:
  assumes "copies_up dst src n"
  shows "case copy_words dst src n m of (dst', src', n', m') \<Rightarrow> copies_up dst' src' n' \<and> copied dst' src' n' m' = copied dst src n m"
  using assms
proof (induction dst src n m rule: copy_words.induct)
  case (1 dst src n m)
  show ?case
  proof (cases "4 \<le> n")
    case True
    then show ?thesis using 1 copied_split [OF True 1(2), of m] copies_up_rest [OF True 1(2)]
      by (subst copy_words.simps) (simp add: store_copied split: prod.splits)
  next
    case False
    then show ?thesis using 1(2) by (subst copy_words.simps) simp
  qed
qed

lemma copied_four:
  assumes "16 \<le> n" and "copies_up dst src n"
  shows "copied (dst + 12) (src + 12) 4 (copied (dst + 8) (src + 8) 4 (copied (dst + 4) (src + 4) 4 (copied dst src 4 m))) = copied dst src 16 m"
proof -
  have up: "copies_up dst src 16" using assms by (auto intro: order_trans)
  have up4: "copies_up (dst + 4) (src + 4) 12" and up8: "copies_up (dst + 8) (src + 8) 8"
    using copies_up_rest [of 4 16 dst src] copies_up_rest [of 8 16 dst src] up by auto
  show ?thesis
    using copied_split [of 4 16 dst src m] copied_split [of 4 12 "dst + 4" "src + 4" "copied dst src 4 m"]
      copied_split [of 4 8 "dst + 8" "src + 8" "copied (dst + 4) (src + 4) 4 (copied dst src 4 m)"] up up4 up8 by (simp add: add.assoc)
qed

lemma copy_blocks_copied:
  assumes "copies_up dst src n"
  shows "case copy_blocks dst src n m of (dst', src', n', m') \<Rightarrow> copies_up dst' src' n' \<and> copied dst' src' n' m' = copied dst src n m"
  using assms
proof (induction dst src n m rule: copy_blocks.induct)
  case (1 dst src n m)
  show ?case
  proof (cases "16 \<le> n")
    case True
    then show ?thesis using 1 copied_split [OF True 1(2), of m] copies_up_rest [OF True 1(2)] copied_four [OF True 1(2), of m]
      by (subst copy_blocks.simps) (simp add: store_copied split: prod.splits)
  next
    case False
    then show ?thesis using 1(2) by (subst copy_blocks.simps) simp
  qed
qed

lemma copied_last:
  assumes n: "n \<noteq> 0" and down: "dst = src \<or> n \<le> src - dst"
  shows "copied dst src (n - 1) (m(dst + (n - 1) := m (src + (n - 1)))) = copied dst src n m"
proof (rule ext)
  fix a
  define x where "x = a - dst"
  have a: "a = dst + x" by (simp add: x_def)
  have less: "x < n \<longleftrightarrow> x < n - 1 \<or> x = n - 1"
  proof -
    have "unat (n - 1) = unat n - 1" using n by (simp add: unat_gt_0 unat_sub word_le_nat_alt Suc_le_eq)
    moreover have "0 < unat n" using n by (simp add: unat_gt_0)
    ultimately show ?thesis unfolding word_less_nat_alt word_unat_eq_iff by linarith
  qed
  have "src + x \<noteq> dst + (n - 1)" if x: "x < n - 1"
  proof
    assume "src + x = dst + (n - 1)"
    then have "src = dst + (n - 1) - x" by (simp only: eq_diff_eq)
    then have e: "src - dst = (n - 1) - x" by simp
    have "(n - 1) - x \<noteq> 0" using x by auto
    then have "n \<le> (n - 1) - x" using down e by auto
    moreover have "unat ((n - 1) - x) = unat n - 1 - unat x" using x n by (simp add: unat_sub word_le_nat_alt word_less_nat_alt unat_gt_0 Suc_le_eq)
    moreover have "0 < unat n" using n by (simp add: unat_gt_0)
    ultimately show False unfolding word_le_nat_alt by linarith
  qed
  then show "copied dst src (n - 1) (m(dst + (n - 1) := m (src + (n - 1)))) a = copied dst src n m a"
    using less by (auto simp: copied_def a)
qed

lemma copy_down_copied:
  "tmp - n = s - n \<or> n \<le> (s - n) - (tmp - n) \<Longrightarrow> copy_down tmp s n m = copied (tmp - n) (s - n) n m"
proof (induction tmp s n m rule: copy_down.induct)
  case (1 tmp s n m)
  show ?case
  proof (cases "n = 0")
    case True
    then show ?thesis by (subst copy_down.simps) (simp add: copied_def)
  next
    case False
    let ?dst = "tmp - n" and ?src = "s - n"
    have e: "tmp - 1 - (n - 1) = ?dst" "s - 1 - (n - 1) = ?src" "tmp - 1 = ?dst + (n - 1)" "s - 1 = ?src + (n - 1)" by simp_all
    have "n - 1 \<le> n" using False by (simp add: word_le_nat_alt unat_sub unat_gt_0 Suc_le_eq)
    then have "?dst = ?src \<or> n - 1 \<le> ?src - ?dst" using 1(2) by (auto intro: order_trans)
    then have "copy_down (tmp - 1) (s - 1) (n - 1) (m(tmp - 1 := m (s - 1))) = copied ?dst ?src (n - 1) (m(tmp - 1 := m (s - 1)))"
      using 1(1) [OF False] unfolding e(1,2) by (simp add: fun_upd_def)
    also have "\<dots> = copied ?dst ?src n m" unfolding e(3,4) by (rule copied_last [OF False 1(2)])
    finally show ?thesis using False by (subst copy_down.simps) simp
  qed
qed

lemma rt_memcmp_zero: "rt_memcmp cs ct n m = 0 \<longleftrightarrow> (\<forall>i<n. m (cs + i) = m (ct + i))"
proof (induction cs ct n m rule: rt_memcmp.induct)
  case (1 cs ct n m)
  show ?case
  proof (cases "n = 0")
    case True
    then show ?thesis by (subst rt_memcmp.simps) simp
  next
    case False
    then have "1 \<le> n" by (simp add: word_le_nat_alt unat_gt_0 Suc_le_eq)
    then have split: "i < n \<longleftrightarrow> i = 0 \<or> i - 1 < n - 1" for i using less_split [of 1 n i] less_one by simp
    have "(\<forall>i<n. m (cs + i) = m (ct + i)) \<longleftrightarrow> m cs = m ct \<and> (\<forall>j<n - 1. m (cs + 1 + j) = m (ct + 1 + j))"
    proof safe
      fix j assume "\<forall>i<n. m (cs + i) = m (ct + i)" "j < n - 1"
      then show "m (cs + 1 + j) = m (ct + 1 + j)" using split [of "1 + j"] by (simp add: add.assoc)
    next
      fix i assume "m cs = m ct" "\<forall>j<n - 1. m (cs + 1 + j) = m (ct + 1 + j)" "i < n"
      then show "m (cs + i) = m (ct + i)" using split [of i] by (auto dest: spec [of _ "i - 1"])
    qed (use split [of 0] in auto)
    moreover have "uint (m cs) - uint (m ct) = 0 \<longleftrightarrow> m cs = m ct" by (simp add: word_uint_eq_iff)
    ultimately show ?thesis using False 1 by (subst rt_memcmp.simps) (simp add: Let_def)
  qed
qed

section \<open>Properties\<close>

text \<open>\<^verbatim>\<open>rt_memset\<close> with its word-wise loops fills exactly the \<open>count\<close> bytes from \<open>s\<close> on with the low byte of \<open>c\<close>, for every alignment,
  length and value, and writes nothing else.\<close>

theorem rt_memset_equiv: "rt_memset s c count m = filled s (ucast c) count m"
proof -
  define d where "d = c AND 0xff"
  let ?b = "(push_bit 8 d) OR d"
  let ?w = "?b OR push_bit 16 ?b"
  have "bit (0xff :: u32) n \<longleftrightarrow> n < 8" for n
    using bit_mask_iff [of 8 n, where 'a = u32] by (auto simp: mask_eq_exp_minus_1)
  then have bd: "bit d n \<longleftrightarrow> n < 8 \<and> bit c n" for n unfolding d_def bit_and_iff by blast
  have d: "(ucast d :: u8) = ucast c" by (rule bit_eqI) (auto simp: bit_simps bd)
  have bytes: "ucast ?w = (ucast c :: u8)" "ucast (drop_bit 8 ?w) = (ucast c :: u8)" "ucast (drop_bit 16 ?w) = (ucast c :: u8)"
    "ucast (drop_bit 24 ?w) = (ucast c :: u8)"
    by (rule bit_eqI, auto simp: bit_simps bd)+
  note st = store_filled [OF bytes]
  obtain a1 n1 m1 where 1: "memset_blocks s ?w count m = (a1, n1, m1)" by (metis prod_cases3)
  obtain a2 n2 m2 where 2: "memset_words a1 ?w n1 m1 = (a2, n2, m2)" by (metis prod_cases3)
  have "filled a2 (ucast c) n2 m2 = filled s (ucast c) count m"
    using memset_blocks_filled [OF st, of s count m] memset_words_filled [OF st, of a1 n1 m1] 1 2 by simp
  then show ?thesis unfolding rt_memset_def d_def [symmetric] Let_def 1 prod.case 2 by (simp add: memset_bytes_filled d)
qed

text \<open>C39. \<^verbatim>\<open>rt_memcpy\<close> with its block-wise, word-wise and byte-wise loops copies exactly the \<open>count\<close> bytes, for every alignment and
  length, unless the destination starts inside the source.\<close>

theorem rt_memcpy_equiv:
  assumes "dst = src \<or> count \<le> dst - src"
  shows "rt_memcpy dst src count m = copied dst src count m"
proof -
  obtain d1 s1 n1 m1 where 1: "copy_blocks dst src count m = (d1, s1, n1, m1)" by (metis prod_cases4)
  obtain d2 s2 n2 m2 where 2: "copy_words d1 s1 n1 m1 = (d2, s2, n2, m2)" by (metis prod_cases4)
  have "copies_up d1 s1 n1" "copied d1 s1 n1 m1 = copied dst src count m" using copy_blocks_copied [OF assms, of m] 1 by simp_all
  moreover from this have "copies_up d2 s2 n2" "copied d2 s2 n2 m2 = copied d1 s1 n1 m1" using copy_words_copied [of d1 s1 n1 m1] 2 by simp_all
  ultimately show ?thesis using 1 2 copy_up_copied assms by (simp add: rt_memcpy_def)
qed

text \<open>\<^verbatim>\<open>rt_memmove\<close> copies the \<open>n\<close> bytes whether the areas overlap or not, as long as neither reaches the end of the address space.\<close>

theorem rt_memmove_correct:
  assumes "unat src + unat n < 2 ^ 32" and "unat dest + unat n < 2 ^ 32"
  shows "rt_memmove dest src n m = copied dest src n m"
proof (cases "src < dest \<and> dest < src + n")
  case True
  have "unat (src - dest) = 2 ^ 32 - (unat dest - unat src)"
    using True by (simp add: unat_sub_if' word_less_nat_alt word_le_nat_alt)
  then have "n \<le> src - dest" using assms by (simp add: word_le_nat_alt)
  then show ?thesis using True copy_down_copied [of "dest + n" n "src + n" m] by (simp add: rt_memmove_def)
next
  case False
  have s: "unat (src + n) = unat src + unat n" using assms(1) by (simp add: unat_plus_if')
  have "dest = src \<or> n \<le> dest - src"
  proof (cases "src \<le> dest")
    case True
    then show ?thesis using False s by (auto simp: word_le_nat_alt word_less_nat_alt unat_sub word_unat_eq_iff)
  next
    case f: False
    then have "unat (dest - src) = 2 ^ 32 - (unat src - unat dest)"
      by (simp add: unat_sub_if' word_le_nat_alt)
    moreover have "unat n \<le> 2 ^ 32 - (unat src - unat dest)" using assms(1) by linarith
    ultimately show ?thesis by (simp add: word_le_nat_alt)
  qed
  then show ?thesis unfolding rt_memmove_def if_not_P [OF False] by (rule copy_up_copied)
qed

section \<open>Strings in memory\<close>

fun cstr :: "mem \<Rightarrow> u32 \<Rightarrow> u8 list \<Rightarrow> bool" where
  "cstr m s [] \<longleftrightarrow> m s = 0"
| "cstr m s (x # xs) \<longleftrightarrow> m s = x \<and> x \<noteq> 0 \<and> cstr m (s + 1) xs"

lemma cstr_nth: "cstr m s xs \<Longrightarrow> i < length xs \<Longrightarrow> m (s + of_nat i) = xs ! i"
proof (induction xs arbitrary: s i)
  case (Cons x xs)
  then show ?case by (cases i) (auto simp: add.assoc dest: Cons.IH [of "s + 1"])
qed simp

lemma rt_strlen_cstr:
  assumes "cstr m s xs"
  shows "rt_strlen s m = Some (of_nat (length xs))"
proof -
  have "strlen_loop s m = Some (s + of_nat (length xs))"
    using assms by (induction xs arbitrary: s) (subst strlen_loop.simps; simp add: add.assoc)+
  then show ?thesis by (simp add: rt_strlen_def)
qed

lemma rt_memcmp_prefix:
  assumes "cstr m s1 xs" and "cstr m s2 ys" and "length ys \<le> length xs" and "length ys < 2 ^ 31"
  shows "rt_memcmp s1 s2 (of_nat (length ys)) m = 0 \<longleftrightarrow> prefix ys xs"
proof -
  let ?n = "of_nat (length ys) :: u32"
  have n: "unat ?n = length ys" using assms(4) by (intro of_nat_inverse [OF refl]) simp
  have "(\<forall>i<?n. m (s1 + i) = m (s2 + i)) \<longleftrightarrow> (\<forall>k<length ys. xs ! k = ys ! k)"
  proof safe
    fix k assume *: "\<forall>i<?n. m (s1 + i) = m (s2 + i)" "k < length ys"
    then have "unat (of_nat k :: u32) = k" using assms(4) by (intro of_nat_inverse [OF refl]) simp
    then have "of_nat k < ?n" using * n by (simp add: word_less_nat_alt)
    then show "xs ! k = ys ! k" using * assms cstr_nth [OF assms(1), of k] cstr_nth [OF assms(2), of k] by simp
  next
    fix i assume *: "\<forall>k<length ys. xs ! k = ys ! k" "i < ?n"
    then have "unat i < length ys" using n by (simp add: word_less_nat_alt)
    then show "m (s1 + i) = m (s2 + i)" using * assms(3) cstr_nth [OF assms(1), of "unat i"] cstr_nth [OF assms(2), of "unat i"] by simp
  qed
  also have "\<dots> \<longleftrightarrow> take (length ys) xs = ys" using assms(3) by (auto simp: list_eq_iff_nth_eq)
  finally show ?thesis by (simp add: rt_memcmp_zero prefix_def) (metis append_take_drop_id append_eq_conv_conj)
qed

text \<open>The first occurrence of one list in another.\<close>

fun find_sub :: "'a list \<Rightarrow> 'a list \<Rightarrow> nat option" where
  "find_sub ys [] = (if ys = [] then Some 0 else None)"
| "find_sub ys (x # xs) = (if prefix ys (x # xs) then Some 0 else map_option Suc (find_sub ys xs))"

lemma find_sub_short: "length xs < length ys \<Longrightarrow> find_sub ys xs = None"
  by (induction xs) (auto dest: prefix_length_le)

lemma strstr_loop_finds:
  assumes "cstr m s2 ys" and "ys \<noteq> []" and "length ys < 2 ^ 31" and "cstr m s1 xs"
  shows "strstr_loop s1 s2 (int (length xs)) (int (length ys)) m = map_option (\<lambda>k. s1 + of_nat k) (find_sub ys xs)"
  using assms(4)
proof (induction xs arbitrary: s1)
  case Nil
  then show ?case using assms(2) by (subst strstr_loop.simps) simp
next
  case (Cons x xs)
  show ?case
  proof (cases "length ys \<le> length (x # xs)")
    case True
    have "rt_memcmp s1 s2 (of_nat (length ys)) m = 0 \<longleftrightarrow> prefix ys (x # xs)" by (rule rt_memcmp_prefix [OF Cons.prems assms(1) True assms(3)])
    moreover have "strstr_loop (s1 + 1) s2 (int (length xs)) (int (length ys)) m = map_option (\<lambda>k. s1 + 1 + of_nat k) (find_sub ys xs)"
      using Cons by simp
    ultimately show ?thesis using True assms(2)
      by (subst strstr_loop.simps) (auto simp: option.map_comp comp_def add.assoc)
  next
    case False
    then show ?thesis using find_sub_short [of "x # xs" ys] by (subst strstr_loop.simps) auto
  qed
qed

text \<open>\<^verbatim>\<open>rt_strstr\<close> returns and finds the first occurrence: it equals the reference search on the two strings, for strings shorter than \<open>2\<^sup>3\<^sup>1\<close>.\<close>

theorem rt_strstr_equiv:
  assumes "cstr m s1 xs" and "cstr m s2 ys" and "length xs < 2 ^ 31" and "length ys < 2 ^ 31"
  shows "rt_strstr s1 s2 m = Some (map_option (\<lambda>k. s1 + of_nat k) (find_sub ys xs))"
proof (cases "ys = []")
  case True
  then show ?thesis using rt_strlen_cstr [OF assms(2)] by (cases xs) (simp_all add: rt_strstr_def)
next
  case False
  have n: "unat (of_nat (length ys) :: u32) = length ys" using assms(4) by (intro of_nat_inverse [OF refl]) simp
  then have "of_nat (length ys) \<noteq> (0 :: u32)" using False by (auto simp: word_unat_eq_iff)
  moreover have "sint (of_nat k :: u32) = int k" if "k < 2 ^ 31" for k
    using that by (simp add: signed_of_nat signed_take_bit_int_eq_self)
  ultimately show ?thesis
    using rt_strlen_cstr [OF assms(1)] rt_strlen_cstr [OF assms(2)] strstr_loop_finds [OF assms(2) False assms(4,1)] assms(3,4)
    by (simp add: rt_strstr_def)
qed

text \<open>\<^verbatim>\<open>rt_strcmp\<close> returns; it returns zero exactly for equal strings, and its sign is that of the first difference.\<close>

theorem rt_strcmp_correct:
  assumes "cstr m cs xs" and "cstr m ct ys"
  shows "\<exists>r. rt_strcmp cs ct m = Some r \<and> (r = 0 \<longleftrightarrow> xs = ys) \<and> (r < 0 \<longleftrightarrow> ord_class.lexordp xs ys)"
  using assms
proof (induction xs arbitrary: cs ct ys)
  case Nil
  then show ?case by (subst rt_strcmp.simps) (cases ys; auto simp: word_less_def unsigned_eq_0_iff word_neq_0_conv)
next
  case (Cons x xs)
  show ?case
  proof (cases ys)
    case Nil
    then show ?thesis using Cons.prems by (subst rt_strcmp.simps) (auto simp: word_uint_eq_iff)
  next
    case (Cons y ys')
    show ?thesis
    proof (cases "x = y")
      case True
      then have "rt_strcmp cs ct m = rt_strcmp (cs + 1) (ct + 1) m" using Cons.prems Cons by (subst rt_strcmp.simps) simp
      then show ?thesis using Cons.IH [of "cs + 1" "ct + 1" ys'] Cons.prems Cons True by auto
    next
      case False
      then show ?thesis using Cons.prems Cons by (subst rt_strcmp.simps) (auto simp: word_uint_eq_iff word_less_def)
    qed
  qed
qed

section \<open>Witnesses\<close>

definition demo_mem :: mem where
  "demo_mem = (\<lambda>a. 0)(16 := 97, 17 := 98, 18 := 98, 19 := 99, 32 := 98, 33 := 99)"

theorem rt_memcpy_equiv_witness: "rt_memcpy 64 16 20 demo_mem = copied 64 16 20 demo_mem"
  by (rule rt_memcpy_equiv) simp

theorem rt_memmove_correct_witness: "rt_memmove 17 16 3 demo_mem = copied 17 16 3 demo_mem"
  by (rule rt_memmove_correct) simp_all

theorem rt_strstr_equiv_witness: "rt_strstr 16 32 demo_mem = Some (Some 18)"
  using rt_strstr_equiv [of demo_mem 16 "[97, 98, 98, 99]" 32 "[98, 99]"] by (simp add: demo_mem_def)

end
