(* ===== verification/KPrintf.thy ===== *)
theory KPrintf
  imports Prelude
begin

text \<open>
  The formatted output of \<^verbatim>\<open>rt-thread/src/kservice.c\<close>: \<^verbatim>\<open>print_number\<close>, \<^verbatim>\<open>rt_vsnprintf\<close> and the functions around them, as
  configured (\<^verbatim>\<open>RT_PRINTF_PRECISION\<close> is set, \<^verbatim>\<open>RT_PRINTF_SPECIAL\<close> and \<^verbatim>\<open>RT_PRINTF_LONGLONG\<close> are not). A C string is the list of its characters
  without the final zero. The output buffer is a function from offsets to characters; the pointer \<^verbatim>\<open>str\<close> is an offset that goes on
  behind the end of the buffer, \<^verbatim>\<open>end\<close> the size of the buffer.
\<close>

section \<open>Characters into the buffer\<close>

type_synonym sink = "nat \<times> (nat \<Rightarrow> char)"

definition emit :: "nat \<Rightarrow> char \<Rightarrow> sink \<Rightarrow> sink" where
  "emit en c st = (let (str, b) = st in (Suc str, if str < en then b(str := c) else b))"

fun emits :: "nat \<Rightarrow> char list \<Rightarrow> sink \<Rightarrow> sink" where
  "emits en [] st = st"
| "emits en (c # cs) st = emits en cs (emit en c st)"

text \<open>The loop \<^verbatim>\<open>while (size-- > 0)\<close> that pads with \<open>c\<close>, and the value it leaves in \<^verbatim>\<open>size\<close>.\<close>

definition pad :: "nat \<Rightarrow> char \<Rightarrow> int \<Rightarrow> sink \<Rightarrow> int \<times> sink" where
  "pad en c sz st = (if 0 < sz then - 1 else sz - 1, emits en (replicate (nat sz) c) st)"

section \<open>Numbers\<close>

abbreviation (input) ZEROPAD :: u8 where "ZEROPAD \<equiv> 1"
abbreviation (input) SIGN :: u8 where "SIGN \<equiv> 2"
abbreviation (input) PLUS :: u8 where "PLUS \<equiv> 4"
abbreviation (input) SPACE :: u8 where "SPACE \<equiv> 8"
abbreviation (input) LEFT :: u8 where "LEFT \<equiv> 16"
abbreviation (input) SPECIAL :: u8 where "SPECIAL \<equiv> 32"
abbreviation (input) LARGE :: u8 where "LARGE \<equiv> 64"

definition divide_num :: "u32 \<Rightarrow> nat \<Rightarrow> nat \<times> u32" where
  "divide_num n base = (if base = 10 then (unat (n mod 10), n div 10) else (unat (n mod 16), n div 16))"

definition isdigit :: "char \<Rightarrow> bool" where
  "isdigit c \<longleftrightarrow> (of_char c - 48 :: u32) < 10"

fun skip_atoi :: "string \<Rightarrow> int \<Rightarrow> int \<times> string" where
  "skip_atoi [] i = (i, [])"
| "skip_atoi (c # cs) i = (if isdigit c then skip_atoi cs (i * 10 + of_char c - 48) else (i, c # cs))"

function tmp_digits :: "u32 \<Rightarrow> nat \<Rightarrow> string \<Rightarrow> string" where
  "tmp_digits num base digits = (if num = 0 then [] else
     let (r, num') = divide_num num base in digits ! r # tmp_digits num' base digits)"
  by auto
termination
proof (relation "measure (\<lambda>(num, base, digits). unat num)")
  fix num :: u32 and base digits z r num'
  assume "num \<noteq> 0" "z = divide_num num base" "(r, num') = z"
  then show "((num', base, digits), num, base, digits) \<in> measure (\<lambda>(num, base, digits). unat num)"
    by (auto simp: divide_num_def unat_div unat_gt_0 split: if_splits)
qed simp

declare tmp_digits.simps [simp del]

definition small_digits :: string where "small_digits = ''0123456789abcdef''"
definition large_digits :: string where "large_digits = ''0123456789ABCDEF''"

text \<open>\<^verbatim>\<open>tmp\<close>: the digits, the least significant one first.\<close>

definition number_tmp :: "u32 \<Rightarrow> nat \<Rightarrow> string \<Rightarrow> string" where
  "number_tmp num base digits = (if num = 0 then ''0'' else tmp_digits num base digits)"

definition number_sign :: "u8 \<Rightarrow> u32 \<Rightarrow> char option \<times> u32" where
  "number_sign ty num =
     (if ty AND SIGN \<noteq> 0
      then if sint num < 0 then (Some CHR ''-'', - num)
           else (if ty AND PLUS \<noteq> 0 then Some CHR ''+'' else if ty AND SPACE \<noteq> 0 then Some CHR '' '' else None, num)
      else (None, num))"

text \<open>The part of \<^verbatim>\<open>print_number\<close> that writes: \<open>zeropad\<close> and \<open>left\<close> are the tests of the flags, \<open>tmp\<close> the digits.\<close>

definition layout :: "nat \<Rightarrow> bool \<Rightarrow> bool \<Rightarrow> char option \<Rightarrow> string \<Rightarrow> int \<Rightarrow> int \<Rightarrow> sink \<Rightarrow> sink" where
  "layout en zeropad left sign tmp s precision st =
     (let c = (if zeropad then CHR ''0'' else CHR '' '');
          i = int (length tmp);
          precision1 = (if precision < i then i else precision);
          size1 = s - precision1;
          (size2, st1) = (if \<not> (zeropad \<or> left)
             then pad en CHR '' '' (if sign \<noteq> None \<and> 0 < size1 then size1 - 1 else size1) st else (size1, st));
          (size3, st2) = (case sign of None \<Rightarrow> (size2, st1) | Some g \<Rightarrow> (size2 - 1, emit en g st1));
          (size4, st3) = (if \<not> left then pad en c size3 st2 else (size3, st2));
          st4 = emits en (replicate (nat (precision1 - i)) CHR ''0'') st3;
          st5 = (if precision \<noteq> 0 then emits en (rev tmp) st4 else st4);
          (size5, st6) = pad en CHR '' '' size4 st5
      in st6)"

definition print_number :: "nat \<Rightarrow> u32 \<Rightarrow> nat \<Rightarrow> int \<Rightarrow> int \<Rightarrow> u8 \<Rightarrow> sink \<Rightarrow> sink" where
  "print_number en num base s precision ty0 st =
     (let digits = (if ty0 AND LARGE \<noteq> 0 then large_digits else small_digits);
          ty = (if ty0 AND LEFT \<noteq> 0 then ty0 AND NOT ZEROPAD else ty0);
          (sign, num1) = number_sign ty num;
          tmp = number_tmp num1 base digits
      in layout en (ty AND ZEROPAD \<noteq> 0) (ty AND LEFT \<noteq> 0) sign tmp s precision st)"

section \<open>Formats\<close>

text \<open>The arguments: 32-bit numbers, and strings (\<open>StrArg None\<close> is \<^verbatim>\<open>RT_NULL\<close>). Reading an argument of another kind, or one that is missing, is \<open>None\<close>.\<close>

datatype printf_arg = IntArg u32 | StrArg "string option"

fun next_int :: "printf_arg list \<Rightarrow> (u32 \<times> printf_arg list) option" where
  "next_int (IntArg n # args) = Some (n, args)"
| "next_int _ = None"

fun next_str :: "printf_arg list \<Rightarrow> (string option \<times> printf_arg list) option" where
  "next_str (StrArg s # args) = Some (s, args)"
| "next_str _ = None"

fun parse_flags :: "string \<Rightarrow> u8 \<Rightarrow> u8 \<times> string" where
  "parse_flags [] flags = (flags, [])"
| "parse_flags (c # cs) flags =
     (if c = CHR ''-'' then parse_flags cs (flags OR LEFT)
      else if c = CHR ''+'' then parse_flags cs (flags OR PLUS)
      else if c = CHR '' '' then parse_flags cs (flags OR SPACE)
      else if c = CHR ''#'' then parse_flags cs (flags OR SPECIAL)
      else if c = CHR ''0'' then parse_flags cs (flags OR ZEROPAD)
      else (flags, c # cs))"

definition parse_width :: "string \<Rightarrow> u8 \<Rightarrow> printf_arg list \<Rightarrow> (int \<times> u8 \<times> string \<times> printf_arg list) option" where
  "parse_width fmt flags args = (case fmt of
       [] \<Rightarrow> Some (- 1, flags, [], args)
     | c # cs \<Rightarrow>
         if isdigit c then (let (w, r) = skip_atoi (c # cs) 0 in Some (w, flags, r, args))
         else if c = CHR ''*''
         then do {
           (n, args1) \<leftarrow> next_int args;
           Some (if sint n < 0 then (- sint n, flags OR LEFT, cs, args1) else (sint n, flags, cs, args1)) }
         else Some (- 1, flags, c # cs, args))"

definition parse_precision :: "string \<Rightarrow> printf_arg list \<Rightarrow> (int \<times> string \<times> printf_arg list) option" where
  "parse_precision fmt args = (case fmt of
       CHR ''.'' # cs \<Rightarrow> do {
         (p, r, args1) \<leftarrow> (case cs of
              [] \<Rightarrow> Some (- 1, [], args)
            | d # ds \<Rightarrow>
                if isdigit d then (let (p, r) = skip_atoi (d # ds) 0 in Some (p, r, args))
                else if d = CHR ''*'' then do { (n, args1) \<leftarrow> next_int args; Some (sint n, ds, args1) }
                else Some (- 1, d # ds, args));
         Some (if p < 0 then 0 else p, r, args1) }
     | _ \<Rightarrow> Some (- 1, fmt, args))"

definition parse_qualifier :: "string \<Rightarrow> char option \<times> string" where
  "parse_qualifier fmt = (case fmt of
       [] \<Rightarrow> (None, [])
     | c # cs \<Rightarrow> if c = CHR ''h'' \<or> c = CHR ''l'' then (Some c, cs) else (None, c # cs))"

definition format_char :: "nat \<Rightarrow> u32 \<Rightarrow> int \<Rightarrow> u8 \<Rightarrow> sink \<Rightarrow> sink" where
  "format_char en n width flags st =
     (let (w, st1) = (if flags AND LEFT = 0 then (let k = width - 1 in (if 0 < k then 0 else k, emits en (replicate (nat k) CHR '' '') st)) else (width, st));
          st2 = emit en (char_of (unat n)) st1
      in emits en (replicate (nat (w - 1)) CHR '' '') st2)"

definition format_string :: "nat \<Rightarrow> string option \<Rightarrow> int \<Rightarrow> int \<Rightarrow> u8 \<Rightarrow> sink \<Rightarrow> sink" where
  "format_string en s width precision flags st =
     (let s1 = (case s of None \<Rightarrow> ''(NULL)'' | Some t \<Rightarrow> t);
          len0 = int (length s1);
          len = (if 0 < precision \<and> precision < len0 then precision else len0);
          (w, st1) = (if flags AND LEFT = 0
             then (if len < width then len - 1 else width - 1, emits en (replicate (nat (width - len)) CHR '' '') st) else (width, st));
          st2 = emits en (take (nat len) s1) st1
      in emits en (replicate (nat (w - len)) CHR '' '') st2)"

text \<open>The argument of an integer format: the qualifier says how much of it counts.\<close>

definition format_num :: "char option \<Rightarrow> u8 \<Rightarrow> u32 \<Rightarrow> u32" where
  "format_num qualifier flags n =
     (if qualifier = Some CHR ''h'' then if flags AND SIGN \<noteq> 0 then scast (ucast n :: u16) else ucast (ucast n :: u16) else n)"

text \<open>The \<^verbatim>\<open>switch\<close> over the conversion character.\<close>

definition format_int :: "nat \<Rightarrow> char \<Rightarrow> u32 \<Rightarrow> int \<Rightarrow> u8 \<Rightarrow> int \<Rightarrow> char option \<Rightarrow> sink \<Rightarrow> sink" where
  "format_int en c n width flags precision qualifier st =
     (let base = (if c = CHR ''o'' then 8 else if c = CHR ''X'' \<or> c = CHR ''x'' then 16 else 10);
          flags1 = (if c = CHR ''X'' then flags OR LARGE else if c = CHR ''d'' \<or> c = CHR ''i'' then flags OR SIGN else flags)
      in print_number en (format_num qualifier flags1 n) base width precision flags1 st)"

definition format_pointer :: "nat \<Rightarrow> u32 \<Rightarrow> int \<Rightarrow> u8 \<Rightarrow> int \<Rightarrow> sink \<Rightarrow> sink" where
  "format_pointer en n width flags precision st =
     (if width = - 1 then print_number en n 16 8 precision (flags OR ZEROPAD) st else print_number en n 16 width precision flags st)"

definition format_item :: "nat \<Rightarrow> char \<Rightarrow> printf_arg list \<Rightarrow> int \<Rightarrow> u8 \<Rightarrow> int \<Rightarrow> char option \<Rightarrow> sink \<Rightarrow> (printf_arg list \<times> sink) option" where
  "format_item en c args width flags precision qualifier st =
     (if c = CHR ''c'' then do { (n, args1) \<leftarrow> next_int args; Some (args1, format_char en n width flags st) }
      else if c = CHR ''s'' then do { (s, args1) \<leftarrow> next_str args; Some (args1, format_string en s width precision flags st) }
      else if c = CHR ''p'' then do { (n, args1) \<leftarrow> next_int args; Some (args1, format_pointer en n width flags precision st) }
      else if c = CHR ''%'' then Some (args, emit en CHR ''%'' st)
      else if c \<in> {CHR ''o'', CHR ''X'', CHR ''x'', CHR ''d'', CHR ''i'', CHR ''u''}
      then do { (n, args1) \<leftarrow> next_int args; Some (args1, format_int en c n width flags precision qualifier st) }
      else Some (args, emit en c (emit en CHR ''%'' st)))"

text \<open>One conversion; \<open>fmt\<close> starts behind the \<^verbatim>\<open>%\<close>. The result is the rest of the format, the rest of the arguments and the buffer.\<close>

definition convert :: "nat \<Rightarrow> string \<Rightarrow> printf_arg list \<Rightarrow> sink \<Rightarrow> (string \<times> printf_arg list \<times> sink) option" where
  "convert en fmt0 args0 st = do {
     let (flags0, fmt1) = parse_flags fmt0 0;
     (width, flags, fmt2, args1) \<leftarrow> parse_width fmt1 flags0 args0;
     (precision, fmt3, args2) \<leftarrow> parse_precision fmt2 args1;
     let (qualifier, fmt4) = parse_qualifier fmt3;
     case fmt4 of
       [] \<Rightarrow> Some ([], args2, emit en CHR ''%'' st)
     | c # cs \<Rightarrow> do {
         (args3, st1) \<leftarrow> format_item en c args2 width flags precision qualifier st;
         Some (cs, args3, st1) } }"

text \<open>The rest of the format never gets longer, so that the loop over the format ends.\<close>

lemma skip_atoi_shorter: "length (snd (skip_atoi cs i)) \<le> length cs"
  by (induction cs arbitrary: i) (auto intro: le_SucI)

lemma parse_flags_shorter: "length (snd (parse_flags cs f)) \<le> length cs"
  by (induction cs arbitrary: f) (auto intro: le_SucI)

lemma parse_width_shorter: "parse_width fmt flags args = Some (w, f, r, a) \<Longrightarrow> length r \<le> length fmt"
  using skip_atoi_shorter [of fmt 0] by (auto simp: parse_width_def split: list.splits if_splits prod.splits elim!: bind_Some_elim)

lemma parse_precision_shorter: "parse_precision fmt args = Some (p, r, a) \<Longrightarrow> length r \<le> length fmt"
  using skip_atoi_shorter [of "tl fmt" 0]
  by (auto simp: parse_precision_def split: list.splits char.splits bool.splits if_splits prod.splits elim!: bind_Some_elim)

lemma parse_qualifier_shorter: "parse_qualifier fmt = (q, r) \<Longrightarrow> length r \<le> length fmt"
  by (auto simp: parse_qualifier_def split: list.splits if_splits)

lemma convert_shorter:
  assumes "convert en fmt args st = Some (r, a, st')"
  shows "length r \<le> length fmt"
proof -
  obtain f0 fmt1 where 1: "parse_flags fmt 0 = (f0, fmt1)" by fastforce
  obtain w f fmt2 a1 where 2: "parse_width fmt1 f0 args = Some (w, f, fmt2, a1)"
    and rest: "do { (precision, fmt3, args2) \<leftarrow> parse_precision fmt2 a1;
       let (qualifier, fmt4) = parse_qualifier fmt3;
       case fmt4 of [] \<Rightarrow> Some ([], args2, emit en CHR ''%'' st)
       | c # cs \<Rightarrow> do { (args3, st1) \<leftarrow> format_item en c args2 w f precision qualifier st; Some (cs, args3, st1) } } = Some (r, a, st')"
    using assms unfolding convert_def 1 by (auto elim!: bind_Some_elim)
  obtain p fmt3 a2 where 3: "parse_precision fmt2 a1 = Some (p, fmt3, a2)" using rest by (auto elim!: bind_Some_elim)
  obtain q fmt4 where 4: "parse_qualifier fmt3 = (q, fmt4)" by fastforce
  have "length fmt4 \<le> length fmt"
    using parse_flags_shorter [of fmt 0] parse_width_shorter [OF 2] parse_precision_shorter [OF 3] parse_qualifier_shorter [OF 4] 1 by simp
  then show ?thesis using rest unfolding 3 by (auto simp: 4 split: list.splits elim!: bind_Some_elim)
qed

function format_loop :: "nat \<Rightarrow> string \<Rightarrow> printf_arg list \<Rightarrow> sink \<Rightarrow> sink option" where
  "format_loop en fmt args st = (case fmt of
       [] \<Rightarrow> Some st
     | c # cs \<Rightarrow>
         if c \<noteq> CHR ''%'' then format_loop en cs args (emit en c st)
         else (case convert en cs args st of None \<Rightarrow> None | Some (cs', args', st') \<Rightarrow> format_loop en cs' args' st'))"
  by pat_completeness auto
termination
  by (relation "measure (\<lambda>(en, fmt, args, st). length fmt)") (auto dest: convert_shorter)

declare format_loop.simps [simp del]

text \<open>
  \<^verbatim>\<open>rt_vsnprintf\<close>: \<open>buf\<close> is the address of the buffer, \<open>b\<close> what it holds. A buffer that would reach over the end of the address space is cut.
  The result is the number of characters, with the buffer.
\<close>

definition rt_vsnprintf :: "u32 \<Rightarrow> u32 \<Rightarrow> string \<Rightarrow> printf_arg list \<Rightarrow> (nat \<Rightarrow> char) \<Rightarrow> (nat \<times> (nat \<Rightarrow> char)) option" where
  "rt_vsnprintf buf sz fmt args b = do {
     let en = unat (if buf + sz < buf then - 1 - buf else sz);
     (str, b1) \<leftarrow> format_loop en fmt args (0, b);
     Some (str, if 0 < en then b1((if str < en then str else en - 1) := CHR 0x00) else b1) }"

definition rt_snprintf :: "u32 \<Rightarrow> u32 \<Rightarrow> string \<Rightarrow> printf_arg list \<Rightarrow> (nat \<Rightarrow> char) \<Rightarrow> (nat \<times> (nat \<Rightarrow> char)) option" where
  "rt_snprintf buf sz fmt args b = rt_vsnprintf buf sz fmt args b"

definition rt_vsprintf :: "u32 \<Rightarrow> string \<Rightarrow> printf_arg list \<Rightarrow> (nat \<Rightarrow> char) \<Rightarrow> (nat \<times> (nat \<Rightarrow> char)) option" where
  "rt_vsprintf buf fmt args b = rt_vsnprintf buf (- 1) fmt args b"

definition rt_sprintf :: "u32 \<Rightarrow> string \<Rightarrow> printf_arg list \<Rightarrow> (nat \<Rightarrow> char) \<Rightarrow> (nat \<times> (nat \<Rightarrow> char)) option" where
  "rt_sprintf buf fmt args b = rt_vsprintf buf fmt args b"

section \<open>What is written\<close>

lemma emits_append: "emits en (cs @ ds) st = emits en ds (emits en cs st)"
  by (induction cs arbitrary: st) auto

lemma emits_eq:
  "emits en cs (k, b) = (k + length cs, \<lambda>i. if k \<le> i \<and> i < k + length cs \<and> i < en then cs ! (i - k) else b i)"
proof (induction cs arbitrary: k b)
  case Nil
  then show ?case by (auto simp: fun_eq_iff)
next
  case (Cons c cs)
  show ?case by (auto simp: Cons emit_def fun_eq_iff nth_Cons')
qed

lemma emits_zero: "emits en cs (0, b) = (length cs, \<lambda>i. if i < length cs \<and> i < en then cs ! i else b i)"
  by (simp add: emits_eq cong: if_cong)

definition sign_text :: "char option \<Rightarrow> string" where
  "sign_text sign = (case sign of None \<Rightarrow> [] | Some g \<Rightarrow> [g])"

text \<open>The text of a number, of which \<^verbatim>\<open>print_number\<close> writes what fits.\<close>

definition layout_text :: "bool \<Rightarrow> bool \<Rightarrow> char option \<Rightarrow> string \<Rightarrow> int \<Rightarrow> int \<Rightarrow> string" where
  "layout_text zeropad left sign tmp s precision =
     (let i = int (length tmp);
          room = nat (s - max i precision - (if sign = None then 0 else 1));
          body = replicate (nat (precision - i)) CHR ''0'' @ (if precision \<noteq> 0 then rev tmp else [])
      in if left then sign_text sign @ body @ replicate room CHR '' ''
         else if zeropad then sign_text sign @ replicate room CHR ''0'' @ body
         else replicate room CHR '' '' @ sign_text sign @ body)"

definition number_text :: "u32 \<Rightarrow> nat \<Rightarrow> int \<Rightarrow> int \<Rightarrow> u8 \<Rightarrow> string" where
  "number_text num base s precision ty0 =
     (let digits = (if ty0 AND LARGE \<noteq> 0 then large_digits else small_digits);
          ty = (if ty0 AND LEFT \<noteq> 0 then ty0 AND NOT ZEROPAD else ty0);
          (sign, num1) = number_sign ty num
      in layout_text (ty AND ZEROPAD \<noteq> 0) (ty AND LEFT \<noteq> 0) sign (number_tmp num1 base digits) s precision)"

lemma layout_emits:
  assumes "\<not> (zeropad \<and> left)"
  shows "layout en zeropad left sign tmp s precision st = emits en (layout_text zeropad left sign tmp s precision) st"
proof -
  let ?i = "int (length tmp)"
  have p: "(if precision < ?i then ?i else precision) = max ?i precision" by simp
  have q: "nat (max ?i precision - ?i) = nat (precision - ?i)" by simp
  define r where "r = s - max ?i precision"
  note defs = layout_def layout_text_def Let_def p q pad_def prod.case r_def [symmetric]
  show ?thesis
  proof (cases sign)
    case None
    then show ?thesis using assms unfolding defs
      by (cases zeropad; cases left; cases "0 < r") (simp_all add: emits_append sign_text_def)
  next
    case (Some g)
    then show ?thesis using assms unfolding defs
      by (cases zeropad; cases left; cases "0 < r") (simp_all add: emits_append sign_text_def)
  qed
qed

lemma print_number_text: "print_number en num base s precision ty st = emits en (number_text num base s precision ty) st"
proof -
  define t where "t = (if ty AND LEFT \<noteq> 0 then ty AND NOT ZEROPAD else ty)"
  have "t AND ZEROPAD = 0 \<or> t AND LEFT = 0" by (simp add: t_def and.assoc)
  moreover obtain sign num1 where "number_sign t num = (sign, num1)" by fastforce
  ultimately show ?thesis unfolding print_number_def number_text_def Let_def t_def [symmetric]
    by (simp add: layout_emits del: not_less)
qed

lemma emit_emits: "emit en c st = emits en [c] st"
  by simp

text \<open>Every part of the output is a text that depends neither on the buffer nor on its size.\<close>

lemma format_char_emits: "\<exists>out. \<forall>en st. format_char en n width flags st = emits en out st"
  unfolding format_char_def Let_def
  by (cases "flags AND LEFT = 0"; cases "0 < width - 1") (auto simp: emit_emits emits_append [symmetric] simp del: emits.simps)

lemma format_string_emits: "\<exists>out. \<forall>en st. format_string en s width precision flags st = emits en out st"
  unfolding format_string_def Let_def
  by (cases "flags AND LEFT = 0") (auto simp: emits_append [symmetric] simp del: emits.simps)

lemma format_pointer_emits: "\<exists>out. \<forall>en st. format_pointer en n width flags precision st = emits en out st"
  unfolding format_pointer_def print_number_text by (cases "width = - 1") auto

lemma format_int_emits: "\<exists>out. \<forall>en st. format_int en c n width flags precision q st = emits en out st"
  unfolding format_int_def print_number_text Let_def by blast

lemmas format_emits = format_char_emits format_string_emits format_pointer_emits format_int_emits









section \<open>Decimal numbers\<close>

definition digit_value :: "int \<Rightarrow> char \<Rightarrow> int" where
  "digit_value i c = i * 10 + of_char c - 48"

lemma skip_atoi_digits: "\<forall>c\<in>set cs. isdigit c \<Longrightarrow> skip_atoi (cs @ r) i = skip_atoi r (foldl digit_value i cs)"
  by (induction cs arbitrary: i) (auto simp: digit_value_def)

lemma skip_atoi_stop: "r = [] \<or> \<not> isdigit (hd r) \<Longrightarrow> skip_atoi r i = (i, r)"
  by (cases r) auto

lemma small_digit:
  assumes "d < 10"
  shows "isdigit (small_digits ! d)" and "(of_char (small_digits ! d) :: int) = 48 + int d"
proof -
  have "\<forall>d\<in>set [0..<10]. isdigit (small_digits ! d) \<and> (of_char (small_digits ! d) :: int) = 48 + int d"
    by (simp add: isdigit_def small_digits_def upt_rec)
  then show "isdigit (small_digits ! d)" "(of_char (small_digits ! d) :: int) = 48 + int d" using assms by simp_all
qed

lemma tmp_digits_step:
  assumes "n \<noteq> 0"
  shows "tmp_digits n 10 small_digits = small_digits ! (unat n mod 10) # tmp_digits (n div 10) 10 small_digits"
  using assms by (subst tmp_digits.simps) (simp add: divide_num_def unat_mod)

lemma tmp_digits_isdigit: "\<forall>c\<in>set (tmp_digits n 10 small_digits). isdigit c"
proof (induction "unat n" arbitrary: n rule: less_induct)
  case less
  show ?case
  proof (cases "n = 0")
    case True
    then show ?thesis by (simp add: tmp_digits.simps)
  next
    case False
    then have "unat (n div 10) < unat n" by (simp add: unat_div unat_gt_0)
    then show ?thesis using less tmp_digits_step [OF False] small_digit(1) by simp
  qed
qed

lemma tmp_digits_value: "foldl digit_value 0 (rev (tmp_digits n 10 small_digits)) = uint n"
proof (induction "unat n" arbitrary: n rule: less_induct)
  case less
  show ?case
  proof (cases "n = 0")
    case True
    then show ?thesis by (simp add: tmp_digits.simps)
  next
    case False
    then have "unat (n div 10) < unat n" by (simp add: unat_div unat_gt_0)
    then have "foldl digit_value 0 (rev (tmp_digits (n div 10) 10 small_digits)) = uint (n div 10)" by (rule less)
    moreover have "uint (n div 10) = int (unat n div 10)" by (simp add: uint_div zdiv_int)
    moreover have "int (unat n div 10) * 10 + int (unat n mod 10) = uint n"
      unfolding uint_nat by (metis div_mult_mod_eq of_nat_add of_nat_mult of_nat_numeral)
    ultimately show ?thesis using tmp_digits_step [OF False] small_digit(2) [of "unat n mod 10"] by (simp add: digit_value_def)
  qed
qed

lemma tmp_digits_length: "unat n < 10 ^ k \<Longrightarrow> length (tmp_digits n 10 small_digits) \<le> k"
proof (induction k arbitrary: n)
  case 0
  then show ?case by (simp add: tmp_digits.simps unat_eq_0)
next
  case (Suc k)
  show ?case
  proof (cases "n = 0")
    case True
    then show ?thesis by (simp add: tmp_digits.simps)
  next
    case False
    have "unat (n div 10) < 10 ^ k" using Suc.prems by (simp add: unat_div less_mult_imp_div_less mult.commute)
    then show ?thesis using Suc.IH tmp_digits_step [OF False] by simp
  qed
qed



section \<open>Properties\<close>


text \<open>The number \<^verbatim>\<open>print_number\<close> writes in decimal is read back by \<^verbatim>\<open>skip_atoi\<close>, for every unsigned 32-bit number; it has at most ten digits, fewer
  than the sixteen places of \<^verbatim>\<open>tmp\<close>.\<close>

theorem print_number_roundtrip:
  assumes "r = [] \<or> \<not> isdigit (hd r)"
  shows "\<exists>t. print_number en n 10 (- 1) (- 1) 0 (0, b) = (length t, \<lambda>i. if i < length t \<and> i < en then t ! i else b i) \<and> length t \<le> 10 \<and>
     skip_atoi (t @ r) 0 = (uint n, r)"
proof -
  let ?t = "rev (number_tmp n 10 small_digits)"
  have "number_text n 10 (- 1) (- 1) 0 = ?t" by (simp add: number_text_def number_sign_def layout_text_def sign_text_def)
  then have "print_number en n 10 (- 1) (- 1) 0 (0, b) = (length ?t, \<lambda>i. if i < length ?t \<and> i < en then ?t ! i else b i)"
    by (simp only: print_number_text emits_zero)
  moreover have "length ?t \<le> 10" using tmp_digits_length [of n 10] unat_u32_less [of n] by (simp add: number_tmp_def)
  moreover have "\<forall>c\<in>set ?t. isdigit c" using tmp_digits_isdigit small_digit(1) [of 0] by (simp add: number_tmp_def small_digits_def)
  then have "skip_atoi (?t @ r) 0 = skip_atoi r (foldl digit_value 0 ?t)" by (rule skip_atoi_digits)
  moreover have "foldl digit_value 0 ?t = uint n" using tmp_digits_value [of n] by (simp add: number_tmp_def digit_value_def)
  ultimately show ?thesis using skip_atoi_stop [OF assms] by (intro exI [of _ ?t]) simp
qed

text \<open>\<^verbatim>\<open>%o\<close> prints hexadecimal digits: \<^verbatim>\<open>divide\<close> knows the bases 10 and 16 only.\<close>

theorem octal_is_hexadecimal: "print_number en n 8 w p ty st = print_number en n 16 w p ty st"
proof -
  have e: "tmp_digits n 8 ds = tmp_digits n 16 ds" for n ds
  proof (induction "unat n" arbitrary: n rule: less_induct)
    case less
    show ?case
    proof (cases "n = 0")
      case False
      then have "unat (n div 16) < unat n" by (simp add: unat_div unat_gt_0)
      then show ?thesis using less False by (simp add: tmp_digits.simps [of n] divide_num_def)
    qed (simp add: tmp_digits.simps)
  qed
  show ?thesis unfolding print_number_def number_tmp_def e ..
qed

section \<open>Witnesses\<close>


theorem print_number_roundtrip_witness:
  "\<exists>t. print_number 16 4294967295 10 (- 1) (- 1) 0 (0, \<lambda>_. CHR ''x'') = (length t, \<lambda>i. if i < length t \<and> i < 16 then t ! i else CHR ''x'') \<and>
     skip_atoi (t @ '' ms'') 0 = (4294967295, '' ms'')"
  using print_number_roundtrip [of "'' ms''" 16 4294967295 "\<lambda>_. CHR ''x''"] by (auto simp: isdigit_def)

end
