(* ===== verification/I2cBits.thy ===== *)
theory I2cBits
  imports Prelude
begin

text \<open>
  The I2C master in software, \<^verbatim>\<open>rt-thread/components/drivers/i2c/i2c-bit-ops.c\<close>: start and stop conditions, bytes bit by bit,
  acknowledgements, addresses with retries, and the transfer of a list of messages. The two lines are parameters: a
  state \<open>'w\<close> of whatever is behind the pins, and the functions of \<^verbatim>\<open>struct rt_i2c_bit_ops\<close> on it. The second half says what
  the I2C-bus specification says of the other end of the lines, and shows that the transfer by bits is a
  transfer of bytes with it.
\<close>

section \<open>Lines and messages\<close>

text \<open>
  \<open>get_scl\<close> may be missing. \<open>tick_get\<close> and \<open>thread_delay\<close> are \<^verbatim>\<open>rt_tick_get\<close> and \<^verbatim>\<open>rt_thread_delay\<close>, as seen from the driver: time
  passes and the lines may change.
\<close>

record 'w bit_ops =
  set_sda :: "bool \<Rightarrow> 'w \<Rightarrow> 'w"
  set_scl :: "bool \<Rightarrow> 'w \<Rightarrow> 'w"
  get_sda :: "'w \<Rightarrow> bool"
  get_scl :: "('w \<Rightarrow> bool) option"
  udelay :: "u32 \<Rightarrow> 'w \<Rightarrow> 'w option"
  delay_us :: u32
  ops_timeout :: u32
  tick_get :: "'w \<Rightarrow> u32"
  thread_delay :: "u32 \<Rightarrow> 'w \<Rightarrow> 'w"

record rt_i2c_msg =
  msg_addr :: u16
  msg_flags :: u16
  msg_len :: u16
  msg_buf :: "u8 list"

abbreviation (input) RT_I2C_WR :: u16 where "RT_I2C_WR \<equiv> 0"
abbreviation (input) RT_I2C_RD :: u16 where "RT_I2C_RD \<equiv> 1"
abbreviation (input) RT_I2C_ADDR_10BIT :: u16 where "RT_I2C_ADDR_10BIT \<equiv> 4"
abbreviation (input) RT_I2C_NO_START :: u16 where "RT_I2C_NO_START \<equiv> 0x10"
abbreviation (input) RT_I2C_IGNORE_NACK :: u16 where "RT_I2C_IGNORE_NACK \<equiv> 0x20"
abbreviation (input) RT_I2C_NO_READ_ACK :: u16 where "RT_I2C_NO_READ_ACK \<equiv> 0x40"
abbreviation (input) RT_I2C_NO_STOP :: u16 where "RT_I2C_NO_STOP \<equiv> 0x80"

definition has_flag :: "rt_i2c_msg \<Rightarrow> u16 \<Rightarrow> bool" where
  "has_flag m f \<longleftrightarrow> msg_flags m AND f \<noteq> 0"

section \<open>Conditions and bits\<close>

definition i2c_delay :: "'w bit_ops \<Rightarrow> 'w \<Rightarrow> 'w option" where
  "i2c_delay ops w = udelay ops (drop_bit 1 (delay_us ops + 1)) w"

definition i2c_delay2 :: "'w bit_ops \<Rightarrow> 'w \<Rightarrow> 'w option" where
  "i2c_delay2 ops w = udelay ops (delay_us ops) w"

partial_function (option) scl_wait :: "'w bit_ops \<Rightarrow> ('w \<Rightarrow> bool) \<Rightarrow> u32 \<Rightarrow> 'w \<Rightarrow> ('w \<times> rt_err_t) option" where
  "scl_wait ops get start w =
     (if get w then Some (w, RT_EOK)
      else if ops_timeout ops < tick_get ops w - start then Some (w, - RT_ETIMEOUT)
      else scl_wait ops get start (thread_delay ops (drop_bit 1 (ops_timeout ops + 1)) w))"

definition SCL_H :: "'w bit_ops \<Rightarrow> 'w \<Rightarrow> ('w \<times> rt_err_t) option" where
  "SCL_H ops w = do {
     let w1 = set_scl ops True w;
     (w2, e) \<leftarrow> (case get_scl ops of None \<Rightarrow> Some (w1, RT_EOK) | Some get \<Rightarrow> scl_wait ops get (tick_get ops w1) w1);
     if e < 0 then Some (w2, e)
     else do { w3 \<leftarrow> i2c_delay ops w2; Some (w3, RT_EOK) } }"

definition i2c_start :: "'w bit_ops \<Rightarrow> 'w \<Rightarrow> 'w option" where
  "i2c_start ops w = do {
     w1 \<leftarrow> i2c_delay ops (set_sda ops False w);
     Some (set_scl ops False w1) }"

definition i2c_restart :: "'w bit_ops \<Rightarrow> 'w \<Rightarrow> 'w option" where
  "i2c_restart ops w = do {
     (w1, _) \<leftarrow> SCL_H ops (set_sda ops True w);
     w2 \<leftarrow> i2c_delay ops w1;
     w3 \<leftarrow> i2c_delay ops (set_sda ops False w2);
     Some (set_scl ops False w3) }"

definition i2c_stop :: "'w bit_ops \<Rightarrow> 'w \<Rightarrow> 'w option" where
  "i2c_stop ops w = do {
     w1 \<leftarrow> i2c_delay ops (set_sda ops False w);
     (w2, _) \<leftarrow> SCL_H ops w1;
     w3 \<leftarrow> i2c_delay ops w2;
     i2c_delay2 ops (set_sda ops True w3) }"

definition i2c_waitack :: "'w bit_ops \<Rightarrow> 'w \<Rightarrow> ('w \<times> int) option" where
  "i2c_waitack ops w = do {
     w1 \<leftarrow> i2c_delay ops (set_sda ops True w);
     (w2, e) \<leftarrow> SCL_H ops w1;
     if e < 0 then Some (w2, - RT_ETIMEOUT)
     else Some (set_scl ops False w2, if get_sda ops w2 then 0 else 1) }"

text \<open>The loop of \<^verbatim>\<open>i2c_writeb\<close>; the number is \<^verbatim>\<open>i + 1\<close>.\<close>

primrec writeb_bits :: "'w bit_ops \<Rightarrow> u8 \<Rightarrow> nat \<Rightarrow> 'w \<Rightarrow> ('w \<times> rt_err_t) option" where
  "writeb_bits ops data 0 w = Some (w, RT_EOK)"
| "writeb_bits ops data (Suc i) w = do {
     w1 \<leftarrow> i2c_delay ops (set_sda ops (bit data i) (set_scl ops False w));
     (w2, e) \<leftarrow> SCL_H ops w1;
     if e < 0 then Some (w2, - RT_ETIMEOUT) else writeb_bits ops data i w2 }"

definition i2c_writeb :: "'w bit_ops \<Rightarrow> u8 \<Rightarrow> 'w \<Rightarrow> ('w \<times> int) option" where
  "i2c_writeb ops data w = do {
     (w1, e) \<leftarrow> writeb_bits ops data 8 w;
     if e < 0 then Some (w1, e)
     else do {
       w2 \<leftarrow> i2c_delay ops (set_scl ops False w1);
       i2c_waitack ops w2 } }"

text \<open>The loop of \<^verbatim>\<open>i2c_readb\<close>; the number is \<^verbatim>\<open>8 - i\<close>.\<close>

primrec readb_bits :: "'w bit_ops \<Rightarrow> nat \<Rightarrow> u8 \<Rightarrow> 'w \<Rightarrow> ('w \<times> int) option" where
  "readb_bits ops 0 data w = Some (w, uint data)"
| "readb_bits ops (Suc n) data w = do {
     (w1, e) \<leftarrow> SCL_H ops w;
     if e < 0 then Some (w1, - RT_ETIMEOUT)
     else do {
       let data1 = push_bit 1 data OR (if get_sda ops w1 then 1 else 0);
       w2 \<leftarrow> i2c_delay2 ops (set_scl ops False w1);
       readb_bits ops n data1 w2 } }"

definition i2c_readb :: "'w bit_ops \<Rightarrow> 'w \<Rightarrow> ('w \<times> int) option" where
  "i2c_readb ops w = do {
     w1 \<leftarrow> i2c_delay ops (set_sda ops True w);
     readb_bits ops 8 0 w1 }"

section \<open>Messages\<close>

fun send_bytes :: "'w bit_ops \<Rightarrow> bool \<Rightarrow> u8 list \<Rightarrow> int \<Rightarrow> 'w \<Rightarrow> ('w \<times> int) option" where
  "send_bytes ops ignore_nack [] bytes w = Some (w, bytes)"
| "send_bytes ops ignore_nack (b # bs) bytes w = do {
     (w1, r) \<leftarrow> i2c_writeb ops b w;
     if 0 < r \<or> ignore_nack \<and> r = 0 then send_bytes ops ignore_nack bs (bytes + 1) w1
     else if r = 0 then Some (w1, 0)
     else Some (w1, r) }"

definition i2c_send_bytes :: "'w bit_ops \<Rightarrow> rt_i2c_msg \<Rightarrow> 'w \<Rightarrow> ('w \<times> int) option" where
  "i2c_send_bytes ops msg w = send_bytes ops (has_flag msg RT_I2C_IGNORE_NACK) (take (unat (msg_len msg)) (msg_buf msg)) 0 w"

definition i2c_send_ack_or_nack :: "'w bit_ops \<Rightarrow> bool \<Rightarrow> 'w \<Rightarrow> ('w \<times> rt_err_t) option" where
  "i2c_send_ack_or_nack ops ack w = do {
     w1 \<leftarrow> i2c_delay ops (if ack then set_sda ops False w else w);
     (w2, e) \<leftarrow> SCL_H ops w1;
     if e < 0 then Some (w2, - RT_ETIMEOUT)
     else Some (set_scl ops False w2, RT_EOK) }"

text \<open>The loop of \<^verbatim>\<open>i2c_recv_bytes\<close>: what is left of \<^verbatim>\<open>count\<close>, and the bytes stored so far.\<close>

primrec recv_bytes :: "'w bit_ops \<Rightarrow> bool \<Rightarrow> nat \<Rightarrow> u8 list \<Rightarrow> 'w \<Rightarrow> ('w \<times> u8 list \<times> int) option" where
  "recv_bytes ops no_ack 0 rcv w = Some (w, rcv, int (length rcv))"
| "recv_bytes ops no_ack (Suc count) rcv w = do {
     (w1, v) \<leftarrow> i2c_readb ops w;
     if v < 0 then Some (w1, rcv, int (length rcv))
     else let rcv1 = rcv @ [word_of_int v] in
       if no_ack then recv_bytes ops no_ack count rcv1 w1
       else do {
         (w2, e) \<leftarrow> i2c_send_ack_or_nack ops (count \<noteq> 0) w1;
         if e < 0 then Some (w2, rcv1, e) else recv_bytes ops no_ack count rcv1 w2 } }"

definition i2c_recv_bytes :: "'w bit_ops \<Rightarrow> rt_i2c_msg \<Rightarrow> 'w \<Rightarrow> ('w \<times> rt_i2c_msg \<times> int) option" where
  "i2c_recv_bytes ops msg w = do {
     (w1, rcv, r) \<leftarrow> recv_bytes ops (has_flag msg RT_I2C_NO_READ_ACK) (unat (msg_len msg)) [] w;
     Some (w1, msg\<lparr>msg_buf := rcv @ drop (length rcv) (msg_buf msg)\<rparr>, r) }"

text \<open>The loop of \<^verbatim>\<open>i2c_send_address\<close> with the number of retries left; a negative number of retries sends nothing.\<close>

primrec send_address_loop :: "'w bit_ops \<Rightarrow> u8 \<Rightarrow> nat \<Rightarrow> 'w \<Rightarrow> ('w \<times> int) option" where
  "send_address_loop ops a 0 w = i2c_writeb ops a w"
| "send_address_loop ops a (Suc n) w = do {
     (w1, r) \<leftarrow> i2c_writeb ops a w;
     if r = 1 then Some (w1, r)
     else do {
       w2 \<leftarrow> i2c_stop ops w1;
       w3 \<leftarrow> i2c_delay2 ops w2;
       w4 \<leftarrow> i2c_start ops w3;
       send_address_loop ops a n w4 } }"

definition i2c_send_address :: "'w bit_ops \<Rightarrow> u8 \<Rightarrow> int \<Rightarrow> 'w \<Rightarrow> ('w \<times> int) option" where
  "i2c_send_address ops a retries w = (if retries < 0 then Some (w, 0) else send_address_loop ops a (nat retries) w)"

definition i2c_bit_send_address :: "'w bit_ops \<Rightarrow> u32 \<Rightarrow> rt_i2c_msg \<Rightarrow> 'w \<Rightarrow> ('w \<times> rt_err_t) option" where
  "i2c_bit_send_address ops bus_retries msg w =
     (let ignore_nack = has_flag msg RT_I2C_IGNORE_NACK;
          retries = (if ignore_nack then 0 else sint bus_retries)
      in if has_flag msg RT_I2C_ADDR_10BIT
         then let addr1 = 0xf0 OR (ucast (drop_bit 7 (msg_addr msg)) AND 0x06);
                  addr2 = ucast (msg_addr msg)
              in do {
                (w1, r1) \<leftarrow> i2c_send_address ops addr1 retries w;
                if r1 \<noteq> 1 \<and> \<not> ignore_nack then Some (w1, - RT_EIO)
                else do {
                  (w2, r2) \<leftarrow> i2c_writeb ops addr2 w1;
                  if r2 \<noteq> 1 \<and> \<not> ignore_nack then Some (w2, - RT_EIO)
                  else if has_flag msg RT_I2C_RD
                  then do {
                    w3 \<leftarrow> i2c_restart ops w2;
                    (w4, r4) \<leftarrow> i2c_send_address ops (addr1 OR 1) retries w3;
                    if r4 \<noteq> 1 \<and> \<not> ignore_nack then Some (w4, - RT_EIO) else Some (w4, RT_EOK) }
                  else Some (w2, RT_EOK) } }
         else let addr1 = ucast (push_bit 1 (msg_addr msg)) OR (if has_flag msg RT_I2C_RD then 1 else 0)
              in do {
                (w1, r) \<leftarrow> i2c_send_address ops addr1 retries w;
                if r \<noteq> 1 \<and> \<not> ignore_nack then Some (w1, - RT_EIO) else Some (w1, RT_EOK) })"

text \<open>
  The loop of \<^verbatim>\<open>i2c_bit_xfer\<close> from message \<open>i\<close> on. The result is the state, the messages with what was received, the value of
  \<^verbatim>\<open>ret\<close> and the message \<^verbatim>\<open>msg\<close> points to at the end.
\<close>

fun xfer_loop :: "'w bit_ops \<Rightarrow> u32 \<Rightarrow> nat \<Rightarrow> rt_i2c_msg \<Rightarrow> rt_i2c_msg list \<Rightarrow> 'w \<Rightarrow> ('w \<times> rt_i2c_msg list \<times> int \<times> rt_i2c_msg) option" where
  "xfer_loop ops retries i msg [] w = Some (w, [], int i, msg)"
| "xfer_loop ops retries i _ (msg # msgs) w = do {
     (w1, e) \<leftarrow> (if has_flag msg RT_I2C_NO_START then Some (w, RT_EOK)
       else do { w0 \<leftarrow> (if i \<noteq> 0 then i2c_restart ops w else i2c_start ops w); i2c_bit_send_address ops retries msg w0 });
     if e \<noteq> RT_EOK \<and> \<not> has_flag msg RT_I2C_IGNORE_NACK then Some (w1, msg # msgs, e, msg)
     else if has_flag msg RT_I2C_RD
     then do {
       (w2, msg', r) \<leftarrow> i2c_recv_bytes ops msg w1;
       if r < int (unat (msg_len msg)) then Some (w2, msg' # msgs, if 0 \<le> r then - RT_EIO else r, msg')
       else do { (w3, msgs', r', l) \<leftarrow> xfer_loop ops retries (Suc i) msg' msgs w2; Some (w3, msg' # msgs', r', l) } }
     else do {
       (w2, r) \<leftarrow> i2c_send_bytes ops msg w1;
       if r < int (unat (msg_len msg)) then Some (w2, msg # msgs, if 0 \<le> r then - RT_ERROR else r, msg)
       else do { (w3, msgs', r', l) \<leftarrow> xfer_loop ops retries (Suc i) msg msgs w2; Some (w3, msg # msgs', r', l) } } }"

text \<open>Without messages \<^verbatim>\<open>msg\<close> is not initialised.\<close>

definition i2c_bit_xfer :: "'w bit_ops \<Rightarrow> u32 \<Rightarrow> rt_i2c_msg list \<Rightarrow> 'w \<Rightarrow> ('w \<times> rt_i2c_msg list \<times> int) option" where
  "i2c_bit_xfer ops retries msgs w =
     (if msgs = [] then None
      else do {
        (w1, msgs', r, l) \<leftarrow> xfer_loop ops retries 0 (hd msgs) msgs w;
        w2 \<leftarrow> (if has_flag l RT_I2C_NO_STOP then Some w1 else i2c_stop ops w1);
        Some (w2, msgs', r) })"

section \<open>The other end of the lines\<close>

text \<open>
  The devices on the bus, at the level of bytes: what they do with the first byte after a start condition (the address; do they
  acknowledge it?), with a byte written to them, which byte they send next, and what a stop condition does.
\<close>

record 'd slave =
  sl_address :: "u8 \<Rightarrow> 'd \<Rightarrow> bool \<times> 'd"
  sl_write :: "u8 \<Rightarrow> 'd \<Rightarrow> bool \<times> 'd"
  sl_read :: "'d \<Rightarrow> u8 \<times> 'd"
  sl_stop :: "'d \<Rightarrow> 'd"

text \<open>
  The lines after the I2C-bus specification. The devices receive a byte (the flag: it is the address), drive the acknowledgement
  (the flags: acknowledged, and they are to send next), send bit \<open>n\<close> of a byte, or wait for an acknowledgement; \<open>None\<close>: not yet
  sampled. A line is high when nobody pulls it down; the devices do not stretch the clock.
\<close>

datatype phase = Idle | Rx bool "bool list" | AckOut bool bool | Tx u8 nat | AckIn "bool option"

record 'd wire =
  w_sda :: bool
  w_scl :: bool
  w_phase :: phase
  w_dev :: 'd

fun slave_sda :: "phase \<Rightarrow> bool" where
  "slave_sda (AckOut ack _) = (\<not> ack)"
| "slave_sda (Tx b n) = bit b n"
| "slave_sda _ = True"

definition line :: "'d wire \<Rightarrow> bool" where
  "line x \<longleftrightarrow> w_sda x \<and> slave_sda (w_phase x)"

text \<open>SDA may change only while SCL is low; otherwise it is a start or a stop condition.\<close>

definition wire_sda :: "'d slave \<Rightarrow> bool \<Rightarrow> 'd wire \<Rightarrow> 'd wire" where
  "wire_sda sl v x =
     (let x1 = x\<lparr>w_sda := v\<rparr>
      in if w_scl x \<and> line x \<and> \<not> line x1 then x1\<lparr>w_phase := Rx True []\<rparr>
         else if w_scl x \<and> \<not> line x \<and> line x1 then x1\<lparr>w_phase := Idle, w_dev := sl_stop sl (w_dev x)\<rparr>
         else x1)"

text \<open>The most significant bit comes first.\<close>

definition byte_of :: "bool list \<Rightarrow> u8" where
  "byte_of bs = horner_sum of_bool 2 (rev bs)"

definition next_byte :: "'d slave \<Rightarrow> 'd wire \<Rightarrow> 'd wire" where
  "next_byte sl x = (let (b, d) = sl_read sl (w_dev x) in x\<lparr>w_phase := Tx b 7, w_dev := d\<rparr>)"

definition rising :: "'d wire \<Rightarrow> 'd wire" where
  "rising x = x\<lparr>w_phase := (case w_phase x of
     Rx f bs \<Rightarrow> Rx f (bs @ [line x])
   | AckIn _ \<Rightarrow> AckIn (Some (\<not> line x))
   | p \<Rightarrow> p)\<rparr>"

definition falling :: "'d slave \<Rightarrow> 'd wire \<Rightarrow> 'd wire" where
  "falling sl x = (case w_phase x of
     Idle \<Rightarrow> x
   | Rx f bs \<Rightarrow>
       if length bs = 8
       then let (ack, d) = (if f then sl_address sl else sl_write sl) (byte_of bs) (w_dev x)
            in x\<lparr>w_phase := AckOut ack (f \<and> bit (byte_of bs) 0), w_dev := d\<rparr>
       else x
   | AckOut ack tx \<Rightarrow> if \<not> ack then x\<lparr>w_phase := Idle\<rparr> else if tx then next_byte sl x else x\<lparr>w_phase := Rx False []\<rparr>
   | Tx b n \<Rightarrow> x\<lparr>w_phase := (case n of 0 \<Rightarrow> AckIn None | Suc m \<Rightarrow> Tx b m)\<rparr>
   | AckIn a \<Rightarrow> if a = Some True then next_byte sl x else x\<lparr>w_phase := Idle\<rparr>)"

definition wire_scl :: "'d slave \<Rightarrow> bool \<Rightarrow> 'd wire \<Rightarrow> 'd wire" where
  "wire_scl sl v x =
     (let x1 = x\<lparr>w_scl := v\<rparr>
      in if v \<and> \<not> w_scl x then rising x1 else if \<not> v \<and> w_scl x then falling sl x1 else x1)"

text \<open>The driver's lines are these lines.\<close>

definition wired :: "'w bit_ops \<Rightarrow> ('w \<Rightarrow> 'd wire) \<Rightarrow> 'd slave \<Rightarrow> bool" where
  "wired ops \<alpha> sl \<longleftrightarrow>
     (\<forall>v w. \<alpha> (set_sda ops v w) = wire_sda sl v (\<alpha> w)) \<and>
     (\<forall>v w. \<alpha> (set_scl ops v w) = wire_scl sl v (\<alpha> w)) \<and>
     (\<forall>w. get_sda ops w = line (\<alpha> w)) \<and>
     (\<forall>get w. get_scl ops = Some get \<longrightarrow> get w = w_scl (\<alpha> w)) \<and>
     (\<forall>us w. \<exists>w'. udelay ops us w = Some w' \<and> \<alpha> w' = \<alpha> w)"

section \<open>Operations by bits on the lines\<close>

text \<open>A step of the driver takes the lines to \<open>x\<close> and returns \<open>a\<close>.\<close>

definition reaches :: "('w \<Rightarrow> 'd wire) \<Rightarrow> ('w \<times> 'a) option \<Rightarrow> 'd wire \<Rightarrow> 'a \<Rightarrow> bool" where
  "reaches \<alpha> r x a \<longleftrightarrow> (\<exists>w. r = Some (w, a) \<and> \<alpha> w = x)"

definition arrives :: "('w \<Rightarrow> 'd wire) \<Rightarrow> 'w option \<Rightarrow> 'd wire \<Rightarrow> bool" where
  "arrives \<alpha> r x \<longleftrightarrow> (\<exists>w. r = Some w \<and> \<alpha> w = x)"

lemma reaches_bind:
  assumes "reaches \<alpha> r x a" and "\<And>w. \<alpha> w = x \<Longrightarrow> reaches \<alpha> (f w a) y b"
  shows "reaches \<alpha> (Option.bind r (\<lambda>(w, a). f w a)) y b"
  using assms by (auto simp: reaches_def)

lemma arrives_bind:
  assumes "arrives \<alpha> r x" and "\<And>w. \<alpha> w = x \<Longrightarrow> reaches \<alpha> (f w) y b"
  shows "reaches \<alpha> (Option.bind r f) y b"
  using assms by (auto simp: reaches_def arrives_def)

lemma reaches_arrives:
  assumes "reaches \<alpha> r x a" and "\<And>w. \<alpha> w = x \<Longrightarrow> arrives \<alpha> (f w a) y"
  shows "arrives \<alpha> (Option.bind r (\<lambda>(w, a). f w a)) y"
  using assms by (auto simp: reaches_def arrives_def)

lemma arrives_arrives:
  assumes "arrives \<alpha> r x" and "\<And>w. \<alpha> w = x \<Longrightarrow> arrives \<alpha> (f w) y"
  shows "arrives \<alpha> (Option.bind r f) y"
  using assms by (auto simp: arrives_def)

lemma reaches_Some [simp]: "reaches \<alpha> (Some (w, a)) x b \<longleftrightarrow> \<alpha> w = x \<and> a = b"
  by (auto simp: reaches_def)

lemma arrives_Some [simp]: "arrives \<alpha> (Some w) x \<longleftrightarrow> \<alpha> w = x"
  by (auto simp: arrives_def)

text \<open>The lines while SCL is low: SDA as the master left it, what the devices do next, and their state.\<close>

definition low :: "bool \<Rightarrow> phase \<Rightarrow> 'd \<Rightarrow> 'd wire" where
  "low v p d = \<lparr>w_sda = v, w_scl = False, w_phase = p, w_dev = d\<rparr>"

definition high :: "bool \<Rightarrow> phase \<Rightarrow> 'd \<Rightarrow> 'd wire" where
  "high v p d = \<lparr>w_sda = v, w_scl = True, w_phase = p, w_dev = d\<rparr>"

lemma wire_low [simp]: "wire_sda sl v (low u p d) = low v p d" "wire_scl sl False (low u p d) = low u p d"
  by (simp_all add: wire_sda_def wire_scl_def low_def)

lemma line_simps [simp]: "line (low v p d) = (v \<and> slave_sda p)" "line (high v p d) = (v \<and> slave_sda p)"
  by (simp_all add: line_def low_def high_def)

lemma wire_rise: "wire_scl sl True (low v p d) = high v (case p of Rx f bs \<Rightarrow> Rx f (bs @ [v]) | AckIn _ \<Rightarrow> AckIn (Some (\<not> v)) | _ \<Rightarrow> p) d"
  by (simp add: wire_scl_def low_def high_def rising_def line_def split: phase.split)

lemma wire_fall: "wire_scl sl False (high v p d) = falling sl (low v p d)"
  by (simp add: wire_scl_def low_def high_def)

lemma w_scl_simps [simp]: "w_scl (high v p d)" "\<not> w_scl (low v p d)"
  by (simp_all add: low_def high_def)

lemma wire_rise_simps [simp]:
  "wire_scl sl True (low v (Rx f bs) d) = high v (Rx f (bs @ [v])) d"
  "wire_scl sl True (low v (AckIn a) d) = high v (AckIn (Some (\<not> v))) d"
  "wire_scl sl True (low v (Tx b n) d) = high v (Tx b n) d"
  "wire_scl sl True (low v (AckOut k t) d) = high v (AckOut k t) d"
  "wire_scl sl True (low v Idle d) = high v Idle d"
  by (simp_all add: wire_rise)

definition sends :: "'d slave \<Rightarrow> bool \<Rightarrow> 'd \<Rightarrow> 'd wire" where
  "sends sl v d = (let (b, d') = sl_read sl d in low v (Tx b 7) d')"

lemma wire_fall_simps [simp]:
  "length bs \<noteq> 8 \<Longrightarrow> wire_scl sl False (high v (Rx f bs) d) = low v (Rx f bs) d"
  "wire_scl sl False (high v (AckOut False t) d) = low v Idle d"
  "wire_scl sl False (high v (AckOut True False) d) = low v (Rx False []) d"
  "wire_scl sl False (high v (AckOut True True) d) = sends sl v d"
  "wire_scl sl False (high v (Tx b 0) d) = low v (AckIn None) d"
  "wire_scl sl False (high v (Tx b (Suc n)) d) = low v (Tx b n) d"
  "wire_scl sl False (high v (AckIn (Some True)) d) = sends sl v d"
  "wire_scl sl False (high v (AckIn (Some False)) d) = low v Idle d"
  "wire_scl sl False (high v Idle d) = low v Idle d"
  by (simp_all add: wire_fall falling_def low_def sends_def next_byte_def split: prod.split)

lemma wire_fall_byte:
  "length bs = 8 \<Longrightarrow> (if f then sl_address sl else sl_write sl) (byte_of bs) d = (ack, d') \<Longrightarrow>
     wire_scl sl False (high v (Rx f bs) d) = low v (AckOut ack (f \<and> bit (byte_of bs) 0)) d'"
  by (simp add: wire_fall falling_def low_def)

text \<open>Start and stop.\<close>

lemma wire_start [simp]: "slave_sda p \<Longrightarrow> wire_sda sl False (high True p d) = high False (Rx True []) d"
  by (simp add: wire_sda_def line_def high_def)

lemma wire_stop [simp]: "slave_sda p \<Longrightarrow> wire_sda sl True (high False p d) = high True Idle (sl_stop sl d)"
  by (cases p) (simp_all add: wire_sda_def line_def high_def)

text \<open>Between two transfers: both lines are high and nobody is addressed.\<close>

abbreviation at_rest :: "'d \<Rightarrow> 'd wire" where
  "at_rest d \<equiv> high True Idle d"

lemma byte_of_bits: "byte_of (map (bit b) (rev [0..<8])) = b" for b :: u8
proof -
  have "horner_sum of_bool 2 (map (bit b) [0..<8]) = take_bit 8 b" by (rule horner_sum_bit_eq_take_bit)
  then show ?thesis by (simp add: byte_of_def rev_map take_bit_word_eq_self)
qed

lemma drop_bit_step: "push_bit 1 (drop_bit (Suc n) b) OR (if bit b n then 1 else 0) = drop_bit n b" if "n < 8" for b :: u8
proof (rule bit_word_eqI)
  fix i :: nat
  assume i: "i < LENGTH(8)"
  have p: "bit (push_bit 1 x) i = (1 \<le> i \<and> bit x (i - 1))" for x :: u8 using i by (simp only: bit_push_bit_iff) simp
  show "bit (push_bit 1 (drop_bit (Suc n) b) OR (if bit b n then 1 else 0)) i = bit (drop_bit n b) i"
    unfolding bit_or_iff p by (cases i) (auto simp: bit_simps)
qed

locale i2c_lines =
  fixes ops :: "'w bit_ops" and \<alpha> :: "'w \<Rightarrow> 'd wire" and sl :: "'d slave"
  assumes wired: "wired ops \<alpha> sl"
begin

lemma set_lines [simp]: "\<alpha> (set_sda ops v w) = wire_sda sl v (\<alpha> w)" "\<alpha> (set_scl ops v w) = wire_scl sl v (\<alpha> w)" "get_sda ops w = line (\<alpha> w)"
  using wired by (simp_all add: wired_def)

lemma delay_returns:
  obtains w' where "udelay ops us w = Some w'" and "\<alpha> w' = \<alpha> w"
  using wired unfolding wired_def by metis

lemma delays: "\<alpha> w = x \<Longrightarrow> arrives \<alpha> (i2c_delay ops w) x" "\<alpha> w = x \<Longrightarrow> arrives \<alpha> (i2c_delay2 ops w) x"
  unfolding i2c_delay_def i2c_delay2_def arrives_def
  by (rule delay_returns [of "drop_bit 1 (delay_us ops + 1)" w], force) (rule delay_returns [of "delay_us ops" w], force)

lemma SCL_H_rises:
  assumes "\<alpha> w = low v p d"
  shows "reaches \<alpha> (SCL_H ops w) (wire_scl sl True (low v p d)) RT_EOK"
proof -
  let ?w1 = "set_scl ops True w"
  obtain p' where r: "wire_scl sl True (low v p d) = high v p' d" by (simp add: wire_rise)
  have x: "\<alpha> ?w1 = high v p' d" using assms r by simp
  have get: "get ?w1" if "get_scl ops = Some get" for get using that wired x by (simp add: wired_def)
  have "(case get_scl ops of None \<Rightarrow> Some (?w1, RT_EOK) | Some get \<Rightarrow> scl_wait ops get (tick_get ops ?w1) ?w1) = Some (?w1, RT_EOK)"
  proof (cases "get_scl ops")
    case (Some g)
    then show ?thesis using get [OF Some] by (simp, subst scl_wait.simps, simp)
  qed simp
  moreover obtain w' where "i2c_delay ops ?w1 = Some w'" "\<alpha> w' = high v p' d" using delays(1) [OF x] by (auto simp: arrives_def)
  ultimately show ?thesis by (simp add: SCL_H_def reaches_def r)
qed

lemma start_condition:
  assumes "\<alpha> w = high True p d" and "slave_sda p"
  shows "arrives \<alpha> (i2c_start ops w) (low False (Rx True []) d)"
  unfolding i2c_start_def
  by (rule arrives_arrives [OF delays(1) [OF refl]]) (simp add: assms)

lemma restart_condition:
  assumes "\<alpha> w = low v p d" and "wire_scl sl True (low True p d) = high True p' d" and "slave_sda p'"
  shows "arrives \<alpha> (i2c_restart ops w) (low False (Rx True []) d)"
  unfolding i2c_restart_def
proof (rule reaches_arrives [OF SCL_H_rises [of _ True p d]], goal_cases)
  case 1
  then show ?case using assms(1) by simp
next
  case (2 w1)
  show ?case
    by (rule arrives_arrives [OF delays(1) [OF 2]], rule arrives_arrives [OF delays(1) [OF refl]]) (simp add: 2 assms(2,3))
qed

lemma stop_condition:
  assumes "\<alpha> w = low v p d" and "wire_scl sl True (low False p d) = high False p' d" and "slave_sda p'"
  shows "arrives \<alpha> (i2c_stop ops w) (at_rest (sl_stop sl d))"
  unfolding i2c_stop_def
proof (rule arrives_arrives [OF delays(1) [OF refl]], rule reaches_arrives [OF SCL_H_rises [of _ False p d]], goal_cases)
  case 1
  then show ?case using assms(1) by simp
next
  case (2 w1 w2)
  show ?case by (rule arrives_arrives [OF delays(1) [OF 2(2)]], rule delays(2)) (simp add: assms(2,3))
qed

end

section \<open>Bytes and messages\<close>

text \<open>
  A transfer at the level of bytes: an address with its retries, bytes written until one is not acknowledged, bytes read, and a
  list of messages. The devices are as at \<open>d\<close> when the address comes.
\<close>

primrec address_spec :: "'d slave \<Rightarrow> nat \<Rightarrow> u8 \<Rightarrow> 'd \<Rightarrow> bool \<times> 'd" where
  "address_spec sl 0 a d = sl_address sl a d"
| "address_spec sl (Suc n) a d = (let (ack, d1) = sl_address sl a d in if ack then (True, d1) else address_spec sl n a (sl_stop sl d1))"

fun write_spec :: "'d slave \<Rightarrow> u8 list \<Rightarrow> 'd \<Rightarrow> bool \<times> 'd" where
  "write_spec sl [] d = (True, d)"
| "write_spec sl (b # bs) d = (let (ack, d1) = sl_write sl b d in if ack then write_spec sl bs d1 else (False, d1))"

primrec read_spec :: "'d slave \<Rightarrow> nat \<Rightarrow> 'd \<Rightarrow> u8 list \<times> 'd" where
  "read_spec sl 0 d = ([], d)"
| "read_spec sl (Suc n) d = (let (b, d1) = sl_read sl d; (bs, d2) = read_spec sl n d1 in (b # bs, d2))"

definition addr_byte :: "rt_i2c_msg \<Rightarrow> u8" where
  "addr_byte m = ucast (push_bit 1 (msg_addr m)) OR (if has_flag m RT_I2C_RD then 1 else 0)"

fun xfer_spec :: "'d slave \<Rightarrow> nat \<Rightarrow> nat \<Rightarrow> rt_i2c_msg list \<Rightarrow> 'd \<Rightarrow> rt_i2c_msg list \<times> int \<times> 'd" where
  "xfer_spec sl n i [] d = ([], int i, d)"
| "xfer_spec sl n i (m # ms) d =
     (let (ack, d1) = address_spec sl n (addr_byte m) d
      in if \<not> ack then (m # ms, - RT_EIO, d1)
         else if has_flag m RT_I2C_RD
         then let (bs, d2) = read_spec sl (unat (msg_len m)) d1;
                  (ms', r, d3) = xfer_spec sl n (Suc i) ms d2
              in (m\<lparr>msg_buf := bs @ drop (length bs) (msg_buf m)\<rparr> # ms', r, d3)
         else let (ok, d2) = write_spec sl (take (unat (msg_len m)) (msg_buf m)) d1
              in if \<not> ok then (m # ms, - RT_ERROR, d2)
                 else let (ms', r, d3) = xfer_spec sl n (Suc i) ms d2 in (m # ms', r, d3))"

text \<open>Messages with a seven bit address and no special flags; their buffers hold the length they give.\<close>

definition plain_msg :: "rt_i2c_msg \<Rightarrow> bool" where
  "plain_msg m \<longleftrightarrow> msg_flags m \<in> {RT_I2C_WR, RT_I2C_RD} \<and> unat (msg_len m) \<le> length (msg_buf m) \<and> (msg_flags m = RT_I2C_RD \<longrightarrow> msg_len m \<noteq> 0)"

lemma plain_flags:
  assumes "plain_msg m"
  shows "\<not> has_flag m RT_I2C_ADDR_10BIT" "\<not> has_flag m RT_I2C_NO_START" "\<not> has_flag m RT_I2C_IGNORE_NACK"
    "\<not> has_flag m RT_I2C_NO_READ_ACK" "\<not> has_flag m RT_I2C_NO_STOP" "has_flag m RT_I2C_RD \<longleftrightarrow> msg_flags m = RT_I2C_RD"
  using assms by (auto simp: plain_msg_def has_flag_def)

lemma bit_addr_byte: "bit (addr_byte m) 0 \<longleftrightarrow> has_flag m RT_I2C_RD"
  unfolding addr_byte_def bit_or_iff bit_ucast_iff bit_push_bit_iff by simp

lemma length_read_spec: "read_spec sl n d = (bs, d') \<Longrightarrow> length bs = n"
  by (induction n arbitrary: d bs d') (auto split: prod.splits)

text \<open>The lines after an acknowledged address.\<close>

definition addressed :: "'d slave \<Rightarrow> bool \<Rightarrow> bool \<Rightarrow> 'd \<Rightarrow> 'd wire" where
  "addressed sl tx ack d = (if \<not> ack then low True Idle d else if tx then sends sl True d else low True (Rx False []) d)"

context i2c_lines
begin

lemma writeb_bits_reaches:
  assumes "wire_scl sl False (\<alpha> w) = low v (Rx f bs) d" and "length bs + Suc k = 8"
  shows "reaches \<alpha> (writeb_bits ops data (Suc k) w) (high (bit data 0) (Rx f (bs @ map (bit data) (rev [0..<Suc k]))) d) RT_EOK"
  using assms
proof (induction k arbitrary: w v bs)
  case (0 w v bs)
  show ?case unfolding writeb_bits.simps
    by (rule arrives_bind [OF delays(1) [OF refl]], rule reaches_bind [OF SCL_H_rises [of _ "bit data 0" "Rx f bs" d]])
      (simp_all add: 0)
next
  case (Suc k w v bs)
  show ?case unfolding writeb_bits.simps(2) [of ops data "Suc k"]
  proof (rule arrives_bind [OF delays(1) [OF refl]], rule reaches_bind [OF SCL_H_rises [of _ "bit data (Suc k)" "Rx f bs" d]], goal_cases)
    case (2 w1 w2)
    have "wire_scl sl False (\<alpha> w2) = low (bit data (Suc k)) (Rx f (bs @ [bit data (Suc k)])) d" using 2(2) Suc.prems(2) by simp
    from Suc.IH [OF this] show ?case using Suc.prems(2) by simp
  qed (simp_all add: Suc.prems)
qed

lemma writeb_reaches:
  assumes "\<alpha> w = low v (Rx f []) d" and "(if f then sl_address sl else sl_write sl) data d = (ack, d')"
  shows "reaches \<alpha> (i2c_writeb ops data w) (addressed sl (f \<and> bit data 0) ack d') (if ack then 1 else 0)"
proof -
  let ?bits = "map (bit data) (rev [0..<8])"
  have bits: "reaches \<alpha> (writeb_bits ops data 8 w) (high (bit data 0) (Rx f ?bits) d) RT_EOK"
    using writeb_bits_reaches [of w v f "[]" d 7 data] assms(1) by (simp add: eval_nat_numeral)
  have fall: "wire_scl sl False (high (bit data 0) (Rx f ?bits) d) = low (bit data 0) (AckOut ack (f \<and> bit data 0)) d'"
    using wire_fall_byte [of ?bits f sl d ack d'] assms(2) by (simp add: byte_of_bits)
  let ?p = "AckOut ack (f \<and> bit data 0)"
  have wait: "reaches \<alpha> (i2c_waitack ops w2) (addressed sl (f \<and> bit data 0) ack d') (if ack then 1 else 0)" if "\<alpha> w2 = low u ?p d'" for w2 u
    unfolding i2c_waitack_def
    by (rule arrives_bind [OF delays(1) [OF refl]], rule reaches_bind [OF SCL_H_rises [of _ True ?p d']])
      (cases ack, auto simp: that addressed_def)
  show ?thesis unfolding i2c_writeb_def
  proof (rule reaches_bind [OF bits], goal_cases)
    case (1 w1)
    show ?case unfolding if_not_P [OF less_irrefl] by (rule arrives_bind [OF delays(1) [OF refl]], rule wait) (simp add: 1 fall)
  qed
qed

lemma readb_bits_reaches:
  assumes "\<alpha> w = low True (Tx b n) d" and "n < 8"
  shows "reaches \<alpha> (readb_bits ops (Suc n) (drop_bit (Suc n) b) w) (low True (AckIn None) d) (uint b)"
  using assms
proof (induction n arbitrary: w)
  case (0 w)
  have "push_bit 1 (drop_bit (Suc 0) b) OR (if bit b 0 then 1 else 0) = b" using drop_bit_step [of 0 b] by simp
  then show ?case unfolding readb_bits.simps
    by (intro reaches_bind [OF SCL_H_rises [OF 0(1)]]) (simp, rule arrives_bind [OF delays(2) [OF refl]], simp)
next
  case (Suc n w)
  show ?case unfolding readb_bits.simps(2) [of ops "Suc n"]
  proof (rule reaches_bind [OF SCL_H_rises [OF Suc.prems(1)]], goal_cases)
    case (1 w1)
    have data: "push_bit 1 (drop_bit (Suc (Suc n)) b) OR (if get_sda ops w1 then 1 else 0) = drop_bit (Suc n) b"
      using drop_bit_step [of "Suc n" b] 1 Suc.prems(2) by simp
    show ?case unfolding if_not_P [OF less_irrefl] Let_def data
      by (rule arrives_bind [OF delays(2) [OF refl]], rule Suc.IH) (use 1 Suc.prems(2) in simp_all)
  qed
qed

lemma readb_reaches:
  assumes "\<alpha> w = low v (Tx b 7) d"
  shows "reaches \<alpha> (i2c_readb ops w) (low True (AckIn None) d) (uint b)"
proof -
  have z: "drop_bit (Suc 7) b = 0" by (rule bit_word_eqI) (auto simp: bit_drop_bit_eq dest: bit_imp_le_length)
  show ?thesis unfolding i2c_readb_def
  proof (rule arrives_bind [OF delays(1) [OF refl]], goal_cases)
    case (1 w1)
    then show ?case using readb_bits_reaches [of w1 b 7 d] assms z by (simp add: eval_nat_numeral)
  qed
qed

lemma ack_reaches:
  assumes "\<alpha> w = low True (AckIn None) d"
  shows "reaches \<alpha> (i2c_send_ack_or_nack ops ack w) (if ack then sends sl False d else low True Idle d) RT_EOK"
  unfolding i2c_send_ack_or_nack_def
  by (rule arrives_bind [OF delays(1) [OF refl]], rule reaches_bind [OF SCL_H_rises [of _ "\<not> ack" "AckIn None" d]])
    (cases ack, auto simp: assms)

lemma recv_bytes_reaches:
  assumes "\<alpha> w = sends sl v d" and "read_spec sl (Suc n) d = (bs, d')"
  shows "reaches \<alpha> (recv_bytes ops False (Suc n) rcv w) (low True Idle d') (rcv @ bs, int (length rcv + length bs))"
  using assms
proof (induction n arbitrary: w v d bs rcv)
  case (0 w v d bs rcv)
  obtain b d1 where b: "sl_read sl d = (b, d1)" by fastforce
  then have x: "\<alpha> w = low v (Tx b 7) d1" and bs: "bs = [b]" "d' = d1" using 0 by (simp_all add: sends_def)
  show ?case unfolding recv_bytes.simps
  proof (rule reaches_bind [OF readb_reaches [OF x]], goal_cases)
    case (1 w1)
    have nn: "\<not> uint b < 0" by simp
    show ?case unfolding if_not_P [OF nn] Let_def if_False
      by (rule reaches_bind [OF ack_reaches [OF 1]]) (simp add: bs)
  qed
next
  case (Suc n w v d bs rcv)
  obtain b d1 where b: "sl_read sl d = (b, d1)" by fastforce
  obtain bs1 where bs: "read_spec sl (Suc n) d1 = (bs1, d')" "bs = b # bs1"
    using Suc.prems(2) b by (auto simp del: read_spec.simps simp: read_spec.simps(2) [of _ "Suc n"] split: prod.splits)
  have x: "\<alpha> w = low v (Tx b 7) d1" using Suc.prems(1) b by (simp add: sends_def)
  show ?case unfolding recv_bytes.simps(2) [of ops False "Suc n"]
  proof (rule reaches_bind [OF readb_reaches [OF x]], goal_cases)
    case (1 w1)
    have nn: "\<not> uint b < 0" by simp
    show ?case unfolding if_not_P [OF nn] Let_def if_False
    proof (rule reaches_bind [OF ack_reaches [OF 1]], goal_cases)
      case (1 w2)
      then have "\<alpha> w2 = sends sl False d1" by simp
      from Suc.IH [OF this bs(1), of "rcv @ [b]"] show ?case using bs(2) by simp
    qed
  qed
qed

lemma send_bytes_reaches:
  assumes "\<alpha> w = low v (Rx False []) d" and "write_spec sl bs d = (ok, d')"
  shows "reaches \<alpha> (send_bytes ops False bs n w) (if ok then low (bs \<noteq> [] \<or> v) (Rx False []) d' else low True Idle d')
    (if ok then n + int (length bs) else 0)"
  using assms
proof (induction bs arbitrary: w v d n)
  case (Cons b bs w v d n)
  obtain ack d1 where b: "sl_write sl b d = (ack, d1)" by fastforce
  have wb: "reaches \<alpha> (i2c_writeb ops b w) (addressed sl False ack d1) (if ack then 1 else 0)"
    using writeb_reaches [OF Cons.prems(1), of b ack d1] b by simp
  show ?case unfolding send_bytes.simps
  proof (rule reaches_bind [OF wb], goal_cases)
    case (1 w1)
    show ?case
    proof (cases ack)
      case True
      then have "\<alpha> w1 = low True (Rx False []) d1" using 1 by (simp add: addressed_def)
      from Cons.IH [OF this, of "n + 1"] show ?thesis using True Cons.prems(2) b by (cases ok) (simp_all add: algebra_simps)
    next
      case False
      then show ?thesis using 1 Cons.prems(2) b by (simp add: addressed_def)
    qed
  qed
qed simp

lemma send_address_reaches:
  assumes "\<alpha> w = low False (Rx True []) d" and "address_spec sl n a d = (ack, d')"
  shows "reaches \<alpha> (send_address_loop ops a n w) (addressed sl (bit a 0) ack d') (if ack then 1 else 0)"
  using assms
proof (induction n arbitrary: w d)
  case (0 w d)
  then show ?case using writeb_reaches [OF 0(1), of a ack d'] by simp
next
  case (Suc n w d)
  obtain k d1 where b: "sl_address sl a d = (k, d1)" by fastforce
  have wb: "reaches \<alpha> (i2c_writeb ops a w) (addressed sl (bit a 0) k d1) (if k then 1 else 0)"
    using writeb_reaches [OF Suc.prems(1), of a k d1] b by simp
  show ?case unfolding send_address_loop.simps
  proof (rule reaches_bind [OF wb], goal_cases)
    case (1 w1)
    show ?case
    proof (cases k)
      case True
      then show ?thesis using 1 Suc.prems(2) b by simp
    next
      case False
      then have x: "\<alpha> w1 = low True Idle d1" and sp: "address_spec sl n a (sl_stop sl d1) = (ack, d')"
        using 1 Suc.prems(2) b by (simp_all add: addressed_def)
      have stop: "arrives \<alpha> (i2c_stop ops w1) (at_rest (sl_stop sl d1))" by (rule stop_condition [OF x, where p' = Idle]) simp_all
      have "reaches \<alpha> (do { w2 \<leftarrow> i2c_stop ops w1; w3 \<leftarrow> i2c_delay2 ops w2; w4 \<leftarrow> i2c_start ops w3; send_address_loop ops a n w4 })
        (addressed sl (bit a 0) ack d') (if ack then 1 else 0)"
        by (rule arrives_bind [OF stop], rule arrives_bind [OF delays(2)], assumption, rule arrives_bind [OF start_condition], assumption)
          (simp, rule Suc.IH [OF _ sp], assumption)
      then show ?thesis using False by simp
    qed
  qed
qed

end

section \<open>The transfer\<close>

text \<open>The lines between two messages.\<close>

definition between :: "'d wire \<Rightarrow> 'd \<Rightarrow> bool" where
  "between x d \<longleftrightarrow> (\<exists>v. x = low v Idle d \<or> x = low v (Rx False []) d)"

lemma addressed_between [simp]: "\<not> (tx \<and> ack) \<Longrightarrow> between (addressed sl tx ack d) d"
  by (auto simp: addressed_def between_def)

context i2c_lines
begin

lemma restart_between: "between (\<alpha> w) d \<Longrightarrow> arrives \<alpha> (i2c_restart ops w) (low False (Rx True []) d)"
  unfolding between_def by (elim exE disjE) (rule restart_condition, assumption, simp, simp)+

lemma stop_between: "between (\<alpha> w) d \<Longrightarrow> arrives \<alpha> (i2c_stop ops w) (at_rest (sl_stop sl d))"
  unfolding between_def by (elim exE disjE) (rule stop_condition, assumption, simp, simp)+

lemma bit_send_address_reaches:
  assumes "plain_msg m" and "\<alpha> w = low False (Rx True []) d" and "0 \<le> sint retries"
    and "address_spec sl (nat (sint retries)) (addr_byte m) d = (ack, d')"
  shows "reaches \<alpha> (i2c_bit_send_address ops retries m w) (addressed sl (has_flag m RT_I2C_RD) ack d') (if ack then RT_EOK else - RT_EIO)"
proof -
  have "reaches \<alpha> (i2c_send_address ops (addr_byte m) (sint retries) w) (addressed sl (has_flag m RT_I2C_RD) ack d') (if ack then 1 else 0)"
    using send_address_reaches [OF assms(2,4)] assms(3) by (simp add: i2c_send_address_def bit_addr_byte)
  from reaches_bind [OF this, of "\<lambda>w1 r. if r \<noteq> 1 \<and> \<not> False then Some (w1, - RT_EIO) else Some (w1, RT_EOK)"] show ?thesis
    unfolding i2c_bit_send_address_def Let_def addr_byte_def [symmetric] using plain_flags [OF assms(1)] by simp
qed

text \<open>The first step of a message: a start or a repeated start, and the address.\<close>

lemma message_start:
  assumes "plain_msg m" and "if i = 0 then \<alpha> w = at_rest d else between (\<alpha> w) d" and "0 \<le> sint retries"
    and "address_spec sl (nat (sint retries)) (addr_byte m) d = (ack, d')"
  shows "reaches \<alpha> (do { w0 \<leftarrow> (if i \<noteq> 0 then i2c_restart ops w else i2c_start ops w); i2c_bit_send_address ops retries m w0 })
    (addressed sl (has_flag m RT_I2C_RD) ack d') (if ack then RT_EOK else - RT_EIO)"
proof (rule arrives_bind)
  show "arrives \<alpha> (if i \<noteq> 0 then i2c_restart ops w else i2c_start ops w) (low False (Rx True []) d)"
    using assms(2) restart_between start_condition by (cases "i = 0") simp_all
qed (rule bit_send_address_reaches [OF assms(1) _ assms(3,4)])

lemma recv_message:
  assumes "plain_msg m" and "has_flag m RT_I2C_RD" and "\<alpha> w = sends sl True d" and "read_spec sl (unat (msg_len m)) d = (bs, d')"
  shows "reaches \<alpha> (i2c_recv_bytes ops m w) (low True Idle d') (m\<lparr>msg_buf := bs @ drop (length bs) (msg_buf m)\<rparr>, int (unat (msg_len m)))"
proof -
  have "unat (msg_len m) \<noteq> 0" using assms(1,2) plain_flags(6) by (auto simp: plain_msg_def unat_eq_0)
  then obtain n where n: "unat (msg_len m) = Suc n" using not0_implies_Suc by blast
  have "reaches \<alpha> (recv_bytes ops False (Suc n) [] w) (low True Idle d') (bs, int (Suc n))"
    using recv_bytes_reaches [OF assms(3), of n bs d' "[]"] assms(4) length_read_spec [OF assms(4)] by (simp add: n)
  from reaches_bind [OF this, of "\<lambda>w1 (rcv, r). Some (w1, m\<lparr>msg_buf := rcv @ drop (length rcv) (msg_buf m)\<rparr>, r)"]
  show ?thesis unfolding i2c_recv_bytes_def using plain_flags(4) [OF assms(1)] n by simp
qed

lemma send_message:
  assumes "plain_msg m" and "\<alpha> w = low True (Rx False []) d" and "write_spec sl (take (unat (msg_len m)) (msg_buf m)) d = (ok, d')"
  shows "reaches \<alpha> (i2c_send_bytes ops m w) (low True (if ok then Rx False [] else Idle) d') (if ok then int (unat (msg_len m)) else 0)"
  using send_bytes_reaches [OF assms(2,3), of 0] plain_flags(3) [OF assms(1)] assms(1)
  by (cases ok) (simp_all add: i2c_send_bytes_def plain_msg_def min_absorb2)

lemma write_spec_fails: "write_spec sl bs d = (False, d') \<Longrightarrow> bs \<noteq> []"
  by auto

lemma xfer_loop_reaches:
  assumes "\<forall>m\<in>set ms. plain_msg m" and "plain_msg m0" and "0 \<le> sint retries"
    and "if i = 0 then \<alpha> w = at_rest d \<and> ms \<noteq> [] else between (\<alpha> w) d"
    and "xfer_spec sl (nat (sint retries)) i ms d = (ms', r, d')"
  shows "\<exists>x l. reaches \<alpha> (xfer_loop ops retries i m0 ms w) x (ms', r, l) \<and> between x d' \<and> \<not> has_flag l RT_I2C_NO_STOP"
  using assms
proof (induction ms arbitrary: i m0 w d ms')
  case Nil
  then show ?case using plain_flags(5) by (cases "i = 0") auto
next
  case (Cons m ms i m0 w d ms')
  have pl: "plain_msg m" using Cons.prems(1) by simp
  note fl = plain_flags [OF pl]
  obtain ack d1 where a: "address_spec sl (nat (sint retries)) (addr_byte m) d = (ack, d1)" by fastforce
  obtain w1 where w1: "do { w0 \<leftarrow> (if i \<noteq> 0 then i2c_restart ops w else i2c_start ops w); i2c_bit_send_address ops retries m w0 } =
      Some (w1, if ack then RT_EOK else - RT_EIO)" "\<alpha> w1 = addressed sl (has_flag m RT_I2C_RD) ack d1"
    using message_start [OF pl _ Cons.prems(3) a, of i w] Cons.prems(4) by (auto simp: reaches_def split: if_splits)
  note xs = xfer_loop.simps(2) [of ops retries i m0 m ms w] w1(1)
  consider (nack) "\<not> ack" | (recv) "ack" "has_flag m RT_I2C_RD" | (send) "ack" "\<not> has_flag m RT_I2C_RD" by blast
  then show ?case
  proof cases
    case nack
    then have "xfer_loop ops retries i m0 (m # ms) w = Some (w1, m # ms, - RT_EIO, m)" using xs fl by simp
    then show ?thesis using nack w1(2) a Cons.prems(5) fl by (intro exI [of _ "\<alpha> w1"] exI [of _ m]) auto
  next
    case recv
    obtain bs d2 where b: "read_spec sl (unat (msg_len m)) d1 = (bs, d2)" by fastforce
    let ?m = "m\<lparr>msg_buf := bs @ drop (length bs) (msg_buf m)\<rparr>"
    obtain ms1 where s: "xfer_spec sl (nat (sint retries)) (Suc i) ms d2 = (ms1, r, d')" "ms' = ?m # ms1"
      using Cons.prems(5) a b recv by (auto split: prod.splits)
    obtain w2 where w2: "i2c_recv_bytes ops m w1 = Some (w2, ?m, int (unat (msg_len m)))" "\<alpha> w2 = low True Idle d2"
      using recv_message [OF pl recv(2) _ b, of w1] w1(2) recv by (auto simp: reaches_def addressed_def)
    have pm: "plain_msg ?m" using pl by (auto simp: plain_msg_def)
    have "if Suc i = 0 then \<alpha> w2 = at_rest d2 \<and> ms \<noteq> [] else between (\<alpha> w2) d2" using w2(2) by (auto simp: between_def)
    from Cons.IH [OF _ pm Cons.prems(3) this s(1)] Cons.prems(1) obtain x l where
      "reaches \<alpha> (xfer_loop ops retries (Suc i) ?m ms w2) x (ms1, r, l)" "between x d'" "\<not> has_flag l RT_I2C_NO_STOP" by auto
    then show ?thesis using xs w2(1) recv fl s(2) by (intro exI [of _ x] exI [of _ l]) (auto simp: reaches_def)
  next
    case send
    obtain ok d2 where b: "write_spec sl (take (unat (msg_len m)) (msg_buf m)) d1 = (ok, d2)" by fastforce
    obtain w2 where w2: "i2c_send_bytes ops m w1 = Some (w2, if ok then int (unat (msg_len m)) else 0)" "\<alpha> w2 = low True (if ok then Rx False [] else Idle) d2"
      using send_message [OF pl _ b, of w1] w1(2) send by (auto simp: reaches_def addressed_def)
    show ?thesis
    proof (cases ok)
      case False
      then have "unat (msg_len m) \<noteq> 0" using b write_spec_fails by (metis take_eq_Nil)
      then have "0 < uint (msg_len m)" by (metis gr0I of_nat_0_less_iff uint_nat)
      then have "xfer_loop ops retries i m0 (m # ms) w = Some (w2, m # ms, - RT_ERROR, m)" using xs w2(1) send fl False by simp
      then show ?thesis using w2(2) a b Cons.prems(5) send fl False by (intro exI [of _ "\<alpha> w2"] exI [of _ m]) (auto simp: between_def)
    next
      case True
      obtain ms1 where s: "xfer_spec sl (nat (sint retries)) (Suc i) ms d2 = (ms1, r, d')" "ms' = m # ms1"
        using Cons.prems(5) a b send True by (auto split: prod.splits)
      have "if Suc i = 0 then \<alpha> w2 = at_rest d2 \<and> ms \<noteq> [] else between (\<alpha> w2) d2" using w2(2) True by (auto simp: between_def)
      from Cons.IH [OF _ pl Cons.prems(3) this s(1)] Cons.prems(1) obtain x l where
        "reaches \<alpha> (xfer_loop ops retries (Suc i) m ms w2) x (ms1, r, l)" "between x d'" "\<not> has_flag l RT_I2C_NO_STOP" by auto
      then show ?thesis using xs w2(1) send fl s(2) True by (intro exI [of _ x] exI [of _ l]) (auto simp: reaches_def)
    qed
  qed
qed

lemma xfer_reaches:
  assumes "\<forall>m\<in>set ms. plain_msg m" and "ms \<noteq> []" and "0 \<le> sint retries" and "\<alpha> w = at_rest d"
    and "xfer_spec sl (nat (sint retries)) 0 ms d = (ms', r, d')"
  shows "reaches \<alpha> (i2c_bit_xfer ops retries ms w) (at_rest (sl_stop sl d')) (ms', r)"
proof -
  have "plain_msg (hd ms)" using assms(1,2) by simp
  from xfer_loop_reaches [OF assms(1) this assms(3), of 0 w d] assms(2,4,5) obtain x l where
    x: "reaches \<alpha> (xfer_loop ops retries 0 (hd ms) ms w) x (ms', r, l)" "between x d'" "\<not> has_flag l RT_I2C_NO_STOP" by auto
  then obtain w1 where w1: "xfer_loop ops retries 0 (hd ms) ms w = Some (w1, ms', r, l)" "\<alpha> w1 = x" by (auto simp: reaches_def)
  obtain w2 where "i2c_stop ops w1 = Some w2" "\<alpha> w2 = at_rest (sl_stop sl d')"
    using stop_between [of w1 d'] w1(2) x(2) by (auto simp: arrives_def)
  then show ?thesis using w1 x(3) assms(2) by (simp add: i2c_bit_xfer_def)
qed

end

end
