(* ===== verification/SoftI2c.thy ===== *)
theory SoftI2c
  imports I2cBits
begin

text \<open>
  The I2C bus of the board on two pins, \<^verbatim>\<open>drivers/drv_soft_i2c.c\<close>: the functions of \<^verbatim>\<open>stm32_bit_ops_default\<close>, the delay on the counter
  of the processor, and the unlocking of a bus that a device holds. Writing and reading a pin end in the HAL functions
  \<^verbatim>\<open>HAL_GPIO_WritePin\<close> and \<^verbatim>\<open>HAL_GPIO_ReadPin\<close>, which are parameters, like the counter \<^verbatim>\<open>SysTick->VAL\<close>, whose reading takes time.
\<close>

section \<open>Pins and delay\<close>

record 'w pins =
  hal_write :: "nat \<Rightarrow> bool \<Rightarrow> 'w \<Rightarrow> 'w"
  hal_read :: "nat \<Rightarrow> 'w \<Rightarrow> bool"
  systick_val :: "'w \<Rightarrow> u32 \<times> 'w"
  systick_load :: u32
  kernel_tick :: "'w \<Rightarrow> u32"
  kernel_delay :: "u32 \<Rightarrow> 'w \<Rightarrow> 'w"

record stm32_soft_i2c_config =
  cfg_scl :: nat
  cfg_sda :: nat

definition stm32_set_sda :: "'w pins \<Rightarrow> stm32_soft_i2c_config \<Rightarrow> bool \<Rightarrow> 'w \<Rightarrow> 'w" where
  "stm32_set_sda pins cfg state w = (if state then hal_write pins (cfg_sda cfg) True w else hal_write pins (cfg_sda cfg) False w)"

definition stm32_set_scl :: "'w pins \<Rightarrow> stm32_soft_i2c_config \<Rightarrow> bool \<Rightarrow> 'w \<Rightarrow> 'w" where
  "stm32_set_scl pins cfg state w = (if state then hal_write pins (cfg_scl cfg) True w else hal_write pins (cfg_scl cfg) False w)"

definition stm32_get_sda :: "'w pins \<Rightarrow> stm32_soft_i2c_config \<Rightarrow> 'w \<Rightarrow> bool" where
  "stm32_get_sda pins cfg w = hal_read pins (cfg_sda cfg) w"

definition stm32_get_scl :: "'w pins \<Rightarrow> stm32_soft_i2c_config \<Rightarrow> 'w \<Rightarrow> bool" where
  "stm32_get_scl pins cfg w = hal_read pins (cfg_scl cfg) w"

partial_function (option) udelay_loop :: "'w pins \<Rightarrow> u32 \<Rightarrow> u32 \<Rightarrow> u32 \<Rightarrow> 'w \<Rightarrow> 'w option" where
  "udelay_loop pins ticks told tcnt w =
     (let (tnow, w1) = systick_val pins w
      in if tnow \<noteq> told
         then let tcnt1 = (if tnow < told then tcnt + (told - tnow) else tcnt + (systick_load pins - tnow + told))
              in if ticks \<le> tcnt1 then Some w1 else udelay_loop pins ticks tnow tcnt1 w1
         else udelay_loop pins ticks told tcnt w1)"

definition stm32_udelay :: "'w pins \<Rightarrow> u32 \<Rightarrow> 'w \<Rightarrow> 'w option" where
  "stm32_udelay pins us w =
     (let ticks = us * systick_load pins div (1000000 div RT_TICK_PER_SECOND);
          (told, w1) = systick_val pins w
      in udelay_loop pins ticks told 0 w1)"

definition stm32_bit_ops :: "'w pins \<Rightarrow> stm32_soft_i2c_config \<Rightarrow> 'w bit_ops" where
  "stm32_bit_ops pins cfg = \<lparr>set_sda = stm32_set_sda pins cfg, set_scl = stm32_set_scl pins cfg, get_sda = stm32_get_sda pins cfg,
     get_scl = Some (stm32_get_scl pins cfg), udelay = stm32_udelay pins, delay_us = 1, ops_timeout = 100,
     tick_get = kernel_tick pins, thread_delay = kernel_delay pins\<rparr>"

text \<open>\<^verbatim>\<open>stm32_i2c_gpio_init\<close> (the pins have been made open-drain outputs), and the clock pulses of \<^verbatim>\<open>stm32_i2c_bus_unlock\<close>.\<close>

definition stm32_i2c_gpio_init :: "'w pins \<Rightarrow> stm32_soft_i2c_config \<Rightarrow> 'w \<Rightarrow> 'w" where
  "stm32_i2c_gpio_init pins cfg w = hal_write pins (cfg_sda cfg) True (hal_write pins (cfg_scl cfg) True w)"

primrec unlock_pulses :: "'w pins \<Rightarrow> stm32_soft_i2c_config \<Rightarrow> nat \<Rightarrow> 'w \<Rightarrow> 'w option" where
  "unlock_pulses pins cfg 0 w = Some w"
| "unlock_pulses pins cfg (Suc n) w = do {
     w1 \<leftarrow> stm32_udelay pins 100 (hal_write pins (cfg_scl cfg) True w);
     w2 \<leftarrow> stm32_udelay pins 100 (hal_write pins (cfg_scl cfg) False w1);
     unlock_pulses pins cfg n w2 }"

definition stm32_i2c_bus_unlock :: "'w pins \<Rightarrow> stm32_soft_i2c_config \<Rightarrow> 'w \<Rightarrow> ('w \<times> rt_err_t) option" where
  "stm32_i2c_bus_unlock pins cfg w = do {
     w1 \<leftarrow> (if \<not> hal_read pins (cfg_sda cfg) w then unlock_pulses pins cfg 9 w else Some w);
     if \<not> hal_read pins (cfg_sda cfg) w1 then Some (w1, - RT_ERROR) else Some (w1, RT_EOK) }"

section \<open>The delay returns\<close>

text \<open>
  The counter of the processor is 24 bits wide, counts down from the reload value and starts again; between two readings it moves, by
  less than a whole round.
\<close>

definition systick_counts :: "'w pins \<Rightarrow> bool" where
  "systick_counts pins \<longleftrightarrow> 0 < systick_load pins \<and> systick_load pins < 2 ^ 24 \<and>
     (\<forall>w v w1. systick_val pins w = (v, w1) \<longrightarrow> v \<le> systick_load pins \<and>
        (\<exists>k v' w2. systick_val pins w1 = (v', w2) \<and> 1 \<le> k \<and> k \<le> unat (systick_load pins) \<and>
           unat v' = (unat v + (unat (systick_load pins) + 1) - k) mod (unat (systick_load pins) + 1)))"

text \<open>One turn of the loop: the count grows, or the counter has started again.\<close>

lemma udelay_turn:
  fixes v v' load tcnt :: u32
  assumes "1 \<le> k" and "k \<le> unat load" and "v \<le> load" and "unat v' = (unat v + (unat load + 1) - k) mod (unat load + 1)"
    and "unat tcnt + unat load < 2 ^ 32"
  shows "v' \<noteq> v" and "unat (if v' < v then tcnt + (v - v') else tcnt + (load - v' + v)) = unat tcnt + (if k \<le> unat v then k else k - 1)"
    and "k \<le> unat v \<or> v' \<noteq> 0"
proof -
  have le: "unat v \<le> unat load" using assms(3) by (simp add: word_le_nat_alt)
  have v': "unat v' = (if k \<le> unat v then unat v - k else unat v + unat load + 1 - k)"
  proof (cases "k \<le> unat v")
    case True
    then have e: "unat v + (unat load + 1) - k = (unat v - k) + (unat load + 1)" by simp
    show ?thesis using True le assms(4) unfolding e mod_add_self2 by simp
  next
    case False
    then show ?thesis using le assms by simp
  qed
  then show "v' \<noteq> v" "k \<le> unat v \<or> v' \<noteq> 0" using assms(1,2) le by (auto split: if_splits simp: unat_gt_0 [symmetric])
  have lt: "v' < v \<longleftrightarrow> k \<le> unat v" using v' assms(1,2) by (cases "k \<le> unat v") (simp_all add: word_less_nat_alt)
  show "unat (if v' < v then tcnt + (v - v') else tcnt + (load - v' + v)) = unat tcnt + (if k \<le> unat v then k else k - 1)"
  proof (cases "k \<le> unat v")
    case True
    have "unat (v - v') = k" using True v' lt by (simp add: unat_sub word_less_nat_alt word_le_nat_alt)
    then show ?thesis using True lt assms(2,5) by (simp add: unat_plus_if')
  next
    case False
    have "unat (load - v') = unat load - unat v'" using False v' assms(1,2) le by (intro unat_sub) (simp add: word_le_nat_alt)
    then have "unat (load - v' + v) = k - 1" using False v' assms(1,2) le unat_u32_less [of load] by (simp add: unat_plus_if')
    then show ?thesis using False lt assms(2,5) by (simp add: unat_plus_if')
  qed
qed

lemma udelay_loop_returns:
  assumes "systick_counts pins" and "systick_val pins w0 = (told, w)" and "unat tcnt \<le> unat ticks" and "unat ticks + 2 ^ 24 < 2 ^ 32"
    and "\<forall>w. \<alpha> (snd (systick_val pins w)) = \<alpha> w"
  shows "\<exists>w'. udelay_loop pins ticks told tcnt w = Some w' \<and> \<alpha> w' = \<alpha> w"
  using assms(2,3)
proof (induction "2 * (unat ticks - unat tcnt) + (if told = 0 then 1 else 0 :: nat)" arbitrary: w0 told w tcnt rule: less_induct)
  case (less told tcnt w0 w)
  let ?R = "systick_load pins"
  obtain k v' w2 where k: "told \<le> ?R" "systick_val pins w = (v', w2)" "1 \<le> k" "k \<le> unat ?R"
      "unat v' = (unat told + (unat ?R + 1) - k) mod (unat ?R + 1)"
    using assms(1) less.prems(1) unfolding systick_counts_def by blast
  have R: "unat ?R < 2 ^ 24" using assms(1) by (simp add: systick_counts_def word_less_nat_alt)
  have "unat tcnt + unat ?R < 2 ^ 32" using R less.prems(2) assms(4) by linarith
  note turn = udelay_turn [OF k(3,4,1,5) this]
  have \<alpha>: "\<alpha> w2 = \<alpha> w" using assms(5) k(2) by (metis snd_conv)
  define t1 where "t1 = (if v' < told then tcnt + (told - v') else tcnt + (?R - v' + told))"
  have u: "udelay_loop pins ticks told tcnt w = (if ticks \<le> t1 then Some w2 else udelay_loop pins ticks v' t1 w2)"
    using turn(1) k(2) by (subst udelay_loop.simps) (simp add: t1_def)
  show ?case
  proof (cases "ticks \<le> t1")
    case True
    then show ?thesis using u \<alpha> by simp
  next
    case False
    then have l: "unat t1 < unat ticks" by (simp add: word_le_nat_alt)
    have t1: "unat t1 = unat tcnt + (if k \<le> unat told then k else k - 1)" using turn(2) by (simp add: t1_def)
    have "2 * (unat ticks - unat t1) + (if v' = 0 then 1 else 0) < 2 * (unat ticks - unat tcnt) + (if told = 0 then 1 else 0 :: nat)"
      using t1 l turn(3) k(3) by (cases "k \<le> unat told") (auto simp: unat_gt_0 [symmetric])
    from less.hyps [OF this k(2)] l u False \<alpha> show ?thesis by (auto simp: less_imp_le)
  qed
qed

lemma stm32_udelay_returns:
  assumes "systick_counts pins" and "\<forall>w. \<alpha> (snd (systick_val pins w)) = \<alpha> w"
  shows "\<exists>w'. stm32_udelay pins us w = Some w' \<and> \<alpha> w' = \<alpha> w"
proof -
  define ticks where "ticks = us * systick_load pins div 1000"
  obtain told w1 where w1: "systick_val pins w = (told, w1)" by fastforce
  have "unat ticks < 2 ^ 32 div 1000 + 1" using unat_u32_less [of "us * systick_load pins"] by (simp add: ticks_def unat_div)
  then have "\<exists>w'. udelay_loop pins ticks told 0 w1 = Some w' \<and> \<alpha> w' = \<alpha> w1"
    by (intro udelay_loop_returns [OF assms(1) w1 _ _ assms(2)]) simp_all
  then show ?thesis using w1 assms(2) by (simp add: stm32_udelay_def ticks_def) (metis snd_conv)
qed

section \<open>The pins on the bus\<close>

text \<open>The two pins are the lines of an I2C bus; reading the counter leaves them alone.\<close>

definition pins_wired :: "'w pins \<Rightarrow> stm32_soft_i2c_config \<Rightarrow> ('w \<Rightarrow> 'd wire) \<Rightarrow> 'd slave \<Rightarrow> bool" where
  "pins_wired pins cfg \<alpha> sl \<longleftrightarrow>
     (\<forall>v w. \<alpha> (hal_write pins (cfg_sda cfg) v w) = wire_sda sl v (\<alpha> w)) \<and>
     (\<forall>v w. \<alpha> (hal_write pins (cfg_scl cfg) v w) = wire_scl sl v (\<alpha> w)) \<and>
     (\<forall>w. hal_read pins (cfg_sda cfg) w = line (\<alpha> w)) \<and>
     (\<forall>w. hal_read pins (cfg_scl cfg) w = w_scl (\<alpha> w)) \<and>
     (\<forall>w. \<alpha> (snd (systick_val pins w)) = \<alpha> w) \<and> systick_counts pins"

lemma stm32_wired:
  assumes "pins_wired pins cfg \<alpha> sl"
  shows "wired (stm32_bit_ops pins cfg) \<alpha> sl"
  using assms stm32_udelay_returns [of pins \<alpha>]
  by (simp add: wired_def pins_wired_def stm32_bit_ops_def stm32_set_sda_def stm32_set_scl_def stm32_get_sda_def stm32_get_scl_def)

text \<open>The bus \<^verbatim>\<open>i2c1\<close> of the board: PB8 and PB9, with a counter that is read at every count.\<close>

definition i2c1_config :: stm32_soft_i2c_config where
  "i2c1_config = \<lparr>cfg_scl = 24, cfg_sda = 25\<rparr>"

record 'd pin_world =
  pw_wire :: "'d wire"
  pw_count :: nat

definition board_pins :: "'d slave \<Rightarrow> 'd pin_world pins" where
  "board_pins sl = \<lparr>
     hal_write = (\<lambda>pin v w. if pin = cfg_sda i2c1_config then w\<lparr>pw_wire := wire_sda sl v (pw_wire w)\<rparr>
       else if pin = cfg_scl i2c1_config then w\<lparr>pw_wire := wire_scl sl v (pw_wire w)\<rparr> else w),
     hal_read = (\<lambda>pin w. if pin = cfg_sda i2c1_config then line (pw_wire w) else w_scl (pw_wire w)),
     systick_val = (\<lambda>w. (of_nat (479999 - pw_count w mod 480000), w\<lparr>pw_count := Suc (pw_count w)\<rparr>)),
     systick_load = 479999, kernel_tick = (\<lambda>w. of_nat (pw_count w div 480000)), kernel_delay = (\<lambda>n w. w)\<rparr>"

lemma unat_count: "n < 480000 \<Longrightarrow> unat (of_nat n :: u32) = n"
  by (simp add: unat_of_nat take_bit_nat_eq_self)

lemma count_down:
  fixes M n :: nat
  assumes "2 \<le> M"
  shows "M - 1 - Suc n mod M = (M - 1 - n mod M + M - 1) mod M"
proof (cases "Suc (n mod M) = M")
  case True
  then show ?thesis using assms by (simp add: mod_Suc)
next
  case False
  have "n mod M < M" using assms by simp
  then have l: "Suc (n mod M) < M" using False by linarith
  then have "M - 1 - n mod M + M - 1 = (M - 1 - Suc (n mod M)) + M" by simp
  then have "(M - 1 - n mod M + M - 1) mod M = (M - 1 - Suc (n mod M)) mod M" by (metis mod_add_self2)
  also have "\<dots> = M - 1 - Suc (n mod M)" using l by simp
  finally have "(M - 1 - n mod M + M - 1) mod M = M - 1 - Suc (n mod M)" .
  moreover have "Suc n mod M = Suc (n mod M)" using l by (simp add: mod_Suc)
  ultimately show ?thesis by simp
qed

lemma systick_counts_board: "systick_counts (board_pins sl)"
  unfolding systick_counts_def
proof (intro conjI allI impI)
  have e: "unat (of_nat (479999 - n mod 480000) :: u32) = 479999 - n mod 480000" for n :: nat by (rule unat_count) simp
  fix w v w1
  assume "systick_val (board_pins sl) w = (v, w1)"
  then have v: "v = of_nat (479999 - pw_count w mod 480000)" "w1 = w\<lparr>pw_count := Suc (pw_count w)\<rparr>"
    by (simp_all only: board_pins_def pins.simps prod.inject)
  show "v \<le> systick_load (board_pins sl)" unfolding v word_le_nat_alt e by (simp add: board_pins_def)
  have "systick_val (board_pins sl) w1 = (of_nat (479999 - Suc (pw_count w) mod 480000), w1\<lparr>pw_count := Suc (pw_count w1)\<rparr>)"
    by (simp only: board_pins_def pins.simps) (simp only: v(2), simp)
  moreover have "unat (of_nat (479999 - Suc (pw_count w) mod 480000) :: u32) = (unat v + (unat (systick_load (board_pins sl)) + 1) - 1) mod (unat (systick_load (board_pins sl)) + 1)"
    unfolding v(1) e using count_down [of 480000 "pw_count w"] by (simp add: board_pins_def)
  ultimately show "\<exists>k v' w2. systick_val (board_pins sl) w1 = (v', w2) \<and> 1 \<le> k \<and> k \<le> unat (systick_load (board_pins sl)) \<and>
      unat v' = (unat v + (unat (systick_load (board_pins sl)) + 1) - k) mod (unat (systick_load (board_pins sl)) + 1)"
    by (intro exI [of _ 1] exI conjI) (assumption, simp, simp add: board_pins_def, assumption)
qed (simp_all add: board_pins_def)

lemma board_pins_wired: "pins_wired (board_pins sl) i2c1_config pw_wire sl"
  unfolding pins_wired_def by (intro conjI systick_counts_board) (simp_all add: board_pins_def i2c1_config_def)

interpretation soft: i2c_lines "stm32_bit_ops (board_pins sl) i2c1_config" pw_wire sl for sl
  by unfold_locales (rule stm32_wired [OF board_pins_wired])

section \<open>Unlocking\<close>

abbreviation pulse :: "'d slave \<Rightarrow> 'd wire \<Rightarrow> 'd wire" where
  "pulse sl x \<equiv> wire_scl sl False (wire_scl sl True x)"

lemma unlock_pulses_arrives:
  assumes "pins_wired pins cfg \<alpha> sl"
  shows "arrives \<alpha> (unlock_pulses pins cfg n w) ((pulse sl ^^ n) (\<alpha> w))"
proof (induction n arbitrary: w)
  case (Suc n w)
  have d: "\<exists>w'. stm32_udelay pins 100 w = Some w' \<and> \<alpha> w' = \<alpha> w" for w
    using assms by (intro stm32_udelay_returns) (simp_all add: pins_wired_def)
  have s: "\<alpha> (hal_write pins (cfg_scl cfg) v w) = wire_scl sl v (\<alpha> w)" for v w using assms by (simp add: pins_wired_def)
  obtain w1 where w1: "stm32_udelay pins 100 (hal_write pins (cfg_scl cfg) True w) = Some w1" "\<alpha> w1 = wire_scl sl True (\<alpha> w)" using d s by metis
  obtain w2 where w2: "stm32_udelay pins 100 (hal_write pins (cfg_scl cfg) False w1) = Some w2" "\<alpha> w2 = pulse sl (\<alpha> w)" using d s w1(2) by metis
  show ?case using Suc.IH [of w2] w1(1) w2 by (simp add: funpow_Suc_right del: funpow.simps)
qed simp

lemma high_stays [simp]: "wire_scl sl True (high v p d) = high v p d"
  by (simp add: wire_scl_def high_def)

lemma pulses_idle: "(pulse sl ^^ n) (low True Idle d) = low True Idle d"
  by (induction n) simp_all

lemma pulses_tx: "k \<le> n \<Longrightarrow> (pulse sl ^^ k) (high True (Tx b n) d) = (if k = 0 then high True (Tx b n) d else low True (Tx b (n - k)) d)"
proof (induction k)
  case (Suc k)
  then obtain m where "n = Suc (k + m)" by (metis less_iff_Suc_add Suc_le_eq)
  then show ?case using Suc by (cases k) (simp_all add: Suc_diff_le)
qed simp

lemma nine_pulses:
  assumes "n < 8"
  shows "(pulse sl ^^ 9) (high True (Tx b n) d) = low True Idle d"
proof -
  have e: "9 = (7 - n) + (Suc (Suc n))" using assms by simp
  have "(pulse sl ^^ (Suc (Suc n))) (high True (Tx b n) d) = low True Idle d"
    using pulses_tx [of n n sl b d] by (cases n) simp_all
  then show ?thesis unfolding e funpow_add comp_def by (simp only: pulses_idle)
qed

context i2c_lines
begin

text \<open>A byte nobody listens to.\<close>

lemma writeb_bits_idle:
  assumes "wire_scl sl False (\<alpha> w) = low v Idle d"
  shows "reaches \<alpha> (writeb_bits ops data (Suc k) w) (high (bit data 0) Idle d) RT_EOK"
  using assms
proof (induction k arbitrary: w v)
  case (0 w v)
  show ?case unfolding writeb_bits.simps
    by (rule arrives_bind [OF delays(1) [OF refl]], rule reaches_bind [OF SCL_H_rises [of _ "bit data 0" Idle d]]) (simp_all add: 0)
next
  case (Suc k w v)
  show ?case unfolding writeb_bits.simps(2) [of ops data "Suc k"]
  proof (rule arrives_bind [OF delays(1) [OF refl]], rule reaches_bind [OF SCL_H_rises [of _ "bit data (Suc k)" Idle d]], goal_cases)
    case (2 w1 w2)
    then show ?case using Suc.IH [of w2 "bit data (Suc k)"] by simp
  qed (simp add: Suc.prems)
qed

lemma writeb_idle:
  assumes "\<alpha> w = low v Idle d"
  shows "reaches \<alpha> (i2c_writeb ops data w) (low True Idle d) 0"
proof -
  have bits: "reaches \<alpha> (writeb_bits ops data 8 w) (high (bit data 0) Idle d) RT_EOK"
    using writeb_bits_idle [of w v d data 7] assms by (simp add: eval_nat_numeral)
  have wait: "reaches \<alpha> (i2c_waitack ops w2) (low True Idle d) 0" if "\<alpha> w2 = low u Idle d" for w2 u
    unfolding i2c_waitack_def
    by (rule arrives_bind [OF delays(1) [OF refl]], rule reaches_bind [OF SCL_H_rises [of _ True Idle d]]) (simp_all add: that)
  show ?thesis unfolding i2c_writeb_def
  proof (rule reaches_bind [OF bits], goal_cases)
    case (1 w1)
    show ?case unfolding if_not_P [OF less_irrefl] by (rule arrives_bind [OF delays(1) [OF refl]], rule wait) (simp add: 1)
  qed
qed

text \<open>A transfer that begins while SCL is low has no start condition.\<close>

lemma xfer_without_start:
  assumes "plain_msg m" and "\<alpha> w = low v Idle d"
  shows "reaches \<alpha> (i2c_bit_xfer ops 0 (m # ms) w) (at_rest (sl_stop sl d)) (m # ms, - RT_EIO)"
proof -
  note fl = plain_flags [OF assms(1)]
  have "arrives \<alpha> (i2c_start ops w) (low False Idle d)"
    unfolding i2c_start_def by (rule arrives_arrives [OF delays(1) [OF refl]]) (simp add: assms(2))
  then obtain w0 where w0: "i2c_start ops w = Some w0" "\<alpha> w0 = low False Idle d" by (auto simp: arrives_def)
  obtain w1 where w1: "i2c_writeb ops (addr_byte m) w0 = Some (w1, 0)" "\<alpha> w1 = low True Idle d"
    using writeb_idle [OF w0(2)] by (auto simp: reaches_def)
  obtain w2 where w2: "i2c_stop ops w1 = Some w2" "\<alpha> w2 = at_rest (sl_stop sl d)"
    using stop_condition [OF w1(2), where p' = Idle] by (auto simp: arrives_def)
  have "i2c_bit_send_address ops 0 m w0 = Some (w1, - RT_EIO)"
    unfolding i2c_bit_send_address_def Let_def addr_byte_def [symmetric] using w1(1) fl by (simp add: i2c_send_address_def)
  then have "xfer_loop ops 0 0 m (m # ms) w = Some (w1, m # ms, - RT_EIO, m)" using w0(1) fl by simp
  then show ?thesis using w2 fl by (simp add: i2c_bit_xfer_def)
qed

end

section \<open>Properties\<close>

text \<open>C28. The transfer of messages bit by bit on the pins is a transfer byte by byte: for every list of plain messages (seven bit addresses,
  reading or writing) on a bus at rest, the driver returns, the devices have seen exactly the bytes of the messages between start and stop
  conditions, the buffers hold the bytes the devices sent, and the result is the number of messages or the error of the first
  address or byte that was not acknowledged; then the bus is at rest again.\<close>

theorem i2c_bit_xfer_refines:
  assumes "pins_wired pins cfg \<alpha> sl" and "\<forall>m\<in>set ms. plain_msg m" and "ms \<noteq> []" and "0 \<le> sint retries" and "\<alpha> w = at_rest d"
    and "xfer_spec sl (nat (sint retries)) 0 ms d = (ms', r, d')"
  shows "\<exists>w'. i2c_bit_xfer (stm32_bit_ops pins cfg) retries ms w = Some (w', ms', r) \<and> \<alpha> w' = at_rest (sl_stop sl d')"
  using i2c_lines.xfer_reaches [OF i2c_lines.intro [OF stm32_wired [OF assms(1)]] assms(2-)] by (auto simp: reaches_def)

text \<open>A bus on which a device holds SDA low in the middle of a byte it sends is free after \<^verbatim>\<open>stm32_i2c_bus_unlock\<close>.\<close>

theorem stm32_i2c_bus_unlock_frees:
  assumes "pins_wired pins cfg \<alpha> sl" and "\<alpha> w = high True (Tx b n) d" and "n < 8" and "\<not> bit b n"
  shows "\<exists>w'. stm32_i2c_bus_unlock pins cfg w = Some (w', RT_EOK) \<and> \<alpha> w' = low True Idle d"
proof -
  obtain w' where w': "unlock_pulses pins cfg 9 w = Some w'" "\<alpha> w' = low True Idle d"
    using unlock_pulses_arrives [OF assms(1), of 9 w] nine_pulses [OF assms(3), of sl b d] assms(2) by (auto simp: arrives_def)
  have "hal_read pins (cfg_sda cfg) w = line (\<alpha> w)" for w using assms(1) by (simp add: pins_wired_def)
  then show ?thesis using w' assms(2,4) by (simp add: stm32_i2c_bus_unlock_def)
qed

text \<open>It leaves SCL low, and the first transfer after it is lost: without a start condition no device answers.\<close>

theorem transfer_after_unlock_fails:
  assumes "pins_wired pins cfg \<alpha> sl" and "\<alpha> w = high True (Tx b n) d" and "n < 8" and "\<not> bit b n" and "plain_msg m"
  shows "\<exists>w1 w2. stm32_i2c_bus_unlock pins cfg w = Some (w1, RT_EOK) \<and>
     i2c_bit_xfer (stm32_bit_ops pins cfg) 0 (m # ms) w1 = Some (w2, m # ms, - RT_EIO) \<and> \<alpha> w2 = at_rest (sl_stop sl d)"
proof -
  obtain w1 where w1: "unlock_pulses pins cfg 9 w = Some w1" "\<alpha> w1 = low True Idle d"
    using unlock_pulses_arrives [OF assms(1), of 9 w] nine_pulses [OF assms(3), of sl b d] assms(2) by (auto simp: arrives_def)
  have "hal_read pins (cfg_sda cfg) w = line (\<alpha> w)" for w using assms(1) by (simp add: pins_wired_def)
  then have "stm32_i2c_bus_unlock pins cfg w = Some (w1, RT_EOK)" using w1 assms(2,4) by (simp add: stm32_i2c_bus_unlock_def)
  then show ?thesis
    using i2c_lines.xfer_without_start [OF i2c_lines.intro [OF stm32_wired [OF assms(1)]] assms(5) w1(2), of ms] by (auto simp: reaches_def)
qed

section \<open>A clock line that stays low\<close>

definition stuck_clock :: "'w pins \<Rightarrow> stm32_soft_i2c_config \<Rightarrow> bool" where
  "stuck_clock pins cfg \<longleftrightarrow> (\<forall>w. \<not> hal_read pins (cfg_scl cfg) w) \<and> (\<forall>n w. kernel_tick pins (kernel_delay pins n w) = kernel_tick pins w + n) \<and>
     systick_counts pins"

lemma scl_wait_step:
  assumes "\<not> get w"
  shows "scl_wait ops get start w = (if ops_timeout ops < tick_get ops w - start then Some (w, - RT_ETIMEOUT)
      else scl_wait ops get start (thread_delay ops (drop_bit 1 (ops_timeout ops + 1)) w))"
  using assms by (subst scl_wait.simps) simp

lemma SCL_H_times_out:
  assumes "stuck_clock pins cfg"
  shows "\<exists>w'. SCL_H (stm32_bit_ops pins cfg) w = Some (w', - RT_ETIMEOUT) \<and> kernel_tick pins w' = kernel_tick pins (hal_write pins (cfg_scl cfg) True w) + 150"
proof -
  let ?ops = "stm32_bit_ops pins cfg" and ?get = "stm32_get_scl pins cfg" and ?w1 = "hal_write pins (cfg_scl cfg) True w"
  have g: "\<not> ?get w" for w using assms by (simp add: stm32_get_scl_def stuck_clock_def)
  have t: "kernel_tick pins (kernel_delay pins n w) = kernel_tick pins w + n" for n w using assms by (simp add: stuck_clock_def)
  have o: "ops_timeout ?ops = 100" "tick_get ?ops = kernel_tick pins" "thread_delay ?ops = kernel_delay pins" "get_scl ?ops = Some ?get"
    "set_scl ?ops True w = ?w1" by (simp_all add: stm32_bit_ops_def stm32_set_scl_def)
  have s: "scl_wait ?ops ?get start w = (if 100 < kernel_tick pins w - start then Some (w, - RT_ETIMEOUT) else scl_wait ?ops ?get start (kernel_delay pins 50 w))" for start w
    using scl_wait_step [of ?get w ?ops start, OF g] unfolding o by simp
  let ?d = "kernel_delay pins 50"
  have "scl_wait ?ops ?get (kernel_tick pins ?w1) ?w1 = Some (?d (?d (?d ?w1)), - RT_ETIMEOUT)"
    by (subst s, simp, subst s, simp add: t, subst s, simp add: t, subst s, simp add: t)
  then show ?thesis using o t by (simp add: SCL_H_def)
qed

text \<open>A clock line that stays low ends every transfer with \<^verbatim>\<open>-RT_EIO\<close>: each wait for the line gives up after 150 ticks, and the
  messages are as they were.\<close>

theorem i2c_stuck_clock_error:
  assumes "stuck_clock pins cfg" and "plain_msg m"
  shows "\<exists>w'. i2c_bit_xfer (stm32_bit_ops pins cfg) 0 (m # ms) w = Some (w', m # ms, - RT_EIO)"
proof -
  let ?ops = "stm32_bit_ops pins cfg"
  note fl = plain_flags [OF assms(2)]
  have "\<exists>w'. udelay ?ops us w = Some w'" for us w
    using stm32_udelay_returns [of pins "\<lambda>_. ()"] assms(1) by (simp add: stm32_bit_ops_def stuck_clock_def)
  then have d: "\<exists>w'. i2c_delay ?ops w = Some w'" "\<exists>w'. i2c_delay2 ?ops w = Some w'" for w
    by (simp_all only: i2c_delay_def i2c_delay2_def)
  have scl: "\<exists>w'. SCL_H ?ops w = Some (w', - RT_ETIMEOUT)" for w using SCL_H_times_out [OF assms(1)] by blast
  obtain w0 where w0: "i2c_start ?ops w = Some w0" using d(1) [of "set_sda ?ops False w"] by (auto simp: i2c_start_def)
  obtain w1 where w1: "i2c_writeb ?ops (addr_byte m) w0 = Some (w1, - RT_ETIMEOUT)"
  proof -
    obtain u where u: "i2c_delay ?ops (set_sda ?ops (bit (addr_byte m) 7) (set_scl ?ops False w0)) = Some u" using d(1) by blast
    obtain w1 where "SCL_H ?ops u = Some (w1, - RT_ETIMEOUT)" using scl by blast
    then have "i2c_writeb ?ops (addr_byte m) w0 = Some (w1, - RT_ETIMEOUT)" using u by (simp add: i2c_writeb_def numeral_eq_Suc)
    then show ?thesis by (rule that)
  qed
  obtain w2 where w2: "i2c_stop ?ops w1 = Some w2"
  proof -
    obtain u where u: "i2c_delay ?ops (set_sda ?ops False w1) = Some u" using d(1) by blast
    obtain u1 where u1: "SCL_H ?ops u = Some (u1, - RT_ETIMEOUT)" using scl by blast
    obtain u2 where u2: "i2c_delay ?ops u1 = Some u2" using d(1) by blast
    obtain u3 where "i2c_delay2 ?ops (set_sda ?ops True u2) = Some u3" using d(2) by blast
    then have "i2c_stop ?ops w1 = Some u3" using u u1 u2 by (simp add: i2c_stop_def)
    then show ?thesis by (rule that)
  qed
  have "i2c_bit_send_address ?ops 0 m w0 = Some (w1, - RT_EIO)"
    unfolding i2c_bit_send_address_def Let_def addr_byte_def [symmetric] using w1 fl by (simp add: i2c_send_address_def)
  then have "xfer_loop ?ops 0 0 m (m # ms) w = Some (w1, m # ms, - RT_EIO, m)" using w0 fl by simp
  then show ?thesis using w2 fl by (simp add: i2c_bit_xfer_def)
qed

section \<open>Witnesses\<close>

text \<open>A device at address \<open>0x68\<close> that takes every byte and sends one and the same.\<close>

definition demo_slave :: "u8 list slave" where
  "demo_slave = \<lparr>sl_address = (\<lambda>a d. (a = 0xD0 \<or> a = 0xD1, d)), sl_write = (\<lambda>b d. (True, d @ [b])), sl_read = (\<lambda>d. (0x5A, d)), sl_stop = id\<rparr>"

definition demo_pins :: "u8 list \<Rightarrow> u8 list pin_world" where
  "demo_pins d = \<lparr>pw_wire = at_rest d, pw_count = 0\<rparr>"

theorem i2c_bit_xfer_refines_witness:
  "\<exists>w'. i2c_bit_xfer (stm32_bit_ops (board_pins demo_slave) i2c1_config) 0
       [\<lparr>msg_addr = 0x68, msg_flags = RT_I2C_WR, msg_len = 2, msg_buf = [0x6B, 0]\<rparr>, \<lparr>msg_addr = 0x68, msg_flags = RT_I2C_RD, msg_len = 1, msg_buf = [0]\<rparr>] (demo_pins []) =
     Some (w', [\<lparr>msg_addr = 0x68, msg_flags = RT_I2C_WR, msg_len = 2, msg_buf = [0x6B, 0]\<rparr>, \<lparr>msg_addr = 0x68, msg_flags = RT_I2C_RD, msg_len = 1, msg_buf = [0x5A]\<rparr>], 2) \<and>
     pw_wire w' = at_rest [0x6B, 0]"
proof -
  let ?w = "\<lparr>msg_addr = 0x68, msg_flags = RT_I2C_WR, msg_len = 2, msg_buf = [0x6B, 0]\<rparr>" and ?r = "\<lparr>msg_addr = 0x68, msg_flags = RT_I2C_RD, msg_len = 1, msg_buf = [0]\<rparr>"
  have a: "addr_byte ?w = 0xD0" "addr_byte ?r = 0xD1" "\<not> has_flag ?w RT_I2C_RD" "has_flag ?r RT_I2C_RD" by (simp_all add: addr_byte_def has_flag_def)
  have d: "sl_address demo_slave 0xD0 x = (True, x)" "sl_address demo_slave 0xD1 x = (True, x)" "sl_write demo_slave b x = (True, x @ [b])"
    "sl_read demo_slave x = (0x5A, x)" "sl_stop demo_slave x = x" for x b by (simp_all add: demo_slave_def)
  have "xfer_spec demo_slave 0 0 [?w, ?r] [] = ([?w, ?r\<lparr>msg_buf := [0x5A]\<rparr>], 2, [0x6B, 0])"
    by (simp add: a d)
  then have x: "xfer_spec demo_slave (nat (sint (0 :: u32))) 0 [?w, ?r] [] = ([?w, ?r\<lparr>msg_buf := [0x5A]\<rparr>], 2, [0x6B, 0])" by simp
  have "\<exists>w'. i2c_bit_xfer (stm32_bit_ops (board_pins demo_slave) i2c1_config) 0 [?w, ?r] (demo_pins []) = Some (w', [?w, ?r\<lparr>msg_buf := [0x5A]\<rparr>], 2) \<and>
      pw_wire w' = at_rest (sl_stop demo_slave [0x6B, 0])"
    by (rule i2c_bit_xfer_refines [OF board_pins_wired _ _ _ _ x]) (simp_all add: plain_msg_def demo_pins_def)
  then show ?thesis by (simp add: d)
qed

theorem stm32_i2c_bus_unlock_frees_witness:
  "\<exists>w'. stm32_i2c_bus_unlock (board_pins demo_slave) i2c1_config \<lparr>pw_wire = high True (Tx 0x5A 5) [], pw_count = 0\<rparr> = Some (w', RT_EOK) \<and>
     pw_wire w' = low True Idle []"
  by (rule stm32_i2c_bus_unlock_frees [OF board_pins_wired, of _ "0x5A" 5]) simp_all

definition stuck_pins :: "nat pins" where
  "stuck_pins = \<lparr>hal_write = (\<lambda>_ _ w. w), hal_read = (\<lambda>_ _. False), systick_val = (\<lambda>w. (of_nat (w mod 2), Suc w)), systick_load = 1,
     kernel_tick = of_nat, kernel_delay = (\<lambda>n w. w + unat n)\<rparr>"

lemma stuck_pins_stuck: "stuck_clock stuck_pins i2c1_config"
proof -
  have "unat (of_nat (n mod 2) :: u32) = n mod 2" for n :: nat by (rule unat_count) simp
  then have "systick_counts stuck_pins" unfolding systick_counts_def
    by (auto simp: stuck_pins_def word_le_nat_alt mod_Suc intro!: exI [of _ 1])
  then show ?thesis by (simp add: stuck_clock_def stuck_pins_def)
qed

theorem i2c_stuck_clock_error_witness:
  "\<exists>w'. i2c_bit_xfer (stm32_bit_ops stuck_pins i2c1_config) 0 [\<lparr>msg_addr = 0x68, msg_flags = RT_I2C_WR, msg_len = 1, msg_buf = [0x6B]\<rparr>] 0 =
     Some (w', [\<lparr>msg_addr = 0x68, msg_flags = RT_I2C_WR, msg_len = 1, msg_buf = [0x6B]\<rparr>], - RT_EIO)"
  by (rule i2c_stuck_clock_error [OF stuck_pins_stuck]) (simp add: plain_msg_def)

end
