(* ===== verification/Sensors.thy ===== *)
theory Sensors
  imports SoftI2c Spi
begin

text \<open>
  The sensors on the I2C bus: \<^verbatim>\<open>rt_i2c_transfer\<close> of \<^verbatim>\<open>i2c_core.c\<close>, which holds the mutex of the bus during a transfer, and the register
  accesses of \<^verbatim>\<open>peripherals/MPU6050.c\<close> and \<^verbatim>\<open>peripherals/BMP280.c\<close>. The state is a board of theory \<open>Spi\<close> whose bus is the I2C bus:
  its lock and the world behind its pins. What the sensors do with the bytes on the bus is stated after their data sheets, as
  a device with registers. Messages on the console are not part of the model; the compensation of the barometer is a floating-point
  computation and is left out.
\<close>

section \<open>Transfers under the lock\<close>

record 'w i2c_bus =
  bus_ops :: "'w bit_ops"
  bus_retries :: u32

definition bus_xfer :: "'w i2c_bus \<Rightarrow> rt_i2c_msg list \<Rightarrow> ('w board, rt_i2c_msg list \<times> int) comp" where
  "bus_xfer bus msgs st = do {
     (w, ms, r) \<leftarrow> i2c_bit_xfer (bus_ops bus) (bus_retries bus) msgs (bus_dev st);
     Some (st\<lparr>bus_dev := w\<rparr>, Finished (ms, r)) }"

definition rt_i2c_transfer :: "'w i2c_bus \<Rightarrow> rt_i2c_msg list \<Rightarrow> ('w board, rt_i2c_msg list \<times> int) comp" where
  "rt_i2c_transfer bus msgs st =
     seq (board_mutex_take (bus_lock st)) (\<lambda>_.
     seq (bus_xfer bus msgs) (\<lambda>r.
     seq (board_mutex_release (bus_lock st)) (\<lambda>_. ret r))) st"

definition rt_i2c_master_send :: "'w i2c_bus \<Rightarrow> u16 \<Rightarrow> u16 \<Rightarrow> u8 list \<Rightarrow> u32 \<Rightarrow> ('w board, int) comp" where
  "rt_i2c_master_send bus a flags buf count =
     seq (rt_i2c_transfer bus [\<lparr>msg_addr = a, msg_flags = flags, msg_len = ucast count, msg_buf = buf\<rparr>]) (\<lambda>(ms, r).
     ret (if 0 < r then uint count else r))"

definition rt_i2c_master_recv :: "'w i2c_bus \<Rightarrow> u16 \<Rightarrow> u16 \<Rightarrow> u8 list \<Rightarrow> u32 \<Rightarrow> ('w board, u8 list \<times> int) comp" where
  "rt_i2c_master_recv bus a flags buf count =
     seq (rt_i2c_transfer bus [\<lparr>msg_addr = a, msg_flags = flags OR RT_I2C_RD, msg_len = ucast count, msg_buf = buf\<rparr>]) (\<lambda>(ms, r).
     ret (msg_buf (hd ms), if 0 < r then uint count else r))"

section \<open>MPU6050\<close>

abbreviation (input) MPU6050_ADDR :: u16 where "MPU6050_ADDR \<equiv> 0x68"

definition be16 :: "u8 \<Rightarrow> u8 \<Rightarrow> u16" where
  "be16 h l = push_bit 8 (ucast h) OR ucast l"

definition mpu6050_reset :: "'w i2c_bus \<Rightarrow> ('w board, unit) comp" where
  "mpu6050_reset bus =
     seq (rt_i2c_transfer bus [\<lparr>msg_addr = MPU6050_ADDR, msg_flags = RT_I2C_WR, msg_len = 2, msg_buf = [0x6B, 0x00]\<rparr>]) (\<lambda>_. ret ())"

text \<open>
  One of the three blocks of \<^verbatim>\<open>mpu6050_read_raw\<close>: the register number is sent, then \<open>n\<close> bytes are read into the same buffer. A failed
  transfer is only reported on the console.
\<close>

definition mpu6050_read_block :: "'w i2c_bus \<Rightarrow> u8 \<Rightarrow> u16 \<Rightarrow> u8 list \<Rightarrow> ('w board, u8 list) comp" where
  "mpu6050_read_block bus reg n buffer =
     seq (rt_i2c_transfer bus [\<lparr>msg_addr = MPU6050_ADDR, msg_flags = RT_I2C_WR, msg_len = 1, msg_buf = buffer[0 := reg]\<rparr>]) (\<lambda>(ms, _).
     seq (rt_i2c_transfer bus [\<lparr>msg_addr = MPU6050_ADDR, msg_flags = RT_I2C_RD, msg_len = n, msg_buf = msg_buf (hd ms)\<rparr>]) (\<lambda>(ms, _).
     ret (msg_buf (hd ms))))"

text \<open>The three 16 bit numbers of a block; they are signed (\<^verbatim>\<open>int16_t\<close>) and read with \<open>sint\<close>. \<open>buffer\<close> is what the local array held.\<close>

definition be16s :: "u8 list \<Rightarrow> u16 list" where
  "be16s buf = map (\<lambda>i. be16 (buf ! (i * 2)) (buf ! (i * 2 + 1))) [0..<3]"

definition mpu6050_read_raw :: "'w i2c_bus \<Rightarrow> u8 list \<Rightarrow> ('w board, u16 list \<times> u16 list \<times> u16) comp" where
  "mpu6050_read_raw bus buffer =
     seq (mpu6050_read_block bus 0x3B 6 buffer) (\<lambda>b1.
     seq (mpu6050_read_block bus 0x43 6 b1) (\<lambda>b2.
     seq (mpu6050_read_block bus 0x41 2 b2) (\<lambda>b3.
     ret (be16s b1, be16s b2, be16 (b3 ! 0) (b3 ! 1)))))"

section \<open>BMP280\<close>

abbreviation (input) BMP280_ADDR :: u16 where "BMP280_ADDR \<equiv> 0x76"
abbreviation (input) BMP280_REG_CALIB00 :: u8 where "BMP280_REG_CALIB00 \<equiv> 0x88"
abbreviation (input) BMP280_REG_ID :: u8 where "BMP280_REG_ID \<equiv> 0xD0"
abbreviation (input) BMP280_REG_RESET :: u8 where "BMP280_REG_RESET \<equiv> 0xE0"
abbreviation (input) BMP280_REG_STATUS :: u8 where "BMP280_REG_STATUS \<equiv> 0xF3"
abbreviation (input) BMP280_REG_CTRL_MEAS :: u8 where "BMP280_REG_CTRL_MEAS \<equiv> 0xF4"
abbreviation (input) BMP280_REG_CONFIG :: u8 where "BMP280_REG_CONFIG \<equiv> 0xF5"
abbreviation (input) BMP280_REG_PRESS_MSB :: u8 where "BMP280_REG_PRESS_MSB \<equiv> 0xF7"
abbreviation (input) BMP280_REG_TEMP_MSB :: u8 where "BMP280_REG_TEMP_MSB \<equiv> 0xFA"

datatype BMP280_RESULT = BMP280_ERROR | BMP280_SUCCESS

definition reg_write :: "'w i2c_bus \<Rightarrow> u8 \<Rightarrow> u8 \<Rightarrow> ('w board, unit) comp" where
  "reg_write bus reg val =
     seq (rt_i2c_transfer bus [\<lparr>msg_addr = BMP280_ADDR, msg_flags = RT_I2C_WR, msg_len = 2, msg_buf = [reg, val]\<rparr>]) (\<lambda>_. ret ())"

definition reg_read :: "'w i2c_bus \<Rightarrow> u8 \<Rightarrow> ('w board, u8) comp" where
  "reg_read bus reg =
     seq (rt_i2c_transfer bus
       [\<lparr>msg_addr = BMP280_ADDR, msg_flags = RT_I2C_WR, msg_len = 1, msg_buf = [reg]\<rparr>,
        \<lparr>msg_addr = BMP280_ADDR, msg_flags = RT_I2C_RD, msg_len = 1, msg_buf = [0]\<rparr>]) (\<lambda>(ms, _).
     ret (hd (msg_buf (ms ! 1))))"

definition reg_read_bulk :: "'w i2c_bus \<Rightarrow> u8 \<Rightarrow> u8 list \<Rightarrow> u8 \<Rightarrow> ('w board, u8 list \<times> BMP280_RESULT) comp" where
  "reg_read_bulk bus reg buf count =
     seq (rt_i2c_transfer bus
       [\<lparr>msg_addr = BMP280_ADDR, msg_flags = RT_I2C_WR, msg_len = 1, msg_buf = [reg]\<rparr>,
        \<lparr>msg_addr = BMP280_ADDR, msg_flags = RT_I2C_RD, msg_len = ucast count, msg_buf = buf\<rparr>]) (\<lambda>(ms, r).
     ret (msg_buf (ms ! 1), if r \<noteq> 2 then BMP280_ERROR else BMP280_SUCCESS))"

definition BMP280_GetVersion :: "'w i2c_bus \<Rightarrow> ('w board, u8) comp" where
  "BMP280_GetVersion bus = reg_read bus BMP280_REG_ID"

text \<open>The version is read twice, the first time for the console.\<close>

definition BMP280_Check :: "'w i2c_bus \<Rightarrow> ('w board, BMP280_RESULT) comp" where
  "BMP280_Check bus =
     seq (BMP280_GetVersion bus) (\<lambda>_.
     seq (BMP280_GetVersion bus) (\<lambda>v. ret (if v = 0x56 \<or> v = 0x57 \<or> v = 0x58 then BMP280_SUCCESS else BMP280_ERROR)))"

definition BMP280_Reset :: "'w i2c_bus \<Rightarrow> ('w board, unit) comp" where
  "BMP280_Reset bus = reg_write bus BMP280_REG_RESET 0xB6"

definition BMP280_GetStatus :: "'w i2c_bus \<Rightarrow> ('w board, u8) comp" where
  "BMP280_GetStatus bus = seq (reg_read bus BMP280_REG_STATUS) (\<lambda>v. ret (v AND 0x09))"

definition BMP280_GetMode :: "'w i2c_bus \<Rightarrow> ('w board, u8) comp" where
  "BMP280_GetMode bus = seq (reg_read bus BMP280_REG_CTRL_MEAS) (\<lambda>v. ret (v AND 0x03))"

text \<open>What the setters have in common: the bits of a mask in a register are replaced.\<close>

definition set_field :: "'w i2c_bus \<Rightarrow> u8 \<Rightarrow> u8 \<Rightarrow> u8 \<Rightarrow> ('w board, unit) comp" where
  "set_field bus reg msk v = seq (reg_read bus reg) (\<lambda>old. reg_write bus reg ((old AND NOT msk) OR (v AND msk)))"

definition BMP280_SetMode :: "'w i2c_bus \<Rightarrow> u8 \<Rightarrow> ('w board, unit) comp" where
  "BMP280_SetMode bus mode = set_field bus BMP280_REG_CTRL_MEAS 0x03 mode"

definition BMP280_SetFilter :: "'w i2c_bus \<Rightarrow> u8 \<Rightarrow> ('w board, unit) comp" where
  "BMP280_SetFilter bus v = set_field bus BMP280_REG_CONFIG 0x1C v"

definition BMP280_SetStandby :: "'w i2c_bus \<Rightarrow> u8 \<Rightarrow> ('w board, unit) comp" where
  "BMP280_SetStandby bus tsb = set_field bus BMP280_REG_CONFIG 0xE0 tsb"

definition BMP280_SetOSRST :: "'w i2c_bus \<Rightarrow> u8 \<Rightarrow> ('w board, unit) comp" where
  "BMP280_SetOSRST bus osrs = set_field bus BMP280_REG_CTRL_MEAS 0xE0 osrs"

definition BMP280_SetOSRSP :: "'w i2c_bus \<Rightarrow> u8 \<Rightarrow> ('w board, unit) comp" where
  "BMP280_SetOSRSP bus osrs = set_field bus BMP280_REG_CTRL_MEAS 0x1C osrs"

text \<open>
  The compensation parameters; the structure is filled byte by byte, with the least significant byte of each number first. The fields
  other than \<open>dig_T1\<close> and \<open>dig_P1\<close> are signed.
\<close>

record BMP280_cal_param =
  dig_T1 :: u16
  dig_T2 :: u16
  dig_T3 :: u16
  dig_P1 :: u16
  dig_P2 :: u16
  dig_P3 :: u16
  dig_P4 :: u16
  dig_P5 :: u16
  dig_P6 :: u16
  dig_P7 :: u16
  dig_P8 :: u16
  dig_P9 :: u16

definition cal_of_bytes :: "u8 list \<Rightarrow> BMP280_cal_param" where
  "cal_of_bytes bs = (let w = (\<lambda>i. be16 (bs ! (2 * i + 1)) (bs ! (2 * i))) in
     \<lparr>dig_T1 = w 0, dig_T2 = w 1, dig_T3 = w 2, dig_P1 = w 3, dig_P2 = w 4, dig_P3 = w 5, dig_P4 = w 6, dig_P5 = w 7, dig_P6 = w 8,
      dig_P7 = w 9, dig_P8 = w 10, dig_P9 = w 11\<rparr>)"

text \<open>\<open>mem\<close> is what the bytes of the static structure were.\<close>

definition BMP280_Read_Calibration :: "'w i2c_bus \<Rightarrow> u8 list \<Rightarrow> ('w board, BMP280_cal_param \<times> BMP280_RESULT) comp" where
  "BMP280_Read_Calibration bus mem = seq (reg_read_bulk bus BMP280_REG_CALIB00 mem 24) (\<lambda>(bs, r). ret (cal_of_bytes bs, r))"

definition raw20 :: "u8 \<Rightarrow> u8 \<Rightarrow> u8 \<Rightarrow> u32" where
  "raw20 b0 b1 b2 = push_bit 12 (ucast b0) OR push_bit 4 (ucast b1) OR ucast (drop_bit 4 b2)"

text \<open>\<open>buf\<close> is what the local array held.\<close>

definition BMP280_Read_UT :: "'w i2c_bus \<Rightarrow> u8 list \<Rightarrow> ('w board, u32 \<times> BMP280_RESULT) comp" where
  "BMP280_Read_UT bus buf = seq (reg_read_bulk bus BMP280_REG_TEMP_MSB buf 3) (\<lambda>(b, r).
     if r = BMP280_SUCCESS then ret (raw20 (b ! 0) (b ! 1) (b ! 2), BMP280_SUCCESS) else ret (0x80000, BMP280_ERROR))"

definition BMP280_Read_UP :: "'w i2c_bus \<Rightarrow> u8 list \<Rightarrow> ('w board, u32 \<times> BMP280_RESULT) comp" where
  "BMP280_Read_UP bus buf = seq (reg_read_bulk bus BMP280_REG_PRESS_MSB buf 3) (\<lambda>(b, r).
     if r = BMP280_SUCCESS then ret (raw20 (b ! 0) (b ! 1) (b ! 2), BMP280_SUCCESS) else ret (0x80000, BMP280_ERROR))"

text \<open>The result is \<^verbatim>\<open>*UT\<close>, \<^verbatim>\<open>*UP\<close> and the returned value.\<close>

definition BMP280_Read_UTP :: "'w i2c_bus \<Rightarrow> u8 list \<Rightarrow> ('w board, u32 \<times> u32 \<times> BMP280_RESULT) comp" where
  "BMP280_Read_UTP bus buf = seq (reg_read_bulk bus BMP280_REG_PRESS_MSB buf 8) (\<lambda>(b, r).
     if r = BMP280_SUCCESS
     then ret (raw20 (b ! 3) (b ! 4) (b ! 5), raw20 (b ! 0) (b ! 1) (b ! 2), BMP280_SUCCESS)
     else ret (0x80000, 0x80000, BMP280_ERROR))"

text \<open>The configuration of the barometer in \<^verbatim>\<open>main\<close>.\<close>

definition main_configure_BMP280 :: "'w i2c_bus \<Rightarrow> ('w board, u8) comp" where
  "main_configure_BMP280 bus =
     seq (BMP280_SetStandby bus 0x00) (\<lambda>_.
     seq (BMP280_SetFilter bus 0x00) (\<lambda>_.
     seq (BMP280_SetOSRST bus 0x20) (\<lambda>_.
     seq (BMP280_SetOSRSP bus 0x08) (\<lambda>_.
     seq (BMP280_SetMode bus 0x03) (\<lambda>_. BMP280_GetMode bus)))))"

section \<open>Devices with registers\<close>

text \<open>
  How a sensor sees the bus, after its data sheet: it acknowledges its address; the first byte written after it sets the register pointer,
  a further one goes to a register that can be written; read, it sends the registers from the pointer on. \<open>v_regs\<close>, \<open>v_ptr\<close>, \<open>v_fresh\<close> (the next byte is
  a register number) and \<open>v_sel\<close> (the device is addressed) are read off the state of the devices of the bus.
\<close>

record 'd reg_view =
  v_addr :: u8
  v_regs :: "'d \<Rightarrow> u8 \<Rightarrow> u8"
  v_ptr :: "'d \<Rightarrow> u8"
  v_fresh :: "'d \<Rightarrow> bool"
  v_sel :: "'d \<Rightarrow> bool"
  v_writable :: "u8 set"

definition reg_device :: "'d slave \<Rightarrow> 'd reg_view \<Rightarrow> bool" where
  "reg_device sl v \<longleftrightarrow>
     (\<forall>d. \<exists>d1. sl_address sl (push_bit 1 (v_addr v)) d = (True, d1) \<and> v_regs v d1 = v_regs v d \<and> v_sel v d1 \<and> v_fresh v d1) \<and>
     (\<forall>d. \<exists>d1. sl_address sl (push_bit 1 (v_addr v) OR 1) d = (True, d1) \<and> v_regs v d1 = v_regs v d \<and> v_sel v d1 \<and> v_ptr v d1 = v_ptr v d) \<and>
     (\<forall>d r. v_sel v d \<and> v_fresh v d \<longrightarrow> (\<exists>d1. sl_write sl r d = (True, d1) \<and> v_regs v d1 = v_regs v d \<and> v_sel v d1 \<and> \<not> v_fresh v d1 \<and> v_ptr v d1 = r)) \<and>
     (\<forall>d x. v_sel v d \<and> \<not> v_fresh v d \<and> v_ptr v d \<in> v_writable v \<longrightarrow>
        (\<exists>d1. sl_write sl x d = (True, d1) \<and> v_regs v d1 = (v_regs v d)(v_ptr v d := x))) \<and>
     (\<forall>d. v_sel v d \<longrightarrow> (\<exists>d1. sl_read sl d = (v_regs v d (v_ptr v d), d1) \<and> v_regs v d1 = v_regs v d \<and> v_sel v d1 \<and> v_ptr v d1 = v_ptr v d + 1)) \<and>
     (\<forall>d. v_regs v (sl_stop sl d) = v_regs v d \<and> v_ptr v (sl_stop sl d) = v_ptr v d)"

text \<open>The registers from \<open>r\<close> on.\<close>

definition regs_from :: "(u8 \<Rightarrow> u8) \<Rightarrow> u8 \<Rightarrow> nat \<Rightarrow> u8 list" where
  "regs_from f r n = map (\<lambda>i. f (r + of_nat i)) [0..<n]"

lemma regs_from_Suc: "regs_from f r (Suc n) = f r # regs_from f (r + 1) n"
  unfolding regs_from_def upt_conv_Cons [OF zero_less_Suc] map_Suc_upt [symmetric] by (simp add: add.assoc)

lemma length_regs_from [simp]: "length (regs_from f r n) = n"
  by (simp add: regs_from_def)

lemma nth_regs_from [simp]: "i < n \<Longrightarrow> regs_from f r n ! i = f (r + of_nat i)"
  by (simp add: regs_from_def)

lemma read_spec_regs:
  assumes "reg_device sl v" and "v_sel v d"
  shows "\<exists>d1. read_spec sl n d = (regs_from (v_regs v d) (v_ptr v d) n, d1) \<and> v_regs v d1 = v_regs v d"
  using assms(2)
proof (induction n arbitrary: d)
  case 0
  then show ?case by (simp add: regs_from_def)
next
  case (Suc n d)
  obtain d1 where d1: "sl_read sl d = (v_regs v d (v_ptr v d), d1)" "v_regs v d1 = v_regs v d" "v_sel v d1" "v_ptr v d1 = v_ptr v d + 1"
    using assms(1) Suc.prems unfolding reg_device_def by meson
  obtain d2 where "read_spec sl n d1 = (regs_from (v_regs v d1) (v_ptr v d1) n, d2)" "v_regs v d2 = v_regs v d1" using Suc.IH [OF d1(3)] by blast
  then show ?case using d1 by (simp add: regs_from_Suc)
qed

lemma address_write:
  assumes "reg_device sl v" and "addr_byte m = push_bit 1 (v_addr v)"
  obtains d1 where "address_spec sl 0 (addr_byte m) d = (True, d1)" "v_regs v d1 = v_regs v d" "v_sel v d1" "v_fresh v d1"
  using assms unfolding reg_device_def by (metis address_spec.simps(1))

lemma address_read:
  assumes "reg_device sl v" and "addr_byte m = push_bit 1 (v_addr v) OR 1"
  obtains d1 where "address_spec sl 0 (addr_byte m) d = (True, d1)" "v_regs v d1 = v_regs v d" "v_sel v d1" "v_ptr v d1 = v_ptr v d"
  using assms unfolding reg_device_def by (metis address_spec.simps(1))

lemma write_pointer:
  assumes "reg_device sl v" and "v_sel v d" and "v_fresh v d"
  obtains d1 where "write_spec sl [r] d = (True, d1)" "v_regs v d1 = v_regs v d" "v_ptr v d1 = r"
proof -
  obtain d1 where "sl_write sl r d = (True, d1)" "v_regs v d1 = v_regs v d" "v_ptr v d1 = r"
    using assms unfolding reg_device_def by meson
  then show ?thesis using that [of d1] by simp
qed

lemma write_register:
  assumes "reg_device sl v" and "v_sel v d" and "v_fresh v d" and "r \<in> v_writable v"
  obtains d2 where "write_spec sl [r, x] d = (True, d2)" "v_regs v d2 = (v_regs v d)(r := x)"
proof -
  obtain d1 where d1: "sl_write sl r d = (True, d1)" "v_regs v d1 = v_regs v d" "v_sel v d1" "\<not> v_fresh v d1" "v_ptr v d1 = r"
    using assms(1-3) unfolding reg_device_def by meson
  moreover obtain d2 where "sl_write sl x d1 = (True, d2)" "v_regs v d2 = (v_regs v d1)(v_ptr v d1 := x)"
    using assms(1,4) d1(3-5) unfolding reg_device_def by meson
  ultimately show ?thesis using that [of d2] by simp
qed

section \<open>Transfers on a free bus\<close>

definition i2c_ready :: "'w board \<Rightarrow> bool" where
  "i2c_ready st \<longleftrightarrow> in_thread (kern st) \<and> free_mutex (kern st) (bus_lock st)"

text \<open>The bus of the board: its pins, no retries (nothing sets \<^verbatim>\<open>bus->retries\<close>), and the lines at rest with the devices in state \<open>d\<close>.\<close>

definition i2c_at :: "('w \<Rightarrow> 'd wire) \<Rightarrow> 'w board \<Rightarrow> 'd \<Rightarrow> bool" where
  "i2c_at \<alpha> st d \<longleftrightarrow> i2c_ready st \<and> \<alpha> (bus_dev st) = at_rest d"

definition i2c_board :: "'w pins \<Rightarrow> stm32_soft_i2c_config \<Rightarrow> 'w i2c_bus" where
  "i2c_board pins cfg = \<lparr>bus_ops = stm32_bit_ops pins cfg, bus_retries = 0\<rparr>"

definition i2c_moves :: "'w board \<Rightarrow> 'w board \<Rightarrow> bool" where
  "i2c_moves st st' \<longleftrightarrow> bus_lock st' = bus_lock st \<and> quiet (kern st) (kern st')"

lemma i2c_moves_trans: "i2c_moves st st1 \<Longrightarrow> i2c_moves st1 st2 \<Longrightarrow> i2c_moves st st2"
  using quiet_trans by (auto simp: i2c_moves_def)

lemma transfer_at:
  assumes "pins_wired pins cfg \<alpha> sl" and "i2c_at \<alpha> st d" and "\<forall>m\<in>set ms. plain_msg m" and "ms \<noteq> []"
    and "xfer_spec sl 0 0 ms d = (ms', r, d')"
  shows "\<exists>st'. finishes (rt_i2c_transfer (i2c_board pins cfg) ms) st st' (ms', r) \<and> i2c_at \<alpha> st' (sl_stop sl d') \<and> i2c_moves st st'"
proof -
  let ?s = "kern st" and ?i = "bus_lock st"
  have r: "in_thread ?s" "free_mutex ?s ?i" "\<alpha> (bus_dev st) = at_rest d" using assms(2) by (auto simp: i2c_at_def i2c_ready_def)
  then obtain c where c: "rt_current_thread ?s = Some c" by (auto simp: in_thread_def)
  have x: "xfer_spec sl (nat (sint (0 :: u32))) 0 ms d = (ms', r, d')" using assms(5) by simp
  obtain w' where w': "i2c_bit_xfer (stm32_bit_ops pins cfg) 0 ms (bus_dev st) = Some (w', ms', r)" "\<alpha> w' = at_rest (sl_stop sl d')"
    using i2c_lines.xfer_reaches [OF i2c_lines.intro [OF stm32_wired [OF assms(1)]] assms(3,4) _ r(3) x] by (auto simp: reaches_def)
  let ?h = "st\<lparr>kern := holding ?i c RT_EOK ?s\<rparr>"
  have take: "finishes (board_mutex_take ?i) st ?h RT_EOK"
    using take_free_mutex [OF r(1,2) c] c by (simp add: finishes_def board_mutex_take_def rt_thread_self_def)
  have xf: "finishes (bus_xfer (i2c_board pins cfg) ms) ?h (?h\<lparr>bus_dev := w'\<rparr>) (ms', r)"
    using w'(1) by (simp add: finishes_def bus_xfer_def i2c_board_def)
  obtain s' where s': "rt_mutex_release ?i (holding ?i c RT_EOK ?s) = Some (s', RT_EOK)" "quiet ?s s'"
    using release_held_mutex [OF r(1,2) c] by blast
  have rel: "finishes (board_mutex_release ?i) (?h\<lparr>bus_dev := w'\<rparr>) (st\<lparr>kern := s', bus_dev := w'\<rparr>) RT_EOK"
    using s'(1) by (simp add: finishes_def board_mutex_release_def)
  have "finishes (rt_i2c_transfer (i2c_board pins cfg) ms) st (st\<lparr>kern := s', bus_dev := w'\<rparr>) (ms', r)"
    by (simp add: finishes_def rt_i2c_transfer_def seq_finishes [OF take] seq_finishes [OF xf] seq_finishes [OF rel] ret_def)
  moreover have "i2c_at \<alpha> (st\<lparr>kern := s', bus_dev := w'\<rparr>) (sl_stop sl d')"
    using r(1,2) w'(2) quiet_facts [OF s'(2)] by (simp add: i2c_at_def i2c_ready_def)
  ultimately show ?thesis using s'(2) by (intro exI [of _ "st\<lparr>kern := s', bus_dev := w'\<rparr>"]) (simp add: i2c_moves_def)
qed

text \<open>A transfer that sets the register pointer, and one that reads registers.\<close>

definition wr_msg :: "u16 \<Rightarrow> u16 \<Rightarrow> u8 list \<Rightarrow> rt_i2c_msg" where
  "wr_msg a n buf = \<lparr>msg_addr = a, msg_flags = RT_I2C_WR, msg_len = n, msg_buf = buf\<rparr>"

definition rd_msg :: "u16 \<Rightarrow> u16 \<Rightarrow> u8 list \<Rightarrow> rt_i2c_msg" where
  "rd_msg a n buf = \<lparr>msg_addr = a, msg_flags = RT_I2C_RD, msg_len = n, msg_buf = buf\<rparr>"

lemma msg_simps [simp]:
  "plain_msg (wr_msg a n buf) \<longleftrightarrow> unat n \<le> length buf" "plain_msg (rd_msg a n buf) \<longleftrightarrow> n \<noteq> 0 \<and> unat n \<le> length buf"
  "\<not> has_flag (wr_msg a n buf) RT_I2C_RD" "has_flag (rd_msg a n buf) RT_I2C_RD"
  "msg_len (wr_msg a n buf) = n" "msg_len (rd_msg a n buf) = n" "msg_buf (wr_msg a n buf) = buf" "msg_buf (rd_msg a n buf) = buf"
  "(rd_msg a n buf)\<lparr>msg_buf := b\<rparr> = rd_msg a n b"
  by (auto simp: wr_msg_def rd_msg_def plain_msg_def has_flag_def)

text \<open>The address of the device in a message.\<close>

definition msg_for :: "'d reg_view \<Rightarrow> u16 \<Rightarrow> bool" where
  "msg_for v a \<longleftrightarrow> ucast (push_bit 1 a) = push_bit 1 (v_addr v)"

lemma addr_byte_for: "msg_for v a \<Longrightarrow> addr_byte (wr_msg a n buf) = push_bit 1 (v_addr v)" "msg_for v a \<Longrightarrow> addr_byte (rd_msg a n buf) = push_bit 1 (v_addr v) OR 1"
  by (simp_all add: addr_byte_def msg_for_def) (simp_all add: wr_msg_def rd_msg_def)

lemma pointer_message:
  assumes "reg_device sl v" and "msg_for v a" and "buf \<noteq> []"
  obtains d1 where "\<forall>ms i. xfer_spec sl 0 i (wr_msg a 1 buf # ms) d = (let (ms', r, d2) = xfer_spec sl 0 (Suc i) ms d1 in (wr_msg a 1 buf # ms', r, d2))"
    "v_regs v d1 = v_regs v d" "v_ptr v d1 = hd buf"
proof -
  obtain d1 where d1: "address_spec sl 0 (addr_byte (wr_msg a 1 buf)) d = (True, d1)" "v_regs v d1 = v_regs v d" "v_sel v d1" "v_fresh v d1"
    using address_write [OF assms(1) addr_byte_for(1) [OF assms(2)]] by blast
  obtain d2 where d2: "write_spec sl [hd buf] d1 = (True, d2)" "v_regs v d2 = v_regs v d1" "v_ptr v d2 = hd buf"
    using write_pointer [OF assms(1) d1(3,4)] by blast
  have t: "take (Suc 0) buf = [hd buf]" using assms(3) by (cases buf) simp_all
  show ?thesis using d1 d2 t by (intro that [of d2]) simp_all
qed

lemma registers_message:
  assumes "reg_device sl v" and "msg_for v a"
  obtains d1 where "\<forall>ms i. xfer_spec sl 0 i (rd_msg a n buf # ms) d = (let (ms', r, d2) = xfer_spec sl 0 (Suc i) ms d1
      in (rd_msg a n (regs_from (v_regs v d) (v_ptr v d) (unat n) @ drop (unat n) buf) # ms', r, d2))" "v_regs v d1 = v_regs v d"
proof -
  obtain d1 where d1: "address_spec sl 0 (addr_byte (rd_msg a n buf)) d = (True, d1)" "v_regs v d1 = v_regs v d" "v_sel v d1" "v_ptr v d1 = v_ptr v d"
    using address_read [OF assms(1) addr_byte_for(2) [OF assms(2)]] by blast
  obtain d2 where "read_spec sl (unat n) d1 = (regs_from (v_regs v d1) (v_ptr v d1) (unat n), d2)" "v_regs v d2 = v_regs v d1"
    using read_spec_regs [OF assms(1) d1(3)] by blast
  then show ?thesis using d1 by (intro that [of d2]) simp_all
qed

lemma register_message:
  assumes "reg_device sl v" and "msg_for v a" and "r \<in> v_writable v"
  obtains d1 where "xfer_spec sl 0 0 [wr_msg a 2 [r, x]] d = ([wr_msg a 2 [r, x]], 1, d1)" "v_regs v d1 = (v_regs v d)(r := x)"
proof -
  obtain d1 where d1: "address_spec sl 0 (addr_byte (wr_msg a 2 [r, x])) d = (True, d1)" "v_regs v d1 = v_regs v d" "v_sel v d1" "v_fresh v d1"
    using address_write [OF assms(1) addr_byte_for(1) [OF assms(2)]] by blast
  obtain d2 where "write_spec sl [r, x] d1 = (True, d2)" "v_regs v d2 = (v_regs v d1)(r := x)"
    using write_register [OF assms(1) d1(3,4) assms(3)] by blast
  then show ?thesis using d1 by (intro that [of d2]) simp_all
qed

lemma stop_regs: "reg_device sl v \<Longrightarrow> v_regs v (sl_stop sl d) = v_regs v d" "reg_device sl v \<Longrightarrow> v_ptr v (sl_stop sl d) = v_ptr v d"
  by (simp_all add: reg_device_def)

section \<open>Register accesses\<close>

lemma mpu_block_reads:
  assumes "pins_wired pins cfg \<alpha> sl" and "reg_device sl v" and "v_addr v = 0x68" and "i2c_at \<alpha> st d" and "n \<noteq> 0" and "unat n \<le> length buffer"
  shows "\<exists>st' d'. finishes (mpu6050_read_block (i2c_board pins cfg) reg n buffer) st st' (regs_from (v_regs v d) reg (unat n) @ drop (unat n) buffer) \<and>
     i2c_at \<alpha> st' d' \<and> v_regs v d' = v_regs v d \<and> i2c_moves st st'"
proof -
  let ?b = "buffer[0 := reg]" and ?bus = "i2c_board pins cfg"
  have ne: "buffer \<noteq> []" using assms(5,6) by (auto simp: unat_eq_0)
  have hd: "?b \<noteq> []" "hd ?b = reg" "drop (unat n) ?b = drop (unat n) buffer" "unat (1 :: u16) \<le> length ?b"
    using ne assms(5) by (simp_all add: hd_conv_nth drop_update_cancel unat_gt_0 Suc_leI)
  have for1: "msg_for v 0x68" using assms(3) by (simp add: msg_for_def)
  obtain d1 where d1: "\<forall>ms i. xfer_spec sl 0 i (wr_msg 0x68 1 ?b # ms) d = (let (ms', r, d2) = xfer_spec sl 0 (Suc i) ms d1 in (wr_msg 0x68 1 ?b # ms', r, d2))"
    "v_regs v d1 = v_regs v d" "v_ptr v d1 = reg"
    using pointer_message [OF assms(2) for1 hd(1)] hd(2) by metis
  have "xfer_spec sl 0 0 [wr_msg 0x68 1 ?b] d = ([wr_msg 0x68 1 ?b], 1, d1)" using d1(1) by simp
  then obtain st1 where st1: "finishes (rt_i2c_transfer ?bus [wr_msg 0x68 1 ?b]) st st1 ([wr_msg 0x68 1 ?b], 1)" "i2c_at \<alpha> st1 (sl_stop sl d1)" "i2c_moves st st1"
    using transfer_at [OF assms(1,4), of "[wr_msg 0x68 1 ?b]"] hd(4) by auto
  let ?d = "sl_stop sl d1"
  obtain d2 where d2: "\<forall>ms i. xfer_spec sl 0 i (rd_msg 0x68 n ?b # ms) ?d = (let (ms', r, d2) = xfer_spec sl 0 (Suc i) ms d2
      in (rd_msg 0x68 n (regs_from (v_regs v ?d) (v_ptr v ?d) (unat n) @ drop (unat n) ?b) # ms', r, d2))" "v_regs v d2 = v_regs v ?d"
    using registers_message [OF assms(2) for1] by metis
  let ?r = "rd_msg 0x68 n (regs_from (v_regs v d) reg (unat n) @ drop (unat n) buffer)"
  have "xfer_spec sl 0 0 [rd_msg 0x68 n ?b] ?d = ([?r], 1, d2)" using d2(1) d1(2,3) stop_regs [OF assms(2)] hd(3) by simp
  then obtain st2 where st2: "finishes (rt_i2c_transfer ?bus [rd_msg 0x68 n ?b]) st1 st2 ([?r], 1)" "i2c_at \<alpha> st2 (sl_stop sl d2)" "i2c_moves st1 st2"
    using transfer_at [OF assms(1) st1(2), of "[rd_msg 0x68 n ?b]"] assms(5,6) by auto
  have "finishes (mpu6050_read_block ?bus reg n buffer) st st2 (msg_buf ?r)"
    unfolding mpu6050_read_block_def wr_msg_def [symmetric] rd_msg_def [symmetric]
    by (rule finishes_seq [OF st1(1)], simp, rule finishes_seq [OF st2(1)], simp)
  then show ?thesis using st2(2) d1(2) d2(2) stop_regs [OF assms(2)] i2c_moves_trans [OF st1(3) st2(3)] by (intro exI [of _ st2] exI [of _ "sl_stop sl d2"]) simp
qed

lemma bulk_reads:
  assumes "pins_wired pins cfg \<alpha> sl" and "reg_device sl v" and "v_addr v = 0x76" and "i2c_at \<alpha> st d" and "n \<noteq> 0" and "unat n \<le> length buf"
  shows "\<exists>st' d'. finishes (rt_i2c_transfer (i2c_board pins cfg) [wr_msg 0x76 1 [reg], rd_msg 0x76 n buf]) st st'
       ([wr_msg 0x76 1 [reg], rd_msg 0x76 n (regs_from (v_regs v d) reg (unat n) @ drop (unat n) buf)], 2) \<and>
     i2c_at \<alpha> st' d' \<and> v_regs v d' = v_regs v d \<and> i2c_moves st st'"
proof -
  have for1: "msg_for v 0x76" using assms(3) by (simp add: msg_for_def)
  obtain d1 where d1: "\<forall>ms i. xfer_spec sl 0 i (wr_msg 0x76 1 [reg] # ms) d = (let (ms', r, d2) = xfer_spec sl 0 (Suc i) ms d1 in (wr_msg 0x76 1 [reg] # ms', r, d2))"
    "v_regs v d1 = v_regs v d" "v_ptr v d1 = reg"
    using pointer_message [OF assms(2) for1, of "[reg]"] by (metis list.sel(1) list.simps(3))
  obtain d2 where d2: "\<forall>ms i. xfer_spec sl 0 i (rd_msg 0x76 n buf # ms) d1 = (let (ms', r, d2) = xfer_spec sl 0 (Suc i) ms d2
      in (rd_msg 0x76 n (regs_from (v_regs v d1) (v_ptr v d1) (unat n) @ drop (unat n) buf) # ms', r, d2))" "v_regs v d2 = v_regs v d1"
    using registers_message [OF assms(2) for1] by metis
  have x: "xfer_spec sl 0 0 [wr_msg 0x76 1 [reg], rd_msg 0x76 n buf] d =
    ([wr_msg 0x76 1 [reg], rd_msg 0x76 n (regs_from (v_regs v d) reg (unat n) @ drop (unat n) buf)], 2, d2)" using d1 d2 by simp
  have "\<forall>m\<in>set [wr_msg 0x76 1 [reg], rd_msg 0x76 n buf]. plain_msg m" using assms(5,6) by simp
  from transfer_at [OF assms(1,4) this _ x] obtain st' where "finishes (rt_i2c_transfer (i2c_board pins cfg) [wr_msg 0x76 1 [reg], rd_msg 0x76 n buf]) st st'
       ([wr_msg 0x76 1 [reg], rd_msg 0x76 n (regs_from (v_regs v d) reg (unat n) @ drop (unat n) buf)], 2)"
    "i2c_at \<alpha> st' (sl_stop sl d2)" "i2c_moves st st'" by auto
  then show ?thesis using stop_regs [OF assms(2)] d1(2) d2(2) by (intro exI [of _ st'] exI [of _ "sl_stop sl d2"]) simp
qed

lemma reg_read_reads:
  assumes "pins_wired pins cfg \<alpha> sl" and "reg_device sl v" and "v_addr v = 0x76" and "i2c_at \<alpha> st d"
  shows "\<exists>st' d'. finishes (reg_read (i2c_board pins cfg) reg) st st' (v_regs v d reg) \<and> i2c_at \<alpha> st' d' \<and> v_regs v d' = v_regs v d \<and> i2c_moves st st'"
proof -
  obtain st' d' where s: "finishes (rt_i2c_transfer (i2c_board pins cfg) [wr_msg 0x76 1 [reg], rd_msg 0x76 1 [0]]) st st'
       ([wr_msg 0x76 1 [reg], rd_msg 0x76 1 (regs_from (v_regs v d) reg 1 @ drop 1 [0])], 2)" "i2c_at \<alpha> st' d'" "v_regs v d' = v_regs v d" "i2c_moves st st'"
    using bulk_reads [OF assms, of 1 "[0]" reg] by auto
  have "finishes (reg_read (i2c_board pins cfg) reg) st st' (v_regs v d reg)"
    unfolding reg_read_def wr_msg_def [symmetric] rd_msg_def [symmetric]
    by (rule finishes_seq [OF s(1)]) (simp add: regs_from_def)
  then show ?thesis using s by blast
qed

lemma reg_write_writes:
  assumes "pins_wired pins cfg \<alpha> sl" and "reg_device sl v" and "v_addr v = 0x76" and "i2c_at \<alpha> st d" and "reg \<in> v_writable v"
  shows "\<exists>st' d'. finishes (reg_write (i2c_board pins cfg) reg x) st st' () \<and> i2c_at \<alpha> st' d' \<and> v_regs v d' = (v_regs v d)(reg := x) \<and> i2c_moves st st'"
proof -
  have for1: "msg_for v 0x76" using assms(3) by (simp add: msg_for_def)
  obtain d1 where d1: "xfer_spec sl 0 0 [wr_msg 0x76 2 [reg, x]] d = ([wr_msg 0x76 2 [reg, x]], 1, d1)" "v_regs v d1 = (v_regs v d)(reg := x)"
    using register_message [OF assms(2) for1 assms(5)] by metis
  obtain st' where s: "finishes (rt_i2c_transfer (i2c_board pins cfg) [wr_msg 0x76 2 [reg, x]]) st st' ([wr_msg 0x76 2 [reg, x]], 1)" "i2c_at \<alpha> st' (sl_stop sl d1)" "i2c_moves st st'"
    using transfer_at [OF assms(1,4) _ _ d1(1)] by auto
  have "finishes (reg_write (i2c_board pins cfg) reg x) st st' ()"
    unfolding reg_write_def wr_msg_def [symmetric] by (rule finishes_seq [OF s(1)]) simp
  then show ?thesis using s(2,3) d1(2) stop_regs(1) [OF assms(2)] by (intro exI [of _ st'] exI [of _ "sl_stop sl d1"]) simp
qed

lemma set_field_sets:
  assumes "pins_wired pins cfg \<alpha> sl" and "reg_device sl v" and "v_addr v = 0x76" and "i2c_at \<alpha> st d" and "reg \<in> v_writable v"
  shows "\<exists>st' d'. finishes (set_field (i2c_board pins cfg) reg msk x) st st' () \<and> i2c_at \<alpha> st' d' \<and>
     v_regs v d' = (v_regs v d)(reg := (v_regs v d reg AND NOT msk) OR (x AND msk)) \<and> i2c_moves st st'"
proof -
  obtain st1 d1 where 1: "finishes (reg_read (i2c_board pins cfg) reg) st st1 (v_regs v d reg)" "i2c_at \<alpha> st1 d1" "v_regs v d1 = v_regs v d" "i2c_moves st st1"
    using reg_read_reads [OF assms(1-4)] by blast
  obtain st2 d2 where 2: "finishes (reg_write (i2c_board pins cfg) reg ((v_regs v d reg AND NOT msk) OR (x AND msk))) st1 st2 ()" "i2c_at \<alpha> st2 d2"
      "v_regs v d2 = (v_regs v d1)(reg := (v_regs v d reg AND NOT msk) OR (x AND msk))" "i2c_moves st1 st2"
    using reg_write_writes [OF assms(1-3) 1(2) assms(5)] by blast
  have "finishes (set_field (i2c_board pins cfg) reg msk x) st st2 ()" unfolding set_field_def by (rule finishes_seq [OF 1(1)]) (rule 2(1))
  then show ?thesis using 1(3) 2 i2c_moves_trans [OF 1(4) 2(4)] by auto
qed

lemma unat_ucast_16: "unat (ucast n :: u16) = unat n" for n :: u8
proof -
  have "unat n < 2 ^ 16" by (rule less_trans [OF unat_less_256]) simp
  then show ?thesis by (simp add: unsigned_ucast_eq take_bit_nat_eq_self)
qed

lemma bulk_result:
  assumes "pins_wired pins cfg \<alpha> sl" and "reg_device sl v" and "v_addr v = 0x76" and "i2c_at \<alpha> st d" and "n \<noteq> 0" and "unat n \<le> length buf"
  shows "\<exists>st' d'. finishes (reg_read_bulk (i2c_board pins cfg) reg buf n) st st' (regs_from (v_regs v d) reg (unat n) @ drop (unat n) buf, BMP280_SUCCESS) \<and>
     i2c_at \<alpha> st' d' \<and> v_regs v d' = v_regs v d \<and> i2c_moves st st'"
proof -
  have n: "(ucast n :: u16) \<noteq> 0" using assms(5) unat_ucast_16 [of n] by (metis unat_eq_zero)
  obtain st' d' where s: "finishes (rt_i2c_transfer (i2c_board pins cfg) [wr_msg 0x76 1 [reg], rd_msg 0x76 (ucast n) buf]) st st'
       ([wr_msg 0x76 1 [reg], rd_msg 0x76 (ucast n) (regs_from (v_regs v d) reg (unat n) @ drop (unat n) buf)], 2)"
      "i2c_at \<alpha> st' d'" "v_regs v d' = v_regs v d" "i2c_moves st st'"
    using bulk_reads [OF assms(1-4) n, of buf reg] assms(6) unfolding unat_ucast_16 by blast
  have "finishes (reg_read_bulk (i2c_board pins cfg) reg buf n) st st' (regs_from (v_regs v d) reg (unat n) @ drop (unat n) buf, BMP280_SUCCESS)"
    unfolding reg_read_bulk_def wr_msg_def [symmetric] rd_msg_def [symmetric] by (rule finishes_seq [OF s(1)]) simp
  then show ?thesis using s by blast
qed

section \<open>Properties of the sensors\<close>

text \<open>The raw values of the barometer: 20 bits, the last four from the upper half of the third byte.\<close>

lemma unat_raw20: "unat (raw20 b0 b1 b2) = unat b0 * 4096 + unat b1 * 16 + unat b2 div 16"
proof -
  let ?x = "push_bit 12 (ucast b0) :: u32" and ?y = "push_bit 4 (ucast b1) :: u32" and ?z = "ucast (drop_bit 4 b2) :: u32"
  have l: "unat b0 < 256" "unat b1 < 256" "unat b2 < 256" by simp_all
  then have l32: "unat b0 < 4294967296" "unat b0 * 4096 < 4294967296" "unat b1 < 4294967296" "unat b1 * 16 < 4294967296" "unat b2 div 16 < 4294967296" by linarith+
  have x: "unat ?x = unat b0 * 4096"
    unfolding unsigned_push_bit_eq unsigned_ucast_eq using l32 by (simp add: push_bit_eq_mult take_bit_nat_eq_self)
  have y: "unat ?y = unat b1 * 16"
    unfolding unsigned_push_bit_eq unsigned_ucast_eq using l32 by (simp add: push_bit_eq_mult take_bit_nat_eq_self)
  have z: "unat ?z = unat b2 div 16"
    unfolding unsigned_ucast_eq unsigned_drop_bit_eq using l32 by (simp add: drop_bit_eq_div take_bit_nat_eq_self)
  have "?y AND ?z = 0" by (rule bit_word_eqI) (auto simp: bit_simps dest: bit_imp_le_length)
  then have yz: "?y OR ?z = ?y + ?z" by (rule disjunctive_add_eq_or [symmetric])
  have "?x AND (?y OR ?z) = 0" by (rule bit_word_eqI) (auto simp: bit_simps dest: bit_imp_le_length)
  then have "raw20 b0 b1 b2 = ?x + (?y + ?z)" unfolding raw20_def yz by (rule disjunctive_add_eq_or [symmetric])
  moreover have s: "unat b1 * 16 + unat b2 div 16 < 4294967296" "unat b0 * 4096 + (unat b1 * 16 + unat b2 div 16) < 4294967296" using l by linarith+
  then have "unat (?y + ?z) = unat b1 * 16 + unat b2 div 16" using y z by (simp add: unat_plus_if')
  ultimately show ?thesis using s x by (simp add: unat_plus_if')
qed

text \<open>C29. \<^verbatim>\<open>mpu6050_read_raw\<close> returns the numbers in the registers of the accelerometer, the gyroscope and the thermometer, over the pins, the
  lines and the lock of the bus.\<close>

theorem mpu6050_read_raw_correct:
  assumes "pins_wired pins cfg \<alpha> sl" and "reg_device sl v" and "v_addr v = 0x68" and "i2c_at \<alpha> st d" and "length buffer = 6"
  shows "\<exists>st' d'. finishes (mpu6050_read_raw (i2c_board pins cfg) buffer) st st'
       ([be16 (v_regs v d 0x3B) (v_regs v d 0x3C), be16 (v_regs v d 0x3D) (v_regs v d 0x3E), be16 (v_regs v d 0x3F) (v_regs v d 0x40)],
        [be16 (v_regs v d 0x43) (v_regs v d 0x44), be16 (v_regs v d 0x45) (v_regs v d 0x46), be16 (v_regs v d 0x47) (v_regs v d 0x48)],
        be16 (v_regs v d 0x41) (v_regs v d 0x42)) \<and>
     i2c_at \<alpha> st' d' \<and> v_regs v d' = v_regs v d \<and> i2c_moves st st'"
proof -
  let ?f = "v_regs v d" and ?bus = "i2c_board pins cfg"
  obtain st1 d1 where 1: "finishes (mpu6050_read_block ?bus 0x3B 6 buffer) st st1 (regs_from ?f 0x3B 6)" "i2c_at \<alpha> st1 d1" "v_regs v d1 = ?f" "i2c_moves st st1"
    using mpu_block_reads [OF assms(1-4), of 6 buffer "0x3B"] assms(5) by auto
  obtain st2 d2 where 2: "finishes (mpu6050_read_block ?bus 0x43 6 (regs_from ?f 0x3B 6)) st1 st2 (regs_from ?f 0x43 6)" "i2c_at \<alpha> st2 d2" "v_regs v d2 = ?f" "i2c_moves st1 st2"
    using mpu_block_reads [OF assms(1-3) 1(2), of 6 "regs_from ?f 0x3B 6" "0x43"] 1(3) by auto
  obtain st3 d3 where 3: "finishes (mpu6050_read_block ?bus 0x41 2 (regs_from ?f 0x43 6)) st2 st3 (regs_from ?f 0x41 2 @ drop 2 (regs_from ?f 0x43 6))"
      "i2c_at \<alpha> st3 d3" "v_regs v d3 = ?f" "i2c_moves st2 st3"
    using mpu_block_reads [OF assms(1-3) 2(2), of 2 "regs_from ?f 0x43 6" "0x41"] 2(3) by auto
  have "finishes (mpu6050_read_raw ?bus buffer) st st3 (be16s (regs_from ?f 0x3B 6), be16s (regs_from ?f 0x43 6), be16 (?f 0x41) (?f 0x42))"
    unfolding mpu6050_read_raw_def
    by (rule finishes_seq [OF 1(1)], rule finishes_seq [OF 2(1)], rule finishes_seq [OF 3(1)]) (simp add: nth_append)
  moreover have "be16s (regs_from ?f r 6) = [be16 (?f r) (?f (r + 1)), be16 (?f (r + 2)) (?f (r + 3)), be16 (?f (r + 4)) (?f (r + 5))]" for r
    by (simp add: be16s_def upt_rec)
  ultimately show ?thesis using 3(2,3) i2c_moves_trans [OF i2c_moves_trans [OF 1(4) 2(4)] 3(4)] by (intro exI [of _ st3] exI [of _ d3]) simp
qed

text \<open>\<^verbatim>\<open>BMP280_Read_UTP\<close> returns the 20 bit values of temperature and pressure in the registers of the barometer.\<close>

theorem BMP280_Read_UTP_correct:
  assumes "pins_wired pins cfg \<alpha> sl" and "reg_device sl v" and "v_addr v = 0x76" and "i2c_at \<alpha> st d" and "length buf = 8"
  shows "\<exists>st' UT UP. finishes (BMP280_Read_UTP (i2c_board pins cfg) buf) st st' (UT, UP, BMP280_SUCCESS) \<and> i2c_moves st st' \<and>
     unat UT = unat (v_regs v d 0xFA) * 4096 + unat (v_regs v d 0xFB) * 16 + unat (v_regs v d 0xFC) div 16 \<and>
     unat UP = unat (v_regs v d 0xF7) * 4096 + unat (v_regs v d 0xF8) * 16 + unat (v_regs v d 0xF9) div 16"
proof -
  let ?b = "regs_from (v_regs v d) 0xF7 8"
  obtain st' where s: "finishes (reg_read_bulk (i2c_board pins cfg) 0xF7 buf 8) st st' (?b, BMP280_SUCCESS)" "i2c_moves st st'"
    using bulk_result [OF assms(1-4), of 8 buf] assms(5) by auto
  have "finishes (BMP280_Read_UTP (i2c_board pins cfg) buf) st st' (raw20 (?b ! 3) (?b ! 4) (?b ! 5), raw20 (?b ! 0) (?b ! 1) (?b ! 2), BMP280_SUCCESS)"
    unfolding BMP280_Read_UTP_def by (rule finishes_seq [OF s(1)]) simp
  then show ?thesis using s(2) by (intro exI conjI) (assumption, assumption, simp_all add: unat_raw20)
qed

text \<open>Without an answer of the barometer, \<^verbatim>\<open>BMP280_Read_UTP\<close> returns an error and the values that mean \<open>no data\<close>.\<close>

theorem BMP280_Read_UTP_no_chip:
  assumes "pins_wired pins cfg \<alpha> sl" and "\<forall>d. fst (sl_address sl 0xEC d) = False" and "i2c_at \<alpha> st d" and "length buf = 8"
  shows "\<exists>st' d'. finishes (BMP280_Read_UTP (i2c_board pins cfg) buf) st st' (0x80000, 0x80000, BMP280_ERROR) \<and> i2c_at \<alpha> st' d' \<and> i2c_moves st st'"
proof -
  let ?ms = "[wr_msg 0x76 1 [0xF7], rd_msg 0x76 8 buf]"
  obtain d1 where "sl_address sl 0xEC d = (False, d1)" using assms(2) by (metis prod.collapse)
  moreover have "addr_byte (wr_msg 0x76 1 [0xF7]) = 0xEC" by (simp add: addr_byte_def) (simp add: wr_msg_def)
  ultimately have "xfer_spec sl 0 0 ?ms d = (?ms, - RT_EIO, d1)" by simp
  then obtain st' where s: "finishes (rt_i2c_transfer (i2c_board pins cfg) ?ms) st st' (?ms, - RT_EIO)" "i2c_at \<alpha> st' (sl_stop sl d1)" "i2c_moves st st'"
    using transfer_at [OF assms(1,3), of ?ms] assms(4) by auto
  have eight: "(ucast (8 :: u8) :: u16) = 8" by simp
  have b: "finishes (reg_read_bulk (i2c_board pins cfg) 0xF7 buf 8) st st' (buf, BMP280_ERROR)"
    unfolding reg_read_bulk_def wr_msg_def [symmetric] rd_msg_def [symmetric] eight by (rule finishes_seq [OF s(1)]) simp
  have "finishes (BMP280_Read_UTP (i2c_board pins cfg) buf) st st' (0x80000, 0x80000, BMP280_ERROR)"
    unfolding BMP280_Read_UTP_def by (rule finishes_seq [OF b]) simp
  then show ?thesis using s by blast
qed

text \<open>C38. The configuration of the barometer in \<^verbatim>\<open>main\<close> leaves it in normal mode with the oversampling asked for, whatever its registers held, keeps
  the bits of \<^verbatim>\<open>config\<close> that are not its own, and changes no other register.\<close>

theorem main_configures_BMP280:
  assumes "pins_wired pins cfg \<alpha> sl" and "reg_device sl v" and "v_addr v = 0x76" and "{0xF4, 0xF5} \<subseteq> v_writable v" and "i2c_at \<alpha> st d"
  shows "\<exists>st' d'. finishes (main_configure_BMP280 (i2c_board pins cfg)) st st' 0x03 \<and> i2c_at \<alpha> st' d' \<and> i2c_moves st st' \<and>
     v_regs v d' = (v_regs v d)(0xF4 := 0x2B, 0xF5 := v_regs v d 0xF5 AND 0x03)"
proof -
  let ?bus = "i2c_board pins cfg" and ?f = "v_regs v d"
  note sf = set_field_sets [OF assms(1-3)]
  have w: "0xF4 \<in> v_writable v" "0xF5 \<in> v_writable v" using assms(4) by auto
  obtain st1 d1 where 1: "finishes (BMP280_SetStandby ?bus 0) st st1 ()" "i2c_at \<alpha> st1 d1" "v_regs v d1 = ?f(0xF5 := ?f 0xF5 AND NOT 0xE0)" "i2c_moves st st1"
    unfolding BMP280_SetStandby_def using sf [OF assms(5) w(2), of "0xE0" 0] by auto
  obtain st2 d2 where 2: "finishes (BMP280_SetFilter ?bus 0) st1 st2 ()" "i2c_at \<alpha> st2 d2" "v_regs v d2 = (v_regs v d1)(0xF5 := v_regs v d1 0xF5 AND NOT 0x1C)" "i2c_moves st1 st2"
    unfolding BMP280_SetFilter_def using sf [OF 1(2) w(2), of "0x1C" 0] by auto
  obtain st3 d3 where 3: "finishes (BMP280_SetOSRST ?bus 0x20) st2 st3 ()" "i2c_at \<alpha> st3 d3" "v_regs v d3 = (v_regs v d2)(0xF4 := (v_regs v d2 0xF4 AND NOT 0xE0) OR 0x20)" "i2c_moves st2 st3"
    unfolding BMP280_SetOSRST_def using sf [OF 2(2) w(1), of "0xE0" "0x20"] by auto
  obtain st4 d4 where 4: "finishes (BMP280_SetOSRSP ?bus 0x08) st3 st4 ()" "i2c_at \<alpha> st4 d4" "v_regs v d4 = (v_regs v d3)(0xF4 := (v_regs v d3 0xF4 AND NOT 0x1C) OR 0x08)" "i2c_moves st3 st4"
    unfolding BMP280_SetOSRSP_def using sf [OF 3(2) w(1), of "0x1C" "0x08"] by auto
  obtain st5 d5 where 5: "finishes (BMP280_SetMode ?bus 0x03) st4 st5 ()" "i2c_at \<alpha> st5 d5" "v_regs v d5 = (v_regs v d4)(0xF4 := (v_regs v d4 0xF4 AND NOT 0x03) OR 0x03)" "i2c_moves st4 st5"
    unfolding BMP280_SetMode_def using sf [OF 4(2) w(1), of "0x03" "0x03"] by auto
  have ctrl: "((x AND - 225 OR 32) AND - 29 OR 8) AND - 4 OR 3 = (0x2B :: u8)" for x
  proof -
    have "(- 256 :: u8) = 0" by simp
    then have "x AND (- 256) = 0" by (simp only: bit.conj_zero_right)
    then show ?thesis by (simp add: bit.conj_disj_distrib2 and.assoc)
  qed
  have conf: "(x AND - 225) AND - 29 = x AND (0x03 :: u8)" for x
  proof -
    have "(- 253 :: u8) = 3" by simp
    then have "x AND (- 253) = x AND 3" by (simp only:)
    then show ?thesis by (simp add: and.assoc)
  qed
  have regs: "v_regs v d5 = ?f(0xF4 := 0x2B, 0xF5 := ?f 0xF5 AND 0x03)"
    unfolding 5(3) 4(3) 3(3) 2(3) 1(3) by (rule ext) (simp add: ctrl conf)
  obtain st6 d6 where 6: "finishes (reg_read ?bus 0xF4) st5 st6 (v_regs v d5 0xF4)" "i2c_at \<alpha> st6 d6" "v_regs v d6 = v_regs v d5" "i2c_moves st5 st6"
    using reg_read_reads [OF assms(1-3) 5(2)] by blast
  have g: "finishes (BMP280_GetMode ?bus) st5 st6 0x03" unfolding BMP280_GetMode_def using regs 6(1) by (intro finishes_seq [OF 6(1)]) simp
  have "finishes (main_configure_BMP280 ?bus) st st6 0x03" unfolding main_configure_BMP280_def
    by (rule finishes_seq [OF 1(1) finishes_seq [OF 2(1) finishes_seq [OF 3(1) finishes_seq [OF 4(1) finishes_seq [OF 5(1) g]]]]])
  moreover have "i2c_moves st st6" using 1(4) 2(4) 3(4) 4(4) 5(4) 6(4) i2c_moves_trans by meson
  ultimately show ?thesis using 6(2,3) regs by (intro exI [of _ st6] exI [of _ d6]) simp
qed

section \<open>Witnesses\<close>

text \<open>A bus with both sensors; the registers hold their own numbers at first.\<close>

record two_sensors =
  mpu_regs :: "u8 \<Rightarrow> u8"
  mpu_ptr :: u8
  bmp_regs :: "u8 \<Rightarrow> u8"
  bmp_ptr :: u8
  sel_addr :: u8
  reg_next :: bool

definition two_slaves :: "two_sensors slave" where
  "two_slaves = \<lparr>
     sl_address = (\<lambda>a d. if a \<in> {0xD0, 0xD1} then (True, d\<lparr>sel_addr := 0x68, reg_next := True\<rparr>)
       else if a \<in> {0xEC, 0xED} then (True, d\<lparr>sel_addr := 0x76, reg_next := True\<rparr>) else (False, d)),
     sl_write = (\<lambda>b d. if sel_addr d = 0x68
       then if reg_next d then (True, d\<lparr>mpu_ptr := b, reg_next := False\<rparr>) else (True, d\<lparr>mpu_regs := (mpu_regs d)(mpu_ptr d := b)\<rparr>)
       else if reg_next d then (True, d\<lparr>bmp_ptr := b, reg_next := False\<rparr>) else (True, d\<lparr>bmp_regs := (bmp_regs d)(bmp_ptr d := b)\<rparr>)),
     sl_read = (\<lambda>d. if sel_addr d = 0x68 then (mpu_regs d (mpu_ptr d), d\<lparr>mpu_ptr := mpu_ptr d + 1\<rparr>) else (bmp_regs d (bmp_ptr d), d\<lparr>bmp_ptr := bmp_ptr d + 1\<rparr>)),
     sl_stop = (\<lambda>d. d\<lparr>sel_addr := 0\<rparr>)\<rparr>"

definition mpu_view :: "two_sensors reg_view" where
  "mpu_view = \<lparr>v_addr = 0x68, v_regs = mpu_regs, v_ptr = mpu_ptr, v_fresh = reg_next, v_sel = (\<lambda>d. sel_addr d = 0x68), v_writable = UNIV\<rparr>"

definition bmp_view :: "two_sensors reg_view" where
  "bmp_view = \<lparr>v_addr = 0x76, v_regs = bmp_regs, v_ptr = bmp_ptr, v_fresh = reg_next, v_sel = (\<lambda>d. sel_addr d = 0x76), v_writable = UNIV\<rparr>"

lemma both_devices: "reg_device two_slaves mpu_view" "reg_device two_slaves bmp_view"
  by (simp_all add: reg_device_def two_slaves_def mpu_view_def bmp_view_def)

definition demo_sensors :: two_sensors where
  "demo_sensors = \<lparr>mpu_regs = id, mpu_ptr = 0, bmp_regs = id, bmp_ptr = 0, sel_addr = 0, reg_next = False\<rparr>"

definition demo_i2c :: "'d \<Rightarrow> 'd pin_world board" where
  "demo_i2c d = \<lparr>kern = (demo_kernel 0)\<lparr>mutexes := [5 \<mapsto> \<lparr>mutex_type = 0x83, mutex_flag = 0, mutex_value = 1, original_priority = 0xff, hold = 0, owner = None\<rparr>]\<rparr>,
     bus_lock = 5, bus_owner = None, bus_dev = \<lparr>pw_wire = at_rest d, pw_count = 0\<rparr>\<rparr>"

lemma demo_i2c_at: "i2c_at pw_wire (demo_i2c d) d"
proof -
  have "queues (demo_kernel 0) (MutexQ 5) = []" "rt_interrupt_nest (demo_kernel 0) = 0" "rt_current_thread (demo_kernel 0) = Some 1"
    "\<exists>th. threads (demo_kernel 0) 1 = Some th" by (simp_all add: demo_kernel_def)
  then show ?thesis by (simp add: i2c_at_def i2c_ready_def in_thread_def free_mutex_def demo_i2c_def rt_object_get_type_def)
qed

theorem mpu6050_read_raw_correct_witness:
  "\<exists>st'. finishes (mpu6050_read_raw (i2c_board (board_pins two_slaves) i2c1_config) [0, 0, 0, 0, 0, 0]) (demo_i2c demo_sensors) st'
     ([be16 0x3B 0x3C, be16 0x3D 0x3E, be16 0x3F 0x40], [be16 0x43 0x44, be16 0x45 0x46, be16 0x47 0x48], be16 0x41 0x42)"
proof -
  have "v_addr mpu_view = 0x68" "v_regs mpu_view demo_sensors = id" by (simp_all add: mpu_view_def demo_sensors_def)
  then show ?thesis
    using mpu6050_read_raw_correct [OF board_pins_wired both_devices(1) _ demo_i2c_at, of "[0, 0, 0, 0, 0, 0]" demo_sensors] by auto
qed

theorem BMP280_Read_UTP_correct_witness:
  "\<exists>st' UT UP. finishes (BMP280_Read_UTP (i2c_board (board_pins two_slaves) i2c1_config) (replicate 8 0)) (demo_i2c demo_sensors) st' (UT, UP, BMP280_SUCCESS) \<and>
     unat UT = 0xFA * 4096 + 0xFB * 16 + 0xFC div 16"
proof -
  have "v_addr bmp_view = 0x76" "v_regs bmp_view demo_sensors = id" by (simp_all add: bmp_view_def demo_sensors_def)
  then show ?thesis
    using BMP280_Read_UTP_correct [OF board_pins_wired both_devices(2) _ demo_i2c_at, of "replicate 8 0" demo_sensors] by fastforce
qed

theorem BMP280_Read_UTP_no_chip_witness:
  "\<exists>st'. finishes (BMP280_Read_UTP (i2c_board (board_pins demo_slave) i2c1_config) (replicate 8 0)) (demo_i2c []) st' (0x80000, 0x80000, BMP280_ERROR)"
  using BMP280_Read_UTP_no_chip [OF board_pins_wired [of demo_slave] _ demo_i2c_at, of "replicate 8 0" "[]"] by (auto simp: demo_slave_def)

theorem main_configures_BMP280_witness:
  "\<exists>st'. finishes (main_configure_BMP280 (i2c_board (board_pins two_slaves) i2c1_config)) (demo_i2c demo_sensors) st' 0x03"
  using main_configures_BMP280 [OF board_pins_wired both_devices(2) _ _ demo_i2c_at, of demo_sensors] by (auto simp: bmp_view_def)

end
