(* ===== verification/Device.thy ===== *)
theory Device
  imports Mempool
begin

text \<open>
  The device interface of \<^verbatim>\<open>rt-thread/src/device.c\<close>: registration, reference counting on opening and closing, and the calls that are
  passed on to the driver. The functions of a driver are parameters, each possibly missing (\<^verbatim>\<open>RT_NULL\<close>); they see the
  kernel and a state of their own. The answer of the allocator is an argument of \<^verbatim>\<open>rt_device_create\<close>.
\<close>

section \<open>Drivers\<close>

record 'w dev_state =
  dev_kern :: kernel
  dev_hw :: 'w

record 'w driver =
  drv_init :: "(nat \<Rightarrow> 'w dev_state \<Rightarrow> ('w dev_state \<times> rt_err_t) option) option"
  drv_open :: "(nat \<Rightarrow> u16 \<Rightarrow> 'w dev_state \<Rightarrow> ('w dev_state \<times> rt_err_t) option) option"
  drv_close :: "(nat \<Rightarrow> 'w dev_state \<Rightarrow> ('w dev_state \<times> rt_err_t) option) option"
  drv_read :: "(nat \<Rightarrow> u32 \<Rightarrow> u32 \<Rightarrow> 'w dev_state \<Rightarrow> ('w dev_state \<times> u8 list \<times> u32) option) option"
  drv_write :: "(nat \<Rightarrow> u32 \<Rightarrow> u8 list \<Rightarrow> u32 \<Rightarrow> 'w dev_state \<Rightarrow> ('w dev_state \<times> u32) option) option"
  drv_control :: "(nat \<Rightarrow> int \<Rightarrow> u32 \<Rightarrow> 'w dev_state \<Rightarrow> ('w dev_state \<times> rt_err_t) option) option"

abbreviation (input) RT_DEVICE_FLAG_STANDALONE :: u16 where "RT_DEVICE_FLAG_STANDALONE \<equiv> 0x008"
abbreviation (input) RT_DEVICE_FLAG_ACTIVATED :: u16 where "RT_DEVICE_FLAG_ACTIVATED \<equiv> 0x010"
abbreviation (input) RT_DEVICE_OFLAG_CLOSE :: u16 where "RT_DEVICE_OFLAG_CLOSE \<equiv> 0x000"
abbreviation (input) RT_DEVICE_OFLAG_OPEN :: u16 where "RT_DEVICE_OFLAG_OPEN \<equiv> 0x008"
abbreviation (input) RT_DEVICE_OFLAG_MASK :: u16 where "RT_DEVICE_OFLAG_MASK \<equiv> 0xf0f"

definition get_dev :: "nat \<Rightarrow> 'w dev_state \<Rightarrow> rt_device option" where
  "get_dev i st = devices (dev_kern st) i"

definition upd_dev :: "nat \<Rightarrow> (rt_device \<Rightarrow> rt_device) \<Rightarrow> 'w dev_state \<Rightarrow> 'w dev_state" where
  "upd_dev i f st = st\<lparr>dev_kern := (dev_kern st)\<lparr>devices := (devices (dev_kern st))(i := map_option f (devices (dev_kern st) i))\<rparr>\<rparr>"

section \<open>Operations\<close>

text \<open>A null device is \<open>None\<close>.\<close>

definition rt_device_find :: "string \<Rightarrow> kernel \<Rightarrow> (kernel \<times> objref option) option" where
  "rt_device_find name s = rt_object_find name RT_Object_Class_Device s"

definition rt_device_register :: "nat option \<Rightarrow> string \<Rightarrow> u16 \<Rightarrow> kernel \<Rightarrow> (kernel \<times> rt_err_t) option" where
  "rt_device_register dev name flags s = (case dev of
     None \<Rightarrow> Some (s, - RT_ERROR)
   | Some i \<Rightarrow> do {
       (s1, found) \<leftarrow> rt_device_find name s;
       if found \<noteq> None then Some (s1, - RT_ERROR)
       else do {
         s2 \<leftarrow> rt_object_init (DevObj i) RT_Object_Class_Device name s1;
         Some (s2\<lparr>devices := (devices s2)(i := map_option (\<lambda>d. d\<lparr>dev_flag := flags, ref_count := 0, open_flag := 0\<rparr>) (devices s2 i))\<rparr>, RT_EOK) } })"

definition rt_device_unregister :: "nat \<Rightarrow> kernel \<Rightarrow> (kernel \<times> rt_err_t) option" where
  "rt_device_unregister i s = do {
     d \<leftarrow> devices s i;
     rt_assert (rt_object_get_type (dev_type d) = RT_Object_Class_Device);
     rt_assert (rt_object_is_systemobject (dev_type d));
     Some (rt_object_detach (DevObj i) s, RT_EOK) }"

definition rt_device_init_all :: "kernel \<Rightarrow> kernel \<times> rt_err_t" where
  "rt_device_init_all s = (s, RT_EOK)"

definition rt_device_create :: "nat option \<Rightarrow> u8 \<Rightarrow> kernel \<Rightarrow> kernel \<times> nat option" where
  "rt_device_create mem cls s = (case mem of
     None \<Rightarrow> (s, None)
   | Some i \<Rightarrow> (s\<lparr>devices := (devices s)(i \<mapsto> \<lparr>dev_type = 0, dev_class = cls, dev_flag = 0, open_flag = 0, ref_count = 0, rx_indicate = None, tx_complete = None\<rparr>)\<rparr>, Some i))"

definition rt_device_destroy :: "nat \<Rightarrow> kernel \<Rightarrow> kernel option" where
  "rt_device_destroy i s = do {
     d \<leftarrow> devices s i;
     rt_assert (rt_object_get_type (dev_type d) = RT_Object_Class_Device);
     rt_assert (\<not> rt_object_is_systemobject (dev_type d));
     Some (free_object (DevObj i) (rt_object_detach (DevObj i) s)) }"

definition rt_device_init :: "'w driver \<Rightarrow> nat \<Rightarrow> 'w dev_state \<Rightarrow> ('w dev_state \<times> rt_err_t) option" where
  "rt_device_init drv i st = do {
     d \<leftarrow> get_dev i st;
     case drv_init drv of
       None \<Rightarrow> Some (st, RT_EOK)
     | Some f \<Rightarrow>
         if dev_flag d AND RT_DEVICE_FLAG_ACTIVATED = 0
         then do {
           (st1, r) \<leftarrow> f i st;
           Some (if r \<noteq> RT_EOK then (st1, r) else (upd_dev i (dev_flag_update (\<lambda>x. x OR RT_DEVICE_FLAG_ACTIVATED)) st1, r)) }
         else Some (st, RT_EOK) }"

text \<open>The first half of \<^verbatim>\<open>rt_device_open\<close>: a device that is not active is initialised.\<close>

definition open_activate :: "'w driver \<Rightarrow> nat \<Rightarrow> rt_device \<Rightarrow> 'w dev_state \<Rightarrow> ('w dev_state \<times> rt_err_t) option" where
  "open_activate drv i d st =
     (if dev_flag d AND RT_DEVICE_FLAG_ACTIVATED = 0
      then do {
        (st1, r) \<leftarrow> (case drv_init drv of None \<Rightarrow> Some (st, RT_EOK) | Some f \<Rightarrow> f i st);
        Some (if r \<noteq> RT_EOK then (st1, r) else (upd_dev i (dev_flag_update (\<lambda>x. x OR RT_DEVICE_FLAG_ACTIVATED)) st1, r)) }
      else Some (st, RT_EOK))"

definition rt_device_open :: "'w driver \<Rightarrow> nat \<Rightarrow> u16 \<Rightarrow> 'w dev_state \<Rightarrow> ('w dev_state \<times> rt_err_t) option" where
  "rt_device_open drv i oflag st = do {
     d \<leftarrow> get_dev i st;
     rt_assert (rt_object_get_type (dev_type d) = RT_Object_Class_Device);
     (st1, r) \<leftarrow> open_activate drv i d st;
     if r \<noteq> RT_EOK then Some (st1, r)
     else do {
       d1 \<leftarrow> get_dev i st1;
       if dev_flag d1 AND RT_DEVICE_FLAG_STANDALONE \<noteq> 0 \<and> open_flag d1 AND RT_DEVICE_OFLAG_OPEN \<noteq> 0 then Some (st1, - RT_EBUSY)
       else do {
         (st2, r2) \<leftarrow> (case drv_open drv of
             Some f \<Rightarrow> f i oflag st1
           | None \<Rightarrow> Some (upd_dev i (open_flag_update (\<lambda>_. oflag AND RT_DEVICE_OFLAG_MASK)) st1, r));
         if r2 = RT_EOK \<or> r2 = - RT_ENOSYS
         then do {
           let st3 = upd_dev i (\<lambda>d. d\<lparr>open_flag := open_flag d OR RT_DEVICE_OFLAG_OPEN, ref_count := ref_count d + 1\<rparr>) st2;
           d3 \<leftarrow> get_dev i st3;
           rt_assert (ref_count d3 \<noteq> 0);
           Some (st3, r2) }
         else Some (st2, r2) } } }"

definition rt_device_close :: "'w driver \<Rightarrow> nat \<Rightarrow> 'w dev_state \<Rightarrow> ('w dev_state \<times> rt_err_t) option" where
  "rt_device_close drv i st = do {
     d \<leftarrow> get_dev i st;
     rt_assert (rt_object_get_type (dev_type d) = RT_Object_Class_Device);
     if ref_count d = 0 then Some (st, - RT_ERROR)
     else let st1 = upd_dev i (ref_count_update (\<lambda>n. n - 1)) st in
       if ref_count d - 1 \<noteq> 0 then Some (st1, RT_EOK)
       else do {
         (st2, r) \<leftarrow> (case drv_close drv of None \<Rightarrow> Some (st1, RT_EOK) | Some f \<Rightarrow> f i st1);
         Some (if r = RT_EOK \<or> r = - RT_ENOSYS then upd_dev i (open_flag_update (\<lambda>_. RT_DEVICE_OFLAG_CLOSE)) st2 else st2, r) } }"

text \<open>The bytes read, and the returned size.\<close>

definition rt_device_read :: "'w driver \<Rightarrow> nat \<Rightarrow> u32 \<Rightarrow> u32 \<Rightarrow> 'w dev_state \<Rightarrow> ('w dev_state \<times> u8 list \<times> u32) option" where
  "rt_device_read drv i pos sz st = do {
     d \<leftarrow> get_dev i st;
     rt_assert (rt_object_get_type (dev_type d) = RT_Object_Class_Device);
     if ref_count d = 0 then Some (st\<lparr>dev_kern := rt_set_errno (- RT_ERROR) (dev_kern st)\<rparr>, [], 0)
     else case drv_read drv of
         Some f \<Rightarrow> f i pos sz st
       | None \<Rightarrow> Some (st\<lparr>dev_kern := rt_set_errno (- RT_ENOSYS) (dev_kern st)\<rparr>, [], 0) }"

definition rt_device_write :: "'w driver \<Rightarrow> nat \<Rightarrow> u32 \<Rightarrow> u8 list \<Rightarrow> u32 \<Rightarrow> 'w dev_state \<Rightarrow> ('w dev_state \<times> u32) option" where
  "rt_device_write drv i pos buffer sz st = do {
     d \<leftarrow> get_dev i st;
     rt_assert (rt_object_get_type (dev_type d) = RT_Object_Class_Device);
     if ref_count d = 0 then Some (st\<lparr>dev_kern := rt_set_errno (- RT_ERROR) (dev_kern st)\<rparr>, 0)
     else case drv_write drv of
         Some f \<Rightarrow> f i pos buffer sz st
       | None \<Rightarrow> Some (st\<lparr>dev_kern := rt_set_errno (- RT_ENOSYS) (dev_kern st)\<rparr>, 0) }"

definition rt_device_control :: "'w driver \<Rightarrow> nat \<Rightarrow> int \<Rightarrow> u32 \<Rightarrow> 'w dev_state \<Rightarrow> ('w dev_state \<times> rt_err_t) option" where
  "rt_device_control drv i cmd arg st = do {
     d \<leftarrow> get_dev i st;
     rt_assert (rt_object_get_type (dev_type d) = RT_Object_Class_Device);
     case drv_control drv of
         Some f \<Rightarrow> f i cmd arg st
       | None \<Rightarrow> Some (st, - RT_ENOSYS) }"

definition rt_device_set_rx_indicate :: "nat \<Rightarrow> nat option \<Rightarrow> 'w dev_state \<Rightarrow> ('w dev_state \<times> rt_err_t) option" where
  "rt_device_set_rx_indicate i rx_ind st = do {
     d \<leftarrow> get_dev i st;
     rt_assert (rt_object_get_type (dev_type d) = RT_Object_Class_Device);
     Some (upd_dev i (rx_indicate_update (\<lambda>_. rx_ind)) st, RT_EOK) }"

definition rt_device_set_tx_complete :: "nat \<Rightarrow> nat option \<Rightarrow> 'w dev_state \<Rightarrow> ('w dev_state \<times> rt_err_t) option" where
  "rt_device_set_tx_complete i tx_done st = do {
     d \<leftarrow> get_dev i st;
     rt_assert (rt_object_get_type (dev_type d) = RT_Object_Class_Device);
     Some (upd_dev i (tx_complete_update (\<lambda>_. tx_done)) st, RT_EOK) }"

section \<open>Reference counting\<close>

text \<open>What the interface relies on of a driver: its functions leave the bookkeeping of the devices alone; \<open>open\<close> may set the open flags of
  its device, and \<open>close\<close> succeeds.\<close>

definition dev_core :: "rt_device \<Rightarrow> u8 \<times> u16 \<times> u8" where
  "dev_core d = (dev_type d, dev_flag d, ref_count d)"

definition is_open :: "rt_device \<Rightarrow> bool" where
  "is_open d \<longleftrightarrow> open_flag d AND RT_DEVICE_OFLAG_OPEN \<noteq> 0"

definition dev_keeps :: "'w dev_state \<Rightarrow> 'w dev_state \<Rightarrow> bool" where
  "dev_keeps st st' \<longleftrightarrow> (\<forall>j. map_option (\<lambda>d. (dev_core d, is_open d)) (get_dev j st') = map_option (\<lambda>d. (dev_core d, is_open d)) (get_dev j st))"

definition dev_opens :: "nat \<Rightarrow> 'w dev_state \<Rightarrow> 'w dev_state \<Rightarrow> bool" where
  "dev_opens i st st' \<longleftrightarrow> map_option dev_core (get_dev i st') = map_option dev_core (get_dev i st) \<and>
     (\<forall>j. j \<noteq> i \<longrightarrow> map_option (\<lambda>d. (dev_core d, is_open d)) (get_dev j st') = map_option (\<lambda>d. (dev_core d, is_open d)) (get_dev j st))"

definition driver_ok :: "'w driver \<Rightarrow> bool" where
  "driver_ok drv \<longleftrightarrow>
     (\<forall>f i st st' r. drv_init drv = Some f \<and> f i st = Some (st', r) \<longrightarrow> dev_keeps st st') \<and>
     (\<forall>f i fl st st' r. drv_open drv = Some f \<and> f i fl st = Some (st', r) \<longrightarrow> (if r = RT_EOK \<or> r = - RT_ENOSYS then dev_opens i st st' else dev_keeps st st')) \<and>
     (\<forall>f i st st' r. drv_close drv = Some f \<and> f i st = Some (st', r) \<longrightarrow> dev_keeps st st' \<and> (r = RT_EOK \<or> r = - RT_ENOSYS)) \<and>
     (\<forall>f i pos sz st st' r. drv_read drv = Some f \<and> f i pos sz st = Some (st', r) \<longrightarrow> dev_keeps st st') \<and>
     (\<forall>f i pos b sz st st' r. drv_write drv = Some f \<and> f i pos b sz st = Some (st', r) \<longrightarrow> dev_keeps st st') \<and>
     (\<forall>f i c a st st' r. drv_control drv = Some f \<and> f i c a st = Some (st', r) \<longrightarrow> dev_keeps st st')"

text \<open>A device is open as long as somebody has it open, it is active then, and a device that stands alone is open once at most.\<close>

definition device_ok :: "rt_device \<Rightarrow> bool" where
  "device_ok d \<longleftrightarrow> (is_open d \<longleftrightarrow> ref_count d \<noteq> 0) \<and> (is_open d \<longrightarrow> dev_flag d AND RT_DEVICE_FLAG_ACTIVATED \<noteq> 0) \<and>
     (dev_flag d AND RT_DEVICE_FLAG_STANDALONE \<noteq> 0 \<longrightarrow> unat (ref_count d) \<le> 1) \<and> dev_type d \<in> {0, RT_Object_Class_Device OR RT_Object_Class_Static}"

definition devices_ok :: "'w dev_state \<Rightarrow> bool" where
  "devices_ok st \<longleftrightarrow> (\<forall>i d. get_dev i st = Some d \<longrightarrow> device_ok d)"

text \<open>Any sequence of calls, by any threads.\<close>

inductive dev_call :: "'w driver \<Rightarrow> 'w dev_state \<Rightarrow> 'w dev_state \<Rightarrow> bool" for drv where
  call_register: "rt_device_register (Some i) name flags (dev_kern st) = Some (s', r) \<Longrightarrow> dev_call drv st (st\<lparr>dev_kern := s'\<rparr>)"
| call_unregister: "rt_device_unregister i (dev_kern st) = Some (s', r) \<Longrightarrow> dev_call drv st (st\<lparr>dev_kern := s'\<rparr>)"
| call_create: "get_dev i st = None \<Longrightarrow> rt_device_create (Some i) cls (dev_kern st) = (s', r) \<Longrightarrow> dev_call drv st (st\<lparr>dev_kern := s'\<rparr>)"
| call_destroy: "rt_device_destroy i (dev_kern st) = Some s' \<Longrightarrow> dev_call drv st (st\<lparr>dev_kern := s'\<rparr>)"
| call_init: "rt_device_init drv i st = Some (st', r) \<Longrightarrow> dev_call drv st st'"
| call_open: "rt_device_open drv i oflag st = Some (st', r) \<Longrightarrow> dev_call drv st st'"
| call_close: "rt_device_close drv i st = Some (st', r) \<Longrightarrow> dev_call drv st st'"
| call_read: "rt_device_read drv i pos sz st = Some (st', bs, n) \<Longrightarrow> dev_call drv st st'"
| call_write: "rt_device_write drv i pos bs sz st = Some (st', n) \<Longrightarrow> dev_call drv st st'"
| call_control: "rt_device_control drv i cmd arg st = Some (st', r) \<Longrightarrow> dev_call drv st st'"

lemma get_upd_dev [simp]: "get_dev j (upd_dev i f st) = (if j = i then map_option f (get_dev i st) else get_dev j st)"
  by (simp add: get_dev_def upd_dev_def)

lemma get_dev_kern [simp]: "get_dev j (st\<lparr>dev_kern := s\<rparr>) = devices s j"
  by (simp add: get_dev_def)

lemma device_ok_core: "dev_core d' = dev_core d \<Longrightarrow> is_open d' = is_open d \<Longrightarrow> device_ok d' = device_ok d"
  by (simp add: device_ok_def dev_core_def)

lemma keeps_get:
  assumes "dev_keeps st st'" and "get_dev j st' = Some e"
  obtains f where "get_dev j st = Some f" "dev_core e = dev_core f" "is_open e = is_open f"
proof -
  have "map_option (\<lambda>d. (dev_core d, is_open d)) (get_dev j st) = Some (dev_core e, is_open e)"
    using spec [OF assms(1) [unfolded dev_keeps_def], of j] assms(2) by simp
  then show ?thesis using that by auto
qed

lemma devices_ok_keeps:
  assumes "devices_ok st" and "dev_keeps st st'"
  shows "devices_ok st'"
  unfolding devices_ok_def
proof (intro allI impI)
  fix i d'
  assume "get_dev i st' = Some d'"
  then obtain d where "get_dev i st = Some d" "dev_core d' = dev_core d" "is_open d' = is_open d" using keeps_get [OF assms(2)] by blast
  then show "device_ok d'" using assms(1) device_ok_core [of d' d] unfolding devices_ok_def by blast
qed

lemma devices_ok_upd: "devices_ok st \<Longrightarrow> (\<And>d. get_dev i st = Some d \<Longrightarrow> device_ok (f d)) \<Longrightarrow> devices_ok (upd_dev i f st)"
  by (auto simp: devices_ok_def split: if_splits)

lemma dev_keeps_refl [simp]: "dev_keeps st st"
  by (simp add: dev_keeps_def)

lemma errno_keeps [simp]: "dev_keeps st (st\<lparr>dev_kern := rt_set_errno e (dev_kern st)\<rparr>)"
  by (auto simp: dev_keeps_def get_dev_def rt_set_errno_def upd_thread_def rt_thread_self_def split: option.splits)

lemma driver_okD:
  assumes "driver_ok drv"
  shows "drv_init drv = Some f1 \<Longrightarrow> f1 i st = Some (st', r) \<Longrightarrow> dev_keeps st st'"
    and "drv_open drv = Some f2 \<Longrightarrow> f2 i fl st = Some (st', r) \<Longrightarrow> r = RT_EOK \<or> r = - RT_ENOSYS \<Longrightarrow> dev_opens i st st'"
    and "drv_open drv = Some f2 \<Longrightarrow> f2 i fl st = Some (st', r) \<Longrightarrow> \<not> (r = RT_EOK \<or> r = - RT_ENOSYS) \<Longrightarrow> dev_keeps st st'"
    and "drv_close drv = Some f3 \<Longrightarrow> f3 i st = Some (st', r) \<Longrightarrow> dev_keeps st st' \<and> (r = RT_EOK \<or> r = - RT_ENOSYS)"
    and "drv_read drv = Some f4 \<Longrightarrow> f4 i pos sz st = Some (st', bn) \<Longrightarrow> dev_keeps st st'"
    and "drv_write drv = Some f5 \<Longrightarrow> f5 i pos bs sz st = Some (st', n) \<Longrightarrow> dev_keeps st st'"
    and "drv_control drv = Some f6 \<Longrightarrow> f6 i cmd arg st = Some (st', r) \<Longrightarrow> dev_keeps st st'"
proof -
  note d = assms [unfolded driver_ok_def]
  show "drv_init drv = Some f1 \<Longrightarrow> f1 i st = Some (st', r) \<Longrightarrow> dev_keeps st st'" using d by meson
  show "drv_open drv = Some f2 \<Longrightarrow> f2 i fl st = Some (st', r) \<Longrightarrow> r = RT_EOK \<or> r = - RT_ENOSYS \<Longrightarrow> dev_opens i st st'" using d by metis
  show "drv_open drv = Some f2 \<Longrightarrow> f2 i fl st = Some (st', r) \<Longrightarrow> \<not> (r = RT_EOK \<or> r = - RT_ENOSYS) \<Longrightarrow> dev_keeps st st'" using d by metis
  show "drv_close drv = Some f3 \<Longrightarrow> f3 i st = Some (st', r) \<Longrightarrow> dev_keeps st st' \<and> (r = RT_EOK \<or> r = - RT_ENOSYS)" using d by meson
  show "drv_read drv = Some f4 \<Longrightarrow> f4 i pos sz st = Some (st', bn) \<Longrightarrow> dev_keeps st st'" using d by meson
  show "drv_write drv = Some f5 \<Longrightarrow> f5 i pos bs sz st = Some (st', n) \<Longrightarrow> dev_keeps st st'" using d by meson
  show "drv_control drv = Some f6 \<Longrightarrow> f6 i cmd arg st = Some (st', r) \<Longrightarrow> dev_keeps st st'" using d by meson
qed

lemma activated_OR [simp]: "(x OR RT_DEVICE_FLAG_ACTIVATED) AND RT_DEVICE_FLAG_ACTIVATED \<noteq> 0" for x :: u16
  by (simp add: bit.conj_disj_distrib2)

lemma standalone_OR [simp]: "(x OR RT_DEVICE_FLAG_ACTIVATED) AND RT_DEVICE_FLAG_STANDALONE = x AND RT_DEVICE_FLAG_STANDALONE" for x :: u16
  by (simp add: bit.conj_disj_distrib2)

lemma open_OR [simp]: "(x OR RT_DEVICE_OFLAG_OPEN) AND RT_DEVICE_OFLAG_OPEN \<noteq> 0" for x :: u16
  by (simp add: bit.conj_disj_distrib2)

lemma device_ok_activate: "device_ok d \<Longrightarrow> device_ok (dev_flag_update (\<lambda>x. x OR RT_DEVICE_FLAG_ACTIVATED) d)"
  by (simp add: device_ok_def is_open_def)

lemma init_ok:
  assumes "driver_ok drv" and "devices_ok st" and "rt_device_init drv i st = Some (st', r)"
  shows "devices_ok st'"
proof -
  have "devices_ok st1" if "drv_init drv = Some f" "f i st = Some (st1, r1)" for f st1 r1
    using devices_ok_keeps [OF assms(2) driver_okD(1) [OF assms(1) that]] .
  then show ?thesis using assms(2,3)
    by (auto simp: rt_device_init_def split: bind_splits option.splits if_splits intro!: devices_ok_upd device_ok_activate)
      (auto simp: devices_ok_def)
qed

lemma activate_ok:
  assumes "driver_ok drv" and "devices_ok st" and "open_activate drv i d st = Some (st1, r)" and "get_dev i st = Some d"
  shows "devices_ok st1" and "r = RT_EOK \<Longrightarrow> \<exists>d1. get_dev i st1 = Some d1 \<and> dev_flag d1 AND RT_DEVICE_FLAG_ACTIVATED \<noteq> 0"
proof -
  have k: "devices_ok st2 \<and> (\<exists>d2. get_dev i st2 = Some d2)" if "drv_init drv = Some f" "f i st = Some (st2, r2)" for f st2 r2
  proof -
    note keep = driver_okD(1) [OF assms(1) that]
    then have "map_option (\<lambda>d. (dev_core d, is_open d)) (get_dev i st2) = Some (dev_core d, is_open d)" using assms(4) by (simp add: dev_keeps_def)
    then show ?thesis using devices_ok_keeps [OF assms(2) keep] by auto
  qed
  show "devices_ok st1" using assms(2,3) k
    by (auto simp: open_activate_def split: bind_splits option.splits if_splits intro!: devices_ok_upd device_ok_activate)
      (auto simp: devices_ok_def)
  show "\<exists>d1. get_dev i st1 = Some d1 \<and> dev_flag d1 AND RT_DEVICE_FLAG_ACTIVATED \<noteq> 0" if "r = RT_EOK"
    using that assms(3,4) k by (auto simp: open_activate_def split: bind_splits option.splits if_splits) fastforce
qed

lemma ref_count_up:
  assumes "device_ok d" and "\<not> (dev_flag d AND RT_DEVICE_FLAG_STANDALONE \<noteq> 0 \<and> is_open d)" and "dev_flag d AND RT_DEVICE_FLAG_ACTIVATED \<noteq> 0"
    and "dev_core d' = dev_core d" and "ref_count d + 1 \<noteq> 0"
  shows "device_ok (d'\<lparr>open_flag := open_flag d' OR RT_DEVICE_OFLAG_OPEN, ref_count := ref_count d' + 1\<rparr>)"
proof -
  have "unat (ref_count d + 1) \<le> 1" if "dev_flag d AND RT_DEVICE_FLAG_STANDALONE \<noteq> 0"
    using that assms(1,2) by (auto simp: device_ok_def)
  then show ?thesis using assms by (auto simp: device_ok_def is_open_def dev_core_def)
qed

lemma opens_get:
  assumes "dev_opens i st st'" and "get_dev i st = Some d"
  obtains d' where "get_dev i st' = Some d'" "dev_core d' = dev_core d"
  using assms by (auto simp: dev_opens_def)

text \<open>A successful opening, up to the driver.\<close>

lemma open_counts:
  assumes "devices_ok st" and "dev_opens i st st'" and "get_dev i st = Some d"
    and "\<not> (dev_flag d AND RT_DEVICE_FLAG_STANDALONE \<noteq> 0 \<and> is_open d)" and "dev_flag d AND RT_DEVICE_FLAG_ACTIVATED \<noteq> 0" and "ref_count d + 1 \<noteq> 0"
  shows "devices_ok (upd_dev i (\<lambda>d. d\<lparr>open_flag := open_flag d OR RT_DEVICE_OFLAG_OPEN, ref_count := ref_count d + 1\<rparr>) st')"
  unfolding devices_ok_def
proof (intro allI impI)
  fix j e
  assume j: "get_dev j (upd_dev i (\<lambda>d. d\<lparr>open_flag := open_flag d OR RT_DEVICE_OFLAG_OPEN, ref_count := ref_count d + 1\<rparr>) st') = Some e"
  show "device_ok e"
  proof (cases "j = i")
    case True
    obtain d' where d': "get_dev i st' = Some d'" "dev_core d' = dev_core d" using opens_get [OF assms(2,3)] by blast
    have "device_ok d" using assms(1,3) by (simp add: devices_ok_def)
    from ref_count_up [OF this assms(4,5) d'(2) assms(6)] show ?thesis using j True d'(1) by simp
  next
    case False
    then have g: "get_dev j st' = Some e" using j by simp
    have "map_option (\<lambda>d. (dev_core d, is_open d)) (get_dev j st) = map_option (\<lambda>d. (dev_core d, is_open d)) (get_dev j st')"
      using assms(2) False by (simp add: dev_opens_def)
    then obtain e' where "get_dev j st = Some e'" "dev_core e = dev_core e'" "is_open e = is_open e'" using g by auto
    then show ?thesis using assms(1) device_ok_core [of e e'] unfolding devices_ok_def by blast
  qed
qed

lemma open_ok:
  assumes "driver_ok drv" and "devices_ok st" and "rt_device_open drv i oflag st = Some (st', r)"
  shows "devices_ok st'"
proof -
  obtain d where d: "get_dev i st = Some d" using assms(3) by (auto simp: rt_device_open_def split: bind_splits)
  obtain st1 r1 where 1: "open_activate drv i d st = Some (st1, r1)" using assms(3) d by (auto simp: rt_device_open_def split: bind_splits)
  note ok1 = activate_ok [OF assms(1,2) 1 d]
  show ?thesis
  proof (cases "r1 = RT_EOK")
    case False
    then show ?thesis using assms(3) d 1 ok1(1) by (auto simp: rt_device_open_def split: if_splits)
  next
    case True
    then obtain d1 where d1: "get_dev i st1 = Some d1" "dev_flag d1 AND RT_DEVICE_FLAG_ACTIVATED \<noteq> 0" using ok1(2) by blast
    show ?thesis
    proof (cases "dev_flag d1 AND RT_DEVICE_FLAG_STANDALONE \<noteq> 0 \<and> is_open d1")
      case t: True
      then show ?thesis using assms(3) d 1 True d1(1) ok1(1) by (auto simp: rt_device_open_def is_open_def split: if_splits)
    next
      case False
      obtain st2 r2 where 2: "(case drv_open drv of Some f \<Rightarrow> f i oflag st1
          | None \<Rightarrow> Some (upd_dev i (open_flag_update (\<lambda>_. oflag AND RT_DEVICE_OFLAG_MASK)) st1, r1)) = Some (st2, r2)"
        using assms(3) d 1 True d1(1) False by (auto simp: rt_device_open_def is_open_def split: bind_splits if_splits)
      show ?thesis
      proof (cases "r2 = RT_EOK \<or> r2 = - RT_ENOSYS")
        case s: True
        have op: "dev_opens i st1 st2" using 2 driver_okD(2) [OF assms(1) _ _ s] d1(1)
          by (cases "drv_open drv") (auto simp: dev_opens_def dev_core_def)
        then obtain d2 where d2: "get_dev i st2 = Some d2" "dev_core d2 = dev_core d1" using opens_get d1(1) by blast
        have "ref_count d2 + 1 \<noteq> 0" "st' = upd_dev i (\<lambda>d. d\<lparr>open_flag := open_flag d OR RT_DEVICE_OFLAG_OPEN, ref_count := ref_count d + 1\<rparr>) st2"
          using assms(3) d 1 True d1(1) False 2 s d2(1) by (auto simp: rt_device_open_def is_open_def split: bind_splits if_splits)
        then show ?thesis using open_counts [OF ok1(1) op d1(1) False d1(2)] d2(2) by (simp add: dev_core_def)
      next
        case n: False
        have "dev_keeps st1 st2" using 2 n True driver_okD(3) [OF assms(1) _ _ n] by (cases "drv_open drv") auto
        moreover have "st' = st2" using assms(3) d 1 True d1(1) False 2 n by (auto simp: rt_device_open_def is_open_def split: bind_splits if_splits)
        ultimately show ?thesis using devices_ok_keeps [OF ok1(1)] by simp
      qed
    qed
  qed
qed

lemma close_step:
  assumes "driver_ok drv" and "rt_device_close drv i st = Some (st', r)" and "get_dev i st = Some d" and "ref_count d = 1"
  shows "\<exists>st2. dev_keeps (upd_dev i (ref_count_update (\<lambda>n. n - 1)) st) st2 \<and> st' = upd_dev i (open_flag_update (\<lambda>_. RT_DEVICE_OFLAG_CLOSE)) st2 \<and> (r = RT_EOK \<or> r = - RT_ENOSYS)"
proof -
  let ?st1 = "upd_dev i (ref_count_update (\<lambda>n. n - 1)) st"
  obtain st2 where 2: "(case drv_close drv of None \<Rightarrow> Some (?st1, RT_EOK) | Some f \<Rightarrow> f i ?st1) = Some (st2, r)"
      "st' = (if r = RT_EOK \<or> r = - RT_ENOSYS then upd_dev i (open_flag_update (\<lambda>_. RT_DEVICE_OFLAG_CLOSE)) st2 else st2)"
    using assms(4,3,2) by (auto simp: rt_device_close_def Let_def split: bind_splits if_splits)
  have "dev_keeps ?st1 st2 \<and> (r = RT_EOK \<or> r = - RT_ENOSYS)" using 2(1) driver_okD(4) [OF assms(1)] by (cases "drv_close drv") auto
  then show ?thesis using 2(2) by auto
qed

lemma close_ok:
  assumes "driver_ok drv" and "devices_ok st" and "rt_device_close drv i st = Some (st', r)"
  shows "devices_ok st'"
proof -
  obtain d where d: "get_dev i st = Some d" using assms(3) by (auto simp: rt_device_close_def split: bind_splits)
  have ok: "device_ok d" using assms(2) d by (simp add: devices_ok_def)
  consider "ref_count d = 0" | "ref_count d = 1" | "ref_count d \<noteq> 0" "ref_count d \<noteq> 1" by blast
  then show ?thesis
  proof cases
    case 1
    then show ?thesis using assms(2,3) d by (auto simp: rt_device_close_def split: if_splits)
  next
    case 2
    obtain st2 where st2: "dev_keeps (upd_dev i (ref_count_update (\<lambda>n. n - 1)) st) st2" "st' = upd_dev i (open_flag_update (\<lambda>_. RT_DEVICE_OFLAG_CLOSE)) st2"
      using close_step [OF assms(1,3) d 2] by blast
    have "device_ok e" if e: "get_dev j st' = Some e" for j e
    proof -
      obtain e' where e': "get_dev j st2 = Some e'" "e = (if j = i then e'\<lparr>open_flag := 0\<rparr> else e')" using e st2(2) by (auto split: if_splits)
      obtain f where f: "get_dev j (upd_dev i (ref_count_update (\<lambda>n. n - 1)) st) = Some f" "dev_core e' = dev_core f" "is_open e' = is_open f"
        using keeps_get [OF st2(1) e'(1)] by blast
      show ?thesis
      proof (cases "j = i")
        case True
        then have "f = ref_count_update (\<lambda>n. n - 1) d" using f(1) d by simp
        then have "dev_core f = (dev_type d, dev_flag d, 0)" using 2 by (simp add: dev_core_def)
        then show ?thesis using e'(2) f(2) True ok by (auto simp: device_ok_def is_open_def dev_core_def)
      next
        case False
        then show ?thesis using f e'(2) assms(2) device_ok_core [of e' f] by (auto simp: devices_ok_def)
      qed
    qed
    then show ?thesis by (simp add: devices_ok_def)
  next
    case 3
    have "ref_count d - 1 \<noteq> 0" using 3(2) by simp
    then have "st' = upd_dev i (ref_count_update (\<lambda>n. n - 1)) st" using assms(3) d 3(1) by (auto simp: rt_device_close_def Let_def split: if_splits)
    moreover have "device_ok (ref_count_update (\<lambda>n. n - 1) d)"
      using ok 3 by (auto simp: device_ok_def is_open_def unat_minus_one)
    ultimately show ?thesis using assms(2) d by (auto intro!: devices_ok_upd)
  qed
qed

text \<open>The containers of objects and the other calls.\<close>

lemma exit_critical_devices: "rt_exit_critical s = Some s' \<Longrightarrow> devices s' = devices s"
  using rt_schedule_frame by (auto simp: rt_exit_critical_def Let_def sched_frame_def split: if_splits option.splits)

lemma find_devices:
  assumes "rt_object_find name ty s = Some (s', r)"
  shows "devices s' = devices s"
  using assms exit_critical_devices
  by (auto simp: rt_object_find_def Let_def rt_context_defs rt_enter_critical_def split: bind_splits if_splits)

lemma object_init_devices:
  assumes "rt_object_init (DevObj i) ty name s = Some s'"
  shows "devices s' = (devices s)(i := map_option (dev_type_update (\<lambda>_. ty OR RT_Object_Class_Static)) (devices s i))"
proof -
  obtain s2 where "rt_exit_critical (rt_enter_critical s) = Some s2" and s': "s' = object_list_insert_after ty (DevObj i)
      ((set_object_type (DevObj i) (ty OR RT_Object_Class_Static) s2)\<lparr>obj_name := (obj_name (set_object_type (DevObj i) (ty OR RT_Object_Class_Static) s2))(DevObj i := rt_strncpy 8 name)\<rparr>)"
    using assms by (auto simp: rt_object_init_def Let_def split: bind_splits if_splits)
  then have "devices s2 = devices s" using exit_critical_devices by (fastforce simp: rt_enter_critical_def)
  then show ?thesis unfolding s' by (simp add: object_list_insert_after_def set_object_type_def)
qed

lemma register_ok:
  assumes "devices_ok st" and "rt_device_register (Some i) name flags (dev_kern st) = Some (s', r)"
  shows "devices_ok (st\<lparr>dev_kern := s'\<rparr>)"
proof -
  obtain s1 found where 1: "rt_object_find name RT_Object_Class_Device (dev_kern st) = Some (s1, found)"
    using assms(2) by (auto simp: rt_device_register_def rt_device_find_def split: bind_splits)
  note d1 = find_devices [OF 1]
  show ?thesis
  proof (cases "found = None")
    case False
    then show ?thesis using assms 1 d1 by (auto simp: rt_device_register_def rt_device_find_def devices_ok_def get_dev_def)
  next
    case True
    obtain s2 where 2: "rt_object_init (DevObj i) RT_Object_Class_Device name s1 = Some s2"
      "s' = s2\<lparr>devices := (devices s2)(i := map_option (\<lambda>d. d\<lparr>dev_flag := flags, ref_count := 0, open_flag := 0\<rparr>) (devices s2 i))\<rparr>"
      using assms(2) 1 True by (auto simp: rt_device_register_def rt_device_find_def split: bind_splits)
    have "devices s' = (devices (dev_kern st))(i := map_option (\<lambda>d. d\<lparr>dev_type := 0x89, dev_flag := flags, ref_count := 0, open_flag := 0\<rparr>) (devices (dev_kern st) i))"
      using object_init_devices [OF 2(1)] 2(2) d1 by (simp add: option.map_comp comp_def)
    then show ?thesis using assms(1) by (auto simp: devices_ok_def get_dev_def device_ok_def is_open_def split: if_splits)
  qed
qed

lemma dev_call_ok:
  assumes "driver_ok drv" and "dev_call drv st st'" and "devices_ok st"
  shows "devices_ok st'"
  using assms(2)
proof cases
  case (call_register i name flags s' r)
  then show ?thesis using register_ok assms(3) by blast
next
  case (call_unregister i s' r)
  then obtain d where d: "get_dev i st = Some d" by (auto simp: rt_device_unregister_def get_dev_def split: bind_splits)
  then have g: "get_dev j st' = (if j = i then Some (d\<lparr>dev_type := 0\<rparr>) else get_dev j st)" for j
    using call_unregister by (auto simp: rt_device_unregister_def rt_object_detach_def object_list_remove_def set_object_type_def get_dev_def split: bind_splits if_splits)
  have "device_ok (d\<lparr>dev_type := 0\<rparr>)" using assms(3) d by (auto simp: devices_ok_def device_ok_def is_open_def)
  then show ?thesis using assms(3) by (auto simp: devices_ok_def g split: if_splits)
next
  case (call_create i cls s' r)
  define e where "e = \<lparr>dev_type = 0, dev_class = cls, dev_flag = 0, open_flag = 0, ref_count = 0, rx_indicate = None, tx_complete = None\<rparr>"
  have "get_dev j st' = (if j = i then Some e else get_dev j st)" for j
    using call_create by (auto simp: rt_device_create_def get_dev_def e_def)
  moreover have "device_ok e" by (simp add: e_def device_ok_def is_open_def)
  ultimately show ?thesis using assms(3) by (auto simp: devices_ok_def split: if_splits)
next
  case (call_destroy i s')
  then show ?thesis using assms(3)
    by (auto simp: rt_device_destroy_def free_object_def rt_object_detach_def object_list_remove_def set_object_type_def devices_ok_def get_dev_def split: bind_splits if_splits)
next
  case (call_init i r)
  then show ?thesis using init_ok [OF assms(1,3)] by blast
next
  case (call_open i oflag r)
  then show ?thesis using open_ok [OF assms(1,3)] by blast
next
  case (call_close i r)
  then show ?thesis using close_ok [OF assms(1,3)] by blast
next
  case (call_read i pos sz bs n)
  then have "dev_keeps st st'" using driver_okD(5) [OF assms(1)]
    by (cases "drv_read drv") (auto simp: rt_device_read_def split: bind_splits if_splits)
  then show ?thesis by (rule devices_ok_keeps [OF assms(3)])
next
  case (call_write i pos bs sz n)
  then have "dev_keeps st st'" using driver_okD(6) [OF assms(1)]
    by (cases "drv_write drv") (auto simp: rt_device_write_def split: bind_splits if_splits)
  then show ?thesis by (rule devices_ok_keeps [OF assms(3)])
next
  case (call_control i cmd arg r)
  then have "dev_keeps st st'" using driver_okD(7) [OF assms(1)]
    by (cases "drv_control drv") (auto simp: rt_device_control_def split: bind_splits if_splits)
  then show ?thesis by (rule devices_ok_keeps [OF assms(3)])
qed

section \<open>Properties\<close>


text \<open>\<^verbatim>\<open>rt_device_destroy\<close> never returns: its assertions ask for a device that is registered and dynamic, but registration makes every
  device a system object, and a device that is not registered has no class.\<close>

theorem rt_device_destroy_never_returns:
  assumes "driver_ok drv" and "(dev_call drv)\<^sup>*\<^sup>* st st'" and "devices_ok st"
  shows "rt_device_destroy i (dev_kern st') = None"
proof -
  have "devices_ok st'" using assms(2,3) by (induction rule: rtranclp_induct) (auto intro: dev_call_ok [OF assms(1)])
  then have "devices (dev_kern st') i = Some d \<Longrightarrow> dev_type d \<in> {0, 0x89}" for d by (auto simp: devices_ok_def get_dev_def device_ok_def)
  then show ?thesis by (cases "devices (dev_kern st') i") (auto simp: rt_device_destroy_def rt_object_get_type_def rt_object_is_systemobject_def)
qed

text \<open>A stand-alone device whose driver fails to close stays marked as open although nobody has it open: it cannot be opened again.\<close>

theorem failed_close_locks_device:
  assumes "drv_close drv = Some (\<lambda>i st. Some (st, e))" and "e \<noteq> RT_EOK" and "e \<noteq> - RT_ENOSYS" and "get_dev i st = Some d"
    and "dev_type d = 0x89" and "ref_count d = 1" and "is_open d" and "dev_flag d AND RT_DEVICE_FLAG_STANDALONE \<noteq> 0" and "dev_flag d AND RT_DEVICE_FLAG_ACTIVATED \<noteq> 0"
  shows "\<exists>st'. rt_device_close drv i st = Some (st', e) \<and> map_option ref_count (get_dev i st') = Some 0 \<and>
     (\<forall>oflag. rt_device_open drv i oflag st' = Some (st', - RT_EBUSY))"
  using assms by (auto simp: rt_device_close_def rt_device_open_def open_activate_def rt_object_get_type_def is_open_def Let_def)

section \<open>Witnesses\<close>





end
