(* ===== verification/Completion.thy ===== *)
theory Completion
  imports Ipc
begin

text \<open>
  The completions of \<^verbatim>\<open>rt-thread/components/drivers/src/completion.c\<close>: a flag and the one thread that may wait for it. A driver's interrupt
  routine signals the flag with \<^verbatim>\<open>rt_completion_done\<close>; a signal nobody waits for is kept until the next \<^verbatim>\<open>rt_completion_wait\<close>.
\<close>

section \<open>Operations\<close>

abbreviation (input) RT_COMPLETED :: u32 where "RT_COMPLETED \<equiv> 1"
abbreviation (input) RT_UNCOMPLETED :: u32 where "RT_UNCOMPLETED \<equiv> 0"

definition set_completion :: "nat \<Rightarrow> u32 \<Rightarrow> kernel \<Rightarrow> kernel" where
  [rt_defs]: "set_completion i fl s = s\<lparr>completions := (completions s)(i \<mapsto> \<lparr>comp_flag = fl\<rparr>)\<rparr>"

definition rt_completion_init :: "nat \<Rightarrow> kernel \<Rightarrow> kernel" where
  "rt_completion_init i s = (set_completion i RT_UNCOMPLETED s)\<lparr>queues := (queues s)(CompletionQ i := [])\<rparr>"

definition rt_completion_wait :: "nat \<Rightarrow> int \<Rightarrow> kernel \<Rightarrow> (kernel \<times> rt_err_t call) option" where
  "rt_completion_wait i time s = do {
     c \<leftarrow> completions s i;
     if comp_flag c \<noteq> RT_COMPLETED
     then do {
       rt_assert (queues s (CompletionQ i) = []);
       if time = 0 then Some (s, Done (- RT_ETIMEOUT))
       else do {
         t \<leftarrow> rt_thread_self s;
         (s1, _) \<leftarrow> rt_thread_suspend t (upd_thread t (th_error_update (\<lambda>_. RT_EOK)) s);
         let s2 = list_insert_before (CompletionQ i) t s1;
         RT_DEBUG_NOT_IN_INTERRUPT s2;
         s3 \<leftarrow> (if 0 < time then start_thread_timer t (word_of_int time) s2 else Some s2);
         s4 \<leftarrow> rt_schedule s3;
         Some (s4, Waiting) } }
     else Some (set_completion i RT_UNCOMPLETED s, Done RT_EOK) }"

text \<open>The thread runs again.\<close>

definition rt_completion_wait_return :: "nat \<Rightarrow> tid \<Rightarrow> kernel \<Rightarrow> (kernel \<times> rt_err_t) option" where
  "rt_completion_wait_return i t s = do {
     th \<leftarrow> threads s t;
     Some (set_completion i RT_UNCOMPLETED s, th_error th) }"

definition rt_completion_done :: "nat \<Rightarrow> kernel \<Rightarrow> kernel option" where
  "rt_completion_done i s = do {
     c \<leftarrow> completions s i;
     if comp_flag c = RT_COMPLETED then Some s
     else let s1 = set_completion i RT_COMPLETED s in
       case queues s1 (CompletionQ i) of
         [] \<Rightarrow> Some s1
       | t # _ \<Rightarrow> do {
           (s2, _) \<leftarrow> rt_thread_resume t s1;
           rt_schedule s2 } }"

section \<open>Invariant\<close>

text \<open>At most one thread waits, and none while the flag is set.\<close>

definition comp_ok :: "kernel \<Rightarrow> nat \<Rightarrow> rt_completion \<Rightarrow> bool" where
  "comp_ok s i c \<longleftrightarrow> (comp_flag c = RT_COMPLETED \<or> comp_flag c = RT_UNCOMPLETED) \<and> length (queues s (CompletionQ i)) \<le> 1 \<and>
     (comp_flag c = RT_COMPLETED \<longrightarrow> queues s (CompletionQ i) = [])"

definition comp_inv :: "kernel \<Rightarrow> bool" where
  "comp_inv s \<longleftrightarrow> kernel_inv s \<and> (\<forall>i c. completions s i = Some c \<longrightarrow> comp_ok s i c)"

lemma comp_invD:
  assumes "comp_inv s"
  shows "kernel_inv s" "completions s i = Some c \<Longrightarrow> comp_ok s i c"
  using assms by (auto simp: comp_inv_def)

lemma is_waitq_CompletionQ [simp]: "is_waitq (CompletionQ i)"
  by (simp add: is_waitq_def)

lemma set_completion_frame [simp]: "same_sched s (set_completion i fl s)" "timers_frame s (set_completion i fl s)"
  by (simp_all add: same_sched_def set_completion_def)

lemma set_completion_fields [simp]:
  "queues (set_completion i fl s) = queues s" "threads (set_completion i fl s) = threads s"
  "completions (set_completion i fl s) = (completions s)(i \<mapsto> \<lparr>comp_flag = fl\<rparr>)"
  "rt_current_thread (set_completion i fl s) = rt_current_thread s"
  by (simp_all add: set_completion_def)

lemma kernel_inv_set_completion: "kernel_inv s \<Longrightarrow> kernel_inv (set_completion i fl s)"
  by (rule kernel_inv_same_objects) simp_all

lemma comp_ok_transfer:
  assumes "comp_inv s" and "kernel_inv s'" and "\<And>j. j \<noteq> i \<Longrightarrow> completions s' j = completions s j"
    and "\<And>j. j \<noteq> i \<Longrightarrow> queues s' (CompletionQ j) = queues s (CompletionQ j)"
    and "\<And>c. completions s' i = Some c \<Longrightarrow> comp_ok s' i c"
  shows "comp_inv s'"
proof -
  have "comp_ok s' j c" if "completions s' j = Some c" for j c
    using assms(3) [of j] assms(4) [of j] assms(5) [of c] that comp_invD(2) [OF assms(1), of j c]
    by (cases "j = i") (auto simp: comp_ok_def)
  with assms(2) show ?thesis by (simp add: comp_inv_def)
qed

text \<open>Waiting puts the thread at the end of the list: the wait of an IPC object in order of arrival.\<close>

lemma completion_wait_ipc:
  assumes c: "completions s i = Some c" "comp_flag c \<noteq> RT_COMPLETED" "queues s (CompletionQ i) = []"
    and time: "time \<noteq> 0" and inv: "kernel_inv s" and may: "may_block s t"
    and w: "ipc_wait (CompletionQ i) t RT_IPC_FLAG_FIFO time (upd_thread t (th_error_update (\<lambda>_. RT_EOK)) s) = Some s2" "rt_schedule s2 = Some s'"
  shows "rt_completion_wait i time s = Some (s', Waiting)"
proof -
  let ?s = "upd_thread t (th_error_update (\<lambda>_. RT_EOK)) s"
  obtain th where th: "threads s t = Some th" "tstate th = RT_THREAD_RUNNING" "rt_current_thread s = Some t" "rt_interrupt_nest s = 0"
    using may unfolding may_block_def by blast
  have k: "kernel_inv ?s" by (rule kernel_inv_upd_inert [OF inv]) simp
  have "threads ?s t = Some (th\<lparr>th_error := RT_EOK\<rparr>)" using th(1) by (simp add: upd_thread_def)
  then obtain s1 where s1: "rt_thread_suspend t ?s = Some (s1, RT_EOK)" "threads s1 t \<noteq> None" "sched_frame ?s s1"
    by (rule rt_thread_suspend_spec [OF k]) (use th(2) in auto)
  then have "(if 0 < time then start_thread_timer t (word_of_int time) (list_insert_before (CompletionQ i) t s1)
      else Some (list_insert_before (CompletionQ i) t s1)) = Some s2"
    using w(1) by (auto simp: ipc_wait_def rt_ipc_list_suspend_def split: bind_splits if_splits)
  moreover have "rt_interrupt_nest (list_insert_before (CompletionQ i) t s1) = 0"
    using s1(3) th(4) by (simp add: sched_frame_def upd_thread_def list_insert_before_def)
  ultimately show ?thesis using c time w(2) s1(1) th(3) by (simp add: rt_completion_wait_def rt_context_defs Let_def)
qed

lemma completion_wait_blocks:
  assumes inv: "comp_inv s" and c: "completions s i = Some c" "comp_flag c \<noteq> RT_COMPLETED" "queues s (CompletionQ i) = []"
    and time: "time \<noteq> 0" "time < 0x7fffffff" and may: "may_block s t"
  obtains s' where "rt_completion_wait i time s = Some (s', Waiting)" "comp_inv s'" "blocked s s' (CompletionQ i) t RT_IPC_FLAG_FIFO time"
    "completions s' = completions s" "queues s' (CompletionQ i) = [t]"
proof -
  obtain s2 s' where s': "ipc_wait (CompletionQ i) t RT_IPC_FLAG_FIFO time (upd_thread t (th_error_update (\<lambda>_. RT_EOK)) s) = Some s2"
    "rt_schedule s2 = Some s'" "kernel_inv s'" "sched_frame s s'" "blocked s s' (CompletionQ i) t RT_IPC_FLAG_FIFO time"
    "\<And>q'. is_waitq q' \<Longrightarrow> q' \<noteq> CompletionQ i \<Longrightarrow> queues s' q' = queues s q'"
    by (rule block_spec [OF comp_invD(1) [OF inv] may is_waitq_CompletionQ _ time(2)]) blast+
  have r: "rt_completion_wait i time s = Some (s', Waiting)"
    by (rule completion_wait_ipc [OF c time(1) comp_invD(1) [OF inv] may s'(1,2)])
  have q: "queues s' (CompletionQ i) = [t]" using s'(5) c(3) by (auto simp: blocked_def enqueue_waiter_def)
  have cs: "completions s' = completions s" using s'(4) by (simp add: sched_frame_def)
  have "comp_inv s'"
    by (rule comp_ok_transfer [OF inv s'(3), of i])
      (use cs q c comp_invD(2) [OF inv c(1)] s'(6) in \<open>auto simp: comp_ok_def is_waitq_def\<close>)
  then show thesis by (rule that [OF r _ s'(5) cs q])
qed

lemma comp_inv_set:
  assumes "comp_inv s" and "queues s (CompletionQ i) = []" and "fl = RT_COMPLETED \<or> fl = RT_UNCOMPLETED"
  shows "comp_inv (set_completion i fl s)"
  by (rule comp_ok_transfer [OF assms(1) kernel_inv_set_completion [OF comp_invD(1) [OF assms(1)]], of i])
    (use assms(2,3) in \<open>auto simp: comp_ok_def\<close>)

lemma completion_done_kept:
  assumes "completions s i = Some c" and "queues s (CompletionQ i) = []"
  shows "rt_completion_done i s = Some (set_completion i RT_COMPLETED s)"
proof -
  have "set_completion i RT_COMPLETED s = s" if "comp_flag c = RT_COMPLETED"
    using that assms(1) by (cases c) (auto simp: set_completion_def fun_upd_idem)
  then show ?thesis using assms by (auto simp: rt_completion_done_def)
qed

lemma completion_done_wakes:
  assumes inv: "comp_inv s" and c: "completions s i = Some c" and cur: "rt_current_thread s \<noteq> None" and t: "queues s (CompletionQ i) = t # ts"
  obtains s' where "rt_completion_done i s = Some s'" "comp_inv s'" "queues s' (CompletionQ i) = []"
    "completions s' i = Some \<lparr>comp_flag = RT_COMPLETED\<rparr>" "awake s s' t"
proof -
  let ?q = "CompletionQ i" and ?s = "set_completion i RT_COMPLETED s"
  have ts: "ts = []" "comp_flag c \<noteq> RT_COMPLETED" using comp_invD(2) [OF inv c] t by (auto simp: comp_ok_def)
  obtain s' where s': "wake_first ?q ?s = Some s'" "kernel_inv s'" "sched_frame ?s s'" "queues s' ?q = tl (queues s ?q)"
    "queues s ?q \<noteq> [] \<longrightarrow> awake s s' (hd (queues s ?q))" "\<forall>q'. is_waitq q' \<and> q' \<noteq> ?q \<longrightarrow> queues s' q' = queues s q'"
    by (rule wake_after_update [OF comp_invD(1) [OF inv] set_completion_frame is_waitq_CompletionQ cur])
  have cs: "completions s' = (completions s)(i \<mapsto> \<lparr>comp_flag = RT_COMPLETED\<rparr>)" using s'(3) by (simp add: sched_frame_def)
  have r: "rt_completion_done i s = Some s'" using s'(1) t ts c
    by (auto simp: wake_first_def rt_ipc_list_resume_def rt_completion_done_def split: bind_splits)
  have k: "comp_inv s'"
    by (rule comp_ok_transfer [OF inv s'(2), of i]) (use cs s'(4,6) t ts in \<open>auto simp: comp_ok_def is_waitq_def\<close>)
  show thesis by (rule that [OF r k]) (use s'(4,5) t ts cs in simp_all)
qed

text \<open>C19. \<^verbatim>\<open>rt_completion_done\<close> delivers one signal: a thread that waits is taken off the list and can run, and when it does its call returns the error code
  it has, which is success unless it timed out, with the flag cleared; with nobody waiting the signal is kept, and the next
  \<^verbatim>\<open>rt_completion_wait\<close> takes it without waiting; a second signal before that is the same as one. At most one thread ever waits.\<close>

theorem rt_completion_done_delivers:
  assumes "comp_inv s" and "completions s i = Some c" and "rt_current_thread s \<noteq> None"
  shows "\<exists>s'. rt_completion_done i s = Some s' \<and> comp_inv s' \<and> queues s' (CompletionQ i) = [] \<and>
     completions s' i = Some \<lparr>comp_flag = RT_COMPLETED\<rparr> \<and>
     (\<forall>t. queues s (CompletionQ i) = [t] \<longrightarrow> awake s s' t \<and>
        (\<exists>s'' th. threads s t = Some th \<and> rt_completion_wait_return i t s' = Some (s'', th_error th) \<and> comp_inv s'' \<and>
           completions s'' i = Some \<lparr>comp_flag = RT_UNCOMPLETED\<rparr>)) \<and>
     (queues s (CompletionQ i) = [] \<longrightarrow> s' = set_completion i RT_COMPLETED s \<and>
        (\<forall>time. rt_completion_wait i time s' = Some (set_completion i RT_UNCOMPLETED s, Done RT_EOK))) \<and>
     rt_completion_done i s' = Some s'"
proof (cases "queues s (CompletionQ i)")
  case Nil
  have "set_completion i RT_UNCOMPLETED (set_completion i RT_COMPLETED s) = set_completion i RT_UNCOMPLETED s" by (simp add: set_completion_def)
  then show ?thesis using completion_done_kept [OF assms(2) Nil] comp_inv_set [OF assms(1) Nil, of RT_COMPLETED] Nil
    by (simp add: rt_completion_wait_def) (simp add: rt_completion_done_def)
next
  case (Cons t ts)
  then have ts: "ts = []" using comp_invD(2) [OF assms(1,2)] by (simp add: comp_ok_def)
  obtain s' where s': "rt_completion_done i s = Some s'" "comp_inv s'" "queues s' (CompletionQ i) = []"
    "completions s' i = Some \<lparr>comp_flag = RT_COMPLETED\<rparr>" "awake s s' t"
    by (rule completion_done_wakes [OF assms Cons])
  obtain th th' where th: "threads s t = Some th" "threads s' t = Some th'" "th_error th' = th_error th" using s'(5) unfolding awake_def by blast
  then have "rt_completion_wait_return i t s' = Some (set_completion i RT_UNCOMPLETED s', th_error th)" by (simp add: rt_completion_wait_return_def)
  moreover have "rt_completion_done i s' = Some s'" using s'(4) by (simp add: rt_completion_done_def)
  ultimately show ?thesis using s' th(1) comp_inv_set [OF s'(2,3)] Cons ts by simp
qed

text \<open>Thread 3 waits for completion 0, completion 1 is free.\<close>

definition demo_completion :: kernel where
  "demo_completion = (demo_on (CompletionQ 0))\<lparr>completions := [0 \<mapsto> \<lparr>comp_flag = 0\<rparr>, 1 \<mapsto> \<lparr>comp_flag = 0\<rparr>]\<rparr>"

lemma demo_completion_inv: "comp_inv demo_completion"
proof -
  have "kernel_inv demo_completion"
    by (rule kernel_inv_same_objects [OF demo_on_inv [OF is_waitq_CompletionQ [of 0]]]) (simp_all add: demo_completion_def same_sched_def)
  then show ?thesis by (auto simp: comp_inv_def comp_ok_def demo_completion_def split: if_splits)
qed

theorem rt_completion_done_delivers_witness:
  "\<exists>s' s''. rt_completion_done 0 demo_completion = Some s' \<and> queues s' (CompletionQ 0) = [] \<and>
     rt_completion_wait_return 0 3 s' = Some (s'', RT_EOK) \<and> completions s'' 0 = Some \<lparr>comp_flag = RT_UNCOMPLETED\<rparr>"
  using rt_completion_done_delivers [OF demo_completion_inv, of 0 "\<lparr>comp_flag = 0\<rparr>"]
  by (auto simp: demo_completion_def demo_thread_def)

text \<open>\<^verbatim>\<open>rt_completion_wait\<close> on every branch: a signal is taken, a call without waiting time returns \<^verbatim>\<open>-RT_ETIMEOUT\<close> and changes nothing, any other
  call suspends the thread, alone on the list.\<close>

theorem rt_completion_wait_correct:
  assumes "comp_inv s" and "completions s i = Some c" and "queues s (CompletionQ i) = []" and "may_block s t" and "time < 0x7fffffff"
  shows "\<exists>s' r. rt_completion_wait i time s = Some (s', r) \<and> comp_inv s' \<and>
     (comp_flag c = RT_COMPLETED \<longrightarrow> r = Done RT_EOK \<and> s' = set_completion i RT_UNCOMPLETED s) \<and>
     (comp_flag c \<noteq> RT_COMPLETED \<and> time = 0 \<longrightarrow> r = Done (- RT_ETIMEOUT) \<and> s' = s) \<and>
     (comp_flag c \<noteq> RT_COMPLETED \<and> time \<noteq> 0 \<longrightarrow> r = Waiting \<and> queues s' (CompletionQ i) = [t] \<and> blocked s s' (CompletionQ i) t RT_IPC_FLAG_FIFO time)"
proof (cases "comp_flag c \<noteq> RT_COMPLETED \<and> time \<noteq> 0")
  case True
  then obtain s' where "rt_completion_wait i time s = Some (s', Waiting)" "comp_inv s'" "blocked s s' (CompletionQ i) t RT_IPC_FLAG_FIFO time"
    "queues s' (CompletionQ i) = [t]"
    using completion_wait_blocks [OF assms(1,2) _ assms(3) _ assms(5,4)] by blast
  with True show ?thesis by simp
next
  case False
  then show ?thesis using assms(1-3) comp_inv_set [OF assms(1,3), of RT_UNCOMPLETED] by (auto simp: rt_completion_wait_def)
qed

text \<open>A second thread that waits stops the system: the assertion that the list is empty fails.\<close>

lemma rt_completion_wait_one_waiter:
  "completions s i = Some c \<Longrightarrow> comp_flag c \<noteq> RT_COMPLETED \<Longrightarrow> queues s (CompletionQ i) \<noteq> [] \<Longrightarrow> rt_completion_wait i time s = None"
  by (simp add: rt_completion_wait_def)

end
