(* ===== verification/Ieee.thy ===== *)
theory Ieee
  imports Complex_Main Prelude
begin

text \<open>
  The types \<^verbatim>\<open>float\<close> and \<^verbatim>\<open>double\<close> of C on this processor: binary32 and binary64 of IEEE 754 with rounding to nearest, ties to even. A number is the
  real number it stands for; minus zero, the infinities and NaN are values of their own. An operation rounds the exact result once. The
  operations are the ones of the type classes for arithmetic, so that a formula reads as in C, with conversions written out.
\<close>

section \<open>Formats and rounding\<close>

text \<open>A number of a format is a multiple \<open>m * 2 ^ e\<close> with less than \<open>prec\<close> bits and \<open>emin \<le> e \<le> emax\<close>.\<close>

record fformat =
  fprec :: nat
  emin :: int
  emax :: int

definition single :: fformat where
  "single = \<lparr>fprec = 24, emin = - 149, emax = 104\<rparr>"

definition double :: fformat where
  "double = \<lparr>fprec = 53, emin = - 1074, emax = 971\<rparr>"

definition pow2 :: "int \<Rightarrow> real" where
  "pow2 e = 2 powi e"

definition round_half_even :: "real \<Rightarrow> int" where
  "round_half_even r = (let k = \<lfloor>r\<rfloor>; d = r - of_int k
     in if d < 1 / 2 then k else if 1 / 2 < d then k + 1 else if even k then k else k + 1)"

text \<open>The exponent of the last place of a number of this size.\<close>

definition ulp_exp :: "fformat \<Rightarrow> real \<Rightarrow> int" where
  "ulp_exp f x = (case find (\<lambda>e. \<bar>x\<bar> < pow2 (e + int (fprec f))) [emin f..emax f] of Some e \<Rightarrow> e | None \<Rightarrow> emax f + 1)"

definition rnd :: "fformat \<Rightarrow> real \<Rightarrow> real" where
  "rnd f x = of_int (round_half_even (x / pow2 (ulp_exp f x))) * pow2 (ulp_exp f x)"

datatype ieee = NaN | PInf | NInf | NegZero | Num real

definition fround :: "fformat \<Rightarrow> bool \<Rightarrow> real \<Rightarrow> ieee" where
  "fround f neg x = (let r = rnd f x
     in if pow2 (emax f + int (fprec f)) \<le> \<bar>r\<bar> then (if x < 0 then NInf else PInf)
        else if r = 0 \<and> neg then NegZero else Num r)"

section \<open>Operations\<close>

fun val :: "ieee \<Rightarrow> real" where
  "val (Num x) = x"
| "val _ = 0"

fun is_neg :: "ieee \<Rightarrow> bool" where
  "is_neg NInf = True"
| "is_neg NegZero = True"
| "is_neg (Num x) = (x < 0)"
| "is_neg _ = False"

definition is_inf :: "ieee \<Rightarrow> bool" where
  "is_inf a \<longleftrightarrow> a = PInf \<or> a = NInf"

definition is_fin :: "ieee \<Rightarrow> bool" where
  "is_fin a \<longleftrightarrow> a \<noteq> NaN \<and> \<not> is_inf a"

definition inf_sgn :: "bool \<Rightarrow> ieee" where
  "inf_sgn neg = (if neg then NInf else PInf)"

definition zero_sgn :: "bool \<Rightarrow> ieee" where
  "zero_sgn neg = (if neg then NegZero else Num 0)"

fun fneg :: "ieee \<Rightarrow> ieee" where
  "fneg NaN = NaN"
| "fneg PInf = NInf"
| "fneg NInf = PInf"
| "fneg NegZero = Num 0"
| "fneg (Num x) = (if x = 0 then NegZero else Num (- x))"

definition fadd :: "fformat \<Rightarrow> ieee \<Rightarrow> ieee \<Rightarrow> ieee" where
  "fadd f a b = (if a = NaN \<or> b = NaN \<or> is_inf a \<and> is_inf b \<and> a \<noteq> b then NaN
     else if is_inf a then a else if is_inf b then b
     else let z = val a + val b in fround f (if z = 0 then is_neg a \<and> is_neg b else z < 0) z)"

definition fmul :: "fformat \<Rightarrow> ieee \<Rightarrow> ieee \<Rightarrow> ieee" where
  "fmul f a b = (if a = NaN \<or> b = NaN \<or> is_inf a \<and> is_fin b \<and> val b = 0 \<or> is_inf b \<and> is_fin a \<and> val a = 0 then NaN
     else if is_inf a \<or> is_inf b then inf_sgn (is_neg a \<noteq> is_neg b)
     else fround f (is_neg a \<noteq> is_neg b) (val a * val b))"

definition fdiv :: "fformat \<Rightarrow> ieee \<Rightarrow> ieee \<Rightarrow> ieee" where
  "fdiv f a b = (if a = NaN \<or> b = NaN \<or> is_inf a \<and> is_inf b \<or> is_fin a \<and> is_fin b \<and> val a = 0 \<and> val b = 0 then NaN
     else if is_inf a \<or> is_fin b \<and> val b = 0 then inf_sgn (is_neg a \<noteq> is_neg b)
     else if is_inf b then zero_sgn (is_neg a \<noteq> is_neg b)
     else fround f (is_neg a \<noteq> is_neg b) (val a / val b))"

definition flt :: "ieee \<Rightarrow> ieee \<Rightarrow> bool" where
  "flt a b \<longleftrightarrow> a \<noteq> NaN \<and> b \<noteq> NaN \<and>
     (if a = NInf then b \<noteq> NInf else if b = NInf then False else if a = PInf then False else if b = PInf then True else val a < val b)"

definition feq :: "ieee \<Rightarrow> ieee \<Rightarrow> bool" where
  "feq a b \<longleftrightarrow> a \<noteq> NaN \<and> b \<noteq> NaN \<and> (if is_inf a \<or> is_inf b then a = b else val a = val b)"

text \<open>Conversion to a format.\<close>

definition fcvt :: "fformat \<Rightarrow> ieee \<Rightarrow> ieee" where
  "fcvt f a = (case a of Num x \<Rightarrow> fround f (x < 0) x | _ \<Rightarrow> a)"

section \<open>The types of C\<close>

datatype float32 = F32 ieee
datatype float64 = F64 ieee

primrec f32 :: "float32 \<Rightarrow> ieee" where "f32 (F32 a) = a"
primrec f64 :: "float64 \<Rightarrow> ieee" where "f64 (F64 a) = a"

instantiation float32 :: "{plus, minus, times, uminus, inverse, ord}"
begin

definition plus_float32 :: "float32 \<Rightarrow> float32 \<Rightarrow> float32" where "plus_float32 a b = F32 (fadd single (f32 a) (f32 b))"
definition minus_float32 :: "float32 \<Rightarrow> float32 \<Rightarrow> float32" where "minus_float32 a b = F32 (fadd single (f32 a) (fneg (f32 b)))"
definition times_float32 :: "float32 \<Rightarrow> float32 \<Rightarrow> float32" where "times_float32 a b = F32 (fmul single (f32 a) (f32 b))"
definition uminus_float32 :: "float32 \<Rightarrow> float32" where "uminus_float32 a = F32 (fneg (f32 a))"
definition divide_float32 :: "float32 \<Rightarrow> float32 \<Rightarrow> float32" where "divide_float32 a b = F32 (fdiv single (f32 a) (f32 b))"
definition inverse_float32 :: "float32 \<Rightarrow> float32" where "inverse_float32 a = F32 (fdiv single (Num 1) (f32 a))"
definition less_float32 :: "float32 \<Rightarrow> float32 \<Rightarrow> bool" where "less_float32 a b \<longleftrightarrow> flt (f32 a) (f32 b)"
definition less_eq_float32 :: "float32 \<Rightarrow> float32 \<Rightarrow> bool" where "less_eq_float32 a b \<longleftrightarrow> flt (f32 a) (f32 b) \<or> feq (f32 a) (f32 b)"

instance ..

end

instantiation float64 :: "{plus, minus, times, uminus, inverse, ord}"
begin

definition plus_float64 :: "float64 \<Rightarrow> float64 \<Rightarrow> float64" where "plus_float64 a b = F64 (fadd double (f64 a) (f64 b))"
definition minus_float64 :: "float64 \<Rightarrow> float64 \<Rightarrow> float64" where "minus_float64 a b = F64 (fadd double (f64 a) (fneg (f64 b)))"
definition times_float64 :: "float64 \<Rightarrow> float64 \<Rightarrow> float64" where "times_float64 a b = F64 (fmul double (f64 a) (f64 b))"
definition uminus_float64 :: "float64 \<Rightarrow> float64" where "uminus_float64 a = F64 (fneg (f64 a))"
definition divide_float64 :: "float64 \<Rightarrow> float64 \<Rightarrow> float64" where "divide_float64 a b = F64 (fdiv double (f64 a) (f64 b))"
definition inverse_float64 :: "float64 \<Rightarrow> float64" where "inverse_float64 a = F64 (fdiv double (Num 1) (f64 a))"
definition less_float64 :: "float64 \<Rightarrow> float64 \<Rightarrow> bool" where "less_float64 a b \<longleftrightarrow> flt (f64 a) (f64 b)"
definition less_eq_float64 :: "float64 \<Rightarrow> float64 \<Rightarrow> bool" where "less_eq_float64 a b \<longleftrightarrow> flt (f64 a) (f64 b) \<or> feq (f64 a) (f64 b)"

instance ..

end

lemmas float32_ops = plus_float32_def minus_float32_def times_float32_def uminus_float32_def divide_float32_def less_float32_def less_eq_float32_def
lemmas float64_ops = plus_float64_def minus_float64_def times_float64_def uminus_float64_def divide_float64_def less_float64_def less_eq_float64_def

text \<open>A constant, an integer, and the conversions between the types. The conversion to \<^verbatim>\<open>int\<close> cuts off the fraction; of a number that does not
  fit it is undefined, \<open>None\<close>.\<close>

definition lit :: "real \<Rightarrow> float64" where
  "lit x = F64 (fround double (x < 0) x)"

definition litf :: "real \<Rightarrow> float32" where
  "litf x = F32 (fround single (x < 0) x)"

definition i2f :: "int \<Rightarrow> float32" where
  "i2f k = litf (of_int k)"

definition i2d :: "int \<Rightarrow> float64" where
  "i2d k = lit (of_int k)"

definition f2d :: "float32 \<Rightarrow> float64" where
  "f2d a = F64 (f32 a)"

definition d2f :: "float64 \<Rightarrow> float32" where
  "d2f a = F32 (fcvt single (f64 a))"

text \<open>The comparison \<^verbatim>\<open>==\<close>.\<close>

definition float_eq :: "float32 \<Rightarrow> float32 \<Rightarrow> bool" where
  "float_eq a b \<longleftrightarrow> feq (f32 a) (f32 b)"

definition truncate :: "real \<Rightarrow> int" where
  "truncate x = (if x < 0 then \<lceil>x\<rceil> else \<lfloor>x\<rfloor>)"

definition to_int :: "int \<Rightarrow> int \<Rightarrow> ieee \<Rightarrow> int option" where
  "to_int lo hi a = (if is_fin a \<and> lo \<le> truncate (val a) \<and> truncate (val a) \<le> hi then Some (truncate (val a)) else None)"

definition f2i :: "float32 \<Rightarrow> int option" where
  "f2i a = to_int (- (2 ^ 31)) (2 ^ 31 - 1) (f32 a)"

definition f2u :: "float32 \<Rightarrow> int option" where
  "f2u a = to_int 0 (2 ^ 32 - 1) (f32 a)"

section \<open>Rounding\<close>

lemma pow2_pos [simp]: "0 < pow2 e" "pow2 e \<noteq> 0" "0 \<le> pow2 e" "\<not> pow2 e \<le> 0" "\<not> pow2 e < 0"
  by (simp_all add: pow2_def not_le not_less)

lemma pow2_add: "pow2 (a + b) = pow2 a * pow2 b"
  by (simp add: pow2_def power_int_add)

lemma pow2_less [simp]: "pow2 a < pow2 b \<longleftrightarrow> a < b"
proof
  show "a < b \<Longrightarrow> pow2 a < pow2 b" unfolding pow2_def by (rule power_int_strict_increasing) simp_all
  show "pow2 a < pow2 b \<Longrightarrow> a < b" unfolding pow2_def by (meson not_less one_le_numeral power_int_increasing)
qed

lemma pow2_le [simp]: "pow2 a \<le> pow2 b \<longleftrightarrow> a \<le> b"
  using pow2_less [of b a] by linarith

lemma pow2_of_nat: "pow2 (int n) = 2 ^ n"
  by (simp add: pow2_def)

lemma pow2_one [simp]: "pow2 0 = 1" "pow2 1 = 2" "pow2 (- 1) = 1 / 2"
  by (simp_all add: pow2_def)

lemma pow2_numeral: "pow2 (numeral n) = 2 ^ numeral n" "pow2 (- numeral n) = 1 / 2 ^ numeral n"
  by (simp_all only: pow2_def power_int_minus power_int_numeral inverse_eq_divide)

lemma round_half_even_error: "\<bar>of_int (round_half_even r) - r\<bar> \<le> 1 / 2"
  using of_int_floor_le [of r] floor_less_iff [of r "\<lfloor>r\<rfloor> + 1"] by (auto simp: round_half_even_def Let_def)

lemma round_half_even_int [simp]: "round_half_even (of_int k) = k"
  by (simp add: round_half_even_def)

lemma find_upto:
  assumes "find P [i..j] = Some e"
  shows "i \<le> e" "e \<le> j" "P e" "e \<noteq> i \<Longrightarrow> \<not> P (e - 1)"
proof -
  obtain n where n: "n < length [i..j]" "P ([i..j] ! n)" "e = [i..j] ! n" "\<forall>m<n. \<not> P ([i..j] ! m)"
    using assms unfolding find_Some_iff by auto
  then have e: "e = i + int n" by simp
  show "i \<le> e" "e \<le> j" "P e" using n e by auto
  show "\<not> P (e - 1)" if "e \<noteq> i"
  proof -
    have "n - 1 < n" "[i..j] ! (n - 1) = e - 1" using that e n(1) by auto
    then show ?thesis using n(4) by metis
  qed
qed

lemma ulp_exp_bounds:
  assumes "\<bar>x\<bar> < pow2 (emax f + int (fprec f))" and "emin f \<le> emax f"
  shows "emin f \<le> ulp_exp f x" "ulp_exp f x \<le> emax f" "\<bar>x\<bar> < pow2 (ulp_exp f x + int (fprec f))"
    "ulp_exp f x = emin f \<or> pow2 (ulp_exp f x - 1 + int (fprec f)) \<le> \<bar>x\<bar>"
proof -
  have "find (\<lambda>e. \<bar>x\<bar> < pow2 (e + int (fprec f))) [emin f..emax f] \<noteq> None"
    using assms by (auto simp: find_None_iff intro!: bexI [of _ "emax f"])
  then obtain e where e: "find (\<lambda>e. \<bar>x\<bar> < pow2 (e + int (fprec f))) [emin f..emax f] = Some e" by blast
  then have u: "ulp_exp f x = e" by (simp add: ulp_exp_def)
  note b = find_upto [OF e]
  show "emin f \<le> ulp_exp f x" "ulp_exp f x \<le> emax f" "\<bar>x\<bar> < pow2 (ulp_exp f x + int (fprec f))" using b(1-3) u by simp_all
  show "ulp_exp f x = emin f \<or> pow2 (ulp_exp f x - 1 + int (fprec f)) \<le> \<bar>x\<bar>" using b(4) u by force
qed

lemma rnd_error: "\<bar>rnd f x - x\<bar> \<le> pow2 (ulp_exp f x) / 2"
proof -
  let ?u = "pow2 (ulp_exp f x)"
  have "rnd f x - x = (of_int (round_half_even (x / ?u)) - x / ?u) * ?u" by (simp add: rnd_def algebra_simps)
  then have "\<bar>rnd f x - x\<bar> = \<bar>of_int (round_half_even (x / ?u)) - x / ?u\<bar> * ?u" by (simp add: abs_mult)
  also have "\<dots> \<le> 1 / 2 * ?u" by (rule mult_right_mono [OF round_half_even_error]) simp
  finally show ?thesis by simp
qed

text \<open>The relative error in the range of the normal numbers, and the error everywhere.\<close>

lemma rnd_relative:
  assumes "\<bar>x\<bar> < pow2 (emax f + int (fprec f))" and "emin f \<le> emax f" and "pow2 (emin f - 1 + int (fprec f)) \<le> \<bar>x\<bar>"
  shows "\<bar>rnd f x - x\<bar> \<le> pow2 (- int (fprec f)) * \<bar>x\<bar>"
proof -
  let ?e = "ulp_exp f x"
  have "pow2 (?e - 1 + int (fprec f)) \<le> \<bar>x\<bar>" using ulp_exp_bounds(4) [OF assms(1,2)] assms(3) by auto
  then have "pow2 (- int (fprec f)) * pow2 (?e - 1 + int (fprec f)) \<le> pow2 (- int (fprec f)) * \<bar>x\<bar>" by (intro mult_left_mono) simp_all
  moreover have "pow2 (- int (fprec f)) * pow2 (?e - 1 + int (fprec f)) = pow2 ?e / 2"
    using pow2_add [of "- int (fprec f)" "?e - 1 + int (fprec f)"] pow2_add [of ?e "- 1"] by simp
  ultimately show ?thesis using rnd_error [of f x] by simp
qed

lemma rnd_absolute:
  assumes "\<bar>x\<bar> < pow2 (emax f + int (fprec f))" and "emin f \<le> emax f"
  shows "\<bar>rnd f x - x\<bar> \<le> pow2 (- int (fprec f)) * \<bar>x\<bar> + pow2 (emin f) / 2"
proof (cases "pow2 (emin f - 1 + int (fprec f)) \<le> \<bar>x\<bar>")
  case True
  then show ?thesis using rnd_relative [OF assms] pow2_pos(1) [of "emin f"] by linarith
next
  case False
  then have "ulp_exp f x = emin f" using ulp_exp_bounds(1,4) [OF assms] False
    by (meson add_right_mono diff_right_mono order_trans pow2_le)
  then have "\<bar>rnd f x - x\<bar> \<le> pow2 (emin f) / 2" using rnd_error [of f x] by simp
  moreover have "0 \<le> pow2 (- int (fprec f)) * \<bar>x\<bar>" by simp
  ultimately show ?thesis by linarith
qed

text \<open>Multiples of a place of the format that are not too large are kept.\<close>

lemma rnd_exact:
  assumes x: "x = of_int k * pow2 e" and "emin f \<le> e" and "e \<le> emax f" and "\<bar>of_int k\<bar> < (2::real) ^ fprec f"
  shows "rnd f x = x"
proof -
  have "\<bar>x\<bar> = \<bar>of_int k\<bar> * pow2 e" by (simp add: x abs_mult)
  also have "\<dots> < 2 ^ fprec f * pow2 e" by (rule mult_strict_right_mono [OF assms(4)]) simp
  finally have b: "\<bar>x\<bar> < pow2 (e + int (fprec f))" by (simp add: pow2_add pow2_of_nat mult.commute)
  have "\<bar>x\<bar> < pow2 (emax f + int (fprec f))" by (rule less_le_trans [OF b]) (use assms(3) in simp)
  note u = ulp_exp_bounds [OF this order_trans [OF assms(2,3)]]
  let ?u = "ulp_exp f x"
  have "?u \<le> e"
  proof (rule ccontr)
    assume "\<not> ?u \<le> e"
    moreover from this have "pow2 (e + int (fprec f)) \<le> pow2 (?u - 1 + int (fprec f))" by simp
    ultimately show False using u(4) b assms(2) by linarith
  qed
  then have "pow2 e = of_int (2 ^ nat (e - ?u)) * pow2 ?u"
    using pow2_add [of "e - ?u" ?u] pow2_of_nat [of "nat (e - ?u)"] by simp
  then have q: "x = of_int (k * 2 ^ nat (e - ?u)) * pow2 ?u" using x by simp
  then have "x / pow2 ?u = of_int (k * 2 ^ nat (e - ?u))" by (metis nonzero_mult_div_cancel_right pow2_pos(2))
  then have "round_half_even (x / pow2 ?u) = k * 2 ^ nat (e - ?u)" by (simp only: round_half_even_int)
  then show ?thesis unfolding rnd_def using q by metis
qed

section \<open>The values of the operations\<close>

text \<open>Far enough from overflow, a result is the exact one, rounded.\<close>

definition fits :: "fformat \<Rightarrow> real \<Rightarrow> bool" where
  "fits f x \<longleftrightarrow> \<bar>x\<bar> \<le> pow2 (emax f + int (fprec f) - 1)"

definition format_ok :: "fformat \<Rightarrow> bool" where
  "format_ok f \<longleftrightarrow> emin f \<le> emax f \<and> 1 < fprec f"

lemma formats_ok [simp]: "format_ok single" "format_ok double"
  by (simp_all add: format_ok_def single_def double_def)

lemma fits_bound:
  assumes "fits f x"
  shows "\<bar>x\<bar> < pow2 (emax f + int (fprec f))"
  using assms unfolding fits_def by (rule le_less_trans) simp

lemma fround_val:
  assumes ok: "format_ok f" and x: "fits f x"
  shows "is_fin (fround f neg x)" "val (fround f neg x) = rnd f x"
proof -
  have e: "emin f \<le> emax f" "1 < fprec f" using ok by (simp_all add: format_ok_def)
  have "\<bar>rnd f x\<bar> \<le> \<bar>x\<bar> + pow2 (ulp_exp f x) / 2" using rnd_error [of f x] by linarith
  moreover have "pow2 (ulp_exp f x) / 2 < pow2 (emax f + int (fprec f) - 1)"
  proof -
    have "pow2 (ulp_exp f x) \<le> pow2 (emax f)" using ulp_exp_bounds(2) [OF fits_bound [OF x] e(1)] by simp
    moreover have "pow2 (emax f) \<le> pow2 (emax f + int (fprec f) - 1)" using e(2) by simp
    moreover have "pow2 (ulp_exp f x) / 2 < pow2 (ulp_exp f x)" by simp
    ultimately show ?thesis by linarith
  qed
  moreover have "pow2 (emax f + int (fprec f)) = 2 * pow2 (emax f + int (fprec f) - 1)"
    using pow2_add [of 1 "emax f + int (fprec f) - 1"] by simp
  ultimately have "\<bar>rnd f x\<bar> < pow2 (emax f + int (fprec f))" using x unfolding fits_def by linarith
  then show "is_fin (fround f neg x)" "val (fround f neg x) = rnd f x" by (auto simp: fround_def Let_def is_fin_def is_inf_def)
qed

lemma is_fin_fneg [simp]: "is_fin (fneg a) = is_fin a" "val (fneg a) = - val a"
  by (cases a; simp add: is_fin_def is_inf_def)+

lemma fadd_val:
  assumes "format_ok f" and "is_fin a" and "is_fin b" and "fits f (val a + val b)"
  shows "is_fin (fadd f a b)" "val (fadd f a b) = rnd f (val a + val b)"
  using assms fround_val [OF assms(1,4)] by (auto simp: fadd_def Let_def is_fin_def)

lemma fmul_val:
  assumes "format_ok f" and "is_fin a" and "is_fin b" and "fits f (val a * val b)"
  shows "is_fin (fmul f a b)" "val (fmul f a b) = rnd f (val a * val b)"
  using assms fround_val [OF assms(1,4)] by (auto simp: fmul_def is_fin_def)

lemma fdiv_val:
  assumes "format_ok f" and "is_fin a" and "is_fin b" and "val b \<noteq> 0" and "fits f (val a / val b)"
  shows "is_fin (fdiv f a b)" "val (fdiv f a b) = rnd f (val a / val b)"
  using assms fround_val [OF assms(1,5)] by (auto simp: fdiv_def is_fin_def)

lemma flt_val: "is_fin a \<Longrightarrow> is_fin b \<Longrightarrow> flt a b \<longleftrightarrow> val a < val b"
  by (auto simp: flt_def is_fin_def is_inf_def)

lemma feq_val: "is_fin a \<Longrightarrow> is_fin b \<Longrightarrow> feq a b \<longleftrightarrow> val a = val b"
  by (auto simp: feq_def is_fin_def is_inf_def)

lemma rnd_0 [simp]: "rnd f 0 = 0"
  unfolding rnd_def using round_half_even_int [of 0] by simp

lemma fcvt_val:
  assumes "format_ok f" and "is_fin a" and "fits f (val a)"
  shows "is_fin (fcvt f a)" "val (fcvt f a) = rnd f (val a)"
  using assms fround_val [OF assms(1)] by (cases a; force simp: fcvt_def is_fin_def is_inf_def)+

subsection \<open>float\<close>

definition ffin :: "float32 \<Rightarrow> bool" where
  "ffin a \<longleftrightarrow> is_fin (f32 a)"

definition fval :: "float32 \<Rightarrow> real" where
  "fval a = val (f32 a)"

definition dfin :: "float64 \<Rightarrow> bool" where
  "dfin a \<longleftrightarrow> is_fin (f64 a)"

definition dval :: "float64 \<Rightarrow> real" where
  "dval a = val (f64 a)"

lemmas cval_defs = ffin_def fval_def dfin_def dval_def

text \<open>The size below which nothing overflows, and the error of one operation.\<close>

lemma fits_single: "fits single x \<longleftrightarrow> \<bar>x\<bar> \<le> 2 ^ 127"
  by (simp add: fits_def single_def pow2_numeral)

lemma rnd_single_rel:
  assumes "1 / 2 ^ 126 \<le> \<bar>x\<bar>" and "\<bar>x\<bar> \<le> 2 ^ 127"
  shows "\<bar>rnd single x - x\<bar> \<le> \<bar>x\<bar> / 2 ^ 24"
proof -
  have f: "fits single x" using assms(2) by (simp add: fits_single)
  show ?thesis using rnd_relative [OF fits_bound [OF f]] assms(1) by (simp add: single_def pow2_numeral)
qed

lemma rnd_single_abs:
  assumes "\<bar>x\<bar> \<le> 2 ^ 127"
  shows "\<bar>rnd single x - x\<bar> \<le> \<bar>x\<bar> / 2 ^ 24 + 1 / 2 ^ 150"
proof -
  have f: "fits single x" using assms by (simp add: fits_single)
  show ?thesis using rnd_absolute [OF fits_bound [OF f]] by (simp add: single_def pow2_numeral)
qed

text \<open>For \<^verbatim>\<open>double\<close>, bounds that are far from the limits of the format but suffice for all computations with \<^verbatim>\<open>float\<close> variables.\<close>

lemma fits_double: "\<bar>x\<bar> \<le> 2 ^ 200 \<Longrightarrow> fits double x"
proof -
  have "(2 ^ 200 :: real) = pow2 200" by (simp only: pow2_numeral)
  also have "\<dots> \<le> pow2 (emax double + int (fprec double) - 1)" by (simp add: double_def)
  finally show "fits double x" if "\<bar>x\<bar> \<le> 2 ^ 200" using that unfolding fits_def by linarith
qed

lemma rnd_double_abs:
  assumes "\<bar>x\<bar> \<le> 2 ^ 200"
  shows "\<bar>rnd double x - x\<bar> \<le> \<bar>x\<bar> / 2 ^ 53 + 1 / 2 ^ 200"
proof -
  have "pow2 (emin double) \<le> pow2 (- 200)" by (simp add: double_def)
  also have "\<dots> = 1 / 2 ^ 200" by (simp only: pow2_numeral)
  finally have e: "pow2 (emin double) / 2 \<le> 1 / 2 ^ 200" using pow2_pos(1) [of "emin double"] by linarith
  have p: "pow2 (- int (fprec double)) * \<bar>x\<bar> = \<bar>x\<bar> / 2 ^ 53" by (simp add: double_def pow2_numeral)
  have "emin double \<le> emax double" by (simp add: double_def)
  from rnd_absolute [OF fits_bound [OF fits_double [OF assms]] this] show ?thesis unfolding p using e by linarith
qed

lemma float_arith:
  assumes "ffin a" and "ffin b"
  shows float_add: "\<bar>fval a + fval b\<bar> \<le> 2 ^ 127 \<Longrightarrow> ffin (a + b) \<and> fval (a + b) = rnd single (fval a + fval b)"
    and float_sub: "\<bar>fval a - fval b\<bar> \<le> 2 ^ 127 \<Longrightarrow> ffin (a - b) \<and> fval (a - b) = rnd single (fval a - fval b)"
    and float_mul: "\<bar>fval a * fval b\<bar> \<le> 2 ^ 127 \<Longrightarrow> ffin (a * b) \<and> fval (a * b) = rnd single (fval a * fval b)"
    and float_div: "\<bar>fval a / fval b\<bar> \<le> 2 ^ 127 \<Longrightarrow> fval b \<noteq> 0 \<Longrightarrow> ffin (a / b) \<and> fval (a / b) = rnd single (fval a / fval b)"
    and float_less: "a < b \<longleftrightarrow> fval a < fval b"
    and float_le: "a \<le> b \<longleftrightarrow> fval a \<le> fval b"
  using assms fadd_val [of single "f32 a" "f32 b"] fadd_val [of single "f32 a" "fneg (f32 b)"] fmul_val [of single "f32 a" "f32 b"]
    fdiv_val [of single "f32 a" "f32 b"] flt_val [of "f32 a" "f32 b"] feq_val [of "f32 a" "f32 b"]
  by (auto simp: cval_defs float32_ops fits_single)

lemma double_arith:
  assumes "dfin a" and "dfin b"
  shows double_add: "\<bar>dval a + dval b\<bar> \<le> 2 ^ 200 \<Longrightarrow> dfin (a + b) \<and> dval (a + b) = rnd double (dval a + dval b)"
    and double_sub: "\<bar>dval a - dval b\<bar> \<le> 2 ^ 200 \<Longrightarrow> dfin (a - b) \<and> dval (a - b) = rnd double (dval a - dval b)"
    and double_mul: "\<bar>dval a * dval b\<bar> \<le> 2 ^ 200 \<Longrightarrow> dfin (a * b) \<and> dval (a * b) = rnd double (dval a * dval b)"
    and double_div: "\<bar>dval a / dval b\<bar> \<le> 2 ^ 200 \<Longrightarrow> dval b \<noteq> 0 \<Longrightarrow> dfin (a / b) \<and> dval (a / b) = rnd double (dval a / dval b)"
    and double_less: "a < b \<longleftrightarrow> dval a < dval b"
    and double_le: "a \<le> b \<longleftrightarrow> dval a \<le> dval b"
  using assms fadd_val [of double "f64 a" "f64 b"] fadd_val [of double "f64 a" "fneg (f64 b)"] fmul_val [of double "f64 a" "f64 b"]
    fdiv_val [of double "f64 a" "f64 b"] flt_val [of "f64 a" "f64 b"] feq_val [of "f64 a" "f64 b"]
  by (auto simp: cval_defs float64_ops fits_double)

lemma float_uminus [simp]: "ffin (- a) = ffin a" "fval (- a) = - fval a"
  by (simp_all add: cval_defs float32_ops)

lemma f2d_val [simp]: "dfin (f2d a) = ffin a" "dval (f2d a) = fval a"
  by (simp_all add: cval_defs f2d_def)

lemma d2f_val:
  assumes "dfin a" and "\<bar>dval a\<bar> \<le> 2 ^ 127"
  shows "ffin (d2f a)" "fval (d2f a) = rnd single (dval a)"
  using fcvt_val [of single "f64 a"] assms by (simp_all add: cval_defs d2f_def fits_single)

lemma litf_val: "\<bar>x\<bar> \<le> 2 ^ 127 \<Longrightarrow> ffin (litf x)" "\<bar>x\<bar> \<le> 2 ^ 127 \<Longrightarrow> fval (litf x) = rnd single x"
  using fround_val [of single x] by (simp_all add: cval_defs litf_def fits_single)

lemma lit_val:
  assumes "\<bar>x\<bar> \<le> 2 ^ 200"
  shows "dfin (lit x)" "dval (lit x) = rnd double x"
  using fround_val [OF formats_ok(2) fits_double [OF assms]] by (simp_all add: cval_defs lit_def)

text \<open>Integers of 24 bits are numbers of both formats, and powers of two as well.\<close>

lemma rnd_single_int: "\<bar>of_int k\<bar> < (2::real) ^ 24 \<Longrightarrow> rnd single (of_int k) = of_int k"
  by (rule rnd_exact [of _ k 0]) (simp_all add: single_def)

lemma rnd_double_int: "\<bar>of_int k\<bar> < (2::real) ^ 53 \<Longrightarrow> rnd double (of_int k) = of_int k"
  by (rule rnd_exact [of _ k 0]) (simp_all add: double_def)

lemma i2f_val:
  assumes "\<bar>of_int k\<bar> < (2::real) ^ 24"
  shows "ffin (i2f k)" "fval (i2f k) = of_int k"
  using litf_val [of "of_int k"] rnd_single_int [OF assms] assms by (simp_all add: i2f_def)

end
