(* ===== verification/XenoMath.thy ===== *)
theory XenoMath
  imports Ieee
begin

text \<open>
  The mathematical functions of the simulation (\<^verbatim>\<open>applications/XenoJetBench.c\<close>): root, logarithm, exponential and powers, and the functions of gas
  dynamics built on them. Every C operation is one operation of theory \<open>Ieee\<close>, every conversion is written out. A call that does not
  return, or whose behaviour is undefined (a conversion to \<^verbatim>\<open>int\<close> or an increment that overflows), is \<open>None\<close>.
\<close>

section \<open>Math utilities\<close>

partial_function (option) sqroot_loop :: "float32 \<Rightarrow> float32 \<Rightarrow> float32 \<Rightarrow> float32 option" where
  "sqroot_loop number x prec =
     (if lit 0.0001 < f2d prec \<or> f2d prec < - lit 0.0001
      then let x0 = x;
               x = d2f (lit 0.5 * f2d (x0 + number / x0));
               prec = (x - x0) / x0
           in sqroot_loop number x prec
      else Some x)"

definition sqroot :: "float32 \<Rightarrow> float32 option" where
  "sqroot number = (if number < i2f 0 then Some (i2f 0) else sqroot_loop number ((i2f 1 + number) / i2f 2) (i2f 1))"

definition xfabs :: "float32 \<Rightarrow> float32" where
  "xfabs x = (if x < i2f 0 then - x else x)"

definition PRECISION :: float64 where
  "PRECISION = lit 0.0001"

text \<open>\<^verbatim>\<open>i++\<close> on an \<^verbatim>\<open>int\<close>.\<close>

definition int_inc :: "int \<Rightarrow> int option" where
  "int_inc i = (if i < 2 ^ 31 - 1 then Some (i + 1) else None)"

partial_function (option) xlog_loop :: "float32 \<Rightarrow> float32 \<Rightarrow> float32 \<Rightarrow> int \<Rightarrow> float32 option" where
  "xlog_loop x number coeff i =
     (if PRECISION < f2d (xfabs coeff)
      then let coeff = coeff * (i2f 1 - x); number = number + coeff / i2f i
           in do { i \<leftarrow> int_inc i; xlog_loop x number coeff i }
      else Some number)"

partial_function (option) xlog :: "float32 \<Rightarrow> float32 option" where
  "xlog x =
     (if x \<le> i2f 0 then Some (i2f 0)
      else if float_eq x (i2f 1) then Some (i2f 0)
      else if i2f 1 < x then do { r \<leftarrow> xlog (i2f 1 / x); Some (- r) }
      else xlog_loop x (i2f 0) (- i2f 1) 1)"

partial_function (option) expo_loop :: "float32 \<Rightarrow> float32 \<Rightarrow> float32 \<Rightarrow> int \<Rightarrow> float32 option" where
  "expo_loop x number coeff i =
     (if PRECISION < f2d (xfabs coeff)
      then let coeff = coeff * (x / i2f i); number = number + coeff
           in do { i \<leftarrow> int_inc i; expo_loop x number coeff i }
      else Some number)"

partial_function (option) expo :: "float32 \<Rightarrow> float32 option" where
  "expo x = (if lit 709.782712893384 < f2d x then expo (d2f (lit 709.78)) else expo_loop x (i2f 1) (i2f 1) 1)"

fun power_loop :: "nat \<Rightarrow> float32 \<Rightarrow> float32 \<Rightarrow> float32" where
  "power_loop 0 x number = number"
| "power_loop (Suc n) x number = power_loop n x (number * x)"

definition power_f :: "float32 \<Rightarrow> int \<Rightarrow> float32 option" where
  "power_f x y =
     (if y < 0 then if y = - (2 ^ 31) then None else Some (i2f 1 / power_loop (nat (- y)) x (i2f 1))
      else Some (power_loop (nat y) x (i2f 1)))"

definition fpow :: "float32 \<Rightarrow> float32 \<Rightarrow> float32 option" where
  "fpow x y = do {
     partieEntiere \<leftarrow> f2i y;
     if x < i2f 0 then power_f x partieEntiere
     else do {
       p \<leftarrow> power_f x partieEntiere;
       l \<leftarrow> xlog x;
       e \<leftarrow> expo ((y - i2f partieEntiere) * l);
       Some (p * e) } }"

section \<open>Gas dynamics\<close>

definition getGama :: "float32 \<Rightarrow> float32" where
  "getGama temp = (let
     a = d2f (- lit (7.6942651 / 10 ^ 13));
     b = d2f (lit (1.3764661 / 10 ^ 8));
     c = d2f (- lit (7.8185709 / 10 ^ 5));
     d = d2f (lit 1.436914)
     in a * temp * temp * temp + b * temp * temp + c * temp + d)"

definition getCp :: "float32 \<Rightarrow> float32" where
  "getCp temp = (let
     a = d2f (- lit (4.4702130 / 10 ^ 13));
     b = d2f (- lit (5.1286514 / 10 ^ 10));
     c = d2f (lit (2.8323331 / 10 ^ 5));
     d = d2f (lit 0.2245283)
     in a * temp * temp * temp + b * temp * temp + c * temp + d)"

definition getAir :: "float32 \<Rightarrow> float32 \<Rightarrow> float32 option" where
  "getAir mach gama2 = do {
     let fac2 = d2f ((f2d gama2 + lit 1) / (lit 2 * (f2d gama2 - lit 1)));
     fac1 \<leftarrow> fpow (d2f (lit 1 + lit 0.5 * (f2d gama2 - lit 1) * f2d mach * f2d mach)) fac2;
     r \<leftarrow> sqroot gama2;
     Some (d2f (lit 0.50161 * f2d r * f2d mach / f2d fac1)) }"

text \<open>The function \<^verbatim>\<open>abs\<close> of \<^verbatim>\<open>stdlib.h\<close>, applied to a \<^verbatim>\<open>float\<close>: the argument is converted to \<^verbatim>\<open>int\<close>.\<close>

definition int_abs :: "float32 \<Rightarrow> int option" where
  "int_abs a = do { k \<leftarrow> f2i a; if k = - (2 ^ 31) then None else Some \<bar>k\<bar> }"

partial_function (option) mach_loop :: "float32 \<Rightarrow> float32 \<Rightarrow> float32 \<Rightarrow> float32 \<Rightarrow> float32 \<Rightarrow> int \<Rightarrow> float32 option" where
  "mach_loop corair gama1 airo macho machn iter = do {
     d \<leftarrow> int_abs (corair - airo);
     if lit 0.0001 < i2d d \<and> iter < 20
     then do {
       airn \<leftarrow> getAir machn gama1;
       let deriv = (airn - airo) / (machn - macho);
       let airo = airn;
       let macho = machn;
       mach_loop corair gama1 airo macho (macho + (corair - airo) / deriv) (iter + 1) }
     else Some macho }"

definition getMach :: "int \<Rightarrow> float32 \<Rightarrow> float32 \<Rightarrow> float32 option" where
  "getMach sub corair gama1 = do {
     chokair \<leftarrow> getAir (d2f (lit 1)) gama1;
     if chokair < corair then Some (d2f (lit 1))
     else let airo = d2f (lit 0.25618)
       in if sub = 1 then Some (d2f (lit 1))
          else let macho = (if sub = 2 then d2f (lit 1.703) else d2f (lit 0.5));
                   machn = d2f (f2d macho - lit 0.2)
               in mach_loop corair gama1 airo macho machn 1 }"

partial_function (option) rayleigh_loop :: "float32 \<Rightarrow> float32 \<Rightarrow> float32 \<Rightarrow> float32 \<Rightarrow> float32 \<Rightarrow> float32 \<Rightarrow> float32 \<Rightarrow> float32 \<Rightarrow>
    float32 \<Rightarrow> float32 \<Rightarrow> float32 option" where
  "rayleigh_loop mach1 ttrat wc1 g1 gm1 g2 gm2 mgueso mach2 number = do {
     d \<leftarrow> int_abs (mach2 - mgueso);
     if lit 0.0001 < i2d d
     then do {
       let mgueso = mach2;
       let fac1 = d2f (lit 1 + f2d (g1 * mach1 * mach1));
       let fac2 = d2f (lit 1 + f2d (g2 * mach2 * mach2));
       fac3 \<leftarrow> fpow (d2f (lit 1 + lit 0.5 * f2d gm1 * f2d mach1 * f2d mach1)) (g1 / gm1);
       fac4 \<leftarrow> fpow (d2f (lit 1 + lit 0.5 * f2d gm2 * f2d mach2 * f2d mach2)) (g2 / gm2);
       let number = fac1 * fac4 / fac2 / fac3;
       r \<leftarrow> sqroot ttrat;
       let wc2 = wc1 * r / number;
       mach2 \<leftarrow> getMach 0 wc2 g2;
       rayleigh_loop mach1 ttrat wc1 g1 gm1 g2 gm2 mgueso mach2 number }
     else Some number }"

definition getRayleighLoss :: "float32 \<Rightarrow> float32 \<Rightarrow> float32 \<Rightarrow> float32 option" where
  "getRayleighLoss mach1 ttrat tlow = do {
     let g1 = getGama tlow;
     let gm1 = d2f (f2d g1 - lit 1);
     wc1 \<leftarrow> getAir mach1 g1;
     let g2 = getGama (tlow * ttrat);
     let gm2 = d2f (f2d g2 - lit 1);
     rayleigh_loop mach1 ttrat wc1 g1 gm1 g2 gm2 (d2f (lit 0.4)) (d2f (lit 0.5)) (d2f (lit 0.95)) }"

section \<open>The square root\<close>

text \<open>One step of Newton's iteration on the reals, with a relative error of \<open>2 ^ -22\<close>.\<close>

lemma newton_real:
  fixes s x y :: real
  assumes s: "0 < s" and x: "(1 - 1 / 2 ^ 22) * s \<le> x" and y: "\<bar>y - (x + s\<^sup>2 / x) / 2\<bar> \<le> (x + s\<^sup>2 / x) / 2 / 2 ^ 22"
  shows newton_lower: "(1 - 1 / 2 ^ 22) * s \<le> y" and newton_upper: "y \<le> (1 + 1 / 2 ^ 20) * x"
    and newton_close: "\<bar>y - x\<bar> \<le> 0.000101 * x \<Longrightarrow> \<bar>y - s\<bar> \<le> s / 2 ^ 20"
proof -
  define q where "q = s\<^sup>2 / x"
  define m where "m = (x + q) / 2"
  have x0: "0 < x" using less_le_trans [OF _ x] s by simp
  have ms: "m - s = (x - s)\<^sup>2 / (2 * x)" using x0 by (simp add: m_def q_def field_simps power2_eq_square)
  have "0 \<le> (x - s)\<^sup>2 / (2 * x)" using x0 by simp
  then have sm: "s \<le> m" using ms by linarith
  have "\<bar>y - m\<bar> \<le> m / 2 ^ 22" using y by (simp only: m_def q_def)
  then have ym: "y - m \<le> m / 2 ^ 22" "m - y \<le> m / 2 ^ 22" by linarith+
  then show "(1 - 1 / 2 ^ 22) * s \<le> y" using sm by simp
  have sx: "s \<le> (1 + 1 / 2 ^ 21) * x" using x x0 by simp
  then have "s * s \<le> (1 + 1 / 2 ^ 21) * x * ((1 + 1 / 2 ^ 21) * x)" using s x0 by (intro mult_mono) auto
  also have "\<dots> = (1 + 1 / 2 ^ 21) * (1 + 1 / 2 ^ 21) * x * x" by (simp only: mult.assoc mult.left_commute)
  finally have "q \<le> (1 + 1 / 2 ^ 21) * (1 + 1 / 2 ^ 21) * x" using x0 by (simp add: q_def power2_eq_square divide_le_eq)
  then have mx: "m \<le> (1 + 5 / 2 ^ 23) * x" using x0 by (simp add: m_def)
  then show "y \<le> (1 + 1 / 2 ^ 20) * x" using ym x0 by simp
  show "\<bar>y - s\<bar> \<le> s / 2 ^ 20" if "\<bar>y - x\<bar> \<le> 0.000101 * x"
  proof -
    have "x - y \<le> 0.000101 * x" using that by linarith
    then have "x - m \<le> 0.000102 * x" using ym mx x0 by simp
    then have "(1 - 0.000204) * x \<le> q" by (simp add: m_def)
    then have "(1 - 0.000204) * x * x \<le> s\<^sup>2" using x0 by (simp add: q_def le_divide_eq)
    moreover have "((1 - 0.00021) * x)\<^sup>2 \<le> (1 - 0.000204) * x * x" using x0 by (simp add: power2_eq_square)
    ultimately have "((1 - 0.00021) * x)\<^sup>2 \<le> s\<^sup>2" by linarith
    then have xs: "(1 - 0.00021) * x \<le> s" by (rule power2_le_imp_le) (use s in simp)
    have "x - s \<le> 0.0003 * s" "s - x \<le> 0.0003 * s" using xs sx s by simp_all
    then have "(x - s)\<^sup>2 \<le> (0.0003 * s)\<^sup>2" by (intro iffD1 [OF abs_le_square_iff]) linarith
    then have "(x - s)\<^sup>2 / (2 * x) \<le> (0.0003 * s)\<^sup>2 / (2 * x)" using x0 by (intro divide_right_mono) auto
    also have "\<dots> = 0.000000045 * s * (s / x)" by (simp add: power2_eq_square)
    also have "\<dots> \<le> 0.000000045 * s * 1.001" using sx s x0 by (intro mult_left_mono) (simp_all add: divide_le_eq)
    finally have "m - s \<le> s / 2 ^ 24" using ms s by simp
    then have "y - s \<le> s / 2 ^ 20" "s - y \<le> s / 2 ^ 20" using sm ym s by simp_all
    then show ?thesis by linarith
  qed
qed

lemma rel_half: "2 * y \<le> (1 + c) * m \<Longrightarrow> (1 - c) * m \<le> 2 * y \<Longrightarrow> \<bar>y - m / 2\<bar> \<le> m / 2 * c" for y c m :: real
  unfolding left_diff_distrib distrib_right mult.commute [of c m] by (simp add: abs_if)

lemma lit_half: "dfin (lit (1 / 2))" "dval (lit (1 / 2)) = 1 / 2"
proof -
  have "rnd double (1 / 2) = 1 / 2" by (rule rnd_exact [of _ 1 "- 1"]) (simp_all add: double_def)
  then show "dfin (lit (1 / 2))" "dval (lit (1 / 2)) = 1 / 2" using lit_val [of "1 / 2"] by simp_all
qed

lemma newton_float:
  assumes fin: "ffin number" "ffin x" and N: "1 / 2 ^ 60 \<le> fval number" "fval number \<le> 2 ^ 60"
    and X: "1 / 2 ^ 31 \<le> fval x" "fval x \<le> 2 ^ 61"
  shows "ffin (d2f (lit 0.5 * f2d (x + number / x)))" (is "ffin ?y")
    and "\<bar>fval (d2f (lit 0.5 * f2d (x + number / x))) - (fval x + fval number / fval x) / 2\<bar> \<le> (fval x + fval number / fval x) / 2 / 2 ^ 22"
proof -
  let ?X = "fval x" and ?N = "fval number"
  define q where "q = ?N / ?X"
  have X0: "0 < ?X" by (rule less_le_trans [OF _ X(1)]) simp
  have "1 / 2 ^ 60 / 2 ^ 61 \<le> ?N / ?X" by (rule frac_le) (use N X X0 in simp_all)
  then have q1: "1 / 2 ^ 121 \<le> q" by (simp add: q_def)
  have "?N / ?X \<le> 2 ^ 60 / (1 / 2 ^ 31)" by (rule frac_le) (use N X X0 in simp_all)
  then have q2: "q \<le> 2 ^ 91" by (simp add: q_def)
  define d where "d = rnd single q"
  have d: "ffin (number / x)" "fval (number / x) = d" using float_div [OF fin] q1 q2 X0 by (simp_all add: q_def d_def)
  have "\<bar>d - q\<bar> \<le> q / 2 ^ 24" using rnd_single_rel [of q] q1 q2 by (simp add: d_def)
  then have dq: "d - q \<le> q / 2 ^ 24" "q - d \<le> q / 2 ^ 24" by linarith+
  define s where "s = rnd single (?X + d)"
  have s: "ffin (x + number / x)" "fval (x + number / x) = s" using float_add [OF fin(2) d(1)] d(2) dq q1 q2 X by (simp_all add: s_def)
  have "\<bar>s - (?X + d)\<bar> \<le> (?X + d) / 2 ^ 24" using rnd_single_rel [of "?X + d"] dq q1 q2 X by (simp add: s_def)
  then have sx: "s - (?X + d) \<le> (?X + d) / 2 ^ 24" "(?X + d) - s \<le> (?X + d) / 2 ^ 24" by linarith+
  have sb: "1 / 2 ^ 33 \<le> s" "s \<le> 2 ^ 93" using sx dq q1 q2 X by simp_all
  define h where "h = rnd double (s / 2)"
  have h: "dfin (lit 0.5 * f2d (x + number / x))" "dval (lit 0.5 * f2d (x + number / x)) = h"
    using double_mul [OF lit_half(1), of "f2d (x + number / x)"] s sb by (simp_all add: lit_half h_def)
  have "\<bar>h - s / 2\<bar> \<le> s / 2 / 2 ^ 53 + 1 / 2 ^ 200" using rnd_double_abs [of "s / 2"] sb by (simp add: h_def)
  then have hs: "h - s / 2 \<le> s / 2 ^ 50" "s / 2 - h \<le> s / 2 ^ 50" using sb by simp_all
  have hb: "1 / 2 ^ 35 \<le> h" "h \<le> 2 ^ 94" using hs sb by simp_all
  have y: "ffin ?y" "fval ?y = rnd single h" using d2f_val [OF h(1)] h(2) hb by simp_all
  show "ffin ?y" by (rule y(1))
  have "\<bar>fval ?y - h\<bar> \<le> h / 2 ^ 24" unfolding y(2) using rnd_single_rel [of h] hb by simp
  then have yh: "fval ?y - h \<le> h / 2 ^ 24" "h - fval ?y \<le> h / 2 ^ 24" by linarith+
  have "2 * fval ?y \<le> (1 + 1 / 2 ^ 22) * (?X + q)" "(1 - 1 / 2 ^ 22) * (?X + q) \<le> 2 * fval ?y" using yh hs sx dq X0 q1 by simp_all
  from rel_half [OF this] show "\<bar>fval ?y - (?X + ?N / ?X) / 2\<bar> \<le> (?X + ?N / ?X) / 2 / 2 ^ 22" unfolding q_def by simp
qed

lemma two_roundings:
  fixes a b c d e :: real
  assumes "c \<le> a + b" and "e \<le> d + b" and "d \<le> c / 2 ^ 24 + 1 / 2 ^ 150" and "b \<le> a / 2 ^ 24 + 1 / 2 ^ 119" and "0 \<le> a"
  shows "e \<le> a / 2 ^ 22 + 1 / 2 ^ 100"
  using assms by simp

lemma rel_change_float:
  assumes fin: "ffin x" "ffin y" and X: "1 / 2 ^ 31 \<le> fval x" "fval x \<le> 2 ^ 61" and Y: "0 \<le> fval y" "fval y \<le> 2 ^ 62"
  shows "ffin ((y - x) / x)" "\<bar>fval ((y - x) / x) - (fval y - fval x) / fval x\<bar> \<le> \<bar>(fval y - fval x) / fval x\<bar> / 2 ^ 22 + 1 / 2 ^ 100"
proof -
  let ?X = "fval x" and ?Y = "fval y"
  have X0: "0 < ?X" by (rule less_le_trans [OF _ X(1)]) simp
  define z where "z = rnd single (?Y - ?X)"
  have b: "\<bar>?Y - ?X\<bar> \<le> 2 ^ 63" using X Y X0 by (simp add: abs_le_iff)
  have zf: "ffin (y - x)" "fval (y - x) = z" using float_sub [OF fin(2,1)] b by (simp_all add: z_def)
  have "\<bar>z - (?Y - ?X)\<bar> \<le> \<bar>?Y - ?X\<bar> / 2 ^ 24 + 1 / 2 ^ 150" unfolding z_def by (rule rnd_single_abs) (use b in simp)
  then have "\<bar>z - (?Y - ?X)\<bar> / ?X \<le> (\<bar>?Y - ?X\<bar> / 2 ^ 24 + 1 / 2 ^ 150) / ?X" using X0 by (intro divide_right_mono) simp_all
  also have "\<dots> = \<bar>?Y - ?X\<bar> / ?X / 2 ^ 24 + 1 / 2 ^ 150 * (1 / ?X)" by (simp add: add_divide_distrib)
  also have "\<dots> \<le> \<bar>?Y - ?X\<bar> / ?X / 2 ^ 24 + 1 / 2 ^ 150 * 2 ^ 31"
    by (intro add_left_mono mult_left_mono) (use X X0 in \<open>simp_all add: divide_le_eq\<close>)
  finally have e: "\<bar>z / ?X - (?Y - ?X) / ?X\<bar> \<le> \<bar>(?Y - ?X) / ?X\<bar> / 2 ^ 24 + 1 / 2 ^ 119"
    using X0 by (simp add: diff_divide_distrib [symmetric])
  define w where "w = (?Y - ?X) / ?X"
  define v where "v = z / ?X"
  have "\<bar>?Y - ?X\<bar> / ?X \<le> 2 ^ 63 / (1 / 2 ^ 31)" by (rule frac_le) (use b X X0 in simp_all)
  then have wb: "\<bar>w\<bar> \<le> 2 ^ 94" using X0 by (simp add: w_def)
  have vw: "\<bar>v - w\<bar> \<le> \<bar>w\<bar> / 2 ^ 24 + 1 / 2 ^ 119" using e by (simp only: v_def w_def)
  then have vb: "\<bar>v\<bar> \<le> 2 ^ 95" using wb by simp
  have p: "ffin ((y - x) / x)" "fval ((y - x) / x) = rnd single v" using float_div [OF zf(1) fin(1)] zf(2) vb X0 by (simp_all add: v_def)
  show "ffin ((y - x) / x)" by (rule p(1))
  have pv: "\<bar>rnd single v - v\<bar> \<le> \<bar>v\<bar> / 2 ^ 24 + 1 / 2 ^ 150" by (rule rnd_single_abs) (use vb in simp)
  have "\<bar>rnd single v - w\<bar> \<le> \<bar>w\<bar> / 2 ^ 22 + 1 / 2 ^ 100"
    by (rule two_roundings [OF _ _ pv vw]) linarith+
  then show "\<bar>fval ((y - x) / x) - (?Y - ?X) / ?X\<bar> \<le> \<bar>(?Y - ?X) / ?X\<bar> / 2 ^ 22 + 1 / 2 ^ 100" unfolding p(2) w_def .
qed

lemma lit_threshold: "dfin (lit 0.0001)" "0.00009999 < dval (lit 0.0001)" "dval (lit 0.0001) < 0.00010001"
proof -
  have v: "dfin (lit 0.0001)" "dval (lit 0.0001) = rnd double 0.0001" by (rule lit_val; simp)+
  then show "dfin (lit 0.0001)" by simp
  have "\<bar>rnd double 0.0001 - 0.0001\<bar> \<le> \<bar>0.0001\<bar> / 2 ^ 53 + 1 / 2 ^ 200" by (rule rnd_double_abs) simp
  from abs_le_D1 [OF this] abs_le_D2 [OF this]
  show "0.00009999 < dval (lit 0.0001)" "dval (lit 0.0001) < 0.00010001" unfolding v(2) by simp_all
qed

lemma double_uminus [simp]: "dfin (- a) = dfin a" "dval (- a) = - dval a"
  by (simp_all add: cval_defs float64_ops)

text \<open>The test of the loop.\<close>

lemma sqroot_test:
  assumes "ffin p"
  shows "lit 0.0001 < f2d p \<or> f2d p < - lit 0.0001 \<longleftrightarrow> dval (lit 0.0001) < \<bar>fval p\<bar>"
proof -
  have d: "dfin (f2d p)" "dfin (lit 0.0001)" "dfin (- lit 0.0001)" using assms lit_threshold(1) by (simp_all only: f2d_val double_uminus)
  show ?thesis unfolding double_less [OF d(2,1)] double_less [OF d(1,3)] f2d_val double_uminus by linarith
qed

text \<open>The value and the relative change after one pass of the loop.\<close>

definition newton :: "float32 \<Rightarrow> float32 \<Rightarrow> float32" where
  "newton number x = d2f (lit 0.5 * f2d (x + number / x))"

definition rel_change :: "float32 \<Rightarrow> float32 \<Rightarrow> float32" where
  "rel_change number x = (newton number x - x) / x"

definition root_range :: "float32 \<Rightarrow> bool" where
  "root_range number \<longleftrightarrow> ffin number \<and> 1 / 2 ^ 60 \<le> fval number \<and> fval number \<le> 2 ^ 60"

definition root_close :: "float32 \<Rightarrow> float32 \<Rightarrow> bool" where
  "root_close number r \<longleftrightarrow> ffin r \<and> \<bar>fval r - sqrt (fval number)\<bar> \<le> sqrt (fval number) / 2 ^ 20"

definition above_root :: "float32 \<Rightarrow> float32 \<Rightarrow> bool" where
  "above_root number x \<longleftrightarrow> ffin x \<and> (1 - 1 / 2 ^ 22) * sqrt (fval number) \<le> fval x \<and> fval x \<le> 2 ^ 61"

lemma root_bounds:
  assumes "root_range number"
  shows "1 / 2 ^ 30 \<le> sqrt (fval number)" "sqrt (fval number) \<le> 2 ^ 30" "(sqrt (fval number))\<^sup>2 = fval number"
proof -
  have n: "1 / 2 ^ 60 \<le> fval number" "fval number \<le> 2 ^ 60" using assms by (simp_all add: root_range_def)
  show "1 / 2 ^ 30 \<le> sqrt (fval number)" by (rule real_le_rsqrt) (use n(1) in \<open>simp add: power_divide\<close>)
  show "sqrt (fval number) \<le> 2 ^ 30" by (rule real_le_lsqrt) (use n in simp_all)
  have "0 \<le> fval number" by (rule order_trans [OF _ n(1)]) simp
  then show "(sqrt (fval number))\<^sup>2 = fval number" by simp
qed

lemma newton_change:
  fixes s x y p c :: real
  assumes s: "0 < s" and x: "(1 - 1 / 2 ^ 22) * s \<le> x" and y: "\<bar>y - (x + s\<^sup>2 / x) / 2\<bar> \<le> (x + s\<^sup>2 / x) / 2 / 2 ^ 22"
    and p: "\<bar>p - (y - x) / x\<bar> \<le> \<bar>(y - x) / x\<bar> / 2 ^ 22 + 1 / 2 ^ 100" and c: "0.00009999 < c" "c < 0.00010001"
  shows "c < \<bar>p\<bar> \<Longrightarrow> y \<le> x - 0.00009 * s" and "\<not> c < \<bar>p\<bar> \<Longrightarrow> \<bar>y - s\<bar> \<le> s / 2 ^ 20"
proof -
  define w where "w = (y - x) / x"
  note nw = newton_real [OF s x y] and pw = p [folded w_def]
  have x0: "0 < x" using less_le_trans [OF _ x] s by simp
  have wx: "w * x = y - x" using x0 by (simp add: w_def)
  have wu: "w \<le> 1 / 2 ^ 20" using nw(2) x0 by (simp add: w_def divide_le_eq)
  show "y \<le> x - 0.00009 * s" if "c < \<bar>p\<bar>"
  proof -
    have "w < - 0.000099" using that c(1) pw wu by (auto simp: abs_if split: if_splits)
    then have "w * x \<le> - 0.000099 * x" using x0 by (intro mult_right_mono) simp_all
    then show ?thesis using wx x x0 s by simp
  qed
  show "\<bar>y - s\<bar> \<le> s / 2 ^ 20" if "\<not> c < \<bar>p\<bar>"
  proof -
    have "\<bar>w\<bar> \<le> 0.000101" using that c(2) pw by (auto simp: abs_if split: if_splits)
    then have "\<bar>w\<bar> * x \<le> 0.000101 * x" using x0 by (intro mult_right_mono) simp_all
    moreover have "\<bar>y - x\<bar> = \<bar>w\<bar> * x" using x0 by (simp add: wx [symmetric] abs_mult)
    ultimately show ?thesis by (intro nw(3)) simp
  qed
qed

text \<open>After a pass the value is above the root again; when the loop goes on, it has come down by a fixed part of the root, and when it ends, it is close.\<close>

lemma newton_pass:
  assumes r: "root_range number" and x: "above_root number x"
  shows "ffin (rel_change number x)"
    and "dval (lit 0.0001) < \<bar>fval (rel_change number x)\<bar> \<Longrightarrow>
       above_root number (newton number x) \<and> fval (newton number x) \<le> fval x - 0.00009 * sqrt (fval number)"
    and "\<not> dval (lit 0.0001) < \<bar>fval (rel_change number x)\<bar> \<Longrightarrow> root_close number (newton number x)"
proof -
  define s where "s = sqrt (fval number)"
  define y where "y = fval (newton number x)"
  have s: "1 / 2 ^ 30 \<le> s" "s \<le> 2 ^ 30" "s\<^sup>2 = fval number" using root_bounds [OF r] by (simp_all only: s_def)
  have fx: "ffin x" "(1 - 1 / 2 ^ 22) * s \<le> fval x" "fval x \<le> 2 ^ 61" using x by (simp_all add: above_root_def s_def)
  have x1: "1 / 2 ^ 31 \<le> fval x" using fx(2) s(1) by simp
  have s0: "0 < s" by (rule less_le_trans [OF _ s(1)]) simp
  have n: "ffin number" "1 / 2 ^ 60 \<le> fval number" "fval number \<le> 2 ^ 60" using r by (simp_all add: root_range_def)
  have yf: "ffin (newton number x)" "\<bar>y - (fval x + s\<^sup>2 / fval x) / 2\<bar> \<le> (fval x + s\<^sup>2 / fval x) / 2 / 2 ^ 22"
    unfolding newton_def y_def s(3) by (rule newton_float [OF n(1) fx(1) n(2,3) x1 fx(3)])+
  note nw = newton_real [OF s0 fx(2) yf(2)]
  have y0: "0 \<le> y" "y \<le> 2 ^ 62" using nw(1,2) s0 fx(3) by simp_all
  note pf = rel_change_float [OF fx(1) yf(1) x1 fx(3) y0 [unfolded y_def], folded y_def rel_change_def]
  note ch = newton_change [OF s0 fx(2) yf(2) pf(2) lit_threshold(2,3)]
  show "ffin (rel_change number x)" by (rule pf(1))
  show "above_root number (newton number x) \<and> fval (newton number x) \<le> fval x - 0.00009 * sqrt (fval number)"
    if "dval (lit 0.0001) < \<bar>fval (rel_change number x)\<bar>"
  proof -
    have "y \<le> fval x - 0.00009 * s" by (rule ch(1) [OF that])
    moreover from this have "y \<le> 2 ^ 61" using fx(3) s0 by simp
    ultimately show ?thesis using yf(1) nw(1) unfolding above_root_def y_def s_def by blast
  qed
  show "root_close number (newton number x)" if "\<not> dval (lit 0.0001) < \<bar>fval (rel_change number x)\<bar>"
    using ch(2) [OF that] yf(1) unfolding root_close_def y_def s_def by blast
qed

lemma sqroot_loop_unfold:
  "sqroot_loop number x prec = (if lit 0.0001 < f2d prec \<or> f2d prec < - lit 0.0001
     then sqroot_loop number (newton number x) (rel_change number x) else Some x)"
  by (subst sqroot_loop.simps) (simp add: Let_def newton_def rel_change_def)

lemma sqroot_loop_ends:
  assumes r: "root_range number" and "above_root number x" and "fval x \<le> real n * (0.00009 * sqrt (fval number))"
  shows "\<exists>y. sqroot_loop number (newton number x) (rel_change number x) = Some y \<and> root_close number y"
  using assms(2,3)
proof (induction n arbitrary: x)
  case 0
  have "0 < sqrt (fval number)" by (rule less_le_trans [OF _ root_bounds(1) [OF r]]) simp
  then have "0 < (1 - 1 / 2 ^ 22) * sqrt (fval number)" by simp
  also have "\<dots> \<le> fval x" using 0(1) by (simp only: above_root_def)
  finally show ?case using 0(2) by simp
next
  case (Suc n)
  note p = newton_pass [OF r Suc.prems(1)]
  let ?p = "rel_change number x" and ?y = "newton number x"
  show ?case
  proof (cases "dval (lit 0.0001) < \<bar>fval ?p\<bar>")
    case True
    have "fval ?y \<le> real n * (0.00009 * sqrt (fval number))" using p(2) [OF True] Suc.prems(2) by (simp add: algebra_simps)
    then show ?thesis using Suc.IH [of ?y] p(2) [OF True] sqroot_loop_unfold [of number ?y ?p] sqroot_test [OF p(1)] True by metis
  next
    case False
    then show ?thesis using p(3) sqroot_loop_unfold [of number ?y ?p] sqroot_test [OF p(1)] by metis
  qed
qed

lemma sqroot_start:
  assumes r: "root_range number"
  shows "above_root number ((i2f 1 + number) / i2f 2)"
proof -
  define s where "s = sqrt (fval number)"
  have n: "ffin number" "1 / 2 ^ 60 \<le> fval number" "fval number \<le> 2 ^ 60" using r by (simp_all add: root_range_def)
  have s: "0 \<le> s" "s\<^sup>2 = fval number" using root_bounds [OF r] less_le_trans [OF _ root_bounds(1) [OF r], of 0] by (simp_all add: s_def)
  have i: "ffin (i2f 1)" "fval (i2f 1) = 1" "ffin (i2f 2)" "fval (i2f 2) = 2" using i2f_val [of 1] i2f_val [of 2] by simp_all
  define a where "a = rnd single (1 + fval number)"
  have a: "ffin (i2f 1 + number)" "fval (i2f 1 + number) = a" using float_add [OF i(1) n(1)] i(2) n by (simp_all add: a_def)
  have "\<bar>a - (1 + fval number)\<bar> \<le> (1 + fval number) / 2 ^ 24" using rnd_single_rel [of "1 + fval number"] n by (simp add: a_def)
  from abs_le_D1 [OF this] abs_le_D2 [OF this] have ab: "a \<le> 2 ^ 61" "1 / 2 \<le> a" "(1 - 1 / 2 ^ 24) * (1 + fval number) \<le> a" using n by simp_all
  let ?x = "(i2f 1 + number) / i2f 2"
  have x: "ffin ?x" "fval ?x = rnd single (a / 2)" using float_div [OF a(1) i(3)] a(2) i(4) ab by simp_all
  have "\<bar>fval ?x - a / 2\<bar> \<le> a / 2 / 2 ^ 24" unfolding x(2) using rnd_single_rel [of "a / 2"] ab by simp
  from abs_le_D1 [OF this] abs_le_D2 [OF this] have xb: "fval ?x \<le> 2 ^ 61" "(1 - 1 / 2 ^ 24) * a \<le> 2 * fval ?x" using ab by simp_all
  have "2 * s \<le> 1 + fval number" using sum_squares_bound [of 1 s] s by (simp add: power2_eq_square)
  then have "(1 - 1 / 2 ^ 22) * s \<le> fval ?x" using xb(2) ab(3) s by simp
  then show ?thesis using x(1) xb(1) by (simp add: above_root_def s_def)
qed

lemma sqroot_ends:
  assumes r: "root_range number"
  shows "\<exists>x. sqroot number = Some x \<and> root_close number x"
proof -
  let ?x = "(i2f 1 + number) / i2f 2" and ?c = "0.00009 * sqrt (fval number)"
  have s: "0 < ?c" using less_le_trans [OF _ root_bounds(1) [OF r], of 0] by simp
  obtain n where "fval ?x / ?c < real n" using reals_Archimedean2 by blast
  then have n: "fval ?x \<le> real n * ?c" using s by (simp add: divide_less_eq)
  have i: "ffin (i2f 1)" "fval (i2f 1) = 1" "ffin (i2f 0)" "fval (i2f 0) = 0" using i2f_val [of 1] i2f_val [of 0] by simp_all
  have "dval (lit 0.0001) < \<bar>fval (i2f 1)\<bar>" using lit_threshold(3) i(2) by simp
  then have "sqroot_loop number ?x (i2f 1) = sqroot_loop number (newton number ?x) (rel_change number ?x)"
    using sqroot_loop_unfold [of number ?x "i2f 1"] sqroot_test [OF i(1)] by simp
  moreover have "\<not> number < i2f 0"
  proof -
    have "ffin number" "0 \<le> fval number" using r order_trans [of 0 "1 / 2 ^ 60" "fval number"] by (simp_all add: root_range_def)
    then show ?thesis using float_less [OF _ i(3)] i(4) by simp
  qed
  ultimately show ?thesis using sqroot_loop_ends [OF r sqroot_start [OF r] n] by (simp add: sqroot_def)
qed

text \<open>\<^verbatim>\<open>sqroot\<close> returns for every number from \<open>2 ^ -60\<close> to \<open>2 ^ 60\<close>, and its result is the square root up to a relative error of \<open>2 ^ -20\<close>: in
  binary32 arithmetic with its rounding errors, the loop ends, and not before the value is close.\<close>

theorem sqroot_correct:
  assumes "ffin number" and "1 / 2 ^ 60 \<le> fval number" and "fval number \<le> 2 ^ 60"
  shows "\<exists>x. sqroot number = Some x \<and> ffin x \<and> \<bar>fval x - sqrt (fval number)\<bar> \<le> sqrt (fval number) / 2 ^ 20"
  using sqroot_ends [of number] assms by (simp only: root_range_def root_close_def)

theorem sqroot_correct_witness: "\<exists>x. sqroot (i2f 2) = Some x \<and> ffin x \<and> \<bar>fval x - sqrt 2\<bar> \<le> sqrt 2 / 2 ^ 20"
proof -
  have "ffin (i2f 2)" "fval (i2f 2) = 2" using i2f_val [of 2] by simp_all
  then show ?thesis using sqroot_correct [of "i2f 2"] by simp
qed

subsection \<open>The root of zero\<close>

lemma fround_exact: "format_ok f \<Longrightarrow> fits f x \<Longrightarrow> rnd f x = x \<Longrightarrow> x \<noteq> 0 \<Longrightarrow> fround f neg x = Num x"
  using fround_val [of f x neg] by (cases "fround f neg x") (auto simp: is_fin_def is_inf_def)

lemma rnd_pow2: "emin f \<le> e \<Longrightarrow> e \<le> emax f \<Longrightarrow> 1 \<le> fprec f \<Longrightarrow> rnd f (pow2 e) = pow2 e"
  by (rule rnd_exact [of _ 1 e]) simp_all

lemma rnd_uminus_pow2: "emin f \<le> e \<Longrightarrow> e \<le> emax f \<Longrightarrow> 1 \<le> fprec f \<Longrightarrow> rnd f (- pow2 e) = - pow2 e"
  by (rule rnd_exact [of _ "- 1" e]) simp_all

lemma small_pow2: "e \<le> 0 \<Longrightarrow> fits single (pow2 e)" "e \<le> 0 \<Longrightarrow> fits double (pow2 e)" "e \<le> 0 \<Longrightarrow> fits single (- pow2 e)"
  by (simp_all add: fits_def single_def double_def)

lemma is_fin_Num [simp]: "is_fin (Num x)"
  by (simp add: is_fin_def is_inf_def)

lemma i2f_0: "i2f 0 = F32 (Num 0)"
  using pow2_pos(4) by (simp add: i2f_def litf_def fround_def Let_def)

lemma fround_0 [simp]: "fround f False 0 = Num 0"
  by (simp add: fround_def Let_def)

lemma fround_pow2:
  assumes "- 149 \<le> e" and "e \<le> 0"
  shows "fround single neg (pow2 e) = Num (pow2 e)" "fround single neg (- pow2 e) = Num (- pow2 e)" "fround double neg (pow2 e) = Num (pow2 e)"
proof -
  have s: "emin single \<le> e" "e \<le> emax single" "1 \<le> fprec single" using assms by (simp_all add: single_def)
  have d: "emin double \<le> e" "e \<le> emax double" "1 \<le> fprec double" using assms by (simp_all add: double_def)
  show "fround single neg (pow2 e) = Num (pow2 e)" by (rule fround_exact [OF formats_ok(1) small_pow2(1) [OF assms(2)] rnd_pow2 [OF s]]) simp
  show "fround single neg (- pow2 e) = Num (- pow2 e)" by (rule fround_exact [OF formats_ok(1) small_pow2(3) [OF assms(2)] rnd_uminus_pow2 [OF s]]) simp
  show "fround double neg (pow2 e) = Num (pow2 e)" by (rule fround_exact [OF formats_ok(2) small_pow2(2) [OF assms(2)] rnd_pow2 [OF d]]) simp
qed

lemma lit_half_eq: "lit (1 / 2) = F64 (Num (1 / 2))"
  using fround_pow2(3) [of "- 1"] by (simp add: lit_def)

text \<open>Each pass halves the value.\<close>

lemma halve: "fmul double (Num (1 / 2)) (Num (pow2 e)) = fround double False (pow2 (e - 1))"
proof -
  have "1 / 2 * pow2 e = pow2 (e - 1)" using pow2_add [of "- 1" e] by simp
  then show ?thesis by (simp add: fmul_def is_inf_def)
qed

lemma newton_zero_pass:
  assumes "- 149 \<le> e" and "e \<le> - 1"
  shows "f32 (newton (i2f 0) (F32 (Num (pow2 e)))) = fcvt single (fround double False (pow2 (e - 1)))"
proof -
  have q: "i2f 0 / F32 (Num (pow2 e)) = F32 (Num 0)" by (simp add: i2f_0 float32_ops fdiv_def is_inf_def)
  have "F32 (Num (pow2 e)) + F32 (Num 0) = F32 (Num (pow2 e))" using assms by (simp add: float32_ops fadd_def is_inf_def fround_pow2)
  then show ?thesis by (simp add: newton_def q lit_half_eq f2d_def d2f_def float64_ops halve)
qed

lemma newton_zero_halves:
  assumes "- 149 < e" and "e \<le> - 1"
  shows "newton (i2f 0) (F32 (Num (pow2 e))) = F32 (Num (pow2 (e - 1)))" and "rel_change (i2f 0) (F32 (Num (pow2 e))) = F32 (Num (- 1 / 2))"
proof -
  have "f32 (newton (i2f 0) (F32 (Num (pow2 e)))) = Num (pow2 (e - 1))"
    using newton_zero_pass [of e] assms by (simp add: fround_pow2 fcvt_def)
  then show n: "newton (i2f 0) (F32 (Num (pow2 e))) = F32 (Num (pow2 (e - 1)))" by (metis f32.simps float32.exhaust)
  have h: "pow2 (e - 1) - pow2 e = - pow2 (e - 1)" "- pow2 (e - 1) / pow2 e = - pow2 (- 1)" using pow2_add [of "- 1" e] by simp_all
  have "F32 (Num (pow2 (e - 1))) - F32 (Num (pow2 e)) = F32 (Num (- pow2 (e - 1)))"
    using assms fround_pow2(2) [of "e - 1" True] pow2_less [of "e - 1" e] by (simp add: float32_ops fadd_def is_inf_def Let_def h(1) del: pow2_less)
  moreover have "F32 (Num (- pow2 (e - 1))) / F32 (Num (pow2 e)) = F32 (Num (- pow2 (- 1)))"
    using h(2) fround_pow2(2) [of "- 1" True] by (simp add: float32_ops fdiv_def is_inf_def)
  ultimately show "rel_change (i2f 0) (F32 (Num (pow2 e))) = F32 (Num (- 1 / 2))" by (simp add: rel_change_def n)
qed

text \<open>The smallest number becomes zero, and zero divided by zero is not a number.\<close>

lemma newton_zero_last:
  shows "newton (i2f 0) (F32 (Num (pow2 (- 149)))) = F32 (Num 0)" and "rel_change (i2f 0) (F32 (Num (pow2 (- 149)))) = F32 (Num (- 1))"
proof -
  have b: "\<bar>pow2 (- 150)\<bar> < pow2 (emax single + int (fprec single))" "emin single \<le> emax single" by (simp_all add: single_def)
  have "ulp_exp single (pow2 (- 150)) = - 149" using ulp_exp_bounds(1,4) [OF b] by (auto simp: single_def)
  moreover have "pow2 (- 150) / pow2 (- 149) = 1 / 2" using pow2_add [of "- 1" "- 149"] by simp
  moreover have "round_half_even (1 / 2) = 0" by (simp add: round_half_even_def)
  ultimately have "rnd single (pow2 (- 150)) = 0" by (simp add: rnd_def)
  then have z: "fround single False (pow2 (- 150)) = Num 0" by (simp add: fround_def Let_def)
  have "fround double False (pow2 (- 150)) = Num (pow2 (- 150))"
    by (rule fround_exact [OF formats_ok(2) small_pow2(2) rnd_pow2]) (simp_all add: double_def)
  then have "f32 (newton (i2f 0) (F32 (Num (pow2 (- 149))))) = Num 0" using newton_zero_pass [of "- 149"] z by (simp add: fcvt_def)
  then show n: "newton (i2f 0) (F32 (Num (pow2 (- 149)))) = F32 (Num 0)" by (metis f32.simps float32.exhaust)
  have "F32 (Num 0) - F32 (Num (pow2 (- 149))) = F32 (Num (- pow2 (- 149)))" by (simp add: float32_ops fadd_def is_inf_def Let_def fround_pow2)
  moreover have "F32 (Num (- pow2 (- 149))) / F32 (Num (pow2 (- 149))) = F32 (Num (- 1))"
    using fround_pow2(2) [of 0 True] by (simp add: float32_ops fdiv_def is_inf_def)
  ultimately show "rel_change (i2f 0) (F32 (Num (pow2 (- 149)))) = F32 (Num (- 1))" by (simp add: rel_change_def n)
qed

lemma sqroot_test_Num:
  assumes "0.00010001 < \<bar>r\<bar>"
  shows "lit 0.0001 < f2d (F32 (Num r)) \<or> f2d (F32 (Num r)) < - lit 0.0001"
  using sqroot_test [of "F32 (Num r)"] lit_threshold(3) assms by (simp add: cval_defs)

lemma sqroot_loop_zero:
  assumes "n < 149" and "0.00010001 < \<bar>r\<bar>"
  shows "sqroot_loop (i2f 0) (F32 (Num (pow2 (int n - 149)))) (F32 (Num r)) = Some (F32 NaN)"
  using assms
proof (induction n arbitrary: r)
  case 0
  have nan: "newton (i2f 0) (F32 (Num 0)) = F32 NaN" "rel_change (i2f 0) (F32 (Num 0)) = F32 NaN"
    by (simp_all add: i2f_0 newton_def rel_change_def float32_ops float64_ops fdiv_def fadd_def fmul_def f2d_def d2f_def fcvt_def)
  have "sqroot_loop (i2f 0) (F32 NaN) (F32 NaN) = Some (F32 NaN)"
    by (subst sqroot_loop_unfold) (simp add: float64_ops f2d_def flt_def)
  then have "sqroot_loop (i2f 0) (F32 (Num 0)) (F32 (Num (- 1))) = Some (F32 NaN)"
    using sqroot_test_Num [of "- 1"] by (subst sqroot_loop_unfold) (simp only: nan if_True, simp)
  then show ?case using sqroot_test_Num [OF 0(2)] newton_zero_last by (subst sqroot_loop_unfold) simp
next
  case (Suc n)
  have "int (Suc n) - 149 - 1 = int n - 149" by simp
  then show ?case using sqroot_test_Num [OF Suc.prems(2)] newton_zero_halves [of "int (Suc n) - 149"] Suc.IH [of "- 1 / 2"] Suc.prems(1)
    by (subst sqroot_loop_unfold) simp
qed

text \<open>The root of zero is not a number.\<close>

theorem sqroot_zero_nan: "sqroot (i2f 0) = Some (F32 NaN)"
proof -
  have one: "i2f 1 = F32 (Num 1)" "i2f 2 = F32 (Num 2)"
  proof -
    have "fround single False (of_int k) = Num (of_int k)" if "k \<noteq> 0" "\<bar>of_int k\<bar> < (2::real) ^ 24" for k
      by (rule fround_exact [OF formats_ok(1) _ rnd_single_int [OF that(2)]]) (use that in \<open>auto simp: fits_single\<close>)
    from this [of 1] this [of 2] show "i2f 1 = F32 (Num 1)" "i2f 2 = F32 (Num 2)" by (simp_all add: i2f_def litf_def)
  qed
  have "i2f 1 + i2f 0 = F32 (Num 1)" using fround_pow2(1) [of 0 False] by (simp add: one i2f_0 float32_ops fadd_def is_inf_def)
  then have x: "(i2f 1 + i2f 0) / i2f 2 = F32 (Num (pow2 (- 1)))"
    using fround_pow2(1) [of "- 1" False] by (simp add: one divide_float32_def fdiv_def is_inf_def)
  have "sqroot_loop (i2f 0) (F32 (Num (pow2 (int 148 - 149)))) (F32 (Num 1)) = Some (F32 NaN)" by (rule sqroot_loop_zero) simp_all
  then have "sqroot_loop (i2f 0) ((i2f 1 + i2f 0) / i2f 2) (i2f 1) = Some (F32 NaN)" unfolding x unfolding one by simp
  then show ?thesis by (simp add: sqroot_def less_float32_def flt_def)
qed

section \<open>The iterations for the Mach number\<close>

text \<open>A constant that is stored in a \<^verbatim>\<open>float\<close>.\<close>

lemma const_val:
  assumes "\<bar>c\<bar> \<le> 2 ^ 100"
  shows "ffin (d2f (lit c))" "\<bar>fval (d2f (lit c)) - c\<bar> \<le> \<bar>c\<bar> / 2 ^ 22 + 1 / 2 ^ 100"
proof -
  define d where "d = rnd double c"
  have v: "dfin (lit c)" "dval (lit c) = d" using lit_val [of c] assms by (simp_all add: d_def)
  have d: "\<bar>d - c\<bar> \<le> \<bar>c\<bar> / 2 ^ 53 + 1 / 2 ^ 200" unfolding d_def by (rule rnd_double_abs) (use assms in simp)
  have db: "\<bar>d\<bar> \<le> 2 ^ 101" using d assms by simp
  have f: "ffin (d2f (lit c))" "fval (d2f (lit c)) = rnd single d" using d2f_val [OF v(1)] v(2) db by simp_all
  have r: "\<bar>rnd single d - d\<bar> \<le> \<bar>d\<bar> / 2 ^ 24 + 1 / 2 ^ 150" by (rule rnd_single_abs) (use db in simp)
  have d': "\<bar>d - c\<bar> \<le> \<bar>c\<bar> / 2 ^ 24 + 1 / 2 ^ 119" using d by simp
  have "\<bar>rnd single d - c\<bar> \<le> \<bar>c\<bar> / 2 ^ 22 + 1 / 2 ^ 100" by (rule two_roundings [OF _ _ r d']) linarith+
  then show "ffin (d2f (lit c))" "\<bar>fval (d2f (lit c)) - c\<bar> \<le> \<bar>c\<bar> / 2 ^ 22 + 1 / 2 ^ 100" using f by simp_all
qed

text \<open>A difference smaller than one is zero for \<^verbatim>\<open>abs\<close>.\<close>

lemma int_abs_small:
  assumes "ffin a" and "\<bar>fval a\<bar> < 1"
  shows "int_abs a = Some 0"
proof -
  have "truncate (fval a) = 0" using assms(2) by (auto simp: truncate_def floor_eq_iff ceiling_eq_iff)
  then show ?thesis using assms(1) by (simp add: int_abs_def f2i_def to_int_def cval_defs)
qed

lemma int_test_zero: "\<not> lit 0.0001 < i2d 0"
proof -
  have z: "dfin (i2d 0)" "dval (i2d 0) = 0" using lit_val [of 0] by (simp_all add: i2d_def)
  show ?thesis unfolding double_less [OF lit_threshold(1) z(1)] z(2) using lit_threshold(2) by simp
qed

lemma rounded_below_1:
  fixes a b c :: real
  assumes "b \<le> a / 2 ^ 24 + 1 / 2 ^ 150" and "c \<le> a + b" and "a \<le> 0.999"
  shows "c < 1"
  using assms by simp

lemma int_abs_diff:
  assumes "ffin a" and "ffin b" and "\<bar>fval a - fval b\<bar> \<le> 0.999"
  shows "int_abs (a - b) = Some 0"
proof -
  have s: "ffin (a - b)" "fval (a - b) = rnd single (fval a - fval b)" using float_sub [OF assms(1,2)] assms(3) by simp_all
  have "\<bar>rnd single (fval a - fval b) - (fval a - fval b)\<bar> \<le> \<bar>fval a - fval b\<bar> / 2 ^ 24 + 1 / 2 ^ 150"
    by (rule rnd_single_abs) (use assms(3) in simp)
  then have "\<bar>fval (a - b)\<bar> < 1" unfolding s(2) by (rule rounded_below_1 [OF _ _ assms(3)]) linarith
  with s(1) show ?thesis by (rule int_abs_small)
qed

text \<open>\<^verbatim>\<open>getRayleighLoss\<close> always returns its initial value 0.95: \<^verbatim>\<open>abs\<close> is the function for integers, the distance of 0.1 between the first two
  values is cut off to zero, and the loop is never entered.\<close>

theorem getRayleighLoss_constant:
  assumes "getAir mach1 (getGama tlow) = Some wc1"
  shows "getRayleighLoss mach1 ttrat tlow = Some (d2f (lit 0.95))"
proof -
  have b: "\<bar>0.5 :: real\<bar> \<le> 2 ^ 100" "\<bar>0.4 :: real\<bar> \<le> 2 ^ 100" by simp_all
  have "\<bar>fval (d2f (lit 0.5)) - fval (d2f (lit 0.4))\<bar> \<le> 0.999"
    using abs_le_D1 [OF const_val(2) [OF b(1)]] abs_le_D2 [OF const_val(2) [OF b(1)]] abs_le_D1 [OF const_val(2) [OF b(2)]] abs_le_D2 [OF const_val(2) [OF b(2)]]
    unfolding abs_le_iff by simp
  then have "int_abs (d2f (lit 0.5) - d2f (lit 0.4)) = Some 0" by (rule int_abs_diff [OF const_val(1) [OF b(1)] const_val(1) [OF b(2)]])
  then show ?thesis using assms int_test_zero by (simp add: getRayleighLoss_def) (subst rayleigh_loop.simps, simp)
qed

text \<open>\<^verbatim>\<open>getMach\<close> does not look at the airflow: for every airflow that is not above the choked one and differs from 0.25618 by less than 0.99, the
  iteration is never entered for the same reason, and the result is the first guess 0.5.\<close>

theorem getMach_constant:
  assumes "getAir (d2f (lit 1)) gama1 = Some chokair" and "\<not> chokair < corair" and "ffin corair" and "\<bar>fval corair - 0.25618\<bar> \<le> 0.99"
    and "sub \<noteq> 1" and "sub \<noteq> 2"
  shows "getMach sub corair gama1 = Some (d2f (lit 0.5))"
proof -
  have b: "\<bar>0.25618 :: real\<bar> \<le> 2 ^ 100" by simp
  have "\<bar>fval corair - fval (d2f (lit 0.25618))\<bar> \<le> 0.999"
    using abs_le_D1 [OF const_val(2) [OF b]] abs_le_D2 [OF const_val(2) [OF b]] abs_le_D1 [OF assms(4)] abs_le_D2 [OF assms(4)]
    unfolding abs_le_iff by simp
  then have "int_abs (corair - d2f (lit 0.25618)) = Some 0" by (rule int_abs_diff [OF assms(3) const_val(1) [OF b]])
  then show ?thesis using assms(1,2,5,6) int_test_zero by (simp add: getMach_def Let_def) (subst mach_loop.simps, simp)
qed

end
