(* ===== verification/XenoJet.thy ===== *)
theory XenoJet
  imports XenoMath
begin

text \<open>
  The simulation of a jet engine (\<^verbatim>\<open>applications/XenoJetBench.c\<close>): its global variables as a record, the four tasks \<^verbatim>\<open>deduceInputs\<close>,
  \<^verbatim>\<open>getThermo\<close>, \<^verbatim>\<open>getGeo\<close> and \<^verbatim>\<open>calcPerf\<close> as functions on it, and the loop over the readings. All variables are \<^verbatim>\<open>float\<close>; an expression is
  computed in \<^verbatim>\<open>double\<close> where C does, and rounded by the assignment.
\<close>

section \<open>The global variables of XenoJetBench.h\<close>

text \<open>Limits that are set and never read, parameters and inputs, flight conditions, geometry, performance and the arrays.\<close>

record xeno_limits =
  g0d :: float32
  tt4d :: float32
  tt7d :: float32
  fhvd :: float32
  u0min :: float32
  u0max :: float32
  altmin :: float32
  altmax :: float32
  thrmin :: float32
  thrmax :: float32
  etmin :: float32
  etmax :: float32
  cprmin :: float32
  cprmax :: float32
  bypmin :: float32
  bypmax :: float32
  fprmin :: float32
  fprmax :: float32
  t4min :: float32
  t4max :: float32
  t7min :: float32
  t7max :: float32
  pmax :: float32
  tmin :: float32
  tmax :: float32

record xeno_param = xeno_limits +
  engine :: int
  g0 :: float32
  gama :: float32
  tref :: float32
  abflag :: float32
  tt4 :: float32
  tt7 :: float32
  p3p2d :: float32
  p3fp2d :: float32
  byprat :: float32
  throtl :: float32
  altd :: float32
  u0d :: float32
  fhv :: float32
  acore :: float32
  afan :: float32
  a2 :: float32
  arsched :: float32
  dcomp :: float32
  dburner :: float32
  dturbin :: float32
  dnozl :: float32
  dfan :: float32

record xeno_flight = xeno_param +
  Rgas :: float32
  alt :: float32
  ts0 :: float32
  ps0 :: float32
  a0 :: float32
  u0 :: float32
  fsmach :: float32
  q0 :: float32
  rho0 :: float32
  cpair :: float32
  tsout :: float32
  psout :: float32

record xeno_geo = xeno_flight +
  a8 :: float32
  a8d :: float32
  a4 :: float32
  a8max :: float32
  a8rat :: float32
  a4p :: float32
  acap :: float32
  lcomp :: float32
  lburn :: float32
  lturb :: float32
  lnoz :: float32
  ncomp :: float32
  nturb :: float32
  sblade :: float32
  hblade :: float32
  tblade :: float32
  xcomp :: float32
  ncompd :: float32

record xeno = xeno_geo +
  weight :: float32
  m2 :: float32
  mfr :: float32
  isp :: float32
  epr :: float32
  etr :: float32
  npr :: float32
  snpr :: float32
  fnet :: float32
  fgros :: float32
  dram :: float32
  sfc :: float32
  fa :: float32
  eair :: float32
  uexit :: float32
  ues :: float32
  fnlb :: float32
  fglb :: float32
  drlb :: float32
  flflo :: float32
  pexit :: float32
  pfexit :: float32
  trat :: "float32 list"
  tt :: "float32 list"
  prat :: "float32 list"
  pt :: "float32 list"
  eta :: "float32 list"
  gam :: "float32 list"
  cp :: "float32 list"

text \<open>A constant of type \<^verbatim>\<open>double\<close> that is assigned to a \<^verbatim>\<open>float\<close>, and the conversion of a \<^verbatim>\<open>double\<close> to \<^verbatim>\<open>int\<close>.\<close>

abbreviation (input) flit :: "real \<Rightarrow> float32" where "flit c \<equiv> d2f (lit c)"

definition d2i :: "float64 \<Rightarrow> int option" where
  "d2i a = to_int (- (2 ^ 31)) (2 ^ 31 - 1) (f64 a)"

section \<open>Parameters\<close>

definition defaultParam :: "xeno \<Rightarrow> xeno" where
  "defaultParam s = s\<lparr>
     tref := flit 459.6, g0d := flit 32.2, g0 := flit 32.2, gama := flit 1.4,
     trat := replicate 20 (flit 1),
     tt := (replicate 20 (flit 518.6))[4 := flit 2500, 7 := flit 2500],
     prat := (replicate 20 (flit 1))[3 := flit 8, 13 := flit 2],
     pt := replicate 20 (flit 14.7), eta := replicate 20 (flit 1),
     tt4d := flit 2500, tt4 := flit 2500, tt7d := flit 2500, tt7 := flit 2500, p3p2d := flit 8, p3fp2d := flit 2,
     byprat := flit 1, abflag := i2f 0, fhv := flit 18600, fhvd := flit 18600, acore := flit 2, a2 := flit 2,
     acap := d2f (lit 0.9 * f2d (flit 2)), a8rat := flit 0.35, a8 := flit 0.7, a8d := flit 0.40, arsched := i2f 0, afan := flit 2,
     a4 := flit 0.418, u0min := flit 0, u0max := flit 1500, altmin := flit 0, altmax := flit 60000, thrmin := i2f 30, thrmax := i2f 100,
     etmin := flit 0.5, etmax := flit 1, cprmin := flit 1, cprmax := flit 50, bypmin := flit 0, bypmax := flit 10,
     fprmin := flit 1, fprmax := flit 2, t4min := flit 1000, t4max := flit 3200, t7min := flit 1000, t7max := flit 4000,
     a8max := flit 0.4, pmax := flit 20, tmin := d2f (- lit 100 + f2d (flit 459.6)), tmax := d2f (lit 100 + f2d (flit 459.6)),
     weight := flit 1000, dfan := flit 293.02, dcomp := flit 293.02, dburner := flit 515.2, dturbin := flit 515.2, dnozl := flit 515.2\<rparr>"

section \<open>Flight conditions\<close>

text \<open>Temperature and pressure of the air at an altitude, three cases one after the other; the old values stay where none applies.\<close>

definition atmosphere :: "float32 \<Rightarrow> float32 \<Rightarrow> float32 \<Rightarrow> (float32 \<times> float32) option" where
  "atmosphere h ts ps = do {
     let alt = h; let ts0 = ts; let ps0 = ps;
     (ts0, ps0) \<leftarrow> (if f2d alt < lit 36152
        then do {
          let ts0 = d2f (lit 518.6 - lit 3.56 * f2d alt / lit 1000);
          r \<leftarrow> fpow (d2f (f2d ts0 / lit 518.6)) (flit 5.256);
          Some (ts0, d2f (lit 2116 * f2d r)) }
        else Some (ts0, ps0));
     (ts0, ps0) \<leftarrow> (if lit 36152 \<le> f2d alt \<and> f2d alt \<le> lit 82345
        then do {
          r \<leftarrow> expo (d2f ((lit 36000 - f2d alt) / (lit 53.35 * lit 389.98)));
          Some (flit 389.98, d2f (lit 2116 * lit 0.2236 * f2d r)) }
        else Some (ts0, ps0));
     if lit 82345 \<le> f2d alt
     then do {
       let ts0 = d2f (lit 389.98 + lit 1.645 * f2d (alt - i2f 82345) / lit 1000);
       r \<leftarrow> fpow (d2f (f2d ts0 / lit 389.98)) (d2f (- lit 11.388));
       Some (ts0, d2f (lit 2116 * lit 0.02456 * f2d r)) }
     else Some (ts0, ps0) }"

text \<open>What \<^verbatim>\<open>deduceInputs\<close> computes from altitude, speed and \<^verbatim>\<open>gama\<close>.\<close>

record conditions =
  f_ts0 :: float32
  f_ps0 :: float32
  f_a0 :: float32
  f_u0 :: float32
  f_fsmach :: float32
  f_q0 :: float32
  f_rho0 :: float32
  f_tt0 :: float32
  f_pt0 :: float32

definition flight_conditions :: "float32 \<Rightarrow> float32 \<Rightarrow> float32 \<Rightarrow> float32 \<Rightarrow> float32 \<Rightarrow> conditions option" where
  "flight_conditions h speed gamma ts ps = do {
     (ts0, ps0) \<leftarrow> atmosphere h ts ps;
     a0 \<leftarrow> sqroot (gamma * flit 1718 * ts0);
     let u0 = d2f (f2d speed * lit 5280 / lit 3600);
     let fsmach = u0 / a0;
     let q0 = d2f (f2d gamma / lit 2 * f2d fsmach * f2d fsmach * f2d ps0);
     let rho0 = (if lit 0.0001 < f2d u0 then q0 / (u0 * u0) else flit 1);
     let tt0 = d2f (f2d ts0 * (lit 1 + lit 0.5 * (f2d gamma - lit 1) * f2d fsmach * f2d fsmach));
     r \<leftarrow> fpow (tt0 / ts0) (d2f (f2d gamma / (f2d gamma - lit 1)));
     let pt0 = ps0 * r;
     let ps0 = d2f (f2d ps0 / lit 144);
     let pt0 = d2f (f2d pt0 / lit 144);
     Some \<lparr>f_ts0 = ts0, f_ps0 = ps0, f_a0 = a0, f_u0 = u0, f_fsmach = fsmach, f_q0 = q0, f_rho0 = rho0, f_tt0 = tt0, f_pt0 = pt0\<rparr> }"

definition deduceInputs :: "xeno \<Rightarrow> xeno option" where
  "deduceInputs s = do {
     f \<leftarrow> flight_conditions (altd s) (u0d s) (gama s) (ts0 s) (ps0 s);
     Some (s\<lparr>Rgas := flit 1718, alt := altd s, ts0 := f_ts0 f, ps0 := f_ps0 f, a0 := f_a0 f, u0 := f_u0 f, fsmach := f_fsmach f, q0 := f_q0 f,
       rho0 := f_rho0 f, tt := (tt s)[0 := f_tt0 f], pt := (pt s)[0 := f_pt0 f], cpair := getCp (f_tt0 f),
       tsout := d2f (f2d (f_ts0 f) - lit 459.6), psout := f_ps0 f\<rparr>) }"

section \<open>Thermodynamics\<close>

text \<open>
  The arrays of the engine's stations, and the elements of them that a part of \<^verbatim>\<open>getThermo\<close> assigns; no part assigns an element twice.
  The function \<open>assign\<close> carries out the assignments.
\<close>

record stations =
  s_trat :: "float32 list"
  s_tt :: "float32 list"
  s_prat :: "float32 list"
  s_pt :: "float32 list"
  s_gam :: "float32 list"
  s_cp :: "float32 list"

record assigns =
  a_trat :: "(nat \<times> float32) list"
  a_tt :: "(nat \<times> float32) list"
  a_prat :: "(nat \<times> float32) list"
  a_pt :: "(nat \<times> float32) list"
  a_gam :: "(nat \<times> float32) list"
  a_cp :: "(nat \<times> float32) list"

fun assign_all :: "(nat \<times> float32) list \<Rightarrow> float32 list \<Rightarrow> float32 list" where
  "assign_all [] xs = xs"
| "assign_all ((i, v) # as) xs = assign_all as (xs[i := v])"

definition assign :: "assigns \<Rightarrow> stations \<Rightarrow> stations" where
  "assign a st = \<lparr>s_trat = assign_all (a_trat a) (s_trat st), s_tt = assign_all (a_tt a) (s_tt st), s_prat = assign_all (a_prat a) (s_prat st),
     s_pt = assign_all (a_pt a) (s_pt st), s_gam = assign_all (a_gam a) (s_gam st), s_cp = assign_all (a_cp a) (s_cp st)\<rparr>"

definition stations_of :: "xeno \<Rightarrow> stations" where
  "stations_of s = \<lparr>s_trat = trat s, s_tt = tt s, s_prat = prat s, s_pt = pt s, s_gam = gam s, s_cp = cp s\<rparr>"

definition inlet :: "float32 \<Rightarrow> float32 \<Rightarrow> float32 \<Rightarrow> (float32 \<times> assigns) option" where
  "inlet mach tt0 pt0 = do {
     prat2 \<leftarrow> (if lit 1 < f2d mach
        then do { r \<leftarrow> fpow (d2f (f2d mach - lit 1)) (flit 1.35); Some (d2f (lit 1 - lit 0.075 * f2d r)) }
        else Some (flit 1));
     Some (prat2, \<lparr>a_trat = [(7, flit 1)], a_tt = [(1, tt0), (2, tt0)], a_prat = [(2, prat2), (7, flit 1)], a_pt = [(1, pt0), (2, pt0 * prat2)],
       a_gam = [(2, getGama tt0)], a_cp = [(2, getCp tt0)]\<rparr>) }"

definition at_least_half :: "float32 \<Rightarrow> float32" where
  "at_least_half x = (if f2d x < lit 0.5 then flit 0.5 else x)"

text \<open>The efficiencies, protected against small values.\<close>

definition thermo_eta :: "float32 \<Rightarrow> float32 list \<Rightarrow> float32 list" where
  "thermo_eta prat2 es = (let es = es[2 := prat2]; es = es[3 := at_least_half (es ! 3)] in es[5 := at_least_half (es ! 5)])"

text \<open>The core of a turbojet, \<^verbatim>\<open>engine <= 2\<close>.\<close>

definition turbojet :: "xeno \<Rightarrow> float32 \<Rightarrow> float32 \<Rightarrow> stations \<Rightarrow> assigns option" where
  "turbojet s eta3 eta5 st = do {
     let tt2 = s_tt st ! 2; let pt2 = s_pt st ! 2; let gam2 = s_gam st ! 2; let cp2 = s_cp st ! 2; let prat4 = s_prat st ! 4;
     let prat3 = at_least_half (p3p2d s);
     r \<leftarrow> fpow prat3 (d2f ((f2d gam2 - lit 1) / f2d gam2));
     let delhc = d2f (f2d (cp2 * tt2 / eta3) * (f2d r - lit 1));
     let deltc = delhc / cp2;
     let pt3 = pt2 * prat3;
     let tt3 = tt2 + deltc;
     let trat3 = tt3 / tt2;
     let gam3 = getGama tt3;
     let cp3 = getCp tt3;
     let tt4 = d2f (f2d (tt4 s * throtl s) / lit 100);
     let gam4 = getGama tt4;
     let cp4 = getCp tt4;
     let trat4 = tt4 / tt3;
     let pt4 = pt3 * prat4;
     let delhht = delhc;
     let deltht = delhht / cp4;
     let tt5 = tt4 - deltht;
     let gam5 = getGama tt5;
     let cp5 = getCp tt5;
     let trat5 = tt5 / tt4;
     prat5 \<leftarrow> fpow (i2f 1 - delhht / cp4 / tt4 / eta5) (d2f (f2d gam4 / (f2d gam4 - lit 1)));
     let pt5 = pt4 * prat5;
     Some \<lparr>a_trat = [(3, trat3), (4, trat4), (5, trat5), (13, flit 1), (15, flit 1)],
       a_tt = [(3, tt3), (4, tt4), (5, tt5), (13, tt2), (15, tt5)],
       a_prat = [(3, prat3), (5, prat5), (13, flit 1), (15, flit 1)],
       a_pt = [(3, pt3), (4, pt4), (5, pt5), (13, pt2), (15, pt5)],
       a_gam = [(3, gam3), (4, gam4), (5, gam5), (13, gam2), (15, gam5)],
       a_cp = [(3, cp3), (4, cp4), (5, cp5), (13, cp2), (15, cp5)]\<rparr> }"

text \<open>The fan and the core of a turbofan, \<^verbatim>\<open>engine == 3\<close>.\<close>

definition turbofan :: "xeno \<Rightarrow> float32 \<Rightarrow> float32 \<Rightarrow> float32 \<Rightarrow> stations \<Rightarrow> assigns option" where
  "turbofan s eta3 eta5 eta13 st = do {
     let tt2 = s_tt st ! 2; let pt2 = s_pt st ! 2; let gam2 = s_gam st ! 2; let cp2 = s_cp st ! 2; let prat4 = s_prat st ! 4;
     let prat13 = at_least_half (p3fp2d s);
     r \<leftarrow> fpow prat13 (d2f ((f2d gam2 - lit 1) / f2d gam2));
     let delhf = d2f (f2d (cp2 * tt2 / eta13) * (f2d r - lit 1));
     let deltf = delhf / cp2;
     let tt13 = tt2 + deltf;
     let pt13 = pt2 * prat13;
     let trat13 = tt13 / tt2;
     let gam13 = getGama tt13;
     let cp13 = getCp tt13;
     let prat3 = at_least_half (p3p2d s);
     r \<leftarrow> fpow prat3 (d2f ((f2d gam13 - lit 1) / f2d gam13));
     let delhc = d2f (f2d (cp13 * tt13 / eta3) * (f2d r - lit 1));
     let deltc = delhc / cp13;
     let tt3 = tt13 + deltc;
     let pt3 = pt13 * prat3;
     let trat3 = tt3 / tt13;
     let gam3 = getGama tt3;
     let cp3 = getCp tt3;
     let tt4 = d2f (f2d (tt4 s * throtl s) / lit 100);
     let pt4 = pt3 * prat4;
     let gam4 = getGama tt4;
     let cp4 = getCp tt4;
     let trat4 = tt4 / tt3;
     let delhht = delhc;
     let deltht = delhht / cp4;
     let tt5 = tt4 - deltht;
     let gam5 = getGama tt5;
     let cp5 = getCp tt5;
     let trat5 = tt5 / tt4;
     prat5 \<leftarrow> fpow (d2f (lit 1 - f2d (delhht / cp4 / tt4 / eta5))) (d2f (f2d gam4 / (f2d gam4 - lit 1)));
     let pt5 = pt4 * prat5;
     let delhlt = d2f ((lit 1 + f2d (byprat s)) * f2d delhf);
     let deltlt = delhlt / cp5;
     let tt15 = tt5 - deltlt;
     let gam15 = getGama tt15;
     let cp15 = getCp tt15;
     let trat15 = tt15 / tt5;
     prat15 \<leftarrow> fpow (d2f (lit 1 - f2d (delhlt / cp5 / tt5 / eta5))) (d2f (f2d gam5 / (f2d gam5 - lit 1)));
     let pt15 = pt5 * prat15;
     Some \<lparr>a_trat = [(13, trat13), (3, trat3), (4, trat4), (5, trat5), (15, trat15)],
       a_tt = [(13, tt13), (3, tt3), (4, tt4), (5, tt5), (15, tt15)],
       a_prat = [(13, prat13), (3, prat3), (5, prat5), (15, prat15)],
       a_pt = [(13, pt13), (3, pt3), (4, pt4), (5, pt5), (15, pt15)],
       a_gam = [(13, gam13), (3, gam3), (4, gam4), (5, gam5), (15, gam15)],
       a_cp = [(13, cp13), (3, cp3), (4, cp4), (5, cp5), (15, cp15)]\<rparr> }"

text \<open>The nozzle and the afterburner.\<close>

definition nozzle :: "xeno \<Rightarrow> stations \<Rightarrow> assigns option" where
  "nozzle s st = do {
     let tt7 = tt7 s;
     let pt6 = s_pt st ! 15;
     let tt6 = s_tt st ! 15;
     let gam5 = s_gam st ! 5;
     let gam6 = getGama tt6;
     let cp6 = getCp tt6;
     (trat7, prat7) \<leftarrow> (if i2f 0 < abflag s
        then do {
          let trat7 = tt7 / tt6;
          air \<leftarrow> getAir (flit 1) gam5;
          m5 \<leftarrow> getMach 0 (air * a4 s / acore s) gam5;
          prat7 \<leftarrow> getRayleighLoss m5 trat7 tt6;
          Some (trat7, prat7) }
        else Some (s_trat st ! 7, s_prat st ! 7));
     let tt7 = tt6 * trat7;
     let pt7 = pt6 * prat7;
     Some \<lparr>a_trat = [(6, flit 1), (7, trat7)], a_tt = [(6, tt6), (7, tt7)], a_prat = [(6, flit 1), (7, prat7)], a_pt = [(6, pt6), (7, pt7)],
       a_gam = [(6, gam6), (7, getGama tt7)], a_cp = [(6, cp6), (7, getCp tt7)]\<rparr> }"

text \<open>Inlet, engine and nozzle, and the ratios of the whole engine.\<close>

definition thermo_core :: "xeno \<Rightarrow> float32 list \<Rightarrow> stations \<Rightarrow> stations option" where
  "thermo_core s es st =
     (if engine s \<le> 2 then do { a \<leftarrow> turbojet s (es ! 3) (es ! 5) st; Some (assign a st) }
      else if engine s = 3 then do { a \<leftarrow> turbofan s (es ! 3) (es ! 5) (es ! 13) st; Some (assign a st) }
      else Some st)"

definition getThermo :: "xeno \<Rightarrow> xeno option" where
  "getThermo s = do {
     (prat2, a) \<leftarrow> inlet (fsmach s) (tt s ! 0) (pt s ! 0);
     let es = thermo_eta prat2 (eta s);
     st \<leftarrow> thermo_core s es (assign a (stations_of s));
     a \<leftarrow> nozzle s st;
     let st = assign a st;
     let prat = s_prat st;
     let trat = s_trat st;
     Some (s\<lparr>eta := es, trat := trat, tt := s_tt st, prat := prat, pt := s_pt st, gam := s_gam st, cp := s_cp st,
       epr := prat ! 7 * prat ! 15 * prat ! 5 * prat ! 4 * prat ! 3 * prat ! 13,
       etr := trat ! 7 * trat ! 15 * trat ! 5 * trat ! 4 * trat ! 3 * trat ! 13\<rparr>) }"

section \<open>Geometry\<close>

text \<open>Areas, and the sizes the weight depends on.\<close>

record areas =
  g_afan :: float32
  g_a8max :: float32
  g_a8rat :: float32
  g_a8 :: float32
  g_a8d :: float32
  g_a4 :: float32
  g_a4p :: float32

definition flow_areas :: "xeno \<Rightarrow> areas option" where
  "flow_areas s = do {
     let afan = (if afan s < acore s then acore s else afan s);
     r \<leftarrow> sqroot (etr s);
     let a8max = d2f (lit 0.75 * f2d r / f2d (epr s));
     let a8max = (if lit 1 < f2d a8max then flit 1 else a8max);
     let a8rat = (if float_eq (arsched s) (i2f 0) then a8max else if a8max < a8rat s then a8max else a8rat s);
     let a8 = a8rat * acore s;
     r7 \<leftarrow> sqroot (trat s ! 7);
     let a8d = a8 * prat s ! 7 / r7;
     r4 \<leftarrow> sqroot (trat s ! 7 * trat s ! 5 * trat s ! 15);
     let a4 = a8 * prat s ! 5 * prat s ! 15 * prat s ! 7 / r4;
     r4p \<leftarrow> sqroot (trat s ! 7 * trat s ! 15);
     let a4p = a8 * prat s ! 15 * prat s ! 7 / r4p;
     Some \<lparr>g_afan = afan, g_a8max = a8max, g_a8rat = a8rat, g_a8 = a8, g_a8d = a8d, g_a4 = a4, g_a4p = a4p\<rparr> }"

record sizes =
  z_ncomp :: float32
  z_hblade :: float32
  z_tblade :: float32
  z_xcomp :: float32
  z_ncompd :: float32
  z_nturb :: float32
  z_lturb :: float32
  z_lnoz :: float32

definition blade_sizes :: "int \<Rightarrow> float32 \<Rightarrow> sizes option" where
  "blade_sizes eng p3p2 = do {
     n \<leftarrow> d2i (lit 1 + f2d p3p2 / lit 1.5);
     let ncomp = (if i2f 15 < i2f n then i2f 15 else i2f n);
     let sblade = flit 0.02;
     hblade \<leftarrow> sqroot (d2f (lit 2 / lit 3.1415926));
     let tblade = d2f (lit 0.2 * f2d hblade);
     let ncompd = (if eng = 3 then ncomp + i2f 3 else ncomp);
     let xcomp = ncompd * (tblade + sblade);
     let nturb = i2f 1 + ncomp / i2f 4;
     let nturb = (if eng = 3 then nturb + i2f 1 else nturb);
     Some \<lparr>z_ncomp = ncomp, z_hblade = hblade, z_tblade = tblade, z_xcomp = xcomp, z_ncompd = ncompd, z_nturb = nturb,
       z_lturb = nturb * (tblade + sblade), z_lnoz = (if eng = 2 then d2f (lit 3 * f2d hblade) else hblade)\<rparr> }"

definition getGeo :: "xeno \<Rightarrow> xeno option" where
  "getGeo s = do {
     g \<leftarrow> flow_areas s;
     z \<leftarrow> blade_sizes (engine s) (p3p2d s);
     Some (s\<lparr>afan := g_afan g, a8max := g_a8max g, a8rat := g_a8rat g, a8 := g_a8 g, a8d := g_a8d g, a4 := g_a4 g, a4p := g_a4p g,
       acap := d2f (lit 0.9 * f2d (a2 s)), ncomp := z_ncomp z, sblade := flit 0.02, hblade := z_hblade z, tblade := z_tblade z, xcomp := z_xcomp z,
       ncompd := z_ncompd z, lcomp := z_xcomp z, lburn := z_hblade z, nturb := z_nturb z, lturb := z_lturb z, lnoz := z_lnoz z\<rparr>) }"

section \<open>Performance\<close>

text \<open>The efficiencies, protected against small values.\<close>

definition perf_eta :: "float32 list \<Rightarrow> float32 list" where
  "perf_eta es = (let es = (if f2d (es ! 7) < lit 0.8 then es[7 := flit 0.8] else es) in if f2d (es ! 4) < lit 0.8 then es[4 := flit 0.8] else es)"

text \<open>The core of the engine: airflow at the choked nozzle, exit speed and gross thrust.\<close>

record core =
  p_pt8 :: float32
  p_eair :: float32
  p_m2 :: float32
  p_npr :: float32
  p_uexit :: float32
  p_pexit :: float32
  p_fgros :: float32

definition core_thrust :: "xeno \<Rightarrow> float32 \<Rightarrow> float32 \<Rightarrow> core option" where
  "core_thrust s eta7 grav = do {
     let game = getGama (tt s ! 5);
     let fac1 = d2f ((f2d game - lit 1) / f2d game);
     let pt8 = epr s * prat s ! 2 * pt s ! 0;
     air \<leftarrow> getAir (flit 1) game;
     r \<leftarrow> sqroot (d2f (f2d (etr s * tt s ! 0) / lit 518));
     let eair = d2f (f2d air * lit 144 * f2d (a8 s) * f2d pt8 / lit 14.7 / f2d r);
     r2 \<leftarrow> sqroot (d2f (f2d (tt s ! 0) / lit 518));
     m2 \<leftarrow> getMach 0 (d2f (f2d (eair * r2) / (f2d (prat s ! 2 * pt s ! 0) / lit 14.7 * f2d (acore s) * lit 144))) (gama s);
     let npr = pt8 / ps0 s;
     q \<leftarrow> fpow (d2f (lit 1 / f2d npr)) fac1;
     uexit \<leftarrow> sqroot (d2f (lit 2 * f2d (Rgas s) / f2d fac1 * f2d (etr s) * f2d (tt s ! 0) * f2d eta7 * (lit 1 - f2d q)));
     let pexit = (if f2d npr \<le> lit 1.893 then ps0 s else d2f (lit 0.52828 * f2d pt8));
     let fgros = d2f ((f2d uexit + f2d (pexit - ps0 s) * lit 144 * f2d (a8 s) / f2d eair) / f2d grav);
     Some \<lparr>p_pt8 = pt8, p_eair = eair, p_m2 = m2, p_npr = npr, p_uexit = uexit, p_pexit = pexit, p_fgros = fgros\<rparr> }"

text \<open>The terms of a turbofan for the flow through the fan; without a fan the values stay as they are.\<close>

record fan =
  n_m2 :: float32
  n_fgros :: float32
  n_ues :: float32
  n_snpr :: float32
  n_pfexit :: float32

definition fan_thrust :: "xeno \<Rightarrow> float32 \<Rightarrow> float32 \<Rightarrow> float32 \<Rightarrow> float32 \<Rightarrow> fan option" where
  "fan_thrust s eta7 grav air thrust = do {
     let fac1 = d2f ((f2d (gama s) - lit 1) / f2d (gama s));
     let snpr = pt s ! 13 / ps0 s;
     q \<leftarrow> fpow (d2f (lit 1 / f2d snpr)) fac1;
     ues \<leftarrow> sqroot (d2f (lit 2 * f2d (Rgas s) / f2d fac1 * f2d (tt s ! 13) * f2d eta7 * (lit 1 - f2d q)));
     r \<leftarrow> sqroot (d2f (f2d (tt s ! 0) / lit 518));
     m2 \<leftarrow> getMach 0 (d2f (f2d air * (lit 1 + f2d (byprat s)) * f2d r /
        (f2d (prat s ! 2 * pt s ! 0) / lit 14.7 * f2d (afan s) * lit 144))) (gama s);
     let pfexit = (if f2d snpr \<le> lit 1.893 then ps0 s else d2f (lit 0.52828 * f2d (pt s ! 13)));
     let fgros = d2f (f2d thrust + (f2d (byprat s * ues) +
        f2d (pfexit - ps0 s) * lit 144 * f2d (byprat s) * f2d (acore s) / f2d air) / f2d grav);
     Some \<lparr>n_m2 = m2, n_fgros = fgros, n_ues = ues, n_snpr = snpr, n_pfexit = pfexit\<rparr> }"

text \<open>Ram drag, mass flow ratio and fuel-air ratio.\<close>

definition ram_drag :: "xeno \<Rightarrow> float32 \<Rightarrow> float32" where
  "ram_drag s grav = (let d = u0 s / grav in if engine s = 3 then d + u0 s * byprat s / grav else d)"

definition mass_flow :: "xeno \<Rightarrow> float32 \<Rightarrow> float32 option" where
  "mass_flow s mach2 =
     (if lit 0.01 < f2d (fsmach s)
      then do { m \<leftarrow> getAir mach2 (gama s); n \<leftarrow> getAir (fsmach s) (gama s); Some (m * prat s ! 2 / n) }
      else Some (flit 5))"

definition fuel_air :: "xeno \<Rightarrow> float32 \<Rightarrow> float32" where
  "fuel_air s eta4 =
     d2f ((f2d (trat s ! 4) - lit 1) / f2d (eta4 * fhv s / (getCp (tt s ! 3) * tt s ! 3) - trat s ! 4) +
       (f2d (trat s ! 7) - lit 1) / f2d (fhv s / (getCp (tt s ! 5) * tt s ! 15) - trat s ! 7))"

text \<open>Fuel consumption, thrust, fuel flow and impulse of a net thrust.\<close>

definition fuel :: "float32 \<Rightarrow> float32 \<Rightarrow> float32 \<Rightarrow> float32 \<times> float32 \<times> float32 \<times> float32" where
  "fuel ratio net lbs =
     (if lit 0 < f2d net
      then let sfc = d2f (lit 3600 * f2d ratio / f2d net);
               sfc = (if sfc < i2f 0 then flit 0 else sfc);
               flflo = sfc * lbs
           in (sfc, lbs, flflo, d2f (f2d (lbs / flflo) * lit 3600))
      else (flit 0, flit 0, flit 0, flit 0))"

text \<open>The weight of the engine.\<close>

definition engine_weight :: "xeno \<Rightarrow> float32 option" where
  "engine_weight s =
     (if engine s = 1 \<or> engine s = 2
      then do {
        r \<leftarrow> sqroot (acore s * acore s * acore s);
        Some (d2f ((if engine s = 1 then lit 0.12754 else lit 0.08533) * f2d r *
          f2d (dcomp s * lcomp s + dburner s * lburn s + dturbin s * lturb s + dnozl s * lnoz s))) }
      else if engine s = 3
      then do {
        r \<leftarrow> sqroot (d2f (f2d (acore s) / lit 6.965));
        Some (d2f (lit 0.08955 * f2d (acore s) *
          ((lit 1 + f2d (byprat s)) * f2d (dfan s) * lit 4 + f2d (dcomp s * (ncomp s - i2f 3)) + f2d (dburner s) +
           f2d (dturbin s * nturb s) + f2d (dburner s) * lit 2) * f2d r)) }
      else Some (weight s))"

definition calcPerf :: "xeno \<Rightarrow> xeno option" where
  "calcPerf s = do {
     let grav = flit 32.2;
     let es = perf_eta (eta s);
     p \<leftarrow> core_thrust s (es ! 7) grav;
     n \<leftarrow> (if engine s = 3 then fan_thrust s (es ! 7) grav (p_eair p) (p_fgros p)
        else Some \<lparr>n_m2 = p_m2 p, n_fgros = p_fgros p, n_ues = flit 0, n_snpr = snpr s, n_pfexit = pfexit s\<rparr>);
     let drag = ram_drag s grav;
     flow_ratio \<leftarrow> mass_flow s (n_m2 n);
     let net = n_fgros n - drag;
     let ratio = fuel_air s (es ! 4);
     let (consumption, lbs, flow, impulse) = fuel ratio net (net * p_eair p);
     w \<leftarrow> engine_weight s;
     Some (s\<lparr>g0 := grav, eta := es, pt := (pt s)[8 := p_pt8 p], eair := p_eair p, npr := p_npr p, uexit := p_uexit p, pexit := p_pexit p,
       m2 := n_m2 n, fgros := n_fgros n, ues := n_ues n, snpr := n_snpr n, pfexit := n_pfexit n, dram := drag, mfr := flow_ratio,
       fa := ratio, fnet := net, fnlb := lbs, fglb := n_fgros n * p_eair p, drlb := drag * p_eair p, sfc := consumption, flflo := flow,
       isp := impulse, weight := w\<rparr>) }"

section \<open>One reading\<close>

text \<open>
  What \<^verbatim>\<open>init_xeno\<close> does for one reading. The four tasks are threads of different priorities above that of their creator and never block: each runs to
  its end inside the \<^verbatim>\<open>rt_thread_startup\<close> that starts it, in the order of \<^verbatim>\<open>start_tasks\<close>.
\<close>

definition parse_inputs :: "float32 \<Rightarrow> float32 \<Rightarrow> float32 \<Rightarrow> xeno \<Rightarrow> xeno" where
  "parse_inputs acc baro gyro s = s\<lparr>u0d := acc, altd := baro, throtl := gyro\<rparr>"

definition run_tasks :: "xeno \<Rightarrow> xeno option" where
  "run_tasks s = do {
     s \<leftarrow> deduceInputs s;
     s \<leftarrow> getThermo s;
     s \<leftarrow> getGeo s;
     calcPerf s }"

definition results_of :: "xeno \<Rightarrow> float32 list" where
  "results_of s = [u0d s, altd s, throtl s, fsmach s, psout s, tsout s, fnlb s, fglb s, drlb s, flflo s, sfc s, eair s, weight s, fnlb s / weight s]"

text \<open>The loop over the readings: the array \<^verbatim>\<open>results\<close> after each of them. The measured values are the arrays \<^verbatim>\<open>acc_v\<close>, \<^verbatim>\<open>baro_v\<close> and \<^verbatim>\<open>gyro_v\<close>.\<close>

fun readings_loop :: "(float32 \<times> float32 \<times> float32) list \<Rightarrow> xeno \<Rightarrow> (xeno \<times> float32 list list) option" where
  "readings_loop [] s = Some (s, [])"
| "readings_loop ((acc, baro, gyro) # rs) s = do {
     s1 \<leftarrow> run_tasks (parse_inputs acc baro gyro s);
     (s2, res) \<leftarrow> readings_loop rs s1;
     Some (s2, results_of s1 # res) }"

definition init_xeno :: "int \<Rightarrow> (float32 \<times> float32 \<times> float32) list \<Rightarrow> xeno \<Rightarrow> (xeno \<times> float32 list list) option" where
  "init_xeno rand rs s = readings_loop rs (defaultParam (s\<lparr>engine := 1 + rand mod 3\<rparr>))"

text \<open>The variables when the program starts.\<close>

definition boot_xeno :: xeno where
  "boot_xeno = \<lparr>g0d = i2f 0, tt4d = i2f 0, tt7d = i2f 0, fhvd = i2f 0, u0min = i2f 0, u0max = i2f 0, altmin = i2f 0, altmax = i2f 0,
     thrmin = i2f 0, thrmax = i2f 0, etmin = i2f 0, etmax = i2f 0, cprmin = i2f 0, cprmax = i2f 0, bypmin = i2f 0,
     bypmax = i2f 0, fprmin = i2f 0, fprmax = i2f 0, t4min = i2f 0, t4max = i2f 0, t7min = i2f 0, t7max = i2f 0, pmax = i2f 0,
     tmin = i2f 0, tmax = i2f 0, engine = 0, g0 = i2f 0, gama = i2f 0, tref = i2f 0, abflag = i2f 0, tt4 = i2f 0, tt7 = i2f 0,
     p3p2d = i2f 0, p3fp2d = i2f 0, byprat = i2f 0, throtl = i2f 0, altd = i2f 0, u0d = i2f 0, fhv = i2f 0, acore = i2f 0,
     afan = i2f 0, a2 = i2f 0, arsched = i2f 0, dcomp = i2f 0, dburner = i2f 0, dturbin = i2f 0, dnozl = i2f 0, dfan = i2f 0,
     Rgas = i2f 0, alt = i2f 0, ts0 = i2f 0, ps0 = i2f 0, a0 = i2f 0, u0 = i2f 0, fsmach = i2f 0, q0 = i2f 0, rho0 = i2f 0,
     cpair = i2f 0, tsout = i2f 0, psout = i2f 0, a8 = i2f 0, a8d = i2f 0, a4 = i2f 0, a8max = i2f 0, a8rat = i2f 0,
     a4p = i2f 0, acap = i2f 0, lcomp = i2f 0, lburn = i2f 0, lturb = i2f 0, lnoz = i2f 0, ncomp = i2f 0, nturb = i2f 0,
     sblade = i2f 0, hblade = i2f 0, tblade = i2f 0, xcomp = i2f 0, ncompd = i2f 0, weight = i2f 0, m2 = i2f 0, mfr = i2f 0,
     isp = i2f 0, epr = i2f 0, etr = i2f 0, npr = i2f 0, snpr = i2f 0, fnet = i2f 0, fgros = i2f 0, dram = i2f 0, sfc = i2f 0,
     fa = i2f 0, eair = i2f 0, uexit = i2f 0, ues = i2f 0, fnlb = i2f 0, fglb = i2f 0, drlb = i2f 0, flflo = i2f 0,
     pexit = i2f 0, pfexit = i2f 0, trat = replicate 20 (i2f 0), tt = replicate 20 (i2f 0), prat = replicate 20 (i2f 0),
     pt = replicate 20 (i2f 0), eta = replicate 20 (i2f 0), gam = replicate 20 (i2f 0), cp = replicate 20 (i2f 0)\<rparr>"

end
