(* ===== verification/XenoRuns.thy ===== *)
theory XenoRuns
  imports XenoJet
begin

text \<open>
  The loop of the simulation over its readings (theory \<open>XenoJet\<close>): the arrays keep their size, and a reading does not influence the results of a later
  one, although all variables are global and keep their values from one reading to the next.
\<close>

section \<open>The arrays\<close>

text \<open>Every array has its 20 elements, so that every index in the code is inside.\<close>

definition stations_wf :: "stations \<Rightarrow> bool" where
  "stations_wf st \<longleftrightarrow> length (s_trat st) = 20 \<and> length (s_tt st) = 20 \<and> length (s_prat st) = 20 \<and> length (s_pt st) = 20 \<and>
     length (s_gam st) = 20 \<and> length (s_cp st) = 20"

definition xeno_wf :: "xeno \<Rightarrow> bool" where
  "xeno_wf s \<longleftrightarrow> stations_wf (stations_of s) \<and> length (eta s) = 20"

lemma length_assign_all [simp]: "length (assign_all as xs) = length xs"
  by (induction as xs rule: assign_all.induct) simp_all

lemma assign_wf [simp]: "stations_wf (assign a st) = stations_wf st"
  by (simp add: stations_wf_def assign_def)

lemma length_thermo_eta [simp]: "length (thermo_eta p es) = length es"
  by (simp add: thermo_eta_def Let_def)

lemma length_perf_eta [simp]: "length (perf_eta es) = length es"
  by (simp add: perf_eta_def Let_def)

lemma thermo_core_wf: "thermo_core s es st = Some st' \<Longrightarrow> stations_wf st' = stations_wf st"
  by (auto simp: thermo_core_def split: if_splits bind_splits)

lemma deduceInputs_wf: "deduceInputs s = Some s' \<Longrightarrow> xeno_wf s' = xeno_wf s"
  by (auto simp: deduceInputs_def xeno_wf_def stations_wf_def stations_of_def Let_def split: bind_splits)

lemma getThermo_wf: "getThermo s = Some s' \<Longrightarrow> xeno_wf s' = xeno_wf s"
  by (auto simp: getThermo_def xeno_wf_def stations_of_def stations_wf_def assign_def Let_def split: bind_splits dest!: thermo_core_wf)

lemma getGeo_wf: "getGeo s = Some s' \<Longrightarrow> xeno_wf s' = xeno_wf s"
  by (auto simp: getGeo_def xeno_wf_def stations_of_def Let_def split: bind_splits)

lemma calcPerf_wf: "calcPerf s = Some s' \<Longrightarrow> xeno_wf s' = xeno_wf s"
  by (auto simp: calcPerf_def xeno_wf_def stations_wf_def stations_of_def Let_def split: bind_splits prod.splits)

lemma run_tasks_wf: "run_tasks s = Some s' \<Longrightarrow> xeno_wf s' = xeno_wf s"
  using deduceInputs_wf getThermo_wf getGeo_wf calcPerf_wf by (auto simp: run_tasks_def split: bind_splits)
section \<open>Agreement on the elements that matter\<close>

text \<open>The stations of two runs agree on a set of elements.\<close>

datatype arr = Trat | Tt | Prat | Pt | Gam | Cp

fun arr_of :: "arr \<Rightarrow> stations \<Rightarrow> float32 list" where
  "arr_of Trat st = s_trat st"
| "arr_of Tt st = s_tt st"
| "arr_of Prat st = s_prat st"
| "arr_of Pt st = s_pt st"
| "arr_of Gam st = s_gam st"
| "arr_of Cp st = s_cp st"

fun assigned :: "arr \<Rightarrow> assigns \<Rightarrow> (nat \<times> float32) list" where
  "assigned Trat a = a_trat a"
| "assigned Tt a = a_tt a"
| "assigned Prat a = a_prat a"
| "assigned Pt a = a_pt a"
| "assigned Gam a = a_gam a"
| "assigned Cp a = a_cp a"

definition agree :: "(arr \<Rightarrow> nat set) \<Rightarrow> stations \<Rightarrow> stations \<Rightarrow> bool" where
  "agree K st st' \<longleftrightarrow> stations_wf st \<and> stations_wf st' \<and> (\<forall>r. \<forall>k\<in>K r. arr_of r st ! k = arr_of r st' ! k)"

definition keys :: "arr \<Rightarrow> assigns \<Rightarrow> nat set" where
  "keys r a = fst ` set (assigned r a)"

lemma arr_of_assign [simp]: "arr_of r (assign a st) = assign_all (assigned r a) (arr_of r st)"
  by (cases r) (simp_all add: assign_def)

lemma length_arr_of: "stations_wf st \<Longrightarrow> length (arr_of r st) = 20"
  by (cases r) (simp_all add: stations_wf_def)

lemma assign_all_agree:
  assumes "length xs = length ys" and "k \<in> fst ` set as \<and> k < length xs \<or> xs ! k = ys ! k"
  shows "assign_all as xs ! k = assign_all as ys ! k"
  using assms
proof (induction as xs arbitrary: ys rule: assign_all.induct)
  case (2 i v as xs)
  have "k \<in> fst ` set as \<and> k < length (xs[i := v]) \<or> xs[i := v] ! k = ys[i := v] ! k"
    using 2(2,3) by (cases "k = i"; cases "i < length xs") (auto simp: list_update_beyond)
  then show ?case using 2(1) [of "ys[i := v]"] 2(2) by simp
qed simp

lemma assign_all_other: "k \<notin> fst ` set as \<Longrightarrow> assign_all as xs ! k = xs ! k"
  by (induction as xs rule: assign_all.induct) auto

lemma agree_assign:
  assumes "agree K st st'" and "\<And>r. keys r a \<subseteq> {..<20}"
  shows "agree (\<lambda>r. K r \<union> keys r a) (assign a st) (assign a st')"
proof -
  have wf: "stations_wf st" "stations_wf st'" using assms(1) by (simp_all add: agree_def)
  have "assign_all (assigned r a) (arr_of r st) ! k = assign_all (assigned r a) (arr_of r st') ! k" if "k \<in> K r \<union> keys r a" for r k
    using assms that by (intro assign_all_agree) (auto simp: agree_def keys_def length_arr_of [OF wf(1)] length_arr_of [OF wf(2)] subset_iff)
  then show ?thesis using wf by (simp add: agree_def)
qed

lemma agree_mono: "agree K st st' \<Longrightarrow> (\<And>r. L r \<subseteq> K r) \<Longrightarrow> agree L st st'"
  by (auto simp: agree_def subset_iff)

lemma agreeD: "agree K st st' \<Longrightarrow> k \<in> K r \<Longrightarrow> arr_of r st ! k = arr_of r st' ! k"
  by (simp add: agree_def)

text \<open>The elements each part assigns; what it assigns does not matter here.\<close>

lemma LetE: "(let x = t in f x) = y \<Longrightarrow> (\<And>x. f x = y \<Longrightarrow> P) \<Longrightarrow> P"
  by (simp add: Let_def)

lemma bindE: "Option.bind m f = Some y \<Longrightarrow> (\<And>x. f x = Some y \<Longrightarrow> P) \<Longrightarrow> P"
  by (auto simp: bind_eq_Some_conv)

lemma inlet_keys:
  assumes "inlet m t p = Some (q, a)"
  shows "keys r a = (case r of Trat \<Rightarrow> {7} | Tt \<Rightarrow> {1, 2} | Prat \<Rightarrow> {2, 7} | Pt \<Rightarrow> {1, 2} | Gam \<Rightarrow> {2} | Cp \<Rightarrow> {2})"
  using assms by (cases r) (auto simp: keys_def inlet_def split: bind_splits if_splits)

lemma turbojet_keys:
  assumes "turbojet s e3 e5 st = Some a"
  shows "keys r a = (if r = Prat then {3, 5, 13, 15} else {3, 4, 5, 13, 15})"
  using assms unfolding turbojet_def by (elim LetE bindE) (cases r; auto simp: keys_def)

lemma turbofan_keys:
  assumes "turbofan s e3 e5 e13 st = Some a"
  shows "keys r a = (if r = Prat then {3, 5, 13, 15} else {3, 4, 5, 13, 15})"
  using assms unfolding turbofan_def by (elim LetE bindE) (cases r; auto simp: keys_def)

lemma nozzle_keys:
  assumes "nozzle s st = Some a"
  shows "keys r a = {6, 7}"
  using assms unfolding nozzle_def by (elim LetE bindE) (cases r; auto simp: keys_def split: prod.splits elim!: LetE)
section \<open>Readings do not influence each other\<close>

text \<open>What the tasks read and no task changes, once the protective assignments have nothing to do.\<close>

definition settings :: "xeno \<Rightarrow> xeno_param \<times> float32 list" where
  "settings s = (xeno_param.truncate s, [prat s ! 4, eta s ! 3, eta s ! 4, eta s ! 5, eta s ! 7, eta s ! 13])"

definition steady :: "xeno \<Rightarrow> bool" where
  "steady s \<longleftrightarrow> xeno_wf s \<and> engine s \<in> {1, 2, 3} \<and> \<not> afan s < acore s \<and> g0 s = flit 32.2 \<and> \<not> i2f 0 < abflag s \<and> float_eq (arsched s) (i2f 0) \<and>
     at_least_half (eta s ! 3) = eta s ! 3 \<and> at_least_half (eta s ! 5) = eta s ! 5 \<and> \<not> f2d (eta s ! 4) < lit 0.8 \<and> \<not> f2d (eta s ! 7) < lit 0.8"

text \<open>Two states from which the next task computes the same.\<close>

definition rel0 :: "xeno \<Rightarrow> xeno \<Rightarrow> bool" where
  "rel0 s s' \<longleftrightarrow> steady s \<and> steady s' \<and> settings s = settings s'"

definition rel1 :: "xeno \<Rightarrow> xeno \<Rightarrow> bool" where
  "rel1 s s' \<longleftrightarrow> rel0 s s' \<and> Rgas s = Rgas s' \<and> ts0 s = ts0 s' \<and> ps0 s = ps0 s' \<and> u0 s = u0 s' \<and> fsmach s = fsmach s' \<and> tsout s = tsout s' \<and>
     psout s = psout s' \<and> tt s ! 0 = tt s' ! 0 \<and> pt s ! 0 = pt s' ! 0"

fun needed :: "arr \<Rightarrow> nat set" where
  "needed Trat = {4, 5, 7, 15}"
| "needed Tt = {0, 3, 5, 13, 15}"
| "needed Prat = {2, 5, 7, 15}"
| "needed Pt = {0, 13}"
| "needed r = {}"

definition rel2 :: "xeno \<Rightarrow> xeno \<Rightarrow> bool" where
  "rel2 s s' \<longleftrightarrow> rel1 s s' \<and> agree needed (stations_of s) (stations_of s') \<and> epr s = epr s' \<and> etr s = etr s'"

definition rel3 :: "xeno \<Rightarrow> xeno \<Rightarrow> bool" where
  "rel3 s s' \<longleftrightarrow> rel2 s s' \<and> a8 s = a8 s' \<and> ncomp s = ncomp s' \<and> nturb s = nturb s' \<and> lcomp s = lcomp s' \<and> lburn s = lburn s' \<and>
     lturb s = lturb s' \<and> lnoz s = lnoz s'"

lemma settingsD:
  assumes "settings s = settings s'"
  shows "engine s = engine s'" "gama s = gama s'" "tt4 s = tt4 s'" "tt7 s = tt7 s'" "p3p2d s = p3p2d s'" "p3fp2d s = p3fp2d s'" "byprat s = byprat s'"
    "throtl s = throtl s'" "altd s = altd s'" "u0d s = u0d s'" "fhv s = fhv s'" "acore s = acore s'" "afan s = afan s'" "a2 s = a2 s'"
    "dcomp s = dcomp s'" "dburner s = dburner s'" "dturbin s = dturbin s'" "dnozl s = dnozl s'" "dfan s = dfan s'" "prat s ! 4 = prat s' ! 4"
    "eta s ! 3 = eta s' ! 3" "eta s ! 4 = eta s' ! 4" "eta s ! 5 = eta s' ! 5" "eta s ! 7 = eta s' ! 7" "eta s ! 13 = eta s' ! 13"
  using assms by (simp_all add: settings_def xeno_param.truncate_def)

lemma lit_not_nan: "\<bar>c\<bar> \<le> 2 ^ 200 \<Longrightarrow> f64 (lit c) \<noteq> NaN"
  using lit_val(1) [of c] by (auto simp: dfin_def is_fin_def)

lemma double_total: "f64 a \<noteq> NaN \<Longrightarrow> f64 b \<noteq> NaN \<Longrightarrow> a < b \<or> b \<le> a" for a b :: float64
  by (cases "f64 a"; cases "f64 b") (auto simp: float64_ops flt_def feq_def is_inf_def)

text \<open>At every altitude that is a number, the air does not depend on the old values.\<close>

lemma atmosphere_fresh:
  assumes "f32 h \<noteq> NaN"
  shows "atmosphere h ts ps = atmosphere h ts' ps'"
proof -
  have n: "f64 (f2d h) \<noteq> NaN" "f64 (lit 36152) \<noteq> NaN" "f64 (lit 82345) \<noteq> NaN" using assms by (simp_all add: f2d_def lit_not_nan)
  have "f2d h < lit 36152 \<or> lit 36152 \<le> f2d h" "f2d h \<le> lit 82345 \<or> lit 82345 \<le> f2d h"
    using double_total [OF n(1,2)] double_total [OF n(3,1)] by (auto simp: float64_ops)
  then show ?thesis by (auto simp: atmosphere_def)
qed

lemma rel0D:
  assumes "rel0 s s'"
  shows "steady s" "steady s'" "xeno_wf s" "xeno_wf s'" "settings s = settings s'"
  using assms by (simp_all add: rel0_def steady_def)

lemma flight_conditions_fresh: "f32 h \<noteq> NaN \<Longrightarrow> flight_conditions h v g ts ps = flight_conditions h v g ts' ps'"
  unfolding flight_conditions_def by (subst atmosphere_fresh [of h ts ps ts' ps']) simp_all

text \<open>A task leaves the settings alone.\<close>

lemma deduceInputs_steady: "deduceInputs s = Some t \<Longrightarrow> settings t = settings s \<and> (steady s \<longrightarrow> steady t)"
  using deduceInputs_wf [of s t] by (auto simp: deduceInputs_def settings_def steady_def xeno_param.truncate_def split: bind_splits)

lemma deduceInputs_related:
  assumes r: "rel0 s s'" and n: "f32 (altd s) \<noteq> NaN" and d: "deduceInputs s = Some t"
  obtains t' where "deduceInputs s' = Some t'" "rel1 t t'"
proof -
  note wf = rel0D [OF r] and e = settingsD [OF rel0D(5) [OF r]]
  obtain f where f: "flight_conditions (altd s) (u0d s) (gama s) (ts0 s) (ps0 s) = Some f" using d by (auto simp: deduceInputs_def split: bind_splits)
  then have f': "flight_conditions (altd s') (u0d s') (gama s') (ts0 s') (ps0 s') = Some f" using flight_conditions_fresh [OF n] e(2,9,10) by metis
  then obtain t' where t': "deduceInputs s' = Some t'" by (simp add: deduceInputs_def)
  have "rel0 t t'" using deduceInputs_steady [OF d] deduceInputs_steady [OF t'] wf by (simp add: rel0_def)
  moreover have "length (tt s) = 20" "length (pt s) = 20" "length (tt s') = 20" "length (pt s') = 20"
    using wf(3,4) by (simp_all add: xeno_wf_def stations_wf_def stations_of_def)
  moreover have "t = s\<lparr>Rgas := flit 1718, alt := altd s, ts0 := f_ts0 f, ps0 := f_ps0 f, a0 := f_a0 f, u0 := f_u0 f, fsmach := f_fsmach f, q0 := f_q0 f,
       rho0 := f_rho0 f, tt := (tt s)[0 := f_tt0 f], pt := (pt s)[0 := f_pt0 f], cpair := getCp (f_tt0 f),
       tsout := d2f (f2d (f_ts0 f) - lit 459.6), psout := f_ps0 f\<rparr>" using d f by (simp add: deduceInputs_def)
  ultimately have "rel1 t t'" using t' f' unfolding rel1_def by (auto simp: deduceInputs_def)
  then show thesis by (rule that [OF t'])
qed
text \<open>The parts of \<^verbatim>\<open>getThermo\<close>.\<close>

lemma thermo_parts:
  assumes "getThermo s = Some u"
  obtains p a st b where "inlet (fsmach s) (tt s ! 0) (pt s ! 0) = Some (p, a)"
    "thermo_core s (thermo_eta p (eta s)) (assign a (stations_of s)) = Some st" "nozzle s st = Some b" "stations_of u = assign b st"
    "eta u = thermo_eta p (eta s)" "xeno_flight.truncate u = xeno_flight.truncate s"
    "epr u = prat u ! 7 * prat u ! 15 * prat u ! 5 * prat u ! 4 * prat u ! 3 * prat u ! 13"
    "etr u = trat u ! 7 * trat u ! 15 * trat u ! 5 * trat u ! 4 * trat u ! 3 * trat u ! 13"
  using assms that by (auto simp: getThermo_def stations_of_def assign_def xeno_flight.truncate_def Let_def split: bind_splits)

text \<open>What the core reads of the stations behind the inlet, and what is known behind the core.\<close>

fun behind_inlet :: "arr \<Rightarrow> nat set" where
  "behind_inlet Trat = {7}"
| "behind_inlet Tt = {0, 2}"
| "behind_inlet Prat = {2, 4, 7}"
| "behind_inlet Pt = {0, 2}"
| "behind_inlet r = {2}"

fun behind_core :: "arr \<Rightarrow> nat set" where
  "behind_core Trat = {3, 4, 5, 7, 13, 15}"
| "behind_core Tt = {0, 3, 5, 13, 15}"
| "behind_core Prat = {2, 3, 4, 5, 7, 13, 15}"
| "behind_core Pt = {0, 13, 15}"
| "behind_core r = {5}"

lemma turbojet_related:
  assumes "agree behind_inlet st st'" and "settings s = settings s'"
  shows "turbojet s e3 e5 st = turbojet s' e3 e5 st'" and "turbofan s e3 e5 e13 st = turbofan s' e3 e5 e13 st'"
proof -
  note k = agreeD [OF assms(1), of 2 Tt] agreeD [OF assms(1), of 2 Pt] agreeD [OF assms(1), of 2 Gam] agreeD [OF assms(1), of 2 Cp] agreeD [OF assms(1), of 4 Prat]
  have e: "s_tt st ! 2 = s_tt st' ! 2" "s_pt st ! 2 = s_pt st' ! 2" "s_gam st ! 2 = s_gam st' ! 2" "s_cp st ! 2 = s_cp st' ! 2" "s_prat st ! 4 = s_prat st' ! 4"
    using k by simp_all
  show "turbojet s e3 e5 st = turbojet s' e3 e5 st'" "turbofan s e3 e5 e13 st = turbofan s' e3 e5 e13 st'"
    by (simp_all only: turbojet_def turbofan_def e settingsD [OF assms(2)])
qed

lemma core_assigns:
  assumes "agree behind_inlet st st'" and "\<And>r. keys r a = (if r = Prat then {3, 5, 13, 15} else {3, 4, 5, 13, 15})"
  shows "agree behind_core (assign a st) (assign a st')"
proof (rule agree_mono [OF agree_assign [OF assms(1)]])
  show "keys r a \<subseteq> {..<20}" for r using assms(2) [of r] by auto
  show "behind_core r \<subseteq> behind_inlet r \<union> keys r a" for r using assms(2) [of r] by (cases r) auto
qed

lemma thermo_core_related:
  assumes ag: "agree behind_inlet st st'" and se: "settings s = settings s'" and eng: "engine s \<in> {1, 2, 3}"
    and es: "es ! 3 = es' ! 3" "es ! 5 = es' ! 5" "es ! 13 = es' ! 13" and c: "thermo_core s es st = Some st2"
  obtains st2' where "thermo_core s' es' st' = Some st2'" "agree behind_core st2 st2'"
proof (cases "engine s \<le> 2")
  case True
  then obtain a where a: "turbojet s (es ! 3) (es ! 5) st = Some a" "st2 = assign a st" using c by (auto simp: thermo_core_def split: bind_splits)
  then have "thermo_core s' es' st' = Some (assign a st')"
    using True turbojet_related(1) [OF ag se] settingsD(1) [OF se] es by (simp add: thermo_core_def)
  then show thesis using that core_assigns [OF ag turbojet_keys [OF a(1)]] a(2) by blast
next
  case False
  then have e3: "engine s = 3" using eng by simp
  then obtain a where a: "turbofan s (es ! 3) (es ! 5) (es ! 13) st = Some a" "st2 = assign a st" using c by (auto simp: thermo_core_def split: bind_splits)
  then have "thermo_core s' es' st' = Some (assign a st')"
    using e3 turbojet_related(2) [OF ag se] settingsD(1) [OF se] es by (simp add: thermo_core_def)
  then show thesis using that core_assigns [OF ag turbofan_keys [OF a(1)]] a(2) by blast
qed

lemma nozzle_related:
  assumes ag: "agree behind_core st st'" and se: "settings s = settings s'" and ab: "\<not> i2f 0 < abflag s" "\<not> i2f 0 < abflag s'"
    and b: "nozzle s st = Some b"
  shows "nozzle s' st' = Some b" "agree behind_core (assign b st) (assign b st')"
proof -
  note k = agreeD [OF ag, of 15 Pt] agreeD [OF ag, of 15 Tt] agreeD [OF ag, of 7 Trat] agreeD [OF ag, of 7 Prat] agreeD [OF ag, of 5 Gam]
  have e: "s_pt st ! 15 = s_pt st' ! 15" "s_tt st ! 15 = s_tt st' ! 15" "s_trat st ! 7 = s_trat st' ! 7" "s_prat st ! 7 = s_prat st' ! 7" "s_gam st ! 5 = s_gam st' ! 5"
    using k by simp_all
  have "nozzle s st = nozzle s' st'" by (simp only: nozzle_def ab if_False e settingsD(4) [OF se])
  then show "nozzle s' st' = Some b" using b by simp
  show "agree behind_core (assign b st) (assign b st')"
    by (rule agree_mono [OF agree_assign [OF ag]]) (use nozzle_keys [OF b] in auto)
qed

lemma thermo_eta_nth: "length es = 20 \<Longrightarrow> thermo_eta p es ! 3 = at_least_half (es ! 3)" "length es = 20 \<Longrightarrow> thermo_eta p es ! 5 = at_least_half (es ! 5)"
  "thermo_eta p es ! 4 = es ! 4" "thermo_eta p es ! 7 = es ! 7" "thermo_eta p es ! 13 = es ! 13"
  by (simp_all add: thermo_eta_def Let_def)

lemma thermo_prat4:
  assumes "inlet m t q = Some (p, a)" and "thermo_core s es (assign a st) = Some st2" and "nozzle s st2 = Some b"
  shows "s_prat (assign b st2) ! 4 = s_prat st ! 4"
proof -
  have other: "s_prat (assign c y) ! 4 = s_prat y ! 4" if "4 \<notin> keys Prat c" for c y
    using assign_all_other [of 4 "a_prat c" "s_prat y"] that by (simp add: assign_def keys_def)
  have "s_prat st2 ! 4 = s_prat (assign a st) ! 4"
    using assms(2) other turbojet_keys turbofan_keys by (fastforce simp: thermo_core_def split: if_splits bind_splits)
  then show ?thesis using other [of b st2] other [of a st] nozzle_keys [OF assms(3)] inlet_keys [OF assms(1)] by simp
qed
text \<open>The fields of \<open>xeno_flight\<close>, and with them the settings, survive \<^verbatim>\<open>getThermo\<close>.\<close>

lemma flight_fieldsD:
  assumes "xeno_flight.truncate u = xeno_flight.truncate s"
  shows "xeno_param.truncate u = xeno_param.truncate s" "Rgas u = Rgas s" "ts0 u = ts0 s" "ps0 u = ps0 s" "u0 u = u0 s" "fsmach u = fsmach s"
    "tsout u = tsout s" "psout u = psout s"
  using assms by (simp_all add: xeno_flight.truncate_def xeno_param.truncate_def)

lemma param_fieldsD:
  assumes "xeno_param.truncate u = xeno_param.truncate s"
  shows "engine u = engine s" "afan u = afan s" "acore u = acore s" "g0 u = g0 s" "abflag u = abflag s" "arsched u = arsched s"
  using assms by (simp_all add: xeno_param.truncate_def)

lemma getThermo_steady:
  assumes "steady s" and t: "getThermo s = Some u"
  shows "settings u = settings s" "steady u"
proof -
  obtain p a st b where u: "inlet (fsmach s) (tt s ! 0) (pt s ! 0) = Some (p, a)"
    "thermo_core s (thermo_eta p (eta s)) (assign a (stations_of s)) = Some st" "nozzle s st = Some b" "stations_of u = assign b st"
    "eta u = thermo_eta p (eta s)" "xeno_flight.truncate u = xeno_flight.truncate s"
    by (rule thermo_parts [OF t])
  have "length (eta s) = 20" using assms(1) by (simp add: steady_def xeno_wf_def)
  then have e: "eta u ! 3 = eta s ! 3" "eta u ! 4 = eta s ! 4" "eta u ! 5 = eta s ! 5" "eta u ! 7 = eta s ! 7" "eta u ! 13 = eta s ! 13"
    using assms(1) by (simp_all add: u(5) thermo_eta_nth steady_def)
  have "s_prat (stations_of u) ! 4 = s_prat (stations_of s) ! 4" using thermo_prat4 [OF u(1-3)] u(4) by simp
  then have "prat u ! 4 = prat s ! 4" by (simp add: stations_of_def)
  then show "settings u = settings s" using e flight_fieldsD(1) [OF u(6)] by (simp add: settings_def)
  show "steady u" using assms(1) getThermo_wf [OF t] e param_fieldsD [OF flight_fieldsD(1) [OF u(6)]] by (simp add: steady_def)
qed

lemma needed_core: "needed r \<subseteq> behind_core r"
  by (cases r) auto

lemma getThermo_related:
  assumes r: "rel1 s s'" and t: "getThermo s = Some u"
  obtains u' where "getThermo s' = Some u'" "rel2 u u'"
proof -
  have r0: "rel0 s s'" using r by (simp add: rel1_def)
  note d = rel0D [OF r0] and se = rel0D(5) [OF r0]
  obtain p a st b where u: "inlet (fsmach s) (tt s ! 0) (pt s ! 0) = Some (p, a)"
    "thermo_core s (thermo_eta p (eta s)) (assign a (stations_of s)) = Some st" "nozzle s st = Some b" "stations_of u = assign b st"
    "eta u = thermo_eta p (eta s)" "xeno_flight.truncate u = xeno_flight.truncate s"
    "epr u = prat u ! 7 * prat u ! 15 * prat u ! 5 * prat u ! 4 * prat u ! 3 * prat u ! 13"
    "etr u = trat u ! 7 * trat u ! 15 * trat u ! 5 * trat u ! 4 * trat u ! 3 * trat u ! 13"
    by (rule thermo_parts [OF t])
  have i: "inlet (fsmach s') (tt s' ! 0) (pt s' ! 0) = Some (p, a)" using u(1) r by (simp add: rel1_def)
  have "agree (\<lambda>r. case r of Tt \<Rightarrow> {0} | Pt \<Rightarrow> {0} | Prat \<Rightarrow> {4} | _ \<Rightarrow> {}) (stations_of s) (stations_of s')"
    using r d(3,4) settingsD(20) [OF se] by (auto simp: agree_def rel1_def xeno_wf_def stations_of_def split: arr.splits)
  from agree_assign [OF this, of a] have ag: "agree behind_inlet (assign a (stations_of s)) (assign a (stations_of s'))"
    by (rule agree_mono) (auto simp: inlet_keys [OF u(1)] split: arr.splits elim!: behind_inlet.elims)
  have len: "length (eta s) = 20" "length (eta s') = 20" using d(3,4) by (simp_all add: xeno_wf_def)
  have eng: "engine s \<in> {1, 2, 3}" "\<not> i2f 0 < abflag s" "\<not> i2f 0 < abflag s'" using d(1,2) by (simp_all add: steady_def)
  obtain st' where st': "thermo_core s' (thermo_eta p (eta s')) (assign a (stations_of s')) = Some st'" "agree behind_core st st'"
    by (rule thermo_core_related [where es' = "thermo_eta p (eta s')", OF ag se eng(1) _ _ _ u(2)]) (simp_all add: thermo_eta_nth len settingsD [OF se])
  note nz = nozzle_related [OF st'(2) se eng(2,3) u(3)]
  obtain u' where u': "getThermo s' = Some u'" using i st'(1) nz(1) by (simp add: getThermo_def Let_def)
  obtain v' where v': "stations_of u' = assign b st'" "xeno_flight.truncate u' = xeno_flight.truncate s'"
    "epr u' = prat u' ! 7 * prat u' ! 15 * prat u' ! 5 * prat u' ! 4 * prat u' ! 3 * prat u' ! 13"
    "etr u' = trat u' ! 7 * trat u' ! 15 * trat u' ! 5 * trat u' ! 4 * trat u' ! 3 * trat u' ! 13"
    by (rule thermo_parts [OF u']) (use i st'(1) nz(1) in auto)
  have agu: "agree behind_core (stations_of u) (stations_of u')" using nz(2) u(4) v'(1) by simp
  have pr: "prat u ! k = prat u' ! k" "trat u ! k = trat u' ! k" if "k \<in> {3, 4, 5, 7, 13, 15}" for k
    using agreeD [OF agu, of k Prat] agreeD [OF agu, of k Trat] that by (auto simp: stations_of_def)
  have "rel0 u u'" using getThermo_steady [OF d(1) t] getThermo_steady [OF d(2) u'] se by (simp add: rel0_def)
  moreover have "tt u ! 0 = tt u' ! 0" "pt u ! 0 = pt u' ! 0" using agreeD [OF agu, of 0 Tt] agreeD [OF agu, of 0 Pt] by (simp_all add: stations_of_def)
  ultimately have "rel1 u u'" using r flight_fieldsD [OF u(6)] flight_fieldsD [OF v'(2)] by (simp add: rel1_def)
  moreover have "agree needed (stations_of u) (stations_of u')" by (rule agree_mono [OF agu needed_core])
  ultimately have "rel2 u u'" unfolding rel2_def using u(7,8) v'(3,4) pr by simp
  then show thesis by (rule that [OF u'])
qed
lemma rel2D:
  assumes "rel2 s s'"
  shows "trat s ! 4 = trat s' ! 4" "trat s ! 5 = trat s' ! 5" "trat s ! 7 = trat s' ! 7" "trat s ! 15 = trat s' ! 15"
    "prat s ! 2 = prat s' ! 2" "prat s ! 5 = prat s' ! 5" "prat s ! 7 = prat s' ! 7" "prat s ! 15 = prat s' ! 15"
    "tt s ! 0 = tt s' ! 0" "tt s ! 3 = tt s' ! 3" "tt s ! 5 = tt s' ! 5" "tt s ! 13 = tt s' ! 13" "tt s ! 15 = tt s' ! 15"
    "pt s ! 0 = pt s' ! 0" "pt s ! 13 = pt s' ! 13" "epr s = epr s'" "etr s = etr s'"
proof -
  have ag: "agree needed (stations_of s) (stations_of s')" and e: "epr s = epr s'" "etr s = etr s'" using assms by (simp_all add: rel2_def)
  have "\<forall>k\<in>{4, 5, 7, 15}. trat s ! k = trat s' ! k" "\<forall>k\<in>{2, 5, 7, 15}. prat s ! k = prat s' ! k"
    "\<forall>k\<in>{0, 3, 5, 13, 15}. tt s ! k = tt s' ! k" "\<forall>k\<in>{0, 13}. pt s ! k = pt s' ! k"
    using agreeD [OF ag, of _ Trat] agreeD [OF ag, of _ Prat] agreeD [OF ag, of _ Tt] agreeD [OF ag, of _ Pt] by (simp_all add: stations_of_def)
  with e show "trat s ! 4 = trat s' ! 4" "trat s ! 5 = trat s' ! 5" "trat s ! 7 = trat s' ! 7" "trat s ! 15 = trat s' ! 15"
    "prat s ! 2 = prat s' ! 2" "prat s ! 5 = prat s' ! 5" "prat s ! 7 = prat s' ! 7" "prat s ! 15 = prat s' ! 15"
    "tt s ! 0 = tt s' ! 0" "tt s ! 3 = tt s' ! 3" "tt s ! 5 = tt s' ! 5" "tt s ! 13 = tt s' ! 13" "tt s ! 15 = tt s' ! 15"
    "pt s ! 0 = pt s' ! 0" "pt s ! 13 = pt s' ! 13" "epr s = epr s'" "etr s = etr s'" by simp_all
qed

lemma getGeo_steady:
  assumes s: "steady s" and g: "getGeo s = Some u"
  shows "settings u = settings s" "steady u"
proof -
  obtain a where a: "flow_areas s = Some a" using g by (auto simp: getGeo_def split: bind_splits)
  then have "g_afan a = afan s" using s by (auto simp: flow_areas_def steady_def Let_def split: bind_splits)
  then have "settings u = settings s \<and> steady u" using a g s getGeo_wf [OF g]
    by (auto simp: getGeo_def settings_def steady_def xeno_param.truncate_def split: bind_splits)
  then show "settings u = settings s" "steady u" by simp_all
qed

lemma getGeo_related:
  assumes r: "rel2 s s'" and t: "getGeo s = Some u"
  obtains u' where "getGeo s' = Some u'" "rel3 u u'"
proof -
  have r0: "rel0 s s'" using r by (simp add: rel2_def rel1_def)
  note d = rel0D [OF r0] and e = settingsD [OF rel0D(5) [OF r0]] and k = rel2D [OF r]
  have st: "float_eq (arsched s) (i2f 0)" "float_eq (arsched s') (i2f 0)" "\<not> afan s < acore s" "\<not> afan s' < acore s'" using d(1,2) by (simp_all add: steady_def)
  have fl: "flow_areas s = flow_areas s'" by (simp only: flow_areas_def st if_True if_False k e)
  obtain g z where gz: "flow_areas s = Some g" "blade_sizes (engine s) (p3p2d s) = Some z" using t by (auto simp: getGeo_def split: bind_splits)
  obtain u' where u': "getGeo s' = Some u'" using gz fl e by (simp add: getGeo_def)
  have "rel0 u u'" using getGeo_steady [OF d(1) t] getGeo_steady [OF d(2) u'] d(5) by (simp add: rel0_def)
  then have "rel3 u u'" using r t u' gz fl e
    by (auto simp: getGeo_def rel3_def rel2_def rel1_def stations_of_def)
  then show thesis by (rule that [OF u'])
qed

text \<open>\<^verbatim>\<open>calcPerf\<close> computes the results from what the other tasks left, whatever the variables it assigns were before.\<close>

lemma thrust_related:
  assumes "rel3 s s'"
  shows "core_thrust s e g = core_thrust s' e g" "fan_thrust s e g = fan_thrust s' e g" "ram_drag s g = ram_drag s' g" "mass_flow s = mass_flow s'"
    "fuel_air s = fuel_air s'" "engine_weight s = engine_weight s'"
proof -
  have r: "rel2 s s'" "rel1 s s'" "settings s = settings s'" using assms by (simp_all add: rel3_def rel2_def rel1_def rel0_def)
  have eng: "engine s' \<in> {1, 2, 3}" using rel0D(2) [of s s'] assms by (simp add: rel3_def rel2_def rel1_def steady_def)
  have k3: "a8 s = a8 s'" "ncomp s = ncomp s'" "nturb s = nturb s'" "lcomp s = lcomp s'" "lburn s = lburn s'" "lturb s = lturb s'" "lnoz s = lnoz s'"
    using assms by (simp_all add: rel3_def)
  have k1: "Rgas s = Rgas s'" "ps0 s = ps0 s'" "u0 s = u0 s'" "fsmach s = fsmach s'" using r(2) by (simp_all add: rel1_def)
  note k = rel2D [OF r(1)] settingsD [OF r(3)] k1 k3
  show "core_thrust s e g = core_thrust s' e g" by (simp only: core_thrust_def k)
  show "fan_thrust s e g = fan_thrust s' e g" by (rule ext, rule ext) (simp only: fan_thrust_def k)
  show "ram_drag s g = ram_drag s' g" by (simp only: ram_drag_def k)
  show "mass_flow s = mass_flow s'" "fuel_air s = fuel_air s'" by (rule ext, simp only: mass_flow_def fuel_air_def k)+
  show "engine_weight s = engine_weight s'" using eng unfolding engine_weight_def k by auto
qed

lemma perf_eta_steady: "steady s \<Longrightarrow> perf_eta (eta s) = eta s"
  by (simp add: perf_eta_def steady_def Let_def)

lemma calcPerf_steady:
  assumes "steady s" and "calcPerf s = Some u"
  shows "settings u = settings s" "steady u"
proof -
  have "settings u = settings s \<and> (xeno_wf u \<longrightarrow> steady u)" using assms
    by (auto simp: calcPerf_def perf_eta_steady settings_def steady_def xeno_param.truncate_def Let_def split: bind_splits prod.splits)
  then show "settings u = settings s" "steady u" using calcPerf_wf [OF assms(2)] assms(1) by (simp_all add: steady_def)
qed

lemma calcPerf_related:
  assumes r: "rel3 s s'" and c: "calcPerf s = Some u"
  obtains u' where "calcPerf s' = Some u'" "rel0 u u'" "results_of u' = results_of u"
proof -
  have r1: "rel1 s s'" "rel0 s s'" using r by (simp_all add: rel3_def rel2_def rel1_def)
  note d = rel0D [OF r1(2)] and e = settingsD [OF rel0D(5) [OF r1(2)]] and th = thrust_related [OF r]
  have v: "fsmach s = fsmach s'" "psout s = psout s'" "tsout s = tsout s'" using r1(1) by (simp_all add: rel1_def)
  have "\<exists>u'. calcPerf s' = Some u' \<and> results_of u' = results_of u"
    using c unfolding calcPerf_def perf_eta_steady [OF d(1)] perf_eta_steady [OF d(2)] th e
    by (auto simp: results_of_def v e Let_def split: bind_splits prod.splits if_splits)
  then obtain u' where u': "calcPerf s' = Some u'" "results_of u' = results_of u" by blast
  have "rel0 u u'" using calcPerf_steady [OF d(1) c] calcPerf_steady [OF d(2) u'(1)] d(5) by (simp add: rel0_def)
  then show thesis by (rule that [OF u'(1) _ u'(2)])
qed

lemma run_tasks_related:
  assumes r: "rel0 s s'" and n: "f32 (altd s) \<noteq> NaN" and t: "run_tasks s = Some u"
  obtains u' where "run_tasks s' = Some u'" "results_of u' = results_of u"
proof -
  obtain s1 s2 s3 where s: "deduceInputs s = Some s1" "getThermo s1 = Some s2" "getGeo s2 = Some s3" "calcPerf s3 = Some u"
    using t by (auto simp: run_tasks_def split: bind_splits)
  obtain t1 where t1: "deduceInputs s' = Some t1" "rel1 s1 t1" by (rule deduceInputs_related [OF r n s(1)])
  obtain t2 where t2: "getThermo t1 = Some t2" "rel2 s2 t2" by (rule getThermo_related [OF t1(2) s(2)])
  obtain t3 where t3: "getGeo t2 = Some t3" "rel3 s3 t3" by (rule getGeo_related [OF t2(2) s(3)])
  obtain u' where u': "calcPerf t3 = Some u'" "results_of u' = results_of u" by (rule calcPerf_related [OF t3(2) s(4)])
  show thesis by (rule that [OF _ u'(2)]) (simp add: run_tasks_def t1(1) t2(1) t3(1) u'(1))
qed

lemma run_tasks_steady:
  assumes "steady s" and "run_tasks s = Some u"
  shows "settings u = settings s \<and> steady u"
proof -
  obtain s1 s2 s3 where s: "deduceInputs s = Some s1" "getThermo s1 = Some s2" "getGeo s2 = Some s3" "calcPerf s3 = Some u"
    using assms(2) by (auto simp: run_tasks_def split: bind_splits)
  have 1: "settings s1 = settings s" "steady s1" using deduceInputs_steady [OF s(1)] assms(1) by simp_all
  note 2 = getThermo_steady [OF 1(2) s(2)]
  note 3 = getGeo_steady [OF 2(2) s(3)]
  show ?thesis using calcPerf_steady [OF 3(2) s(4)] 1(1) 2(1) 3(1) by simp
qed

text \<open>The results of one reading from a given state.\<close>

definition reading :: "xeno \<Rightarrow> float32 \<times> float32 \<times> float32 \<Rightarrow> float32 list option" where
  "reading s x = (case x of (acc, baro, gyro) \<Rightarrow> map_option results_of (run_tasks (parse_inputs acc baro gyro s)))"

lemma rel0_sym: "rel0 s s' \<Longrightarrow> rel0 s' s"
  by (simp add: rel0_def)

lemma run_tasks_equal:
  assumes r: "rel0 s s'" and n: "f32 (altd s) \<noteq> NaN"
  shows "map_option results_of (run_tasks s) = map_option results_of (run_tasks s')"
proof (cases "run_tasks s")
  case None
  have n': "f32 (altd s') \<noteq> NaN" using n settingsD(9) [OF rel0D(5) [OF r]] by simp
  have "run_tasks s' = None"
  proof (rule ccontr)
    assume "run_tasks s' \<noteq> None"
    then obtain u where "run_tasks s' = Some u" by blast
    then obtain u' where "run_tasks s = Some u'" by (rule run_tasks_related [OF rel0_sym [OF r] n'])
    then show False using None by simp
  qed
  then show ?thesis using None by simp
next
  case (Some u)
  obtain u' where "run_tasks s' = Some u'" "results_of u' = results_of u" by (rule run_tasks_related [OF r n Some])
  then show ?thesis using Some by simp
qed

text \<open>The settings without the inputs of a reading.\<close>

lemma parse_steady:
  assumes "rel0 s s'"
  shows "rel0 (parse_inputs a b g s) (parse_inputs a b g s')"
proof -
  have t: "xeno_param.truncate (parse_inputs a b g w) = (xeno_param.truncate w)\<lparr>u0d := a, altd := b, throtl := g\<rparr>" for w
    by (simp add: parse_inputs_def xeno_param.truncate_def)
  have e: "prat (parse_inputs a b g w) = prat w" "eta (parse_inputs a b g w) = eta w" "steady (parse_inputs a b g w) = steady w" for w
    by (simp_all add: parse_inputs_def steady_def xeno_wf_def stations_of_def)
  show ?thesis using assms by (simp add: rel0_def settings_def t e)
qed

lemma readings_loop_map:
  assumes "rel0 (parse_inputs c d e s) (parse_inputs c d e s0)" and "\<forall>(a, b, g)\<in>set rs. f32 b \<noteq> NaN"
  shows "map_option snd (readings_loop rs s) = those (map (reading s0) rs)"
  using assms
proof (induction rs arbitrary: s c d e)
  case (Cons x rs)
  obtain a b g where x: "x = (a, b, g)" using prod_cases3 by blast
  have r: "rel0 (parse_inputs a b g s) (parse_inputs a b g s0)" using parse_steady [OF Cons.prems(1), of a b g] by (simp add: parse_inputs_def)
  have n: "f32 (altd (parse_inputs a b g s)) \<noteq> NaN" using Cons.prems(2) x by (simp add: parse_inputs_def)
  note eq = run_tasks_equal [OF r n]
  show ?case
  proof (cases "run_tasks (parse_inputs a b g s)")
    case None
    then show ?thesis using eq by (simp add: x reading_def)
  next
    case (Some u)
    have "rel0 u (parse_inputs a b g s0)" using run_tasks_steady [OF rel0D(1) [OF r] Some] r by (simp add: rel0_def)
    from parse_steady [OF this, of a b g] have "rel0 (parse_inputs a b g u) (parse_inputs a b g s0)" by (simp add: parse_inputs_def)
    then have "those (map (reading s0) rs) = map_option snd (readings_loop rs u)" using Cons.IH [of a b g u] Cons.prems(2) by simp
    moreover have "reading s0 (a, b, g) = Some (results_of u)" using eq Some by (simp add: reading_def)
    ultimately show ?thesis using Some by (cases "readings_loop rs u") (auto simp: x split: option.splits)
  qed
qed simp

lemma default_steady:
  assumes "length (gam s) = 20" and "length (cp s) = 20"
  shows "steady (defaultParam (s\<lparr>engine := 1 + r mod 3\<rparr>))"
proof -
  have c: "ffin (flit x)" "\<bar>fval (flit x) - x\<bar> \<le> \<bar>x\<bar> / 2 ^ 22 + 1 / 2 ^ 100" if "\<bar>x\<bar> \<le> 2 ^ 100" for x using const_val [OF that] by simp_all
  have d: "dfin (lit x)" "\<bar>dval (lit x) - x\<bar> \<le> \<bar>x\<bar> / 2 ^ 53 + 1 / 2 ^ 200" if "\<bar>x\<bar> \<le> 2 ^ 200" for x
    using lit_val [OF that] rnd_double_abs [OF that] by simp_all
  have less: "\<not> f2d (flit 1) < lit 0.8" "\<not> f2d (flit 1) < lit 0.5"
  proof -
    have b: "\<bar>1::real\<bar> \<le> 2 ^ 100" "\<bar>0.8::real\<bar> \<le> 2 ^ 200" "\<bar>0.5::real\<bar> \<le> 2 ^ 200" by simp_all
    have f: "dfin (f2d (flit 1))" "dval (f2d (flit 1)) = fval (flit 1)" using c(1) [OF b(1)] by simp_all
    show "\<not> f2d (flit 1) < lit 0.8" unfolding double_less [OF f(1) d(1) [OF b(2)]] f(2)
      using abs_le_D2 [OF c(2) [OF b(1)]] abs_le_D1 [OF d(2) [OF b(2)]] by simp
    show "\<not> f2d (flit 1) < lit 0.5" unfolding double_less [OF f(1) d(1) [OF b(3)]] f(2)
      using abs_le_D2 [OF c(2) [OF b(1)]] abs_le_D1 [OF d(2) [OF b(3)]] by simp
  qed
  have "\<not> flit 2 < flit 2" "\<not> i2f 0 < i2f 0" "float_eq (i2f 0) (i2f 0)"
    using float_less [OF c(1) c(1), of 2 2] by (simp_all add: i2f_0 less_float32_def flt_def float_eq_def feq_def is_inf_def)
  moreover have "1 + r mod 3 \<in> {1, 2, 3}" by auto
  ultimately show ?thesis using less assms
    by (simp add: steady_def defaultParam_def xeno_wf_def stations_wf_def stations_of_def at_least_half_def)
qed

text \<open>The readings do not influence each other: although the simulation keeps all its values in global variables, the results of a sequence of
  readings are those of each reading on its own from the default parameters, for every altitude that is a number; in particular one reading
  that fails to return is the only way in which it can stop the others.\<close>

theorem readings_independent:
  assumes "length (gam s) = 20" and "length (cp s) = 20" and "\<forall>(acc, baro, gyro)\<in>set rs. f32 baro \<noteq> NaN"
  shows "map_option snd (init_xeno r rs s) = those (map (reading (defaultParam (s\<lparr>engine := 1 + r mod 3\<rparr>))) rs)"
proof -
  let ?s = "defaultParam (s\<lparr>engine := 1 + r mod 3\<rparr>)"
  have "rel0 ?s ?s" using default_steady [OF assms(1,2)] by (simp add: rel0_def)
  from readings_loop_map [OF parse_steady [OF this] assms(3)] show ?thesis by (simp add: init_xeno_def)
qed

theorem readings_independent_witness:
  "map_option snd (init_xeno 1 [(i2f 300, i2f 1000, i2f 80), (i2f 400, i2f 1000, i2f 90)] boot_xeno) =
     those (map (reading (defaultParam (boot_xeno\<lparr>engine := 1 + 1 mod 3\<rparr>))) [(i2f 300, i2f 1000, i2f 80), (i2f 400, i2f 1000, i2f 90)])"
proof -
  have "f32 (i2f 1000) \<noteq> NaN" using i2f_val(1) [of 1000] by (auto simp: ffin_def is_fin_def)
  then show ?thesis by (intro readings_independent) (simp_all add: boot_xeno_def)
qed

end
