(* ===== verification/XenoPow.thy ===== *)
theory XenoPow
  imports XenoMath
begin

text \<open>
  How exact the functions of \<^verbatim>\<open>XenoJetBench.c\<close> are that sum up a series: the logarithm, the exponential and the power, in the arithmetic
  of theory \<open>Ieee\<close> with all its rounding errors.
\<close>

section \<open>Numbers close to a real\<close>

definition near :: "float32 \<Rightarrow> real \<Rightarrow> real \<Rightarrow> bool" where
  "near a x e \<longleftrightarrow> ffin a \<and> \<bar>fval a - x\<bar> \<le> e"

lemma nearD:
  assumes "near a x e"
  shows "ffin a" "fval a - x \<le> e" "x - fval a \<le> e" "\<bar>fval a\<bar> \<le> \<bar>x\<bar> + e" "0 \<le> e"
  using assms unfolding near_def by linarith+

lemma near_mono: "near a x e \<Longrightarrow> e \<le> d \<Longrightarrow> near a x d"
  by (auto simp: near_def)

lemma near_exact: "near a (fval a) 0 \<longleftrightarrow> ffin a"
  by (simp add: near_def)

lemma near_int: "\<bar>of_int k\<bar> < (2::real) ^ 24 \<Longrightarrow> near (i2f k) (of_int k) 0"
  using i2f_val [of k] by (simp add: near_def)

lemma near_uminus: "near a x e \<Longrightarrow> near (- a) (- x) e"
  by (auto simp: near_def)

text \<open>The error of an operation: that of its operands, and that of its rounding.\<close>

lemma near_rnd:
  assumes v: "\<bar>v - x\<bar> \<le> e" and M: "\<bar>v\<bar> \<le> M" "M \<le> 2 ^ 100"
  shows "\<bar>v\<bar> \<le> 2 ^ 127" "\<bar>rnd single v - x\<bar> \<le> e + M / 2 ^ 24 + 1 / 2 ^ 150"
proof -
  show b: "\<bar>v\<bar> \<le> 2 ^ 127" using M by simp
  have "\<bar>rnd single v - v\<bar> \<le> M / 2 ^ 24 + 1 / 2 ^ 150" using rnd_single_abs [OF b] M(1) by simp
  then show "\<bar>rnd single v - x\<bar> \<le> e + M / 2 ^ 24 + 1 / 2 ^ 150" using v by linarith
qed

lemma near_add:
  assumes a: "near a x d" and b: "near b y e" and M: "\<bar>x + y\<bar> + d + e \<le> M" "M \<le> 2 ^ 100"
  shows "near (a + b) (x + y) (d + e + M / 2 ^ 24 + 1 / 2 ^ 150)"
proof -
  have v: "\<bar>(fval a + fval b) - (x + y)\<bar> \<le> d + e" using nearD(2,3) [OF a] nearD(2,3) [OF b] by linarith
  then have "\<bar>fval a + fval b\<bar> \<le> M" using M(1) by linarith
  from near_rnd [OF v this M(2)] float_add [OF nearD(1) [OF a] nearD(1) [OF b]] show ?thesis by (simp add: near_def)
qed

lemma near_diff:
  assumes a: "near a x d" and b: "near b y e" and M: "\<bar>x - y\<bar> + d + e \<le> M" "M \<le> 2 ^ 100"
  shows "near (a - b) (x - y) (d + e + M / 2 ^ 24 + 1 / 2 ^ 150)"
proof -
  have v: "\<bar>(fval a - fval b) - (x - y)\<bar> \<le> d + e" using nearD(2,3) [OF a] nearD(2,3) [OF b] by linarith
  then have "\<bar>fval a - fval b\<bar> \<le> M" using M(1) by linarith
  from near_rnd [OF v this M(2)] float_sub [OF nearD(1) [OF a] nearD(1) [OF b]] show ?thesis by (simp add: near_def)
qed

lemma mul_error:
  fixes a b x y A B d e :: real
  assumes "\<bar>a - x\<bar> \<le> d" and "\<bar>b - y\<bar> \<le> e" and AB: "\<bar>x\<bar> \<le> A" "\<bar>y\<bar> \<le> B"
  shows "\<bar>a * b - x * y\<bar> \<le> d * (B + e) + A * e" "\<bar>a * b\<bar> \<le> (A + d) * (B + e)"
proof -
  have ab: "\<bar>a\<bar> \<le> A + d" "\<bar>b\<bar> \<le> B + e" "0 \<le> d" using assms by linarith+
  have "a * b - x * y = (a - x) * b + x * (b - y)" by (simp add: algebra_simps)
  then have "\<bar>a * b - x * y\<bar> \<le> \<bar>a - x\<bar> * \<bar>b\<bar> + \<bar>x\<bar> * \<bar>b - y\<bar>" using abs_triangle_ineq by (simp add: abs_mult [symmetric])
  also have "\<dots> \<le> d * (B + e) + A * e" using assms ab by (intro add_mono mult_mono) auto
  finally show "\<bar>a * b - x * y\<bar> \<le> d * (B + e) + A * e" .
  show "\<bar>a * b\<bar> \<le> (A + d) * (B + e)" unfolding abs_mult using ab by (intro mult_mono) auto
qed

lemma near_mul:
  assumes a: "near a x d" and b: "near b y e" and AB: "\<bar>x\<bar> \<le> A" "\<bar>y\<bar> \<le> B" and M: "(A + d) * (B + e) \<le> 2 ^ 100"
  shows "near (a * b) (x * y) (d * (B + e) + A * e + (A + d) * (B + e) / 2 ^ 24 + 1 / 2 ^ 150)"
proof -
  note m = mul_error [OF a [unfolded near_def, THEN conjunct2] b [unfolded near_def, THEN conjunct2] AB]
  from near_rnd [OF m M] float_mul [OF nearD(1) [OF a] nearD(1) [OF b]] show ?thesis by (simp add: near_def)
qed

text \<open>Division by a small positive integer.\<close>

lemma near_div_int:
  assumes a: "near a x d" and k: "1 \<le> k" "k < 2 ^ 24" and M: "\<bar>x\<bar> + d \<le> M" "M \<le> 2 ^ 100"
  shows "near (a / i2f k) (x / of_int k) ((d + M / 2 ^ 24) / of_int k + 1 / 2 ^ 150)"
proof -
  define K where "K = (of_int k :: real)"
  have K: "1 \<le> K" "K < 2 ^ 24" using k by (simp_all add: K_def)
  have i: "ffin (i2f k)" "fval (i2f k) = K" using i2f_val [of k] K by (simp_all add: K_def)
  have v: "\<bar>fval a / K - x / K\<bar> \<le> d / K" using a K by (simp add: near_def diff_divide_distrib [symmetric] divide_right_mono)
  have m: "\<bar>fval a / K\<bar> \<le> M / K" using nearD(4) [OF a] M(1) K by (simp add: divide_right_mono)
  have "0 \<le> M" using nearD(4) [OF a] M(1) by linarith
  then have "M / K \<le> M" using K by (simp add: divide_le_eq mult_le_cancel_left1)
  then have "M / K \<le> 2 ^ 100" using M(2) by linarith
  from near_rnd [OF v m this] float_div [OF nearD(1) [OF a] i(1)] i(2) K show ?thesis by (simp add: near_def K_def add_divide_distrib)
qed

section \<open>The logarithm\<close>

definition ln_sum :: "real \<Rightarrow> nat \<Rightarrow> real" where
  "ln_sum u n = (\<Sum>k<n. u ^ Suc k / real (Suc k))"

lemma ln_tail:
  assumes u: "0 \<le> u" "u < 1"
  shows "\<bar>ln (1 - u) + ln_sum u n\<bar> \<le> u ^ Suc n / real (Suc n) / (1 - u)"
proof -
  let ?f = "\<lambda>k. u ^ Suc k / real (Suc k)"
  have geo: "summable (\<lambda>k. u ^ k)" "(\<Sum>k. u ^ k) = 1 / (1 - u)" using u summable_geometric [of u] suminf_geometric [of u] by simp_all
  have le: "u ^ Suc k / real (Suc k) \<le> u ^ k" for k
  proof -
    have "u ^ Suc k \<le> u ^ k" using u by (simp add: mult_left_le_one_le)
    moreover have "u ^ k \<le> u ^ k * real (Suc k)" using u by (simp add: mult_le_cancel_left1)
    ultimately show ?thesis by (simp add: divide_le_eq)
  qed
  have sf: "summable ?f" by (rule summable_comparison_test' [OF geo(1), of 0]) (use le u in auto)
  have "ln (1 - u) = (\<Sum>k. (- 1) ^ k * (1 / real (k + 1)) * (1 - u - 1) ^ Suc k)" using u by (intro ln_series) auto
  also have "(\<lambda>k. (- 1) ^ k * (1 / real (k + 1)) * (1 - u - 1) ^ Suc k) = (\<lambda>k. - ?f k)"
  proof (rule ext)
    fix k
    have "(- 1) ^ k * (- u) ^ k = u ^ k" by (simp add: power_mult_distrib [symmetric])
    then show "(- 1) ^ k * (1 / real (k + 1)) * (1 - u - 1) ^ Suc k = - ?f k" by (simp add: mult.left_commute)
  qed
  finally have "ln (1 - u) = - (\<Sum>k. ?f k)" using suminf_minus [OF sf] by simp
  also have "(\<Sum>k. ?f k) = (\<Sum>k. ?f (k + n)) + ln_sum u n" unfolding ln_sum_def by (rule suminf_split_initial_segment [OF sf])
  finally have t: "ln (1 - u) + ln_sum u n = - (\<Sum>k. ?f (k + n))" by simp
  have sn: "summable (\<lambda>k. ?f (k + n))" by (rule summable_ignore_initial_segment [OF sf])
  have "(\<Sum>k. ?f (k + n)) \<le> (\<Sum>k. u ^ Suc n / real (Suc n) * u ^ k)"
  proof (rule suminf_le [OF _ sn summable_mult [OF geo(1)]])
    fix k
    have "u ^ Suc (k + n) / real (Suc (k + n)) \<le> u ^ Suc (k + n) / real (Suc n)" using u by (intro divide_left_mono) auto
    then show "?f (k + n) \<le> u ^ Suc n / real (Suc n) * u ^ k" by (simp add: power_add mult.commute mult.left_commute)
  qed
  also have "\<dots> = u ^ Suc n / real (Suc n) / (1 - u)" using suminf_mult [OF geo(1), of "u ^ Suc n / real (Suc n)"] geo(2) by simp
  finally have "(\<Sum>k. ?f (k + n)) \<le> u ^ Suc n / real (Suc n) / (1 - u)" .
  moreover have "0 \<le> (\<Sum>k. ?f (k + n))" using u by (intro suminf_nonneg [OF sn]) auto
  ultimately show ?thesis using t by linarith
qed

lemma ln_sum_bound:
  assumes u: "0 \<le> u" "u \<le> 0.901"
  shows "0 \<le> ln_sum u n" "ln_sum u n \<le> 11"
proof -
  show "0 \<le> ln_sum u n" unfolding ln_sum_def using u by (intro sum_nonneg) auto
  have "ln_sum u n \<le> (\<Sum>k<n. u ^ k)" unfolding ln_sum_def
  proof (rule sum_mono)
    fix k
    have "u ^ Suc k / real (Suc k) \<le> u ^ Suc k / 1" using u by (intro divide_left_mono) auto
    then have "u ^ Suc k / real (Suc k) \<le> u ^ Suc k" by simp
    also have "\<dots> \<le> u ^ k" using u by (simp add: mult_left_le_one_le)
    finally show "u ^ Suc k / real (Suc k) \<le> u ^ k" .
  qed
  also have "\<dots> = (1 - u ^ n) / (1 - u)" using u sum_gp_strict [of u n] by simp
  also have "\<dots> \<le> 1 / (1 - u)" using u by (intro divide_right_mono) auto
  also have "\<dots> \<le> 1 / 0.099" by (rule frac_le) (use u in auto)
  finally show "ln_sum u n \<le> 11" by simp
qed

text \<open>The state of the loop after \<open>n\<close> passes.\<close>

definition log_inv :: "real \<Rightarrow> nat \<Rightarrow> float32 \<Rightarrow> float32 \<Rightarrow> bool" where
  "log_inv u n coeff number \<longleftrightarrow> near coeff (- (u ^ n)) (real n / 2 ^ 21) \<and> near number (- ln_sum u n) (real n / 2 ^ 18)"

lemma log_inv_step:
  assumes i: "log_inv u n coeff number" and u: "0 \<le> u" "u \<le> 0.901" and n: "n \<le> 100" and v: "near v u (1 / 2 ^ 23)"
  shows "log_inv u (Suc n) (coeff * v) (number + coeff * v / i2f (int (Suc n)))"
proof -
  define N where "N = real n"
  define k where "k = int (Suc n)"
  have N: "0 \<le> N" "N \<le> 100" "real (Suc n) = N + 1" using n by (simp_all add: N_def)
  have k: "1 \<le> k" "k < 2 ^ 24" "of_int k = N + 1" using n by (simp_all add: k_def N_def)
  have c: "near coeff (- (u ^ n)) (N / 2 ^ 21)" and s: "near number (- ln_sum u n) (N / 2 ^ 18)" using i by (simp_all add: log_inv_def N_def)
  have p: "\<bar>- (u ^ n)\<bar> \<le> 1" "\<bar>u\<bar> \<le> 0.901" "\<bar>- (u ^ Suc n)\<bar> \<le> 1" using u by (simp_all add: power_le_one mult_le_one del: power_Suc)
  have "near (coeff * v) (- (u ^ n) * u) ((N + 1) / 2 ^ 21)" by (rule near_mono [OF near_mul [OF c v p(1,2)]]) (use N(1,2) in \<open>simp_all add: add_divide_distrib\<close>)
  then have c1: "near (coeff * v) (- (u ^ Suc n)) ((N + 1) / 2 ^ 21)" by (simp add: mult.commute)
  have "near (coeff * v / i2f k) (- (u ^ Suc n) / (N + 1)) (((N + 1) / 2 ^ 21 + 2 / 2 ^ 24) / (N + 1) + 1 / 2 ^ 150)"
    unfolding k(3) [symmetric] by (rule near_div_int [OF c1 [unfolded k(3) [symmetric]] k(1,2)]) (use p(3) N(1,2) k(3) in \<open>simp_all add: add_divide_distrib\<close>)
  moreover have "((N + 1) / 2 ^ 21 + 2 / 2 ^ 24) / (N + 1) + 1 / 2 ^ 150 \<le> 1 / 2 ^ 20" using N(1) by (simp add: field_simps)
  ultimately have d: "near (coeff * v / i2f k) (- (u ^ Suc n) / (N + 1)) (1 / 2 ^ 20)" by (rule near_mono)
  have e: "- ln_sum u n + - (u ^ Suc n) / (N + 1) = - ln_sum u (Suc n)" by (simp add: ln_sum_def N_def add.commute)
  have "near (number + coeff * v / i2f k) (- ln_sum u (Suc n)) ((N + 1) / 2 ^ 18)"
    by (rule near_mono [OF near_add [OF s d, of 16, unfolded e]]) (use ln_sum_bound [OF u, of "Suc n"] N(1,2) in \<open>simp_all add: add_divide_distrib\<close>)
  with c1 show ?thesis by (simp only: log_inv_def N(3) k_def simp_thms)
qed

text \<open>The test of the loops.\<close>

lemma xfabs_val:
  assumes "ffin c"
  shows "ffin (xfabs c)" "fval (xfabs c) = \<bar>fval c\<bar>"
  using assms float_less [OF assms, of "i2f 0"] i2f_val [of 0] by (auto simp: xfabs_def)

lemma precision_test:
  assumes "ffin c"
  shows "PRECISION < f2d (xfabs c) \<longleftrightarrow> dval (lit 0.0001) < \<bar>fval c\<bar>"
proof -
  have d: "dfin (f2d (xfabs c))" using xfabs_val [OF assms] by simp
  show ?thesis unfolding PRECISION_def double_less [OF lit_threshold(1) d] f2d_val xfabs_val(2) [OF assms] ..
qed

lemma precision_cases:
  assumes "near c x e"
  shows "\<bar>x\<bar> + e \<le> 0.00009 \<Longrightarrow> \<not> PRECISION < f2d (xfabs c)" and "\<not> PRECISION < f2d (xfabs c) \<Longrightarrow> \<bar>x\<bar> \<le> 0.00010001 + e"
proof -
  note t = precision_test [OF nearD(1) [OF assms]]
  show "\<not> PRECISION < f2d (xfabs c)" if "\<bar>x\<bar> + e \<le> 0.00009"
  proof -
    have "\<bar>fval c\<bar> \<le> 0.00009" using that nearD(4) [OF assms] by linarith
    then show ?thesis unfolding t using lit_threshold(2) by simp
  qed
  show "\<bar>x\<bar> \<le> 0.00010001 + e" if "\<not> PRECISION < f2d (xfabs c)"
  proof -
    have "\<bar>fval c\<bar> \<le> 0.00010001" using that [unfolded t] lit_threshold(3) by linarith
    moreover have "\<bar>x\<bar> \<le> \<bar>fval c\<bar> + e" using nearD(2,3) [OF assms] by linarith
    ultimately show ?thesis by linarith
  qed
qed

lemma xlog_loop_ends:
  assumes u: "0 \<le> u" "u \<le> 0.901" and v: "near (i2f 1 - x) u (1 / 2 ^ 23)"
  shows "log_inv u n coeff number \<Longrightarrow> n \<le> 100 \<Longrightarrow>
    \<exists>r k. xlog_loop x number coeff (int (Suc n)) = Some r \<and> k \<le> 100 \<and> u ^ k \<le> 0.00015 \<and> near r (- ln_sum u k) (real k / 2 ^ 18)"
proof (induction "100 - n" arbitrary: n coeff number)
  case 0
  then have n: "n = 100" by simp
  have c: "near coeff (- (u ^ 100)) (100 / 2 ^ 21)" and s: "near number (- ln_sum u 100) (real 100 / 2 ^ 18)" using 0(2) by (simp_all add: log_inv_def n)
  have "u ^ 100 \<le> 0.901 ^ 100" using u by (intro power_mono) auto
  also have "\<dots> \<le> (0.00004 :: real)" by (simp add: power_divide)
  finally have b: "u ^ 100 \<le> 0.00004" .
  have "\<not> PRECISION < f2d (xfabs coeff)" by (rule precision_cases(1) [OF c]) (use b u in simp)
  then show ?case using s b by (intro exI [of _ number] exI [of _ 100]) (simp add: xlog_loop.simps n)
next
  case (Suc m)
  have c: "near coeff (- (u ^ n)) (real n / 2 ^ 21)" and s: "near number (- ln_sum u n) (real n / 2 ^ 18)" using Suc.prems by (simp_all add: log_inv_def)
  show ?case
  proof (cases "PRECISION < f2d (xfabs coeff)")
    case True
    have "m = 100 - Suc n" "Suc n \<le> 100" "n \<le> 100" using Suc.hyps(2) by simp_all
    from Suc.hyps(1) [OF this(1) log_inv_step [OF Suc.prems(1) u this(3) v] this(2)]
    show ?thesis using True Suc.prems(2) by (subst xlog_loop.simps) (simp add: Let_def int_inc_def)
  next
    case False
    then have "xlog_loop x number coeff (int (Suc n)) = Some number" by (subst xlog_loop.simps) simp
    moreover have "\<bar>- (u ^ n)\<bar> \<le> 0.00010001 + real n / 2 ^ 21" by (rule precision_cases(2) [OF c False])
    then have "u ^ n \<le> 0.00015" using Suc.prems(2) u by simp
    ultimately show ?thesis using s Suc.prems(2) by blast
  qed
qed

lemma ln_sum_close:
  assumes u: "0 \<le> u" "u \<le> 0.901" and k: "u ^ k \<le> 0.00015"
  shows "\<bar>ln (1 - u) + ln_sum u k\<bar> \<le> 0.0007"
proof -
  have "k \<noteq> 0" using k by (cases k) simp_all
  have "\<bar>ln (1 - u) + ln_sum u k\<bar> \<le> u ^ Suc k / real (Suc k) / (1 - u)" using u by (intro ln_tail) simp_all
  also have "\<dots> \<le> 0.0001352 / 2 / 0.099"
  proof (intro frac_le)
    have "u * u ^ k \<le> 0.901 * 0.00015" using u k by (intro mult_mono) simp_all
    then show "u ^ Suc k \<le> 0.0001352" by simp
  qed (use u \<open>k \<noteq> 0\<close> in simp_all)
  finally show ?thesis by simp
qed

text \<open>The logarithm of a number below one.\<close>

lemma xlog_below:
  assumes x: "ffin x" "0.099 \<le> fval x" "fval x < 1"
  shows "\<exists>r. xlog x = Some r \<and> near r (ln (fval x)) 0.0011"
proof -
  define u where "u = 1 - fval x"
  have u: "0 \<le> u" "u \<le> 0.901" using x by (simp_all add: u_def)
  have i: "ffin (i2f 1)" "fval (i2f 1) = 1" "ffin (i2f 0)" "fval (i2f 0) = 0" using i2f_val [of 1] i2f_val [of 0] by simp_all
  have "near (i2f 1 - x) (1 - fval x) (0 + 0 + 1 / 2 ^ 24 + 1 / 2 ^ 150)"
    by (rule near_diff) (use x i in \<open>simp_all add: near_def\<close>)
  then have v: "near (i2f 1 - x) u (1 / 2 ^ 23)" unfolding u_def by (rule near_mono) simp
  have "log_inv u 0 (- i2f 1) (i2f 0)" using i by (simp add: log_inv_def near_def ln_sum_def)
  from xlog_loop_ends [OF u v this] obtain r k where r: "xlog_loop x (i2f 0) (- i2f 1) 1 = Some r" "k \<le> 100" "u ^ k \<le> 0.00015"
      "near r (- ln_sum u k) (real k / 2 ^ 18)" by auto
  have "xlog x = Some r" using r(1) float_le [OF x(1) i(3)] float_less [OF i(1) x(1)] x i
    by (subst xlog.simps) (simp add: float_eq_def feq_val [unfolded cval_defs] cval_defs)
  moreover have "real k / 2 ^ 18 \<le> 100 / 2 ^ 18" using r(2) by simp
  then have "near r (ln (1 - u)) 0.0011" 
    using nearD(1,2,3) [OF r(4)] abs_le_D1 [OF ln_sum_close [OF u r(3)]] abs_le_D2 [OF ln_sum_close [OF u r(3)]] unfolding near_def abs_le_iff by simp
  ultimately show ?thesis by (auto simp: u_def)
qed

lemma float_eq_val: "ffin a \<Longrightarrow> ffin b \<Longrightarrow> float_eq a b \<longleftrightarrow> fval a = fval b"
  by (simp add: float_eq_def cval_defs feq_val)

lemma xlog_upto_1:
  assumes x: "ffin x" "0.099 \<le> fval x" "fval x \<le> 1"
  shows "\<exists>r. xlog x = Some r \<and> near r (ln (fval x)) 0.0011"
proof (cases "fval x = 1")
  case True
  have i: "ffin (i2f 1)" "fval (i2f 1) = 1" "ffin (i2f 0)" "fval (i2f 0) = 0" using i2f_val [of 1] i2f_val [of 0] by simp_all
  have "xlog x = Some (i2f 0)" using True float_le [OF x(1) i(3)] float_eq_val [OF x(1) i(1)] i by (subst xlog.simps) simp
  then show ?thesis using True i by (simp add: near_def)
qed (use assms xlog_below in simp)

lemma rnd_single_le_1:
  assumes "0 \<le> x" and "x \<le> 1"
  shows "rnd single x \<le> 1"
proof -
  define e where "e = ulp_exp single x"
  have "\<bar>x\<bar> < pow2 (emax single + int (fprec single))"
    by (rule le_less_trans [of _ "pow2 0"]) (use assms in \<open>simp_all add: single_def del: pow2_one\<close>, simp)
  from ulp_exp_bounds(4) [OF this] have "e = emin single \<or> pow2 (e - 1 + int (fprec single)) \<le> pow2 0" using assms by (auto simp: e_def single_def)
  then have "e \<le> 0" by (auto simp: single_def simp del: pow2_one)
  then have k: "1 / pow2 e = of_int (2 ^ nat (- e))" by (simp add: pow2_def power_int_def power_one_over)
  let ?r = "round_half_even (x / pow2 e)"
  have "x / pow2 e \<le> of_int (2 ^ nat (- e))" unfolding k [symmetric] using assms by (intro divide_right_mono) simp_all
  then have "of_int ?r \<le> of_int (2 ^ nat (- e)) + (1 / 2 :: real)" using abs_le_D1 [OF round_half_even_error [of "x / pow2 e"]] by linarith
  then have "?r \<le> 2 ^ nat (- e)" by linarith
  then have "of_int ?r \<le> 1 / pow2 e" unfolding k by (rule of_int_le_iff [THEN iffD2])
  then show ?thesis by (simp add: rnd_def e_def [symmetric] le_divide_eq)
qed

text \<open>The reciprocal of a number with a small relative error.\<close>

lemma near_inverse:
  assumes a: "near a y (y * r)" and r: "r \<le> 1 / 4" and y: "1 / 2 ^ 60 \<le> y" "y \<le> 2 ^ 60"
  shows "near (i2f 1 / a) (1 / y) (1 / y * (2 * r + 1 / 2 ^ 22))"
proof -
  have i: "ffin (i2f 1)" "fval (i2f 1) = 1" using i2f_val [of 1] by simp_all
  have y0: "0 < y" by (rule less_le_trans [OF _ y(1)]) simp
  have r0: "0 \<le> r" using nearD(5) [OF a] y0 by (simp add: zero_le_mult_iff)
  have "y * r \<le> y * (1 / 4)" using r y0 by (intro mult_left_mono) simp_all
  then have p: "3 / 4 * y \<le> fval a" using nearD(3) [OF a] by simp
  then have p0: "0 < fval a" using y0 by simp
  have inv: "1 / fval a \<le> 4 / 3 * (1 / y)" using p p0 y0 by (simp add: field_simps)
  have "1 / fval a - 1 / y = (y - fval a) * (1 / fval a * (1 / y))" using p0 y0 by (simp add: field_simps)
  then have "\<bar>1 / fval a - 1 / y\<bar> = \<bar>y - fval a\<bar> * (1 / fval a * (1 / y))" using p0 y0 by (simp add: abs_mult)
  also have "\<dots> \<le> (y * r) * (4 / 3 * (1 / y) * (1 / y))"
    using a inv p0 y0 by (intro mult_mono) (auto simp: near_def abs_minus_commute)
  also have "\<dots> = 4 / 3 * r * (1 / y)" using y0 by simp
  finally have v: "\<bar>1 / fval a - 1 / y\<bar> \<le> 4 / 3 * r * (1 / y)" .
  have b: "1 / 2 ^ 60 \<le> 1 / y" "1 / y \<le> 2 ^ 60" using y y0 by (simp_all add: field_simps)
  have m: "\<bar>1 / fval a\<bar> \<le> 4 / 3 * (1 / y)" using inv p0 by simp
  have "4 / 3 * (1 / y) \<le> 2 ^ 100" using b by simp
  note n = near_rnd [OF v m this]
  define z where "z = 1 / y"
  have z: "1 / 2 ^ 60 \<le> z" using b(1) by (simp add: z_def)
  have "0 \<le> z * r" using z r0 by (intro mult_nonneg_nonneg) (simp_all add: order_trans [of 0 "1 / 2 ^ 60" z])
  then have "4 / 3 * r * z + 4 / 3 * z / 2 ^ 24 + 1 / 2 ^ 150 \<le> z * (2 * r + 1 / 2 ^ 22)" using z by (simp add: algebra_simps)
  moreover have "ffin (i2f 1 / a) \<and> fval (i2f 1 / a) = rnd single (1 / fval a)" using float_div [OF i(1) nearD(1) [OF a]] i(2) n(1) p0 by simp
  ultimately show ?thesis using n(2) unfolding near_def z_def by auto
qed

lemma ln_close:
  fixes a b r :: real
  assumes "0 < a" and "\<bar>b - a\<bar> \<le> a * r" and "r \<le> 1 / 4"
  shows "\<bar>ln b - ln a\<bar> \<le> 2 * r"
proof -
  have "0 \<le> a * r" using assms(2) by linarith
  then have r0: "0 \<le> r" using assms(1) by (simp add: zero_le_mult_iff)
  have "a * r \<le> a * (1 / 4)" using assms by (intro mult_left_mono) simp_all
  then have b: "3 / 4 * a \<le> b" using assms(2) by linarith
  have "ln b - ln a \<le> (b - a) / a" using b assms(1) by (intro ln_diff_le) simp_all
  also have "\<dots> \<le> a * r / a" using assms(1,2) by (intro divide_right_mono) linarith+
  finally have u: "ln b - ln a \<le> r" using assms(1) by simp
  have "ln a - ln b \<le> (a - b) / b" using b assms(1) by (intro ln_diff_le) simp_all
  also have "\<dots> \<le> a * r / (3 / 4 * a)" using assms(1,2) b \<open>0 \<le> a * r\<close> by (intro frac_le; linarith)
  finally have "ln a - ln b \<le> 4 / 3 * r" using assms(1) by simp
  with u r0 show ?thesis by linarith
qed

text \<open>The logarithm: it returns for all numbers from 0.1 to 10, and its error is small.\<close>

lemma xlog_near:
  assumes x: "ffin x" "0.1 \<le> fval x" "fval x \<le> 10"
  shows "\<exists>r. xlog x = Some r \<and> near r (ln (fval x)) 0.0012"
proof (cases "fval x \<le> 1")
  case True
  then show ?thesis using xlog_upto_1 [of x] x near_mono [of _ "ln (fval x)" "0.0011" "0.0012"] by auto
next
  case False
  let ?X = "fval x" and ?y = "i2f 1 / x"
  have i: "ffin (i2f 1)" "fval (i2f 1) = 1" "ffin (i2f 0)" "fval (i2f 0) = 0" using i2f_val [of 1] i2f_val [of 0] by simp_all
  have X: "1 < ?X" "0.1 \<le> 1 / ?X" "1 / ?X \<le> 1" using False x by (simp_all add: field_simps)
  have n: "near ?y (1 / ?X) (1 / ?X * (2 * 0 + 1 / 2 ^ 22))" by (rule near_inverse) (use x X in \<open>simp_all add: near_def\<close>)
  have "fval ?y = rnd single (1 / ?X)" using float_div [OF i(1) x(1)] i(2) X by simp
  then have y1: "fval ?y \<le> 1" using rnd_single_le_1 [of "1 / ?X"] X by simp
  have "0.099 \<le> fval ?y" using nearD(3) [OF n] X(2) by simp
  from xlog_upto_1 [OF nearD(1) [OF n] this y1] obtain r where r: "xlog ?y = Some r" "near r (ln (fval ?y)) 0.0011" by blast
  have "xlog x = Some (- r)" using r(1) X float_le [OF x(1) i(3)] float_less [OF i(1) x(1)] float_eq_val [OF x(1) i(1)] i by (subst xlog.simps) simp
  moreover have "\<bar>ln (fval ?y) - ln (1 / ?X)\<bar> \<le> 2 * (1 / 2 ^ 22)" by (rule ln_close) (use n X in \<open>simp_all add: near_def\<close>)
  then have "\<bar>ln (fval ?y) + ln ?X\<bar> \<le> 0.0001" using X(1) by (simp add: ln_div)
  then have "near (- r) (ln ?X) 0.0012" using nearD(1,2,3) [OF r(2)] unfolding near_def abs_le_iff by simp
  ultimately show ?thesis by blast
qed

section \<open>The exponential\<close>

text \<open>The largest size of a term of the series.\<close>

definition term_bound :: "nat \<Rightarrow> real" where
  "term_bound n = 2.5 ^ n / fact n"

lemma term_bound_Suc: "term_bound (Suc n) = term_bound n * (2.5 / real (Suc n))"
  by (simp add: term_bound_def field_simps)

lemma term_bound_small:
  assumes "n \<le> 14"
  shows "1 / 2 ^ 20 \<le> term_bound n" "term_bound n \<le> 4" "term_bound n * real n \<le> 8"
proof -
  have "\<forall>k\<in>set [0..<15]. 1 / 2 ^ 20 \<le> term_bound k \<and> term_bound k \<le> 4 \<and> term_bound k * real k \<le> 8"
    by (simp add: upt_rec term_bound_def fact_numeral power_divide)
  moreover have "n \<in> set [0..<15]" using assms by simp
  ultimately show "1 / 2 ^ 20 \<le> term_bound n" "term_bound n \<le> 4" "term_bound n * real n \<le> 8" by blast+
qed

definition exp_sum :: "real \<Rightarrow> nat \<Rightarrow> real" where
  "exp_sum z n = (\<Sum>k\<le>n. z ^ k / fact k)"

lemma exp_term_le: "\<bar>z\<bar> \<le> 2.5 \<Longrightarrow> \<bar>z ^ n / fact n\<bar> \<le> term_bound n"
  unfolding term_bound_def by (simp add: abs_divide power_abs divide_right_mono power_mono)

lemma exp_bound_16: "exp 2.5 \<le> (16 :: real)"
proof -
  have "exp 2.5 = exp 1 * exp 1 * exp (1 / 2 :: real)" by (simp add: exp_add [symmetric])
  also have "\<dots> \<le> 3 * 3 * (1 + 1 / 2 + (1 / 2)\<^sup>2)" by (intro mult_mono exp_le exp_bound) simp_all
  finally show ?thesis by (simp add: power2_eq_square)
qed

lemma exp_sum_bound:
  assumes "\<bar>z\<bar> \<le> 2.5"
  shows "\<bar>exp_sum z n\<bar> \<le> 16"
proof -
  have "\<bar>exp_sum z n\<bar> \<le> (\<Sum>k\<le>n. 2.5 ^ k / fact k)"
    unfolding exp_sum_def using exp_term_le [OF assms] by (intro order_trans [OF sum_abs] sum_mono) (simp add: term_bound_def)
  also have "\<dots> \<le> exp 2.5"
  proof -
    obtain s where "exp 2.5 = (\<Sum>k<Suc n. 2.5 ^ k / fact k) + exp s / fact (Suc n) * (2.5 :: real) ^ Suc n" using Maclaurin_exp_le [of "2.5" "Suc n"] by blast
    then show ?thesis unfolding lessThan_Suc_atMost by simp
  qed
  also note exp_bound_16
  finally show ?thesis .
qed

text \<open>The state of the loop after \<open>n\<close> passes.\<close>

definition exp_inv :: "real \<Rightarrow> nat \<Rightarrow> float32 \<Rightarrow> float32 \<Rightarrow> bool" where
  "exp_inv z n coeff number \<longleftrightarrow> near coeff (z ^ n / fact n) (term_bound n * (real n / 2 ^ 21)) \<and> near number (exp_sum z n) (real n / 2 ^ 17)"

lemma term_error:
  fixes T w N :: real
  assumes "0 \<le> N" and "N \<le> 14" and "1 / 2 ^ 30 \<le> T * w"
  shows "T * (N / 2 ^ 21) * (w + w / 2 ^ 23) + T * (w / 2 ^ 23) + (T + T * (N / 2 ^ 21)) * (w + w / 2 ^ 23) / 2 ^ 24 + 1 / 2 ^ 150
    \<le> T * w * ((N + 1) / 2 ^ 21)"
proof -
  define p where "p = T * w"
  define q where "q = p * N"
  have p: "1 / 2 ^ 30 \<le> p" using assms(3) by (simp add: p_def)
  have p0: "0 \<le> p" by (rule order_trans [OF _ p]) simp
  then have q: "0 \<le> q" "q \<le> p * 14" using assms(1,2) by (simp_all add: q_def mult_left_mono)
  have "T * (N / 2 ^ 21) * (w + w / 2 ^ 23) = q * ((1 + 1 / 2 ^ 23) / 2 ^ 21)" by (simp add: p_def q_def field_simps)
  moreover have "T * (w / 2 ^ 23) = p / 2 ^ 23" by (simp add: p_def)
  moreover have "(T + T * (N / 2 ^ 21)) * (w + w / 2 ^ 23) / 2 ^ 24 = (p + q / 2 ^ 21) * ((1 + 1 / 2 ^ 23) / 2 ^ 24)" by (simp add: p_def q_def field_simps)
  moreover have "T * w * ((N + 1) / 2 ^ 21) = q / 2 ^ 21 + p / 2 ^ 21" by (simp add: p_def q_def field_simps)
  moreover have "q * ((1 + 1 / 2 ^ 23) / 2 ^ 21) + p / 2 ^ 23 + (p + q / 2 ^ 21) * ((1 + 1 / 2 ^ 23) / 2 ^ 24) + 1 / 2 ^ 150 \<le> q / 2 ^ 21 + p / 2 ^ 21"
    using p q by (simp add: add_divide_distrib)
  ultimately show ?thesis by (simp only:)
qed

lemma exp_inv_step:
  assumes i: "exp_inv z n coeff number" and z: "\<bar>z\<bar> \<le> 2.5" and n: "n < 14" and x: "ffin x" "fval x = z"
  shows "exp_inv z (Suc n) (coeff * (x / i2f (int (Suc n)))) (number + coeff * (x / i2f (int (Suc n))))"
proof -
  define N where "N = real n"
  define k where "k = int (Suc n)"
  define w where "w = 2.5 / (N + 1)"
  let ?T = "term_bound n" and ?c = "coeff * (x / i2f k)"
  have N: "0 \<le> N" "N \<le> 14" "real (Suc n) = N + 1" using n by (simp_all add: N_def)
  have k: "1 \<le> k" "k < 2 ^ 24" "of_int k = N + 1" using n by (simp_all add: k_def N_def)
  have c: "near coeff (z ^ n / fact n) (?T * (N / 2 ^ 21))" and s: "near number (exp_sum z n) (N / 2 ^ 17)" using i by (simp_all add: exp_inv_def N_def)
  have T: "1 / 2 ^ 20 \<le> ?T" "?T \<le> 4" "1 / 2 ^ 20 \<le> term_bound (Suc n)" "term_bound (Suc n) \<le> 4" "term_bound (Suc n) * (N + 1) \<le> 8"
    using term_bound_small [of n] term_bound_small [of "Suc n"] n by (simp_all add: N_def add.commute)
  have Tw: "term_bound (Suc n) = ?T * w" by (simp only: term_bound_Suc w_def N(3))
  have w: "0 < w" "w \<le> 2.5" "0.1 \<le> w" using N by (simp_all add: w_def divide_le_eq le_divide_eq)
  have "near (x / i2f k) (z / of_int k) ((0 + 2.5 / 2 ^ 24) / of_int k + 1 / 2 ^ 150)" by (rule near_div_int) (use x z k in \<open>simp_all add: near_def\<close>)
  moreover have "(0 + 2.5 / 2 ^ 24) / (N + 1) = w / 2 ^ 24" by (simp add: w_def)
  then have "(0 + 2.5 / 2 ^ 24) / (N + 1) + 1 / 2 ^ 150 \<le> w / 2 ^ 23" using w by simp
  ultimately have v: "near (x / i2f k) (z / (N + 1)) (w / 2 ^ 23)" unfolding k(3) by (rule near_mono)
  have "\<bar>z\<bar> / (N + 1) \<le> w" unfolding w_def using z N by (intro divide_right_mono) simp_all
  then have b: "\<bar>z ^ n / fact n\<bar> \<le> ?T" "\<bar>z / (N + 1)\<bar> \<le> w" using exp_term_le [OF z] N by simp_all
  have "z ^ n / fact n * (z / (N + 1)) = z ^ Suc n / fact (Suc n)" by (simp add: N_def field_simps)
  moreover have "near ?c (z ^ n / fact n * (z / (N + 1))) (term_bound (Suc n) * ((N + 1) / 2 ^ 21))" unfolding Tw
  proof (rule near_mono [OF near_mul [OF c v b] term_error [OF N(1,2)]])
    have "(?T + ?T * (N / 2 ^ 21)) * (w + w / 2 ^ 23) \<le> (4 + 4 * 1) * (2.5 + 2.5)" using T w N by (intro mult_mono add_mono) simp_all
    then show "(?T + ?T * (N / 2 ^ 21)) * (w + w / 2 ^ 23) \<le> 2 ^ 100" by simp
    show "1 / 2 ^ 30 \<le> ?T * w" using T(3) unfolding Tw by simp
  qed
  ultimately have c1: "near ?c (z ^ Suc n / fact (Suc n)) (term_bound (Suc n) * ((N + 1) / 2 ^ 21))" by (simp only:)
  have c2: "near ?c (z ^ Suc n / fact (Suc n)) (8 / 2 ^ 21)" by (rule near_mono [OF c1]) (use T(5) in \<open>simp add: mult.commute\<close>)
  have e: "exp_sum z n + z ^ Suc n / fact (Suc n) = exp_sum z (Suc n)" by (simp only: exp_sum_def sum.atMost_Suc)
  have "near (number + ?c) (exp_sum z (Suc n)) ((N + 1) / 2 ^ 17)"
    by (rule near_mono [OF near_add [OF s c2, of 32, unfolded e]]) (use exp_sum_bound [OF z, of "Suc n"] N(1,2) in \<open>simp_all add: add_divide_distrib\<close>)
  with c1 show ?thesis by (simp only: exp_inv_def N(3) k_def simp_thms)
qed

lemma expo_loop_ends:
  assumes z: "\<bar>z\<bar> \<le> 2.5" and x: "ffin x" "fval x = z"
  shows "exp_inv z n coeff number \<Longrightarrow> n \<le> 14 \<Longrightarrow>
    \<exists>r k. expo_loop x number coeff (int (Suc n)) = Some r \<and> k \<le> 14 \<and> \<bar>z ^ k / fact k\<bar> \<le> 0.00011 \<and> near r (exp_sum z k) (real k / 2 ^ 17)"
proof (induction "14 - n" arbitrary: n coeff number)
  case 0
  then have n: "n = 14" by simp
  have c: "near coeff (z ^ 14 / fact 14) (term_bound 14 * (14 / 2 ^ 21))" and s: "near number (exp_sum z 14) (real 14 / 2 ^ 17)"
    using 0(2) by (simp_all add: exp_inv_def n)
  have "term_bound 14 \<le> 0.00001" by (simp add: term_bound_def fact_numeral power_divide)
  from order_trans [OF exp_term_le [OF z, of 14] this] this have b: "\<bar>z ^ 14 / fact 14\<bar> \<le> 0.00001" "term_bound 14 * (14 / 2 ^ 21) \<le> 0.00001" by simp_all
  have "\<not> PRECISION < f2d (xfabs coeff)" by (rule precision_cases(1) [OF c]) (use add_mono [OF b] in simp)
  then have "expo_loop x number coeff (int (Suc n)) = Some number" by (subst expo_loop.simps) simp
  moreover have "\<bar>z ^ 14 / fact 14\<bar> \<le> 0.00011" by (rule order_trans [OF b(1)]) simp
  ultimately show ?case using s by blast
next
  case (Suc m)
  have c: "near coeff (z ^ n / fact n) (term_bound n * (real n / 2 ^ 21))" and s: "near number (exp_sum z n) (real n / 2 ^ 17)"
    using Suc.prems by (simp_all add: exp_inv_def)
  show ?case
  proof (cases "PRECISION < f2d (xfabs coeff)")
    case True
    have "m = 14 - Suc n" "Suc n \<le> 14" "n < 14" using Suc.hyps(2) by simp_all
    from Suc.hyps(1) [OF this(1) exp_inv_step [OF Suc.prems(1) z this(3) x] this(2)]
    show ?thesis using True Suc.prems(2) by (subst expo_loop.simps) (simp add: Let_def int_inc_def)
  next
    case False
    then have "expo_loop x number coeff (int (Suc n)) = Some number" by (subst expo_loop.simps) simp
    moreover have "\<bar>z ^ n / fact n\<bar> \<le> 0.00010001 + term_bound n * (real n / 2 ^ 21)" by (rule precision_cases(2) [OF c False])
    then have "\<bar>z ^ n / fact n\<bar> \<le> 0.00011" using term_bound_small(3) [OF Suc.prems(2)] by simp
    ultimately show ?thesis using s Suc.prems(2) by blast
  qed
qed

text \<open>What is left of the series when the loop ends.\<close>

lemma exp_taylor:
  fixes z :: real
  assumes "0 < n"
  shows "\<exists>t. exp t \<le> max 1 (exp z) \<and> exp z = (\<Sum>k<n. z ^ k / fact k) + exp t / fact n * z ^ n"
proof -
  consider "z < 0" | "z = 0" | "0 < z" by linarith
  then show ?thesis
  proof cases
    case 1
    have "\<exists>t. z < t \<and> t < 0 \<and> exp z = (\<Sum>m<n. exp 0 / fact m * z ^ m) + exp t / fact n * z ^ n"
      by (rule Maclaurin_minus [of z n "\<lambda>_. exp"]) (use 1 assms in \<open>auto intro: DERIV_exp\<close>)
    then show ?thesis by (auto simp: max_def)
  next
    case 2
    then show ?thesis using assms by (cases n) (auto simp: sum.lessThan_Suc_shift simp del: sum.lessThan_Suc)
  next
    case 3
    have "\<exists>t. 0 < t \<and> t < z \<and> exp z = (\<Sum>m<n. exp 0 / fact m * z ^ m) + exp t / fact n * z ^ n"
      by (rule Maclaurin [of z n "\<lambda>_. exp"]) (use 3 assms in \<open>auto intro: DERIV_exp\<close>)
    then show ?thesis by (auto simp: max_def)
  qed
qed

lemma exp_rest:
  assumes z: "\<bar>z\<bar> \<le> 2.5" and k: "\<bar>z ^ k / fact k\<bar> \<le> 0.00011"
  shows "\<bar>exp z - exp_sum z k\<bar> \<le> 0.00014 * max 1 (exp z)"
proof -
  have "k \<noteq> 0" using k by (cases k) simp_all
  obtain t where t: "exp t \<le> max 1 (exp z)" "exp z = (\<Sum>j<Suc k. z ^ j / fact j) + exp t / fact (Suc k) * z ^ Suc k" using exp_taylor [of "Suc k" z] by blast
  have "exp t / fact (Suc k) * z ^ Suc k = exp t * (z ^ k / fact k * (z / real (Suc k)))" by (simp add: field_simps)
  then have "exp z - exp_sum z k = exp t * (z ^ k / fact k * (z / real (Suc k)))" using t(2) unfolding exp_sum_def lessThan_Suc_atMost by simp
  then have "\<bar>exp z - exp_sum z k\<bar> = exp t * (\<bar>z ^ k / fact k\<bar> * (\<bar>z\<bar> / real (Suc k)))" by (simp add: abs_mult)
  also have "\<dots> \<le> max 1 (exp z) * (0.00011 * (2.5 / 2))"
  proof (intro mult_mono t(1) k)
    show "\<bar>z\<bar> / real (Suc k) \<le> 2.5 / 2" by (rule frac_le) (use z \<open>k \<noteq> 0\<close> in simp_all)
  qed simp_all
  also have "\<dots> \<le> 0.00014 * max 1 (exp z)" by (simp add: max_def)
  finally show ?thesis .
qed

lemma exp_ge_16th:
  assumes "\<bar>z\<bar> \<le> 2.5"
  shows "1 / 16 \<le> exp (z::real)"
proof -
  have "exp (- z) \<le> exp 2.5" using assms by simp
  also note exp_bound_16
  finally show ?thesis by (simp add: exp_minus field_simps)
qed

text \<open>The exponential: it returns for all numbers up to 2.5, and its relative error is at most a half percent.\<close>

lemma expo_near:
  assumes x: "ffin x" "\<bar>fval x\<bar> \<le> 2.5"
  shows "\<exists>r. expo x = Some r \<and> near r (exp (fval x)) (0.005 * exp (fval x))"
proof -
  define z where "z = fval x"
  have z: "\<bar>z\<bar> \<le> 2.5" using x by (simp add: z_def)
  have i: "ffin (i2f 1)" "fval (i2f 1) = 1" using i2f_val [of 1] by simp_all
  have "exp_inv z 0 (i2f 1) (i2f 1)" using i by (simp add: exp_inv_def near_def exp_sum_def)
  from expo_loop_ends [OF z x(1) z_def [symmetric] this] obtain r k where r: "expo_loop x (i2f 1) (i2f 1) 1 = Some r" "k \<le> 14" "\<bar>z ^ k / fact k\<bar> \<le> 0.00011"
      "near r (exp_sum z k) (real k / 2 ^ 17)" by auto
  have l: "dfin (lit 709.782712893384)" "\<bar>dval (lit 709.782712893384) - 709.782712893384\<bar> \<le> \<bar>709.782712893384\<bar> / 2 ^ 53 + 1 / 2 ^ 200"
    using lit_val [of "709.782712893384"] rnd_double_abs [of "709.782712893384"] by simp_all
  have "\<not> lit 709.782712893384 < f2d x"
    using double_less [OF l(1), of "f2d x"] x abs_le_D2 [OF l(2)] by simp
  then have "expo x = Some r" using r(1) by (subst expo.simps) simp
  moreover have "max 1 (exp z) \<le> 16 * exp z" using exp_ge_16th [OF z] by simp
  then have "\<bar>exp z - exp_sum z k\<bar> \<le> 0.00224 * exp z" using exp_rest [OF z r(3)] by simp
  moreover have "real k / 2 ^ 17 \<le> 0.0018 * exp z" using r(2) exp_ge_16th [OF z] by simp
  ultimately show ?thesis using nearD(1,2,3) [OF r(4)] exp_ge_16th [OF z] unfolding near_def z_def [symmetric] abs_le_iff by auto
qed

section \<open>Powers\<close>

lemma power_range:
  fixes x :: real
  assumes "0.1 \<le> x" and "x \<le> 10" and "k \<le> 12"
  shows "1 / 2 ^ 40 \<le> x ^ k" "x ^ k \<le> 2 ^ 40"
proof -
  have "1 / 2 ^ 40 \<le> (0.1 :: real) ^ 12" by (simp add: power_divide)
  also have "\<dots> \<le> 0.1 ^ k" using assms(3) by (intro power_decreasing) simp_all
  also have "\<dots> \<le> x ^ k" using assms(1) by (intro power_mono) simp_all
  finally show "1 / 2 ^ 40 \<le> x ^ k" .
  have "x ^ k \<le> 10 ^ k" using assms by (intro power_mono) simp_all
  also have "\<dots> \<le> 10 ^ 12" using assms(3) by (intro power_increasing) simp_all
  finally show "x ^ k \<le> 2 ^ 40" by simp
qed

text \<open>The relative error of a product.\<close>

lemma near_mul_rel:
  assumes a: "near a x (x * d)" and b: "near b y (y * e)" and x: "1 / 2 ^ 50 \<le> x" "x \<le> 2 ^ 45" and y: "1 / 2 ^ 50 \<le> y" "y \<le> 2 ^ 45"
    and de: "0 \<le> d" "d \<le> 1 / 4" "0 \<le> e" "e \<le> 1 / 4"
  shows "near (a * b) (x * y) (x * y * (d + e + d * e + 1 / 2 ^ 23))"
proof -
  have xy0: "0 < x" "0 < y" by (rule less_le_trans [OF _ x(1)], simp) (rule less_le_trans [OF _ y(1)], simp)
  define p where "p = x * y"
  have "1 / 2 ^ 50 * (1 / 2 ^ 50) \<le> p" unfolding p_def using x y by (intro mult_mono) simp_all
  then have p: "1 / 2 ^ 100 \<le> p" by simp
  have "p \<le> 2 ^ 45 * 2 ^ 45" unfolding p_def using x y xy0 by (intro mult_mono) simp_all
  then have p2: "p \<le> 2 ^ 90" by simp
  have p0: "0 \<le> p" using xy0 by (simp add: p_def)
  have de1: "(1 + d) * (1 + e) \<le> (1 + 1 / 4) * (1 + 1 / 4)" using de by (intro mult_mono) simp_all
  define M where "M = (x + x * d) * (y + y * e)"
  have "M = p * ((1 + d) * (1 + e))" by (simp add: M_def p_def algebra_simps)
  also have "\<dots> \<le> p * (25 / 16)" using de1 p0 by (intro mult_left_mono) simp_all
  finally have M: "M \<le> p * (25 / 16)" .
  have "near (a * b) (x * y) (x * d * (y + y * e) + x * (y * e) + (x + x * d) * (y + y * e) / 2 ^ 24 + 1 / 2 ^ 150)"
    by (rule near_mul [OF a b]) (use xy0 M p2 in \<open>simp_all add: M_def [symmetric]\<close>)
  moreover have "x * d * (y + y * e) + x * (y * e) = p * (d + e + d * e)" by (simp add: p_def algebra_simps)
  moreover have "(x + x * d) * (y + y * e) / 2 ^ 24 + 1 / 2 ^ 150 \<le> p * (1 / 2 ^ 23)" unfolding M_def [symmetric] using M p by simp
  ultimately show ?thesis by (elim near_mono) (simp add: p_def [symmetric] distrib_left)
qed

lemma power_loop_near:
  assumes x: "ffin x" "0.1 \<le> fval x" "fval x \<le> 10"
  shows "near number (fval x ^ k) (fval x ^ k * (real k / 2 ^ 22)) \<Longrightarrow> k + n \<le> 12 \<Longrightarrow>
    near (power_loop n x number) (fval x ^ (k + n)) (fval x ^ (k + n) * (real (k + n) / 2 ^ 22))"
proof (induction n arbitrary: number k)
  case (Suc n)
  define K where "K = real k"
  have K: "0 \<le> K" "K \<le> 12" "real (Suc k) = K + 1" using Suc.prems(2) by (simp_all add: K_def)
  have "near (number * x) (fval x ^ k * fval x) (fval x ^ k * fval x * (K / 2 ^ 22 + 0 + K / 2 ^ 22 * 0 + 1 / 2 ^ 23))"
  proof (rule near_mul_rel)
    show "near number (fval x ^ k) (fval x ^ k * (K / 2 ^ 22))" using Suc.prems(1) by (simp add: K_def)
    show "near x (fval x) (fval x * 0)" using x by (simp add: near_def)
  qed (use x K power_range [OF x(2,3), of k] Suc.prems(2) in simp_all)
  then have "near (number * x) (fval x ^ Suc k) (fval x ^ Suc k * (K / 2 ^ 22 + 1 / 2 ^ 23))" by (simp add: mult.commute)
  moreover have "fval x ^ Suc k * (K / 2 ^ 22 + 1 / 2 ^ 23) \<le> fval x ^ Suc k * (real (Suc k) / 2 ^ 22)"
    unfolding K(3) using x by (intro mult_left_mono zero_le_power) (simp_all add: add_divide_distrib)
  ultimately have "near (number * x) (fval x ^ Suc k) (fval x ^ Suc k * (real (Suc k) / 2 ^ 22))" by (rule near_mono)
  from Suc.IH [OF this] Suc.prems(2) show ?case by simp
qed simp

lemma power_f_near:
  assumes x: "ffin x" "0.1 \<le> fval x" "fval x \<le> 10" and k: "\<bar>k\<bar> \<le> 12"
  shows "\<exists>p. power_f x k = Some p \<and> near p (fval x powi k) (fval x powi k * (1 / 2 ^ 17))"
proof -
  define n where "n = nat \<bar>k\<bar>"
  define P where "P = fval x ^ n"
  have n: "n \<le> 12" using k by (simp add: n_def)
  have i: "near (i2f 1) (fval x ^ 0) (fval x ^ 0 * (real 0 / 2 ^ 22))" using i2f_val [of 1] by (simp add: near_def)
  have P: "1 / 2 ^ 40 \<le> P" "P \<le> 2 ^ 40" using power_range [OF x(2,3) n] by (simp_all add: P_def)
  have P0: "0 < P" by (rule less_le_trans [OF _ P(1)]) simp
  have "near (power_loop n x (i2f 1)) P (P * (real n / 2 ^ 22))" using power_loop_near [OF x i, of n] n by (simp add: P_def)
  moreover have "P * (real n / 2 ^ 22) \<le> P * (12 / 2 ^ 22)" using n P0 by (intro mult_left_mono) simp_all
  ultimately have l: "near (power_loop n x (i2f 1)) P (P * (12 / 2 ^ 22))" by (rule near_mono)
  show ?thesis
  proof (cases "k < 0")
    case True
    then have kn: "nat (- k) = n" and pi: "fval x powi k = 1 / P" by (simp_all add: n_def P_def power_int_def inverse_eq_divide power_one_over)
    have "near (i2f 1 / power_loop n x (i2f 1)) (1 / P) (1 / P * (2 * (12 / 2 ^ 22) + 1 / 2 ^ 22))" by (rule near_inverse [OF l]) (use P in simp_all)
    then have "near (i2f 1 / power_loop n x (i2f 1)) (1 / P) (1 / P * (1 / 2 ^ 17))" by (rule near_mono) (use P0 in \<open>simp add: field_simps\<close>)
    then show ?thesis using True k by (simp add: power_f_def kn pi)
  next
    case False
    then have kn: "nat k = n" and pi: "fval x powi k = P" by (simp_all add: n_def P_def power_int_def)
    have "near (power_loop n x (i2f 1)) P (P * (1 / 2 ^ 17))" by (rule near_mono [OF l]) (use P0 in simp)
    then show ?thesis using False by (simp add: power_f_def kn pi)
  qed
qed

lemma truncate_bounds: "\<bar>of_int (truncate y)\<bar> \<le> \<bar>y\<bar>" "\<bar>y - of_int (truncate y)\<bar> \<le> 1"
proof -
  show "\<bar>y - of_int (truncate y)\<bar> \<le> 1" unfolding truncate_def by (auto simp: abs_le_iff) linarith+
  show "\<bar>of_int (truncate y)\<bar> \<le> \<bar>y\<bar>"
  proof (cases "y < 0")
    case True
    then have "of_int \<lceil>y\<rceil> \<le> (0::real)" by (simp add: ceiling_le_iff)
    then show ?thesis using True le_of_int_ceiling [of y] by (simp add: truncate_def)
  qed (simp add: truncate_def)
qed

lemma ln_range:
  assumes "0.1 \<le> x" and "x \<le> 10"
  shows "\<bar>ln (x::real)\<bar> \<le> 2.4"
proof -
  have "1 + 0.6 + 0.6\<^sup>2 / 2 \<le> exp (0.6 :: real)" by (rule exp_lower_Taylor_quadratic) simp
  then have "1.78 ^ 4 \<le> exp (0.6 :: real) ^ 4" by (intro power_mono) (simp_all add: power2_eq_square)
  also have "\<dots> = exp 2.4" by (simp add: exp_of_nat_mult [symmetric])
  finally have e: "10 \<le> exp (2.4 :: real)" by (simp add: power_divide)
  have "1 / x \<le> 10" using assms by (simp add: field_simps)
  then have "x \<le> exp 2.4" "1 / x \<le> exp 2.4" using assms e by linarith+
  then have "ln x \<le> ln (exp 2.4)" "ln (1 / x) \<le> ln (exp 2.4)" using assms by (intro ln_mono; simp)+
  then show ?thesis using assms by (simp add: ln_div abs_le_iff)
qed

lemma exp_close:
  fixes z w r :: real
  assumes "\<bar>z - w\<bar> \<le> r" and "r \<le> 1 / 4"
  shows "\<bar>exp z - exp w\<bar> \<le> exp w * (r + r\<^sup>2)"
proof -
  define d where "d = z - w"
  have d: "\<bar>d\<bar> \<le> r" using assms(1) by (simp add: d_def)
  have "exp z - exp w = exp w * (exp d - 1)" by (simp add: d_def exp_diff field_simps)
  moreover have "\<bar>exp d - 1\<bar> \<le> r + r\<^sup>2"
  proof -
    have "exp d \<le> exp r" using d by simp
    also have "\<dots> \<le> 1 + r + r\<^sup>2" using d assms(2) by (intro exp_bound) linarith+
    finally have "exp d - 1 \<le> r + r\<^sup>2" by simp
    moreover have "1 - exp d \<le> r + r\<^sup>2" using exp_ge_add_one_self [of d] d zero_le_power2 [of r] by linarith
    ultimately show ?thesis by linarith
  qed
  ultimately show ?thesis by (simp add: abs_mult mult_left_mono)
qed

lemma powi_range:
  fixes x :: real
  assumes x: "0.1 \<le> x" "x \<le> 10" and k: "\<bar>k\<bar> \<le> 12"
  shows "1 / 2 ^ 40 \<le> x powi k" "x powi k \<le> 2 ^ 40"
proof -
  have "nat \<bar>k\<bar> \<le> 12" using k by simp
  note r = power_range [OF x this]
  have p: "0 < x ^ nat \<bar>k\<bar>" by (rule less_le_trans [OF _ r(1)]) simp
  show "1 / 2 ^ 40 \<le> x powi k" "x powi k \<le> 2 ^ 40" using r p by (auto simp: power_int_def inverse_eq_divide power_one_over field_simps)
qed

text \<open>The fractional part of the exponent times the logarithm.\<close>

lemma fpow_exponent:
  assumes y: "ffin y" "\<bar>fval y\<bar> \<le> 12" and l: "near l L 0.0012" "\<bar>L\<bar> \<le> 2.4"
  shows "near ((y - i2f (truncate (fval y))) * l) ((fval y - of_int (truncate (fval y))) * L) 0.0013"
proof -
  define k where "k = truncate (fval y)"
  have k: "\<bar>of_int k\<bar> \<le> (12::real)" "\<bar>fval y - of_int k\<bar> \<le> 1" using truncate_bounds [of "fval y"] y(2) by (simp_all add: k_def)
  have "near (i2f k) (of_int k) 0" by (rule near_int) (use k in simp)
  from near_diff [OF near_exact [THEN iffD2, OF y(1)] this, of 1] k(2)
  have "near (y - i2f k) (fval y - of_int k) (0 + 0 + 1 / 2 ^ 24 + 1 / 2 ^ 150)" by simp
  then have d: "near (y - i2f k) (fval y - of_int k) (1 / 2 ^ 23)" by (rule near_mono) simp
  show ?thesis unfolding k_def [symmetric] by (rule near_mono [OF near_mul [OF d l(1) k(2) l(2)]]) simp_all
qed

text \<open>The power: it returns for all bases from 0.1 to 10 and all exponents up to 12, and its relative error is at most one percent.\<close>

lemma fpow_near:
  assumes x: "ffin x" "0.1 \<le> fval x" "fval x \<le> 10" and y: "ffin y" "\<bar>fval y\<bar> \<le> 12"
  shows "\<exists>r. fpow x y = Some r \<and> near r (fval x powr fval y) (fval x powr fval y * 0.01)"
proof -
  define k where "k = truncate (fval y)"
  have k: "\<bar>of_int k\<bar> \<le> (12::real)" "\<bar>fval y - of_int k\<bar> \<le> 1" using truncate_bounds [of "fval y"] y(2) by (simp_all add: k_def)
  then have k12: "\<bar>k\<bar> \<le> 12" by linarith
  have f: "f2i y = Some k" using y(1) abs_le_D1 [OF k12] abs_le_D2 [OF k12] by (simp add: f2i_def to_int_def cval_defs k_def)
  have i: "ffin (i2f 0)" "fval (i2f 0) = 0" using i2f_val [of 0] by simp_all
  have x0: "\<not> x < i2f 0" using float_less [OF x(1) i(1)] i x by simp
  obtain p where p: "power_f x k = Some p" "near p (fval x powi k) (fval x powi k * (1 / 2 ^ 17))" using power_f_near [OF x k12] by blast
  obtain l where l: "xlog x = Some l" "near l (ln (fval x)) 0.0012" using xlog_near [OF x] by blast
  define w where "w = (fval y - of_int k) * ln (fval x)"
  define z where "z = (y - i2f k) * l"
  have z: "near z w 0.0013" using fpow_exponent [OF y l(2) ln_range [OF x(2,3)]] by (simp add: z_def w_def k_def)
  have "\<bar>fval y - of_int k\<bar> * \<bar>ln (fval x)\<bar> \<le> 1 * 2.4" using k ln_range [OF x(2,3)] by (intro mult_mono) simp_all
  then have w: "\<bar>w\<bar> \<le> 2.4" by (simp add: w_def abs_mult)
  have zb: "\<bar>fval z\<bar> \<le> 2.5" using nearD(4) [OF z] w by simp
  obtain e where e: "expo z = Some e" "near e (exp (fval z)) (0.005 * exp (fval z))" using expo_near [OF nearD(1) [OF z] zb] by blast
  have "\<bar>exp (fval z) - exp w\<bar> \<le> exp w * (0.0013 + 0.0013\<^sup>2)" by (rule exp_close) (use z in \<open>simp_all add: near_def\<close>)
  from abs_le_D1 [OF this] abs_le_D2 [OF this] nearD(1,2,3) [OF e(2)]
  have ew: "near e (exp w) (exp w * 0.007)" unfolding near_def abs_le_iff by (simp add: power2_eq_square)
  have E: "1 / 16 \<le> exp w" "exp w \<le> 16" using exp_ge_16th [of w] exp_ge_16th [of "- w"] w by (simp_all add: exp_minus field_simps)
  have "near (p * e) (fval x powi k * exp w) (fval x powi k * exp w * (1 / 2 ^ 17 + 0.007 + 1 / 2 ^ 17 * 0.007 + 1 / 2 ^ 23))"
    by (rule near_mul_rel [OF p(2) ew]) (use powi_range [OF x(2,3) k12] E in simp_all)
  then have "near (p * e) (fval x powi k * exp w) (fval x powi k * exp w * 0.01)"
    by (rule near_mono) (use powi_range [OF x(2,3) k12] E in \<open>simp add: mult_left_mono\<close>)
  moreover have "fval x powi k * exp w = fval x powr fval y"
    using x by (simp add: powr_real_of_int' [symmetric] powr_def w_def exp_add [symmetric] algebra_simps)
  moreover have "fpow x y = Some (p * e)" using f x0 p(1) l(1) e(1) by (simp add: fpow_def z_def)
  ultimately show ?thesis by auto
qed

text \<open>C22. \<^verbatim>\<open>fpow\<close> returns for every base from 0.1 to 10 and every exponent from -12 to 12, and its result is the power up to a relative error of one
  percent: the series of logarithm and exponential are cut off where the code cuts them off, and every operation is rounded to a \<^verbatim>\<open>float\<close>.\<close>

theorem fpow_correct:
  assumes "ffin x" and "0.1 \<le> fval x" and "fval x \<le> 10" and "ffin y" and "\<bar>fval y\<bar> \<le> 12"
  shows "\<exists>r. fpow x y = Some r \<and> ffin r \<and> \<bar>fval r - fval x powr fval y\<bar> \<le> fval x powr fval y / 100"
  using fpow_near [OF assms] by (simp add: near_def)

theorem fpow_correct_witness: "\<exists>r. fpow (i2f 2) (- i2f 3) = Some r \<and> ffin r \<and> \<bar>fval r - 1 / 8\<bar> \<le> 1 / 800"
proof -
  have i: "ffin (i2f 2)" "fval (i2f 2) = 2" "ffin (- i2f 3)" "fval (- i2f 3) = - 3" using i2f_val [of 2] i2f_val [of 3] by simp_all
  have p: "(2::real) powr - 3 = 1 / 8" by (simp add: powr_minus powr_numeral inverse_eq_divide)
  show ?thesis using fpow_correct [of "i2f 2" "- i2f 3", unfolded i(2,4) p] i by simp
qed

end
