(* ===== verification/XenoFlight.thy ===== *)
theory XenoFlight
  imports XenoPow XenoJet
begin

text \<open>
  The first task of the simulation, \<^verbatim>\<open>deduceInputs\<close> of \<^verbatim>\<open>XenoJetBench.c\<close>, against the formulas it stands for: temperature and pressure of the standard
  atmosphere, Mach number, and the conditions of the air brought to rest. The bounds hold for the arithmetic of the code with all its roundings.
\<close>

section \<open>Double precision\<close>

definition dnear :: "float64 \<Rightarrow> real \<Rightarrow> real \<Rightarrow> bool" where
  "dnear a x e \<longleftrightarrow> dfin a \<and> \<bar>dval a - x\<bar> \<le> e"

lemma dnearD:
  assumes "dnear a x e"
  shows "dfin a" "dval a - x \<le> e" "x - dval a \<le> e" "\<bar>dval a\<bar> \<le> \<bar>x\<bar> + e" "\<bar>dval a - x\<bar> \<le> e"
  using assms unfolding dnear_def by linarith+

lemma dnear_mono: "dnear a x e \<Longrightarrow> e \<le> d \<Longrightarrow> dnear a x d"
  by (auto simp: dnear_def)

lemma dnear_rnd:
  assumes v: "\<bar>v - x\<bar> \<le> e" and M: "\<bar>v\<bar> \<le> M" "M \<le> 2 ^ 100"
  shows "\<bar>v\<bar> \<le> 2 ^ 200" "\<bar>rnd double v - x\<bar> \<le> e + M / 2 ^ 52 + 1 / 2 ^ 200"
proof -
  show b: "\<bar>v\<bar> \<le> 2 ^ 200" using M by simp
  have "\<bar>rnd double v - v\<bar> \<le> M / 2 ^ 52 + 1 / 2 ^ 200" using rnd_double_abs [OF b] M(1) by simp
  then show "\<bar>rnd double v - x\<bar> \<le> e + M / 2 ^ 52 + 1 / 2 ^ 200" using v by linarith
qed

lemma dnear_f2d: "near a x e \<Longrightarrow> dnear (f2d a) x e"
  by (simp add: near_def dnear_def)

lemma dnear_lit: "\<bar>c\<bar> \<le> M \<Longrightarrow> M \<le> 2 ^ 100 \<Longrightarrow> dnear (lit c) c (M / 2 ^ 52 + 1 / 2 ^ 200)"
  using dnear_rnd [of c c 0 M] lit_val [of c] by (simp add: dnear_def)

lemma dnear_add:
  assumes a: "dnear a x d" and b: "dnear b y e" and M: "\<bar>x + y\<bar> + d + e \<le> M" "M \<le> 2 ^ 100"
  shows "dnear (a + b) (x + y) (d + e + M / 2 ^ 52 + 1 / 2 ^ 200)"
proof -
  have v: "\<bar>(dval a + dval b) - (x + y)\<bar> \<le> d + e" using dnearD(2,3) [OF a] dnearD(2,3) [OF b] by linarith
  then have "\<bar>dval a + dval b\<bar> \<le> M" using M(1) by linarith
  from dnear_rnd [OF v this M(2)] double_add [OF dnearD(1) [OF a] dnearD(1) [OF b]] show ?thesis by (simp add: dnear_def)
qed

lemma dnear_diff:
  assumes a: "dnear a x d" and b: "dnear b y e" and M: "\<bar>x - y\<bar> + d + e \<le> M" "M \<le> 2 ^ 100"
  shows "dnear (a - b) (x - y) (d + e + M / 2 ^ 52 + 1 / 2 ^ 200)"
proof -
  have v: "\<bar>(dval a - dval b) - (x - y)\<bar> \<le> d + e" using dnearD(2,3) [OF a] dnearD(2,3) [OF b] by linarith
  then have "\<bar>dval a - dval b\<bar> \<le> M" using M(1) by linarith
  from dnear_rnd [OF v this M(2)] double_sub [OF dnearD(1) [OF a] dnearD(1) [OF b]] show ?thesis by (simp add: dnear_def)
qed

lemma dnear_mul:
  assumes a: "dnear a x d" and b: "dnear b y e" and AB: "\<bar>x\<bar> \<le> A" "\<bar>y\<bar> \<le> B" and M: "(A + d) * (B + e) \<le> 2 ^ 100"
  shows "dnear (a * b) (x * y) (d * (B + e) + A * e + (A + d) * (B + e) / 2 ^ 52 + 1 / 2 ^ 200)"
proof -
  note m = mul_error [OF dnearD(5) [OF a] dnearD(5) [OF b] AB]
  from dnear_rnd [OF m M] double_mul [OF dnearD(1) [OF a] dnearD(1) [OF b]] show ?thesis by (simp add: dnear_def)
qed

lemma div_error:
  fixes a b x y A L d e :: real
  assumes a: "\<bar>a - x\<bar> \<le> d" and b: "\<bar>b - y\<bar> \<le> e" and A: "\<bar>x\<bar> \<le> A" and L: "0 < L" "L \<le> y" "L \<le> y - e"
  shows "\<bar>a / b - x / y\<bar> \<le> d / L + A * e / (L * L)" "\<bar>a / b\<bar> \<le> (A + d) / L" "b \<noteq> 0"
proof -
  have b0: "L \<le> b" "0 < b" "0 < y" using b L by linarith+
  have d: "0 \<le> d" "0 \<le> e" "0 \<le> A" "\<bar>a\<bar> \<le> A + d" using a b A by linarith+
  show "b \<noteq> 0" using b0 by simp
  have "a / b - x / y = (a - x) / b + x * (y - b) / (b * y)" using b0 by (simp add: field_simps)
  then have "\<bar>a / b - x / y\<bar> \<le> \<bar>(a - x) / b\<bar> + \<bar>x * (y - b) / (b * y)\<bar>" by (simp only: abs_triangle_ineq)
  also have "\<dots> = \<bar>a - x\<bar> / b + \<bar>x\<bar> * \<bar>b - y\<bar> / (b * y)" using b0 by (simp add: abs_mult abs_minus_commute)
  also have "\<dots> \<le> d / L + A * e / (L * L)" using a b A L b0 d by (intro add_mono frac_le mult_mono) auto
  finally show "\<bar>a / b - x / y\<bar> \<le> d / L + A * e / (L * L)" .
  show "\<bar>a / b\<bar> \<le> (A + d) / L" using d b0 L by (simp add: abs_divide) (intro frac_le; simp)
qed

lemma dnear_div:
  assumes a: "dnear a x d" and b: "dnear b y e" and A: "\<bar>x\<bar> \<le> A" and L: "0 < L" "L \<le> y" "L \<le> y - e" and M: "(A + d) / L \<le> 2 ^ 100"
  shows "dnear (a / b) (x / y) (d / L + A * e / (L * L) + (A + d) / L / 2 ^ 52 + 1 / 2 ^ 200)"
proof -
  note m = div_error [OF dnearD(5) [OF a] dnearD(5) [OF b] A L]
  from dnear_rnd [OF m(1,2) M] double_div [OF dnearD(1) [OF a] dnearD(1) [OF b]] m(3) show ?thesis by (simp add: dnear_def)
qed

lemma near_div:
  assumes a: "near a x d" and b: "near b y e" and A: "\<bar>x\<bar> \<le> A" and L: "0 < L" "L \<le> y" "L \<le> y - e" and M: "(A + d) / L \<le> 2 ^ 100"
  shows "near (a / b) (x / y) (d / L + A * e / (L * L) + (A + d) / L / 2 ^ 24 + 1 / 2 ^ 150)"
proof -
  note m = div_error [OF a [unfolded near_def, THEN conjunct2] b [unfolded near_def, THEN conjunct2] A L]
  from near_rnd [OF m(1,2) M] float_div [OF nearD(1) [OF a] nearD(1) [OF b]] m(3) show ?thesis by (simp add: near_def)
qed

lemma near_d2f:
  assumes a: "dnear a x d" and M: "\<bar>x\<bar> + d \<le> M" "M \<le> 2 ^ 100"
  shows "near (d2f a) x (d + M / 2 ^ 24 + 1 / 2 ^ 150)"
proof -
  have m: "\<bar>dval a\<bar> \<le> M" using dnearD(4) [OF a] M(1) by linarith
  from near_rnd [OF dnearD(5) [OF a] m M(2)] d2f_val [OF dnearD(1) [OF a]] show ?thesis by (simp add: near_def)
qed

lemma near_flit: "\<bar>c\<bar> \<le> M \<Longrightarrow> M \<le> 2 ^ 100 \<Longrightarrow> near (flit c) c (M / 2 ^ 22 + 1 / 2 ^ 100)"
  using const_val [of c] by (simp add: near_def)

section \<open>Powers of approximate numbers\<close>

lemma powr_close:
  fixes x y X Y d e :: real
  assumes x: "0.1 \<le> x" "x \<le> 10" and X: "0.1 \<le> X" and xX: "\<bar>x - X\<bar> \<le> X * d" and d: "d \<le> 0.0001" and yY: "\<bar>y - Y\<bar> \<le> e" and e: "e \<le> 0.0001"
    and Y: "\<bar>Y\<bar> \<le> 12"
  shows "\<bar>x powr y - X powr Y\<bar> \<le> X powr Y * 0.0027"
proof -
  have "y * ln x - Y * ln X = (y - Y) * ln x + Y * (ln x - ln X)" by (simp add: algebra_simps)
  then have "\<bar>y * ln x - Y * ln X\<bar> \<le> \<bar>y - Y\<bar> * \<bar>ln x\<bar> + \<bar>Y\<bar> * \<bar>ln x - ln X\<bar>" using abs_triangle_ineq by (simp add: abs_mult [symmetric])
  also have "\<dots> \<le> 0.0001 * 2.4 + 12 * (2 * 0.0001)"
  proof (intro add_mono mult_mono)
    show "\<bar>ln x\<bar> \<le> 2.4" by (rule ln_range [OF x])
    have "\<bar>ln x - ln X\<bar> \<le> 2 * d" by (rule ln_close) (use X xX d in simp_all)
    then show "\<bar>ln x - ln X\<bar> \<le> 2 * 0.0001" using d by linarith
  qed (use yY e Y in simp_all)
  finally have "\<bar>y * ln x - Y * ln X\<bar> \<le> 0.00264" by simp
  from exp_close [OF this] have "\<bar>exp (y * ln x) - exp (Y * ln X)\<bar> \<le> exp (Y * ln X) * (0.00264 + 0.00264\<^sup>2)" by simp
  also have "\<dots> \<le> exp (Y * ln X) * 0.0027" by (intro mult_left_mono) (simp_all add: power2_eq_square)
  finally show ?thesis using x X by (simp add: powr_def)
qed

lemma fpow_approx:
  assumes x: "near x X (X * d)" and X: "0.11 \<le> X" "X \<le> 9" and d: "d \<le> 0.0001" and y: "near y Y e" and e: "e \<le> 0.0001" and Y: "\<bar>Y\<bar> \<le> 11"
  shows "\<exists>r. fpow x y = Some r \<and> near r (X powr Y) (X powr Y * 0.013)"
proof -
  have "X * d \<le> 9 * 0.0001" using X d nearD(5) [OF x] by (intro mult_mono) (simp_all add: zero_le_mult_iff)
  then have xr: "0.1 \<le> fval x" "fval x \<le> 10" using nearD(2,3) [OF x] X by simp_all
  have yr: "\<bar>fval y\<bar> \<le> 12" using nearD(4) [OF y] e Y by simp
  obtain r where r: "fpow x y = Some r" "near r (fval x powr fval y) (fval x powr fval y * 0.01)" using fpow_near [OF nearD(1) [OF x] xr nearD(1) [OF y] yr] by blast
  have "\<bar>fval x powr fval y - X powr Y\<bar> \<le> X powr Y * 0.0027"
    by (rule powr_close [OF xr _ _ d _ e]) (use x y X Y in \<open>simp_all add: near_def\<close>)
  from abs_le_D1 [OF this] abs_le_D2 [OF this] nearD(1,2,3) [OF r(2)] have "near r (X powr Y) (X powr Y * 0.013)" unfolding near_def abs_le_iff by simp
  then show ?thesis using r(1) by blast
qed

section \<open>The standard atmosphere\<close>

definition std_temp :: "real \<Rightarrow> real" where
  "std_temp h = (if h < 36152 then 518.6 - 3.56 * h / 1000 else 389.98)"

definition std_pressure :: "real \<Rightarrow> real" where
  "std_pressure h = (if h < 36152 then 2116 * (std_temp h / 518.6) powr 5.256 else 2116 * 0.2236 * exp ((36000 - h) / (53.35 * 389.98)))"

lemma std_temp_range: "0 \<le> h \<Longrightarrow> 389.8 \<le> std_temp h" "0 \<le> h \<Longrightarrow> std_temp h \<le> 518.6"
  by (simp_all add: std_temp_def)

lemma tropo_ratio:
  fixes x :: real
  assumes "0.75 \<le> x" and "x \<le> 1"
  shows "0.1 \<le> x powr 5.256" "x powr 5.256 \<le> 1"
proof -
  have "(0.75::real) ^ 6 \<le> x ^ 6" using assms by (intro power_mono) simp_all
  also have "\<dots> = x powr 6" using assms by (simp add: powr_numeral)
  also have "\<dots> \<le> x powr 5.256" using assms by (intro powr_mono') simp_all
  finally show "0.1 \<le> x powr 5.256" by (simp add: power_divide)
  show "x powr 5.256 \<le> 1" using assms by (intro powr_le1) simp_all
qed

lemma std_pressure_range:
  assumes "0 \<le> h" and "h \<le> 82345"
  shows "20 \<le> std_pressure h" "std_pressure h \<le> 2116"
proof -
  have "20 \<le> std_pressure h \<and> std_pressure h \<le> 2116"
  proof (cases "h < 36152")
    case True
    define x where "x = std_temp h / 518.6"
    have x: "0.75 \<le> x" "x \<le> 1" using std_temp_range [OF assms(1)] by (simp_all add: x_def)
    show ?thesis using tropo_ratio [OF x] True by (simp add: std_pressure_def x_def)
  next
    case False
    define z where "z = (36000 - h) / (53.35 * 389.98)"
    have z: "\<bar>z\<bar> \<le> 2.5" "z \<le> 0" using False assms by (simp_all add: z_def abs_le_iff field_simps)
    define w where "w = exp z"
    have "1 / 16 \<le> w" "w \<le> 1" using exp_ge_16th [OF z(1)] z(2) by (simp_all add: w_def)
    moreover have "std_pressure h = 2116 * 0.2236 * w" using False by (simp add: std_pressure_def w_def z_def)
    ultimately show ?thesis by simp
  qed
  then show "20 \<le> std_pressure h" "std_pressure h \<le> 2116" by simp_all
qed

lemma tropo_temp:
  assumes a: "ffin a" and h: "0 \<le> fval a" "fval a \<le> 36152"
  shows "near (d2f (lit 518.6 - lit 3.56 * f2d a / lit 1000)) (518.6 - 3.56 * fval a / 1000) 0.0001"
proof -
  have f: "dnear (f2d a) (fval a) 0" using a by (simp add: dnear_def)
  have l: "dnear (lit 3.56) 3.56 (1 / 2 ^ 49)" "dnear (lit 1000) 1000 (1 / 2 ^ 40)" "dnear (lit 518.6) 518.6 (1 / 2 ^ 40)"
    using dnear_mono [OF dnear_lit [of "3.56" 4], of "1 / 2 ^ 49"] dnear_mono [OF dnear_lit [of 1000 1000], of "1 / 2 ^ 40"]
      dnear_mono [OF dnear_lit [of "518.6" 1000], of "1 / 2 ^ 40"] by simp_all
  have 1: "dnear (lit 3.56 * f2d a) (3.56 * fval a) (1 / 2 ^ 20)"
    by (rule dnear_mono [OF dnear_mul [OF l(1) f, where A = 4 and B = 36152]]) (use h in simp_all)
  have 2: "dnear (lit 3.56 * f2d a / lit 1000) (3.56 * fval a / 1000) (1 / 2 ^ 20)"
    by (rule dnear_mono [OF dnear_div [OF 1 l(2), where A = 130000 and L = 999]]) (use h in simp_all)
  have 3: "dnear (lit 518.6 - lit 3.56 * f2d a / lit 1000) (518.6 - 3.56 * fval a / 1000) (1 / 2 ^ 19)"
    by (rule dnear_mono [OF dnear_diff [OF l(3) 2, where M = 520]]) (use h in simp_all)
  show ?thesis by (rule near_mono [OF near_d2f [OF 3, where M = 520]]) (use h in simp_all)
qed

text \<open>A factor in front of a number with a relative error.\<close>

lemma near_scale:
  assumes r: "near r X (X * d)" and X: "0.05 \<le> X" "X \<le> 20" and d: "0 \<le> d" "d \<le> 0.1" and c: "dnear c C (1 / 2 ^ 30)" "1 \<le> C" "C \<le> 3000"
  shows "near (d2f (c * f2d r)) (C * X) (C * X * (d + 0.0001))"
proof -
  define p where "p = C * X"
  have p: "X \<le> p" "p \<le> 60000" using mult_mono [of C 3000 X 20] mult_right_mono [of 1 C X] c X by (simp_all add: p_def)
  have Xd: "0 \<le> X * d" "X * d \<le> X * 0.1" "0 \<le> p * d" "p * d \<le> p * 0.1" using X d p by (simp_all add: mult_left_mono)
  have "(C + 1 / 2 ^ 30) * (X + X * d) \<le> (2 * C) * (2 * X)" using c X Xd by (intro mult_mono) simp_all
  then have M: "(C + 1 / 2 ^ 30) * (X + X * d) \<le> 4 * p" by (simp add: p_def)
  have "dnear (c * f2d r) (C * X) (1 / 2 ^ 30 * (X + X * d) + C * (X * d) + (C + 1 / 2 ^ 30) * (X + X * d) / 2 ^ 52 + 1 / 2 ^ 200)"
    by (rule dnear_mul [OF c(1) dnear_f2d [OF r]]) (use c X M p in simp_all)
  then have m: "dnear (c * f2d r) p (p * d + p / 2 ^ 28)" unfolding p_def [symmetric]
  proof (rule dnear_mono)
    have "C * (X * d) = p * d" by (simp add: p_def)
    moreover have "1 / 2 ^ 30 * (X + X * d) \<le> 1 / 2 ^ 30 * (2 * p)" using Xd p X by (intro mult_left_mono; linarith?) simp
    then have "1 / 2 ^ 30 * (X + X * d) \<le> p / 2 ^ 29" by simp
    moreover have "(C + 1 / 2 ^ 30) * (X + X * d) / 2 ^ 52 \<le> p / 2 ^ 50" by (rule order_trans [OF divide_right_mono [OF M]]) simp_all
    moreover have "p / 2 ^ 29 + p / 2 ^ 50 + 1 / 2 ^ 200 \<le> p / 2 ^ 28" using p X by simp
    ultimately show "1 / 2 ^ 30 * (X + X * d) + C * (X * d) + (C + 1 / 2 ^ 30) * (X + X * d) / 2 ^ 52 + 1 / 2 ^ 200 \<le> p * d + p / 2 ^ 28" by linarith
  qed
  have "\<bar>p\<bar> + (p * d + p / 2 ^ 28) \<le> p + (p * 0.1 + p / 2 ^ 28)" using Xd p X by linarith
  also have "\<dots> \<le> 2 * p" using p X by simp
  finally have "near (d2f (c * f2d r)) p (p * d + p / 2 ^ 28 + 2 * p / 2 ^ 24 + 1 / 2 ^ 150)" by (rule near_d2f [OF m]) (use p in simp)
  then show ?thesis unfolding p_def [symmetric] by (rule near_mono) (use p X in \<open>simp add: distrib_left\<close>)
qed

lemma tropo_pressure:
  assumes t: "near t T 0.0001" and T: "389.8 \<le> T" "T \<le> 518.6"
  shows "\<exists>r. fpow (d2f (f2d t / lit 518.6)) (flit 5.256) = Some r \<and>
    near (d2f (lit 2116 * f2d r)) (2116 * (T / 518.6) powr 5.256) (2116 * (T / 518.6) powr 5.256 * 0.014)"
proof -
  define X where "X = T / 518.6"
  have X: "0.75 \<le> X" "X \<le> 1" using T by (simp_all add: X_def)
  have l: "dnear (lit 518.6) 518.6 (1 / 2 ^ 40)" "dnear (lit 2116) 2116 (1 / 2 ^ 30)"
    using dnear_mono [OF dnear_lit [of "518.6" 1000], of "1 / 2 ^ 40"] dnear_mono [OF dnear_lit [of 2116 2116], of "1 / 2 ^ 30"] by simp_all
  have 1: "dnear (f2d t / lit 518.6) (T / 518.6) 0.000001"
    by (rule dnear_mono [OF dnear_div [OF dnear_f2d [OF t] l(1), where A = 519 and L = 518]]) (use T in simp_all)
  have 2: "near (d2f (f2d t / lit 518.6)) X (X * 0.00001)"
    by (rule near_mono [OF near_d2f [OF 1 [folded X_def], where M = 2]]) (use X in simp_all)
  have y: "near (flit 5.256) 5.256 0.0001" using near_mono [OF near_flit [of "5.256" 6], of "0.0001"] by simp
  from fpow_approx [OF 2 _ _ _ y] X
  obtain r where r: "fpow (d2f (f2d t / lit 518.6)) (flit 5.256) = Some r" "near r (X powr 5.256) (X powr 5.256 * 0.013)" by auto
  note P = tropo_ratio [OF X]
  have "near (d2f (lit 2116 * f2d r)) (2116 * X powr 5.256) (2116 * X powr 5.256 * (0.013 + 0.0001))"
    by (rule near_scale [OF r(2) _ _ _ _ l(2)]) (use P in simp_all)
  then have "near (d2f (lit 2116 * f2d r)) (2116 * X powr 5.256) (2116 * X powr 5.256 * 0.014)" by (rule near_mono) (use P in simp)
  then show ?thesis using r(1) by (simp add: X_def)
qed

lemma strato_pressure:
  assumes a: "ffin a" and h: "36000 \<le> fval a" "fval a \<le> 82345"
  defines "p \<equiv> 2116 * 0.2236 * exp ((36000 - fval a) / (53.35 * 389.98))"
  shows "\<exists>r. expo (d2f ((lit 36000 - f2d a) / (lit 53.35 * lit 389.98))) = Some r \<and> near (d2f (lit 2116 * lit 0.2236 * f2d r)) p (p * 0.014)"
proof -
  have f: "dnear (f2d a) (fval a) 0" using a by (simp add: dnear_def)
  have l: "dnear (lit 36000) 36000 (1 / 2 ^ 35)" "dnear (lit 53.35) 53.35 (1 / 2 ^ 45)" "dnear (lit 389.98) 389.98 (1 / 2 ^ 40)"
      "dnear (lit 2116) 2116 (1 / 2 ^ 40)" "dnear (lit 0.2236) 0.2236 (1 / 2 ^ 50)"
    using dnear_mono [OF dnear_lit [of "36000" 40000], of "1 / 2 ^ 35"] dnear_mono [OF dnear_lit [of "53.35" 60], of "1 / 2 ^ 45"]
      dnear_mono [OF dnear_lit [of "389.98" 400], of "1 / 2 ^ 40"] dnear_mono [OF dnear_lit [of "2116" 3000], of "1 / 2 ^ 40"]
      dnear_mono [OF dnear_lit [of "0.2236" 1], of "1 / 2 ^ 50"] by simp_all
  have 1: "dnear (lit 36000 - f2d a) (36000 - fval a) (1 / 2 ^ 30)" by (rule dnear_mono [OF dnear_diff [OF l(1) f, where M = 50000]]) (use h in simp_all)
  have 2: "dnear (lit 53.35 * lit 389.98) (53.35 * 389.98) (1 / 2 ^ 30)" by (rule dnear_mono [OF dnear_mul [OF l(2,3), where A = 54 and B = 390]]) simp_all
  define Z where "Z = (36000 - fval a) / (53.35 * 389.98)"
  have Z: "\<bar>Z\<bar> \<le> 2.3" "Z \<le> 0" using h by (simp_all add: Z_def abs_le_iff field_simps)
  have 3: "dnear ((lit 36000 - f2d a) / (lit 53.35 * lit 389.98)) Z (1 / 2 ^ 20)"
    unfolding Z_def by (rule dnear_mono [OF dnear_div [OF 1 2, where A = 46345 and L = 20000]]) (use h in simp_all)
  define z where "z = d2f ((lit 36000 - f2d a) / (lit 53.35 * lit 389.98))"
  have z: "near z Z 0.00001" unfolding z_def by (rule near_mono [OF near_d2f [OF 3, where M = 3]]) (use Z in simp_all)
  have zb: "\<bar>fval z\<bar> \<le> 2.5" using nearD(4) [OF z] Z by simp
  obtain r where r: "expo z = Some r" "near r (exp (fval z)) (0.005 * exp (fval z))" using expo_near [OF nearD(1) [OF z] zb] by blast
  define E where "E = exp Z"
  have E: "1 / 16 \<le> E" "E \<le> 1" using exp_ge_16th [of Z] Z by (simp_all add: E_def)
  have "\<bar>exp (fval z) - E\<bar> \<le> E * (0.00001 + 0.00001\<^sup>2)" unfolding E_def by (rule exp_close) (use z in \<open>simp_all add: near_def\<close>)
  from abs_le_D1 [OF this] abs_le_D2 [OF this] nearD(1,2,3) [OF r(2)]
  have rE: "near r E (E * 0.006)" unfolding near_def abs_le_iff by (simp add: power2_eq_square)
  have 4: "dnear (lit 2116 * lit 0.2236) (2116 * 0.2236) (1 / 2 ^ 30)" by (rule dnear_mono [OF dnear_mul [OF l(4,5), where A = 2116 and B = 1]]) simp_all
  have "near (d2f (lit 2116 * lit 0.2236 * f2d r)) (2116 * 0.2236 * E) (2116 * 0.2236 * E * (0.006 + 0.0001))"
    by (rule near_scale [OF rE _ _ _ _ 4]) (use E in simp_all)
  then have "near (d2f (lit 2116 * lit 0.2236 * f2d r)) (2116 * 0.2236 * E) (2116 * 0.2236 * E * 0.014)" by (rule near_mono) (use E in simp)
  then show ?thesis using r(1) unfolding p_def E_def Z_def z_def by blast
qed

lemma lit_int:
  assumes "\<bar>of_int k\<bar> < (2::real) ^ 53"
  shows "dfin (lit (of_int k))" "dval (lit (of_int k)) = of_int k"
  using lit_val [of "of_int k"] rnd_double_int [OF assms] assms by simp_all

lemma altitude_tests:
  assumes "ffin a"
  shows "f2d a < lit 36152 \<longleftrightarrow> fval a < 36152" "lit 36152 \<le> f2d a \<longleftrightarrow> 36152 \<le> fval a" "f2d a \<le> lit 82345 \<longleftrightarrow> fval a \<le> 82345"
    "lit 82345 \<le> f2d a \<longleftrightarrow> 82345 \<le> fval a"
proof -
  have l: "dfin (lit 36152)" "dval (lit 36152) = 36152" "dfin (lit 82345)" "dval (lit 82345) = 82345" using lit_int [of 36152] lit_int [of 82345] by simp_all
  have a: "dfin (f2d a)" using assms by simp
  show "f2d a < lit 36152 \<longleftrightarrow> fval a < 36152" "lit 36152 \<le> f2d a \<longleftrightarrow> 36152 \<le> fval a" "f2d a \<le> lit 82345 \<longleftrightarrow> fval a \<le> 82345"
    "lit 82345 \<le> f2d a \<longleftrightarrow> 82345 \<le> fval a"
    unfolding double_less [OF a l(1)] double_le [OF l(1) a] double_le [OF a l(3)] double_le [OF l(3) a] f2d_val l by (rule refl)+
qed

lemma atmosphere_near:
  assumes a: "ffin a" and h: "0 \<le> fval a" "fval a < 82345"
  shows "\<exists>t p. atmosphere a ts ps = Some (t, p) \<and> near t (std_temp (fval a)) 0.0001 \<and> near p (std_pressure (fval a)) (std_pressure (fval a) * 0.014)"
proof (cases "fval a < 36152")
  case True
  define t where "t = d2f (lit 518.6 - lit 3.56 * f2d a / lit 1000)"
  have t: "near t (std_temp (fval a)) 0.0001" using tropo_temp [OF a h(1)] True by (simp add: t_def std_temp_def)
  from tropo_pressure [OF t std_temp_range [OF h(1)]] obtain r where "fpow (d2f (f2d t / lit 518.6)) (flit 5.256) = Some r"
      "near (d2f (lit 2116 * f2d r)) (std_pressure (fval a)) (std_pressure (fval a) * 0.014)" using True by (auto simp: std_pressure_def)
  then show ?thesis using t True h by (simp add: atmosphere_def altitude_tests [OF a] Let_def t_def)
next
  case False
  then have h': "36000 \<le> fval a" "fval a \<le> 82345" using h by simp_all
  from strato_pressure [OF a h'] obtain r where r: "expo (d2f ((lit 36000 - f2d a) / (lit 53.35 * lit 389.98))) = Some r"
      "near (d2f (lit 2116 * lit 0.2236 * f2d r)) (std_pressure (fval a)) (std_pressure (fval a) * 0.014)" using False by (auto simp: std_pressure_def)
  have "near (flit 389.98) (std_temp (fval a)) 0.0001" using near_mono [OF near_flit [of "389.98" 400], of "0.0001"] False by (simp add: std_temp_def)
  then show ?thesis using r False h by (simp add: atmosphere_def altitude_tests [OF a] Let_def)
qed

section \<open>Speed of sound and Mach number\<close>

lemma sqrt_close:
  fixes v V e L :: real
  assumes "\<bar>v - V\<bar> \<le> e" and "0 < L" and "L\<^sup>2 \<le> V" and "L\<^sup>2 \<le> v"
  shows "\<bar>sqrt v - sqrt V\<bar> \<le> e / (2 * L)"
proof -
  have p: "0 \<le> v" "0 \<le> V" using assms(3,4) order_trans [OF zero_le_power2 [of L]] by blast+
  have s: "L \<le> sqrt v" "L \<le> sqrt V" using assms by (simp_all add: real_le_rsqrt)
  have "(sqrt v - sqrt V) * (sqrt v + sqrt V) = v - V" using p by (simp add: algebra_simps)
  then have "\<bar>sqrt v - sqrt V\<bar> * (sqrt v + sqrt V) = \<bar>v - V\<bar>" using p by (metis abs_mult abs_of_nonneg add_nonneg_nonneg real_sqrt_ge_zero)
  moreover have "\<bar>sqrt v - sqrt V\<bar> * (2 * L) \<le> \<bar>sqrt v - sqrt V\<bar> * (sqrt v + sqrt V)" using s by (intro mult_left_mono) simp_all
  ultimately have "\<bar>sqrt v - sqrt V\<bar> * (2 * L) \<le> e" using assms(1) by linarith
  then show ?thesis using assms(2) by (simp add: le_divide_eq)
qed

definition sound_speed :: "real \<Rightarrow> real" where
  "sound_speed T = sqrt (1.4 * 1718 * T)"

lemma sound_speed_range:
  assumes "389.8 \<le> T" and "T \<le> 518.6"
  shows "968 \<le> sound_speed T" "sound_speed T \<le> 1118"
  unfolding sound_speed_def using assms by (auto intro!: real_le_rsqrt real_le_lsqrt simp: power2_eq_square)

lemma near_gamma: "near (flit 1.4) 1.4 0.000001"
  using near_mono [OF near_flit [of "1.4" 2], of "0.000001"] by simp

lemma sound_speed_near:
  assumes t: "near t T 0.0001" and T: "389.8 \<le> T" "T \<le> 518.6"
  shows "\<exists>a. sqroot (flit 1.4 * flit 1718 * t) = Some a \<and> near a (sound_speed T) 0.004"
proof -
  have r: "near (flit 1718) 1718 0.0006" using near_mono [OF near_flit [of 1718 2000], of "0.0006"] by simp
  have 1: "near (flit 1.4 * flit 1718) (1.4 * 1718) 0.004" by (rule near_mono [OF near_mul [OF near_gamma r, where A = "1.4" and B = 1718]]) simp_all
  let ?v = "flit 1.4 * flit 1718 * t"
  have 2: "near ?v (1.4 * 1718 * T) 3" by (rule near_mono [OF near_mul [OF 1 t, where A = 2406 and B = 519]]) (use T in simp_all)
  have V: "968\<^sup>2 \<le> 1.4 * 1718 * T" "968\<^sup>2 \<le> fval ?v" "fval ?v \<le> 1300000" using T nearD(2,3) [OF 2] by (simp_all add: power2_eq_square)
  have rr: "root_range ?v" using nearD(1) [OF 2] V by (simp add: root_range_def power2_eq_square)
  from sqroot_ends [OF this] obtain a where a: "sqroot ?v = Some a" "root_close ?v a" by blast
  have s: "\<bar>sqrt (fval ?v) - sound_speed T\<bar> \<le> 3 / (2 * 968)" unfolding sound_speed_def by (rule sqrt_close) (use V 2 in \<open>simp_all add: near_def\<close>)
  have "sqrt (fval ?v) \<le> 1200" by (rule real_le_lsqrt) (use V in \<open>simp_all add: power2_eq_square\<close>)
  moreover have "\<bar>fval a - sqrt (fval ?v)\<bar> \<le> sqrt (fval ?v) / 2 ^ 20" "ffin a" using a(2) by (simp_all add: root_close_def)
  ultimately have "near a (sound_speed T) 0.004" using s unfolding near_def abs_le_iff by simp
  then show ?thesis using a(1) by blast
qed

lemma airspeed_near:
  assumes v: "ffin v" "0 \<le> fval v" "fval v \<le> 1500"
  shows "near (d2f (f2d v * lit 5280 / lit 3600)) (fval v * 5280 / 3600) 0.0002"
proof -
  have f: "dnear (f2d v) (fval v) 0" using v by (simp add: dnear_def)
  have l: "dnear (lit 5280) 5280 (1 / 2 ^ 35)" "dnear (lit 3600) 3600 (1 / 2 ^ 35)"
    using dnear_mono [OF dnear_lit [of 5280 5280], of "1 / 2 ^ 35"] dnear_mono [OF dnear_lit [of 3600 3600], of "1 / 2 ^ 35"] by simp_all
  have 1: "dnear (f2d v * lit 5280) (fval v * 5280) 0.0001" by (rule dnear_mono [OF dnear_mul [OF f l(1), where A = 1500 and B = 5280]]) (use v in simp_all)
  have 2: "dnear (f2d v * lit 5280 / lit 3600) (fval v * 5280 / 3600) 0.000001"
    by (rule dnear_mono [OF dnear_div [OF 1 l(2), where A = 7920000 and L = 3500]]) (use v in simp_all)
  show ?thesis by (rule near_mono [OF near_d2f [OF 2, where M = 2300]]) (use v in simp_all)
qed

definition mach_number :: "real \<Rightarrow> real \<Rightarrow> real" where
  "mach_number h v = v * 5280 / 3600 / sound_speed (std_temp h)"

lemma mach_number_range:
  assumes "0 \<le> h" and "0 \<le> v" and "v \<le> 1500"
  shows "0 \<le> mach_number h v" "mach_number h v \<le> 2.3"
proof -
  note s = sound_speed_range [OF std_temp_range [OF assms(1)]]
  show "0 \<le> mach_number h v" using assms s by (simp add: mach_number_def)
  have "v * 5280 / 3600 / sound_speed (std_temp h) \<le> 2200 / 968" by (rule frac_le) (use assms s in simp_all)
  then show "mach_number h v \<le> 2.3" by (simp add: mach_number_def)
qed

lemma mach_near:
  assumes u: "near u (v * 5280 / 3600) 0.0002" and v: "0 \<le> v" "v \<le> 1500" and a: "near a (sound_speed (std_temp h)) 0.004" and h: "0 \<le> h"
  shows "near (u / a) (mach_number h v) 0.00002"
  unfolding mach_number_def
  by (rule near_mono [OF near_div [OF u a, where A = 2200 and L = 960]]) (use v sound_speed_range [OF std_temp_range [OF h]] in simp_all)

text \<open>The temperature of the air brought to rest, as a factor.\<close>

definition total_ratio :: "real \<Rightarrow> real" where
  "total_ratio m = 1 + 0.2 * m\<^sup>2"

lemma total_ratio_range: "0 \<le> m \<Longrightarrow> m \<le> 2.3 \<Longrightarrow> 1 \<le> total_ratio m" "0 \<le> m \<Longrightarrow> m \<le> 2.3 \<Longrightarrow> total_ratio m \<le> 2.1"
  using power_mono [of m "2.3" 2] by (simp_all add: total_ratio_def power2_eq_square)

lemma total_ratio_near:
  assumes m: "near m M 0.00002" and M: "0 \<le> M" "M \<le> 2.3"
  shows "dnear (lit 1 + lit 0.5 * (f2d (flit 1.4) - lit 1) * f2d m * f2d m) (total_ratio M) 0.00003"
proof -
  note g = dnear_f2d [OF near_gamma] and f = dnear_f2d [OF m]
  have l: "dnear (lit 1) 1 (1 / 2 ^ 50)" "dnear (lit 0.5) 0.5 (1 / 2 ^ 50)"
    using dnear_mono [OF dnear_lit [of 1 1], of "1 / 2 ^ 50"] dnear_mono [OF dnear_lit [of "0.5" 1], of "1 / 2 ^ 50"] by simp_all
  have 1: "dnear (f2d (flit 1.4) - lit 1) (1.4 - 1) 0.0000011" by (rule dnear_mono [OF dnear_diff [OF g l(1), where M = 1]]) simp_all
  have 2: "dnear (lit 0.5 * (f2d (flit 1.4) - lit 1)) (0.5 * (1.4 - 1)) 0.0000006" by (rule dnear_mono [OF dnear_mul [OF l(2) 1, where A = "0.5" and B = "0.4"]]) simp_all
  have 3: "dnear (lit 0.5 * (f2d (flit 1.4) - lit 1) * f2d m) (0.5 * (1.4 - 1) * M) 0.000006"
    by (rule dnear_mono [OF dnear_mul [OF 2 f, where A = "0.2" and B = "2.3"]]) (use M in simp_all)
  have 4: "dnear (lit 0.5 * (f2d (flit 1.4) - lit 1) * f2d m * f2d m) (0.5 * (1.4 - 1) * M * M) 0.000025"
    by (rule dnear_mono [OF dnear_mul [OF 3 f, where A = "0.46" and B = "2.3"]]) (use M in simp_all)
  have e: "1 + 0.5 * (1.4 - 1) * M * M = total_ratio M" by (simp add: total_ratio_def power2_eq_square)
  show ?thesis by (rule dnear_mono [OF dnear_add [OF l(1) 4, where M = 3, unfolded e]]) (use total_ratio_range [OF M] in simp_all)
qed

lemma total_temp_near:
  assumes t: "near t T 0.0001" and T: "389.8 \<le> T" "T \<le> 518.6" and f: "dnear f F 0.00003" and F: "1 \<le> F" "F \<le> 2.1"
  shows "near (d2f (f2d t * f)) (T * F) 0.017" "near (d2f (f2d t * f) / t) F (F * 0.0001)"
proof -
  have TF: "389.8 * 1 \<le> T * F" "T * F \<le> 518.6 * 2.1" using T F by (intro mult_mono; simp)+
  have 1: "dnear (f2d t * f) (T * F) 0.016" by (rule dnear_mono [OF dnear_mul [OF dnear_f2d [OF t] f, where A = 519 and B = "2.1"]]) (use T F in simp_all)
  show 2: "near (d2f (f2d t * f)) (T * F) 0.017" by (rule near_mono [OF near_d2f [OF 1, where M = 1100]]) (use TF in simp_all)
  have "near (d2f (f2d t * f) / t) (T * F / T) 0.0001" by (rule near_mono [OF near_div [OF 2 t, where A = 1100 and L = 389]]) (use T TF in simp_all)
  then have "near (d2f (f2d t * f) / t) F 0.0001" using T by simp
  then show "near (d2f (f2d t * f) / t) F (F * 0.0001)" by (rule near_mono) (use F in simp)
qed

lemma gamma_exponent: "near (d2f (f2d (flit 1.4) / (f2d (flit 1.4) - lit 1))) 3.5 0.0001"
proof -
  note g = dnear_f2d [OF near_gamma]
  have l: "dnear (lit 1) 1 (1 / 2 ^ 50)" using dnear_mono [OF dnear_lit [of 1 1], of "1 / 2 ^ 50"] by simp
  have 1: "dnear (f2d (flit 1.4) - lit 1) (1.4 - 1) 0.0000011" by (rule dnear_mono [OF dnear_diff [OF g l, where M = 1]]) simp_all
  have 2: "dnear (f2d (flit 1.4) / (f2d (flit 1.4) - lit 1)) (1.4 / (1.4 - 1)) 0.00002"
    by (rule dnear_mono [OF dnear_div [OF g 1, where A = "1.4" and L = "0.39"]]) simp_all
  have "near (d2f (f2d (flit 1.4) / (f2d (flit 1.4) - lit 1))) (1.4 / (1.4 - 1)) 0.0001" by (rule near_mono [OF near_d2f [OF 2, where M = 4]]) simp_all
  then show ?thesis by simp
qed

lemma total_ratio_powr:
  fixes F :: real
  assumes "1 \<le> F" and "F \<le> 2.1"
  shows "1 \<le> F powr 3.5" "F powr 3.5 \<le> 20"
proof -
  show "1 \<le> F powr 3.5" using assms by (intro ge_one_powr_ge_zero) simp_all
  have "F powr 3.5 \<le> F powr 4" using assms by (intro powr_mono) simp_all
  also have "\<dots> = F ^ 4" using assms by (simp add: powr_numeral)
  also have "\<dots> \<le> 2.1 ^ 4" using assms by (intro power_mono) simp_all
  finally show "F powr 3.5 \<le> 20" by (simp add: power_divide)
qed

text \<open>Pounds per square foot to pounds per square inch.\<close>

lemma per_inch_near:
  assumes p: "near p P (P * d)" and P: "20 \<le> P" "P \<le> 50000" and d: "0 \<le> d" "d \<le> 0.1"
  shows "near (d2f (f2d p / lit 144)) (P / 144) (P / 144 * (d + 0.0001))"
proof -
  have Pd: "0 \<le> P * d" "P * d \<le> P * 0.1" using P d by (simp_all add: mult_left_mono)
  have l: "dfin (lit 144)" "dval (lit 144) = 144" using lit_int [of 144] by simp_all
  then have l: "dnear (lit 144) 144 0" by (simp add: dnear_def)
  define q where "q = P * d"
  have q: "0 \<le> q" "q \<le> P * 0.1" using Pd by (simp_all only: q_def)
  have 1: "dnear (f2d p / lit 144) (P / 144) (q / 144 + P / 2 ^ 50)"
    by (rule dnear_mono [OF dnear_div [OF dnear_f2d [OF p, folded q_def] l, where A = P and L = 144]]) (use P q in \<open>simp_all add: add_divide_distrib\<close>)
  have "near (d2f (f2d p / lit 144)) (P / 144) (q / 144 + P / 2 ^ 50 + P / 2 ^ 24 + 1 / 2 ^ 150)"
    by (rule near_d2f [OF 1]) (use P q in simp_all)
  then show ?thesis by (rule near_mono) (use P q in \<open>simp add: distrib_left q_def [symmetric]\<close>)
qed

section \<open>The task deduceInputs\<close>

lemma flight_conditions_near:
  assumes a: "ffin a" "0 \<le> fval a" "fval a < 82345" and v: "ffin v" "0 \<le> fval v" "fval v \<le> 1500"
  defines "T \<equiv> std_temp (fval a)" and "P \<equiv> std_pressure (fval a)" and "M \<equiv> mach_number (fval a) (fval v)"
  shows "\<exists>f. flight_conditions a v (flit 1.4) ts ps = Some f \<and> near (f_ts0 f) T 0.0001 \<and> near (f_ps0 f) (P / 144) (P / 144 * 0.015) \<and>
    near (f_fsmach f) M 0.00002 \<and> near (f_tt0 f) (T * total_ratio M) 0.017 \<and>
    near (f_pt0 f) (P / 144 * total_ratio M powr 3.5) (P / 144 * total_ratio M powr 3.5 * 0.03)"
proof -
  obtain t p where tp: "atmosphere a ts ps = Some (t, p)" "near t T 0.0001" "near p P (P * 0.014)" using atmosphere_near [OF a] unfolding T_def P_def by blast
  have T: "389.8 \<le> T" "T \<le> 518.6" using std_temp_range [OF a(2)] by (simp_all only: T_def)
  have P: "20 \<le> P" "P \<le> 2116" using std_pressure_range [OF a(2)] a(3) by (simp_all add: P_def)
  obtain c where c: "sqroot (flit 1.4 * flit 1718 * t) = Some c" "near c (sound_speed T) 0.004" using sound_speed_near [OF tp(2) T] by blast
  define m where "m = d2f (f2d v * lit 5280 / lit 3600) / c"
  have M: "0 \<le> M" "M \<le> 2.3" using mach_number_range [OF a(2) v(2,3)] by (simp_all only: M_def)
  have m: "near m M 0.00002" unfolding m_def M_def by (rule mach_near [OF airspeed_near [OF v] v(2,3) c(2) [unfolded T_def] a(2)])
  define F where "F = total_ratio M"
  have F: "1 \<le> F" "F \<le> 2.1" using total_ratio_range [OF M] by (simp_all only: F_def)
  define f where "f = lit 1 + lit 0.5 * (f2d (flit 1.4) - lit 1) * f2d m * f2d m"
  have f: "dnear f F 0.00003" using total_ratio_near [OF m M] by (simp only: f_def F_def)
  note tt = total_temp_near [OF tp(2) T f F]
  have F': "0.11 \<le> F" "F \<le> 9" using F by simp_all
  obtain r where r: "fpow (d2f (f2d t * f) / t) (d2f (f2d (flit 1.4) / (f2d (flit 1.4) - lit 1))) = Some r" "near r (F powr 3.5) (F powr 3.5 * 0.013)"
    using fpow_approx [OF tt(2) F' order_refl gamma_exponent order_refl] by auto
  note R = total_ratio_powr [OF F]
  have PR: "20 * 1 \<le> P * F powr 3.5" "P * F powr 3.5 \<le> 2116 * 20" using P R by (intro mult_mono; simp)+
  have "near (p * r) (P * F powr 3.5) (P * F powr 3.5 * (0.014 + 0.013 + 0.014 * 0.013 + 1 / 2 ^ 23))"
    by (rule near_mul_rel [OF tp(3) r(2)]) (use P R in simp_all)
  then have pr: "near (p * r) (P * F powr 3.5) (P * F powr 3.5 * 0.029)" by (rule near_mono) (use PR in simp)
  have 1: "near (d2f (f2d p / lit 144)) (P / 144) (P / 144 * 0.015)" by (rule near_mono [OF per_inch_near [OF tp(3)]]) (use P in simp_all)
  have 2: "near (d2f (f2d (p * r) / lit 144)) (P * F powr 3.5 / 144) (P * F powr 3.5 / 144 * 0.03)"
    by (rule near_mono [OF per_inch_near [OF pr]]) (use PR in simp_all)
  show ?thesis using tp c r [unfolded f_def] m tt(1) [unfolded f_def] 1 2
    by (simp add: flight_conditions_def Let_def F_def [symmetric] m_def [symmetric])
qed

text \<open>C23. \<^verbatim>\<open>deduceInputs\<close> computes the flight conditions: for every altitude from the ground to 82345 feet and every speed up to 1500 miles per hour it
  returns, with the temperature of the standard atmosphere up to a ten-thousandth of a degree, its pressure up to 1.5 percent, the Mach number up to
  0.00002, and temperature and pressure of the air brought to rest by the laws of isentropic flow, the pressure up to 3 percent. The power
  function of the code is the source of the errors in the pressures.\<close>

theorem deduceInputs_correct:
  assumes "gama s = flit 1.4" and "tt s \<noteq> []" and "pt s \<noteq> []"
    and "ffin (altd s)" and "0 \<le> fval (altd s)" and "fval (altd s) < 82345" and "ffin (u0d s)" and "0 \<le> fval (u0d s)" and "fval (u0d s) \<le> 1500"
  shows "\<exists>s'. deduceInputs s = Some s' \<and>
    near (ts0 s') (std_temp (fval (altd s))) 0.0001 \<and>
    near (psout s') (std_pressure (fval (altd s)) / 144) (std_pressure (fval (altd s)) / 144 * 0.015) \<and>
    near (fsmach s') (mach_number (fval (altd s)) (fval (u0d s))) 0.00002 \<and>
    near (tt s' ! 0) (std_temp (fval (altd s)) * total_ratio (mach_number (fval (altd s)) (fval (u0d s)))) 0.017 \<and>
    near (pt s' ! 0) (std_pressure (fval (altd s)) / 144 * total_ratio (mach_number (fval (altd s)) (fval (u0d s))) powr 3.5)
      (std_pressure (fval (altd s)) / 144 * total_ratio (mach_number (fval (altd s)) (fval (u0d s))) powr 3.5 * 0.03)"
proof -
  obtain f where "flight_conditions (altd s) (u0d s) (gama s) (ts0 s) (ps0 s) = Some f"
      "near (f_ts0 f) (std_temp (fval (altd s))) 0.0001"
      "near (f_ps0 f) (std_pressure (fval (altd s)) / 144) (std_pressure (fval (altd s)) / 144 * 0.015)"
      "near (f_fsmach f) (mach_number (fval (altd s)) (fval (u0d s))) 0.00002"
      "near (f_tt0 f) (std_temp (fval (altd s)) * total_ratio (mach_number (fval (altd s)) (fval (u0d s)))) 0.017"
      "near (f_pt0 f) (std_pressure (fval (altd s)) / 144 * total_ratio (mach_number (fval (altd s)) (fval (u0d s))) powr 3.5)
        (std_pressure (fval (altd s)) / 144 * total_ratio (mach_number (fval (altd s)) (fval (u0d s))) powr 3.5 * 0.03)"
    using flight_conditions_near [OF assms(4-9), of "ts0 s" "ps0 s"] assms(1) by auto
  then show ?thesis using assms(2,3) by (cases "tt s"; cases "pt s") (simp_all add: deduceInputs_def)
qed

theorem deduceInputs_correct_witness:
  "\<exists>s'. deduceInputs (parse_inputs (i2f 300) (i2f 1000) (i2f 80) (defaultParam boot_xeno)) = Some s' \<and> near (ts0 s') 515.04 0.0001 \<and>
    near (psout s') (std_pressure 1000 / 144) (std_pressure 1000 / 144 * 0.015) \<and> near (fsmach s') (mach_number 1000 300) 0.00002"
proof -
  let ?s = "parse_inputs (i2f 300) (i2f 1000) (i2f 80) (defaultParam boot_xeno)"
  have i: "ffin (i2f 1000)" "fval (i2f 1000) = 1000" "ffin (i2f 300)" "fval (i2f 300) = 300" using i2f_val [of 1000] i2f_val [of 300] by simp_all
  have s: "altd ?s = i2f 1000" "u0d ?s = i2f 300" "gama ?s = flit 1.4" "tt ?s \<noteq> []" "pt ?s \<noteq> []" by (simp_all add: parse_inputs_def defaultParam_def)
  have T: "std_temp 1000 = 515.04" by (simp add: std_temp_def)
  show ?thesis using deduceInputs_correct [OF s(3,4,5)] unfolding s(1,2) i(2,4) T using i by auto
qed

end
