(* ===== verification/XenoAir.thy ===== *)
theory XenoAir
  imports XenoFlight
begin

text \<open>
  The gas functions of \<^verbatim>\<open>XenoJetBench.c\<close>: how exact the corrected airflow of \<^verbatim>\<open>getAir\<close> is, and what \<^verbatim>\<open>getMach\<close> makes of it.
\<close>

section \<open>The corrected airflow\<close>

definition air_base :: "real \<Rightarrow> real \<Rightarrow> real" where
  "air_base M G = 1 + 0.5 * (G - 1) * M * M"

definition air_exponent :: "real \<Rightarrow> real" where
  "air_exponent G = (G + 1) / (2 * (G - 1))"

definition air_flow :: "real \<Rightarrow> real \<Rightarrow> real" where
  "air_flow M G = 0.50161 * sqrt G * M / air_base M G powr air_exponent G"

lemma air_lits:
  "dnear (lit 1) 1 (1 / 2 ^ 50)" "dnear (lit 2) 2 (1 / 2 ^ 50)" "dnear (lit 0.5) 0.5 (1 / 2 ^ 50)" "dnear (lit 0.50161) 0.50161 (1 / 2 ^ 50)"
  using dnear_mono [OF dnear_lit [of 1 1], of "1 / 2 ^ 50"] dnear_mono [OF dnear_lit [of 2 2], of "1 / 2 ^ 50"]
    dnear_mono [OF dnear_lit [of "0.5" 1], of "1 / 2 ^ 50"] dnear_mono [OF dnear_lit [of "0.50161" 1], of "1 / 2 ^ 50"] by simp_all

lemma gamma_minus_1:
  assumes g: "near g G 0.000001" and G: "1.25 \<le> G" "G \<le> 1.45"
  shows "dnear (f2d g - lit 1) (G - 1) 0.0000011"
  by (rule dnear_mono [OF dnear_diff [OF dnear_f2d [OF g] air_lits(1), where M = 1]]) (use G in simp_all)

lemma air_exponent_near:
  assumes g: "near g G 0.000001" and G: "1.25 \<le> G" "G \<le> 1.45"
  shows "near (d2f ((f2d g + lit 1) / (lit 2 * (f2d g - lit 1)))) (air_exponent G) 0.0001" "2.7 \<le> air_exponent G" "air_exponent G \<le> 4.5"
proof -
  have 1: "dnear (f2d g + lit 1) (G + 1) 0.0000011" by (rule dnear_mono [OF dnear_add [OF dnear_f2d [OF g] air_lits(1), where M = 3]]) (use G in simp_all)
  have 2: "dnear (lit 2 * (f2d g - lit 1)) (2 * (G - 1)) 0.0000023"
    by (rule dnear_mono [OF dnear_mul [OF air_lits(2) gamma_minus_1 [OF g G], where A = 2 and B = 1]]) (use G in simp_all)
  have 3: "dnear ((f2d g + lit 1) / (lit 2 * (f2d g - lit 1))) (air_exponent G) 0.00005"
    unfolding air_exponent_def by (rule dnear_mono [OF dnear_div [OF 1 2, where A = "2.5" and L = "0.49"]]) (use G in simp_all)
  show b: "2.7 \<le> air_exponent G" "air_exponent G \<le> 4.5" using G by (simp_all add: air_exponent_def field_simps)
  show "near (d2f ((f2d g + lit 1) / (lit 2 * (f2d g - lit 1)))) (air_exponent G) 0.0001"
    by (rule near_mono [OF near_d2f [OF 3, where M = 5]]) (use b in simp_all)
qed

lemma air_base_near:
  assumes g: "near g G 0.000001" and G: "1.25 \<le> G" "G \<le> 1.45" and m: "near m M 0.00002" and M: "0 \<le> M" "M \<le> 2.5"
  shows "near (d2f (lit 1 + lit 0.5 * (f2d g - lit 1) * f2d m * f2d m)) (air_base M G) 0.00005" "1 \<le> air_base M G" "air_base M G \<le> 2.5"
proof -
  define a where "a = 0.5 * (G - 1)"
  define b where "b = a * M"
  have a: "0 \<le> a" "a \<le> 0.225" using G by (simp_all add: a_def)
  have "a * M \<le> 0.225 * 2.5" using a M by (intro mult_mono) simp_all
  then have b: "0 \<le> b" "b \<le> 0.57" using a M by (simp_all add: b_def)
  have "b * M \<le> 0.57 * 2.5" using b M by (intro mult_mono) simp_all
  then have c: "0 \<le> b * M" "b * M \<le> 1.425" using b M by simp_all
  have 1: "dnear (lit 0.5 * (f2d g - lit 1)) a 0.0000006" unfolding a_def
    by (rule dnear_mono [OF dnear_mul [OF air_lits(3) gamma_minus_1 [OF g G], where A = "0.5" and B = "0.45"]]) (use G in simp_all)
  have 2: "dnear (lit 0.5 * (f2d g - lit 1) * f2d m) b 0.000007" unfolding b_def
    by (rule dnear_mono [OF dnear_mul [OF 1 dnear_f2d [OF m], where A = "0.225" and B = "2.5"]]) (use a M in simp_all)
  have 3: "dnear (lit 0.5 * (f2d g - lit 1) * f2d m * f2d m) (b * M) 0.00003"
    by (rule dnear_mono [OF dnear_mul [OF 2 dnear_f2d [OF m], where A = "0.57" and B = "2.5"]]) (use b M in simp_all)
  have 4: "dnear (lit 1 + lit 0.5 * (f2d g - lit 1) * f2d m * f2d m) (1 + b * M) 0.000031"
    by (rule dnear_mono [OF dnear_add [OF air_lits(1) 3, where M = 3]]) (use c in simp_all)
  have e: "air_base M G = 1 + b * M" by (simp only: air_base_def a_def b_def)
  show "1 \<le> air_base M G" "air_base M G \<le> 2.5" using c by (simp_all add: e)
  show "near (d2f (lit 1 + lit 0.5 * (f2d g - lit 1) * f2d m * f2d m)) (air_base M G) 0.00005"
    unfolding e by (rule near_mono [OF near_d2f [OF 4, where M = 3]]) (use c in simp_all)
qed

lemma root_gamma_near:
  assumes g: "near g G 0.000001" and G: "1.25 \<le> G" "G \<le> 1.45"
  shows "\<exists>r. sqroot g = Some r \<and> near r (sqrt G) 0.00001" "1 \<le> sqrt G" "sqrt G \<le> 1.21"
proof -
  have f: "1 \<le> fval g" "fval g \<le> 1.46" "ffin g" using nearD [OF g] G by simp_all
  from sqroot_ends [of g] obtain r where r: "sqroot g = Some r" "root_close g r" using f by (auto simp: root_range_def)
  have s: "\<bar>sqrt (fval g) - sqrt G\<bar> \<le> 0.000001 / (2 * 1)" by (rule sqrt_close) (use g G f in \<open>simp_all add: near_def\<close>)
  have "sqrt (fval g) \<le> 1.3" by (rule real_le_lsqrt) (use f in \<open>simp_all add: power2_eq_square\<close>)
  moreover have "\<bar>fval r - sqrt (fval g)\<bar> \<le> sqrt (fval g) / 2 ^ 20" "ffin r" using r(2) by (simp_all add: root_close_def)
  ultimately have "near r (sqrt G) 0.00001" using s unfolding near_def abs_le_iff by simp
  then show "\<exists>r. sqroot g = Some r \<and> near r (sqrt G) 0.00001" using r(1) by blast
  show "1 \<le> sqrt G" using G by simp
  show "sqrt G \<le> 1.21" by (rule real_le_lsqrt) (use G in \<open>simp_all add: power2_eq_square\<close>)
qed

text \<open>Division by a number with a relative error.\<close>

lemma div_rel_error:
  fixes a b x y d s :: real
  assumes a: "\<bar>a - x\<bar> \<le> d" and b: "\<bar>b - y\<bar> \<le> y * s" and y: "1 \<le> y" and s: "s \<le> 1 / 4" and x: "0 \<le> x"
  shows "\<bar>a / b - x / y\<bar> \<le> 4 / 3 * (d + x * s) / y" "b \<noteq> 0" "\<bar>a / b\<bar> \<le> 4 / 3 * (x + d)"
proof -
  have "y * s \<le> y * (1 / 4)" using y s by (intro mult_left_mono) simp_all
  then have b0: "3 / 4 * y \<le> b" using b by linarith
  then have b1: "0 < b" "0 < y" using y by simp_all
  then show "b \<noteq> 0" by simp
  have d0: "0 \<le> d" "\<bar>a\<bar> \<le> x + d" using a x by linarith+
  have "0 \<le> y * s" using b by linarith
  then have s0: "0 \<le> s" using b1 by (simp add: zero_le_mult_iff)
  have "a / b - x / y = ((a - x) + x * (y - b) / y) / b" using b1 by (simp add: field_simps)
  then have "\<bar>a / b - x / y\<bar> = \<bar>(a - x) + x * (y - b) / y\<bar> / b" using b1 by (simp only: abs_divide)
  also have "\<dots> \<le> (d + x * s) / (3 / 4 * y)"
  proof (rule frac_le)
    have "\<bar>x * (y - b) / y\<bar> = x * \<bar>b - y\<bar> / y" using b1 x by (simp add: abs_mult abs_minus_commute)
    also have "\<dots> \<le> x * (y * s) / y" using b b1 x by (intro divide_right_mono mult_left_mono) simp_all
    finally have "\<bar>x * (y - b) / y\<bar> \<le> x * s" using b1 by simp
    from order_trans [OF abs_triangle_ineq add_mono [OF a this]] show "\<bar>(a - x) + x * (y - b) / y\<bar> \<le> d + x * s" .
  qed (use b0 b1 d0 x s0 in simp_all)
  also have "\<dots> = 4 / 3 * (d + x * s) / y" by (simp add: field_simps)
  finally show "\<bar>a / b - x / y\<bar> \<le> 4 / 3 * (d + x * s) / y" .
  have "\<bar>a\<bar> / b \<le> (x + d) / (3 / 4)" by (rule frac_le) (use b0 y d0 x in simp_all)
  then show "\<bar>a / b\<bar> \<le> 4 / 3 * (x + d)" using b1 by simp
qed

lemma getAir_near:
  assumes g: "near g G 0.000001" and G: "1.25 \<le> G" "G \<le> 1.45" and m: "near m M 0.00002" and M: "0 \<le> M" "M \<le> 2.5"
  shows "\<exists>r. getAir m g = Some r \<and> near r (air_flow M G) (0.018 * air_flow M G + 0.0001)"
proof -
  define B where "B = air_base M G"
  define E where "E = air_exponent G"
  note b = air_base_near [OF g G m M, folded B_def] and e = air_exponent_near [OF g G, folded E_def]
  define fac2 where "fac2 = d2f ((f2d g + lit 1) / (lit 2 * (f2d g - lit 1)))"
  define base where "base = d2f (lit 1 + lit 0.5 * (f2d g - lit 1) * f2d m * f2d m)"
  have bb: "near base B (B * 0.0001)" unfolding base_def by (rule near_mono [OF b(1)]) (use b in simp)
  obtain fac1 where f: "fpow base fac2 = Some fac1" "near fac1 (B powr E) (B powr E * 0.013)"
    using fpow_approx [OF bb _ _ order_refl e(1) [folded fac2_def] order_refl] b e by auto
  have y: "1 \<le> B powr E" using b e by (intro ge_one_powr_ge_zero) simp_all
  obtain r where r: "sqroot g = Some r" "near r (sqrt G) 0.00001" using root_gamma_near(1) [OF g G] by blast
  note s = root_gamma_near(2,3) [OF g G]
  have 1: "dnear (lit 0.50161 * f2d r) (0.50161 * sqrt G) 0.00001"
    by (rule dnear_mono [OF dnear_mul [OF air_lits(4) dnear_f2d [OF r(2)], where A = "0.50161" and B = "1.21"]]) (use s in simp_all)
  define x where "x = 0.50161 * sqrt G * M"
  have 2: "dnear (lit 0.50161 * f2d r * f2d m) x 0.00005" unfolding x_def
    by (rule dnear_mono [OF dnear_mul [OF 1 dnear_f2d [OF m], where A = "0.61" and B = "2.5"]]) (use s M in simp_all)
  have "0.50161 * sqrt G * M \<le> 0.61 * 2.5" using s M by (intro mult_mono) simp_all
  then have x: "0 \<le> x" "x \<le> 1.6" using s M by (simp_all add: x_def)
  define w where "w = x / B powr E"
  have "\<bar>dval (f2d fac1) - B powr E\<bar> \<le> B powr E * 0.013" "(0.013 :: real) \<le> 1 / 4" using f(2) by (simp_all add: near_def)
  note q = div_rel_error [OF dnearD(5) [OF 2] this(1) y this(2) x(1)]
  define v where "v = dval (lit 0.50161 * f2d r * f2d m) / dval (f2d fac1)"
  have "4 / 3 * (0.00005 + x * 0.013) / B powr E = 4 / 3 * (0.00005 / B powr E) + 4 / 3 * 0.013 * w" by (simp add: w_def add_divide_distrib)
  moreover have "0.00005 / B powr E \<le> 0.00005" using y by (simp add: divide_le_eq)
  moreover have w: "0 \<le> w" "w \<le> 1.6" using x y by (simp_all add: w_def divide_le_eq)
  moreover have "\<bar>v - w\<bar> \<le> 4 / 3 * (0.00005 + x * 0.013) / B powr E" using q(1) by (simp only: v_def w_def)
  ultimately have v: "\<bar>v - w\<bar> \<le> 0.0174 * w + 0.00008" by simp
  have vb: "\<bar>v\<bar> \<le> 3" using q(3) x by (simp add: v_def)
  have 3: "dnear (lit 0.50161 * f2d r * f2d m / f2d fac1) w (0.0174 * w + 0.00009)"
    using dnear_rnd [OF v vb] double_div [OF dnearD(1) [OF 2], of "f2d fac1"] nearD(1) [OF f(2)] q(2) by (simp add: dnear_def v_def)
  have "near (d2f (lit 0.50161 * f2d r * f2d m / f2d fac1)) w (0.018 * w + 0.0001)"
    by (rule near_mono [OF near_d2f [OF 3, where M = 3]]) (use w in simp_all)
  moreover have "w = air_flow M G" by (simp only: w_def x_def air_flow_def B_def E_def)
  ultimately show ?thesis using f(1) r(1) by (simp add: getAir_def Let_def base_def fac2_def)
qed

text \<open>C24. \<^verbatim>\<open>getAir\<close> returns for every Mach number up to 2.5 and every ratio of specific heats from 1.25 to 1.45, with the corrected airflow per area of
  isentropic flow up to an error of 1.8 percent and 0.0001.\<close>

theorem getAir_correct:
  assumes "ffin mach" and "0 \<le> fval mach" and "fval mach \<le> 2.5" and "ffin gama2" and "1.25 \<le> fval gama2" and "fval gama2 \<le> 1.45"
  shows "\<exists>r. getAir mach gama2 = Some r \<and>
    near r (air_flow (fval mach) (fval gama2)) (0.018 * air_flow (fval mach) (fval gama2) + 0.0001)"
  by (rule getAir_near) (use assms in \<open>simp_all add: near_def\<close>)

theorem getAir_correct_witness: "\<exists>r. getAir (i2f 1) (flit 1.4) = Some r \<and>
    near r (air_flow 1 (fval (flit 1.4))) (0.018 * air_flow 1 (fval (flit 1.4)) + 0.0001)"
proof -
  have i: "ffin (i2f 1)" "fval (i2f 1) = 1" using i2f_val [of 1] by simp_all
  have g: "ffin (flit 1.4)" "1.25 \<le> fval (flit 1.4)" "fval (flit 1.4) \<le> 1.45" using nearD(1,2,3) [OF near_gamma] by simp_all
  show ?thesis using getAir_correct [OF i(1) _ _ g] i by simp
qed

section \<open>The Mach number of an airflow\<close>

text \<open>The airflow at Mach 1, in air.\<close>

lemma choked_airflow: "\<exists>c. getAir (flit 1) (flit 1.4) = Some c \<and> ffin c \<and> 0.335 \<le> fval c"
proof -
  have o: "near (flit 1) 1 0.00002" using near_mono [OF near_flit [of 1 1], of "0.00002"] by simp
  obtain c where c: "getAir (flit 1) (flit 1.4) = Some c" "near c (air_flow 1 1.4) (0.018 * air_flow 1 1.4 + 0.0001)"
    using getAir_near [OF near_gamma _ _ o] by auto
  have "(1.2 :: real) powr 3 = 1.2 ^ 3" by (simp add: powr_numeral)
  then have e: "air_flow 1 1.4 = 0.50161 * sqrt 1.4 / 1.2 ^ 3" by (simp add: air_flow_def air_base_def air_exponent_def)
  have "1.18 \<le> sqrt (1.4 :: real)" by (rule real_le_rsqrt) (simp add: power2_eq_square)
  then have "0.342 \<le> air_flow 1 1.4" unfolding e by (simp add: power3_eq_cube)
  then have "0.335 \<le> fval c" using nearD(3) [OF c(2)] by simp
  then show ?thesis using c(1) nearD(1) [OF c(2)] by blast
qed

text \<open>C25. In air, \<^verbatim>\<open>getMach\<close> returns 0.5 for every airflow from 0 to 0.33, which is the Mach number of the airflow 0.25618 only: \<^verbatim>\<open>abs\<close> is the function for
  integers, so that the loop that should improve the first guess never runs.\<close>

theorem getMach_ignores_airflow:
  assumes "ffin corair" and "0 \<le> fval corair" and "fval corair \<le> 0.33"
  shows "getMach 0 corair (flit 1.4) = Some (flit 0.5)"
proof -
  obtain c where c: "getAir (flit 1) (flit 1.4) = Some c" "ffin c" "0.335 \<le> fval c" using choked_airflow by blast
  have "\<not> c < corair" using float_less [OF c(2) assms(1)] c(3) assms(3) by simp
  moreover have "\<bar>fval corair - 0.25618\<bar> \<le> 0.99" unfolding abs_le_iff using assms(2,3) by simp
  ultimately show ?thesis by (intro getMach_constant [OF c(1)]) (use assms(1) in simp_all)
qed

theorem getMach_ignores_airflow_witness:
  "getMach 0 (i2f 0) (flit 1.4) = Some (flit 0.5) \<and> getMach 0 (flit 0.3) (flit 1.4) = Some (flit 0.5)"
proof -
  have z: "ffin (i2f 0)" "fval (i2f 0) = 0" using i2f_val [of 0] by simp_all
  have n: "near (flit 0.3) 0.3 0.0001" using near_mono [OF near_flit [of "0.3" 1], of "0.0001"] by simp
  have "getMach 0 (i2f 0) (flit 1.4) = Some (flit 0.5)" by (rule getMach_ignores_airflow) (use z in simp_all)
  moreover have "getMach 0 (flit 0.3) (flit 1.4) = Some (flit 0.5)" by (rule getMach_ignores_airflow) (use nearD(1,2,3) [OF n] in simp_all)
  ultimately show ?thesis by blast
qed

end
