(* ===== verification/Spec2Isabelle.thy ===== *)
theory Spec2Isabelle
  imports RtList Semaphore Mutex Event Mailbox MsgQueue Mempool Ringbuffer HeapAlloc Logger Deferrable KMem KPrintf Sensors Device Completion XenoRuns XenoAir
begin

text \<open>
  The program of this repository samples an accelerometer and a barometer on an STM32H7 board, simulates a jet engine and logs
  both on a flash memory. It runs on the RT-Thread kernel, whose sources are part of the repository. This development models
  the kernel and the program's own path from a measurement to the flash memory, and proves what makes them correct.

  \<^bold>\<open>The parts of the program.\<close> The kernel (\<^verbatim>\<open>rt-thread/src\<close>) schedules threads by priority, keeps timers, and offers semaphores,
  mutexes, events, mail boxes, message queues, memory pools and a heap; they share the lists of \<^verbatim>\<open>rtservice.h\<close>: a thread
  is on a ready list or on the list of one object, and its timer ends its waiting. Drivers
  (\<^verbatim>\<open>rt-thread/components/drivers\<close>, \<^verbatim>\<open>drivers\<close>, \<^verbatim>\<open>peripherals\<close>) sit on top: the byte ring of the console, the SPI bus with its mutex, the
  W25Q64 flash memory, the I2C bus in software with the MPU6050 and BMP280 sensors. The application (\<^verbatim>\<open>applications\<close>) has two threads that measure and simulate, and button interrupts that hand
  tasks to a deferrable server.

  \<^bold>\<open>How the code is read.\<close> A structure is a record, a pointer to a kernel object is a number, an address is a 32-bit word where the
  code computes with it, and machine integers are words of their width, so that ticks, counters, sizes and offsets wrap as
  they do in C. A function is a function on the state that returns an option: \<open>None\<close> is a call that does not return, because
  an assertion fails (they are active in this configuration), a pointer leads nowhere or a loop does not end. Code between
  the disabling and the enabling of interrupts, and code under a lock, is one step. A call that suspends its caller ends at the
  call of \<^verbatim>\<open>rt_schedule\<close> with the value \<open>Waiting\<close>; what the caller does when it runs again is a function of its own (\<open>_return\<close>),
  applied to whatever state the others have made by then. For code that calls several such functions, theory \<open>Calls\<close> composes
  them. Loops are recursive functions, \<^verbatim>\<open>partial_function (option)\<close> where they can run forever; theorems say that they return.
  The only fuel is the argument of \<open>erase_poll\<close>, the number of times a chip is asked whether it is busy: enough is one more than
  the number of its busy answers, and of \<open>heap_walk\<close>, which reads off the list of heap blocks.

  \<^bold>\<open>The theories.\<close>

  \<^item> \<open>Prelude\<close>: integer types, error codes, assertions, the insertion scan of sorted lists, word lemmas.
  \<^item> \<open>RtList\<close> (\<^verbatim>\<open>rtservice.h\<close>): doubly linked lists on a store of pointers refine lists; the locale \<open>node_lists\<close> is what the kernel
    relies on, and from there on a queue of the kernel is a list.
  \<^item> \<open>Kernel\<close> (\<^verbatim>\<open>rtdef.h\<close>): control blocks and the state of the kernel. \<open>Object\<close> (\<^verbatim>\<open>object.c\<close>): the containers of objects.
  \<^item> \<open>Scheduler\<close> (\<^verbatim>\<open>scheduler.c\<close>, \<^verbatim>\<open>irq.c\<close>, the bit searches) and \<open>SchedInv\<close>: the invariant of ready lists, bitmap and states; the
    thread of highest priority runs; round robin.
  \<^item> \<open>TimerBase\<close>, \<open>TimerRun\<close> (\<^verbatim>\<open>timer.c\<close>, \<^verbatim>\<open>clock.c\<close>): timer lists stay ordered across the wrap of the tick; the tick interrupt
    ends and wakes whoever is due. \<open>ThreadOps\<close> (\<^verbatim>\<open>thread.c\<close>, \<^verbatim>\<open>idle.c\<close>): life of threads, sleeping, priorities, clean-up.
  \<^item> \<open>Ipc\<close>, \<open>Semaphore\<close>, \<open>Mutex\<close>, \<open>Event\<close>, \<open>Mailbox\<close>, \<open>MsgQueue\<close> (\<^verbatim>\<open>ipc.c\<close>): the wait lists and each object's operations, on
    every branch; priority inheritance; no event, mail or message is lost.
  \<^item> \<open>Fifo\<close>: the locale \<open>fifo_buffer\<close> of bounded queues, interpreted for mail boxes, message queues and the byte ring.
  \<^item> \<open>Mempool\<close> (\<^verbatim>\<open>mempool.c\<close>): the free list in the pool; no block is handed out twice.
  \<^item> \<open>Heap\<close>, \<open>HeapBlocks\<close>, \<open>HeapAlloc\<close> (\<^verbatim>\<open>mem.c\<close>): the block headers; the chain of blocks; what \<^verbatim>\<open>rt_malloc\<close>, \<^verbatim>\<open>rt_free\<close> and \<^verbatim>\<open>rt_realloc\<close>
    do to the blocks in use and their contents.
  \<^item> \<open>Device\<close> (\<^verbatim>\<open>device.c\<close>): devices with their reference counts and open flags; the functions of a driver are parameters, and \<open>driver_ok\<close>
    says what the interface relies on. \<open>Completion\<close> (\<^verbatim>\<open>completion.c\<close>): the signal of an interrupt routine to the one thread that waits for it.
  \<^item> \<open>Ringbuffer\<close> (\<^verbatim>\<open>ringbuffer.c\<close>): the byte ring with its mirror bits.
  \<^item> \<open>Spi\<close> (\<^verbatim>\<open>spi_core.c\<close>, \<^verbatim>\<open>drv_spi.c\<close>), \<open>Flash\<close> (\<^verbatim>\<open>w25q64.c\<close>), \<open>Logger\<close> (\<^verbatim>\<open>procedure.c\<close>): a transfer under the mutex of the bus, the
    instructions of the chip, and the tasks that log records. The HAL and the chip are parameters; what the data sheet says of
    the chip is a named hypothesis (\<open>chip_enables\<close>, \<open>chip_programs\<close>, \<open>chip_reads\<close>, \<open>chip_erases\<close>), and a simulated chip shows that
    it can hold.
  \<^item> \<open>I2cBits\<close> (\<^verbatim>\<open>i2c-bit-ops.c\<close>), \<open>SoftI2c\<close> (\<^verbatim>\<open>drv_soft_i2c.c\<close>), \<open>Sensors\<close> (\<^verbatim>\<open>i2c_core.c\<close>, \<^verbatim>\<open>MPU6050.c\<close>, \<^verbatim>\<open>BMP280.c\<close>): the I2C master that
    moves two pins, from the delay on the counter of the processor to the registers of the sensors. The locale \<open>i2c_lines\<close> is what the
    I2C-bus specification promises of the lines; it is interpreted for the pins of the board.
  \<^item> \<open>Deferrable\<close> (\<^verbatim>\<open>deferrable.c\<close>, the button handlers of \<^verbatim>\<open>procedure.c\<close>): the server thread has a program counter, because interrupts come
    between its statements; a step relation interleaves it with insertions, timers and the other threads. Tasks are served in the
    order of their insertion, and a wake-up can be lost.
  \<^item> \<open>KMem\<close> (\<^verbatim>\<open>kservice.c\<close>): the memory loops that copy and fill word by word equal what they mean byte by byte; strings.
    \<open>KPrintf\<close> (\<^verbatim>\<open>kservice.c\<close>): formatted output stays in its buffer, and decimal numbers are read back.
  \<^item> \<open>Ieee\<close>: the arithmetic of C's \<^verbatim>\<open>float\<close> and \<^verbatim>\<open>double\<close> on the reals, rounding to nearest even, with infinities, NaN and signed zero, and the errors of
    its operations. No operation is fused with another, and a conversion to \<^verbatim>\<open>int\<close> that does not fit is \<open>None\<close>.
  \<^item> \<open>XenoMath\<close>, \<open>XenoPow\<close> (\<^verbatim>\<open>XenoJetBench.c\<close>, the math utilities): root, logarithm, exponential and power return and are exact up to a bound, although
    their series are cut off and every operation is rounded. \<open>XenoJet\<close>: the global variables of the simulation, its four tasks and the loop over
    the readings. \<open>XenoRuns\<close>: the readings do not influence each other. \<open>XenoFlight\<close>: the first task computes the standard atmosphere, the Mach number
    and the air brought to rest, up to a bound. \<open>XenoAir\<close>: the corrected airflow is that of isentropic flow, up to a bound, and the Mach number is
    not computed from it. What the formulas mean is defined on the reals (\<open>std_pressure\<close>, \<open>mach_number\<close>, \<open>total_ratio\<close>, \<open>air_flow\<close>).

  \<^bold>\<open>Not modelled.\<close> Of the simulation, its threads, mutexes and console output; the compensation formulas of the barometer and the thread that
  samples, of which only the path from the sensors and to the flash memory is here. The vendor's HAL and CMSIS code is access to memory-mapped
  registers. Code that the configuration switches off (SMP, modules, signals, the slab and memheap allocators) is left out, and
  so are hooks nobody sets, log output, and the components that only surround the kernel (shell, file systems, network).
\<close>

end
